(* ===== verification/Prelude.thy ===== *)
theory Prelude
  imports Main "HOL-Library.Word"
begin

text \<open>
  Shared vocabulary of the development: bytes, chunks and C strings, the big-endian
  byte-order helpers of \<open>utils/byteorder.h\<close>, the faults a run of the C code can end in,
  and the sequencing of fallible operations.  The collections \<open>res_simps\<close> and
  \<open>be_simps\<close> carry the automation of the component theories.
\<close>

unbundle bit_operations_syntax

named_theorems res_simps \<open>sequencing of fallible operations\<close>
named_theorems be_simps \<open>byte-order conversions\<close>

type_synonym byte = "8 word"
type_synonym chunk = "byte list"

text \<open>A C string is represented by the bytes before its terminating NUL.\<close>

type_synonym cstring = "byte list"

section \<open>Faults and sequencing\<close>

text \<open>
  \<open>Blocked\<close>: the calling thread waits on a lock that is never released;
  \<open>UseAfterFree\<close>: an object is used after its last reference was given back;
  \<open>Diverges\<close>: a loop does not stop; \<open>NullDeref\<close>: a NULL pointer is dereferenced;
  \<open>OutOfBounds\<close>: a buffer is written or read beyond its end; \<open>Panic\<close>: a library function
  aborts the process.
\<close>

datatype fault = Blocked | UseAfterFree | Diverges | NullDeref | OutOfBounds | Panic

type_synonym 'a res = "fault + 'a"

fun andThen :: "'a res \<Rightarrow> ('a \<Rightarrow> 'b res) \<Rightarrow> 'b res" where
  "andThen (Inl e) f = Inl e"
| "andThen (Inr x) f = f x"

declare andThen.simps [res_simps]

lemma andThen_Inr_iff: "andThen m f = Inr y \<longleftrightarrow> (\<exists>x. m = Inr x \<and> f x = Inr y)"
  by (cases m) auto

lemma andThen_InrE:
  assumes "andThen m f = Inr y"
  obtains x where "m = Inr x" and "f x = Inr y"
  using assms by (cases m) auto

lemma andThen_assoc: "andThen (andThen m f) g = andThen m (\<lambda>x. andThen (f x) g)"
  by (cases m) auto

section \<open>Bytes\<close>

lemma unat_byte_less: "unat (b :: byte) < 256"
  using unsigned_less [of b, where 'a = nat] by simp

section \<open>C strings\<close>

definition cstr :: "byte list \<Rightarrow> cstring" where
  "cstr bs = takeWhile (\<lambda>b. b \<noteq> 0) bs"

text \<open>
  \<open>strncpy (dst, src, n)\<close> into a zeroed buffer of more than \<open>n\<close> bytes: the C string the
  buffer then holds.
\<close>

definition strncpy :: "byte list \<Rightarrow> nat \<Rightarrow> cstring" where
  "strncpy src n = cstr (take n src)"

lemma length_strncpy: "length (strncpy src n) \<le> n"
  unfolding strncpy_def cstr_def
  by (rule order_trans [OF length_takeWhile_le]) simp

lemma cstr_no_nul: "0 \<notin> set bs \<Longrightarrow> cstr bs = bs"
  unfolding cstr_def by (induction bs) auto

lemma strncpy_no_nul: "0 \<notin> set (take n src) \<Longrightarrow> strncpy src n = take n src"
  unfolding strncpy_def by (rule cstr_no_nul)

lemma nul_notin_cstr: "0 \<notin> set (cstr bs)"
  unfolding cstr_def by (auto dest: set_takeWhileD)

lemma nul_notin_strncpy: "0 \<notin> set (strncpy src n)"
  unfolding strncpy_def by (rule nul_notin_cstr)

text \<open>\<open>isdigit\<close> of the C locale.\<close>

definition isdigit :: "byte \<Rightarrow> bool" where
  "isdigit b \<longleftrightarrow> 48 \<le> b \<and> b \<le> 57"

section \<open>Network byte order\<close>

text \<open>
  \<open>be_bytes n w\<close> is the value \<open>w\<close> in \<open>n\<close> bytes, most significant first (\<open>htoun16\<close>,
  \<open>htoun32\<close>, \<open>htoun64\<close>); \<open>be_word\<close> reads such a sequence back (\<open>untoh16\<close> and so on).
\<close>

fun be_bytes :: "nat \<Rightarrow> 'a::len word \<Rightarrow> byte list" where
  "be_bytes 0 w = []"
| "be_bytes (Suc n) w = be_bytes n (drop_bit 8 w) @ [ucast w]"

definition be_word :: "byte list \<Rightarrow> 'a::len word" where
  "be_word bs = foldl (\<lambda>a b. push_bit 8 a OR ucast b) 0 bs"

lemma length_be_bytes [simp]: "length (be_bytes n w) = n"
  by (induction n arbitrary: w) auto

lemma be_word_Nil [simp]: "be_word [] = 0"
  by (simp add: be_word_def)

lemma be_word_snoc [be_simps]: "be_word (bs @ [b]) = (push_bit 8 (be_word bs) OR ucast b)"
  by (simp add: be_word_def)

lemma push_take_ucast:
  fixes w :: "'a::len word"
  shows "push_bit 8 (take_bit (8 * n) (drop_bit 8 w)) OR ucast (ucast w :: byte)
    = take_bit (8 + 8 * n) w"
  by (rule bit_word_eqI) (auto simp: bit_simps)

theorem be_word_be_bytes [be_simps]: "be_word (be_bytes n w) = take_bit (8 * n) w"
proof (induction n arbitrary: w)
  case 0
  then show ?case by simp
next
  case (Suc n)
  then show ?case by (simp add: be_simps push_take_ucast)
qed

lemma be_word_be_bytes_full [be_simps]:
  fixes w :: "'a::len word"
  assumes "LENGTH('a) \<le> 8 * n"
  shows "be_word (be_bytes n w) = w"
  using assms by (simp add: be_word_be_bytes take_bit_word_eq_self)

text \<open>Bits and parts of such sequences, and the other round trip.\<close>

lemma bit_be_word:
  "bit (be_word bs :: 'a::len word) n \<longleftrightarrow>
     n < LENGTH('a) \<and> n < 8 * length bs \<and> bit (bs ! (length bs - 1 - n div 8)) (n mod 8)"
proof (induction bs arbitrary: n rule: rev_induct)
  case (snoc b bs)
  show ?case
  proof (cases "n < 8")
    case True
    then show ?thesis by (auto simp: be_simps bit_simps nth_append)
  next
    case False
    then obtain m where m: "n = m + 8" by (metis add.commute le_Suc_ex not_less)
    have "length bs - Suc (m div 8) < length bs" if "m < 8 * length bs" using that by (cases bs) auto
    moreover have "\<not> bit (b :: byte) (m + 8)" using bit_imp_le_length [of b "m + 8"] by auto
    moreover have "(m + 8) div 8 = Suc (m div 8)" by simp
    ultimately show ?thesis using snoc.IH [of m]
      by (auto simp: m be_simps bit_simps nth_append)
  qed
qed simp

lemma bit_be_bytes:
  "i < n \<Longrightarrow> bit (be_bytes n w ! i) j \<longleftrightarrow> j < 8 \<and> bit w (8 * (n - 1 - i) + j)"
proof (induction n arbitrary: w)
  case (Suc n)
  show ?case
  proof (cases "i = n")
    case True
    then show ?thesis by (auto simp: nth_append bit_simps dest: bit_imp_le_length)
  next
    case False
    then have "i < n" using Suc.prems by simp
    moreover obtain d where "n = Suc (i + d)" using \<open>i < n\<close> less_imp_Suc_add by blast
    ultimately show ?thesis using Suc.IH [of "drop_bit 8 w"] by (auto simp: nth_append bit_simps algebra_simps)
  qed
qed simp

lemma be_bytes_be_word:
  assumes "8 * length bs \<le> LENGTH('a::len)"
  shows "be_bytes (length bs) (be_word bs :: 'a word) = bs"
proof (rule nth_equalityI)
  fix i assume "i < length (be_bytes (length bs) (be_word bs :: 'a word))"
  then have i: "i < length bs" by simp
  show "be_bytes (length bs) (be_word bs :: 'a word) ! i = bs ! i"
  proof (rule bit_word_eqI)
    fix j assume "j < LENGTH(8)"
    then have j: "j < 8" by simp
    have "(8 * (length bs - 1 - i) + j) div 8 = length bs - 1 - i" "(8 * (length bs - 1 - i) + j) mod 8 = j"
      "8 * (length bs - 1 - i) + j < 8 * length bs" using i j by auto
    then show "bit (be_bytes (length bs) (be_word bs :: 'a word) ! i) j \<longleftrightarrow> bit (bs ! i) j"
      using i j assms by (simp add: bit_be_bytes bit_be_word)
  qed
qed simp

lemma take_be_bytes: "take n (be_bytes (n + m) w) = be_bytes n (drop_bit (8 * m) w)"
proof (induction m arbitrary: w)
  case (Suc m)
  then show ?case by (simp add: drop_bit_drop_bit add.commute)
qed simp

lemma drop_be_bytes: "drop n (be_bytes (n + m) w) = be_bytes m w"
  by (induction m arbitrary: w) simp_all

end
