(* ===== verification/Probing.thy ===== *)
theory Probing
  imports Prelude
begin

text \<open>
  Triangular probing: the \<open>p\<close>-th probe of a table of \<open>s\<close> rows starting at \<open>a\<close> is
  \<open>(a + p (p + 1) / 2) mod s\<close>.  For a power-of-two \<open>s\<close> the first \<open>s\<close> probes visit every row
  exactly once, which is what makes the loops of the hash table stop.
\<close>

definition tri :: "nat \<Rightarrow> nat" where "tri p = p * (p + 1) div 2"

lemma tri_Suc: "tri (Suc p) = tri p + Suc p"
  by (simp add: tri_def)

lemma two_tri: "2 * tri p = p * (p + 1)"
  by (simp add: tri_def)

lemma tri_less: "i < j \<Longrightarrow> tri i < tri j"
  by (induction j) (auto simp: tri_Suc less_Suc_eq)

lemma two_tri_diff: "i \<le> j \<Longrightarrow> 2 * (tri j - tri i) = (j - i) * (j + i + 1)"
proof -
  assume "i \<le> j"
  then obtain d where "j = i + d" using le_Suc_ex by blast
  then show ?thesis using two_tri [of i] two_tri [of j]
    by (simp add: diff_mult_distrib2 algebra_simps)
qed

lemma tri_mod_inj_aux:
  assumes "i < j" and "j < 2 ^ k"
  shows "(a + tri i) mod 2 ^ k \<noteq> (a + tri j) mod 2 ^ k"
proof
  assume eq: "(a + tri i) mod 2 ^ k = (a + tri j) mod 2 ^ k"
  have "(2::nat) ^ k dvd (a + tri j) - (a + tri i)"
    using eq mod_eq_dvd_iff_nat tri_less [OF assms(1)] by (metis add_le_cancel_left nat_less_le)
  then have "2 ^ k dvd tri j - tri i" by simp
  then have "2 * 2 ^ k dvd 2 * (tri j - tri i)" by (rule mult_dvd_mono [OF dvd_refl])
  then have dv: "2 ^ Suc k dvd (j - i) * (j + i + 1)"
    using two_tri_diff [of i j] assms(1) by simp
  have "odd ((j - i) + (j + i + 1))" using assms(1) by simp
  then have "odd (j - i) \<or> odd (j + i + 1)" by auto
  then show False
  proof
    assume "odd (j - i)"
    then have "coprime (2 ^ Suc k) (j - i)" by simp
    then have "2 ^ Suc k dvd j + i + 1" using dv coprime_dvd_mult_right_iff by blast
    then have "2 ^ Suc k \<le> j + i + 1" by (rule dvd_imp_le) simp
    then show False using assms by simp
  next
    assume "odd (j + i + 1)"
    then have "coprime (2 ^ Suc k) (j + i + 1)" by simp
    then have "2 ^ Suc k dvd j - i" using dv coprime_dvd_mult_left_iff by blast
    then have "2 ^ Suc k \<le> j - i" by (rule dvd_imp_le) (use assms in simp)
    then show False using assms by simp
  qed
qed

definition probe :: "nat \<Rightarrow> nat \<Rightarrow> nat \<Rightarrow> nat" where
  "probe s a p = (a + tri p) mod s"

lemma inj_on_probe: "inj_on (probe (2 ^ k) a) {..<2 ^ k}"
  unfolding inj_on_def probe_def by (metis lessThan_iff linorder_neqE_nat tri_mod_inj_aux)

lemma probe_covers: "r < 2 ^ k \<Longrightarrow> \<exists>p < 2 ^ k. probe (2 ^ k) a p = r"
proof -
  assume "r < 2 ^ k"
  have "probe (2 ^ k) a ` {..<2 ^ k} \<subseteq> {..<2 ^ k}" by (auto simp: probe_def)
  then have "probe (2 ^ k) a ` {..<2 ^ k} = {..<2 ^ k}"
    by (rule card_subset_eq [OF finite_lessThan]) (simp add: card_image inj_on_probe)
  with \<open>r < 2 ^ k\<close> show ?thesis by (metis imageE lessThan_iff)
qed

lemma and_pow2_minus_1: "n AND (2 ^ k - 1) = n mod (2 ^ k :: nat)"
  unfolding mask_eq_exp_minus_1 [symmetric] take_bit_eq_mask [symmetric] take_bit_eq_mod ..

lemma probe_Suc: "(probe (2 ^ k) a p + (p + 1)) AND (2 ^ k - 1) = probe (2 ^ k) a (Suc p)"
  unfolding and_pow2_minus_1 probe_def tri_Suc by (simp only: mod_add_left_eq add.assoc Suc_eq_plus1)

end
