(* ===== verification/Dict.thy ===== *)
theory Dict
  imports Prelude
begin

text \<open>
  The contract of a mutable dictionary, as the clients of \<open>hashtable_t\<close> rely on it: every
  operation returns (the outer \<^const>\<open>Some\<close>), \<open>put\<close> and \<open>remove\<close> answer the previous value,
  and the contents follow a finite map as long as there is room to grow.
\<close>

datatype ('k, 'v) dict_op = OpGet 'k | OpPut 'k 'v | OpRemove 'k

text \<open>The reference: one operation on a finite map, with the value it answers.\<close>

fun map_op :: "('k, 'v) dict_op \<Rightarrow> ('k \<Rightarrow> 'v option) \<Rightarrow> 'v option \<times> ('k \<Rightarrow> 'v option)" where
  "map_op (OpGet k) m = (m k, m)"
| "map_op (OpPut k v) m = (m k, m(k \<mapsto> v))"
| "map_op (OpRemove k) m = (m k, m(k := None))"

fun map_run :: "('k, 'v) dict_op list \<Rightarrow> ('k \<Rightarrow> 'v option) \<Rightarrow> 'v option list" where
  "map_run [] m = []"
| "map_run (x # xs) m = (case map_op x m of (r, m') \<Rightarrow> r # map_run xs m')"

locale dict =
  fixes lookup :: "'t \<Rightarrow> 'k \<Rightarrow> 'v option option"
    and update :: "'t \<Rightarrow> 'k \<Rightarrow> 'v \<Rightarrow> ('v option \<times> 't) option"
    and delete :: "'t \<Rightarrow> 'k \<Rightarrow> ('v option \<times> 't) option"
    and invar :: "'t \<Rightarrow> bool"
    and load :: "'t \<Rightarrow> nat"
    and limit :: nat
    and contents :: "'t \<Rightarrow> 'k \<Rightarrow> 'v option"
  assumes lookup_spec: "invar t \<Longrightarrow> lookup t k = Some (contents t k)"
    and update_spec: "invar t \<Longrightarrow> load t \<le> limit \<Longrightarrow>
      \<exists>t'. update t k v = Some (contents t k, t') \<and> invar t' \<and> load t' \<le> load t + 1
        \<and> contents t' = (contents t)(k \<mapsto> v)"
    and delete_spec: "invar t \<Longrightarrow>
      \<exists>t'. delete t k = Some (contents t k, t') \<and> invar t' \<and> load t' \<le> load t
        \<and> contents t' = (contents t)(k := None)"
begin

text \<open>Removing a key and putting it back is a replacement that meets an empty slot.\<close>

lemma replace_spec:
  assumes "invar t" and "load t \<le> limit"
  shows "\<exists>t1 t2. delete t k = Some (contents t k, t1) \<and> update t1 k v = Some (None, t2) \<and> invar t2
    \<and> contents t2 = (contents t)(k \<mapsto> v) \<and> load t2 \<le> load t + 1"
proof -
  obtain t1 where t1: "delete t k = Some (contents t k, t1)" "invar t1" "load t1 \<le> load t"
    "contents t1 = (contents t)(k := None)"
    using delete_spec [OF assms(1)] by blast
  obtain t2 where "update t1 k v = Some (contents t1 k, t2)" "invar t2" "load t2 \<le> load t1 + 1"
    "contents t2 = (contents t1)(k \<mapsto> v)"
    using update_spec [OF t1(2), of k v] t1(3) assms(2) by auto
  with t1 show ?thesis by auto
qed

fun step_op :: "('k, 'v) dict_op \<Rightarrow> 't \<Rightarrow> ('v option \<times> 't) option" where
  "step_op (OpGet k) t = map_option (\<lambda>r. (r, t)) (lookup t k)"
| "step_op (OpPut k v) t = update t k v"
| "step_op (OpRemove k) t = delete t k"

lemma step_op_spec:
  assumes "invar t" and "load t \<le> limit"
  shows "\<exists>t'. step_op x t = Some (fst (map_op x (contents t)), t') \<and> invar t' \<and> load t' \<le> load t + 1
    \<and> contents t' = snd (map_op x (contents t))"
proof (cases x)
  case (OpGet k)
  then show ?thesis using lookup_spec [OF assms(1)] assms(1) by simp
next
  case (OpPut k v)
  then show ?thesis using update_spec [OF assms] by simp
next
  case (OpRemove k)
  then show ?thesis using delete_spec [OF assms(1), of k] by (auto intro: le_SucI)
qed

end

end
