(* ===== verification/Hashtable.thy ===== *)
theory Hashtable
  imports Probing Dict
begin

text \<open>
  The open-addressing hash table of \<open>libstrongswan/collections/hashtable.c\<close>: a table of
  indices into an array of items, probed in triangular steps over a power-of-two size.
  Removed items stay in the array as tombstones until the table is rehashed.

  \<open>items\<close> is the used prefix of the allocated array (\<open>items_count\<close> is its length,
  \<open>capacity\<close> the allocated number of entries); index 0 in \<open>table\<close> marks an unused row, and
  a stored index is one more than the item's position.  The probing loops carry fuel and
  answer \<^const>\<open>None\<close> when it runs out; \<open>find_key_total\<close> shows that the \<open>size\<close> units they get
  are always enough.
\<close>

section \<open>Data\<close>

record ('k, 'v) pair =
  pkey :: "'k option"
  pvalue :: 'v
  phash :: "32 word"

record ('k, 'v) hashtable =
  ht_count :: nat
  ht_size :: nat
  ht_mask :: nat
  ht_items :: "('k, 'v) pair list"
  ht_capacity :: nat
  ht_table :: "nat list"
  hashf :: "'k \<Rightarrow> 32 word"
  equals :: "'k \<Rightarrow> 'k \<Rightarrow> bool"

abbreviation items_count :: "('k, 'v) hashtable \<Rightarrow> nat" where
  "items_count t \<equiv> length (ht_items t)"

definition MIN_SIZE :: nat where "MIN_SIZE = 8"
definition MAX_SIZE :: nat where "MAX_SIZE = 2 ^ 30"
definition CAPACITY :: "nat \<Rightarrow> nat" where "CAPACITY s = s div 3 * 2"
definition RESIZE_FACTOR :: nat where "RESIZE_FACTOR = 3"

section \<open>Operations\<close>

definition get_index :: "('k, 'v) hashtable \<Rightarrow> nat \<Rightarrow> nat" where
  "get_index t row = ht_table t ! row"

text \<open>The entries of \<open>table\<close> are 8, 16 or 32 bits wide, depending on the capacity.\<close>

definition index_width :: "nat \<Rightarrow> nat" where
  "index_width cap = (if cap \<le> 0xff then 8 else if cap \<le> 0xffff then 16 else 32)"

definition set_index :: "('k, 'v) hashtable \<Rightarrow> nat \<Rightarrow> nat \<Rightarrow> ('k, 'v) hashtable" where
  "set_index t row index =
     t\<lparr>ht_table := (ht_table t)[row := index mod 2 ^ index_width (ht_capacity t)]\<rparr>"

text \<open>The loop of \<open>hashtable_get_nearest_powerof2\<close> runs with \<open>i = 1, 2, 4, 8, 16\<close>.\<close>

definition smear :: "nat \<Rightarrow> 32 word \<Rightarrow> 32 word" where
  "smear i n = (n OR drop_bit i n)"

definition get_nearest_powerof2 :: "32 word \<Rightarrow> 32 word" where
  "get_nearest_powerof2 n = fold smear [1, 2, 4, 8, 16] (n - 1) + 1"

definition init_hashtable :: "('k, 'v) hashtable \<Rightarrow> nat \<Rightarrow> ('k, 'v) hashtable" where
  "init_hashtable t sz =
     (let s = unat (get_nearest_powerof2 (of_nat (max MIN_SIZE (min sz MAX_SIZE))))
      in t\<lparr>ht_size := s, ht_mask := s - 1, ht_capacity := CAPACITY s, ht_items := [],
           ht_table := replicate s 0\<rparr>)"

definition get_next :: "('k, 'v) hashtable \<Rightarrow> nat \<Rightarrow> nat \<Rightarrow> nat" where
  "get_next t row p = (row + p) AND ht_mask t"

definition first_row :: "('k, 'v) hashtable \<Rightarrow> 32 word \<Rightarrow> nat" where
  "first_row t h = unat h AND ht_mask t"

datatype found = Pair nat | NoPair nat

fun find_loop :: "nat \<Rightarrow> ('k, 'v) hashtable \<Rightarrow> 'k \<Rightarrow> 32 word \<Rightarrow> nat \<Rightarrow> nat \<Rightarrow> nat option
    \<Rightarrow> found option" where
  "find_loop 0 t k h row p removed = None"
| "find_loop (Suc fuel) t k h row p removed =
     (let index = get_index t row in
      if index = 0 then Some (NoPair (case removed of Some r \<Rightarrow> r | None \<Rightarrow> row))
      else
        let pair = ht_items t ! (index - 1);
            row' = get_next t row (p + 1) in
        case pkey pair of
          None \<Rightarrow>
            find_loop fuel t k h row' (p + 1) (case removed of None \<Rightarrow> Some row | Some r \<Rightarrow> Some r)
        | Some k' \<Rightarrow>
            if phash pair = h \<and> equals t k k' then Some (Pair (index - 1))
            else find_loop fuel t k h row' (p + 1) removed)"

text \<open>\<open>want\<close> tells whether the caller asked for the row (\<open>put\<close>) or not (\<open>get\<close>, \<open>remove\<close>).\<close>

definition find_key :: "('k, 'v) hashtable \<Rightarrow> 'k \<Rightarrow> bool \<Rightarrow> found option" where
  "find_key t k want =
     (if ht_count t = 0 \<and> \<not> want then Some (NoPair 0)
      else let h = hashf t k in find_loop (ht_size t) t k h (first_row t h) 0 None)"

definition insert_item :: "('k, 'v) hashtable \<Rightarrow> nat \<Rightarrow> ('k, 'v) pair \<Rightarrow> ('k, 'v) hashtable" where
  "insert_item t row pair = (set_index t row (items_count t + 1))\<lparr>ht_items := ht_items t @ [pair]\<rparr>"

fun free_row :: "nat \<Rightarrow> ('k, 'v) hashtable \<Rightarrow> nat \<Rightarrow> nat \<Rightarrow> nat option" where
  "free_row 0 t row p = None"
| "free_row (Suc fuel) t row p =
     (if get_index t row = 0 then Some row
      else free_row fuel t (get_next t row (p + 1)) (p + 1))"

fun reinsert :: "('k, 'v) pair list \<Rightarrow> ('k, 'v) hashtable \<Rightarrow> ('k, 'v) hashtable option" where
  "reinsert [] t = Some t"
| "reinsert (pair # ps) t =
     (if pkey pair = None then reinsert ps t
      else case free_row (ht_size t) t (first_row t (phash pair)) 0 of
             None \<Rightarrow> None
           | Some row \<Rightarrow> reinsert ps (insert_item t row pair))"

text \<open>The result pairs the return value of \<open>rehash\<close> with the new table.\<close>

definition rehash :: "('k, 'v) hashtable \<Rightarrow> nat \<Rightarrow> (bool \<times> ('k, 'v) hashtable) option" where
  "rehash t sz =
     (if sz > MAX_SIZE then Some (False, t)
      else let t' = init_hashtable t sz in
        if ht_count t' = 0 then Some (True, t')
        else map_option (\<lambda>t''. (True, t'')) (reinsert (ht_items t) t'))"

definition put_found :: "('k, 'v) hashtable \<Rightarrow> 'k \<Rightarrow> 'v \<Rightarrow> found \<Rightarrow> 'v option \<times> ('k, 'v) hashtable"
where
  "put_found t k v r =
     (case r of
        Pair i \<Rightarrow>
          (Some (pvalue (ht_items t ! i)),
           t\<lparr>ht_items := (ht_items t)[i := (ht_items t ! i)\<lparr>pkey := Some k, pvalue := v\<rparr>]\<rparr>)
      | NoPair row \<Rightarrow>
          (None, (insert_item t row \<lparr>pkey = Some k, pvalue = v, phash = hashf t k\<rparr>)
                   \<lparr>ht_count := ht_count t + 1\<rparr>))"

definition ht_put :: "('k, 'v) hashtable \<Rightarrow> 'k \<Rightarrow> 'v \<Rightarrow> ('v option \<times> ('k, 'v) hashtable) option" where
  "ht_put t k v =
     (case (if items_count t \<ge> ht_capacity t then rehash t (ht_count t * RESIZE_FACTOR)
            else Some (True, t)) of
        None \<Rightarrow> None
      | Some (ok, t') \<Rightarrow>
          if \<not> ok then Some (None, t')
          else map_option (put_found t' k v) (find_key t' k True))"

definition ht_get :: "('k, 'v) hashtable \<Rightarrow> 'k \<Rightarrow> 'v option option" where
  "ht_get t k =
     map_option (\<lambda>r. case r of Pair i \<Rightarrow> Some (pvalue (ht_items t ! i)) | NoPair _ \<Rightarrow> None)
       (find_key t k False)"

definition remove_internal :: "('k, 'v) hashtable \<Rightarrow> nat \<Rightarrow> 'v \<times> ('k, 'v) hashtable" where
  "remove_internal t i =
     (pvalue (ht_items t ! i),
      t\<lparr>ht_items := (ht_items t)[i := (ht_items t ! i)\<lparr>pkey := None\<rparr>], ht_count := ht_count t - 1\<rparr>)"

definition ht_remove :: "('k, 'v) hashtable \<Rightarrow> 'k \<Rightarrow> ('v option \<times> ('k, 'v) hashtable) option" where
  "ht_remove t k =
     map_option
       (\<lambda>r. case r of
              Pair i \<Rightarrow> (case remove_internal t i of (v, t') \<Rightarrow> (Some v, t'))
            | NoPair _ \<Rightarrow> (None, t))
       (find_key t k False)"

text \<open>The enumerator visits the items that still have a key, in insertion order.\<close>

definition ht_entries :: "('k, 'v) hashtable \<Rightarrow> ('k \<times> 'v) list" where
  "ht_entries t = map (\<lambda>p. (the (pkey p), pvalue p)) (filter (\<lambda>p. pkey p \<noteq> None) (ht_items t))"

definition hashtable_create :: "('k \<Rightarrow> 32 word) \<Rightarrow> ('k \<Rightarrow> 'k \<Rightarrow> bool) \<Rightarrow> nat \<Rightarrow> ('k, 'v) hashtable"
where
  "hashtable_create h eq sz =
     init_hashtable
       \<lparr>ht_count = 0, ht_size = 0, ht_mask = 0, ht_items = [], ht_capacity = 0, ht_table = [], hashf = h,
        equals = eq\<rparr> sz"

section \<open>Rounding up to a power of two\<close>

lemma smear_bit:
  assumes "\<And>i. bit a i \<longleftrightarrow> (\<exists>j < w. bit n (i + j))"
  shows "bit (a OR drop_bit w a) i \<longleftrightarrow> (\<exists>j < w + w. bit (n :: 32 word) (i + j))"
proof -
  have "(\<exists>j < w + w. bit n (i + j)) \<longleftrightarrow> (\<exists>j < w. bit n (i + j)) \<or> (\<exists>j < w. bit n (i + w + j))"
    by (metis (no_types, opaque_lifting) add.assoc add_diff_inverse_nat nat_add_left_cancel_less trans_less_add1)
  then show ?thesis by (simp add: bit_simps assms add.commute)
qed
lemma bit_fold_smear: "bit (fold smear [1, 2, 4, 8, 16] n) i \<longleftrightarrow> (\<exists>j < 32. bit n (i + j))"
proof -
  define s1 where "s1 = smear 1 n"
  define s2 where "s2 = smear 2 s1"
  define s4 where "s4 = smear 4 s2"
  define s8 where "s8 = smear 8 s4"
  have 1: "bit s1 i \<longleftrightarrow> (\<exists>j < 2. bit n (i + j))" for i
    using smear_bit [of n 1 n i] unfolding s1_def smear_def by (simp add: numeral_2_eq_2)
  have 2: "bit s2 i \<longleftrightarrow> (\<exists>j < 4. bit n (i + j))" for i
    using smear_bit [of s1 2 n i, OF 1] unfolding s2_def smear_def by simp
  have 4: "bit s4 i \<longleftrightarrow> (\<exists>j < 8. bit n (i + j))" for i
    using smear_bit [of s2 4 n i, OF 2] unfolding s4_def smear_def by simp
  have 8: "bit s8 i \<longleftrightarrow> (\<exists>j < 16. bit n (i + j))" for i
    using smear_bit [of s4 8 n i, OF 4] unfolding s8_def smear_def by simp
  show ?thesis
    using smear_bit [of s8 16 n i, OF 8]
    by (simp add: s1_def s2_def s4_def s8_def smear_def)
qed

lemma fold_smear_mask:
  assumes "unat m < 2 ^ k" and "k = 0 \<or> 2 ^ (k - 1) \<le> unat m" and "k \<le> 32"
  shows "fold smear [1, 2, 4, 8, 16] m = mask k"
proof (rule bit_word_eqI)
  fix i assume "i < LENGTH(32)"
  have bm: "bit m j \<longleftrightarrow> odd (unat m div 2 ^ j)" for j
    by (simp add: bit_iff_odd [symmetric] bit_unsigned_iff)
  show "bit (fold smear [1, 2, 4, 8, 16] m) i \<longleftrightarrow> bit (mask k :: 32 word) i"
  proof (cases "i < k")
    case True
    then have "2 ^ (k - 1) \<le> unat m" using assms(2) by auto
    moreover have "unat m < 2 * 2 ^ (k - 1)" using assms(1) True by (cases k) auto
    ultimately have "unat m div 2 ^ (k - 1) = 1" by (simp add: div_nat_eqI)
    then have "bit m (k - 1)" using bm True assms(3) by simp
    then have "\<exists>j < 32. bit m (i + j)"
      using True assms(3) by (intro exI [of _ "k - 1 - i"]) auto
    then show ?thesis using True assms(3) unfolding bit_fold_smear by (simp add: bit_mask_iff)
  next
    case False
    have "\<not> bit m (i + j)" for j
    proof -
      have "unat m < 2 ^ (i + j)"
        using assms(1) False by (metis le_add1 less_le_trans not_less one_le_numeral order_trans power_increasing)
      then show ?thesis using bm by simp
    qed
    then show ?thesis using False unfolding bit_fold_smear by (simp add: bit_mask_iff)
  qed
qed

lemma unat_pow2: "k < 32 \<Longrightarrow> unat (2 ^ k :: 32 word) = 2 ^ k"
proof -
  assume "k < 32"
  then have "(2::nat) ^ k < 2 ^ 32" by (rule power_strict_increasing) simp
  moreover have "(2 ^ k :: 32 word) = of_nat (2 ^ k)" by simp
  ultimately show ?thesis by (simp only: unat_of_nat len_num1 len_bit0 mult_2 mod_less)
      (simp add: take_bit_eq_mod)
qed

lemma nearest_powerof2:
  assumes "1 \<le> n" and "n \<le> 2 ^ 31"
  shows "\<exists>k. unat (get_nearest_powerof2 n) = 2 ^ k \<and> unat n \<le> 2 ^ k \<and> 2 ^ k < 2 * unat n"
proof -
  have n: "1 \<le> unat n" "unat n \<le> 2 ^ 31"
    using assms by (simp_all add: word_le_nat_alt)
  have m: "unat (n - 1) = unat n - 1" using unat_sub [OF assms(1)] by simp
  define k where "k = (LEAST k. unat (n - 1) < 2 ^ k)"
  have 1: "unat (n - 1) < 2 ^ k" unfolding k_def by (rule LeastI [of _ 31]) (use n m in simp)
  have 31: "k \<le> 31" unfolding k_def by (rule Least_le) (use n m in simp)
  have 2: "k = 0 \<or> 2 ^ (k - 1) \<le> unat (n - 1)"
  proof (cases k)
    case (Suc j)
    then have "\<not> unat (n - 1) < 2 ^ j" unfolding k_def using not_less_Least by (metis lessI)
    then show ?thesis using Suc by simp
  qed simp
  have "get_nearest_powerof2 n = 2 ^ k"
    unfolding get_nearest_powerof2_def
    by (subst fold_smear_mask [OF 1 2]) (use 31 in \<open>simp_all add: mask_eq_exp_minus_1\<close>)
  then have "unat (get_nearest_powerof2 n) = 2 ^ k" using 31 by (simp add: unat_pow2)
  moreover have "unat n \<le> 2 ^ k" using 1 m n by simp
  moreover have "2 ^ k < 2 * unat n"
    using 2 m n by (cases k) auto
  ultimately show ?thesis by blast
qed

section \<open>Invariant and abstraction\<close>

definition prow :: "('k, 'v) hashtable \<Rightarrow> 32 word \<Rightarrow> nat \<Rightarrow> nat" where
  "prow t h p = probe (ht_size t) (unat h) p"

definition on_path :: "('k, 'v) hashtable \<Rightarrow> 32 word \<Rightarrow> nat \<Rightarrow> bool" where
  "on_path t h r \<longleftrightarrow> (\<exists>p < ht_size t. r = prow t h p \<and> (\<forall>q < p. ht_table t ! prow t h q \<noteq> 0))"

definition live :: "('k, 'v) hashtable \<Rightarrow> nat \<Rightarrow> 'k \<Rightarrow> bool" where
  "live t i k \<longleftrightarrow> i < items_count t \<and> pkey (ht_items t ! i) = Some k"

definition ht_shape :: "('k, 'v) hashtable \<Rightarrow> bool" where
  "ht_shape t \<longleftrightarrow> (\<exists>k. ht_size t = 2 ^ k) \<and> ht_mask t = ht_size t - 1
     \<and> ht_capacity t = CAPACITY (ht_size t) \<and> MIN_SIZE \<le> ht_size t \<and> ht_size t \<le> MAX_SIZE
     \<and> length (ht_table t) = ht_size t \<and> items_count t \<le> ht_capacity t
     \<and> equals t = (\<lambda>a b. a = b)"

definition ht_rows :: "('k, 'v) hashtable \<Rightarrow> bool" where
  "ht_rows t \<longleftrightarrow> (\<forall>r < ht_size t. ht_table t ! r \<le> items_count t)
     \<and> card {r. r < ht_size t \<and> ht_table t ! r \<noteq> 0} \<le> items_count t"

definition ht_paths :: "('k, 'v) hashtable \<Rightarrow> bool" where
  "ht_paths t \<longleftrightarrow> (\<forall>i k. live t i k \<longrightarrow> phash (ht_items t ! i) = hashf t k
     \<and> (\<exists>r. on_path t (hashf t k) r \<and> ht_table t ! r = i + 1))"

definition ht_unique :: "('k, 'v) hashtable \<Rightarrow> bool" where
  "ht_unique t \<longleftrightarrow> distinct (map fst (ht_entries t))"

definition ht_counted :: "('k, 'v) hashtable \<Rightarrow> bool" where
  "ht_counted t \<longleftrightarrow> ht_count t = length (ht_entries t)"

definition ht_inv :: "('k, 'v) hashtable \<Rightarrow> bool" where
  "ht_inv t \<longleftrightarrow> ht_shape t \<and> ht_rows t \<and> ht_paths t \<and> ht_unique t \<and> ht_counted t"

definition ht_abs :: "('k, 'v) hashtable \<Rightarrow> 'k \<Rightarrow> 'v option" where
  "ht_abs t = map_of (ht_entries t)"

lemmas ht_inv_defs = ht_inv_def ht_shape_def ht_rows_def ht_paths_def ht_unique_def

lemma prow_less: "ht_shape t \<Longrightarrow> prow t h p < ht_size t"
  by (auto simp: ht_shape_def prow_def probe_def)

lemma first_row_prow: "ht_shape t \<Longrightarrow> first_row t h = prow t h 0"
  by (auto simp: ht_shape_def first_row_def prow_def probe_def tri_def and_pow2_minus_1
      simp del: One_nat_def)

lemma get_next_prow: "ht_shape t \<Longrightarrow> get_next t (prow t h p) (p + 1) = prow t h (Suc p)"
  unfolding ht_shape_def get_next_def prow_def using probe_Suc by metis

lemma capacity_less_size: "ht_shape t \<Longrightarrow> ht_capacity t < ht_size t"
  by (auto simp: ht_shape_def CAPACITY_def MIN_SIZE_def)

text \<open>Fewer items than rows: some row on every probe path is unused.\<close>

lemma unused_row:
  assumes "ht_shape t" and "ht_rows t"
  shows "\<exists>p < ht_size t. ht_table t ! prow t h p = 0"
proof -
  have "items_count t < ht_size t"
    using capacity_less_size [OF assms(1)] assms(1) by (simp add: ht_shape_def)
  then have "card {r. r < ht_size t \<and> ht_table t ! r \<noteq> 0} < card {..<ht_size t}"
    using assms(2) by (simp add: ht_rows_def)
  then have "{r. r < ht_size t \<and> ht_table t ! r \<noteq> 0} \<noteq> {..<ht_size t}" by (metis less_irrefl)
  then obtain r where r: "r < ht_size t" "ht_table t ! r = 0" by blast
  from assms(1) obtain k where "ht_size t = 2 ^ k" unfolding ht_shape_def by blast
  then obtain p where "p < ht_size t" "prow t h p = r"
    using probe_covers [of r k "unat h"] r(1) unfolding prow_def by auto
  then show ?thesis using r(2) by auto
qed

lemma live_path:
  assumes "ht_paths t" and "live t i k"
  shows "\<exists>q < ht_size t. ht_table t ! prow t (hashf t k) q = i + 1
    \<and> (\<forall>q' < q. ht_table t ! prow t (hashf t k) q' \<noteq> 0)"
  using assms unfolding ht_paths_def on_path_def by metis

definition free_for :: "('k, 'v) hashtable \<Rightarrow> 32 word \<Rightarrow> nat \<Rightarrow> bool" where
  "free_for t h r \<longleftrightarrow> on_path t h r
     \<and> (ht_table t ! r = 0 \<or> pkey (ht_items t ! (ht_table t ! r - 1)) = None)"

definition find_ok :: "('k, 'v) hashtable \<Rightarrow> 'k \<Rightarrow> found \<Rightarrow> bool" where
  "find_ok t k r = (case r of
      Pair i \<Rightarrow> live t i k
    | NoPair row \<Rightarrow> (\<forall>i. \<not> live t i k) \<and> free_for t (hashf t k) row)"

lemma find_loop_spec:
  assumes inv: "ht_shape t" "ht_rows t" "ht_paths t"
    and "h = hashf t k" and "p + fuel = ht_size t" and "row = prow t h p"
    and "\<forall>q < p. ht_table t ! prow t h q \<noteq> 0 \<and> \<not> live t (ht_table t ! prow t h q - 1) k"
    and "\<forall>r. removed = Some r \<longrightarrow> free_for t h r"
  shows "\<exists>res. find_loop fuel t k h row p removed = Some res \<and> find_ok t k res"
  using assms(4-)
proof (induction fuel arbitrary: p row removed)
  case 0
  then show ?case using unused_row [OF inv(1,2), of h] by auto
next
  case (Suc fuel)
  let ?ix = "ht_table t ! row"
  note row = Suc.prems(3) and before = Suc.prems(4)
  have "row < ht_size t" using row prow_less [OF inv(1)] by simp
  then have ix: "?ix \<le> items_count t" using inv(2) by (simp add: ht_rows_def)
  have path: "on_path t h row"
    unfolding on_path_def using row before Suc.prems(2) by (intro exI [of _ p]) auto
  show ?case
  proof (cases "?ix = 0")
    case True
    have "\<not> live t i k" for i
    proof
      assume "live t i k"
      then obtain q where q: "ht_table t ! prow t h q = i + 1" "\<forall>q' < q. ht_table t ! prow t h q' \<noteq> 0"
        using live_path [OF inv(3)] Suc.prems(1) by metis
      then have "q < p" using True row by (metis Suc_eq_plus1 linorder_neqE_nat nat.distinct(1))
      then show False using before q(1) \<open>live t i k\<close> by auto
    qed
    moreover have "free_for t h (case removed of Some r \<Rightarrow> r | None \<Rightarrow> row)"
      using Suc.prems(5) path True by (auto simp: free_for_def split: option.splits)
    ultimately show ?thesis
      using True Suc.prems(1) by (auto simp: get_index_def find_ok_def)
  next
    case False
    let ?pr = "ht_items t ! (?ix - 1)"
    have next': "get_next t row (p + 1) = prow t h (Suc p)"
      using row get_next_prow [OF inv(1)] by simp
    have IH: "\<exists>res. find_loop fuel t k h (get_next t row (p + 1)) (p + 1) rm = Some res \<and> find_ok t k res"
      if "\<not> live t (?ix - 1) k" and "\<forall>r. rm = Some r \<longrightarrow> free_for t h r" for rm
    proof (rule Suc.IH)
      show "\<forall>q < p + 1. ht_table t ! prow t h q \<noteq> 0 \<and> \<not> live t (ht_table t ! prow t h q - 1) k"
        using before that(1) False row by (auto simp: less_Suc_eq)
    qed (use Suc.prems next' that in auto)
    show ?thesis
    proof (cases "pkey ?pr")
      case None
      then have "free_for t h row" using path by (simp add: free_for_def)
      then show ?thesis
        using IH [of "case removed of None \<Rightarrow> Some row | Some r \<Rightarrow> Some r"] None False Suc.prems(5)
        by (auto simp: get_index_def live_def Let_def split: option.splits)
    next
      case (Some k')
      then have lv: "live t (?ix - 1) k'" using ix False by (simp add: live_def)
      then have hk: "phash ?pr = hashf t k'" using inv(3) by (simp add: ht_paths_def)
      have eq: "equals t k k' \<longleftrightarrow> k = k'" using inv(1) by (simp add: ht_shape_def)
      show ?thesis
      proof (cases "k = k'")
        case True
        then show ?thesis using Some hk lv False eq Suc.prems(1)
          by (simp add: get_index_def Let_def find_ok_def)
      next
        case neq: False
        then have "\<not> live t (?ix - 1) k" using Some by (simp add: live_def)
        then show ?thesis using IH [of removed] Suc.prems(5) Some False eq neq
          by (auto simp: get_index_def Let_def)
      qed
    qed
  qed
qed

lemma find_loop_total:
  assumes "ht_shape t" "ht_rows t" "ht_paths t"
  shows "\<exists>res. find_loop (ht_size t) t k (hashf t k) (first_row t (hashf t k)) 0 None = Some res
    \<and> find_ok t k res"
  by (rule find_loop_spec [OF assms]) (simp_all add: first_row_prow assms)

section \<open>Entries\<close>

definition ents :: "('k, 'v) pair list \<Rightarrow> ('k \<times> 'v) list" where
  "ents ps = map (\<lambda>p. (the (pkey p), pvalue p)) (filter (\<lambda>p. pkey p \<noteq> None) ps)"

lemma ht_entries_ents: "ht_entries t = ents (ht_items t)"
  by (simp add: ht_entries_def ents_def)

lemma ents_simps [simp]:
  "ents [] = []"
  "ents (p # ps) = (case pkey p of None \<Rightarrow> ents ps | Some k \<Rightarrow> (k, pvalue p) # ents ps)"
  "ents (ps @ qs) = ents ps @ ents qs"
  by (auto simp: ents_def split: option.splits)

lemma ents_filter: "ents (filter (\<lambda>p. pkey p \<noteq> None) ps) = ents ps"
  by (simp add: ents_def)

lemma ents_update:
  "i < length ps \<Longrightarrow> ents (ps[i := q]) = ents (take i ps) @ ents [q] @ ents (drop (Suc i) ps)"
  by (simp add: upd_conv_take_nth_drop split: option.splits)

lemma ents_split:
  "i < length ps \<Longrightarrow> pkey (ps ! i) = Some k \<Longrightarrow>
   ents ps = ents (take i ps) @ (k, pvalue (ps ! i)) # ents (drop (Suc i) ps)"
  using ents_update [of i ps "ps ! i"] by simp

lemma entries_live: "(k, v) \<in> set (ht_entries t) \<longleftrightarrow> (\<exists>i. live t i k \<and> pvalue (ht_items t ! i) = v)"
  by (auto simp: ht_entries_def live_def in_set_conv_nth image_iff Bex_def)

lemma abs_live: "ht_unique t \<Longrightarrow> live t i k \<Longrightarrow> ht_abs t k = Some (pvalue (ht_items t ! i))"
  unfolding ht_abs_def ht_unique_def by (rule map_of_is_SomeI) (auto simp: entries_live)

lemma abs_not_live: "(\<forall>i. \<not> live t i k) \<Longrightarrow> ht_abs t k = None"
  unfolding ht_abs_def map_of_eq_None_iff by (auto simp: entries_live)

section \<open>Insertion into a free row\<close>

lemma index_fits:
  assumes "ht_shape t" and "n < ht_capacity t"
  shows "(n + 1) mod 2 ^ index_width (ht_capacity t) = n + 1"
proof -
  have "ht_capacity t < 2 ^ 32"
    using capacity_less_size [OF assms(1)] assms(1) by (simp add: ht_shape_def MAX_SIZE_def)
  then show ?thesis using assms(2) by (simp add: index_width_def)
qed

lemma insert_item_sel [simp]:
  "ht_size (insert_item t r pr) = ht_size t"
  "ht_mask (insert_item t r pr) = ht_mask t"
  "ht_capacity (insert_item t r pr) = ht_capacity t"
  "ht_count (insert_item t r pr) = ht_count t"
  "hashf (insert_item t r pr) = hashf t"
  "equals (insert_item t r pr) = equals t"
  "ht_items (insert_item t r pr) = ht_items t @ [pr]"
  by (simp_all add: insert_item_def set_index_def)

lemma insert_item_table:
  "ht_shape t \<Longrightarrow> items_count t < ht_capacity t \<Longrightarrow>
   ht_table (insert_item t r pr) = (ht_table t)[r := items_count t + 1]"
  using index_fits [of t "items_count t"] by (simp add: insert_item_def set_index_def)

lemma live_insert_item:
  "live (insert_item t r pr) i k \<longleftrightarrow> live t i k \<or> (i = items_count t \<and> pkey pr = Some k)"
  by (auto simp: live_def nth_append)

lemma on_path_mono:
  assumes "on_path t h r" and "ht_size t' = ht_size t"
    and "\<And>q. q < ht_size t \<Longrightarrow> ht_table t ! q \<noteq> 0 \<Longrightarrow> ht_table t' ! q \<noteq> 0" and "ht_shape t"
  shows "on_path t' h r"
  using assms prow_less [OF assms(4)] unfolding on_path_def prow_def by metis

lemma insert_item_inv:
  assumes inv: "ht_shape t" "ht_rows t" "ht_paths t" and room: "items_count t < ht_capacity t"
    and free: "free_for t (phash pr) r" and pr: "pkey pr = Some k" "phash pr = hashf t k"
  shows "ht_shape (insert_item t r pr)" "ht_rows (insert_item t r pr)" "ht_paths (insert_item t r pr)"
proof -
  let ?t = "insert_item t r pr"
  note tab = insert_item_table [OF inv(1) room, of r pr]
  have r: "r < ht_size t" "r < length (ht_table t)"
    using free prow_less [OF inv(1)] inv(1) by (auto simp: free_for_def on_path_def ht_shape_def)
  show "ht_shape ?t" using inv(1) room tab by (simp add: ht_shape_def)
  show "ht_rows ?t"
  proof -
    let ?N = "{q. q < ht_size t \<and> ht_table t ! q \<noteq> 0}"
    have "{q. q < ht_size t \<and> ht_table ?t ! q \<noteq> 0} \<subseteq> insert r ?N"
      using tab r by (auto simp: nth_list_update)
    then have "card {q. q < ht_size t \<and> ht_table ?t ! q \<noteq> 0} \<le> card (insert r ?N)"
      by (rule card_mono [rotated]) simp
    also have "\<dots> \<le> Suc (card ?N)" by (rule card_insert_le_m1) simp_all
    finally have "card {q. q < ht_size t \<and> ht_table ?t ! q \<noteq> 0} \<le> Suc (items_count t)"
      using inv(2) by (simp add: ht_rows_def)
    then show ?thesis using inv(2) tab r by (auto simp: ht_rows_def nth_list_update le_SucI)
  qed
  have mono: "on_path t h q \<Longrightarrow> on_path ?t h q" for h q
    by (erule on_path_mono) (use tab r inv(1) in \<open>auto simp: nth_list_update\<close>)
  show "ht_paths ?t"
    unfolding ht_paths_def
  proof (intro allI impI)
    fix i k' assume "live ?t i k'"
    then consider (old) "live t i k'" | (new) "i = items_count t" "k' = k"
      using pr by (auto simp: live_insert_item)
    then show "phash (ht_items ?t ! i) = hashf ?t k'
      \<and> (\<exists>q. on_path ?t (hashf ?t k') q \<and> ht_table ?t ! q = i + 1)"
    proof cases
      case old
      then obtain q where q: "on_path t (hashf t k') q" "ht_table t ! q = i + 1"
        and ph: "phash (ht_items t ! i) = hashf t k'"
        using inv(3) unfolding ht_paths_def by blast
      have "q \<noteq> r" using q(2) old free by (auto simp: free_for_def live_def)
      then have "ht_table ?t ! q = i + 1" using q(2) tab by simp
      then show ?thesis using mono [OF q(1)] ph old by (auto simp: nth_append live_def)
    next
      case new
      then show ?thesis using free mono [of "phash pr" r] tab r pr
        by (auto simp: free_for_def)
    qed
  qed
qed

section \<open>Rehashing\<close>

lemma init_hashtable_sel [simp]:
  "ht_items (init_hashtable t sz) = []" "ht_count (init_hashtable t sz) = ht_count t"
  "hashf (init_hashtable t sz) = hashf t" "equals (init_hashtable t sz) = equals t"
  by (simp_all add: init_hashtable_def Let_def)

lemma init_hashtable_size:
  "\<exists>k. ht_size (init_hashtable t sz) = 2 ^ k \<and> MIN_SIZE \<le> 2 ^ k \<and> 2 ^ k \<le> MAX_SIZE
     \<and> min sz MAX_SIZE \<le> 2 ^ k"
proof -
  let ?m = "max MIN_SIZE (min sz MAX_SIZE)"
  have m: "8 \<le> ?m" "?m \<le> 2 ^ 30" by (auto simp: MIN_SIZE_def MAX_SIZE_def)
  then have u: "unat (of_nat ?m :: 32 word) = ?m"
    by (simp add: unat_of_nat take_bit_nat_eq_self)
  obtain k where k: "unat (get_nearest_powerof2 (of_nat ?m)) = 2 ^ k" "?m \<le> 2 ^ k" "2 ^ k < 2 * ?m"
    using nearest_powerof2 [of "of_nat ?m"] m u by (auto simp: word_le_nat_alt)
  have "(2::nat) ^ k < 2 ^ 31" by (rule less_le_trans [OF k(3)]) (use m(2) in simp)
  then have "k < 31" by (rule power_less_imp_less_exp [rotated]) simp
  then have "k \<le> 30" by simp
  then have "(2::nat) ^ k \<le> 2 ^ 30" by (rule power_increasing) simp
  then show ?thesis
    using k by (intro exI [of _ k]) (auto simp: init_hashtable_def Let_def MAX_SIZE_def)
qed

lemma init_hashtable_inv:
  assumes "equals t = (\<lambda>a b. a = b)"
  shows "ht_shape (init_hashtable t sz)" "ht_rows (init_hashtable t sz)" "ht_paths (init_hashtable t sz)"
proof -
  have "ht_table (init_hashtable t sz) = replicate (ht_size (init_hashtable t sz)) 0"
    "ht_capacity (init_hashtable t sz) = CAPACITY (ht_size (init_hashtable t sz))"
    "ht_mask (init_hashtable t sz) = ht_size (init_hashtable t sz) - 1"
    by (simp_all add: init_hashtable_def Let_def)
  then show "ht_shape (init_hashtable t sz)" "ht_rows (init_hashtable t sz)"
    "ht_paths (init_hashtable t sz)"
    using assms init_hashtable_size [of t sz]
    by (auto simp: ht_shape_def ht_rows_def ht_paths_def live_def)
qed

lemma free_row_spec:
  assumes "ht_shape t" "ht_rows t" and "p + fuel = ht_size t" and "row = prow t h p"
    and "\<forall>q < p. ht_table t ! prow t h q \<noteq> 0"
  shows "\<exists>r. free_row fuel t row p = Some r \<and> free_for t h r"
  using assms(3-)
proof (induction fuel arbitrary: p row)
  case 0
  then show ?case using unused_row [OF assms(1,2), of h] by auto
next
  case (Suc fuel)
  show ?case
  proof (cases "ht_table t ! row = 0")
    case True
    then have "free_for t h row"
      unfolding free_for_def on_path_def using Suc.prems by (intro conjI exI [of _ p]) auto
    then show ?thesis using True by (simp add: get_index_def)
  next
    case False
    have "\<exists>r. free_row fuel t (get_next t row (p + 1)) (p + 1) = Some r \<and> free_for t h r"
      by (rule Suc.IH) (use Suc.prems get_next_prow [OF assms(1)] False in \<open>auto simp: less_Suc_eq\<close>)
    then show ?thesis using False by (simp add: get_index_def)
  qed
qed

lemma reinsert_spec:
  assumes "ht_shape t" "ht_rows t" "ht_paths t"
    and "items_count t + length (ents ps) \<le> ht_capacity t"
    and "\<forall>pr \<in> set ps. \<forall>k. pkey pr = Some k \<longrightarrow> phash pr = hashf t k"
  shows "\<exists>t'. reinsert ps t = Some t' \<and> ht_shape t' \<and> ht_rows t' \<and> ht_paths t'
    \<and> ht_items t' = ht_items t @ filter (\<lambda>p. pkey p \<noteq> None) ps \<and> hashf t' = hashf t
    \<and> ht_count t' = ht_count t \<and> ht_capacity t' = ht_capacity t"
  using assms
proof (induction ps arbitrary: t)
  case Nil
  then show ?case by simp
next
  case (Cons pr ps)
  show ?case
  proof (cases "pkey pr")
    case None
    then show ?thesis using Cons by auto
  next
    case (Some k)
    have h: "phash pr = hashf t k" using Cons.prems(5) Some by simp
    obtain r where r: "free_row (ht_size t) t (first_row t (phash pr)) 0 = Some r"
      "free_for t (phash pr) r"
      using free_row_spec [OF Cons.prems(1,2), of 0 "ht_size t" _ "phash pr"]
        first_row_prow [OF Cons.prems(1)] by auto
    have room: "items_count t < ht_capacity t" using Cons.prems(4) Some by simp
    note ins = insert_item_inv [OF Cons.prems(1-3) room r(2) Some h]
    have "\<exists>t'. reinsert ps (insert_item t r pr) = Some t' \<and> ht_shape t' \<and> ht_rows t' \<and> ht_paths t'
      \<and> ht_items t' = ht_items (insert_item t r pr) @ filter (\<lambda>p. pkey p \<noteq> None) ps
      \<and> hashf t' = hashf (insert_item t r pr) \<and> ht_count t' = ht_count (insert_item t r pr)
      \<and> ht_capacity t' = ht_capacity (insert_item t r pr)"
      by (rule Cons.IH [OF ins]) (use Cons.prems(4,5) Some in auto)
    then show ?thesis using r Some by auto
  qed
qed

lemma rehash_spec:
  assumes inv: "ht_inv t" and sz: "ht_count t * 3 \<le> sz" "sz \<le> MAX_SIZE"
  shows "\<exists>t'. rehash t sz = Some (True, t') \<and> ht_inv t' \<and> ht_entries t' = ht_entries t
    \<and> items_count t' < ht_capacity t' \<and> hashf t' = hashf t"
proof -
  let ?i = "init_hashtable t sz"
  have eq: "equals t = (\<lambda>a b. a = b)" and cnt: "ht_count t = length (ht_entries t)"
    using inv by (auto simp: ht_inv_def ht_shape_def ht_counted_def)
  note iv = init_hashtable_inv [OF eq, of sz]
  obtain k where k: "ht_size ?i = 2 ^ k" "sz \<le> 2 ^ k" "8 \<le> (2::nat) ^ k"
    using init_hashtable_size [of t sz] sz(2) by (auto simp: MIN_SIZE_def)
  have cap: "ht_count t < ht_capacity ?i"
  proof -
    have "ht_capacity ?i = 2 ^ k div 3 * 2" using iv(1) k(1) by (simp add: ht_shape_def CAPACITY_def)
    moreover have "ht_count t \<le> 2 ^ k div 3" using sz(1) k(2) by (simp add: less_eq_div_iff_mult_less_eq)
    moreover have "2 \<le> (2::nat) ^ k div 3" using k(3) by simp
    ultimately show ?thesis by simp
  qed
  show ?thesis
  proof (cases "ht_count t = 0")
    case True
    then have "ht_entries t = []" using cnt by simp
    then show ?thesis using True sz(2) iv cap
      by (auto simp: rehash_def Let_def ht_inv_def ht_unique_def ht_counted_def ht_entries_ents)
  next
    case False
    have "\<forall>pr \<in> set (ht_items t). \<forall>k. pkey pr = Some k \<longrightarrow> phash pr = hashf t k"
      using inv by (auto simp: ht_inv_def ht_paths_def live_def in_set_conv_nth)
    then obtain t' where t': "reinsert (ht_items t) ?i = Some t'" "ht_shape t'" "ht_rows t'"
      "ht_paths t'" "ht_items t' = filter (\<lambda>p. pkey p \<noteq> None) (ht_items t)" "hashf t' = hashf t"
      "ht_count t' = ht_count t" "ht_capacity t' = ht_capacity ?i"
      using reinsert_spec [OF iv, of "ht_items t"] cap cnt by (auto simp: ht_entries_ents)
    have e: "ht_entries t' = ht_entries t" unfolding ht_entries_ents t'(5) ents_filter ..
    have "items_count t' = length (ht_entries t)" using t'(5) by (simp add: ht_entries_def)
    then show ?thesis using t' e inv cap cnt False sz(2)
      by (auto simp: rehash_def Let_def ht_inv_def ht_unique_def ht_counted_def)
  qed
qed

section \<open>The operations implement a finite map\<close>

lemma find_key_spec:
  assumes "ht_inv t"
  shows "\<exists>res. find_key t k True = Some res \<and> find_ok t k res"
    "\<exists>res. find_key t k False = Some res \<and> (case res of Pair i \<Rightarrow> live t i k
       | NoPair _ \<Rightarrow> (\<forall>i. \<not> live t i k))"
proof -
  have inv: "ht_shape t" "ht_rows t" "ht_paths t" using assms by (simp_all add: ht_inv_def)
  from find_loop_total [OF inv, of k]
  show t: "\<exists>res. find_key t k True = Some res \<and> find_ok t k res"
    by (simp add: find_key_def Let_def)
  show "\<exists>res. find_key t k False = Some res \<and> (case res of Pair i \<Rightarrow> live t i k
       | NoPair _ \<Rightarrow> (\<forall>i. \<not> live t i k))"
  proof (cases "ht_count t = 0")
    case True
    then have "ht_entries t = []" using assms by (simp add: ht_inv_def ht_counted_def)
    then have "\<forall>i. \<not> live t i k" using entries_live [of k _ t] by auto
    then show ?thesis using True by (simp add: find_key_def)
  next
    case False
    then show ?thesis using t
      by (auto simp: find_key_def find_ok_def Let_def split: found.splits)
  qed
qed

theorem find_key_total: "ht_inv t \<Longrightarrow> \<exists>res. find_key t k want = Some res"
  using find_key_spec [of t k] by (cases want) auto

lemma ht_get_spec: "ht_inv t \<Longrightarrow> ht_get t k = Some (ht_abs t k)"
proof -
  assume inv: "ht_inv t"
  then have u: "ht_unique t" by (simp add: ht_inv_def)
  obtain res where "find_key t k False = Some res"
    "case res of Pair i \<Rightarrow> live t i k | NoPair _ \<Rightarrow> (\<forall>i. \<not> live t i k)"
    using find_key_spec(2) [OF inv] by blast
  then show ?thesis
    using abs_live [OF u, of _ k] abs_not_live [of t k]
    by (auto simp: ht_get_def split: found.splits)
qed

lemma on_path_cong:
  "ht_size t' = ht_size t \<Longrightarrow> ht_table t' = ht_table t \<Longrightarrow> on_path t' = on_path t"
  by (intro ext) (simp add: on_path_def prow_def)

lemma map_of_middle:
  assumes "distinct (map fst (A @ (k, v) # B))"
  shows "map_of (A @ (k, w) # B) = (map_of (A @ (k, v) # B))(k \<mapsto> w)"
    and "map_of (A @ B) = (map_of (A @ (k, v) # B))(k := None)"
proof -
  have "k \<notin> fst ` set A" "k \<notin> fst ` set B" using assms by auto
  then have kA: "map_of A k = None" and kB: "map_of B k = None"
    by (simp_all add: map_of_eq_None_iff)
  show "map_of (A @ (k, w) # B) = (map_of (A @ (k, v) # B))(k \<mapsto> w)"
    using kA by (auto simp: fun_eq_iff map_add_def split: option.splits)
  show "map_of (A @ B) = (map_of (A @ (k, v) # B))(k := None)"
    using kA kB by (auto simp: fun_eq_iff map_add_def split: option.splits)
qed

lemma ht_remove_spec:
  assumes inv: "ht_inv t"
  shows "\<exists>t'. ht_remove t k = Some (ht_abs t k, t') \<and> ht_inv t' \<and> ht_abs t' = (ht_abs t)(k := None)
    \<and> hashf t' = hashf t \<and> ht_count t' \<le> ht_count t"
proof -
  have u: "ht_unique t" using inv by (simp add: ht_inv_def)
  obtain res where res: "find_key t k False = Some res"
    "case res of Pair i \<Rightarrow> live t i k | NoPair _ \<Rightarrow> (\<forall>i. \<not> live t i k)"
    using find_key_spec(2) [OF inv] by blast
  show ?thesis
  proof (cases res)
    case (NoPair r)
    then have "ht_abs t k = None" using res(2) abs_not_live [of t k] by simp
    then show ?thesis using res(1) NoPair inv by (auto simp: ht_remove_def fun_upd_idem_iff)
  next
    case (Pair i)
    then have lv: "live t i k" using res(2) by simp
    then have i: "i < items_count t" "pkey (ht_items t ! i) = Some k" by (auto simp: live_def)
    let ?t = "snd (remove_internal t i)"
    define A B where "A = ents (take i (ht_items t))" and "B = ents (drop (Suc i) (ht_items t))"
    have e: "ht_entries t = A @ (k, pvalue (ht_items t ! i)) # B"
      using ents_split [OF i] by (simp add: ht_entries_ents A_def B_def)
    have e': "ht_entries ?t = A @ B"
      using ents_update [OF i(1)] by (simp add: ht_entries_ents remove_internal_def A_def B_def)
    have d: "distinct (map fst (A @ (k, pvalue (ht_items t ! i)) # B))"
      using u e by (simp add: ht_unique_def)
    have lt: "live ?t j k' \<Longrightarrow> live t j k' \<and> phash (ht_items ?t ! j) = phash (ht_items t ! j)" for j k'
      using i by (auto simp: remove_internal_def nth_list_update live_def split: if_splits)
    have "ht_paths ?t"
      using inv lt on_path_cong [of ?t t] unfolding ht_inv_def ht_paths_def
      by (simp add: remove_internal_def)
    then have "ht_inv ?t"
      using inv e e' d unfolding ht_inv_def
      by (auto simp: ht_shape_def ht_rows_def ht_unique_def ht_counted_def remove_internal_def)
    moreover have "ht_abs ?t = (ht_abs t)(k := None)"
      unfolding ht_abs_def e e' by (rule map_of_middle(2) [OF d])
    ultimately show ?thesis
      using res(1) Pair abs_live [OF u lv] by (auto simp: ht_remove_def remove_internal_def)
  qed
qed

lemma put_found_spec:
  assumes inv: "ht_inv t" and room: "items_count t < ht_capacity t" and ok: "find_ok t k res"
  shows "fst (put_found t k v res) = ht_abs t k \<and> ht_inv (snd (put_found t k v res))
    \<and> ht_abs (snd (put_found t k v res)) = (ht_abs t)(k \<mapsto> v)
    \<and> hashf (snd (put_found t k v res)) = hashf t \<and> ht_count (snd (put_found t k v res)) \<le> ht_count t + 1"
proof (cases res)
  case (NoPair r)
  let ?pr = "\<lparr>pkey = Some k, pvalue = v, phash = hashf t k\<rparr>"
  let ?i = "insert_item t r ?pr"
  have nl: "\<forall>i. \<not> live t i k" and free: "free_for t (hashf t k) r"
    using ok NoPair by (auto simp: find_ok_def)
  have abs: "ht_abs t k = None" by (rule abs_not_live [OF nl])
  have e: "ht_entries (snd (put_found t k v res)) = ht_entries t @ [(k, v)]"
    by (simp add: NoPair put_found_def ht_entries_ents)
  have sh: "ht_shape ?i" "ht_rows ?i" "ht_paths ?i"
    using insert_item_inv [of t ?pr r k] inv room free by (auto simp: ht_inv_def)
  have "k \<notin> fst ` set (ht_entries t)" using abs by (simp add: ht_abs_def map_of_eq_None_iff)
  then have "ht_unique (snd (put_found t k v res))"
    using e inv by (simp add: ht_inv_def ht_unique_def)
  moreover have "ht_counted (snd (put_found t k v res))"
    using e inv by (simp add: ht_inv_def ht_counted_def NoPair put_found_def)
  moreover have "ht_paths (?i\<lparr>ht_count := c\<rparr>)" for c
    using sh(3) on_path_cong [of "?i\<lparr>ht_count := c\<rparr>" ?i] by (simp add: ht_paths_def live_def)
  ultimately have "ht_inv (snd (put_found t k v res))"
    using sh by (simp add: ht_inv_def NoPair put_found_def ht_shape_def ht_rows_def)
  moreover have "ht_abs (snd (put_found t k v res)) = (ht_abs t)(k \<mapsto> v)"
    using abs e by (auto simp: ht_abs_def fun_eq_iff map_add_def split: option.splits)
  ultimately show ?thesis using abs by (simp add: NoPair put_found_def)
next
  case (Pair i)
  then have lv: "live t i k" using ok by (simp add: find_ok_def)
  then have i: "i < items_count t" "pkey (ht_items t ! i) = Some k" by (auto simp: live_def)
  have u: "ht_unique t" using inv by (simp add: ht_inv_def)
  let ?t = "snd (put_found t k v res)"
  define A B where "A = ents (take i (ht_items t))" and "B = ents (drop (Suc i) (ht_items t))"
  have e: "ht_entries t = A @ (k, pvalue (ht_items t ! i)) # B"
    using ents_split [OF i] by (simp add: ht_entries_ents A_def B_def)
  have e': "ht_entries ?t = A @ (k, v) # B"
    using ents_update [OF i(1)] by (simp add: ht_entries_ents Pair put_found_def A_def B_def)
  have d: "distinct (map fst (A @ (k, pvalue (ht_items t ! i)) # B))"
    using u e by (simp add: ht_unique_def)
  have lt: "live ?t j k' \<longleftrightarrow> live t j k'" "phash (ht_items ?t ! j) = phash (ht_items t ! j)" for j k'
    using i by (auto simp: live_def nth_list_update Pair put_found_def)
  have "ht_paths ?t"
    using inv lt on_path_cong [of ?t t] unfolding ht_inv_def ht_paths_def
    by (simp add: Pair put_found_def)
  then have "ht_inv ?t"
    using inv e e' d unfolding ht_inv_def
    by (auto simp: ht_shape_def ht_rows_def ht_unique_def ht_counted_def Pair put_found_def)
  moreover have "ht_abs ?t = (ht_abs t)(k \<mapsto> v)"
    unfolding ht_abs_def e e' by (rule map_of_middle(1) [OF d])
  ultimately show ?thesis using abs_live [OF u lv] by (simp add: Pair put_found_def)
qed

lemma ht_put_spec:
  assumes inv: "ht_inv t" and small: "ht_count t * RESIZE_FACTOR \<le> MAX_SIZE"
  shows "\<exists>t'. ht_put t k v = Some (ht_abs t k, t') \<and> ht_inv t' \<and> ht_abs t' = (ht_abs t)(k \<mapsto> v)
    \<and> hashf t' = hashf t \<and> ht_count t' \<le> ht_count t + 1"
proof -
  obtain t1 where t1: "(if items_count t \<ge> ht_capacity t then rehash t (ht_count t * RESIZE_FACTOR)
      else Some (True, t)) = Some (True, t1)" "ht_inv t1" "ht_entries t1 = ht_entries t"
    "items_count t1 < ht_capacity t1" "hashf t1 = hashf t"
    using rehash_spec [OF inv _ small] inv by (cases "items_count t \<ge> ht_capacity t")
      (auto simp: RESIZE_FACTOR_def)
  obtain res where res: "find_key t1 k True = Some res" "find_ok t1 k res"
    using find_key_spec(1) [OF t1(2)] by blast
  have "ht_abs t1 = ht_abs t" "ht_count t1 = ht_count t"
    using t1(2,3) inv by (simp_all add: ht_abs_def ht_inv_def ht_counted_def)
  then show ?thesis
    using put_found_spec [OF t1(2,4) res(2), of v] t1(1,5) res(1)
    by (cases "put_found t1 k v res") (auto simp: ht_put_def)
qed

lemma hashtable_create_inv:
  "ht_inv (hashtable_create h (\<lambda>a b. a = b) sz)"
  "ht_entries (hashtable_create h (\<lambda>a b. a = b) sz) = []"
  "ht_count (hashtable_create h (\<lambda>a b. a = b) sz) = 0"
  "hashf (hashtable_create h (\<lambda>a b. a = b) sz) = h"
  by (auto simp: hashtable_create_def ht_inv_def ht_unique_def ht_counted_def ht_entries_ents
      intro!: init_hashtable_inv)

lemma hashtable_create_abs: "ht_abs (hashtable_create h (\<lambda>a b. a = b) sz) = (\<lambda>_. None)"
  by (simp add: ht_abs_def hashtable_create_inv)

definition ht_limit :: nat where
  "ht_limit = MAX_SIZE div RESIZE_FACTOR"

interpretation ht: dict ht_get ht_put ht_remove ht_inv ht_count ht_limit ht_abs
proof
  fix t :: "('a, 'b) hashtable" and k :: 'a and v :: 'b
  assume inv: "ht_inv t"
  show "ht_get t k = Some (ht_abs t k)" by (rule ht_get_spec [OF inv])
  show "\<exists>t'. ht_remove t k = Some (ht_abs t k, t') \<and> ht_inv t' \<and> ht_count t' \<le> ht_count t
    \<and> ht_abs t' = (ht_abs t)(k := None)"
    using ht_remove_spec [OF inv] by blast
  assume "ht_count t \<le> ht_limit"
  then have "ht_count t * RESIZE_FACTOR \<le> MAX_SIZE"
    by (simp add: ht_limit_def RESIZE_FACTOR_def MAX_SIZE_def)
  then show "\<exists>t'. ht_put t k v = Some (ht_abs t k, t') \<and> ht_inv t' \<and> ht_count t' \<le> ht_count t + 1
    \<and> ht_abs t' = (ht_abs t)(k \<mapsto> v)"
    using ht_put_spec [OF inv] by blast
qed

section \<open>Runs of operations\<close>

fun ht_run :: "('k, 'v) dict_op list \<Rightarrow> ('k, 'v) hashtable \<Rightarrow> 'v option list option" where
  "ht_run [] t = Some []"
| "ht_run (x # xs) t =
     (case (case x of
              OpGet k \<Rightarrow> map_option (\<lambda>r. (r, t)) (ht_get t k)
            | OpPut k v \<Rightarrow> ht_put t k v
            | OpRemove k \<Rightarrow> ht_remove t k) of
        None \<Rightarrow> None
      | Some (r, t') \<Rightarrow> map_option ((#) r) (ht_run xs t'))"

lemma ht_run_map_run:
  assumes "ht_inv t" and "ht_count t + length ops \<le> ht_limit + 1"
  shows "ht_run ops t = Some (map_run ops (ht_abs t))"
  using assms
proof (induction ops arbitrary: t)
  case Nil
  then show ?case by simp
next
  case (Cons x xs)
  obtain t' where t': "ht.step_op x t = Some (fst (map_op x (ht_abs t)), t')" "ht_inv t'"
    "ht_count t' \<le> ht_count t + 1" "ht_abs t' = snd (map_op x (ht_abs t))"
    using ht.step_op_spec [OF Cons.prems(1), of x] Cons.prems(2) by auto
  have "ht_run xs t' = Some (map_run xs (ht_abs t'))"
    by (rule Cons.IH) (use t' Cons.prems in auto)
  then show ?case using t'(1,4) by (cases x) (auto split: prod.splits)
qed

section \<open>Properties\<close>

text \<open>
  C33. Every sequence of \<open>put\<close>, \<open>get\<close> and \<open>remove\<close> on a freshly created hash table returns, and
  answers exactly what a finite map answers, as long as the table stays below the size at
  which \<open>rehash\<close> refuses to grow: open addressing, tombstones, the reuse of removed rows
  and the resizing are invisible to the client.
\<close>

theorem hashtable_refines_map:
  assumes "length ops \<le> ht_limit"
  shows "ht_run ops (hashtable_create h (\<lambda>a b. a = b) sz) = Some (map_run ops (\<lambda>_. None))"
  using ht_run_map_run [of "hashtable_create h (\<lambda>a b. a = b) sz" ops] assms
  by (simp add: hashtable_create_inv hashtable_create_abs)

theorem hashtable_refines_map_witness:
  "ht_run [OpPut (3::nat) True, OpPut 11 False, OpRemove 3, OpGet 11, OpGet 3]
     (hashtable_create (\<lambda>k. of_nat k) (\<lambda>a b. a = b) 8)
   = Some [None, None, Some True, Some False, None]"
  using hashtable_refines_map [of "[OpPut (3::nat) True, OpPut 11 False, OpRemove 3, OpGet 11, OpGet 3]"
      "\<lambda>k. of_nat k" 8]
  by (simp add: ht_limit_def MAX_SIZE_def RESIZE_FACTOR_def)

text \<open>
  The probing loop of \<open>find_key\<close> always stops: in every table that satisfies the
  invariant, the \<open>size\<close> probes the model grants are enough to reach the key or an unused
  row, because the triangular steps visit every row and the load stays below the size.
\<close>

theorem hashtable_probing_stops:
  assumes "ht_inv t"
  shows "\<exists>r. find_key t k want = Some r"
  by (rule find_key_total [OF assms])

theorem hashtable_probing_stops_witness:
  "\<exists>r. find_key (hashtable_create (\<lambda>k. of_nat k) (\<lambda>a b. a = b) 8 :: (nat, bool) hashtable) 5 True
    = Some r"
  by (rule hashtable_probing_stops [OF hashtable_create_inv(1)])

text \<open>
  \<open>hashtable_get_nearest_powerof2\<close> computes by shifting and or-ing the smallest power of
  two that is not below its argument, for every argument from 1 to \<open>2^31\<close>.
\<close>

theorem nearest_powerof2_correct:
  assumes "1 \<le> n" and "n \<le> 2 ^ 31"
  shows "\<exists>k. unat (get_nearest_powerof2 n) = 2 ^ k \<and> unat n \<le> 2 ^ k \<and> 2 ^ k < 2 * unat n"
  by (rule nearest_powerof2 [OF assms])

theorem nearest_powerof2_correct_witness:
  "\<exists>k. unat (get_nearest_powerof2 100) = 2 ^ k \<and> (100::nat) \<le> 2 ^ k \<and> (2::nat) ^ k < 200"
  using nearest_powerof2_correct [of 100] by simp

end
