(* ===== verification/Epdg_Utils.thy ===== *)
theory Epdg_Utils
  imports Prelude
begin

text \<open>
  The helpers of \<open>osmo_epdg_utils.c\<close>: the IMSI is taken out of the peer's NAI, the APN out
  of the local identity, and both are validated before a UE object is made of them.
  The parts of an \<open>ike_sa_t\<close> the plugin reads are its unique id and the encodings of its
  two identities (NULL is \<^const>\<open>None\<close>).
\<close>

section \<open>Error codes and the IKE_SA as the plugin sees it\<close>

datatype errno = EPERM | EINVAL | ENOMEM | ENOENT

record ike_sa =
  unique_id :: "32 word"
  other_id :: "chunk option"
  my_id :: "chunk option"

section \<open>IMSI and APN extraction\<close>

definition epdg_get_imsi :: "chunk \<Rightarrow> nat \<Rightarrow> errno + cstring" where
  "epdg_get_imsi nai imsi_len =
     (if length nai < 17 then Inl EINVAL
      else if nai ! 0 \<noteq> 48 then Inl EINVAL
      else Inr (strncpy (drop 1 nai) (min 15 imsi_len)))"

definition epdg_get_imsi_ike :: "ike_sa \<Rightarrow> nat \<Rightarrow> errno + cstring" where
  "epdg_get_imsi_ike sa imsi_len =
     (case other_id sa of
        None \<Rightarrow> Inl EPERM
      | Some nai \<Rightarrow> epdg_get_imsi nai imsi_len)"

text \<open>\<open>epdg_validate_imsi\<close> and \<open>epdg_validate_apn\<close> return non-zero for an invalid argument.\<close>

fun first_non_digit :: "cstring \<Rightarrow> bool" where
  "first_non_digit [] = False"
| "first_non_digit (c # cs) = (if \<not> isdigit c then True else first_non_digit cs)"

definition epdg_validate_imsi :: "cstring option \<Rightarrow> bool" where
  "epdg_validate_imsi imsi =
     (case imsi of
        None \<Rightarrow> True
      | Some s \<Rightarrow> if length s \<noteq> 15 then True else first_non_digit s)"

definition epdg_validate_apn :: "cstring option \<Rightarrow> bool" where
  "epdg_validate_apn apn =
     (case apn of
        None \<Rightarrow> True
      | Some s \<Rightarrow> if length s = 0 then True else False)"

definition epdg_get_apn :: "ike_sa \<Rightarrow> nat \<Rightarrow> errno + cstring" where
  "epdg_get_apn sa apn_len =
     (case my_id sa of
        None \<Rightarrow> Inl EINVAL
      | Some c \<Rightarrow> if length c \<ge> apn_len then Inl ENOMEM else Inr (cstr c))"

section \<open>Lemmas\<close>

lemma epdg_get_imsi_length: "epdg_get_imsi nai n = Inr s \<Longrightarrow> length s \<le> min 15 n"
  by (auto simp: epdg_get_imsi_def length_strncpy split: if_splits intro: order_trans [OF length_strncpy])

lemma epdg_get_imsi_no_nul: "epdg_get_imsi nai n = Inr s \<Longrightarrow> 0 \<notin> set s"
  by (auto simp: epdg_get_imsi_def nul_notin_strncpy split: if_splits)

lemma epdg_get_apn_length: "epdg_get_apn sa n = Inr s \<Longrightarrow> length s < n"
  by (auto simp: epdg_get_apn_def cstr_def split: option.splits if_splits
      intro: le_less_trans [OF length_takeWhile_le])

lemma first_non_digit_iff: "first_non_digit s \<longleftrightarrow> (\<exists>c \<in> set s. \<not> isdigit c)"
  by (induction s) auto

lemma isdigit_nonzero: "isdigit c \<Longrightarrow> c \<noteq> 0"
  by (auto simp: isdigit_def)

lemma epdg_validate_imsi_iff:
  "epdg_validate_imsi (Some s) \<longleftrightarrow> \<not> (length s = 15 \<and> (\<forall>c \<in> set s. isdigit c))"
  by (auto simp: epdg_validate_imsi_def first_non_digit_iff)

lemma epdg_validate_apn_iff: "epdg_validate_apn (Some s) \<longleftrightarrow> s = []"
  by (simp add: epdg_validate_apn_def)

text \<open>The NAI a UE presents for its permanent identity: \<open>0<IMSI>@realm\<close> (3GPP TS 23.003).\<close>

definition permanent_nai :: "cstring \<Rightarrow> chunk \<Rightarrow> chunk" where
  "permanent_nai imsi realm = 48 # imsi @ 64 # realm"

lemma epdg_get_imsi_permanent:
  assumes "\<not> epdg_validate_imsi (Some imsi)" and "15 \<le> n"
  shows "epdg_get_imsi (permanent_nai imsi realm) n = Inr imsi"
proof -
  have len: "length imsi = 15" and dig: "\<forall>c \<in> set imsi. isdigit c"
    using assms(1) by (auto simp: epdg_validate_imsi_iff)
  then have "0 \<notin> set imsi" by (auto dest: isdigit_nonzero)
  with len assms(2) show ?thesis
    by (simp add: epdg_get_imsi_def permanent_nai_def strncpy_no_nul min_def)
qed

end
