(* ===== verification/Host.thy ===== *)
theory Host
  imports Prelude
begin

text \<open>
  The parts of \<open>libstrongswan/networking/host.c\<close> the ePDG plugin relies on: hosts made from
  socket addresses and from text, their address bytes and their comparison.  A host is an
  IPv4 or an IPv6 address with a port; the constructors of \<open>host.c\<close> return NULL
  (\<^const>\<open>None\<close>) for every other family.  \<open>inet_pton\<close> for IPv4 is written out as the C
  library defines it; for IPv6 it is the parameter \<open>pton6\<close>.
\<close>

datatype family = AF_UNSPEC | AF_INET | AF_INET6 | AF_OTHER nat

datatype host = Host4 chunk "16 word" | Host6 chunk "16 word"

datatype sockaddr = Sockaddr_in chunk "16 word" | Sockaddr_in6 chunk "16 word" | Sockaddr_other family

fun sa_family :: "sockaddr \<Rightarrow> family" where
  "sa_family (Sockaddr_in _ _) = AF_INET"
| "sa_family (Sockaddr_in6 _ _) = AF_INET6"
| "sa_family (Sockaddr_other f) = f"

section \<open>Construction and access\<close>

fun host_create_from_sockaddr :: "sockaddr \<Rightarrow> host option" where
  "host_create_from_sockaddr (Sockaddr_in a p) = Some (Host4 a p)"
| "host_create_from_sockaddr (Sockaddr_in6 a p) = Some (Host6 a p)"
| "host_create_from_sockaddr (Sockaddr_other _) = None"

definition host_create_from_chunk :: "family \<Rightarrow> chunk \<Rightarrow> 16 word \<Rightarrow> host option" where
  "host_create_from_chunk f address port =
     (case f of
        AF_INET \<Rightarrow> if length address < 4 then None else Some (Host4 (take 4 address) port)
      | AF_INET6 \<Rightarrow> if length address < 16 then None else Some (Host6 (take 16 address) port)
      | AF_UNSPEC \<Rightarrow> if length address = 4 then Some (Host4 address port)
                   else if length address = 16 then Some (Host6 address port) else None
      | AF_OTHER _ \<Rightarrow> None)"

definition host_create_any :: "family \<Rightarrow> host option" where
  "host_create_any f =
     (case f of
        AF_INET \<Rightarrow> Some (Host4 (replicate 4 0) 0)
      | AF_INET6 \<Rightarrow> Some (Host6 (replicate 16 0) 0)
      | _ \<Rightarrow> None)"

fun set_port :: "host \<Rightarrow> 16 word \<Rightarrow> host" where
  "set_port (Host4 a _) p = Host4 a p"
| "set_port (Host6 a _) p = Host6 a p"

text \<open>For a family without addresses the port is set through a null pointer.\<close>

definition host_create_any_port :: "family \<Rightarrow> 16 word \<Rightarrow> host res" where
  "host_create_any_port f p =
     (case host_create_any f of None \<Rightarrow> Inl NullDeref | Some h \<Rightarrow> Inr (set_port h p))"

fun get_address :: "host \<Rightarrow> chunk" where
  "get_address (Host4 a _) = a"
| "get_address (Host6 a _) = a"

fun get_family :: "host \<Rightarrow> family" where
  "get_family (Host4 _ _) = AF_INET"
| "get_family (Host6 _ _) = AF_INET6"

fun is_anyaddr :: "host \<Rightarrow> bool" where
  "is_anyaddr (Host4 a _) \<longleftrightarrow> a = replicate 4 0"
| "is_anyaddr (Host6 a _) \<longleftrightarrow> a = replicate 16 0"

fun ip_equals :: "host \<Rightarrow> host \<Rightarrow> bool" where
  "ip_equals (Host4 a _) (Host4 b _) \<longleftrightarrow> a = b"
| "ip_equals (Host6 a _) (Host6 b _) \<longleftrightarrow> a = b"
| "ip_equals h g \<longleftrightarrow> is_anyaddr h \<and> is_anyaddr g"

text \<open>The port comparison reads the field of the first host's family in both structures.\<close>

fun host_port :: "host \<Rightarrow> 16 word" where
  "host_port (Host4 _ p) = p"
| "host_port (Host6 _ p) = p"

definition host_equals :: "host \<Rightarrow> host \<Rightarrow> bool" where
  "host_equals h g \<longleftrightarrow> (if \<not> ip_equals h g then False else host_port h = host_port g)"

section \<open>Text form of IPv4 addresses\<close>

text \<open>\<open>inet_pton4\<close>: at most three digits per octet, no leading zero, exactly four octets.\<close>

fun inet_pton4 :: "cstring \<Rightarrow> nat \<Rightarrow> bool \<Rightarrow> chunk \<Rightarrow> chunk option" where
  "inet_pton4 [] cur saw out =
     (if saw \<and> length out = 3 then Some (out @ [of_nat cur]) else None)"
| "inet_pton4 (c # cs) cur saw out =
     (if isdigit c then
        (let new = 10 * cur + (unat c - 48) in
         if saw \<and> cur = 0 then None
         else if new > 255 then None
         else if \<not> saw \<and> length out \<ge> 4 then None
         else inet_pton4 cs new True out)
      else if c = 46 \<and> saw then
        (if length out = 3 then None else inet_pton4 cs 0 False (out @ [of_nat cur]))
      else None)"

text \<open>\<open>"\%d"\<close> of a \<open>uint8_t\<close>, and the dotted form the listener prints into a 16-byte buffer.\<close>

definition digit :: "nat \<Rightarrow> byte" where
  "digit d = of_nat (48 + d)"

definition dec8 :: "byte \<Rightarrow> cstring" where
  "dec8 b = (let n = unat b in
     if n < 10 then [digit n]
     else if n < 100 then [digit (n div 10), digit (n mod 10)]
     else [digit (n div 100), digit (n div 10 mod 10), digit (n mod 10)])"

definition dotted :: "byte \<Rightarrow> byte \<Rightarrow> byte \<Rightarrow> byte \<Rightarrow> cstring" where
  "dotted a b c d = take 15 (dec8 a @ [46] @ dec8 b @ [46] @ dec8 c @ [46] @ dec8 d)"

abbreviation str_any :: cstring where "str_any \<equiv> [37, 97, 110, 121]"

definition host_create_from_string_and_family ::
  "(cstring \<Rightarrow> chunk option) \<Rightarrow> cstring option \<Rightarrow> family \<Rightarrow> 16 word \<Rightarrow> host option res" where
  "host_create_from_string_and_family pton6 str f port =
     (case str of None \<Rightarrow> Inr None | Some s \<Rightarrow>
      if s = str_any then andThen (host_create_any_port (if f \<noteq> AF_UNSPEC then f else AF_INET) port) (\<lambda>h. Inr (Some h))
      else if (f = AF_UNSPEC \<or> f = AF_INET) \<and> (s = str_any @ [52] \<or> s = [48,46,48,46,48,46,48])
      then andThen (host_create_any_port AF_INET port) (\<lambda>h. Inr (Some h))
      else if (f = AF_UNSPEC \<or> f = AF_INET6) \<and> (s = str_any @ [54] \<or> s = [58,58])
      then andThen (host_create_any_port AF_INET6 port) (\<lambda>h. Inr (Some h))
      else
        let v4 = Option.bind (inet_pton4 s 0 False [])
                   (\<lambda>a. host_create_from_sockaddr (Sockaddr_in a port));
            v6 = Option.bind (pton6 s) (\<lambda>a. host_create_from_sockaddr (Sockaddr_in6 a port))
        in Inr (case f of
             AF_UNSPEC \<Rightarrow> if 46 \<in> set s then v4 else v6
           | AF_INET6 \<Rightarrow> v6
           | AF_INET \<Rightarrow> if 58 \<in> set s then None else v4
           | AF_OTHER _ \<Rightarrow> None))"

section \<open>Lemmas\<close>

lemma digit_props: "d < 10 \<Longrightarrow> isdigit (digit d) \<and> unat (digit d) = 48 + d"
proof -
  assume "d < 10"
  then have u: "unat (digit d) = 48 + d"
    by (simp add: digit_def unat_of_nat take_bit_nat_eq_self del: of_nat_add)
  then show ?thesis using \<open>d < 10\<close> by (simp add: isdigit_def word_le_nat_alt)
qed

lemma pton4_octet:
  assumes "length out < 4"
  shows "inet_pton4 (dec8 b @ rest) 0 False out = inet_pton4 rest (unat b) True out"
proof -
  have n: "unat b < 256" using unat_byte_less by blast
  consider "unat b < 10" | "10 \<le> unat b" "unat b < 100" | "100 \<le> unat b" by linarith
  then show ?thesis
  proof cases
    case 1
    then show ?thesis using assms digit_props [of "unat b"] by (simp add: dec8_def)
  next
    case 2
    then have "0 < unat b div 10" "unat b div 10 < 10" by simp_all
    with 2 show ?thesis
      using assms digit_props [of "unat b div 10"] digit_props [of "unat b mod 10"]
      by (simp add: dec8_def Let_def)
  next
    case 3
    have "unat b div 100 = unat b div 10 div 10" by (simp add: div_mult2_eq [symmetric])
    then have e: "10 * (10 * (unat b div 100) + unat b div 10 mod 10) + unat b mod 10 = unat b"
      by (simp only: mult_div_mod_eq)
    have "unat b div 100 < 10" "0 < unat b div 100" using 3 n by simp_all
    then show ?thesis
      using assms 3 n e digit_props [of "unat b div 100"] digit_props [of "unat b div 10 mod 10"]
        digit_props [of "unat b mod 10"]
      by (simp add: dec8_def Let_def)
  qed
qed

lemma length_dec8: "length (dec8 b) \<le> 3"
  by (simp add: dec8_def Let_def)

lemma dotted_untruncated: "dotted a b c d = dec8 a @ [46] @ dec8 b @ [46] @ dec8 c @ [46] @ dec8 d"
  using length_dec8 [of a] length_dec8 [of b] length_dec8 [of c] length_dec8 [of d]
  by (simp add: dotted_def)

lemma not_isdigit_dot: "\<not> isdigit 46"
  by (simp add: isdigit_def)

lemma inet_pton4_dotted: "inet_pton4 (dotted a b c d) 0 False [] = Some [a, b, c, d]"
proof -
  have "inet_pton4 (dec8 d) 0 False [a, b, c] = Some [a, b, c, d]"
    using pton4_octet [of "[a, b, c]" d "[]"] by simp
  then show ?thesis
    by (simp add: dotted_untruncated pton4_octet not_isdigit_dot)
qed

lemma dec8_isdigit: "x \<in> set (dec8 b) \<Longrightarrow> isdigit x"
  using unat_byte_less [of b] by (auto simp: dec8_def Let_def digit_props split: if_splits)

lemma dotted_chars: "x \<in> set (dotted a b c d) \<Longrightarrow> isdigit x \<or> x = 46"
  by (auto simp: dotted_untruncated dest: dec8_isdigit)

text \<open>Printing four octets and reading them back gives the IPv4 host with these octets.\<close>

lemma host_from_dotted:
  "host_create_from_string_and_family pton6 (Some (dotted a b c d)) AF_INET p
    = Inr (Some (Host4 [a, b, c, d] p))"
proof -
  have "37 \<notin> set (dotted a b c d)" and colon: "58 \<notin> set (dotted a b c d)"
    by (auto dest!: dotted_chars simp: isdigit_def)
  then have ne: "dotted a b c d \<noteq> str_any" "dotted a b c d \<noteq> str_any @ [52]" by auto
  show ?thesis
  proof (cases "dotted a b c d = [48,46,48,46,48,46,48]")
    case True
    then have "Some [a, b, c, d] = Some [0, 0, 0, 0]"
      using inet_pton4_dotted [of a b c d] by (simp add: isdigit_def)
    then show ?thesis using True
      by (simp add: host_create_from_string_and_family_def host_create_any_port_def
          host_create_any_def numeral_eq_Suc)
  next
    case False
    then show ?thesis using ne colon inet_pton4_dotted
      by (simp add: host_create_from_string_and_family_def)
  qed
qed

end
