(* ===== verification/Epdg_Ue.thy ===== *)
theory Epdg_Ue
  imports Epdg_Utils Host Hashtable
begin

text \<open>
  The UE object of \<open>osmo_epdg_ue.c\<close>.  UE objects are shared between the IKE threads and the
  subscriber table and live on a heap: an object is freed when its reference count drops to
  zero, and every operation on a freed object is the fault \<^const>\<open>UseAfterFree\<close>.  Each object
  carries a read-write lock; the model keeps the number of read locks that were taken and
  not released, and a write lock taken while that number is positive is \<^const>\<open>Blocked\<close>.
  The reference count is unbounded in the model (\<open>u_int\<close> in the code: fewer than
  \<open>2^32\<close> references exist at any time).
\<close>

section \<open>Data\<close>

datatype ue_state =
    UE_UNAUTHENTICATED | UE_AUTHENTICATED | UE_WAIT_LOCATION_UPDATE | UE_LOCATION_UPDATED
  | UE_WAIT_TUNNEL | UE_TUNNEL_READY | UE_CONNECTED | UE_DISCONNECTING | UE_FAIL | UE_DESTROYED

datatype attr_type = INTERNAL_IP4_DNS | P_CSCF_IP4_ADDRESS | OTHER_ATTRIBUTE nat

record epdg_attribute =
  attr_type :: attr_type
  attr_value :: chunk
  attr_valid :: bool

record ue =
  ue_id :: "32 word"
  ue_imsi :: cstring
  ue_apn :: cstring
  ue_address :: "host option"
  ue_attributes :: "epdg_attribute list"
  ue_refcount :: nat
  ue_readers :: nat
  ue_state :: ue_state

text \<open>The heap of UE objects and the subscriber table of \<open>osmo_epdg_db.c\<close>.\<close>

record epdg =
  ues :: "nat \<Rightarrow> ue option"
  next_ue :: nat
  subscribers :: "(cstring, nat) hashtable"

definition deref :: "nat \<Rightarrow> epdg \<Rightarrow> ue res" where
  "deref p s = (case ues s p of None \<Rightarrow> Inl UseAfterFree | Some u \<Rightarrow> Inr u)"

definition assign :: "nat \<Rightarrow> ue \<Rightarrow> epdg \<Rightarrow> epdg" where
  "assign p u s = s\<lparr>ues := (ues s)(p \<mapsto> u)\<rparr>"

section \<open>Operations\<close>

definition get_imsi :: "nat \<Rightarrow> epdg \<Rightarrow> cstring res" where
  "get_imsi p s = andThen (deref p s) (\<lambda>u. Inr (ue_imsi u))"

definition get_apn :: "nat \<Rightarrow> epdg \<Rightarrow> cstring res" where
  "get_apn p s = andThen (deref p s) (\<lambda>u. Inr (ue_apn u))"

definition get_id :: "nat \<Rightarrow> epdg \<Rightarrow> 32 word res" where
  "get_id p s = andThen (deref p s) (\<lambda>u. Inr (ue_id u))"

definition set_id :: "nat \<Rightarrow> 32 word \<Rightarrow> epdg \<Rightarrow> epdg res" where
  "set_id p i s = andThen (deref p s) (\<lambda>u. Inr (assign p (u\<lparr>ue_id := i\<rparr>) s))"

text \<open>A section under the object's write lock, and one under its read lock.\<close>

definition with_write :: "nat \<Rightarrow> (ue \<Rightarrow> ue) \<Rightarrow> epdg \<Rightarrow> epdg res" where
  "with_write p f s =
     andThen (deref p s) (\<lambda>u. if ue_readers u > 0 then Inl Blocked else Inr (assign p (f u) s))"

definition set_address :: "nat \<Rightarrow> host \<Rightarrow> epdg \<Rightarrow> epdg res" where
  "set_address p a = with_write p (\<lambda>u. u\<lparr>ue_address := Some a\<rparr>)"

definition get_address_ue :: "nat \<Rightarrow> epdg \<Rightarrow> host option res" where
  "get_address_ue p s = andThen (deref p s) (\<lambda>u. Inr (ue_address u))"

definition set_state :: "nat \<Rightarrow> ue_state \<Rightarrow> epdg \<Rightarrow> epdg res" where
  "set_state p st = with_write p (\<lambda>u. u\<lparr>ue_state := st\<rparr>)"

definition get_state :: "nat \<Rightarrow> epdg \<Rightarrow> ue_state res" where
  "get_state p s = andThen (deref p s) (\<lambda>u. Inr (ue_state u))"

text \<open>\<open>get_attributes\<close> returns before it reaches the unlock: the read lock stays taken.\<close>

definition get_attributes :: "nat \<Rightarrow> epdg \<Rightarrow> (epdg_attribute list \<times> epdg) res" where
  "get_attributes p s =
     andThen (deref p s)
       (\<lambda>u. Inr (ue_attributes u, assign p (u\<lparr>ue_readers := ue_readers u + 1\<rparr>) s))"

definition insert_attribute :: "nat \<Rightarrow> epdg_attribute \<Rightarrow> epdg \<Rightarrow> epdg res" where
  "insert_attribute p a = with_write p (\<lambda>u. u\<lparr>ue_attributes := ue_attributes u @ [a]\<rparr>)"

definition ue_get :: "nat \<Rightarrow> epdg \<Rightarrow> epdg res" where
  "ue_get p s =
     andThen (deref p s) (\<lambda>u. Inr (assign p (u\<lparr>ue_refcount := ue_refcount u + 1\<rparr>) s))"

definition ue_destroy :: "nat \<Rightarrow> epdg \<Rightarrow> epdg" where
  "ue_destroy p s = s\<lparr>ues := (ues s)(p := None)\<rparr>"

definition ue_put :: "nat \<Rightarrow> epdg \<Rightarrow> epdg res" where
  "ue_put p s =
     andThen (deref p s)
       (\<lambda>u. Inr (if ue_refcount u - 1 = 0 then ue_destroy p s
                 else assign p (u\<lparr>ue_refcount := ue_refcount u - 1\<rparr>) s))"

definition osmo_epdg_ue_create :: "32 word \<Rightarrow> cstring \<Rightarrow> cstring \<Rightarrow> epdg \<Rightarrow> nat option \<times> epdg" where
  "osmo_epdg_ue_create i imsi apn s =
     (if epdg_validate_apn (Some apn) \<or> epdg_validate_imsi (Some imsi) then (None, s)
      else (Some (next_ue s),
            (assign (next_ue s)
              \<lparr>ue_id = i, ue_imsi = imsi, ue_apn = apn, ue_address = None, ue_attributes = [],
               ue_refcount = 1, ue_readers = 0, ue_state = UE_WAIT_LOCATION_UPDATE\<rparr> s)
              \<lparr>next_ue := next_ue s + 1\<rparr>))"

section \<open>Lemmas\<close>

lemma deref_Some [simp]: "ues s p = Some u \<Longrightarrow> deref p s = Inr u"
  by (simp add: deref_def)

lemma assign_sel [simp]:
  "ues (assign p u s) = (ues s)(p \<mapsto> u)"
  "next_ue (assign p u s) = next_ue s"
  "subscribers (assign p u s) = subscribers s"
  by (simp_all add: assign_def)

lemma ue_destroy_sel [simp]:
  "ues (ue_destroy p s) = (ues s)(p := None)"
  "next_ue (ue_destroy p s) = next_ue s"
  "subscribers (ue_destroy p s) = subscribers s"
  by (simp_all add: ue_destroy_def)

lemmas ue_ops_defs = get_imsi_def get_apn_def get_id_def set_id_def with_write_def set_address_def
  get_address_ue_def set_state_def get_state_def get_attributes_def insert_attribute_def
  ue_get_def ue_put_def

lemma with_write_Inr_iff:
  "with_write p f s = Inr s' \<longleftrightarrow> (\<exists>u. ues s p = Some u \<and> ue_readers u = 0 \<and> s' = assign p (f u) s)"
  by (auto simp: with_write_def deref_def split: option.splits)

lemma ue_get_Inr:
  "ue_get p s = Inr s' \<Longrightarrow> \<exists>u. ues s p = Some u
     \<and> ues s' = (ues s)(p \<mapsto> u\<lparr>ue_refcount := ue_refcount u + 1\<rparr>)"
  by (auto simp: ue_get_def deref_def split: option.splits)

end
