(* ===== verification/Epdg_Db.thy ===== *)
theory Epdg_Db
  imports Epdg_Ue Transition
begin

text \<open>
  The subscriber database of \<open>osmo_epdg_db.c\<close>: UE objects by IMSI in a hash table.  The
  database owns one reference to every UE in its table; \<open>create_subscriber\<close> and the
  \<open>get_subscriber\<close> operations hand one more reference to their caller.  The operations run
  under the database lock, so each is one atomic step; the step relation at the end lets
  any number of threads interleave them with operations on the UE objects they hold.
\<close>

section \<open>Operations\<close>

definition lift_ht :: "'a option \<Rightarrow> 'a res" where
  "lift_ht r = (case r of None \<Rightarrow> Inl Diverges | Some x \<Rightarrow> Inr x)"

definition put_opt :: "nat option \<Rightarrow> epdg \<Rightarrow> epdg res" where
  "put_opt r s = (case r of None \<Rightarrow> Inr s | Some p \<Rightarrow> ue_put p s)"

definition create_subscriber :: "nat \<Rightarrow> ike_sa \<Rightarrow> epdg \<Rightarrow> (nat option \<times> epdg) res" where
  "create_subscriber apn_maxlen sa s =
     (case epdg_get_imsi_ike sa 15 of
        Inl _ \<Rightarrow> Inr (None, s)
      | Inr imsi \<Rightarrow>
          case epdg_get_apn sa apn_maxlen of
            Inl _ \<Rightarrow> Inr (None, s)
          | Inr apn \<Rightarrow>
              andThen (lift_ht (ht_remove (subscribers s) imsi)) (\<lambda>(old, t).
              andThen (put_opt old (s\<lparr>subscribers := t\<rparr>)) (\<lambda>s1.
              case osmo_epdg_ue_create (unique_id sa) imsi apn s1 of
                (None, s2) \<Rightarrow> Inr (None, s2)
              | (Some p, s2) \<Rightarrow>
                  andThen (get_imsi p s2) (\<lambda>k.
                  andThen (lift_ht (ht_put (subscribers s2) k p)) (\<lambda>(_, t2).
                  andThen (ue_get p (s2\<lparr>subscribers := t2\<rparr>)) (\<lambda>s3.
                  Inr (Some p, s3)))))))"

definition get_subscriber :: "cstring \<Rightarrow> epdg \<Rightarrow> (nat option \<times> epdg) res" where
  "get_subscriber imsi s =
     andThen (lift_ht (ht_get (subscribers s) imsi)) (\<lambda>r.
       case r of
         None \<Rightarrow> Inr (None, s)
       | Some p \<Rightarrow> andThen (ue_get p s) (\<lambda>s'. Inr (Some p, s')))"

definition get_subscriber_ike :: "ike_sa \<Rightarrow> epdg \<Rightarrow> (nat option \<times> epdg) res" where
  "get_subscriber_ike sa s =
     (case epdg_get_imsi_ike sa 16 of
        Inl _ \<Rightarrow> Inr (None, s)
      | Inr imsi \<Rightarrow> get_subscriber imsi s)"

text \<open>
  The loop of \<open>get_subscriber_id\<close> hands the pointer \<open>ue\<close>, not its address, to the
  enumerator.  The pointer is NULL, so the enumerator stores nothing and the loop skips
  every entry.
\<close>

fun id_loop :: "32 word \<Rightarrow> (cstring \<times> nat) list \<Rightarrow> nat option \<Rightarrow> epdg \<Rightarrow> (nat option \<times> epdg) res" where
  "id_loop i [] cur s = Inr (None, s)"
| "id_loop i (e # es) cur s =
     (case cur of
        None \<Rightarrow> id_loop i es cur s
      | Some p \<Rightarrow> andThen (get_id p s) (\<lambda>j.
          if j = i then andThen (ue_get p s) (\<lambda>s'. Inr (Some p, s')) else id_loop i es cur s))"

definition get_subscriber_id :: "32 word \<Rightarrow> epdg \<Rightarrow> (nat option \<times> epdg) res" where
  "get_subscriber_id i s = id_loop i (ht_entries (subscribers s)) None s"

definition remove_subscriber :: "cstring \<Rightarrow> epdg \<Rightarrow> epdg res" where
  "remove_subscriber imsi s =
     andThen (lift_ht (ht_remove (subscribers s) imsi)) (\<lambda>(old, t).
       put_opt old (s\<lparr>subscribers := t\<rparr>))"

fun put_all :: "nat list \<Rightarrow> epdg \<Rightarrow> epdg res" where
  "put_all [] s = Inr s"
| "put_all (p # ps) s = andThen (ue_put p s) (put_all ps)"

definition db_destroy :: "epdg \<Rightarrow> epdg res" where
  "db_destroy s = put_all (map snd (ht_entries (subscribers s))) s"

definition osmo_epdg_db_create :: "(cstring \<Rightarrow> 32 word) \<Rightarrow> epdg" where
  "osmo_epdg_db_create hash_str =
     \<lparr>ues = (\<lambda>_. None), next_ue = 0, subscribers = hashtable_create hash_str (\<lambda>a b. a = b) 128\<rparr>"

section \<open>Reference counting\<close>

text \<open>\<open>held p\<close> is the number of references to object \<open>p\<close> that threads currently hold.\<close>

type_synonym refs = "nat \<Rightarrow> nat"

abbreviation db_map :: "epdg \<Rightarrow> cstring \<Rightarrow> nat option" where
  "db_map s \<equiv> ht_abs (subscribers s)"

text \<open>The IMSIs under which the table refers to object \<open>p\<close>.\<close>

definition keys_of :: "epdg \<Rightarrow> nat \<Rightarrow> cstring set" where
  "keys_of s p = {k. db_map s k = Some p}"

definition obj_ok :: "epdg \<Rightarrow> refs \<Rightarrow> nat \<Rightarrow> bool" where
  "obj_ok s held p = (case ues s p of
      None \<Rightarrow> held p = 0 \<and> keys_of s p = {}
    | Some u \<Rightarrow> keys_of s p \<subseteq> {ue_imsi u}
        \<and> ue_refcount u = held p + card (keys_of s p) \<and> 0 < held p + card (keys_of s p))"

definition ref_inv :: "epdg \<Rightarrow> refs \<Rightarrow> bool" where
  "ref_inv s held \<longleftrightarrow> ht_inv (subscribers s) \<and> (\<forall>p. next_ue s \<le> p \<longrightarrow> ues s p = None)
     \<and> (\<forall>p. obj_ok s held p)"

lemma ref_invD: "ref_inv s held \<Longrightarrow> obj_ok s held p"
  by (simp add: ref_inv_def)

text \<open>
  An operation on the object \<open>p\<close> (or on the table entry of \<open>p\<close>) keeps the invariant if it
  keeps it at \<open>p\<close> and leaves the other objects and their entries alone.
\<close>

lemma ref_inv_local:
  assumes inv: "ref_inv s held" and p: "obj_ok s' held' p"
    and tab: "ht_inv (subscribers s')"
    and alive: "ues s p \<noteq> None" and nxt: "next_ue s' = next_ue s"
    and frame: "\<And>q. q \<noteq> p \<Longrightarrow> ues s' q = ues s q \<and> held' q = held q \<and> keys_of s' q = keys_of s q"
  shows "ref_inv s' held'"
proof -
  have "obj_ok s' held' q" for q
    using p frame [of q] ref_invD [OF inv, of q]
    by (cases "q = p") (simp_all add: obj_ok_def split: option.splits)
  moreover have "ues s' q = None" if "next_ue s' \<le> q" for q
    using inv alive frame [of q] that nxt by (cases "q = p") (auto simp: ref_inv_def)
  ultimately show ?thesis using tab by (simp add: ref_inv_def)
qed

lemma keys_of_assign [simp]:
  "keys_of (assign p u s) = keys_of s" "keys_of (ue_destroy p s) = keys_of s"
  by (simp_all add: keys_of_def fun_eq_iff)

lemma ref_inv_ht: "ref_inv s held \<Longrightarrow> ht_inv (subscribers s)"
  by (simp add: ref_inv_def)

lemma ref_inv_Some:
  "ref_inv s held \<Longrightarrow> ues s p = Some u \<Longrightarrow> keys_of s p \<subseteq> {ue_imsi u}
     \<and> ue_refcount u = held p + card (keys_of s p) \<and> 0 < held p + card (keys_of s p)"
  using ref_invD [of s held p] by (simp add: obj_ok_def)

lemma ref_inv_held: "ref_inv s held \<Longrightarrow> 0 < held p \<Longrightarrow> \<exists>u. ues s p = Some u"
  using ref_invD [of s held p] by (auto simp: obj_ok_def split: option.splits)

lemma ref_inv_db: "ref_inv s held \<Longrightarrow> db_map s k = Some p \<Longrightarrow> \<exists>u. ues s p = Some u \<and> ue_imsi u = k"
  using ref_invD [of s held p] by (auto simp: obj_ok_def keys_of_def split: option.splits)

lemma ref_inv_get:
  assumes "ref_inv s held" and "ues s p = Some u"
  shows "\<exists>s'. ue_get p s = Inr s' \<and> ref_inv s' (held(p := held p + 1)) \<and> subscribers s' = subscribers s"
proof -
  let ?s = "assign p (u\<lparr>ue_refcount := ue_refcount u + 1\<rparr>) s"
  have "ref_inv ?s (held(p := held p + 1))"
    by (rule ref_inv_local [OF assms(1), of _ _ p])
      (use assms ref_inv_Some [OF assms] ref_inv_ht [OF assms(1)] in \<open>simp_all add: obj_ok_def\<close>)
  then show ?thesis using assms(2) by (simp add: ue_get_def)
qed

lemma ref_inv_put:
  assumes "ref_inv s held" and "0 < held p"
  shows "\<exists>s'. ue_put p s = Inr s' \<and> ref_inv s' (held(p := held p - 1)) \<and> subscribers s' = subscribers s"
proof -
  obtain u where u: "ues s p = Some u" using ref_inv_held [OF assms] by blast
  note ok = ref_inv_Some [OF assms(1) u] ref_inv_ht [OF assms(1)]
  let ?d = "ue_destroy p s" and ?a = "assign p (u\<lparr>ue_refcount := ue_refcount u - 1\<rparr>) s"
  have "ref_inv (if ue_refcount u - 1 = 0 then ?d else ?a) (held(p := held p - 1))"
  proof (cases "ue_refcount u - 1 = 0")
    case True
    then have "held p = 1" "card (keys_of s p) = 0" using ok assms(2) by auto
    moreover have "finite (keys_of s p)" using ok(1) finite_subset by blast
    ultimately have "held p = 1" "keys_of s p = {}" by auto
    then have "ref_inv ?d (held(p := held p - 1))"
      by (intro ref_inv_local [OF assms(1), of _ _ p])
        (use u ok in \<open>simp_all add: obj_ok_def\<close>)
    then show ?thesis using True by simp
  next
    case False
    then have "ref_inv ?a (held(p := held p - 1))"
      by (intro ref_inv_local [OF assms(1), of _ _ p])
        (use assms u ok in \<open>simp_all add: obj_ok_def\<close>)
    then show ?thesis using False by simp
  qed
  then show ?thesis using u by (auto simp: ue_put_def)
qed

text \<open>Updates that touch neither the reference count nor the IMSI keep the invariant.\<close>

lemma ref_inv_assign:
  assumes "ref_inv s held" and "ues s p = Some u"
    and "ue_refcount u' = ue_refcount u" and "ue_imsi u' = ue_imsi u"
  shows "ref_inv (assign p u' s) held"
  by (rule ref_inv_local [OF assms(1), of _ _ p])
    (use assms ref_inv_Some [OF assms(1,2)] ref_inv_ht [OF assms(1)] in \<open>simp_all add: obj_ok_def\<close>)

text \<open>An entry moves between the table and a thread: the reference goes with it.\<close>

lemma ref_inv_table:
  assumes inv: "ref_inv s held" and k: "db_map s k = Some p" and t: "ht_inv t"
    and abs: "ht_abs t = (db_map s)(k := None)"
  shows "ref_inv (s\<lparr>subscribers := t\<rparr>) (held(p := held p + 1))"
proof -
  let ?s = "s\<lparr>subscribers := t\<rparr>"
  obtain u where u: "ues s p = Some u" "ue_imsi u = k" using ref_inv_db [OF inv k] by blast
  have "k \<in> keys_of s p" using k by (simp add: keys_of_def)
  then have K: "keys_of s p = {k}" using ref_inv_Some [OF inv u(1)] u(2) by auto
  have "keys_of ?s p = {}" using K abs by (auto simp: keys_of_def)
  moreover have "keys_of ?s q = keys_of s q" if "q \<noteq> p" for q
    using abs k that by (auto simp: keys_of_def)
  ultimately show ?thesis
    by (intro ref_inv_local [OF inv, of _ _ p])
      (use u t K ref_inv_Some [OF inv u(1)] in \<open>simp_all add: obj_ok_def\<close>)
qed

lemma ref_inv_table_None:
  assumes "ref_inv s held" and "db_map s k = None" and "ht_inv t"
    and "ht_abs t = (db_map s)(k := None)"
  shows "ref_inv (s\<lparr>subscribers := t\<rparr>) held"
proof -
  have "ht_abs t = db_map s" using assms(2,4) by (simp add: fun_upd_idem)
  then have "keys_of (s\<lparr>subscribers := t\<rparr>) = keys_of s" by (simp add: keys_of_def fun_eq_iff)
  then have "obj_ok (s\<lparr>subscribers := t\<rparr>) held p = obj_ok s held p" for p
    by (simp add: obj_ok_def split: option.split)
  then show ?thesis using assms(1,3) by (simp add: ref_inv_def)
qed

lemma ref_inv_table_put:
  assumes inv: "ref_inv s held" and u: "ues s p = Some u" and "0 < held p"
    and k: "db_map s (ue_imsi u) = None" and t: "ht_inv t"
    and abs: "ht_abs t = (db_map s)(ue_imsi u \<mapsto> p)"
  shows "ref_inv (s\<lparr>subscribers := t\<rparr>) (held(p := held p - 1))"
proof -
  let ?s = "s\<lparr>subscribers := t\<rparr>"
  have "ue_imsi u \<notin> keys_of s p" using k by (simp add: keys_of_def)
  then have K: "keys_of s p = {}" using ref_inv_Some [OF inv u] by auto
  have "keys_of ?s p = {ue_imsi u}" using K abs by (auto simp: keys_of_def)
  moreover have "keys_of ?s q = keys_of s q" if "q \<noteq> p" for q
    using abs k that by (auto simp: keys_of_def)
  ultimately show ?thesis
    by (intro ref_inv_local [OF inv, of _ _ p])
      (use u t K assms(3) ref_inv_Some [OF inv u] in \<open>simp_all add: obj_ok_def\<close>)
qed

text \<open>Taking an entry out of the table and giving back the reference the table owned.\<close>

lemma remove_entry:
  assumes inv: "ref_inv s held"
  shows "\<exists>old t s'. ht_remove (subscribers s) k = Some (old, t)
    \<and> put_opt old (s\<lparr>subscribers := t\<rparr>) = Inr s' \<and> ref_inv s' held
    \<and> db_map s' = (db_map s)(k := None) \<and> ht_count (subscribers s') \<le> ht_count (subscribers s)"
proof -
  have "ht_inv (subscribers s)" using inv by (simp add: ref_inv_def)
  from ht.delete_spec [OF this, of k] obtain t where
    t: "ht_remove (subscribers s) k = Some (db_map s k, t)" "ht_inv t"
    "ht_count t \<le> ht_count (subscribers s)" "ht_abs t = (db_map s)(k := None)"
    by blast
  show ?thesis
  proof (cases "db_map s k")
    case None
    then show ?thesis using t ref_inv_table_None [OF inv None t(2,4)] by (auto simp: put_opt_def)
  next
    case (Some p)
    note r = ref_inv_table [OF inv Some t(2,4)]
    obtain s' where s': "ue_put p (s\<lparr>subscribers := t\<rparr>) = Inr s'"
      "ref_inv s' ((held(p := held p + 1))(p := (held(p := held p + 1)) p - 1))"
      "subscribers s' = subscribers (s\<lparr>subscribers := t\<rparr>)"
      using ref_inv_put [OF r, of p] by auto
    then have "ref_inv s' held" by simp
    then show ?thesis using t Some s' by (auto simp: put_opt_def)
  qed
qed

lemma remove_subscriber_spec:
  assumes "ref_inv s held"
  shows "\<exists>s'. remove_subscriber k s = Inr s' \<and> ref_inv s' held \<and> db_map s' = (db_map s)(k := None)"
  using remove_entry [OF assms, of k] by (auto simp: remove_subscriber_def lift_ht_def)

lemma get_subscriber_spec:
  assumes "ref_inv s held"
  shows "\<exists>s'. get_subscriber k s = Inr (db_map s k, s') \<and> subscribers s' = subscribers s
    \<and> ref_inv s' (case db_map s k of None \<Rightarrow> held | Some p \<Rightarrow> held(p := held p + 1))"
proof -
  have g: "ht_get (subscribers s) k = Some (db_map s k)"
    using assms ht.lookup_spec by (auto simp: ref_inv_def)
  show ?thesis
  proof (cases "db_map s k")
    case None
    then show ?thesis using g assms by (simp add: get_subscriber_def lift_ht_def)
  next
    case (Some p)
    then obtain u where "ues s p = Some u" using ref_inv_db [OF assms] by blast
    then show ?thesis using g Some ref_inv_get [OF assms]
      by (fastforce simp: get_subscriber_def lift_ht_def)
  qed
qed


text \<open>A lookup changes nothing but the reference count of the UE it finds.\<close>

definition referenced :: "nat option \<Rightarrow> epdg \<Rightarrow> epdg" where
  "referenced r s = (case r of None \<Rightarrow> s
     | Some p \<Rightarrow> s\<lparr>ues := (ues s)(p := map_option (\<lambda>u. u\<lparr>ue_refcount := ue_refcount u + 1\<rparr>) (ues s p))\<rparr>)"

lemma get_subscriber_exact:
  assumes "ref_inv s held"
  shows "get_subscriber k s = Inr (db_map s k, referenced (db_map s k) s)"
proof -
  have g: "ht_get (subscribers s) k = Some (db_map s k)" using assms ht.lookup_spec by (auto simp: ref_inv_def)
  show ?thesis
  proof (cases "db_map s k")
    case None
    then show ?thesis using g by (simp add: get_subscriber_def lift_ht_def referenced_def)
  next
    case (Some p)
    then obtain u where u: "ues s p = Some u" using ref_inv_db [OF assms] by blast
    then have "ue_get p s = Inr (referenced (Some p) s)" by (simp add: ue_get_def referenced_def)
    then show ?thesis using g Some by (simp add: get_subscriber_def lift_ht_def)
  qed
qed

lemma get_subscriber_ike_spec:
  assumes "ref_inv s held"
  shows "\<exists>r s'. get_subscriber_ike sa s = Inr (r, s') \<and> subscribers s' = subscribers s
    \<and> ref_inv s' (case r of None \<Rightarrow> held | Some p \<Rightarrow> held(p := held p + 1))"
  using assms get_subscriber_spec [OF assms]
  by (fastforce simp: get_subscriber_ike_def split: sum.splits)

lemma get_subscriber_id_None: "get_subscriber_id i s = Inr (None, s)"
proof -
  have "id_loop i es None s = Inr (None, s)" for es by (induction es) auto
  then show ?thesis by (simp add: get_subscriber_id_def)
qed

text \<open>A new object, handed to its creator with the reference it is born with.\<close>

lemma ref_inv_create:
  assumes inv: "ref_inv s held" and c: "osmo_epdg_ue_create i imsi apn s = (Some p, s')"
  shows "p = next_ue s \<and> subscribers s' = subscribers s \<and> ref_inv s' (held(p := 1))
    \<and> held p = 0 \<and> ues s' p = Some \<lparr>ue_id = i, ue_imsi = imsi, ue_apn = apn, ue_address = None,
          ue_attributes = [], ue_refcount = 1, ue_readers = 0, ue_state = UE_WAIT_LOCATION_UPDATE\<rparr>"
proof -
  have p: "p = next_ue s" and n: "ues s p = None"
    using c inv by (auto simp: osmo_epdg_ue_create_def ref_inv_def split: if_splits)
  have h: "held p = 0" "keys_of s p = {}" using ref_invD [OF inv, of p] n by (auto simp: obj_ok_def)
  have s': "subscribers s' = subscribers s" "next_ue s' = next_ue s + 1"
    "ues s' = (ues s)(p \<mapsto> \<lparr>ue_id = i, ue_imsi = imsi, ue_apn = apn, ue_address = None,
          ue_attributes = [], ue_refcount = 1, ue_readers = 0, ue_state = UE_WAIT_LOCATION_UPDATE\<rparr>)"
    using c by (auto simp: osmo_epdg_ue_create_def split: if_splits)
  have k: "keys_of s' = keys_of s" using s'(1) by (simp add: keys_of_def fun_eq_iff)
  have "obj_ok s' (held(p := 1)) q" for q
    using ref_invD [OF inv, of q] s'(3) k h by (cases "q = p") (simp_all add: obj_ok_def split: option.splits)
  moreover have "ues s' q = None" if "next_ue s' \<le> q" for q
    using inv s'(2,3) that p by (simp add: ref_inv_def)
  ultimately have "ref_inv s' (held(p := 1))"
    using inv s'(1) by (simp add: ref_inv_def)
  then show ?thesis using p s' h by simp
qed

text \<open>The identities of the IKE_SA name a valid subscriber.\<close>

definition valid_subscriber :: "nat \<Rightarrow> ike_sa \<Rightarrow> bool" where
  "valid_subscriber n sa \<longleftrightarrow> (\<exists>imsi apn. epdg_get_imsi_ike sa 15 = Inr imsi
     \<and> epdg_get_apn sa n = Inr apn \<and> \<not> epdg_validate_apn (Some apn)
     \<and> \<not> epdg_validate_imsi (Some imsi))"

text \<open>
  The IMSI whose entry \<open>create_subscriber\<close> takes out before it knows whether the UE can be created:
  the peer's, once IMSI and APN could be read.
\<close>

definition displaced :: "nat \<Rightarrow> ike_sa \<Rightarrow> cstring option" where
  "displaced n sa = (case (epdg_get_imsi_ike sa 15, epdg_get_apn sa n) of (Inr imsi, Inr apn) \<Rightarrow> Some imsi | _ \<Rightarrow> None)"

definition without :: "cstring option \<Rightarrow> (cstring \<Rightarrow> nat option) \<Rightarrow> cstring \<Rightarrow> nat option" where
  "without k m = (case k of None \<Rightarrow> m | Some i \<Rightarrow> m(i := None))"

lemma create_subscriber_spec:
  assumes inv: "ref_inv s held" and room: "ht_count (subscribers s) \<le> ht_limit"
  shows "\<exists>r s'. create_subscriber n sa s = Inr (r, s')
    \<and> ref_inv s' (case r of None \<Rightarrow> held | Some p \<Rightarrow> held(p := held p + 1))
    \<and> (\<forall>p. r = Some p \<longrightarrow> (\<exists>u. ues s' p = Some u \<and> ue_readers u = 0
         \<and> db_map s' = (db_map s)(ue_imsi u \<mapsto> p) \<and> ue_state u = UE_WAIT_LOCATION_UPDATE
         \<and> epdg_get_imsi_ike sa 15 = Inr (ue_imsi u)))
    \<and> (r \<noteq> None \<longleftrightarrow> valid_subscriber n sa) \<and> (r = None \<longrightarrow> db_map s' = without (displaced n sa) (db_map s))"
proof (cases "epdg_get_imsi_ike sa 15")
  case (Inl e)
  then show ?thesis using inv by (simp add: create_subscriber_def valid_subscriber_def displaced_def without_def)
next
  case imsi: (Inr imsi)
  show ?thesis
  proof (cases "epdg_get_apn sa n")
    case (Inl e)
    then show ?thesis using inv imsi by (simp add: create_subscriber_def valid_subscriber_def displaced_def without_def)
  next
    case apn: (Inr apn)
    obtain old t s1 where 1: "ht_remove (subscribers s) imsi = Some (old, t)"
      "put_opt old (s\<lparr>subscribers := t\<rparr>) = Inr s1" "ref_inv s1 held"
      "db_map s1 = (db_map s)(imsi := None)" "ht_count (subscribers s1) \<le> ht_count (subscribers s)"
      using remove_entry [OF inv, of imsi] by blast
    obtain r s2 where c: "osmo_epdg_ue_create (unique_id sa) imsi apn s1 = (r, s2)" by fastforce
    then have v: "r \<noteq> None \<longleftrightarrow> valid_subscriber n sa"
      using imsi apn by (auto simp: osmo_epdg_ue_create_def valid_subscriber_def split: if_splits)
    show ?thesis
    proof (cases r)
      case None
      then have "s2 = s1" using c by (auto simp: osmo_epdg_ue_create_def split: if_splits)
      then show ?thesis using None c 1 imsi apn v
        by (simp add: create_subscriber_def lift_ht_def displaced_def without_def)
    next
      case (Some p)
      note cr = ref_inv_create [OF 1(3) c [unfolded Some]]
      have "ht_inv (subscribers s2)" using cr ref_inv_ht by blast
      then obtain t2 where t2: "ht_put (subscribers s2) imsi p = Some (db_map s2 imsi, t2)" "ht_inv t2"
        "ht_abs t2 = (db_map s2)(imsi \<mapsto> p)"
        using ht.update_spec [of "subscribers s2" imsi p] cr 1(5) room by fastforce
      have "ref_inv (s2\<lparr>subscribers := t2\<rparr>) ((held(p := 1))(p := (held(p := 1)) p - 1))"
        by (rule ref_inv_table_put) (use cr t2 1(4) in auto)
      moreover have "(held(p := 1))(p := (held(p := 1)) p - 1) = held" using cr by auto
      ultimately have 3: "ref_inv (s2\<lparr>subscribers := t2\<rparr>) held" by simp
      obtain s3 where s3: "ue_get p (s2\<lparr>subscribers := t2\<rparr>) = Inr s3" "ref_inv s3 (held(p := held p + 1))"
        "subscribers s3 = t2"
        using ref_inv_get [OF 3, of p] cr by auto
      then have "\<exists>u. ues s3 p = Some u \<and> ue_imsi u = imsi \<and> ue_readers u = 0
          \<and> ue_state u = UE_WAIT_LOCATION_UPDATE"
        using cr ue_get_Inr [OF s3(1)] by auto
      moreover have "db_map s3 = (db_map s)(imsi \<mapsto> p)"
        using s3(3) t2(3) cr 1(4) by simp
      ultimately show ?thesis using Some c 1 imsi apn cr t2 s3 v
        by (auto simp: create_subscriber_def lift_ht_def get_imsi_def)
    qed
  qed
qed


section \<open>Interleaved threads\<close>

text \<open>
  One step is one atomic operation of some thread.  The second component of the state counts
  the references the threads hold; an operation on an object is made only by a thread that
  holds a reference to it, and giving a reference back uses one up.
\<close>

inductive db_step :: "nat \<Rightarrow> epdg \<times> refs \<Rightarrow> epdg \<times> refs \<Rightarrow> bool" for apn_maxlen :: nat where
  create: "ht_count (subscribers s) \<le> ht_limit \<Longrightarrow> create_subscriber apn_maxlen sa s = Inr (r, s') \<Longrightarrow>
     db_step apn_maxlen (s, held) (s', case r of None \<Rightarrow> held | Some p \<Rightarrow> held(p := held p + 1))"
| lookup: "get_subscriber imsi s = Inr (r, s') \<Longrightarrow>
     db_step apn_maxlen (s, held) (s', case r of None \<Rightarrow> held | Some p \<Rightarrow> held(p := held p + 1))"
| lookup_ike: "get_subscriber_ike sa s = Inr (r, s') \<Longrightarrow>
     db_step apn_maxlen (s, held) (s', case r of None \<Rightarrow> held | Some p \<Rightarrow> held(p := held p + 1))"
| remove: "remove_subscriber imsi s = Inr s' \<Longrightarrow> db_step apn_maxlen (s, held) (s', held)"
| ref: "0 < held p \<Longrightarrow> ue_get p s = Inr s' \<Longrightarrow>
     db_step apn_maxlen (s, held) (s', held(p := held p + 1))"
| unref: "0 < held p \<Longrightarrow> ue_put p s = Inr s' \<Longrightarrow>
     db_step apn_maxlen (s, held) (s', held(p := held p - 1))"
| state: "0 < held p \<Longrightarrow> set_state p st s = Inr s' \<Longrightarrow> db_step apn_maxlen (s, held) (s', held)"
| address: "0 < held p \<Longrightarrow> set_address p a s = Inr s' \<Longrightarrow> db_step apn_maxlen (s, held) (s', held)"
| attribute: "0 < held p \<Longrightarrow> insert_attribute p x s = Inr s' \<Longrightarrow> db_step apn_maxlen (s, held) (s', held)"
| attributes: "0 < held p \<Longrightarrow> get_attributes p s = Inr (xs, s') \<Longrightarrow> db_step apn_maxlen (s, held) (s', held)"
| ident: "0 < held p \<Longrightarrow> set_id p i s = Inr s' \<Longrightarrow> db_step apn_maxlen (s, held) (s', held)"

definition db_init :: "(cstring \<Rightarrow> 32 word) \<Rightarrow> epdg \<times> refs \<Rightarrow> bool" where
  "db_init h x \<longleftrightarrow> x = (osmo_epdg_db_create h, \<lambda>_. 0)"

lemma db_init_inv: "db_init h x \<Longrightarrow> ref_inv (fst x) (snd x)"
  by (simp add: db_init_def osmo_epdg_db_create_def ref_inv_def obj_ok_def keys_of_def
      hashtable_create_inv hashtable_create_abs)

lemma ref_inv_with_write:
  assumes "ref_inv s held" and "with_write p f s = Inr s'"
    and "\<And>u. ue_refcount (f u) = ue_refcount u" and "\<And>u. ue_imsi (f u) = ue_imsi u"
  shows "ref_inv s' held"
  using assms by (auto simp: with_write_Inr_iff intro: ref_inv_assign)

lemma ref_inv_setters:
  assumes inv: "ref_inv s held"
  shows "set_state p st s = Inr s' \<Longrightarrow> ref_inv s' held"
    and "set_address p a s = Inr s' \<Longrightarrow> ref_inv s' held"
    and "insert_attribute p x s = Inr s' \<Longrightarrow> ref_inv s' held"
    and "set_id p i s = Inr s' \<Longrightarrow> ref_inv s' held"
    and "get_attributes p s = Inr (xs, s') \<Longrightarrow> ref_inv s' held"
  by (auto simp: set_state_def set_address_def insert_attribute_def
      intro: ref_inv_with_write [OF inv])
    (auto simp: set_id_def get_attributes_def deref_def split: option.splits
      intro: ref_inv_assign [OF inv])

lemma db_step_inv: "db_step n x y \<Longrightarrow> ref_inv (fst x) (snd x) \<Longrightarrow> ref_inv (fst y) (snd y)"
proof (induction rule: db_step.induct)
  case (create s sa r s' held)
  then show ?case using create_subscriber_spec [of s held n sa] by auto
next
  case (lookup imsi s r s' held)
  then show ?case using get_subscriber_spec [of s held imsi] by auto
next
  case (lookup_ike sa s r s' held)
  then show ?case using get_subscriber_ike_spec [of s held sa] by auto
next
  case (remove imsi s s' held)
  then show ?case using remove_subscriber_spec [of s held imsi] by auto
next
  case (ref held p s s')
  then obtain u where "ues s p = Some u" using ref_inv_held by fastforce
  then show ?case using ref ref_inv_get [of s held p u] by (simp add: fun_upd_def)
next
  case (unref held p s s')
  then show ?case using ref_inv_put [of s held p] by (auto simp: fun_upd_def)
qed (auto dest: ref_inv_setters)

interpretation db: inv_system "db_init h" "db_step n" "\<lambda>x. ref_inv (fst x) (snd x)"
  by unfold_locales (auto intro: db_init_inv db_step_inv)

text \<open>A subscriber with IMSI 001010123456789 attaching to the APN \<open>ims\<close>.\<close>

definition sample_imsi :: cstring where
  "sample_imsi = [48,48,49,48,49,48,49,50,51,52,53,54,55,56,57]"

definition sample_sa :: ike_sa where
  "sample_sa = \<lparr>unique_id = 1, other_id = Some (permanent_nai sample_imsi [101,112,99]),
     my_id = Some [105,109,115]\<rparr>"

lemma sample_imsi_valid: "\<not> epdg_validate_imsi (Some sample_imsi)"
  by (simp add: epdg_validate_imsi_def sample_imsi_def isdigit_def)

lemma sample_sa_imsi: "epdg_get_imsi_ike sample_sa 15 = Inr sample_imsi"
  using epdg_get_imsi_permanent [OF sample_imsi_valid, of 15]
  by (simp add: epdg_get_imsi_ike_def sample_sa_def)

lemma sample_sa_valid: "valid_subscriber 100 sample_sa"
  using sample_sa_imsi sample_imsi_valid
  by (simp add: valid_subscriber_def epdg_get_apn_def epdg_validate_apn_def cstr_def sample_sa_def)

lemma sample_created:
  "\<exists>s p. reachable (db_init (\<lambda>_. 0)) (db_step 100) (s, (\<lambda>_. 0)(p := 1))"
proof -
  let ?s = "osmo_epdg_db_create (\<lambda>_. 0)"
  have 0: "reachable (db_init (\<lambda>_. 0)) (db_step 100) (?s, \<lambda>_. 0)"
    by (rule reach_init) (simp add: db_init_def)
  have room: "ht_count (subscribers ?s) \<le> ht_limit"
    by (simp add: osmo_epdg_db_create_def hashtable_create_inv)
  have "ref_inv ?s (\<lambda>_. 0)" using db.reachable_invar [OF 0] by simp
  then obtain p s' where c: "create_subscriber 100 sample_sa ?s = Inr (Some p, s')"
    using create_subscriber_spec [OF _ room, of "\<lambda>_. 0" 100 sample_sa] sample_sa_valid by auto
  show ?thesis using reach_step [OF 0 db_step.create [OF room c]] by auto
qed

section \<open>Properties\<close>

text \<open>
  C8. Reference counting is exact under every interleaving of database and UE operations: in
  every reachable state a UE object exists exactly while some thread or the subscriber
  table refers to it (no use after free, no leaked object), its count is the number of
  these references, and the table files it under its own IMSI only.
\<close>

theorem db_refcount_exact:
  assumes "reachable (db_init h) (db_step n) (s, held)"
  shows "(ues s p \<noteq> None \<longleftrightarrow> 0 < held p \<or> (\<exists>k. db_map s k = Some p))
    \<and> (\<forall>u. ues s p = Some u \<longrightarrow> ue_refcount u = held p + card {k. db_map s k = Some p}
         \<and> {k. db_map s k = Some p} \<subseteq> {ue_imsi u})"
proof -
  have inv: "ref_inv s held" using db.reachable_invar [OF assms] by simp
  show ?thesis
    using ref_invD [OF inv, of p]
    by (auto simp: obj_ok_def keys_of_def split: option.splits)
qed

theorem db_refcount_exact_witness:
  "\<exists>s p. reachable (db_init (\<lambda>_. 0)) (db_step 100) (s, (\<lambda>_. 0)(p := 1)) \<and> ues s p \<noteq> None"
proof -
  obtain s p where r: "reachable (db_init (\<lambda>_. 0)) (db_step 100) (s, (\<lambda>_. 0)(p := 1))"
    using sample_created by blast
  show ?thesis using db_refcount_exact [OF r, of p] r by auto
qed

text \<open>
  C26. The database is a map from IMSIs to UEs, in every reachable state: no operation of
  \<open>osmo_epdg_db.c\<close> runs into freed memory, blocks or loops.  \<open>create_subscriber\<close> makes its UE the
  one filed under the IMSI of the IKE_SA's peer (replacing an older one); when it fails the
  table loses the entry of that IMSI if IMSI and APN could be read, and nothing otherwise.
  \<open>get_subscriber\<close> and \<open>get_subscriber_ike\<close> find what is filed and change only the reference count
  of what they find; \<open>get_subscriber_id\<close> finds nothing; \<open>remove_subscriber\<close> takes the entry out.
\<close>

theorem db_operations_succeed:
  assumes "reachable (db_init h) (db_step n) (s, held)" and "ht_count (subscribers s) \<le> ht_limit"
  shows "(\<exists>r s'. create_subscriber n sa s = Inr (r, s') \<and> (r \<noteq> None \<longleftrightarrow> valid_subscriber n sa)
      \<and> (case r of None \<Rightarrow> db_map s' = without (displaced n sa) (db_map s)
         | Some p \<Rightarrow> (\<exists>u. ues s' p = Some u \<and> epdg_get_imsi_ike sa 15 = Inr (ue_imsi u)
           \<and> db_map s' = (db_map s)(ue_imsi u \<mapsto> p) \<and> ue_state u = UE_WAIT_LOCATION_UPDATE)))
    \<and> get_subscriber imsi s = Inr (db_map s imsi, referenced (db_map s imsi) s)
    \<and> get_subscriber_ike sa s = (case epdg_get_imsi_ike sa 16 of
         Inl _ \<Rightarrow> Inr (None, s) | Inr k \<Rightarrow> Inr (db_map s k, referenced (db_map s k) s))
    \<and> get_subscriber_id i s = Inr (None, s)
    \<and> (\<exists>s'. remove_subscriber imsi s = Inr s' \<and> db_map s' = (db_map s)(imsi := None))"
proof -
  have inv: "ref_inv s held" using db.reachable_invar [OF assms(1)] by simp
  obtain r s' where c: "create_subscriber n sa s = Inr (r, s')" "r \<noteq> None \<longleftrightarrow> valid_subscriber n sa"
      "r = None \<longrightarrow> db_map s' = without (displaced n sa) (db_map s)"
      "\<forall>p. r = Some p \<longrightarrow> (\<exists>u. ues s' p = Some u \<and> ue_readers u = 0 \<and> db_map s' = (db_map s)(ue_imsi u \<mapsto> p)
         \<and> ue_state u = UE_WAIT_LOCATION_UPDATE \<and> epdg_get_imsi_ike sa 15 = Inr (ue_imsi u))"
    using create_subscriber_spec [OF inv assms(2), of n sa] by blast
  have "case r of None \<Rightarrow> db_map s' = without (displaced n sa) (db_map s)
     | Some p \<Rightarrow> (\<exists>u. ues s' p = Some u \<and> epdg_get_imsi_ike sa 15 = Inr (ue_imsi u)
         \<and> db_map s' = (db_map s)(ue_imsi u \<mapsto> p) \<and> ue_state u = UE_WAIT_LOCATION_UPDATE)"
    using c(3,4) by (cases r) auto
  moreover have "get_subscriber_ike sa s = (case epdg_get_imsi_ike sa 16 of
         Inl _ \<Rightarrow> Inr (None, s) | Inr k \<Rightarrow> Inr (db_map s k, referenced (db_map s k) s))"
    by (simp add: get_subscriber_ike_def get_subscriber_exact [OF inv] split: sum.split)
  ultimately show ?thesis
    using c(1,2) get_subscriber_exact [OF inv, of imsi] get_subscriber_id_None [of i s] remove_subscriber_spec [OF inv, of imsi] by blast
qed

theorem db_operations_succeed_witness:
  "(\<exists>p s'. create_subscriber 100 sample_sa (osmo_epdg_db_create (\<lambda>_. 0)) = Inr (Some p, s') \<and> db_map s' sample_imsi = Some p)
   \<and> get_subscriber sample_imsi (osmo_epdg_db_create (\<lambda>_. 0)) = Inr (None, osmo_epdg_db_create (\<lambda>_. 0))"
proof -
  let ?s = "osmo_epdg_db_create (\<lambda>_. 0)"
  have r: "reachable (db_init (\<lambda>_. 0)) (db_step 100) (?s, \<lambda>_. 0)" by (rule reach_init) (simp add: db_init_def)
  have room: "ht_count (subscribers ?s) \<le> ht_limit" and e: "db_map ?s sample_imsi = None"
    by (simp_all add: osmo_epdg_db_create_def hashtable_create_inv hashtable_create_abs)
  note w = db_operations_succeed [OF r room, of sample_sa sample_imsi 0]
  have "\<exists>p s'. create_subscriber 100 sample_sa ?s = Inr (Some p, s') \<and> db_map s' sample_imsi = Some p"
  proof -
    obtain r s' where c: "create_subscriber 100 sample_sa ?s = Inr (r, s')" "r \<noteq> None"
        "case r of None \<Rightarrow> db_map s' = without (displaced 100 sample_sa) (db_map ?s)
         | Some p \<Rightarrow> (\<exists>u. ues s' p = Some u \<and> epdg_get_imsi_ike sample_sa 15 = Inr (ue_imsi u)
           \<and> db_map s' = (db_map ?s)(ue_imsi u \<mapsto> p) \<and> ue_state u = UE_WAIT_LOCATION_UPDATE)"
      using w [THEN conjunct1] sample_sa_valid by blast
    then show ?thesis using sample_sa_imsi by auto
  qed
  moreover have "get_subscriber sample_imsi ?s = Inr (None, ?s)" using w [THEN conjunct2, THEN conjunct1] e by (simp add: referenced_def)
  ultimately show ?thesis by blast
qed

text \<open>
  \<open>get_subscriber_id\<close> never finds anything: it answers NULL for every database and every
  id, although the header promises a lookup by the unique id of the IKE_SA.
\<close>

theorem get_subscriber_id_never_finds: "get_subscriber_id i s = Inr (None, s)"
  by (rule get_subscriber_id_None)

end
