(* ===== verification/Osmo_Gsup.thy ===== *)
theory Osmo_Gsup
  imports Epdg_Utils Host
begin

text \<open>
  The interface of libosmocore that the plugin is compiled against.  libosmocore is not part
  of the repository: the values of its enumerations are the parameter record
  \<open>gsup_consts\<close>, and the structures are records with the fields the plugin reads or writes.
  \<open>gsup_client\<close> is the interface of \<open>gsup_client.h\<close>: each call answers the response the peer
  sent, or NULL.
\<close>

type_synonym msg_type = "32 word"

record gsup_consts =
  UPDATE_LOCATION_REQUEST :: msg_type
  UPDATE_LOCATION_ERROR :: msg_type
  UPDATE_LOCATION_RESULT :: msg_type
  SEND_AUTH_INFO_REQUEST :: msg_type
  SEND_AUTH_INFO_ERROR :: msg_type
  SEND_AUTH_INFO_RESULT :: msg_type
  INSERT_DATA_REQUEST :: msg_type
  INSERT_DATA_RESULT :: msg_type
  EPDG_TUNNEL_REQUEST :: msg_type
  EPDG_TUNNEL_ERROR :: msg_type
  EPDG_TUNNEL_RESULT :: msg_type
  CLASS_IPSEC_EPDG :: nat
  RAT_EUTRAN_SGS :: nat
  CN_DOMAIN_PS :: byte
  CN_DOMAIN_CS :: byte
  PDP_TYPE_ORG_IETF :: byte
  PDP_TYPE_N_IETF_IPv4 :: byte
  APN_MAXLEN :: nat

record pdp_info =
  context_id :: nat
  have_info :: bool
  pdp_type_nr :: byte
  pdp_type_org :: byte
  apn_enc :: "chunk option"
  pdp_address0 :: sockaddr

record auth_vector =
  av_rand :: chunk
  av_ck :: chunk
  av_ik :: chunk
  av_autn :: chunk
  av_res :: chunk
  av_res_len :: nat

text \<open>\<open>pdp_infos[0]\<close> and \<open>auth_vectors[0]\<close> are the only elements of these arrays the plugin uses.\<close>

record gsup_msg =
  message_type :: msg_type
  message_class :: nat
  gsup_imsi :: cstring
  cn_domain :: byte
  current_rat_type :: nat
  cause :: nat
  num_auth_vectors :: nat
  auth_vector0 :: auth_vector
  num_pdp_infos :: nat
  pdp_info0 :: pdp_info
  gsup_pco :: "chunk option"
  gsup_auts :: "chunk option"
  gsup_rand :: "chunk option"

definition empty_pdp_info :: pdp_info where
  "empty_pdp_info = \<lparr>context_id = 0, have_info = False, pdp_type_nr = 0, pdp_type_org = 0,
     apn_enc = None, pdp_address0 = Sockaddr_other AF_UNSPEC\<rparr>"

definition empty_auth_vector :: auth_vector where
  "empty_auth_vector = \<lparr>av_rand = replicate 16 0, av_ck = replicate 16 0, av_ik = replicate 16 0,
     av_autn = replicate 16 0, av_res = replicate 16 0, av_res_len = 0\<rparr>"

text \<open>A structure initialised with \<open>{0}\<close>.\<close>

definition empty_gsup :: gsup_msg where
  "empty_gsup = \<lparr>message_type = 0, message_class = 0, gsup_imsi = [], cn_domain = 0,
     current_rat_type = 0, cause = 0, num_auth_vectors = 0, auth_vector0 = empty_auth_vector,
     num_pdp_infos = 0, pdp_info0 = empty_pdp_info, gsup_pco = None, gsup_auts = None,
     gsup_rand = None\<rparr>"

record gsup_client =
  gc_send_auth_request :: "cstring \<Rightarrow> byte \<Rightarrow> chunk option \<Rightarrow> chunk option \<Rightarrow> cstring option \<Rightarrow> byte
    \<Rightarrow> gsup_msg option"
  gc_update_location :: "cstring \<Rightarrow> byte \<Rightarrow> gsup_msg option"
  gc_tunnel_request :: "cstring \<Rightarrow> gsup_msg option"

text \<open>Concrete values for examples.\<close>

definition sample_consts :: gsup_consts where
  "sample_consts = \<lparr>UPDATE_LOCATION_REQUEST = 4, UPDATE_LOCATION_ERROR = 5, UPDATE_LOCATION_RESULT = 6,
     SEND_AUTH_INFO_REQUEST = 8, SEND_AUTH_INFO_ERROR = 9, SEND_AUTH_INFO_RESULT = 10,
     INSERT_DATA_REQUEST = 16, INSERT_DATA_RESULT = 18, EPDG_TUNNEL_REQUEST = 80,
     EPDG_TUNNEL_ERROR = 81, EPDG_TUNNEL_RESULT = 82, CLASS_IPSEC_EPDG = 5, RAT_EUTRAN_SGS = 3,
     CN_DOMAIN_PS = 1, CN_DOMAIN_CS = 2, PDP_TYPE_ORG_IETF = 1, PDP_TYPE_N_IETF_IPv4 = 0x21,
     APN_MAXLEN = 100\<rparr>"

end
