(* ===== verification/Epdg_Listener.thy ===== *)
theory Epdg_Listener
  imports Epdg_Db Osmo_Gsup
begin

text \<open>
  The bus listener of \<open>osmo_epdg_listener.c\<close>.  \<open>eap_authorize\<close> files the subscriber and asks
  for a location update; \<open>authorize\<close> requests the tunnel, stores the address and turns the
  protocol configuration options (PCO) of the response into attributes of the UE.  Both
  always return TRUE (the listener stays registered); the model answers the value of
  \<open>*success\<close> and the new state.
\<close>

section \<open>Protocol configuration options\<close>

definition APCO_PID_DNS_SERVER_IPV4 :: "16 word" where "APCO_PID_DNS_SERVER_IPV4 = 0x000D"
definition APCO_PID_P_CSCF_IPV4 :: "16 word" where "APCO_PID_P_CSCF_IPV4 = 0x000C"

text \<open>The four octets are printed, read back as a host, and its address bytes are stored.\<close>

definition insert_ipv4 :: "(cstring \<Rightarrow> chunk option) \<Rightarrow> attr_type \<Rightarrow> chunk \<Rightarrow> nat \<Rightarrow> nat \<Rightarrow> epdg \<Rightarrow> epdg res"
where
  "insert_ipv4 pton6 ty pco offset p s =
     andThen (host_create_from_string_and_family pton6
             (Some (dotted (pco ! offset) (pco ! (offset + 1)) (pco ! (offset + 2)) (pco ! (offset + 3))))
             AF_INET 0) (\<lambda>r.
     case r of
        None \<Rightarrow> Inl NullDeref
      | Some h \<Rightarrow> insert_attribute p \<lparr>attr_type = ty, attr_value = get_address h, attr_valid = True\<rparr> s)"

definition pco_container ::
  "(cstring \<Rightarrow> chunk option) \<Rightarrow> 16 word \<Rightarrow> nat \<Rightarrow> chunk \<Rightarrow> nat \<Rightarrow> nat \<Rightarrow> epdg \<Rightarrow> epdg res" where
  "pco_container pton6 container_id len pco offset p s =
     (if container_id = APCO_PID_DNS_SERVER_IPV4 then
        (if len = 4 then insert_ipv4 pton6 INTERNAL_IP4_DNS pco offset p s else Inr s)
      else if container_id = APCO_PID_P_CSCF_IPV4 then
        (if len = 4 then insert_ipv4 pton6 P_CSCF_IP4_ADDRESS pco offset p s else Inr s)
      else Inr s)"

definition pco_id :: "chunk \<Rightarrow> nat \<Rightarrow> 16 word" where
  "pco_id pco offset = (push_bit 8 (ucast (pco ! offset)) OR ucast (pco ! (offset + 1)))"

function pco_loop :: "(cstring \<Rightarrow> chunk option) \<Rightarrow> chunk \<Rightarrow> nat \<Rightarrow> nat \<Rightarrow> epdg \<Rightarrow> epdg res" where
  "pco_loop pton6 pco offset p s =
     (if offset + 3 < length pco then
        let container_id = pco_id pco offset in
        if offset + 2 \<ge> length pco then Inr s
        else
          let len = unat (pco ! (offset + 2)) in
          if offset + 3 + len > length pco then Inr s
          else andThen (pco_container pton6 container_id len pco (offset + 3) p s)
                 (\<lambda>s'. pco_loop pton6 pco (offset + 3 + len) p s')
      else Inr s)"
  by pat_completeness auto
termination
  by (relation "measure (\<lambda>(pton6, pco, offset, p, s). length pco - offset)") auto

declare pco_loop.simps [simp del]

section \<open>Hooks\<close>

text \<open>The common error exit: the UE, if there is one, fails and its reference is given back.\<close>

definition fail_ue :: "nat option \<Rightarrow> epdg \<Rightarrow> (bool \<times> epdg) res" where
  "fail_ue r s =
     (case r of
        None \<Rightarrow> Inr (False, s)
      | Some p \<Rightarrow> andThen (set_state p UE_FAIL s) (\<lambda>s1. andThen (ue_put p s1) (\<lambda>s2. Inr (False, s2))))"

definition eap_authorize ::
  "gsup_consts \<Rightarrow> gsup_client \<Rightarrow> ike_sa \<Rightarrow> chunk option \<Rightarrow> bool \<Rightarrow> epdg \<Rightarrow> (bool \<times> epdg) res" where
  "eap_authorize K gsup sa eap_id success s =
     (case eap_id of
        None \<Rightarrow> fail_ue None s
      | Some nai \<Rightarrow>
     (case epdg_get_imsi nai 15 of
        Inl _ \<Rightarrow> fail_ue None s
      | Inr imsi \<Rightarrow>
     andThen (create_subscriber (APN_MAXLEN K) sa s) (\<lambda>(r, s1).
     (case r of
        None \<Rightarrow> fail_ue None s1
      | Some p \<Rightarrow>
     (case gc_update_location gsup imsi (CN_DOMAIN_PS K) of
        None \<Rightarrow> andThen (remove_subscriber imsi s1) (\<lambda>s2. fail_ue (Some p) s2)
      | Some resp \<Rightarrow>
          if message_type resp \<noteq> UPDATE_LOCATION_RESULT K then fail_ue (Some p) s1
          else andThen (set_state p UE_LOCATION_UPDATED s1) (\<lambda>s2.
               andThen (ue_put p s2) (\<lambda>s3. Inr (success, s3))))))))"

text \<open>The checks on the tunnel response, up to the address it carries.\<close>

definition tunnel_address :: "gsup_consts \<Rightarrow> gsup_msg \<Rightarrow> host option" where
  "tunnel_address K resp =
     (if message_type resp = EPDG_TUNNEL_ERROR K then None
      else if message_type resp \<noteq> EPDG_TUNNEL_RESULT K then None
      else if num_pdp_infos resp \<noteq> 1 \<or> \<not> have_info (pdp_info0 resp)
           \<or> pdp_type_org (pdp_info0 resp) \<noteq> PDP_TYPE_ORG_IETF K
           \<or> pdp_type_nr (pdp_info0 resp) \<noteq> PDP_TYPE_N_IETF_IPv4 K then None
      else if sa_family (pdp_address0 (pdp_info0 resp)) \<noteq> AF_INET then None
      else host_create_from_sockaddr (pdp_address0 (pdp_info0 resp)))"

definition apply_pco :: "(cstring \<Rightarrow> chunk option) \<Rightarrow> gsup_msg \<Rightarrow> nat \<Rightarrow> epdg \<Rightarrow> epdg res" where
  "apply_pco pton6 resp p s =
     (case gsup_pco resp of
        None \<Rightarrow> Inr s
      | Some pco \<Rightarrow> if length pco > 0 then pco_loop pton6 pco 1 p s else Inr s)"

definition authorize ::
  "gsup_consts \<Rightarrow> (cstring \<Rightarrow> chunk option) \<Rightarrow> gsup_client \<Rightarrow> ike_sa \<Rightarrow> bool \<Rightarrow> bool \<Rightarrow> epdg
    \<Rightarrow> (bool \<times> epdg) res" where
  "authorize K pton6 gsup sa final success s =
     (if \<not> final then Inr (success, s) else
     (case other_id sa of
        None \<Rightarrow> fail_ue None s
      | Some nai \<Rightarrow>
     (case epdg_get_imsi nai 15 of
        Inl _ \<Rightarrow> fail_ue None s
      | Inr imsi \<Rightarrow>
     andThen (get_subscriber imsi s) (\<lambda>(r, s1).
     (case r of
        None \<Rightarrow> fail_ue None s1
      | Some p \<Rightarrow>
     andThen (set_state p UE_WAIT_TUNNEL s1) (\<lambda>s2.
     (case gc_tunnel_request gsup imsi of
        None \<Rightarrow> fail_ue (Some p) s2
      | Some resp \<Rightarrow>
     (case tunnel_address K resp of
        None \<Rightarrow> fail_ue (Some p) s2
      | Some address \<Rightarrow>
     andThen (set_address p address s2) (\<lambda>s3.
     andThen (apply_pco pton6 resp p s3) (\<lambda>s4.
     andThen (set_state p UE_TUNNEL_READY s4) (\<lambda>s5.
     andThen (ue_put p s5) (\<lambda>s6. Inr (success, s6)))))))))))))"

text \<open>\<open>ike_updown\<close> only logs: the UE stays filed when its IKE_SA goes down.\<close>

definition ike_updown :: "ike_sa \<Rightarrow> bool \<Rightarrow> epdg \<Rightarrow> bool \<times> epdg" where
  "ike_updown sa up s = (case epdg_get_imsi_ike sa 16 of Inl _ \<Rightarrow> (True, s) | Inr _ \<Rightarrow> (True, s))"


section \<open>What the options say\<close>

function pco_attrs :: "chunk \<Rightarrow> nat \<Rightarrow> epdg_attribute list" where
  "pco_attrs pco offset =
     (if offset + 3 < length pco then
        let len = unat (pco ! (offset + 2)) in
        if offset + 3 + len > length pco then []
        else
          (if len = 4 \<and> be_word (take 2 (drop offset pco)) = APCO_PID_DNS_SERVER_IPV4 then
             [\<lparr>attr_type = INTERNAL_IP4_DNS, attr_value = take 4 (drop (offset + 3) pco), attr_valid = True\<rparr>]
           else if len = 4 \<and> be_word (take 2 (drop offset pco)) = APCO_PID_P_CSCF_IPV4 then
             [\<lparr>attr_type = P_CSCF_IP4_ADDRESS, attr_value = take 4 (drop (offset + 3) pco), attr_valid = True\<rparr>]
           else []) @ pco_attrs pco (offset + 3 + len)
      else [])"
  by pat_completeness auto
termination
  by (relation "measure (\<lambda>(pco, offset). length pco - offset)") auto

declare pco_attrs.simps [simp del]

lemma take4_drop:
  "n + 4 \<le> length xs \<Longrightarrow> take 4 (drop n xs) = [xs ! n, xs ! (n + 1), xs ! (n + 2), xs ! (n + 3)]"
  by (rule nth_equalityI) (auto simp: less_Suc_eq numeral_eq_Suc)

lemma insert_ipv4_eq:
  "offset + 4 \<le> length pco \<Longrightarrow> insert_ipv4 pton6 ty pco offset p s =
     insert_attribute p \<lparr>attr_type = ty, attr_value = take 4 (drop offset pco), attr_valid = True\<rparr> s"
  by (simp add: insert_ipv4_def host_from_dotted take4_drop)

lemma be_word_2: "be_word [a, b] = (push_bit 8 (ucast a) OR ucast b)"
  by (simp add: be_word_def)

lemma pco_id_word:
  assumes "offset + 2 \<le> length pco"
  shows "pco_id pco offset = be_word (take 2 (drop offset pco))"
proof -
  have "take 2 (drop offset pco) = [pco ! offset, pco ! (offset + 1)]"
    using assms by (intro nth_equalityI) (auto simp: less_Suc_eq numeral_eq_Suc)
  then show ?thesis by (simp add: pco_id_def be_word_2)
qed

lemma pco_loop_attrs:
  assumes "ues s p = Some u" and "ue_readers u = 0"
  shows "pco_loop pton6 pco offset p s
    = Inr (assign p (u\<lparr>ue_attributes := ue_attributes u @ pco_attrs pco offset\<rparr>) s)"
  using assms
proof (induction pco offset arbitrary: s u rule: pco_attrs.induct)
  case (1 pco offset)
  let ?len = "unat (pco ! (offset + 2))"
  show ?case
  proof (cases "offset + 3 < length pco \<and> offset + 3 + ?len \<le> length pco")
    case False
    then have "pco_loop pton6 pco offset p s = Inr s" "pco_attrs pco offset = []"
      by (auto simp: pco_loop.simps [of pton6 pco offset] pco_attrs.simps [of pco offset] Let_def)
    then show ?thesis using 1(2) by (simp add: assign_def fun_upd_idem)
  next
    case True
    have "offset + 2 \<le> length pco" using True by linarith
    note i = pco_id_word [OF this]
    define new where "new = (if ?len = 4 \<and> pco_id pco offset = APCO_PID_DNS_SERVER_IPV4 then
        [\<lparr>attr_type = INTERNAL_IP4_DNS, attr_value = take 4 (drop (offset + 3) pco), attr_valid = True\<rparr>]
      else if ?len = 4 \<and> pco_id pco offset = APCO_PID_P_CSCF_IPV4 then
        [\<lparr>attr_type = P_CSCF_IP4_ADDRESS, attr_value = take 4 (drop (offset + 3) pco), attr_valid = True\<rparr>]
      else [])"
    let ?u = "u\<lparr>ue_attributes := ue_attributes u @ new\<rparr>"
    have "pco_container pton6 (pco_id pco offset) ?len pco (offset + 3) p s = Inr (assign p ?u s)"
      using True 1(2,3) insert_ipv4_eq [of "offset + 3" pco pton6]
      by (auto simp: pco_container_def new_def insert_attribute_def with_write_def assign_def
          fun_upd_idem APCO_PID_DNS_SERVER_IPV4_def APCO_PID_P_CSCF_IPV4_def)
    moreover have "pco_loop pton6 pco (offset + 3 + ?len) p (assign p ?u s)
      = Inr (assign p (?u\<lparr>ue_attributes := ue_attributes ?u @ pco_attrs pco (offset + 3 + ?len)\<rparr>)
          (assign p ?u s))"
      by (rule 1(1)) (use True 1(3) in auto)
    ultimately show ?thesis
      using True by (simp add: pco_loop.simps [of pton6 pco offset] pco_attrs.simps [of pco offset]
          Let_def new_def assign_def i)
  qed
qed

text \<open>The wire form of a list of containers, and the attributes each of them stands for.\<close>

type_synonym container = "16 word \<times> chunk"

fun enc_container :: "container \<Rightarrow> chunk" where
  "enc_container (i, d) = be_bytes 2 i @ of_nat (length d) # d"

definition enc_pco :: "byte \<Rightarrow> container list \<Rightarrow> chunk" where
  "enc_pco h cs = h # concat (map enc_container cs)"

fun container_attrs :: "container \<Rightarrow> epdg_attribute list" where
  "container_attrs (i, d) =
     (if length d \<noteq> 4 then []
      else if i = APCO_PID_DNS_SERVER_IPV4 then
        [\<lparr>attr_type = INTERNAL_IP4_DNS, attr_value = d, attr_valid = True\<rparr>]
      else if i = APCO_PID_P_CSCF_IPV4 then
        [\<lparr>attr_type = P_CSCF_IP4_ADDRESS, attr_value = d, attr_valid = True\<rparr>]
      else [])"

lemma be_bytes_2: "be_bytes 2 (i :: 16 word) = [ucast (drop_bit 8 i), ucast i]"
  by (simp add: numeral_2_eq_2)

lemma pco_attrs_enc:
  assumes "\<forall>c \<in> set cs. length (snd c) \<le> 255"
  shows "pco_attrs (pre @ concat (map enc_container cs)) (length pre) = concat (map container_attrs cs)"
  using assms
proof (induction cs arbitrary: pre)
  case Nil
  then show ?case by (simp add: pco_attrs.simps [of _ "length pre"])
next
  case (Cons c cs)
  obtain i d where c: "c = (i, d)" by fastforce
  let ?rest = "concat (map enc_container cs)"
  let ?pco = "pre @ concat (map enc_container (c # cs))"
  have len: "unat (of_nat (length d) :: byte) = length d"
    using Cons.prems c by (simp add: unat_of_nat take_bit_nat_eq_self)
  have pco: "?pco = pre @ be_bytes 2 i @ (of_nat (length d) # d @ ?rest)" by (simp add: c)
  have nth: "?pco ! (length pre + 2) = of_nat (length d)"
    by (simp add: c nth_append be_bytes_2)
  have id: "be_word (take 2 (drop (length pre) ?pco)) = i" unfolding pco by (simp add: be_word_be_bytes_full)
  have l: "length ?pco = length pre + 3 + length d + length ?rest" by (simp add: c)
  have tk: "take (length d) (drop (length pre + 3) ?pco) = d" by (simp add: c)
  have IH: "pco_attrs ?pco (length pre + 3 + length d) = concat (map container_attrs cs)"
    using Cons.IH [of "pre @ enc_container c"] Cons.prems by (simp add: c eval_nat_numeral)
  show ?case
  proof (cases "length d + length ?rest = 0")
    case True
    then have "cs = []" using list.size(3) by (cases cs) auto
    then show ?thesis using True l c by (simp add: pco_attrs.simps [of _ "length pre"])
  next
    case False
    then show ?thesis
      using len nth id l tk IH
      by (subst pco_attrs.simps) (auto simp: Let_def c)
  qed
qed

lemma pco_attrs_roundtrip:
  "\<forall>c \<in> set cs. length (snd c) \<le> 255 \<Longrightarrow> pco_attrs (enc_pco h cs) 1 = concat (map container_attrs cs)"
  using pco_attrs_enc [of cs "[h]"] by (simp add: enc_pco_def)

section \<open>Outcome of the hooks\<close>

lemma ue_refcount_same: "\<exists>n. (u :: ue) = u\<lparr>ue_refcount := n\<rparr>"
  by (rule exI [of _ "ue_refcount u"]) simp

lemma get_subscriber_ues:
  "get_subscriber imsi s = Inr (Some p, s') \<Longrightarrow> ues s p = Some u \<Longrightarrow>
     ues s' p = Some (u\<lparr>ue_refcount := ue_refcount u + 1\<rparr>)"
  by (auto simp: get_subscriber_def lift_ht_def ue_get_def andThen_Inr_iff split: option.splits)

lemma ue_put_frame:
  "ue_put p s = Inr s' \<Longrightarrow> ues s' q = Some u' \<Longrightarrow> \<exists>u n. ues s q = Some u \<and> u' = u\<lparr>ue_refcount := n\<rparr>"
  by (cases "q = p")
    (auto simp: ue_put_def deref_def ue_refcount_same split: option.splits if_splits)

lemma remove_subscriber_frame:
  assumes "remove_subscriber k s = Inr s'" and "ues s' q = Some u'"
  shows "\<exists>u n. ues s q = Some u \<and> u' = u\<lparr>ue_refcount := n\<rparr>"
proof -
  obtain old t where r: "put_opt old (s\<lparr>subscribers := t\<rparr>) = Inr s'"
    using assms(1) by (auto simp: remove_subscriber_def andThen_Inr_iff)
  show ?thesis
  proof (cases old)
    case None
    then show ?thesis using r assms(2) by (auto simp: put_opt_def ue_refcount_same)
  next
    case (Some p)
    then show ?thesis using r assms(2) ue_put_frame [of p "s\<lparr>subscribers := t\<rparr>" s' q u']
      by (auto simp: put_opt_def)
  qed
qed

text \<open>The last two calls of every path with a UE: set the state and give the reference back.\<close>

lemma finish_ue:
  assumes inv: "ref_inv s (held(p := held p + 1))" and u: "ues s p = Some u" "ue_readers u = 0"
  shows "\<exists>s'. andThen (set_state p st s) (\<lambda>s1. andThen (ue_put p s1) (\<lambda>s2. Inr (b, s2))) = Inr (b, s')
    \<and> ref_inv s' held \<and> subscribers s' = subscribers s \<and> (\<forall>q. q \<noteq> p \<longrightarrow> ues s' q = ues s q)
    \<and> (\<forall>k. db_map s k = Some p \<longrightarrow> ues s' p = Some (u\<lparr>ue_state := st, ue_refcount := ue_refcount u - 1\<rparr>))"
proof -
  let ?s = "assign p (u\<lparr>ue_state := st\<rparr>) s"
  have set: "set_state p st s = Inr ?s" using u by (simp add: set_state_def with_write_def)
  have i: "ref_inv ?s (held(p := held p + 1))" by (rule ref_inv_assign [OF inv u(1)]) simp_all
  obtain s' where s': "ue_put p ?s = Inr s'" "subscribers s' = subscribers s"
    "ref_inv s' ((held(p := held p + 1))(p := (held(p := held p + 1)) p - 1))"
    using ref_inv_put [OF i, of p] by auto
  have "ues s' p = Some (u\<lparr>ue_state := st, ue_refcount := ue_refcount u - 1\<rparr>)" if "db_map s k = Some p" for k
  proof -
    have "finite (keys_of s p)" "k \<in> keys_of s p"
      using ref_inv_Some [OF inv u(1)] finite_subset that by (blast, simp add: keys_of_def)
    then have "0 < card (keys_of s p)" by (auto simp: card_gt_0_iff)
    then have "ue_refcount u > 1" using ref_inv_Some [OF inv u(1)] by simp
    then show ?thesis using s'(1) by (auto simp: ue_put_def)
  qed
  moreover have "ues s' q = ues s q" if "q \<noteq> p" for q
    using s'(1) that by (auto simp: ue_put_def ue_destroy_def deref_def split: option.splits if_splits)
  ultimately show ?thesis using set s' by auto
qed

lemmas fail_ue_Some = finish_ue [where st = UE_FAIL and b = False]

definition location_updated :: "gsup_consts \<Rightarrow> gsup_client \<Rightarrow> cstring \<Rightarrow> bool" where
  "location_updated K gsup imsi = (case gc_update_location gsup imsi (CN_DOMAIN_PS K) of
      None \<Rightarrow> False | Some resp \<Rightarrow> message_type resp = UPDATE_LOCATION_RESULT K)"

definition eap_imsi :: "chunk option \<Rightarrow> cstring option" where
  "eap_imsi r = (case r of None \<Rightarrow> None
     | Some nai \<Rightarrow> (case epdg_get_imsi nai 15 of Inl _ \<Rightarrow> None | Inr imsi \<Rightarrow> Some imsi))"

text \<open>
  What a tunnel response offers, by its contents: an IPv4 address (with the port of the socket
  address) in a single context of the IETF type, in a result message.
\<close>

definition tunnel_offer :: "gsup_consts \<Rightarrow> gsup_msg \<Rightarrow> host option" where
  "tunnel_offer K resp =
     (case pdp_address0 (pdp_info0 resp) of
        Sockaddr_in a port \<Rightarrow>
          if message_type resp = EPDG_TUNNEL_RESULT K \<and> message_type resp \<noteq> EPDG_TUNNEL_ERROR K
             \<and> num_pdp_infos resp = 1 \<and> have_info (pdp_info0 resp)
             \<and> pdp_type_org (pdp_info0 resp) = PDP_TYPE_ORG_IETF K \<and> pdp_type_nr (pdp_info0 resp) = PDP_TYPE_N_IETF_IPv4 K
          then Some (Host4 a port) else None
      | Sockaddr_in6 a port \<Rightarrow> None
      | Sockaddr_other f \<Rightarrow> None)"

definition granted :: "gsup_consts \<Rightarrow> gsup_client \<Rightarrow> cstring \<Rightarrow> (host \<times> epdg_attribute list) option" where
  "granted K gsup imsi = (case gc_tunnel_request gsup imsi of None \<Rightarrow> None
     | Some resp \<Rightarrow> map_option (\<lambda>a. (a, case gsup_pco resp of None \<Rightarrow> [] | Some pco \<Rightarrow> pco_attrs pco 1))
         (tunnel_offer K resp))"

lemma tunnel_address_offer: "tunnel_address K resp = tunnel_offer K resp"
  by (cases "pdp_address0 (pdp_info0 resp)") (auto simp: tunnel_address_def tunnel_offer_def)

definition authorized_ue :: "(host \<times> epdg_attribute list) option \<Rightarrow> ue \<Rightarrow> ue" where
  "authorized_ue g u = (case g of
      None \<Rightarrow> u\<lparr>ue_state := UE_FAIL\<rparr>
    | Some (a, xs) \<Rightarrow> u\<lparr>ue_address := Some a, ue_attributes := ue_attributes u @ xs,
        ue_state := UE_TUNNEL_READY\<rparr>)"

lemma apply_pco_attrs:
  assumes "ues s p = Some u" and "ue_readers u = 0"
  shows "apply_pco pton6 resp p s = Inr (assign p (u\<lparr>ue_attributes := ue_attributes u
     @ (case gsup_pco resp of None \<Rightarrow> [] | Some pco \<Rightarrow> pco_attrs pco 1)\<rparr>) s)"
  using assms pco_loop_attrs [OF assms]
  by (auto simp: apply_pco_def assign_def fun_upd_idem pco_attrs.simps [of "[]"] split: option.split)

lemma authorize_filed:
  assumes inv: "ref_inv s held" and imsi: "eap_imsi (other_id sa) = Some imsi"
    and p: "db_map s imsi = Some p" and u: "ues s p = Some u" "ue_readers u = 0"
  shows "\<exists>s'. authorize K pton6 gsup sa True success s = Inr (success \<and> granted K gsup imsi \<noteq> None, s')
    \<and> ref_inv s' held \<and> subscribers s' = subscribers s \<and> (\<forall>q. q \<noteq> p \<longrightarrow> ues s' q = ues s q)
    \<and> ues s' p = Some (authorized_ue (granted K gsup imsi) u)"
proof -
  obtain nai where nai: "other_id sa = Some nai" "epdg_get_imsi nai 15 = Inr imsi"
    using imsi by (auto simp: eap_imsi_def split: option.splits sum.splits)
  obtain s1 where s1: "get_subscriber imsi s = Inr (Some p, s1)" "subscribers s1 = subscribers s"
    "ref_inv s1 (held(p := held p + 1))"
    using get_subscriber_spec [OF inv, of imsi] p by auto
  have u1: "ues s1 p = Some (u\<lparr>ue_refcount := Suc (ue_refcount u)\<rparr>)"
    using get_subscriber_ues [OF s1(1) u(1)] by simp
  have fr: "ues s1 q = ues s q" if "q \<noteq> p" for q
    using s1(1) that p get_subscriber_exact [OF inv, of imsi] by (auto simp: referenced_def)
  let ?u1 = "u\<lparr>ue_refcount := Suc (ue_refcount u)\<rparr>"
  let ?u2 = "?u1\<lparr>ue_state := UE_WAIT_TUNNEL\<rparr>"
  let ?s2 = "assign p ?u2 s1"
  have st: "set_state p UE_WAIT_TUNNEL s1 = Inr ?s2" using u1 u(2) by (simp add: set_state_def with_write_def)
  have i2: "ref_inv ?s2 (held(p := held p + 1))" by (rule ref_inv_assign [OF s1(3) u1]) simp_all
  note pre = authorize_def nai s1(1) st
  note bad = fail_ue_Some [OF i2, of ?u2]
  show ?thesis
  proof (cases "gc_tunnel_request gsup imsi")
    case None
    then show ?thesis using bad u(2) s1(2) p fr by (auto simp: pre granted_def authorized_ue_def fail_ue_def)
  next
    case resp: (Some resp)
    show ?thesis
    proof (cases "tunnel_address K resp")
      case None
      then show ?thesis using bad u(2) s1(2) p resp fr
        by (auto simp: pre tunnel_address_offer [symmetric] granted_def authorized_ue_def fail_ue_def)
    next
      case (Some a)
      let ?xs = "case gsup_pco resp of None \<Rightarrow> [] | Some pco \<Rightarrow> pco_attrs pco 1"
      let ?u3 = "?u2\<lparr>ue_address := Some a\<rparr>"
      let ?u4 = "?u3\<lparr>ue_attributes := ue_attributes ?u3 @ ?xs\<rparr>"
      let ?s3 = "assign p ?u3 ?s2"
      let ?s4 = "assign p ?u4 ?s3"
      have a: "set_address p a ?s2 = Inr ?s3" using u(2) by (simp add: set_address_def with_write_def)
      have i3: "ref_inv ?s3 (held(p := held p + 1))" by (rule ref_inv_assign [OF i2, of p ?u2]) simp_all
      have pco: "apply_pco pton6 resp p ?s3 = Inr ?s4" by (rule apply_pco_attrs) (simp_all add: u(2))
      have i4: "ref_inv ?s4 (held(p := held p + 1))" by (rule ref_inv_assign [OF i3, of p ?u3]) simp_all
      show ?thesis using finish_ue [OF i4, of ?u4 UE_TUNNEL_READY success] u(2) s1(2) p fr
        by (auto simp: pre a pco resp Some tunnel_address_offer [symmetric] granted_def authorized_ue_def)
    qed
  qed
qed

lemma authorize_unfiled:
  assumes inv: "ref_inv s held"
    and none: "\<forall>imsi. eap_imsi (other_id sa) = Some imsi \<longrightarrow> db_map s imsi = None"
  shows "authorize K pton6 gsup sa True success s = Inr (False, s)"
proof (cases "eap_imsi (other_id sa)")
  case None
  then show ?thesis by (auto simp: authorize_def fail_ue_def eap_imsi_def split: option.splits sum.splits)
next
  case (Some imsi)
  then have "ht_get (subscribers s) imsi = Some None"
    using ht.lookup_spec [OF ref_inv_ht [OF inv]] none by auto
  then show ?thesis using Some
    by (auto simp: authorize_def fail_ue_def eap_imsi_def get_subscriber_def lift_ht_def
        split: option.splits sum.splits)
qed

lemma authorize_blocked:
  assumes inv: "ref_inv s held" and imsi: "eap_imsi (other_id sa) = Some imsi"
    and p: "db_map s imsi = Some p" and u: "ues s p = Some u" "0 < ue_readers u"
  shows "authorize K pton6 gsup sa True success s = Inl Blocked"
proof -
  obtain s1 where s1: "get_subscriber imsi s = Inr (Some p, s1)"
    using get_subscriber_spec [OF inv, of imsi] p by auto
  then have "set_state p UE_WAIT_TUNNEL s1 = Inl Blocked"
    using get_subscriber_ues [OF s1 u(1)] u(2) by (simp add: set_state_def with_write_def)
  then show ?thesis using s1 imsi
    by (auto simp: authorize_def eap_imsi_def split: option.splits sum.splits)
qed

lemma eap_authorize_created:
  assumes inv: "ref_inv s held" and room: "ht_count (subscribers s) \<le> ht_limit"
    and imsi: "eap_imsi eap_id = Some imsi" and v: "valid_subscriber (APN_MAXLEN K) sa"
  shows "\<exists>p k s'. eap_authorize K gsup sa eap_id success s
      = Inr (success \<and> location_updated K gsup imsi, s') \<and> ref_inv s' held
    \<and> epdg_get_imsi_ike sa 15 = Inr k
    \<and> (if gc_update_location gsup imsi (CN_DOMAIN_PS K) = None
       then db_map s' = (db_map s)(k \<mapsto> p, imsi := None)
         \<and> (k \<noteq> imsi \<longrightarrow> (\<exists>u. ues s' p = Some u \<and> ue_imsi u = k \<and> ue_state u = UE_FAIL))
       else db_map s' = (db_map s)(k \<mapsto> p) \<and> (\<exists>u. ues s' p = Some u \<and> ue_imsi u = k \<and> ue_readers u = 0
         \<and> ue_state u = (if location_updated K gsup imsi then UE_LOCATION_UPDATED else UE_FAIL)))"
proof -
  obtain nai where nai: "eap_id = Some nai" "epdg_get_imsi nai 15 = Inr imsi"
    using imsi by (auto simp: eap_imsi_def split: option.splits sum.splits)
  obtain p s1 u where c: "create_subscriber (APN_MAXLEN K) sa s = Inr (Some p, s1)"
    "ref_inv s1 (held(p := held p + 1))" "ues s1 p = Some u" "ue_readers u = 0"
    "db_map s1 = (db_map s)(ue_imsi u \<mapsto> p)" "epdg_get_imsi_ike sa 15 = Inr (ue_imsi u)"
    using create_subscriber_spec [OF inv room, of "APN_MAXLEN K" sa] v by auto
  note pre = eap_authorize_def nai c(1) location_updated_def
  show ?thesis
  proof (cases "gc_update_location gsup imsi (CN_DOMAIN_PS K)")
    case None
    obtain s2 where s2: "remove_subscriber imsi s1 = Inr s2" "ref_inv s2 (held(p := held p + 1))"
      "db_map s2 = (db_map s1)(imsi := None)"
      using remove_subscriber_spec [OF c(2)] by blast
    obtain u2 where u2: "ues s2 p = Some u2" using ref_inv_held [OF s2(2), of p] by auto
    then have r: "ue_readers u2 = 0" "ue_imsi u2 = ue_imsi u" using remove_subscriber_frame [OF s2(1) u2] c(3,4) by auto
    have f: "db_map s2 (ue_imsi u) = Some p" if "ue_imsi u \<noteq> imsi" using that s2(3) c(5) by simp
    show ?thesis using fail_ue_Some [OF s2(2) u2 r(1)] None s2 c(5,6) r(2) f
      by (intro exI [of _ p], intro exI [of _ "ue_imsi u"]) (auto simp: pre fail_ue_def)
  next
    case (Some resp)
    show ?thesis
    proof (cases "message_type resp = UPDATE_LOCATION_RESULT K")
      case True
      then show ?thesis using finish_ue [OF c(2-4), of UE_LOCATION_UPDATED success] Some c(4-6)
        by (intro exI [of _ p], intro exI [of _ "ue_imsi u"]) (auto simp: pre)
    next
      case False
      then show ?thesis using fail_ue_Some [OF c(2-4)] Some c(4-6)
        by (intro exI [of _ p], intro exI [of _ "ue_imsi u"]) (auto simp: pre fail_ue_def)
    qed
  qed
qed

lemma eap_authorize_rejected:
  assumes inv: "ref_inv s held" and room: "ht_count (subscribers s) \<le> ht_limit"
    and bad: "eap_imsi eap_id = None \<or> \<not> valid_subscriber (APN_MAXLEN K) sa"
  shows "\<exists>s'. eap_authorize K gsup sa eap_id success s = Inr (False, s') \<and> ref_inv s' held
    \<and> (if eap_imsi eap_id = None then s' = s else db_map s' = without (displaced (APN_MAXLEN K) sa) (db_map s))"
proof (cases "eap_imsi eap_id")
  case None
  then show ?thesis using inv
    by (auto simp: eap_authorize_def fail_ue_def eap_imsi_def split: option.splits sum.splits)
next
  case (Some imsi)
  then obtain s1 where "create_subscriber (APN_MAXLEN K) sa s = Inr (None, s1)" "ref_inv s1 held"
      "db_map s1 = without (displaced (APN_MAXLEN K) sa) (db_map s)"
    using create_subscriber_spec [OF inv room, of "APN_MAXLEN K" sa] bad by auto
  then show ?thesis using Some
    by (auto simp: eap_authorize_def fail_ue_def eap_imsi_def split: option.splits sum.splits)
qed

text \<open>A peer that answers every request positively.\<close>

definition sample_tunnel :: gsup_msg where
  "sample_tunnel = empty_gsup\<lparr>message_type := 82, num_pdp_infos := 1,
     pdp_info0 := empty_pdp_info\<lparr>have_info := True, pdp_type_nr := 0x21, pdp_type_org := 1,
       pdp_address0 := Sockaddr_in [10,45,0,2] 0\<rparr>,
     gsup_pco := Some (enc_pco 0x80 [(0x000D, [8,8,8,8])])\<rparr>"

definition sample_gsup :: gsup_client where
  "sample_gsup = \<lparr>gc_send_auth_request = (\<lambda>_ _ _ _ _ _. None),
     gc_update_location = (\<lambda>_ _. Some (empty_gsup\<lparr>message_type := 6\<rparr>)),
     gc_tunnel_request = (\<lambda>_. Some sample_tunnel)\<rparr>"

lemma sample_eap_imsi: "eap_imsi (other_id sample_sa) = Some sample_imsi"
  using epdg_get_imsi_permanent [OF sample_imsi_valid, of 15] by (simp add: eap_imsi_def sample_sa_def)

lemma sample_location: "location_updated sample_consts sample_gsup sample_imsi"
  by (simp add: location_updated_def sample_consts_def sample_gsup_def)

lemma sample_granted:
  "granted sample_consts sample_gsup sample_imsi
     = Some (Host4 [10,45,0,2] 0,
         [\<lparr>attr_type = INTERNAL_IP4_DNS, attr_value = [8,8,8,8], attr_valid = True\<rparr>])"
  using pco_attrs_roundtrip [of "[(0x000D, [8,8,8,8])]" "0x80"]
  by (simp add: granted_def tunnel_offer_def sample_consts_def sample_gsup_def sample_tunnel_def
      APCO_PID_DNS_SERVER_IPV4_def empty_pdp_info_def)

text \<open>A database with one filed UE and no other reference to it.\<close>

definition sample_ue :: ue where
  "sample_ue = \<lparr>ue_id = 1, ue_imsi = sample_imsi, ue_apn = [105,109,115], ue_address = None,
     ue_attributes = [], ue_refcount = 1, ue_readers = 0, ue_state = UE_LOCATION_UPDATED\<rparr>"

lemma sample_filed:
  "\<exists>s. ref_inv s (\<lambda>_. 0) \<and> db_map s sample_imsi = Some 0 \<and> ues s = [0 \<mapsto> sample_ue]"
proof -
  let ?t = "hashtable_create (\<lambda>_. 0) (\<lambda>a b. a = b) 128 :: (cstring, nat) hashtable"
  have "ht_inv ?t" "ht_count ?t \<le> ht_limit" by (simp_all add: hashtable_create_inv)
  from ht.update_spec [OF this, of sample_imsi 0]
  obtain t2 :: "(cstring, nat) hashtable" where t2: "ht_inv t2" "ht_abs t2 = [sample_imsi \<mapsto> 0]"
    by (auto simp: hashtable_create_abs)
  let ?s = "\<lparr>ues = [0 \<mapsto> sample_ue], next_ue = 1, subscribers = t2\<rparr>"
  have "keys_of ?s q = (if q = 0 then {sample_imsi} else {})" for q
    by (auto simp: keys_of_def t2)
  then have "ref_inv ?s (\<lambda>_. 0)"
    by (auto simp: ref_inv_def obj_ok_def t2 sample_ue_def)
  then show ?thesis using t2 by (intro exI [of _ ?s]) simp
qed

section \<open>Properties\<close>

text \<open>
  C18. The decoder of the protocol configuration options reads back what was encoded: for a
  header octet followed by any list of containers (identifier, one length octet, up to 255
  bytes), the UE gets exactly the DNS and P-CSCF addresses of the list, in order, and
  containers of another kind or length are skipped; the loop always ends and stays inside
  the buffer.
\<close>

theorem pco_decode_encode:
  assumes "ues s p = Some u" and "ue_readers u = 0" and "\<forall>c \<in> set cs. length (snd c) \<le> 255"
  shows "pco_loop pton6 (enc_pco h cs) 1 p s
    = Inr (assign p (u\<lparr>ue_attributes := ue_attributes u @ concat (map container_attrs cs)\<rparr>) s)"
  using pco_loop_attrs [OF assms(1,2), of pton6 "enc_pco h cs" 1] pco_attrs_roundtrip [OF assms(3), of h]
  by simp

theorem pco_decode_encode_witness:
  "\<exists>s s'. pco_loop (\<lambda>_. None) (enc_pco 0x80 [(0x000D, [8,8,8,8]), (0x0010, [5,220]), (0x000C, [10,0,0,1])]) 1 0 s = Inr s'
    \<and> map_option (\<lambda>u. map attr_value (ue_attributes u)) (ues s' 0) = Some [[8,8,8,8], [10,0,0,1]]"
proof -
  let ?s = "assign 0 sample_ue (osmo_epdg_db_create (\<lambda>_. 0))"
  have "pco_loop (\<lambda>_. None) (enc_pco 0x80 [(0x000D, [8,8,8,8]), (0x0010, [5,220]), (0x000C, [10,0,0,1])]) 1 0 ?s
    = Inr (assign 0 (sample_ue\<lparr>ue_attributes := ue_attributes sample_ue @ concat (map container_attrs
        [(0x000D, [8,8,8,8]), (0x0010, [5,220]), (0x000C, [10,0,0,1])])\<rparr>) ?s)"
    by (rule pco_decode_encode) (simp_all add: sample_ue_def)
  then show ?thesis
    by (intro exI conjI) (assumption, simp add: sample_ue_def APCO_PID_DNS_SERVER_IPV4_def
        APCO_PID_P_CSCF_IPV4_def)
qed

text \<open>
  C10. Outcome of \<open>eap_authorize\<close> on every path: it always returns and gives back every reference
  it took; it lets the peer in exactly when both identities are usable and the HLR answers with
  a location update result.  Without a usable EAP identity nothing changes.  When no UE can be
  created for the IKE_SA the table loses at most the entry of its IMSI, in the case that IMSI and
  APN could be read.  Otherwise a new UE is filed under the IMSI of the IKE_SA: in state
  \<open>UE_LOCATION_UPDATED\<close> after success, as \<open>UE_FAIL\<close> after an error answer, and without an answer as
  \<open>UE_FAIL\<close> as well, while the entry of the EAP identity's IMSI is taken out.
\<close>

theorem eap_authorize_outcome:
  assumes "ref_inv s held" and "ht_count (subscribers s) \<le> ht_limit"
  shows "\<exists>b s'. eap_authorize K gsup sa eap_id success s = Inr (b, s') \<and> ref_inv s' held
    \<and> (b \<longleftrightarrow> success \<and> valid_subscriber (APN_MAXLEN K) sa
         \<and> (\<exists>imsi. eap_imsi eap_id = Some imsi \<and> location_updated K gsup imsi))
    \<and> (case eap_imsi eap_id of
         None \<Rightarrow> s' = s
       | Some imsi \<Rightarrow>
           if \<not> valid_subscriber (APN_MAXLEN K) sa then db_map s' = without (displaced (APN_MAXLEN K) sa) (db_map s)
           else \<exists>k p. epdg_get_imsi_ike sa 15 = Inr k
             \<and> (if gc_update_location gsup imsi (CN_DOMAIN_PS K) = None
                then db_map s' = (db_map s)(k \<mapsto> p, imsi := None)
                  \<and> (k \<noteq> imsi \<longrightarrow> (\<exists>u. ues s' p = Some u \<and> ue_imsi u = k \<and> ue_state u = UE_FAIL))
                else db_map s' = (db_map s)(k \<mapsto> p) \<and> (\<exists>u. ues s' p = Some u \<and> ue_imsi u = k
                  \<and> ue_state u = (if location_updated K gsup imsi then UE_LOCATION_UPDATED else UE_FAIL))))"
proof (cases "eap_imsi eap_id = None \<or> \<not> valid_subscriber (APN_MAXLEN K) sa")
  case True
  then show ?thesis using eap_authorize_rejected [OF assms True, of gsup success]
    by (auto split: option.splits if_splits)
next
  case False
  then obtain imsi where i: "eap_imsi eap_id = Some imsi" and v: "valid_subscriber (APN_MAXLEN K) sa"
    by auto
  obtain p k s' where e: "eap_authorize K gsup sa eap_id success s = Inr (success \<and> location_updated K gsup imsi, s')" "ref_inv s' held"
      "epdg_get_imsi_ike sa 15 = Inr k"
      "if gc_update_location gsup imsi (CN_DOMAIN_PS K) = None
       then db_map s' = (db_map s)(k \<mapsto> p, imsi := None)
         \<and> (k \<noteq> imsi \<longrightarrow> (\<exists>u. ues s' p = Some u \<and> ue_imsi u = k \<and> ue_state u = UE_FAIL))
       else db_map s' = (db_map s)(k \<mapsto> p) \<and> (\<exists>u. ues s' p = Some u \<and> ue_imsi u = k \<and> ue_readers u = 0
         \<and> ue_state u = (if location_updated K gsup imsi then UE_LOCATION_UPDATED else UE_FAIL))"
    using eap_authorize_created [OF assms i v, of gsup success] by blast
  have "if gc_update_location gsup imsi (CN_DOMAIN_PS K) = None
       then db_map s' = (db_map s)(k \<mapsto> p, imsi := None)
         \<and> (k \<noteq> imsi \<longrightarrow> (\<exists>u. ues s' p = Some u \<and> ue_imsi u = k \<and> ue_state u = UE_FAIL))
       else db_map s' = (db_map s)(k \<mapsto> p) \<and> (\<exists>u. ues s' p = Some u \<and> ue_imsi u = k
         \<and> ue_state u = (if location_updated K gsup imsi then UE_LOCATION_UPDATED else UE_FAIL))"
    using e(4) by (auto split: if_splits)
  then show ?thesis using e(1-3) i v by (intro exI [of _ "success \<and> location_updated K gsup imsi"] exI [of _ s'] conjI) auto
qed

theorem eap_authorize_outcome_witness:
  "\<exists>s' p u. eap_authorize sample_consts sample_gsup sample_sa (other_id sample_sa) True
       (osmo_epdg_db_create (\<lambda>_. 0)) = Inr (True, s')
     \<and> db_map s' sample_imsi = Some p \<and> ues s' p = Some u \<and> ue_state u = UE_LOCATION_UPDATED"
proof -
  let ?s = "osmo_epdg_db_create (\<lambda>_. 0)"
  have "ref_inv ?s (\<lambda>_. 0)" using db_init_inv [of "\<lambda>_. 0"] by (simp add: db_init_def)
  moreover have "ht_count (subscribers ?s) \<le> ht_limit"
    by (simp add: osmo_epdg_db_create_def hashtable_create_inv)
  ultimately show ?thesis
    using eap_authorize_outcome [of ?s "\<lambda>_. 0" sample_consts sample_gsup sample_sa "other_id sample_sa" True]
      sample_sa_valid sample_sa_imsi sample_eap_imsi sample_location
    by (auto simp: sample_consts_def sample_gsup_def)
qed

text \<open>
  C9. Outcome of \<open>authorize\<close> on every path.  A call that is not the final one changes nothing.  A
  peer without a filed UE is refused and nothing changes.  For a filed UE whose read lock is
  taken the call blocks.  For any other filed UE it returns, the references balance, the table
  and all other UEs are untouched; it succeeds exactly when the tunnel response offers an IPv4
  address, and then the UE is \<open>UE_TUNNEL_READY\<close> with that address and the attributes of the
  options appended; otherwise the UE ends in \<open>UE_FAIL\<close> with nothing else changed.
\<close>

theorem authorize_outcome:
  assumes "ref_inv s held"
  shows "authorize K pton6 gsup sa False success s = Inr (success, s)
    \<and> (case map_option (\<lambda>imsi. (imsi, db_map s imsi)) (eap_imsi (other_id sa)) of
         Some (imsi, Some p) \<Rightarrow> \<exists>u. ues s p = Some u
           \<and> (if 0 < ue_readers u then authorize K pton6 gsup sa True success s = Inl Blocked
              else \<exists>s'. authorize K pton6 gsup sa True success s = Inr (success \<and> granted K gsup imsi \<noteq> None, s')
                \<and> ref_inv s' held \<and> subscribers s' = subscribers s \<and> (\<forall>q. q \<noteq> p \<longrightarrow> ues s' q = ues s q)
                \<and> ues s' p = Some (authorized_ue (granted K gsup imsi) u))
       | _ \<Rightarrow> authorize K pton6 gsup sa True success s = Inr (False, s))"
proof (rule conjI)
  show "authorize K pton6 gsup sa False success s = Inr (success, s)" by (simp add: authorize_def)
  show "case map_option (\<lambda>imsi. (imsi, db_map s imsi)) (eap_imsi (other_id sa)) of
         Some (imsi, Some p) \<Rightarrow> \<exists>u. ues s p = Some u
           \<and> (if 0 < ue_readers u then authorize K pton6 gsup sa True success s = Inl Blocked
              else \<exists>s'. authorize K pton6 gsup sa True success s = Inr (success \<and> granted K gsup imsi \<noteq> None, s')
                \<and> ref_inv s' held \<and> subscribers s' = subscribers s \<and> (\<forall>q. q \<noteq> p \<longrightarrow> ues s' q = ues s q)
                \<and> ues s' p = Some (authorized_ue (granted K gsup imsi) u))
       | _ \<Rightarrow> authorize K pton6 gsup sa True success s = Inr (False, s)"
  proof (cases "\<exists>imsi p. eap_imsi (other_id sa) = Some imsi \<and> db_map s imsi = Some p")
    case True
    then obtain imsi p where i: "eap_imsi (other_id sa) = Some imsi" "db_map s imsi = Some p" by blast
    then obtain u where u: "ues s p = Some u" using ref_inv_db [OF assms] by blast
    show ?thesis
    proof (cases "0 < ue_readers u")
      case True
      then show ?thesis using authorize_blocked [OF assms i u] u i by simp
    next
      case False
      then show ?thesis using authorize_filed [OF assms i u, of K pton6 gsup success] u i by simp
    qed
  next
    case False
    then have "authorize K pton6 gsup sa True success s = Inr (False, s)" by (intro authorize_unfiled [OF assms]) auto
    then show ?thesis using False by (auto split: option.split)
  qed
qed

theorem authorize_outcome_witness:
  "\<exists>s s' p u. ref_inv s (\<lambda>_. 0)
     \<and> authorize sample_consts (\<lambda>_. None) sample_gsup sample_sa True True s = Inr (True, s')
     \<and> db_map s' sample_imsi = Some p \<and> ues s' p = Some u \<and> ue_state u = UE_TUNNEL_READY
     \<and> ue_address u = Some (Host4 [10,45,0,2] 0) \<and> map attr_value (ue_attributes u) = [[8,8,8,8]]"
proof -
  obtain s where s: "ref_inv s (\<lambda>_. 0)" "db_map s sample_imsi = Some 0" "ues s = [0 \<mapsto> sample_ue]"
    using sample_filed by blast
  have "ue_readers sample_ue = 0" by (simp add: sample_ue_def)
  with authorize_outcome [OF s(1), of sample_consts "\<lambda>_. None" sample_gsup sample_sa True]
  obtain s' where s': "authorize sample_consts (\<lambda>_. None) sample_gsup sample_sa True True s = Inr (True, s')"
    "subscribers s' = subscribers s"
    "ues s' 0 = Some (authorized_ue (granted sample_consts sample_gsup sample_imsi) sample_ue)"
    using s sample_eap_imsi sample_granted by auto
  then show ?thesis
    using s sample_granted
    by (intro exI [of _ s] exI [of _ s'] exI [of _ 0] exI [of _ "authorized_ue (granted sample_consts
        sample_gsup sample_imsi) sample_ue"]) (simp add: authorized_ue_def sample_ue_def)
qed

text \<open>
  A UE whose read lock was left taken cannot be authorized again: \<open>authorize\<close> blocks on
  its first write to the UE.
\<close>

theorem authorize_blocks_on_leaked_lock:
  assumes "ref_inv s held" and "eap_imsi (other_id sa) = Some imsi" and "db_map s imsi = Some p"
    and "ues s p = Some u" and "0 < ue_readers u"
  shows "authorize K pton6 gsup sa True success s = Inl Blocked"
  by (rule authorize_blocked [OF assms])

theorem authorize_blocks_on_leaked_lock_witness:
  "\<exists>s. authorize sample_consts (\<lambda>_. None) sample_gsup sample_sa True True s = Inl Blocked"
proof -
  obtain s where s: "ref_inv s (\<lambda>_. 0)" "db_map s sample_imsi = Some 0" "ues s = [0 \<mapsto> sample_ue]"
    using sample_filed by blast
  let ?s = "assign 0 (sample_ue\<lparr>ue_readers := 1\<rparr>) s"
  have "ref_inv ?s (\<lambda>_. 0)" by (rule ref_inv_assign [OF s(1), of 0 sample_ue]) (simp_all add: s)
  then show ?thesis
    using authorize_blocks_on_leaked_lock [of ?s "\<lambda>_. 0" sample_sa sample_imsi 0
        "sample_ue\<lparr>ue_readers := 1\<rparr>" sample_consts "\<lambda>_. None" sample_gsup True] sample_eap_imsi s by auto
qed

end
