(* ===== verification/Simaka_Manager.thy ===== *)
theory Simaka_Manager
  imports Prelude
begin

text \<open>
  \<open>libsimaka/simaka_manager.c\<close>: the backends of a server (providers, which hand out
  authentication vectors and map identities) and of a peer (cards) are asked in the order they
  were added, and the first that answers wins.  What the backends reach (the core network, a
  database, a USIM) is the state \<open>'w\<close> their functions thread; identities are given by their
  encoding.
\<close>

section \<open>Providers\<close>

record quintuplet =
  q_rand :: chunk
  q_xres :: chunk
  q_ck :: chunk
  q_ik :: chunk
  q_autn :: chunk

type_synonym ('a, 'w) call = "'w \<Rightarrow> ('a option \<times> 'w) res"

record 'w simaka_provider =
  sp_get_quintuplet :: "chunk \<Rightarrow> (quintuplet, 'w) call"
  sp_resync :: "chunk \<Rightarrow> chunk option \<Rightarrow> chunk \<Rightarrow> (unit, 'w) call"
  sp_is_pseudonym :: "chunk \<Rightarrow> (chunk, 'w) call"
  sp_gen_pseudonym :: "chunk \<Rightarrow> (chunk, 'w) call"
  sp_is_reauth :: "chunk \<Rightarrow> (chunk \<times> chunk \<times> 16 word, 'w) call"
  sp_gen_reauth :: "chunk \<Rightarrow> chunk \<Rightarrow> (chunk, 'w) call"

type_synonym 'w simaka_manager = "'w simaka_provider list"

section \<open>Operations\<close>

definition add_provider :: "'w simaka_provider \<Rightarrow> 'w simaka_manager \<Rightarrow> 'w simaka_manager" where
  "add_provider p this = this @ [p]"

text \<open>The loop the operations share: the backends are enumerated until one answers.\<close>

fun first_answer :: "('b \<Rightarrow> ('a, 'w) call) \<Rightarrow> 'b list \<Rightarrow> ('a, 'w) call" where
  "first_answer f [] w = Inr (None, w)"
| "first_answer f (p # ps) w =
     andThen (f p w) (\<lambda>(r, w1). case r of Some x \<Rightarrow> Inr (Some x, w1) | None \<Rightarrow> first_answer f ps w1)"

definition provider_get_quintuplet :: "'w simaka_manager \<Rightarrow> chunk \<Rightarrow> (quintuplet, 'w) call" where
  "provider_get_quintuplet this i = first_answer (\<lambda>p. sp_get_quintuplet p i) this"

definition provider_resync :: "'w simaka_manager \<Rightarrow> chunk \<Rightarrow> chunk option \<Rightarrow> chunk \<Rightarrow> (unit, 'w) call" where
  "provider_resync this i rnd auts = first_answer (\<lambda>p. sp_resync p i rnd auts) this"

definition provider_is_pseudonym :: "'w simaka_manager \<Rightarrow> chunk \<Rightarrow> (chunk, 'w) call" where
  "provider_is_pseudonym this i = first_answer (\<lambda>p. sp_is_pseudonym p i) this"

definition provider_gen_pseudonym :: "'w simaka_manager \<Rightarrow> chunk \<Rightarrow> (chunk, 'w) call" where
  "provider_gen_pseudonym this i = first_answer (\<lambda>p. sp_gen_pseudonym p i) this"

definition provider_is_reauth :: "'w simaka_manager \<Rightarrow> chunk \<Rightarrow> (chunk \<times> chunk \<times> 16 word, 'w) call" where
  "provider_is_reauth this i = first_answer (\<lambda>p. sp_is_reauth p i) this"

definition provider_gen_reauth :: "'w simaka_manager \<Rightarrow> chunk \<Rightarrow> chunk \<Rightarrow> (chunk, 'w) call" where
  "provider_gen_reauth this i mk = first_answer (\<lambda>p. sp_gen_reauth p i mk) this"

section \<open>Cards\<close>

text \<open>
  The answer of a card to a challenge: RES, CK and IK, or that the sequence number is out of
  range (\<open>INVALID_STATE\<close>), or any other status, after which the next card is asked.
\<close>

datatype card_answer = Card_Success chunk chunk chunk | Card_Invalid_State | Card_Failed

record 'w simaka_card =
  sc_get_quintuplet :: "chunk \<Rightarrow> chunk \<Rightarrow> chunk \<Rightarrow> 'w \<Rightarrow> (card_answer \<times> 'w) res"
  sc_resync :: "chunk \<Rightarrow> chunk \<Rightarrow> (chunk, 'w) call"
  sc_set_pseudonym :: "chunk \<Rightarrow> chunk \<Rightarrow> 'w \<Rightarrow> 'w res"
  sc_get_pseudonym :: "chunk \<Rightarrow> (chunk, 'w) call"
  sc_set_reauth :: "chunk \<Rightarrow> chunk \<Rightarrow> chunk \<Rightarrow> 16 word \<Rightarrow> 'w \<Rightarrow> 'w res"
  sc_get_reauth :: "chunk \<Rightarrow> (chunk \<times> chunk \<times> 16 word, 'w) call"

type_synonym 'w cards = "'w simaka_card list"

definition add_card :: "'w simaka_card \<Rightarrow> 'w cards \<Rightarrow> 'w cards" where
  "add_card c this = this @ [c]"

fun card_get_quintuplet :: "'w cards \<Rightarrow> chunk \<Rightarrow> chunk \<Rightarrow> chunk \<Rightarrow> 'w \<Rightarrow> (card_answer \<times> 'w) res" where
  "card_get_quintuplet [] i rnd autn w = Inr (Card_Failed, w)"
| "card_get_quintuplet (c # cs) i rnd autn w =
     andThen (sc_get_quintuplet c i rnd autn w) (\<lambda>(a, w1).
       case a of Card_Failed \<Rightarrow> card_get_quintuplet cs i rnd autn w1 | _ \<Rightarrow> Inr (a, w1))"

text \<open>A call to every card.\<close>

fun all_cards :: "('w simaka_card \<Rightarrow> 'w \<Rightarrow> 'w res) \<Rightarrow> 'w cards \<Rightarrow> 'w \<Rightarrow> 'w res" where
  "all_cards f [] w = Inr w"
| "all_cards f (c # cs) w = andThen (f c w) (all_cards f cs)"

definition card_resync :: "'w cards \<Rightarrow> chunk \<Rightarrow> chunk \<Rightarrow> (chunk, 'w) call" where
  "card_resync this i rnd = first_answer (\<lambda>c. sc_resync c i rnd) this"

definition card_set_pseudonym :: "'w cards \<Rightarrow> chunk \<Rightarrow> chunk \<Rightarrow> 'w \<Rightarrow> 'w res" where
  "card_set_pseudonym this i pseudonym = all_cards (\<lambda>c. sc_set_pseudonym c i pseudonym) this"

definition card_get_pseudonym :: "'w cards \<Rightarrow> chunk \<Rightarrow> (chunk, 'w) call" where
  "card_get_pseudonym this i = first_answer (\<lambda>c. sc_get_pseudonym c i) this"

definition card_set_reauth :: "'w cards \<Rightarrow> chunk \<Rightarrow> chunk \<Rightarrow> chunk \<Rightarrow> 16 word \<Rightarrow> 'w \<Rightarrow> 'w res" where
  "card_set_reauth this i nxt mk counter = all_cards (\<lambda>c. sc_set_reauth c i nxt mk counter) this"

definition card_get_reauth :: "'w cards \<Rightarrow> chunk \<Rightarrow> (chunk \<times> chunk \<times> 16 word, 'w) call" where
  "card_get_reauth this i = first_answer (\<lambda>c. sc_get_reauth c i) this"

section \<open>Lemmas\<close>

lemma first_answer_from:
  assumes "first_answer f ps w = Inr (Some x, w')"
  shows "\<exists>p \<in> set ps. \<exists>v. f p v = Inr (Some x, w')"
  using assms
proof (induction ps arbitrary: w)
  case (Cons p ps)
  then show ?case by (auto elim!: andThen_InrE split: option.split_asm) blast+
qed simp

end
