(* ===== verification/Epdg_Provider.thy ===== *)
theory Epdg_Provider
  imports Epdg_Listener Simaka_Manager "HOL-Library.Sublist"
begin

text \<open>
  The SIM/AKA and attribute provider of \<open>osmo_epdg_provider.c\<close>: authentication vectors come
  from the GSUP peer, virtual addresses and configuration attributes from the UE that
  \<open>authorize\<close> prepared.
\<close>

section \<open>Authentication\<close>

definition AKA_K_LEN :: nat where "AKA_K_LEN = 16"
definition AKA_RES_MAX :: nat where "AKA_RES_MAX = 16"

text \<open>\<open>get_shared\<close> is the credential manager's answer for the identity.\<close>

definition osmo_epdg_get_k :: "(chunk \<Rightarrow> chunk option) \<Rightarrow> chunk \<Rightarrow> chunk option" where
  "osmo_epdg_get_k get_shared eap_id =
     (case get_shared eap_id of
        None \<Rightarrow> None
      | Some key \<Rightarrow>
          let n = min (length key) AKA_K_LEN in Some (take n key @ drop n (replicate AKA_K_LEN 0)))"

text \<open>
  \<open>xres\<close> is a buffer of \<open>AKA_RES_MAX\<close> bytes and the length of the response is taken from the
  message; the other fields are copied at their fixed size.
\<close>

definition get_quintuplet ::
  "gsup_consts \<Rightarrow> gsup_client \<Rightarrow> ike_sa option \<Rightarrow> chunk \<Rightarrow> quintuplet option res" where
  "get_quintuplet K gsup cur_sa nai =
     (case epdg_get_imsi nai 16 of
        Inl _ \<Rightarrow> Inr None
      | Inr imsi \<Rightarrow>
     (case cur_sa of
        None \<Rightarrow> Inr None
      | Some sa \<Rightarrow>
     (case epdg_get_apn sa (APN_MAXLEN K) of
        Inl _ \<Rightarrow> Inr None
      | Inr apn \<Rightarrow>
     (case gc_send_auth_request gsup imsi (CN_DOMAIN_PS K) None None (Some apn) (PDP_TYPE_N_IETF_IPv4 K) of
        None \<Rightarrow> Inr None
      | Some resp \<Rightarrow>
          if message_type resp \<noteq> SEND_AUTH_INFO_RESULT K then Inr None
          else if num_auth_vectors resp = 0 then Inr None
          else
            let auth = auth_vector0 resp in
            if av_res_len auth > AKA_RES_MAX \<or> av_res_len auth > length (av_res auth) then Inl OutOfBounds
            else Inr (Some \<lparr>q_rand = av_rand auth, q_xres = take (av_res_len auth) (av_res auth),
                        q_ck = av_ck auth, q_ik = av_ik auth, q_autn = av_autn auth\<rparr>)))))"

definition resync :: "chunk \<Rightarrow> chunk \<Rightarrow> chunk \<Rightarrow> bool" where
  "resync nai rand auts = False"

text \<open>The table of functions the plugin registers with the manager; it keeps no state of its own.\<close>

definition osmo_epdg_provider :: "gsup_consts \<Rightarrow> gsup_client \<Rightarrow> ike_sa option \<Rightarrow> 'w simaka_provider" where
  "osmo_epdg_provider K gsup cur_sa =
     \<lparr>sp_get_quintuplet = (\<lambda>i w. andThen (get_quintuplet K gsup cur_sa i) (\<lambda>q. Inr (q, w))),
      sp_resync = (\<lambda>i rnd auts w. Inr (if resync i (case rnd of None \<Rightarrow> [] | Some r \<Rightarrow> r) auts then Some () else None, w)),
      sp_is_pseudonym = (\<lambda>i w. Inr (None, w)),
      sp_gen_pseudonym = (\<lambda>i w. Inr (None, w)),
      sp_is_reauth = (\<lambda>i w. Inr (None, w)),
      sp_gen_reauth = (\<lambda>i mk w. Inr (None, w))\<rparr>"

section \<open>Addresses\<close>

definition acquire_address :: "ike_sa \<Rightarrow> host \<Rightarrow> epdg \<Rightarrow> (host option \<times> epdg) res" where
  "acquire_address sa requested s =
     (if get_family requested \<noteq> AF_INET then Inr (None, s)
      else andThen (get_subscriber_ike sa s) (\<lambda>(r, s1).
        case r of
          None \<Rightarrow> Inr (None, s1)
        | Some p \<Rightarrow> andThen (get_address_ue p s1) (\<lambda>address.
                    andThen (ue_put p s1) (\<lambda>s2. Inr (address, s2)))))"

definition release_address :: "host option \<Rightarrow> ike_sa \<Rightarrow> epdg \<Rightarrow> (bool \<times> epdg) res" where
  "release_address address sa s =
     andThen (get_subscriber_ike sa s) (\<lambda>(r, s1).
       case r of
         None \<Rightarrow> Inr (False, s1)
       | Some p \<Rightarrow> andThen (get_address_ue p s1) (\<lambda>ue_address.
           case (ue_address, address) of
             (Some b, Some a) \<Rightarrow> andThen (ue_put p s1) (\<lambda>s2. Inr (host_equals a b, s2))
           | _ \<Rightarrow> andThen (ue_put p s1) (\<lambda>s2. Inr (False, s2))))"

section \<open>Attributes\<close>

text \<open>
  An enumerator over the attribute list of a UE; it owns a reference to the UE and gives
  it back when it is destroyed.  Nothing is inserted into the list while it exists: the
  list's read lock is taken.
\<close>

record attr_enum =
  en_rest :: "epdg_attribute list"
  en_ue :: "nat option"

fun attribute_enum_filter :: "epdg_attribute list \<Rightarrow> ((attr_type \<times> chunk) \<times> epdg_attribute list) option" where
  "attribute_enum_filter [] = None"
| "attribute_enum_filter (entry # rest) =
     (if attr_valid entry then Some ((attr_type entry, attr_value entry), rest)
      else attribute_enum_filter rest)"

definition create_attribute_enumerator :: "ike_sa \<Rightarrow> epdg \<Rightarrow> (attr_enum \<times> epdg) res" where
  "create_attribute_enumerator sa s =
     andThen (get_subscriber_ike sa s) (\<lambda>(r, s1).
       case r of
         None \<Rightarrow> Inr (\<lparr>en_rest = [], en_ue = None\<rparr>, s1)
       | Some p \<Rightarrow>
           andThen (ue_get p s1) (\<lambda>s2.
           andThen (get_attributes p s2) (\<lambda>(attributes, s3).
           andThen (ue_put p s3) (\<lambda>s4.
           Inr (\<lparr>en_rest = attributes, en_ue = Some p\<rparr>, s4)))))"

text \<open>The caller's loop over the enumerator, and its destruction.\<close>

fun enumerate_all :: "nat \<Rightarrow> epdg_attribute list \<Rightarrow> (attr_type \<times> chunk) list" where
  "enumerate_all 0 rest = []"
| "enumerate_all (Suc fuel) rest =
     (case attribute_enum_filter rest of None \<Rightarrow> [] | Some (x, rest') \<Rightarrow> x # enumerate_all fuel rest')"

definition enum_destroy :: "attr_enum \<Rightarrow> epdg \<Rightarrow> epdg res" where
  "enum_destroy e s = put_opt (en_ue e) s"

section \<open>Lemmas\<close>

lemma filter_length: "attribute_enum_filter rest = Some (x, rest') \<Longrightarrow> length rest' < length rest"
  by (induction rest) (auto split: if_splits)

lemma filter_valid:
  "attribute_enum_filter rest = None \<Longrightarrow> filter attr_valid rest = []"
  "attribute_enum_filter rest = Some (x, rest') \<Longrightarrow>
     \<exists>a. filter attr_valid rest = a # filter attr_valid rest' \<and> x = (attr_type a, attr_value a)"
  by (induction rest) (auto split: if_splits)

lemma enumerate_all_valid:
  "length rest \<le> fuel \<Longrightarrow>
     enumerate_all fuel rest = map (\<lambda>a. (attr_type a, attr_value a)) (filter attr_valid rest)"
proof (induction fuel rest rule: enumerate_all.induct)
  case (2 fuel rest)
  show ?case
  proof (cases "attribute_enum_filter rest")
    case None
    then show ?thesis using filter_valid(1) by simp
  next
    case (Some y)
    obtain x rest' where y: "y = (x, rest')" by fastforce
    then show ?thesis using 2 Some filter_valid(2) [of rest x rest'] filter_length [of rest x rest'] by auto
  qed
qed simp

text \<open>
  The IMSI is at most 15 characters long, so a larger buffer makes no difference.
\<close>

lemma imsi_16: "epdg_get_imsi nai 16 = epdg_get_imsi nai 15"
  by (simp add: epdg_get_imsi_def)

lemma get_subscriber_ike_eq:
  "get_subscriber_ike sa s = (case eap_imsi (other_id sa) of
      None \<Rightarrow> Inr (None, s) | Some imsi \<Rightarrow> get_subscriber imsi s)"
  by (auto simp: get_subscriber_ike_def imsi_16 epdg_get_imsi_ike_def eap_imsi_def
      split: option.split sum.split)

text \<open>A UE is borrowed: looked up, read and given back, and the state is as before.\<close>

lemma borrow_ue:
  assumes inv: "ref_inv s held" and imsi: "eap_imsi (other_id sa) = Some imsi"
    and p: "db_map s imsi = Some p" and u: "ues s p = Some u"
  shows "\<exists>s1. get_subscriber_ike sa s = Inr (Some p, s1) \<and> ues s1 p = Some (u\<lparr>ue_refcount := ue_refcount u + 1\<rparr>)
    \<and> ref_inv s1 (held(p := held p + 1)) \<and> subscribers s1 = subscribers s \<and> ue_put p s1 = Inr s"
proof -
  obtain s1 where s1: "get_subscriber imsi s = Inr (Some p, s1)" "subscribers s1 = subscribers s"
    "ref_inv s1 (held(p := held p + 1))"
    using get_subscriber_spec [OF inv, of imsi] p by auto
  have "0 < ue_refcount u" using ref_inv_Some [OF inv u] by simp
  moreover have "s1 = assign p (u\<lparr>ue_refcount := ue_refcount u + 1\<rparr>) s"
    using s1(1) u by (auto simp: get_subscriber_def lift_ht_def ue_get_def andThen_Inr_iff split: option.splits)
  ultimately have "ue_put p s1 = Inr s" using u by (simp add: ue_put_def assign_def fun_upd_idem)
  then show ?thesis using s1 imsi get_subscriber_ues [OF s1(1) u] by (auto simp: get_subscriber_ike_eq)
qed

lemma get_address_ue_Some: "ues s p = Some u \<Longrightarrow> get_address_ue p s = Inr (ue_address u)"
  by (simp add: get_address_ue_def)

lemma acquire_address_filed:
  assumes "ref_inv s held" and "eap_imsi (other_id sa) = Some imsi" and "db_map s imsi = Some p"
    and "ues s p = Some u" and "get_family requested = AF_INET"
  shows "acquire_address sa requested s = Inr (ue_address u, s)"
  using borrow_ue [OF assms(1-4)] assms(5) by (auto simp: acquire_address_def get_address_ue_Some)

lemma host_equals_refl: "host_equals a a"
  by (cases a) (simp_all add: host_equals_def)

lemma release_address_filed:
  assumes "ref_inv s held" and "eap_imsi (other_id sa) = Some imsi" and "db_map s imsi = Some p"
    and "ues s p = Some u" and "ue_address u = Some b"
  shows "release_address (Some a) sa s = Inr (host_equals a b, s)"
  using borrow_ue [OF assms(1-4)] assms(5) by (auto simp: release_address_def get_address_ue_Some)

lemma create_attribute_enumerator_filed:
  assumes inv: "ref_inv s held" and i: "eap_imsi (other_id sa) = Some imsi" "db_map s imsi = Some p"
    and u: "ues s p = Some u"
  shows "\<exists>s1 s2. create_attribute_enumerator sa s = Inr (\<lparr>en_rest = ue_attributes u, en_ue = Some p\<rparr>, s1)
    \<and> ue_put p s1 = Inr s2 \<and> ref_inv s2 held \<and> subscribers s2 = subscribers s
    \<and> ues s2 p = Some (u\<lparr>ue_readers := ue_readers u + 1\<rparr>)"
proof -
  obtain s1 where s1: "get_subscriber_ike sa s = Inr (Some p, s1)"
    "ues s1 p = Some (u\<lparr>ue_refcount := ue_refcount u + 1\<rparr>)"
    "ref_inv s1 (held(p := held p + 1))" "subscribers s1 = subscribers s" "ue_put p s1 = Inr s"
    using borrow_ue [OF inv i u] by blast
  let ?u4 = "u\<lparr>ue_readers := ue_readers u + 1, ue_refcount := ue_refcount u + 1\<rparr>"
  let ?u5 = "u\<lparr>ue_readers := ue_readers u + 1\<rparr>"
  let ?s4 = "assign p ?u4 s1" and ?s5 = "assign p ?u5 s1"
  have pos: "0 < ue_refcount u" using ref_inv_Some [OF inv u] by simp
  have e: "create_attribute_enumerator sa s = Inr (\<lparr>en_rest = ue_attributes u, en_ue = Some p\<rparr>, ?s4)"
    using s1(1,2) by (simp add: create_attribute_enumerator_def ue_get_def get_attributes_def ue_put_def
        assign_def)
  have d: "ue_put p ?s4 = Inr ?s5" using pos by (simp add: ue_put_def assign_def)
  have "ref_inv ?s4 (held(p := held p + 1))" by (rule ref_inv_assign [OF s1(3,2)]) simp_all
  then have "ref_inv ?s5 held" using ref_inv_put [of ?s4 "held(p := held p + 1)" p] d by auto
  then show ?thesis using e d s1(4) by auto
qed

section \<open>Properties\<close>

text \<open>
  C25. The address that \<open>authorize\<close> stored is the address the peer gets: after a successful final
  \<open>authorize\<close> the HLR's tunnel response granted an address, \<open>acquire_address\<close> for an IPv4
  request of the same IKE_SA answers exactly this address, \<open>release_address\<close> recognises it,
  and neither changes the state or keeps a reference.
\<close>

theorem acquire_after_authorize:
  assumes inv: "ref_inv s held" and free: "\<forall>p u. ues s p = Some u \<longrightarrow> ue_readers u = 0"
    and ok: "authorize K pton6 gsup sa True success s = Inr (True, s')"
    and req: "get_family requested = AF_INET"
  shows "\<exists>imsi a xs. eap_imsi (other_id sa) = Some imsi \<and> granted K gsup imsi = Some (a, xs)
    \<and> acquire_address sa requested s' = Inr (Some a, s')
    \<and> release_address (Some a) sa s' = Inr (True, s')"
proof -
  obtain imsi p where i: "eap_imsi (other_id sa) = Some imsi" "db_map s imsi = Some p"
    using authorize_unfiled [OF inv, of sa K pton6 gsup success] ok by fastforce
  then obtain u where u: "ues s p = Some u" using ref_inv_db [OF inv] by blast
  obtain a xs where g: "granted K gsup imsi = Some (a, xs)" and s': "ref_inv s' held"
    "subscribers s' = subscribers s" "ues s' p = Some (authorized_ue (Some (a, xs)) u)"
    using authorize_filed [OF inv i u, of K pton6 gsup success] free u ok by auto
  have i': "db_map s' imsi = Some p" using i s'(2) by simp
  have "acquire_address sa requested s' = Inr (Some a, s')"
    using acquire_address_filed [OF s'(1) i(1) i' s'(3) req] by (simp add: authorized_ue_def)
  moreover have "release_address (Some a) sa s' = Inr (True, s')"
    using release_address_filed [OF s'(1) i(1) i' s'(3), of a a] host_equals_refl
    by (simp add: authorized_ue_def)
  ultimately show ?thesis using i g by auto
qed

theorem acquire_after_authorize_witness:
  "\<exists>s s'. authorize sample_consts (\<lambda>_. None) sample_gsup sample_sa True True s = Inr (True, s')
     \<and> acquire_address sample_sa (Host4 [0,0,0,0] 0) s' = Inr (Some (Host4 [10,45,0,2] 0), s')"
proof -
  obtain s where s: "ref_inv s (\<lambda>_. 0)" "db_map s sample_imsi = Some 0" "ues s = [0 \<mapsto> sample_ue]"
    using sample_filed by blast
  have free: "\<forall>p u. ues s p = Some u \<longrightarrow> ue_readers u = 0" by (simp add: s sample_ue_def)
  obtain s' where s': "authorize sample_consts (\<lambda>_. None) sample_gsup sample_sa True True s = Inr (True, s')"
    using authorize_filed [OF s(1) sample_eap_imsi s(2), of sample_ue sample_consts "\<lambda>_. None" sample_gsup True]
      s(3) free sample_granted by auto
  show ?thesis
    using acquire_after_authorize [OF s(1) free s', of "Host4 [0,0,0,0] 0"] s' sample_eap_imsi sample_granted
    by auto
qed

text \<open>
  Configuration attributes: the enumerator of a filed UE yields, in order, the valid
  attributes of the UE, and destroying it balances the references; but the read lock taken
  by \<open>get_attributes\<close> is never released, so the next final \<open>authorize\<close> of this subscriber
  blocks for ever.
\<close>

theorem attribute_enumeration:
  assumes "ref_inv s held" and "eap_imsi (other_id sa) = Some imsi" and "db_map s imsi = Some p"
    and "ues s p = Some u"
  shows "\<exists>e s1 s2. create_attribute_enumerator sa s = Inr (e, s1) \<and> enum_destroy e s1 = Inr s2
    \<and> enumerate_all (length (en_rest e)) (en_rest e)
        = map (\<lambda>a. (attr_type a, attr_value a)) (filter attr_valid (ue_attributes u))
    \<and> ref_inv s2 held \<and> ues s2 p = Some (u\<lparr>ue_readers := ue_readers u + 1\<rparr>)
    \<and> authorize K pton6 gsup sa True success s2 = Inl Blocked"
proof -
  obtain s1 s2 where c: "create_attribute_enumerator sa s = Inr (\<lparr>en_rest = ue_attributes u, en_ue = Some p\<rparr>, s1)"
    "ue_put p s1 = Inr s2" "ref_inv s2 held" "subscribers s2 = subscribers s"
    "ues s2 p = Some (u\<lparr>ue_readers := ue_readers u + 1\<rparr>)"
    using create_attribute_enumerator_filed [OF assms] by blast
  have "authorize K pton6 gsup sa True success s2 = Inl Blocked"
    by (rule authorize_blocked [OF c(3) assms(2) _ c(5)]) (use assms(3) c(4) in simp_all)
  then show ?thesis using c by (auto simp: enum_destroy_def put_opt_def enumerate_all_valid)
qed

theorem attribute_enumeration_witness:
  "\<exists>s e s1 s2. create_attribute_enumerator sample_sa s = Inr (e, s1) \<and> enum_destroy e s1 = Inr s2
     \<and> authorize sample_consts (\<lambda>_. None) sample_gsup sample_sa True True s2 = Inl Blocked"
proof -
  obtain s where s: "ref_inv s (\<lambda>_. 0)" "db_map s sample_imsi = Some 0" "ues s = [0 \<mapsto> sample_ue]"
    using sample_filed by blast
  have "ues s 0 = Some sample_ue" by (simp add: s(3))
  from attribute_enumeration [OF s(1) sample_eap_imsi s(2) this, of sample_consts "\<lambda>_. None" sample_gsup True]
  show ?thesis by blast
qed

text \<open>
  \<open>get_quintuplet\<close> for the permanent identity of a subscriber: when the peer answers the
  request with at least one vector whose response fits the buffer (the decoder of
  libosmocore bounds \<open>res_len\<close> by the size of \<open>res\<close>), the quintuplet is that vector with
  exactly \<open>res_len\<close> bytes of expected response; without such an answer there is none.
\<close>

theorem get_quintuplet_outcome:
  assumes imsi: "\<not> epdg_validate_imsi (Some imsi)" and apn: "epdg_get_apn sa (APN_MAXLEN K) = Inr apn"
    and bound: "\<And>resp. gc_send_auth_request gsup imsi (CN_DOMAIN_PS K) None None (Some apn)
       (PDP_TYPE_N_IETF_IPv4 K) = Some resp \<Longrightarrow>
       av_res_len (auth_vector0 resp) \<le> AKA_RES_MAX \<and> length (av_res (auth_vector0 resp)) = AKA_RES_MAX"
  shows "\<exists>q. get_quintuplet K gsup (Some sa) (permanent_nai imsi realm) = Inr q
    \<and> (q \<noteq> None \<longleftrightarrow> (\<exists>resp. gc_send_auth_request gsup imsi (CN_DOMAIN_PS K) None None (Some apn)
          (PDP_TYPE_N_IETF_IPv4 K) = Some resp \<and> message_type resp = SEND_AUTH_INFO_RESULT K
          \<and> 0 < num_auth_vectors resp))
    \<and> (\<forall>v resp. q = Some v \<and> gc_send_auth_request gsup imsi (CN_DOMAIN_PS K) None None (Some apn)
          (PDP_TYPE_N_IETF_IPv4 K) = Some resp \<longrightarrow>
        q_rand v = av_rand (auth_vector0 resp) \<and> q_autn v = av_autn (auth_vector0 resp)
        \<and> q_ck v = av_ck (auth_vector0 resp) \<and> q_ik v = av_ik (auth_vector0 resp)
        \<and> length (q_xres v) = av_res_len (auth_vector0 resp) \<and> prefix (q_xres v) (av_res (auth_vector0 resp)))"
proof -
  have i: "epdg_get_imsi (permanent_nai imsi realm) 16 = Inr imsi"
    by (rule epdg_get_imsi_permanent [OF imsi]) simp
  show ?thesis
    using bound
    by (cases "gc_send_auth_request gsup imsi (CN_DOMAIN_PS K) None None (Some apn) (PDP_TYPE_N_IETF_IPv4 K)")
      (auto simp: get_quintuplet_def i apn Let_def take_is_prefix)
qed

definition sample_auth_resp :: gsup_msg where
  "sample_auth_resp = empty_gsup\<lparr>message_type := 10, num_auth_vectors := 1,
     auth_vector0 := empty_auth_vector\<lparr>av_res := [1,2,3,4,5,6,7,8] @ replicate 8 0, av_res_len := 8\<rparr>\<rparr>"

theorem get_quintuplet_outcome_witness:
  "\<exists>v. get_quintuplet sample_consts (sample_gsup\<lparr>gc_send_auth_request := \<lambda>_ _ _ _ _ _. Some sample_auth_resp\<rparr>)
     (Some sample_sa) (permanent_nai sample_imsi []) = Inr (Some v) \<and> length (q_xres v) = 8"
proof -
  have "epdg_get_apn sample_sa (APN_MAXLEN sample_consts) = Inr [105,109,115]"
    by (simp add: epdg_get_apn_def sample_sa_def sample_consts_def cstr_def)
  from get_quintuplet_outcome [OF sample_imsi_valid this,
      of "sample_gsup\<lparr>gc_send_auth_request := \<lambda>_ _ _ _ _ _. Some sample_auth_resp\<rparr>" "[]"]
  show ?thesis
    by (auto simp: sample_auth_resp_def AKA_RES_MAX_def sample_consts_def)
qed

end
