(* ===== verification/Gsup_Messages.thy ===== *)
theory Gsup_Messages
  imports Osmo_Gsup
begin

text \<open>
  The messages \<open>gsup_client.c\<close> builds: one function per request, up to the encoded message
  and the key (message type and IMSI) under which the response is expected.  The encoder and
  the APN encoder of libosmocore are the parameters \<open>enc\<close> and \<open>apn_from_str\<close>.
\<close>

definition IMSI_LEN :: nat where "IMSI_LEN = 15"

definition imsi_copy :: "cstring option \<Rightarrow> errno + cstring" where
  "imsi_copy imsi =
     (case imsi of
        None \<Rightarrow> Inl EINVAL
      | Some s \<Rightarrow> if length s \<noteq> IMSI_LEN then Inl EINVAL else Inr s)"

text \<open>The \<open>switch\<close> on the CN domain: unknown values leave the field empty.\<close>

definition set_cn_domain :: "gsup_consts \<Rightarrow> byte \<Rightarrow> gsup_msg \<Rightarrow> gsup_msg" where
  "set_cn_domain K d m =
     (if d = 0 then m
      else if d = CN_DOMAIN_PS K \<or> d = CN_DOMAIN_CS K then m\<lparr>cn_domain := d\<rparr>
      else m)"

definition encode_to_msgb :: "(gsup_msg \<Rightarrow> chunk option) \<Rightarrow> gsup_msg \<Rightarrow> chunk option" where
  "encode_to_msgb enc m = enc m"

definition tunnel_request_msg :: "gsup_consts \<Rightarrow> cstring option \<Rightarrow> gsup_msg option" where
  "tunnel_request_msg K imsi =
     (let m = empty_gsup\<lparr>message_type := EPDG_TUNNEL_REQUEST K, current_rat_type := RAT_EUTRAN_SGS K,
                message_class := CLASS_IPSEC_EPDG K\<rparr> in
      case imsi_copy imsi of
        Inl _ \<Rightarrow> None
      | Inr i \<Rightarrow> Some (m\<lparr>gsup_imsi := i, gsup_pco := Some [0x80, 0x00, 0x0d, 0x00, 0x00, 0x0c, 0x00]\<rparr>))"

definition update_location_msg :: "gsup_consts \<Rightarrow> cstring option \<Rightarrow> byte \<Rightarrow> gsup_msg option" where
  "update_location_msg K imsi d =
     (let m = empty_gsup\<lparr>message_type := UPDATE_LOCATION_REQUEST K, message_class := CLASS_IPSEC_EPDG K,
                current_rat_type := RAT_EUTRAN_SGS K\<rparr> in
      case imsi_copy imsi of
        Inl _ \<Rightarrow> None
      | Inr i \<Rightarrow> Some (set_cn_domain K d (m\<lparr>gsup_imsi := i\<rparr>)))"

text \<open>
  An optional chunk argument of a fixed length: absent or empty leaves the field alone, a
  wrong length rejects the request.
\<close>

definition opt_field :: "nat \<Rightarrow> chunk option \<Rightarrow> chunk option option" where
  "opt_field n c =
     (case c of
        None \<Rightarrow> Some None
      | Some b \<Rightarrow> if length b = 0 then Some None
                  else if length b \<noteq> n then None else Some (Some b))"

definition send_auth_request_msg ::
  "gsup_consts \<Rightarrow> (nat \<Rightarrow> cstring \<Rightarrow> chunk option) \<Rightarrow> cstring option \<Rightarrow> byte \<Rightarrow> chunk option \<Rightarrow> chunk option
    \<Rightarrow> cstring option \<Rightarrow> byte \<Rightarrow> gsup_msg option" where
  "send_auth_request_msg K apn_from_str imsi d auts auts_rand apn pdp_type =
     (let m = empty_gsup\<lparr>message_type := SEND_AUTH_INFO_REQUEST K, message_class := CLASS_IPSEC_EPDG K,
                num_auth_vectors := 1, current_rat_type := RAT_EUTRAN_SGS K\<rparr> in
      case imsi_copy imsi of
        Inl _ \<Rightarrow> None
      | Inr i \<Rightarrow>
     (case apn of
        None \<Rightarrow> None
      | Some a \<Rightarrow>
          if length a = 0 then None
          else
            let m1 = set_cn_domain K d (m\<lparr>gsup_imsi := i\<rparr>) in
     (case opt_field 14 auts of
        None \<Rightarrow> None
      | Some f1 \<Rightarrow>
     (case opt_field 16 auts_rand of
        None \<Rightarrow> None
      | Some f2 \<Rightarrow>
     (case apn_from_str (APN_MAXLEN K) a of
        None \<Rightarrow> None
      | Some e \<Rightarrow>
          Some (m1\<lparr>gsup_auts := f1, gsup_rand := f2, num_pdp_infos := 1,
            pdp_info0 := empty_pdp_info\<lparr>context_id := 0, pdp_type_nr := pdp_type,
              pdp_type_org := PDP_TYPE_ORG_IETF K, apn_enc := Some e\<rparr>\<rparr>))))))"

text \<open>
  After a failed encoding \<open>tx_insert_data_result\<close> goes on and hands a NULL message to the IPA
  client.
\<close>

definition tx_insert_data_result ::
  "gsup_consts \<Rightarrow> (gsup_msg \<Rightarrow> chunk option) \<Rightarrow> cstring \<Rightarrow> byte \<Rightarrow> chunk option option" where
  "tx_insert_data_result K enc imsi d =
     (case imsi_copy (Some imsi) of
        Inl _ \<Rightarrow> None
      | Inr i \<Rightarrow> Some (encode_to_msgb enc (set_cn_domain K d
            (empty_gsup\<lparr>message_type := INSERT_DATA_RESULT K, gsup_imsi := i\<rparr>))))"

text \<open>
  The three blocking calls.  \<open>transact\<close> is the exchange with the peer (create the request,
  enqueue it, wait, take the response): the subject of the theory \<open>Gsup_Client\<close>.
\<close>

type_synonym transact = "msg_type \<Rightarrow> cstring \<Rightarrow> chunk \<Rightarrow> gsup_msg option"

definition submit :: "(gsup_msg \<Rightarrow> chunk option) \<Rightarrow> transact \<Rightarrow> gsup_msg option \<Rightarrow> gsup_msg option" where
  "submit enc transact m =
     (case m of
        None \<Rightarrow> None
      | Some g \<Rightarrow> (case encode_to_msgb enc g of
           None \<Rightarrow> None
         | Some msg \<Rightarrow> transact (message_type g) (gsup_imsi g) msg))"

definition tunnel_request where
  "tunnel_request K enc transact imsi = submit enc transact (tunnel_request_msg K imsi)"

definition update_location where
  "update_location K enc transact imsi d = submit enc transact (update_location_msg K imsi d)"

definition send_auth_request where
  "send_auth_request K enc apn_from_str transact imsi d auts auts_rand apn pdp_type =
     submit enc transact (send_auth_request_msg K apn_from_str imsi d auts auts_rand apn pdp_type)"

definition gsup_client_of ::
  "gsup_consts \<Rightarrow> (gsup_msg \<Rightarrow> chunk option) \<Rightarrow> (nat \<Rightarrow> cstring \<Rightarrow> chunk option) \<Rightarrow> transact \<Rightarrow> gsup_client" where
  "gsup_client_of K enc apn_from_str transact =
     \<lparr>gc_send_auth_request = (\<lambda>i. send_auth_request K enc apn_from_str transact (Some i)),
      gc_update_location = (\<lambda>i. update_location K enc transact (Some i)),
      gc_tunnel_request = (\<lambda>i. tunnel_request K enc transact (Some i))\<rparr>"

section \<open>Lemmas\<close>

lemma imsi_copy_Inr: "imsi_copy r = Inr i \<longleftrightarrow> r = Some i \<and> length i = 15"
  by (auto simp: imsi_copy_def IMSI_LEN_def split: option.splits if_splits)

lemma set_cn_domain_sel [simp]:
  "message_type (set_cn_domain K d m) = message_type m"
  "gsup_imsi (set_cn_domain K d m) = gsup_imsi m"
  by (simp_all add: set_cn_domain_def)

lemma imsi_copy_cases: "(\<exists>i. imsi_copy r = Inr i \<and> r = Some i \<and> length i = 15) \<or> imsi_copy r = Inl EINVAL"
  by (auto simp: imsi_copy_def IMSI_LEN_def split: option.split)

end
