(* ===== verification/Blocking_Queue.thy ===== *)
theory Blocking_Queue
  imports Prelude
begin

text \<open>
  The blocking queue of \<open>collections/blocking_queue.c\<close> (with the \<open>remove\<close> operation added for
  the ePDG): a linked list filled at the front and emptied at the back.  \<open>bq_dequeue\<close> answers
  \<^const>\<open>None\<close> where the caller waits on the condition variable.  The locale states what a
  client of the queue relies on.
\<close>

definition bq_enqueue :: "'a \<Rightarrow> 'a list \<Rightarrow> 'a list" where
  "bq_enqueue item q = item # q"

definition bq_dequeue :: "'a list \<Rightarrow> ('a \<times> 'a list) option" where
  "bq_dequeue q = (if q = [] then None else Some (last q, butlast q))"

definition bq_remove :: "'a \<Rightarrow> 'a list \<Rightarrow> 'a option \<times> 'a list" where
  "bq_remove item q = (if count_list q item \<noteq> 0 then Some item else None, removeAll item q)"

locale fifo =
  fixes enq :: "'a \<Rightarrow> 'q \<Rightarrow> 'q"
    and deq :: "'q \<Rightarrow> ('a \<times> 'q) option"
    and del :: "'a \<Rightarrow> 'q \<Rightarrow> 'a option \<times> 'q"
    and items :: "'q \<Rightarrow> 'a list"
  assumes enq_items: "items (enq x q) = items q @ [x]"
    and deq_None: "items q = [] \<Longrightarrow> deq q = None"
    and deq_Some: "items q = x # xs \<Longrightarrow> \<exists>q'. deq q = Some (x, q') \<and> items q' = xs"
    and del_items: "items (snd (del x q)) = removeAll x (items q)"
    and del_found: "fst (del x q) = (if x \<in> set (items q) then Some x else None)"
begin

fun drain :: "nat \<Rightarrow> 'q \<Rightarrow> 'a list \<times> 'q" where
  "drain 0 q = ([], q)"
| "drain (Suc n) q = (case deq q of None \<Rightarrow> ([], q)
     | Some (x, q') \<Rightarrow> (let (xs, q'') = drain n q' in (x # xs, q'')))"

text \<open>Items leave in the order in which they were enqueued.\<close>

lemma drain_items: "fst (drain n q) = take n (items q)"
proof (induction n arbitrary: q)
  case (Suc n)
  show ?case
  proof (cases "items q")
    case Nil
    then show ?thesis by (simp add: deq_None)
  next
    case (Cons x xs)
    then obtain q' where "deq q = Some (x, q')" "items q' = xs" using deq_Some by blast
    then show ?thesis using Suc [of q'] Cons by (simp add: split_beta)
  qed
qed simp

lemma deq_items: "deq q = Some (x, q') \<Longrightarrow> items q = x # items q'"
  using deq_None [of q] deq_Some [of q] by (cases "items q") auto

lemma fold_enq_items: "items (fold enq xs q) = items q @ xs"
  by (induction xs arbitrary: q) (simp_all add: enq_items)

lemma drain_enqueued: "items q = [] \<Longrightarrow> fst (drain (length xs) (fold enq xs q)) = xs"
  by (simp add: drain_items fold_enq_items)

end

interpretation bq: fifo bq_enqueue bq_dequeue bq_remove rev
proof
  fix q :: "'a list" and x xs
  assume "rev q = x # xs"
  then have "q = rev xs @ [x]" by (metis rev.simps(2) rev_rev_ident)
  then show "\<exists>q'. bq_dequeue q = Some (x, q') \<and> rev q' = xs" by (simp add: bq_dequeue_def)
qed (simp_all add: bq_enqueue_def bq_dequeue_def bq_remove_def removeAll_filter_not_eq rev_filter
    count_list_0_iff)

lemma bq_dequeue_count:
  "bq_dequeue q = Some (x, q') \<Longrightarrow> count_list q y = count_list q' y + (if x = y then 1 else 0)"
proof -
  assume "bq_dequeue q = Some (x, q')"
  then have "q = q' @ [x]" by (auto simp: bq_dequeue_def split: if_splits)
  then show ?thesis by simp
qed

lemma count_removeAll: "count_list (removeAll x xs) y = (if x = y then 0 else count_list xs y)"
  by (induction xs) auto

end
