(* ===== verification/Gsup_Client.thy ===== *)
theory Gsup_Client
  imports Gsup_Messages Blocking_Queue Transition
begin

text \<open>
  The request machinery of \<open>gsup_client.c\<close>: the threads that make requests, the sender job
  (\<open>queue_worker\<close>) and the receiver (\<open>on_recv_pdu\<close>) share request objects through the
  in-queue and the list of pending requests.  Every thread is a program counter and one
  step is one atomic action: a lock operation, one operation on a queue (each queue has a
  mutex of its own, held only around that operation), or a purely local action.
  \<^const>\<open>Blocked\<close> means that the thread has to wait in this state; \<^const>\<open>UseAfterFree\<close> that it
  touches a request whose last reference is gone.  Timeouts and spurious wake-ups of
  \<open>timed_wait\<close> can happen at any time.
\<close>

section \<open>Data\<close>

datatype thread = Requester | Worker | Receiver

record gsup_request =
  rq_type :: msg_type
  rq_imsi :: cstring
  rq_msg :: "chunk option"
  rq_resp :: "gsup_msg option"
  rq_refcount :: nat
  rq_mutex :: "thread option"
  rq_lock :: "thread option"

text \<open>Where the thread that made a request is: in \<open>enqueue\<close> or in its caller.\<close>

datatype call_pc =
    C_none | C_created | C_queued | C_waiting | C_woken bool | C_relocked bool
  | C_timedout | C_unpend | C_exit bool | C_returned "gsup_msg option"

record caller =
  c_type :: msg_type
  c_imsi :: cstring
  c_pc :: call_pc

datatype worker_pc =
    W_idle | W_got nat | W_locked nat | W_failed nat | W_signal nat | W_put nat
  | W_add nat | W_unlock nat | W_ended

datatype receiver_pc = R_idle | R_signal nat gsup_msg | R_unlock nat | R_put nat

record gsup_state =
  reqs :: "nat \<Rightarrow> gsup_request option"
  callers :: "nat \<Rightarrow> caller"
  next_req :: nat
  inqueue :: "nat list"
  pending :: "nat list"
  worker :: worker_pc
  receiver :: receiver_pc
  sent :: "chunk option list"

definition gsup_init :: gsup_state where
  "gsup_init = \<lparr>reqs = (\<lambda>_. None), callers = (\<lambda>_. \<lparr>c_type = 0, c_imsi = [], c_pc = C_none\<rparr>),
     next_req = 0, inqueue = [], pending = [], worker = W_idle, receiver = R_idle, sent = []\<rparr>"

section \<open>Request objects\<close>

definition with_req :: "nat \<Rightarrow> gsup_state \<Rightarrow> (gsup_request \<Rightarrow> 'a res) \<Rightarrow> 'a res" where
  "with_req r s f = (case reqs s r of None \<Rightarrow> Inl UseAfterFree | Some q \<Rightarrow> f q)"

definition set_req :: "nat \<Rightarrow> gsup_request \<Rightarrow> gsup_state \<Rightarrow> gsup_state" where
  "set_req r q s = s\<lparr>reqs := (reqs s)(r \<mapsto> q)\<rparr>"

definition set_pc :: "nat \<Rightarrow> call_pc \<Rightarrow> gsup_state \<Rightarrow> gsup_state" where
  "set_pc r pc s = s\<lparr>callers := (callers s)(r := (callers s r)\<lparr>c_pc := pc\<rparr>)\<rparr>"

definition gsup_request_create :: "msg_type \<Rightarrow> cstring \<Rightarrow> chunk \<Rightarrow> gsup_state \<Rightarrow> gsup_state" where
  "gsup_request_create ty imsi msg s =
     (let r = next_req s in
      s\<lparr>reqs := (reqs s)(r \<mapsto> \<lparr>rq_type = ty, rq_imsi = imsi, rq_msg = Some msg, rq_resp = None,
          rq_refcount = 1, rq_mutex = None, rq_lock = None\<rparr>),
        callers := (callers s)(r := \<lparr>c_type = ty, c_imsi = imsi, c_pc = C_created\<rparr>),
        next_req := r + 1\<rparr>)"

definition gsup_request_get :: "nat \<Rightarrow> gsup_state \<Rightarrow> gsup_state res" where
  "gsup_request_get r s =
     with_req r s (\<lambda>q. Inr (set_req r (q\<lparr>rq_refcount := rq_refcount q + 1\<rparr>) s))"

definition gsup_request_destroy :: "nat \<Rightarrow> gsup_state \<Rightarrow> gsup_state" where
  "gsup_request_destroy r s = s\<lparr>reqs := (reqs s)(r := None)\<rparr>"

definition gsup_request_put :: "nat \<Rightarrow> gsup_state \<Rightarrow> gsup_state res" where
  "gsup_request_put r s =
     with_req r s (\<lambda>q. Inr (if rq_refcount q - 1 = 0 then gsup_request_destroy r s
                            else set_req r (q\<lparr>rq_refcount := rq_refcount q - 1\<rparr>) s))"

definition signal_request :: "nat \<Rightarrow> gsup_msg option \<Rightarrow> gsup_state \<Rightarrow> gsup_state res" where
  "signal_request r resp s =
     with_req r s (\<lambda>q.
       if rq_mutex q \<noteq> None then Inl Blocked
       else
         let s1 = set_req r (q\<lparr>rq_resp := resp\<rparr>) s in
         Inr (if c_pc (callers s r) = C_waiting then set_pc r (C_woken False) s1 else s1))"

section \<open>The list of pending requests\<close>

definition add_pending :: "nat \<Rightarrow> gsup_state \<Rightarrow> gsup_state" where
  "add_pending r s = s\<lparr>pending := pending s @ [r]\<rparr>"

definition remove_pending :: "nat \<Rightarrow> nat list \<Rightarrow> bool \<times> nat list" where
  "remove_pending r l = (r \<in> set l, remove1 r l)"

text \<open>
  \<open>strncmp (a, b, 15) = 0\<close> on C strings, and the request type of a response: the two low bits
  of a GSUP message type tell request, error and result apart.
\<close>

definition imsi_eq :: "cstring \<Rightarrow> cstring \<Rightarrow> bool" where
  "imsi_eq a b \<longleftrightarrow> take IMSI_LEN a = take IMSI_LEN b"

definition request_type :: "msg_type \<Rightarrow> msg_type" where
  "request_type t = t AND NOT 3"

fun get_pending :: "(nat \<Rightarrow> gsup_request option) \<Rightarrow> cstring \<Rightarrow> msg_type \<Rightarrow> nat list \<Rightarrow> (nat option \<times> nat list) res"
where
  "get_pending rs imsi ty [] = Inr (None, [])"
| "get_pending rs imsi ty (r # l) =
     (case rs r of
        None \<Rightarrow> Inl UseAfterFree
      | Some q \<Rightarrow>
          if imsi_eq imsi (rq_imsi q) \<and> rq_type q = request_type ty then Inr (Some r, l)
          else andThen (get_pending rs imsi ty l) (\<lambda>(x, l'). Inr (x, r # l')))"

section \<open>The requesting thread\<close>

text \<open>
  \<open>enqueue\<close> and what its callers do with the outcome.  Neither the mutex nor the lock of the
  request is released at the end.
\<close>

definition requester_step :: "nat \<Rightarrow> gsup_state \<Rightarrow> gsup_state res" where
  "requester_step r s =
     (case c_pc (callers s r) of
        C_created \<Rightarrow> with_req r s (\<lambda>q.
          if rq_mutex q \<noteq> None then Inl Blocked
          else andThen (gsup_request_get r (set_req r (q\<lparr>rq_mutex := Some Requester\<rparr>) s)) (\<lambda>s1.
            Inr (set_pc r C_queued (s1\<lparr>inqueue := bq_enqueue r (inqueue s1)\<rparr>))))
      | C_queued \<Rightarrow> with_req r s (\<lambda>q. Inr (set_pc r C_waiting (set_req r (q\<lparr>rq_mutex := None\<rparr>) s)))
      | C_woken ret \<Rightarrow> with_req r s (\<lambda>q.
          if rq_mutex q \<noteq> None then Inl Blocked
          else Inr (set_pc r (C_relocked ret) (set_req r (q\<lparr>rq_mutex := Some Requester\<rparr>) s)))
      | C_relocked ret \<Rightarrow> with_req r s (\<lambda>q.
          if rq_lock q \<noteq> None then Inl Blocked
          else Inr (set_pc r (if ret then C_timedout else C_exit False)
                 (set_req r (q\<lparr>rq_lock := Some Requester\<rparr>) s)))
      | C_timedout \<Rightarrow> (case bq_remove r (inqueue s) of
          (Some _, l) \<Rightarrow> andThen (gsup_request_put r (s\<lparr>inqueue := l\<rparr>)) (\<lambda>s1. Inr (set_pc r (C_exit True) s1))
        | (None, l) \<Rightarrow> Inr (set_pc r C_unpend (s\<lparr>inqueue := l\<rparr>)))
      | C_unpend \<Rightarrow> (case remove_pending r (pending s) of
          (True, l) \<Rightarrow> andThen (gsup_request_put r (s\<lparr>pending := l\<rparr>)) (\<lambda>s1. Inr (set_pc r (C_exit True) s1))
        | (False, l) \<Rightarrow> Inr (set_pc r (C_exit True) (s\<lparr>pending := l\<rparr>)))
      | C_exit ret \<Rightarrow>
          if ret then andThen (gsup_request_put r s) (\<lambda>s1. Inr (set_pc r (C_returned None) s1))
          else with_req r s (\<lambda>q.
            andThen (gsup_request_put r (set_req r (q\<lparr>rq_resp := None\<rparr>) s)) (\<lambda>s1.
              Inr (set_pc r (C_returned (rq_resp q)) s1)))
      | _ \<Rightarrow> Inl Blocked)"

text \<open>The wait ends by itself: with a timeout, or spuriously.\<close>

definition wakeup :: "nat \<Rightarrow> bool \<Rightarrow> gsup_state \<Rightarrow> gsup_state res" where
  "wakeup r timedout s =
     (if c_pc (callers s r) = C_waiting then Inr (set_pc r (C_woken timedout) s) else Inl Blocked)"

section \<open>The sender job\<close>

text \<open>
  \<open>queue_worker\<close> is requeued as long as it answers \<open>JOB_REQUEUE_FAIR\<close>; after \<open>JOB_REQUEUE_NONE\<close>
  (\<open>W_ended\<close>) it never runs again.  \<open>ok\<close> is the outcome of the IPA client's \<open>send\<close>.
\<close>

definition queue_worker :: "bool \<Rightarrow> gsup_state \<Rightarrow> gsup_state res" where
  "queue_worker ok s =
     (case worker s of
        W_idle \<Rightarrow> (case bq_dequeue (inqueue s) of
            None \<Rightarrow> Inl Blocked
          | Some (r, l) \<Rightarrow> Inr (s\<lparr>inqueue := l, worker := W_got r\<rparr>))
      | W_got r \<Rightarrow> with_req r s (\<lambda>q.
          if rq_lock q \<noteq> None then andThen (gsup_request_put r s) (\<lambda>s1. Inr (s1\<lparr>worker := W_ended\<rparr>))
          else Inr ((set_req r (q\<lparr>rq_lock := Some Worker\<rparr>) s)\<lparr>worker := W_locked r\<rparr>))
      | W_locked r \<Rightarrow> with_req r s (\<lambda>q.
          Inr ((set_req r (q\<lparr>rq_msg := None\<rparr>) s)
            \<lparr>sent := sent s @ [rq_msg q], worker := (if ok then W_add r else W_failed r)\<rparr>))
      | W_failed r \<Rightarrow> with_req r s (\<lambda>q. Inr ((set_req r (q\<lparr>rq_lock := None\<rparr>) s)\<lparr>worker := W_signal r\<rparr>))
      | W_signal r \<Rightarrow> andThen (signal_request r None s) (\<lambda>s1. Inr (s1\<lparr>worker := W_put r\<rparr>))
      | W_put r \<Rightarrow> andThen (gsup_request_put r s) (\<lambda>s1. Inr (s1\<lparr>worker := W_idle\<rparr>))
      | W_add r \<Rightarrow> Inr ((add_pending r s)\<lparr>worker := W_unlock r\<rparr>)
      | W_unlock r \<Rightarrow> with_req r s (\<lambda>q. Inr ((set_req r (q\<lparr>rq_lock := None\<rparr>) s)\<lparr>worker := W_idle\<rparr>))
      | W_ended \<Rightarrow> Inl Blocked)"

section \<open>The receiver\<close>

definition response_types :: "gsup_consts \<Rightarrow> msg_type list" where
  "response_types K = [SEND_AUTH_INFO_ERROR K, SEND_AUTH_INFO_RESULT K, UPDATE_LOCATION_ERROR K,
     UPDATE_LOCATION_RESULT K, EPDG_TUNNEL_ERROR K, EPDG_TUNNEL_RESULT K]"

text \<open>The section under \<open>pending_mutex\<close>: find the request and try to take its lock.\<close>

definition match_response :: "gsup_msg \<Rightarrow> gsup_state \<Rightarrow> gsup_state res" where
  "match_response m s =
     andThen (get_pending (reqs s) (gsup_imsi m) (message_type m) (pending s)) (\<lambda>(x, l).
       case x of
         None \<Rightarrow> Inr (s\<lparr>pending := l\<rparr>)
       | Some r \<Rightarrow> with_req r s (\<lambda>q.
           if rq_lock q \<noteq> None then gsup_request_put r (s\<lparr>pending := l\<rparr>)
           else Inr ((set_req r (q\<lparr>rq_lock := Some Receiver\<rparr>) s)\<lparr>pending := l, receiver := R_signal r m\<rparr>)))"

definition on_recv_pdu ::
  "gsup_consts \<Rightarrow> (gsup_msg \<Rightarrow> chunk option) \<Rightarrow> (chunk \<Rightarrow> gsup_msg option) \<Rightarrow> chunk \<Rightarrow> gsup_state \<Rightarrow> gsup_state res"
where
  "on_recv_pdu K enc dec pdu s =
     (case receiver s of
        R_idle \<Rightarrow> (case dec pdu of
            None \<Rightarrow> Inr s
          | Some m \<Rightarrow>
              if message_type m = INSERT_DATA_REQUEST K then
                (case tx_insert_data_result K enc (gsup_imsi m) (cn_domain m) of
                   None \<Rightarrow> Inr s
                 | Some x \<Rightarrow> Inr (s\<lparr>sent := sent s @ [x]\<rparr>))
              else if message_type m \<in> set (response_types K) then match_response m s
              else Inr s)
      | R_signal r m \<Rightarrow> andThen (signal_request r (Some m) s) (\<lambda>s1. Inr (s1\<lparr>receiver := R_unlock r\<rparr>))
      | R_unlock r \<Rightarrow> with_req r s (\<lambda>q. Inr ((set_req r (q\<lparr>rq_lock := None\<rparr>) s)\<lparr>receiver := R_put r\<rparr>))
      | R_put r \<Rightarrow> andThen (gsup_request_put r s) (\<lambda>s1. Inr (s1\<lparr>receiver := R_idle\<rparr>)))"

section \<open>Interleaving\<close>

datatype gsup_action =
    A_call msg_type cstring chunk | A_requester nat | A_wakeup nat bool | A_worker bool | A_receiver chunk

definition gsup_exec ::
  "gsup_consts \<Rightarrow> (gsup_msg \<Rightarrow> chunk option) \<Rightarrow> (chunk \<Rightarrow> gsup_msg option) \<Rightarrow> gsup_action \<Rightarrow> gsup_state
    \<Rightarrow> gsup_state res" where
  "gsup_exec K enc dec a s =
     (case a of
        A_call ty imsi msg \<Rightarrow> Inr (gsup_request_create ty imsi msg s)
      | A_requester r \<Rightarrow> requester_step r s
      | A_wakeup r timedout \<Rightarrow> wakeup r timedout s
      | A_worker ok \<Rightarrow> queue_worker ok s
      | A_receiver pdu \<Rightarrow> on_recv_pdu K enc dec pdu s)"

fun gsup_run ::
  "gsup_consts \<Rightarrow> (gsup_msg \<Rightarrow> chunk option) \<Rightarrow> (chunk \<Rightarrow> gsup_msg option) \<Rightarrow> gsup_action list \<Rightarrow> gsup_state
    \<Rightarrow> gsup_state res" where
  "gsup_run K enc dec [] s = Inr s"
| "gsup_run K enc dec (a # as) s = andThen (gsup_exec K enc dec a s) (gsup_run K enc dec as)"

section \<open>Invariant\<close>

text \<open>
  References to a request besides its caller's: one per occurrence in a queue, one in the
  hands of the worker or the receiver.  While the worker is in \<open>W_unlock\<close> it has given its
  reference to the pending list and still uses the lock.
\<close>

fun wrefs :: "worker_pc \<Rightarrow> nat option" where
  "wrefs (W_got r) = Some r" | "wrefs (W_locked r) = Some r" | "wrefs (W_failed r) = Some r"
| "wrefs (W_signal r) = Some r" | "wrefs (W_put r) = Some r" | "wrefs (W_add r) = Some r"
| "wrefs _ = None"

fun wlocks :: "worker_pc \<Rightarrow> nat option" where
  "wlocks (W_locked r) = Some r" | "wlocks (W_failed r) = Some r" | "wlocks (W_add r) = Some r"
| "wlocks (W_unlock r) = Some r" | "wlocks _ = None"

fun rrefs :: "receiver_pc \<Rightarrow> nat option" where
  "rrefs R_idle = None" | "rrefs (R_signal r m) = Some r" | "rrefs (R_unlock r) = Some r"
| "rrefs (R_put r) = Some r"

fun rlocks :: "receiver_pc \<Rightarrow> nat option" where
  "rlocks (R_signal r m) = Some r" | "rlocks (R_unlock r) = Some r" | "rlocks _ = None"

definition one :: "nat option \<Rightarrow> nat \<Rightarrow> nat" where
  "one x r = (if x = Some r then 1 else 0)"

definition qrefs :: "gsup_state \<Rightarrow> nat \<Rightarrow> nat" where
  "qrefs s r = count_list (inqueue s) r + count_list (pending s) r + one (wrefs (worker s)) r
     + one (rrefs (receiver s)) r"

text \<open>The caller still owns its reference; the caller owns the lock.\<close>

fun live :: "call_pc \<Rightarrow> bool" where
  "live C_none = False" | "live (C_returned x) = False" | "live _ = True"

fun owner :: "call_pc \<Rightarrow> bool" where
  "owner C_timedout = True" | "owner C_unpend = True" | "owner (C_exit b) = True"
| "owner (C_returned x) = True" | "owner _ = False"

definition matches :: "caller \<Rightarrow> gsup_msg \<Rightarrow> bool" where
  "matches c m \<longleftrightarrow> imsi_eq (gsup_imsi m) (c_imsi c) \<and> request_type (message_type m) = c_type c"

definition req_inv :: "gsup_request option \<Rightarrow> caller \<Rightarrow> nat \<Rightarrow> bool \<Rightarrow> bool \<Rightarrow> bool" where
  "req_inv x c n wl rl \<longleftrightarrow> n \<le> 1 \<and> (c_pc c = C_created \<longrightarrow> n = 0)
     \<and> (\<forall>m. c_pc c = C_returned (Some m) \<longrightarrow> matches c m)
     \<and> (case x of
          None \<Rightarrow> n = 0 \<and> \<not> live (c_pc c) \<and> \<not> wl \<and> \<not> rl
        | Some q \<Rightarrow> rq_refcount q = n + (if live (c_pc c) then 1 else 0) \<and> 0 < rq_refcount q
            \<and> c_pc c \<noteq> C_none \<and> (owner (c_pc c) \<longrightarrow> rq_lock q = Some Requester)
            \<and> (wl \<longrightarrow> rq_lock q = Some Worker) \<and> (rl \<longrightarrow> rq_lock q = Some Receiver)
            \<and> rq_type q = c_type c \<and> rq_imsi q = c_imsi c
            \<and> (\<forall>m. rq_resp q = Some m \<longrightarrow> matches c m))"

definition req_ok :: "gsup_state \<Rightarrow> nat \<Rightarrow> bool" where
  "req_ok s r = req_inv (reqs s r) (callers s r) (qrefs s r)
     (wlocks (worker s) = Some r) (rlocks (receiver s) = Some r)"

definition gsup_inv :: "gsup_state \<Rightarrow> bool" where
  "gsup_inv s \<longleftrightarrow> (\<forall>r \<ge> next_req s. c_pc (callers s r) = C_none) \<and> (\<forall>r. req_ok s r)
     \<and> (\<forall>r m. receiver s = R_signal r m \<longrightarrow> matches (callers s r) m)"

text \<open>What a step changes: one request, seen through this tuple.\<close>

definition view :: "gsup_state \<Rightarrow> nat \<Rightarrow> gsup_request option \<times> caller \<times> nat \<times> bool \<times> bool" where
  "view s r = (reqs s r, callers s r, qrefs s r, wlocks (worker s) = Some r, rlocks (receiver s) = Some r)"

lemma gsup_inv_local:
  assumes inv: "gsup_inv s" and r: "req_ok s' r" and nxt: "next_req s' = next_req s"
    and frame: "\<And>q. q \<noteq> r \<Longrightarrow> view s' q = view s q"
    and pc: "c_pc (callers s r) \<noteq> C_none"
    and rcv: "\<And>q m. receiver s' = R_signal q m \<Longrightarrow> matches (callers s' q) m"
  shows "gsup_inv s'"
proof -
  have "req_ok s' q" for q
    using r inv frame [of q] by (cases "q = r") (auto simp: req_ok_def gsup_inv_def view_def)
  moreover have "c_pc (callers s' q) = C_none" if "next_req s \<le> q" for q
    using inv frame [of q] pc that by (cases "q = r") (auto simp: gsup_inv_def view_def)
  ultimately show ?thesis using rcv nxt by (simp add: gsup_inv_def)
qed

lemma gsup_invD: "gsup_inv s \<Longrightarrow> req_ok s r"
  by (simp add: gsup_inv_def)

lemma gsup_inv_receiver: "gsup_inv s \<Longrightarrow> receiver s = R_signal r m \<Longrightarrow> matches (callers s r) m"
  by (simp add: gsup_inv_def)

lemma matches_pc [simp]: "matches (c\<lparr>c_pc := x\<rparr>) = matches c"
  by (simp add: matches_def fun_eq_iff)

text \<open>A request that somebody refers to exists, and its caller has been there.\<close>

lemma req_ok_cases:
  assumes "req_ok s r"
  obtains "reqs s r = None" "qrefs s r = 0" "\<not> live (c_pc (callers s r))"
    "wlocks (worker s) \<noteq> Some r" "rlocks (receiver s) \<noteq> Some r"
  | q where "reqs s r = Some q" "c_pc (callers s r) \<noteq> C_none"
    "rq_refcount q = qrefs s r + (if live (c_pc (callers s r)) then 1 else 0)" "0 < rq_refcount q"
  using assms by (auto simp: req_ok_def req_inv_def split: option.splits)

lemma used_alive:
  assumes "gsup_inv s"
    and "0 < qrefs s r \<or> live (c_pc (callers s r)) \<or> wlocks (worker s) = Some r \<or> rlocks (receiver s) = Some r"
  shows "\<exists>q. reqs s r = Some q \<and> c_pc (callers s r) \<noteq> C_none"
  using gsup_invD [OF assms(1), of r] assms(2) by (cases rule: req_ok_cases) auto

lemmas gsup_defs = set_req_def set_pc_def gsup_request_destroy_def add_pending_def

lemma gsup_step_local:
  assumes inv: "gsup_inv s" and "req_ok s' r" and "next_req s' = next_req s"
    and frame: "\<And>q. q \<noteq> r \<Longrightarrow> view s' q = view s q"
    and "c_pc (callers s r) \<noteq> C_none" and rcv: "receiver s' = receiver s"
    and c: "c_type (callers s' r) = c_type (callers s r)" "c_imsi (callers s' r) = c_imsi (callers s r)"
  shows "gsup_inv s'"
proof (rule gsup_inv_local [OF assms(1-5)])
  fix q m assume "receiver s' = R_signal q m"
  then have "matches (callers s q) m" using rcv gsup_inv_receiver [OF inv] by simp
  then show "matches (callers s' q) m"
    using c frame [of q] by (cases "q = r") (auto simp: matches_def view_def)
qed simp_all

lemma put_cases:
  assumes "gsup_request_put r s = Inr s'"
  obtains q where "reqs s r = Some q"
    "s' = s\<lparr>reqs := (reqs s)(r := if rq_refcount q - 1 = 0 then None
        else Some (q\<lparr>rq_refcount := rq_refcount q - 1\<rparr>))\<rparr>"
  using assms by (cases "reqs s r")
    (auto simp: gsup_request_put_def with_req_def gsup_defs split: if_splits)

lemma req_inv_Some:
  "req_inv (Some q) c n wl rl \<longleftrightarrow> n \<le> 1 \<and> (c_pc c = C_created \<longrightarrow> n = 0)
     \<and> (\<forall>m. c_pc c = C_returned (Some m) \<longrightarrow> matches c m)
     \<and> rq_refcount q = n + (if live (c_pc c) then 1 else 0) \<and> 0 < rq_refcount q
     \<and> c_pc c \<noteq> C_none \<and> (owner (c_pc c) \<longrightarrow> rq_lock q = Some Requester)
     \<and> (wl \<longrightarrow> rq_lock q = Some Worker) \<and> (rl \<longrightarrow> rq_lock q = Some Receiver)
     \<and> rq_type q = c_type c \<and> rq_imsi q = c_imsi c
     \<and> (\<forall>m. rq_resp q = Some m \<longrightarrow> matches c m)"
  by (simp add: req_inv_def)

lemma req_inv_None:
  "req_inv None c n wl rl \<longleftrightarrow> n = 0 \<and> \<not> live (c_pc c) \<and> \<not> wl \<and> \<not> rl
     \<and> (\<forall>m. c_pc c = C_returned (Some m) \<longrightarrow> matches c m)"
  by (auto simp: req_inv_def)

lemmas view_simps = view_def qrefs_def one_def gsup_defs
lemmas ok_simps = req_ok_def req_inv_Some req_inv_None

lemma count_remove1: "count_list (remove1 x xs) y = count_list xs y - (if x = y then 1 else 0)"
  by (induction xs) auto

lemma requester_alive:
  assumes inv: "gsup_inv s" and step: "requester_step r s = Inr s'"
  obtains q where "reqs s r = Some q" "c_pc (callers s r) \<noteq> C_none" "live (c_pc (callers s r))"
    "req_inv (Some q) (callers s r) (qrefs s r) (wlocks (worker s) = Some r) (rlocks (receiver s) = Some r)"
proof -
  have "live (c_pc (callers s r))" using step by (cases "c_pc (callers s r)") (auto simp: requester_step_def)
  then show ?thesis using used_alive [OF inv, of r] gsup_invD [OF inv, of r] that by (auto simp: req_ok_def)
qed

lemma requester_inv:
  assumes inv: "gsup_inv s" and step: "requester_step r s = Inr s'"
  shows "gsup_inv s'"
proof -
  obtain q where q: "reqs s r = Some q" and pc: "c_pc (callers s r) \<noteq> C_none"
    and ok: "req_inv (Some q) (callers s r) (qrefs s r) (wlocks (worker s) = Some r) (rlocks (receiver s) = Some r)"
    using requester_alive [OF inv step] by blast
  note defs = requester_step_def with_req_def gsup_request_get_def q gsup_defs
  show ?thesis
  proof (cases "c_pc (callers s r)")
    case C_created
    then have s': "s' = s\<lparr>reqs := (reqs s)(r \<mapsto> q\<lparr>rq_mutex := Some Requester, rq_refcount := rq_refcount q + 1\<rparr>),
        inqueue := r # inqueue s, callers := (callers s)(r := (callers s r)\<lparr>c_pc := C_queued\<rparr>)\<rparr>"
      using step by (simp add: defs bq_enqueue_def split: if_splits)
    show ?thesis unfolding s'
      by (rule gsup_step_local [OF inv, of _ r])
        (use pc ok C_created in \<open>simp_all add: view_simps ok_simps\<close>)
  next
    case C_queued
    then have s': "s' = s\<lparr>reqs := (reqs s)(r \<mapsto> q\<lparr>rq_mutex := None\<rparr>),
        callers := (callers s)(r := (callers s r)\<lparr>c_pc := C_waiting\<rparr>)\<rparr>"
      using step by (simp add: defs split: if_splits)
    show ?thesis unfolding s'
      by (rule gsup_step_local [OF inv, of _ r])
        (use pc ok C_queued in \<open>simp_all add: view_simps ok_simps\<close>)
  next
    case (C_woken b)
    then have s': "s' = s\<lparr>reqs := (reqs s)(r \<mapsto> q\<lparr>rq_mutex := Some Requester\<rparr>),
        callers := (callers s)(r := (callers s r)\<lparr>c_pc := C_relocked b\<rparr>)\<rparr>"
      using step by (simp add: defs split: if_splits)
    show ?thesis unfolding s'
      by (rule gsup_step_local [OF inv, of _ r])
        (use pc ok C_woken in \<open>simp_all add: view_simps ok_simps\<close>)
  next
    case (C_relocked b)
    then have s': "rq_lock q = None" "s' = s\<lparr>reqs := (reqs s)(r \<mapsto> q\<lparr>rq_lock := Some Requester\<rparr>),
        callers := (callers s)(r := (callers s r)\<lparr>c_pc := if b then C_timedout else C_exit False\<rparr>)\<rparr>"
      using step by (simp_all add: defs split: if_splits)
    show ?thesis unfolding s'(2)
      by (rule gsup_step_local [OF inv, of _ r])
        (use pc ok C_relocked s'(1) in \<open>simp_all add: view_simps ok_simps\<close>)
  next
    case C_timedout
    show ?thesis
    proof (cases "count_list (inqueue s) r = 0")
      case True
      then have s': "s' = s\<lparr>inqueue := removeAll r (inqueue s),
          callers := (callers s)(r := (callers s r)\<lparr>c_pc := C_unpend\<rparr>)\<rparr>"
        using step C_timedout by (simp add: defs bq_remove_def split: if_splits)
      show ?thesis unfolding s'
        by (rule gsup_step_local [OF inv, of _ r])
          (use pc ok C_timedout True q in \<open>auto simp: view_simps ok_simps count_removeAll\<close>)
    next
      case False
      then have n: "rq_refcount q = 2" "count_list (inqueue s) r = 1"
        using C_timedout ok by (auto simp: req_inv_Some qrefs_def)
      then have s': "s' = s\<lparr>inqueue := removeAll r (inqueue s), reqs := (reqs s)(r \<mapsto> q\<lparr>rq_refcount := 1\<rparr>),
          callers := (callers s)(r := (callers s r)\<lparr>c_pc := C_exit True\<rparr>)\<rparr>"
        using step C_timedout by (simp add: defs bq_remove_def gsup_request_put_def)
      show ?thesis unfolding s'
        by (rule gsup_step_local [OF inv, of _ r])
          (use pc ok C_timedout n q in \<open>auto simp: view_simps ok_simps count_removeAll\<close>)
    qed
  next
    case C_unpend
    show ?thesis
    proof (cases "r \<in> set (pending s)")
      case False
      then have s': "s' = s\<lparr>pending := remove1 r (pending s),
          callers := (callers s)(r := (callers s r)\<lparr>c_pc := C_exit True\<rparr>)\<rparr>"
        using step C_unpend by (simp add: defs remove_pending_def)
      show ?thesis unfolding s'
        by (rule gsup_step_local [OF inv, of _ r])
          (use pc ok C_unpend False q in \<open>auto simp: view_simps ok_simps remove1_idem\<close>)
    next
      case True
      then have "count_list (pending s) r \<noteq> 0" by (simp add: count_list_0_iff)
      then have n: "rq_refcount q = 2" "count_list (pending s) r = 1"
        using C_unpend ok by (auto simp: req_inv_Some qrefs_def)
      then have s': "s' = s\<lparr>pending := remove1 r (pending s), reqs := (reqs s)(r \<mapsto> q\<lparr>rq_refcount := 1\<rparr>),
          callers := (callers s)(r := (callers s r)\<lparr>c_pc := C_exit True\<rparr>)\<rparr>"
        using step C_unpend True by (simp add: defs remove_pending_def gsup_request_put_def)
      show ?thesis unfolding s'
        by (rule gsup_step_local [OF inv, of _ r])
          (use pc ok C_unpend n q in \<open>auto simp: view_simps ok_simps count_remove1\<close>)
    qed
  next
    case (C_exit b)
    let ?q = "if b then q else q\<lparr>rq_resp := None\<rparr>" and ?x = "if b then None else rq_resp q"
    have s': "s' = s\<lparr>reqs := (reqs s)(r := if qrefs s r = 0 then None else Some (?q\<lparr>rq_refcount := qrefs s r\<rparr>)),
        callers := (callers s)(r := (callers s r)\<lparr>c_pc := C_returned ?x\<rparr>)\<rparr>"
      using step C_exit ok by (cases b) (simp_all add: defs gsup_request_put_def req_inv_Some split: if_splits)
    show ?thesis unfolding s'
      by (rule gsup_step_local [OF inv, of _ r])
        (use pc ok C_exit q in \<open>auto simp add: view_simps ok_simps split: if_splits\<close>)
  qed (use step in \<open>simp_all add: requester_step_def\<close>)
qed

text \<open>Giving back the reference of a queue, of the worker or of the receiver.\<close>

lemma live_or_owner: "pc \<noteq> C_none \<Longrightarrow> live pc \<or> owner pc"
  by (cases pc) auto

lemma req_inv_put:
  assumes "req_inv (Some q) c (Suc n) wl rl" and "wl' \<longrightarrow> wl" and "rl' \<longrightarrow> rl"
  shows "req_inv (if rq_refcount q - 1 = 0 then None else Some (q\<lparr>rq_refcount := rq_refcount q - 1\<rparr>)) c n wl' rl'"
  using assms live_or_owner [of "c_pc c"] by (cases "live (c_pc c)") (auto simp: req_inv_Some req_inv_None)

lemma put_step_inv:
  assumes inv: "gsup_inv s" and put: "gsup_request_put r s1 = Inr s2"
    and same: "reqs s1 = reqs s" "callers s1 = callers s"
    and s': "reqs s' = reqs s2" "callers s' = callers s" "next_req s' = next_req s"
    and q: "qrefs s r = Suc (qrefs s' r)"
    and locks: "wlocks (worker s') = Some r \<longrightarrow> wlocks (worker s) = Some r"
      "rlocks (receiver s') = Some r \<longrightarrow> rlocks (receiver s) = Some r"
    and frame: "\<And>p. p \<noteq> r \<Longrightarrow> qrefs s' p = qrefs s p
      \<and> (wlocks (worker s') = Some p \<longleftrightarrow> wlocks (worker s) = Some p)
      \<and> (rlocks (receiver s') = Some p \<longleftrightarrow> rlocks (receiver s) = Some p)"
    and rcv: "\<And>p m. receiver s' = R_signal p m \<Longrightarrow> receiver s = R_signal p m"
  shows "gsup_inv s'"
proof -
  obtain x where x: "reqs s r = Some x"
    "reqs s2 = (reqs s)(r := if rq_refcount x - 1 = 0 then None else Some (x\<lparr>rq_refcount := rq_refcount x - 1\<rparr>))"
    by (rule put_cases [OF put]) (use same that in simp)
  have ok: "req_inv (Some x) (callers s r) (Suc (qrefs s' r)) (wlocks (worker s) = Some r) (rlocks (receiver s) = Some r)"
    using gsup_invD [OF inv, of r] x q by (simp add: req_ok_def)
  have "req_ok s' r" using req_inv_put [OF ok locks] x s' by (simp add: req_ok_def)
  moreover have "c_pc (callers s r) \<noteq> C_none" using ok by (simp add: req_inv_Some)
  moreover have "view s' p = view s p" if "p \<noteq> r" for p
    using frame [OF that] x s' that by (simp add: view_def)
  ultimately show ?thesis
    using gsup_inv_local [OF inv, of s' r] s' rcv gsup_inv_receiver [OF inv] by auto
qed

lemma signal_cases:
  assumes "signal_request r resp s = Inr s'"
  obtains q where "reqs s r = Some q" "rq_mutex q = None"
    "s' = s\<lparr>reqs := (reqs s)(r \<mapsto> q\<lparr>rq_resp := resp\<rparr>),
        callers := (callers s)(r := (callers s r)\<lparr>c_pc := if c_pc (callers s r) = C_waiting
          then C_woken False else c_pc (callers s r)\<rparr>)\<rparr>"
  using assms by (cases "reqs s r") (auto simp: signal_request_def with_req_def Let_def gsup_defs split: if_splits)

lemma with_req_Inr: "with_req r s f = Inr x \<longleftrightarrow> (\<exists>q. reqs s r = Some q \<and> f q = Inr x)"
  by (auto simp: with_req_def split: option.splits)

lemma wrefs_alive:
  assumes "gsup_inv s" and "wrefs (worker s) = Some r \<or> wlocks (worker s) = Some r"
  obtains q where "reqs s r = Some q" "c_pc (callers s r) \<noteq> C_none"
    "req_inv (Some q) (callers s r) (qrefs s r) (wlocks (worker s) = Some r) (rlocks (receiver s) = Some r)"
proof -
  have "0 < qrefs s r \<or> wlocks (worker s) = Some r" using assms(2) by (auto simp: qrefs_def one_def)
  then show ?thesis using that used_alive [OF assms(1), of r] gsup_invD [OF assms(1), of r] by (auto simp: req_ok_def)
qed

lemma worker_inv:
  assumes inv: "gsup_inv s" and step: "queue_worker b s = Inr s'"
  shows "gsup_inv s'"
proof (cases "worker s")
  case W_idle
  then obtain r l where d: "bq_dequeue (inqueue s) = Some (r, l)" and s': "s' = s\<lparr>inqueue := l, worker := W_got r\<rparr>"
    using step by (auto simp: queue_worker_def split: option.splits)
  have "qrefs s' p = qrefs s p" for p using bq_dequeue_count [OF d, of p] W_idle s' by (simp add: qrefs_def one_def)
  then have "view s' p = view s p" for p using s' W_idle by (simp add: view_def)
  then have "req_ok s' p" for p using gsup_invD [OF inv, of p] by (simp add: req_ok_def view_def)
  then show ?thesis using inv s' by (simp add: gsup_inv_def)
next
  case (W_got r)
  obtain q where q: "reqs s r = Some q" and pc: "c_pc (callers s r) \<noteq> C_none"
    and ok: "req_inv (Some q) (callers s r) (qrefs s r) (wlocks (worker s) = Some r) (rlocks (receiver s) = Some r)"
    using wrefs_alive [OF inv, of r] W_got by auto
  show ?thesis
  proof (cases "rq_lock q")
    case None
    then have s': "s' = s\<lparr>reqs := (reqs s)(r \<mapsto> q\<lparr>rq_lock := Some Worker\<rparr>), worker := W_locked r\<rparr>"
      using step W_got q by (simp add: queue_worker_def with_req_def gsup_defs)
    show ?thesis unfolding s'
      by (rule gsup_step_local [OF inv, of _ r])
        (use pc ok q W_got None in \<open>auto simp: view_simps ok_simps\<close>)
  next
    case (Some t)
    then obtain s1 where s1: "gsup_request_put r s = Inr s1" "s' = s1\<lparr>worker := W_ended\<rparr>"
      using step W_got q by (auto simp: queue_worker_def with_req_def andThen_Inr_iff)
    then show ?thesis
      by (intro put_step_inv [OF inv s1(1)]) (auto simp: W_got qrefs_def one_def elim!: put_cases)
  qed
next
  case (W_locked r)
  then obtain q where q: "reqs s r = Some q" and pc: "c_pc (callers s r) \<noteq> C_none"
    and ok: "req_inv (Some q) (callers s r) (qrefs s r) (wlocks (worker s) = Some r) (rlocks (receiver s) = Some r)"
    using wrefs_alive [OF inv, of r] by auto
  have s': "s' = s\<lparr>reqs := (reqs s)(r \<mapsto> q\<lparr>rq_msg := None\<rparr>), sent := sent s @ [rq_msg q],
      worker := if b then W_add r else W_failed r\<rparr>"
    using step W_locked q by (simp add: queue_worker_def with_req_def gsup_defs)
  show ?thesis unfolding s'
    by (rule gsup_step_local [OF inv, of _ r])
      (use pc ok q W_locked in \<open>auto simp: view_simps ok_simps\<close>)
next
  case (W_failed r)
  then obtain q where q: "reqs s r = Some q" and pc: "c_pc (callers s r) \<noteq> C_none"
    and ok: "req_inv (Some q) (callers s r) (qrefs s r) (wlocks (worker s) = Some r) (rlocks (receiver s) = Some r)"
    using wrefs_alive [OF inv, of r] by auto
  have s': "s' = s\<lparr>reqs := (reqs s)(r \<mapsto> q\<lparr>rq_lock := None\<rparr>), worker := W_signal r\<rparr>"
    using step W_failed q by (simp add: queue_worker_def with_req_def gsup_defs)
  show ?thesis unfolding s'
    by (rule gsup_step_local [OF inv, of _ r])
      (use pc ok q W_failed in \<open>auto simp: view_simps ok_simps\<close>)
next
  case (W_unlock r)
  then obtain q where q: "reqs s r = Some q" and pc: "c_pc (callers s r) \<noteq> C_none"
    and ok: "req_inv (Some q) (callers s r) (qrefs s r) (wlocks (worker s) = Some r) (rlocks (receiver s) = Some r)"
    using wrefs_alive [OF inv, of r] by auto
  have s': "s' = s\<lparr>reqs := (reqs s)(r \<mapsto> q\<lparr>rq_lock := None\<rparr>), worker := W_idle\<rparr>"
    using step W_unlock q by (simp add: queue_worker_def with_req_def gsup_defs)
  show ?thesis unfolding s'
    by (rule gsup_step_local [OF inv, of _ r])
      (use pc ok q W_unlock in \<open>auto simp: view_simps ok_simps\<close>)
next
  case (W_signal r)
  then obtain s1 where s1: "signal_request r None s = Inr s1" "s' = s1\<lparr>worker := W_put r\<rparr>"
    using step by (auto simp: queue_worker_def andThen_Inr_iff)
  obtain q where q: "reqs s r = Some q" and pc: "c_pc (callers s r) \<noteq> C_none"
    and ok: "req_inv (Some q) (callers s r) (qrefs s r) (wlocks (worker s) = Some r) (rlocks (receiver s) = Some r)"
    using wrefs_alive [OF inv, of r] W_signal by auto
  show ?thesis using s1(1)
    by (rule signal_cases)
      (rule gsup_step_local [OF inv, of _ r];
        use pc ok q W_signal s1(2) in \<open>auto simp: view_simps ok_simps\<close>)
next
  case (W_put r)
  then obtain s1 where s1: "gsup_request_put r s = Inr s1" "s' = s1\<lparr>worker := W_idle\<rparr>"
    using step by (auto simp: queue_worker_def andThen_Inr_iff)
  then show ?thesis
    by (intro put_step_inv [OF inv s1(1)]) (auto simp: W_put qrefs_def one_def elim!: put_cases)
next
  case (W_add r)
  then obtain q where q: "reqs s r = Some q" and pc: "c_pc (callers s r) \<noteq> C_none"
    and ok: "req_inv (Some q) (callers s r) (qrefs s r) (wlocks (worker s) = Some r) (rlocks (receiver s) = Some r)"
    using wrefs_alive [OF inv, of r] by auto
  have s': "s' = s\<lparr>pending := pending s @ [r], worker := W_unlock r\<rparr>"
    using step W_add by (simp add: queue_worker_def gsup_defs)
  show ?thesis unfolding s'
    by (rule gsup_step_local [OF inv, of _ r])
      (use pc ok q W_add in \<open>auto simp: view_simps ok_simps\<close>)
next
  case W_ended
  then show ?thesis using step by (simp add: queue_worker_def)
qed

lemma get_pending_Some:
  "get_pending rs imsi ty l = Inr (Some r, l') \<Longrightarrow>
     (\<exists>q. rs r = Some q \<and> imsi_eq imsi (rq_imsi q) \<and> rq_type q = request_type ty)
     \<and> (\<forall>p. count_list l p = count_list l' p + (if p = r then 1 else 0))"
proof (induction l arbitrary: l')
  case (Cons a l)
  then show ?case by (auto simp: andThen_Inr_iff split: option.splits if_splits)
qed simp

lemma get_pending_None: "get_pending rs imsi ty l = Inr (None, l') \<Longrightarrow> l' = l"
  by (induction l arbitrary: l') (auto simp: andThen_Inr_iff split: option.splits if_splits)

lemma get_pending_alive:
  "(\<And>r. r \<in> set l \<Longrightarrow> rs r \<noteq> None) \<Longrightarrow> \<exists>x. get_pending rs imsi ty l = Inr x"
proof (induction l)
  case (Cons a l)
  then obtain x q where "get_pending rs imsi ty l = Inr x" "rs a = Some q" by fastforce
  then show ?case by (auto split: prod.split)
qed simp

lemma match_response_inv:
  assumes inv: "gsup_inv s" and idle: "receiver s = R_idle" and step: "match_response m s = Inr s'"
  shows "gsup_inv s'"
proof -
  obtain x l where g: "get_pending (reqs s) (gsup_imsi m) (message_type m) (pending s) = Inr (x, l)"
    using step by (auto simp: match_response_def andThen_Inr_iff)
  show ?thesis
  proof (cases x)
    case None
    then have "s' = s" using step g get_pending_None [of "reqs s"] by (auto simp: match_response_def)
    then show ?thesis using inv by simp
  next
    case (Some r)
    note gp = get_pending_Some [OF g [unfolded Some]]
    then obtain q where q: "reqs s r = Some q" "imsi_eq (gsup_imsi m) (rq_imsi q)"
      "rq_type q = request_type (message_type m)" by blast
    have n: "count_list (pending s) p = count_list l p + (if p = r then 1 else 0)" for p using gp by blast
    have ok: "req_inv (Some q) (callers s r) (qrefs s r) (wlocks (worker s) = Some r) (rlocks (receiver s) = Some r)"
      using gsup_invD [OF inv, of r] q by (simp add: req_ok_def)
    show ?thesis
    proof (cases "rq_lock q")
      case None
      then have s': "s' = s\<lparr>reqs := (reqs s)(r \<mapsto> q\<lparr>rq_lock := Some Receiver\<rparr>), pending := l, receiver := R_signal r m\<rparr>"
        using step g Some q by (simp add: match_response_def with_req_def gsup_defs)
      have "matches (callers s r) m" using ok q by (simp add: req_inv_Some matches_def)
      then show ?thesis unfolding s'
        by (intro gsup_inv_local [OF inv, of _ r])
          (use ok q n idle None in \<open>auto simp: view_simps ok_simps\<close>)
    next
      case (Some t)
      then have put: "gsup_request_put r (s\<lparr>pending := l\<rparr>) = Inr s'"
        using step g q \<open>x = Some r\<close> by (simp add: match_response_def with_req_def)
      show ?thesis
        by (rule put_step_inv [OF inv put])
          (use put n idle in \<open>auto simp: qrefs_def elim!: put_cases\<close>)
    qed
  qed
qed

lemma gsup_inv_sent: "gsup_inv (s\<lparr>sent := x\<rparr>) = gsup_inv s"
  by (simp add: gsup_inv_def req_ok_def qrefs_def)

lemma rrefs_alive:
  assumes "gsup_inv s" and "rrefs (receiver s) = Some r"
  obtains q where "reqs s r = Some q" "c_pc (callers s r) \<noteq> C_none"
    "req_inv (Some q) (callers s r) (qrefs s r) (wlocks (worker s) = Some r) (rlocks (receiver s) = Some r)"
proof -
  have "0 < qrefs s r" using assms(2) by (auto simp: qrefs_def one_def)
  then show ?thesis using that used_alive [OF assms(1), of r] gsup_invD [OF assms(1), of r] by (auto simp: req_ok_def)
qed

lemma receiver_inv:
  assumes inv: "gsup_inv s" and step: "on_recv_pdu K enc dec pdu s = Inr s'"
  shows "gsup_inv s'"
proof (cases "receiver s")
  case R_idle
  then show ?thesis using step inv match_response_inv [OF inv R_idle]
    by (auto simp: on_recv_pdu_def gsup_inv_sent split: option.splits if_splits)
next
  case (R_signal r m)
  then obtain s1 where s1: "signal_request r (Some m) s = Inr s1" "s' = s1\<lparr>receiver := R_unlock r\<rparr>"
    using step by (auto simp: on_recv_pdu_def andThen_Inr_iff)
  obtain q where q: "reqs s r = Some q" and pc: "c_pc (callers s r) \<noteq> C_none"
    and ok: "req_inv (Some q) (callers s r) (qrefs s r) (wlocks (worker s) = Some r) (rlocks (receiver s) = Some r)"
    using rrefs_alive [OF inv, of r] R_signal by auto
  have m: "matches (callers s r) m" by (rule gsup_inv_receiver [OF inv R_signal])
  show ?thesis using s1(1)
    by (rule signal_cases)
      (rule gsup_inv_local [OF inv, of _ r];
        use pc ok q m R_signal s1(2) in \<open>auto simp: view_simps ok_simps\<close>)
next
  case (R_unlock r)
  then obtain q where q: "reqs s r = Some q" and pc: "c_pc (callers s r) \<noteq> C_none"
    and ok: "req_inv (Some q) (callers s r) (qrefs s r) (wlocks (worker s) = Some r) (rlocks (receiver s) = Some r)"
    using rrefs_alive [OF inv, of r] by auto
  have s': "s' = s\<lparr>reqs := (reqs s)(r \<mapsto> q\<lparr>rq_lock := None\<rparr>), receiver := R_put r\<rparr>"
    using step R_unlock q by (simp add: on_recv_pdu_def with_req_def gsup_defs)
  show ?thesis unfolding s'
    by (rule gsup_inv_local [OF inv, of _ r])
      (use pc ok q R_unlock in \<open>auto simp: view_simps ok_simps\<close>)
next
  case (R_put r)
  then obtain s1 where s1: "gsup_request_put r s = Inr s1" "s' = s1\<lparr>receiver := R_idle\<rparr>"
    using step by (auto simp: on_recv_pdu_def andThen_Inr_iff)
  then show ?thesis
    by (intro put_step_inv [OF inv s1(1)]) (auto simp: R_put qrefs_def one_def elim!: put_cases)
qed

lemma wakeup_inv:
  assumes inv: "gsup_inv s" and step: "wakeup r b s = Inr s'"
  shows "gsup_inv s'"
proof -
  have pc: "c_pc (callers s r) = C_waiting" and s': "s' = s\<lparr>callers := (callers s)(r := (callers s r)\<lparr>c_pc := C_woken b\<rparr>)\<rparr>"
    using step by (auto simp: wakeup_def set_pc_def split: if_splits)
  obtain q where "reqs s r = Some q" using used_alive [OF inv, of r] pc by auto
  then show ?thesis unfolding s'
    by (intro gsup_step_local [OF inv, of _ r])
      (use pc gsup_invD [OF inv, of r] in \<open>simp_all add: view_simps ok_simps\<close>)
qed

lemma create_inv:
  assumes inv: "gsup_inv s"
  shows "gsup_inv (gsup_request_create ty imsi msg s)"
proof -
  let ?r = "next_req s" and ?s = "gsup_request_create ty imsi msg s"
  have pc: "c_pc (callers s ?r) = C_none" using inv by (simp add: gsup_inv_def)
  have n: "reqs s ?r = None" "qrefs s ?r = 0" "wlocks (worker s) \<noteq> Some ?r" "rlocks (receiver s) \<noteq> Some ?r"
    using gsup_invD [OF inv, of ?r] pc by (auto simp: req_ok_def req_inv_def split: option.splits)
  have "req_ok ?s p" for p
    using gsup_invD [OF inv, of p] n
    by (cases "p = ?r") (simp_all add: gsup_request_create_def Let_def ok_simps qrefs_def)
  moreover have "matches (callers ?s p) m" if "receiver ?s = R_signal p m" for p m
  proof -
    have "rlocks (receiver s) = Some p" using that by (simp add: gsup_request_create_def Let_def)
    then have "p \<noteq> ?r" using n by auto
    then show ?thesis using gsup_inv_receiver [OF inv, of p m] that by (simp add: gsup_request_create_def Let_def)
  qed
  ultimately show ?thesis using inv by (simp add: gsup_inv_def gsup_request_create_def Let_def)
qed

definition gsup_step ::
  "gsup_consts \<Rightarrow> (gsup_msg \<Rightarrow> chunk option) \<Rightarrow> (chunk \<Rightarrow> gsup_msg option) \<Rightarrow> gsup_state \<Rightarrow> gsup_state \<Rightarrow> bool" where
  "gsup_step K enc dec s s' \<longleftrightarrow> (\<exists>a. gsup_exec K enc dec a s = Inr s')"

lemma gsup_exec_inv: "gsup_inv s \<Longrightarrow> gsup_exec K enc dec a s = Inr s' \<Longrightarrow> gsup_inv s'"
  by (cases a) (auto simp: gsup_exec_def intro: create_inv requester_inv wakeup_inv worker_inv receiver_inv)

lemma gsup_init_inv: "gsup_inv gsup_init"
  by (simp add: gsup_inv_def gsup_init_def req_ok_def req_inv_None qrefs_def one_def)

interpretation gsup: inv_system "\<lambda>s. s = gsup_init" "gsup_step K enc dec" gsup_inv
  by unfold_locales (auto simp: gsup_step_def gsup_init_inv intro: gsup_exec_inv)

section \<open>No use after free\<close>

lemma put_ok: "reqs s r = Some q \<Longrightarrow> gsup_request_put r s \<noteq> Inl e"
  by (simp add: gsup_request_put_def with_req_def)

lemma andThen_UAF: "andThen m f = Inl e \<longleftrightarrow> m = Inl e \<or> (\<exists>x. m = Inr x \<and> f x = Inl e)"
  by (cases m) auto

lemma requester_safe:
  assumes inv: "gsup_inv s"
  shows "requester_step r s \<noteq> Inl UseAfterFree"
proof (cases "live (c_pc (callers s r))")
  case True
  then obtain q where "reqs s r = Some q" using used_alive [OF inv, of r] by auto
  then show ?thesis
    by (auto simp: requester_step_def with_req_def gsup_request_get_def gsup_request_put_def bq_remove_def
        remove_pending_def gsup_defs split: call_pc.split bool.split)
next
  case False
  then show ?thesis by (cases "c_pc (callers s r)") (auto simp: requester_step_def)
qed

lemma worker_safe:
  assumes inv: "gsup_inv s"
  shows "queue_worker ok s \<noteq> Inl UseAfterFree"
proof (cases "wrefs (worker s) = None \<and> wlocks (worker s) = None")
  case True
  then show ?thesis by (cases "worker s") (auto simp: queue_worker_def split: option.splits)
next
  case False
  then obtain r where "wrefs (worker s) = Some r \<or> wlocks (worker s) = Some r" by auto
  moreover obtain q where "reqs s r = Some q" by (rule wrefs_alive [OF inv calculation])
  ultimately show ?thesis
    by (cases "worker s")
      (auto simp: queue_worker_def with_req_def gsup_request_put_def signal_request_def Let_def)
qed

lemma pending_alive: "gsup_inv s \<Longrightarrow> r \<in> set (pending s) \<Longrightarrow> reqs s r \<noteq> None"
  using used_alive [of s r] count_list_0_iff [of "pending s" r] by (fastforce simp: qrefs_def)

lemma receiver_safe:
  assumes inv: "gsup_inv s"
  shows "on_recv_pdu K enc dec pdu s \<noteq> Inl UseAfterFree"
proof (cases "rrefs (receiver s)")
  case None
  have "match_response m s \<noteq> Inl UseAfterFree" for m
  proof -
    obtain x l where g: "get_pending (reqs s) (gsup_imsi m) (message_type m) (pending s) = Inr (x, l)"
      using get_pending_alive [of "pending s" "reqs s"] pending_alive [OF inv] by (metis surj_pair)
    show ?thesis
    proof (cases x)
      case None
      then show ?thesis using g by (simp add: match_response_def)
    next
      case (Some r)
      then obtain q where "reqs s r = Some q" using get_pending_Some [of "reqs s"] g by blast
      then show ?thesis using g Some by (simp add: match_response_def with_req_def gsup_request_put_def)
    qed
  qed
  then show ?thesis using None by (cases "receiver s") (auto simp: on_recv_pdu_def split: option.splits)
next
  case (Some r)
  moreover obtain q where "reqs s r = Some q" by (rule rrefs_alive [OF inv Some])
  ultimately show ?thesis
    by (cases "receiver s")
      (auto simp: on_recv_pdu_def with_req_def gsup_request_put_def signal_request_def Let_def)
qed

lemma gsup_exec_safe: "gsup_inv s \<Longrightarrow> gsup_exec K enc dec a s \<noteq> Inl UseAfterFree"
  using requester_safe worker_safe receiver_safe
  by (cases a) (auto simp: gsup_exec_def wakeup_def)

lemma gsup_run_reachable:
  "gsup_run K enc dec as s = Inr s' \<Longrightarrow> reachable (\<lambda>s. s = gsup_init) (gsup_step K enc dec) s \<Longrightarrow>
     reachable (\<lambda>s. s = gsup_init) (gsup_step K enc dec) s'"
proof (induction as arbitrary: s)
  case (Cons a as)
  then obtain s1 where "gsup_exec K enc dec a s = Inr s1" "gsup_run K enc dec as s1 = Inr s'"
    by (auto simp: andThen_Inr_iff)
  then show ?case using Cons reach_step [of _ _ s s1] by (auto simp: gsup_step_def)
qed simp

text \<open>A predicate kept by every action is kept by every run.\<close>

lemma gsup_run_keeps:
  assumes "\<And>a s s'. P s \<Longrightarrow> gsup_exec K enc dec a s = Inr s' \<Longrightarrow> P s'" and "P s"
    and "gsup_run K enc dec as s = Inr s'"
  shows "P s'"
  using assms(2,3) by (induction as arbitrary: s) (auto simp: andThen_Inr_iff intro: assms(1))

lemma reach_gsup_init: "reachable (\<lambda>s. s = gsup_init) (gsup_step K enc dec) gsup_init"
  by (rule reach_init) simp

section \<open>A complete exchange\<close>

lemma get_pending_append:
  assumes "\<forall>p \<in> set l. \<exists>q. rs p = Some q \<and> \<not> (imsi_eq imsi (rq_imsi q) \<and> rq_type q = request_type ty)"
    and "rs r = Some q" "imsi_eq imsi (rq_imsi q)" "rq_type q = request_type ty"
  shows "get_pending rs imsi ty (l @ [r]) = Inr (Some r, l)"
  using assms by (induction l) auto

definition exchange :: "msg_type \<Rightarrow> cstring \<Rightarrow> chunk \<Rightarrow> chunk \<Rightarrow> nat \<Rightarrow> gsup_action list" where
  "exchange ty imsi msg pdu r =
     [A_call ty imsi msg, A_requester r, A_requester r,
      A_worker True, A_worker True, A_worker True, A_worker True, A_worker True,
      A_receiver pdu, A_receiver pdu, A_receiver pdu, A_receiver pdu,
      A_requester r, A_requester r, A_requester r]"

lemma exchange_run:
  assumes inv: "gsup_inv s" and idle: "worker s = W_idle" "receiver s = R_idle" "inqueue s = []"
    and dec: "dec pdu = Some m" and ty: "message_type m \<in> set (response_types K)"
      "message_type m \<noteq> INSERT_DATA_REQUEST K"
    and match: "imsi_eq (gsup_imsi m) imsi" "request_type (message_type m) = ty"
    and other: "\<forall>p \<in> set (pending s). \<not> matches (callers s p) m"
  shows "\<exists>s'. gsup_run K enc dec (exchange ty imsi msg pdu (next_req s)) s = Inr s'
    \<and> c_pc (callers s' (next_req s)) = C_returned (Some m) \<and> reqs s' = reqs s
    \<and> inqueue s' = [] \<and> pending s' = pending s \<and> worker s' = W_idle \<and> receiver s' = R_idle
    \<and> sent s' = sent s @ [Some msg]"
proof -
  let ?r = "next_req s"
  have pc: "c_pc (callers s ?r) = C_none" using inv by (simp add: gsup_inv_def)
  have n: "reqs s ?r = None" "?r \<notin> set (pending s)"
    using gsup_invD [OF inv, of ?r] pc
    by (auto simp: req_ok_def req_inv_def qrefs_def count_list_0_iff split: option.splits)
  have al: "\<exists>q. reqs s p = Some q \<and> \<not> (imsi_eq (gsup_imsi m) (rq_imsi q) \<and> rq_type q = request_type (message_type m))"
    if "p \<in> set (pending s)" for p
  proof -
    have "reqs s p \<noteq> None" by (rule pending_alive [OF inv that])
    then obtain q where q: "reqs s p = Some q" by auto
    then have "rq_type q = c_type (callers s p)" "rq_imsi q = c_imsi (callers s p)"
      using gsup_invD [OF inv, of p] by (simp_all add: ok_simps)
    moreover have "\<not> matches (callers s p) m" using other that by blast
    ultimately have "\<not> (imsi_eq (gsup_imsi m) (rq_imsi q) \<and> rq_type q = request_type (message_type m))"
      by (simp add: matches_def eq_commute)
    then show ?thesis using q by blast
  qed
  have g: "get_pending ((reqs s)(?r \<mapsto> q)) (gsup_imsi m) (message_type m) (pending s @ [?r]) = Inr (Some ?r, pending s)"
    if "rq_imsi q = imsi" "rq_type q = ty" for q
  proof -
    have "\<forall>p \<in> set (pending s). \<exists>q'. ((reqs s)(?r \<mapsto> q)) p = Some q'
      \<and> \<not> (imsi_eq (gsup_imsi m) (rq_imsi q') \<and> rq_type q' = request_type (message_type m))"
    proof
      fix p assume p: "p \<in> set (pending s)"
      then have "p \<noteq> ?r" using n by auto
      then show "\<exists>q'. ((reqs s)(?r \<mapsto> q)) p = Some q'
        \<and> \<not> (imsi_eq (gsup_imsi m) (rq_imsi q') \<and> rq_type q' = request_type (message_type m))"
        using al [OF p] by auto
    qed
    then show ?thesis by (rule get_pending_append) (use that match in simp_all)
  qed
  show ?thesis
    using idle n dec ty match
    by (simp add: exchange_def gsup_exec_def gsup_request_create_def Let_def requester_step_def with_req_def
        gsup_request_get_def bq_enqueue_def bq_dequeue_def queue_worker_def on_recv_pdu_def match_response_def
        signal_request_def gsup_request_put_def gsup_defs g fun_upd_idem)
qed

section \<open>Frames\<close>

lemma requester_frame:
  assumes "requester_step p s = Inr s'"
  shows "receiver s' = receiver s" "worker s' = worker s" "set (pending s') \<subseteq> set (pending s)"
    "r \<noteq> p \<Longrightarrow> reqs s' r = reqs s r \<and> callers s' r = callers s r"
  using assms
  by (auto simp: requester_step_def with_req_Inr andThen_Inr_iff gsup_request_get_def gsup_defs bq_remove_def
      remove_pending_def elim!: put_cases dest: subsetD [OF set_remove1_subset]
      split: call_pc.splits if_splits bool.splits)

lemma worker_frame:
  assumes "queue_worker ok s = Inr s'"
  shows "receiver s' = receiver s"
    "wrefs (worker s) \<noteq> Some r \<Longrightarrow> wlocks (worker s) \<noteq> Some r \<Longrightarrow>
       reqs s' r = reqs s r \<and> callers s' r = callers s r"
  using assms
  by (auto simp: queue_worker_def with_req_Inr andThen_Inr_iff gsup_defs
      elim!: put_cases signal_cases split: worker_pc.splits option.splits if_splits)

section \<open>Deadlock of requester and receiver\<close>

text \<open>
  The requester has timed out, holds the mutex and waits for the lock; the receiver holds
  the lock and waits for the mutex.
\<close>

definition deadlocked :: "nat \<Rightarrow> gsup_state \<Rightarrow> bool" where
  "deadlocked r s \<longleftrightarrow> (\<exists>b m q. c_pc (callers s r) = C_relocked b \<and> receiver s = R_signal r m
     \<and> reqs s r = Some q \<and> rq_mutex q = Some Requester \<and> rq_lock q = Some Receiver)"

lemma deadlocked_stays:
  assumes dl: "gsup_inv s \<and> deadlocked r s" and step: "gsup_exec K enc dec a s = Inr s'"
  shows "gsup_inv s' \<and> deadlocked r s'"
proof -
  obtain b m q where d: "c_pc (callers s r) = C_relocked b" "receiver s = R_signal r m"
    "reqs s r = Some q" "rq_mutex q = Some Requester" "rq_lock q = Some Receiver"
    using dl by (auto simp: deadlocked_def)
  have inv: "gsup_inv s" using dl by simp
  have w: "wrefs (worker s) \<noteq> Some r" "wlocks (worker s) \<noteq> Some r"
    using gsup_invD [OF inv, of r] d by (auto simp: ok_simps qrefs_def one_def split: if_splits)
  have "reqs s' r = reqs s r \<and> callers s' r = callers s r \<and> receiver s' = receiver s"
  proof (cases a)
    case (A_call ty imsi msg)
    have "next_req s \<noteq> r" using inv d by (auto simp: gsup_inv_def)
    then show ?thesis using step A_call by (auto simp: gsup_exec_def gsup_request_create_def Let_def)
  next
    case (A_requester p)
    then have "p \<noteq> r" using step d by (auto simp: gsup_exec_def requester_step_def with_req_def)
    then show ?thesis using step A_requester requester_frame [of p s s'] by (auto simp: gsup_exec_def)
  next
    case (A_wakeup p t)
    then have "p \<noteq> r" using step d by (auto simp: gsup_exec_def wakeup_def)
    then show ?thesis using step A_wakeup by (auto simp: gsup_exec_def wakeup_def set_pc_def split: if_splits)
  next
    case (A_worker ok)
    then show ?thesis using step worker_frame(1) [of ok s s'] worker_frame(2) [of ok s s' r] w by (auto simp: gsup_exec_def)
  next
    case (A_receiver pdu)
    then show ?thesis using step d
      by (auto simp: gsup_exec_def on_recv_pdu_def signal_request_def with_req_def)
  qed
  then show ?thesis using d gsup_exec_inv [OF inv step] by (auto simp: deadlocked_def)
qed

lemma deadlocked_run:
  assumes "gsup_inv s" and "deadlocked r s" and "gsup_run K enc dec as s = Inr s'"
  shows "deadlocked r s'"
proof -
  have "gsup_inv s' \<and> deadlocked r s'"
    by (rule gsup_run_keeps [OF _ _ assms(3)]) (use deadlocked_stays assms(1,2) in blast)+
  then show ?thesis by simp
qed

section \<open>End of the sender job\<close>

definition unanswered :: "nat \<Rightarrow> gsup_state \<Rightarrow> bool" where
  "unanswered r s \<longleftrightarrow> worker s = W_ended \<and> r \<notin> set (pending s) \<and> rrefs (receiver s) \<noteq> Some r
     \<and> (\<forall>q. reqs s r = Some q \<longrightarrow> rq_resp q = None) \<and> (\<forall>m. c_pc (callers s r) \<noteq> C_returned (Some m))"

lemma get_pending_set:
  "get_pending rs imsi ty l = Inr (x, l') \<Longrightarrow> set l' \<subseteq> set l \<and> (\<forall>r. x = Some r \<longrightarrow> r \<in> set l)"
  by (induction l arbitrary: l') (fastforce simp: andThen_Inr_iff split: option.splits if_splits)+

lemma match_response_unanswered:
  assumes u: "unanswered r s" and idle: "receiver s = R_idle" and step: "match_response m s = Inr s'"
  shows "unanswered r s'"
proof -
  obtain x l where g: "get_pending (reqs s) (gsup_imsi m) (message_type m) (pending s) = Inr (x, l)"
    using step by (auto simp: match_response_def andThen_Inr_iff)
  note l = get_pending_set [OF g]
  show ?thesis
  proof (cases x)
    case None
    then have "s' = s\<lparr>pending := l\<rparr>" using step g by (simp add: match_response_def)
    then show ?thesis using u l by (auto simp: unanswered_def)
  next
    case (Some p)
    have p: "p \<noteq> r" and r: "r \<notin> set l" using l Some u by (auto simp: unanswered_def)
    obtain q where q: "reqs s p = Some q" using step g Some by (auto simp: match_response_def with_req_Inr)
    show ?thesis
    proof (cases "rq_lock q")
      case None
      then show ?thesis using step g Some q p r u
        by (auto simp: match_response_def with_req_def gsup_defs unanswered_def)
    next
      case (Some t)
      then have "gsup_request_put p (s\<lparr>pending := l\<rparr>) = Inr s'"
        using step g q \<open>x = Some p\<close> by (simp add: match_response_def with_req_def)
      then show ?thesis using p r u idle by (auto simp: unanswered_def elim!: put_cases split: if_splits)
    qed
  qed
qed

lemma unanswered_stays:
  assumes u: "unanswered r s" and step: "gsup_exec K enc dec a s = Inr s'"
  shows "unanswered r s'"
proof (cases a)
  case (A_call ty imsi msg)
  then show ?thesis using step u by (auto simp: gsup_exec_def gsup_request_create_def Let_def unanswered_def split: if_splits)
next
  case (A_requester p)
  then have st: "requester_step p s = Inr s'" using step by (simp add: gsup_exec_def)
  show ?thesis
  proof (cases "p = r")
    case False
    then show ?thesis using requester_frame [OF st] u by (auto simp: unanswered_def)
  next
    case True
    have "(\<forall>q. reqs s' r = Some q \<longrightarrow> rq_resp q = None) \<and> (\<forall>m. c_pc (callers s' r) \<noteq> C_returned (Some m))"
      using st u unfolding True
      by (auto simp: requester_step_def unanswered_def with_req_Inr andThen_Inr_iff gsup_request_get_def gsup_defs
          bq_remove_def remove_pending_def elim!: put_cases split: call_pc.splits if_splits bool.splits)
    then show ?thesis using requester_frame [OF st] u by (auto simp: unanswered_def)
  qed
next
  case (A_wakeup p t)
  then show ?thesis using step u by (auto simp: gsup_exec_def wakeup_def set_pc_def unanswered_def split: if_splits)
next
  case (A_worker ok)
  then show ?thesis using step u by (auto simp: gsup_exec_def queue_worker_def unanswered_def)
next
  case (A_receiver pdu)
  then have st: "on_recv_pdu K enc dec pdu s = Inr s'" using step by (simp add: gsup_exec_def)
  show ?thesis
  proof (cases "receiver s")
    case R_idle
    have "match_response m s = Inr s' \<Longrightarrow> unanswered r s'" for m
      by (rule match_response_unanswered [OF u R_idle])
    then show ?thesis using st u R_idle
      by (auto simp: on_recv_pdu_def unanswered_def split: option.splits if_splits)
  qed (use st u in \<open>auto simp: on_recv_pdu_def unanswered_def with_req_Inr andThen_Inr_iff gsup_defs
      elim!: put_cases signal_cases split: if_splits\<close>)
qed

section \<open>Properties\<close>

text \<open>
  C4. Memory safety of the GSUP client under every interleaving of requesters, sender job and
  receiver, with timeouts and spurious wake-ups at any time: no thread ever touches a
  freed request, a request exists exactly while a caller, a queue, the sender or the
  receiver refers to it, its count is the number of these references, and it is at one
  place of the pipeline at a time.
\<close>

theorem gsup_no_use_after_free:
  assumes "reachable (\<lambda>s. s = gsup_init) (gsup_step K enc dec) s"
  shows "gsup_exec K enc dec a s \<noteq> Inl UseAfterFree \<and> qrefs s r \<le> 1
    \<and> (case reqs s r of
         None \<Rightarrow> qrefs s r = 0 \<and> \<not> live (c_pc (callers s r))
       | Some q \<Rightarrow> rq_refcount q = qrefs s r + (if live (c_pc (callers s r)) then 1 else 0)
           \<and> 0 < rq_refcount q)"
proof -
  have inv: "gsup_inv s" by (rule gsup.reachable_invar [OF assms])
  have "qrefs s r \<le> 1" using gsup_invD [OF inv, of r] by (auto simp: req_ok_def req_inv_def)
  then show ?thesis using gsup_exec_safe [OF inv, of K enc dec a] gsup_invD [OF inv, of r]
    by (auto simp: req_ok_def req_inv_def split: option.split)
qed

theorem gsup_no_use_after_free_witness:
  "gsup_exec sample_consts (\<lambda>_. None) (\<lambda>_. None) (A_worker True) gsup_init \<noteq> Inl UseAfterFree \<and> qrefs gsup_init 0 \<le> 1"
  using gsup_no_use_after_free [OF reach_gsup_init, of sample_consts "\<lambda>_. None"
      "\<lambda>_. None" "A_worker True" 0] by blast

text \<open>
  C6. A response reaches only the request it answers: whatever a call returns carries the
  IMSI of the call (in its first 15 digits) and the message type that belongs to the
  request.
\<close>

theorem gsup_response_matches:
  assumes "reachable (\<lambda>s. s = gsup_init) (gsup_step K enc dec) s"
    and "c_pc (callers s r) = C_returned (Some m)"
  shows "imsi_eq (gsup_imsi m) (c_imsi (callers s r)) \<and> request_type (message_type m) = c_type (callers s r)"
  using gsup_invD [OF gsup.reachable_invar [OF assms(1)], of r] assms(2)
  by (auto simp: req_ok_def req_inv_def matches_def)

text \<open>
  C27. A complete exchange: from every reachable state in which sender and receiver are idle,
  the in-queue is empty and no pending request has the key of the response, the steps of
  one request (enqueue, wait, send, receive, signal, wake up) end with the caller holding
  exactly the decoded response, the message sent once, and the request freed.
\<close>

theorem gsup_exchange_completes:
  assumes "reachable (\<lambda>s. s = gsup_init) (gsup_step K enc dec) s"
    and "worker s = W_idle" "receiver s = R_idle" "inqueue s = []"
    and "dec pdu = Some m" and "message_type m \<in> set (response_types K)"
      "message_type m \<noteq> INSERT_DATA_REQUEST K"
    and "imsi_eq (gsup_imsi m) imsi" "request_type (message_type m) = ty"
    and "\<forall>p \<in> set (pending s). \<not> matches (callers s p) m"
  shows "\<exists>s'. gsup_run K enc dec (exchange ty imsi msg pdu (next_req s)) s = Inr s'
    \<and> c_pc (callers s' (next_req s)) = C_returned (Some m) \<and> reqs s' = reqs s
    \<and> inqueue s' = [] \<and> pending s' = pending s \<and> worker s' = W_idle \<and> receiver s' = R_idle
    \<and> sent s' = sent s @ [Some msg]"
  by (rule exchange_run [where dec = dec and pdu = pdu, OF gsup.reachable_invar [OF assms(1)] assms(2-10)])

definition sample_result :: gsup_msg where
  "sample_result = empty_gsup\<lparr>message_type := 6, gsup_imsi := [48,48,49,48,49,48,49,50,51,52,53,54,55,56,57]\<rparr>"

lemma sample_exchange:
  "\<exists>s. gsup_run sample_consts (\<lambda>_. None) (\<lambda>_. Some sample_result)
       (exchange 4 (gsup_imsi sample_result) [1] [2] 0) gsup_init = Inr s
     \<and> c_pc (callers s 0) = C_returned (Some sample_result)"
proof -
  have "message_type sample_result \<in> set (response_types sample_consts)"
    "message_type sample_result \<noteq> INSERT_DATA_REQUEST sample_consts" "request_type (message_type sample_result) = 4"
    by (simp_all add: sample_result_def response_types_def sample_consts_def request_type_def)
  from exchange_run [OF gsup_init_inv _ _ _ _ this(1,2) _ this(3), where pdu = "[2]" and imsi = "gsup_imsi sample_result"
      and msg = "[1]" and dec = "\<lambda>_. Some sample_result" and enc = "\<lambda>_. None"]
  show ?thesis by (auto simp: gsup_init_def imsi_eq_def)
qed

theorem gsup_response_matches_witness:
  "\<exists>s. reachable (\<lambda>s. s = gsup_init) (gsup_step sample_consts (\<lambda>_. None) (\<lambda>_. Some sample_result)) s
     \<and> c_pc (callers s 0) = C_returned (Some sample_result)
     \<and> request_type (message_type sample_result) = c_type (callers s 0)"
proof -
  obtain s where s: "gsup_run sample_consts (\<lambda>_. None) (\<lambda>_. Some sample_result)
       (exchange 4 (gsup_imsi sample_result) [1] [2] 0) gsup_init = Inr s"
    "c_pc (callers s 0) = C_returned (Some sample_result)"
    using sample_exchange by blast
  have "reachable (\<lambda>s. s = gsup_init) (gsup_step sample_consts (\<lambda>_. None) (\<lambda>_. Some sample_result)) s"
    by (rule gsup_run_reachable [OF s(1) reach_gsup_init])
  then show ?thesis using gsup_response_matches [OF _ s(2)] s(2) by blast
qed

theorem gsup_exchange_completes_witness:
  "\<exists>s. gsup_run sample_consts (\<lambda>_. None) (\<lambda>_. Some sample_result)
       (exchange 4 (gsup_imsi sample_result) [1] [2] 0) gsup_init = Inr s \<and> sent s = [Some [1]]"
proof -
  have "message_type sample_result \<in> set (response_types sample_consts)"
    "message_type sample_result \<noteq> INSERT_DATA_REQUEST sample_consts" "request_type (message_type sample_result) = 4"
    by (simp_all add: sample_result_def response_types_def sample_consts_def request_type_def)
  from gsup_exchange_completes [OF reach_gsup_init _ _ _ _ this(1,2) _ this(3), where pdu = "[2]"
      and imsi = "gsup_imsi sample_result" and msg = "[1]" and dec = "\<lambda>_. Some sample_result" and enc = "\<lambda>_. None"]
  show ?thesis by (auto simp: gsup_init_def imsi_eq_def)
qed

definition timeout_race :: "msg_type \<Rightarrow> cstring \<Rightarrow> chunk \<Rightarrow> chunk \<Rightarrow> gsup_action list" where
  "timeout_race ty imsi msg pdu =
     [A_call ty imsi msg, A_requester 0, A_requester 0,
      A_worker True, A_worker True, A_worker True, A_worker True, A_worker True,
      A_wakeup 0 True, A_requester 0, A_receiver pdu]"

lemma timeout_race_deadlock:
  assumes "dec pdu = Some m" and "message_type m \<in> set (response_types K)"
      "message_type m \<noteq> INSERT_DATA_REQUEST K"
    and "imsi_eq (gsup_imsi m) imsi" "request_type (message_type m) = ty"
  shows "\<exists>s. gsup_run K enc dec (timeout_race ty imsi msg pdu) gsup_init = Inr s \<and> deadlocked 0 s"
  using assms
  by (auto simp: timeout_race_def gsup_init_def gsup_exec_def gsup_request_create_def Let_def requester_step_def with_req_def
        gsup_request_get_def bq_enqueue_def bq_dequeue_def queue_worker_def on_recv_pdu_def match_response_def
        wakeup_def gsup_defs deadlocked_def)

text \<open>
  C37. Requester and receiver can deadlock: if a request times out and its response arrives
  after the requester has re-acquired the mutex but before it takes the lock, the receiver
  takes the lock and waits for the mutex while the requester waits for the lock.  From
  then on, whatever the threads do, the call never returns and the receiver never handles
  another message.
\<close>

theorem gsup_deadlock:
  assumes "dec pdu = Some m" and "message_type m \<in> set (response_types K)"
      "message_type m \<noteq> INSERT_DATA_REQUEST K"
    and "imsi_eq (gsup_imsi m) imsi" "request_type (message_type m) = ty"
  shows "\<exists>s. gsup_run K enc dec (timeout_race ty imsi msg pdu) gsup_init = Inr s
    \<and> (\<forall>as s'. gsup_run K enc dec as s = Inr s' \<longrightarrow>
         (\<forall>x. c_pc (callers s' 0) \<noteq> C_returned x) \<and> receiver s' \<noteq> R_idle
         \<and> requester_step 0 s' = Inl Blocked \<and> on_recv_pdu K enc dec pdu s' = Inl Blocked)"
proof -
  obtain s where s: "gsup_run K enc dec (timeout_race ty imsi msg pdu) gsup_init = Inr s" "deadlocked 0 s"
    using timeout_race_deadlock [of dec, OF assms, of enc msg] by blast
  have inv: "gsup_inv s"
    by (rule gsup.reachable_invar [OF gsup_run_reachable [OF s(1) reach_gsup_init]])
  have "deadlocked 0 s'" if "gsup_run K enc dec as s = Inr s'" for as s'
    using deadlocked_run [OF inv s(2) that] .
  then show ?thesis using s(1)
    by (fastforce simp: deadlocked_def requester_step_def on_recv_pdu_def signal_request_def with_req_def)
qed

theorem gsup_deadlock_witness:
  "\<exists>s. gsup_run sample_consts (\<lambda>_. None) (\<lambda>_. Some sample_result)
       (timeout_race 4 (gsup_imsi sample_result) [1] [2]) gsup_init = Inr s
     \<and> requester_step 0 s = Inl Blocked"
proof -
  have "message_type sample_result \<in> set (response_types sample_consts)"
    "message_type sample_result \<noteq> INSERT_DATA_REQUEST sample_consts" "request_type (message_type sample_result) = 4"
    by (simp_all add: sample_result_def response_types_def sample_consts_def request_type_def)
  from gsup_deadlock [OF _ this(1,2) _ this(3), where pdu = "[2]" and imsi = "gsup_imsi sample_result"
      and msg = "[1]" and dec = "\<lambda>_. Some sample_result" and enc = "\<lambda>_. None"]
  obtain s where s: "gsup_run sample_consts (\<lambda>_. None) (\<lambda>_. Some sample_result)
       (timeout_race 4 (gsup_imsi sample_result) [1] [2]) gsup_init = Inr s"
    "\<forall>as s'. gsup_run sample_consts (\<lambda>_. None) (\<lambda>_. Some sample_result) as s = Inr s' \<longrightarrow> requester_step 0 s' = Inl Blocked"
    by (auto simp: imsi_eq_def)
  then have "requester_step 0 s = Inl Blocked" using s(2) [rule_format, of "[]" s] by simp
  then show ?thesis using s(1) by blast
qed

lemma unanswered_run:
  assumes "unanswered r s" and "gsup_run K enc dec as s = Inr s'"
  shows "unanswered r s'"
  by (rule gsup_run_keeps [where P = "unanswered r", OF _ assms]) (rule unanswered_stays)

text \<open>
  Once the sender job has lost the race for a request's lock against a timed-out
  requester it is gone for good: no request made afterwards is ever answered, every such
  call that returns returns NULL.
\<close>

theorem gsup_ended_worker_answers_nothing:
  assumes "reachable (\<lambda>s. s = gsup_init) (gsup_step K enc dec) s" and "worker s = W_ended"
    and "next_req s \<le> r" and "gsup_run K enc dec as s = Inr s'" and "c_pc (callers s' r) = C_returned x"
  shows "x = None"
proof -
  have inv: "gsup_inv s" by (rule gsup.reachable_invar [OF assms(1)])
  have "c_pc (callers s r) = C_none" using inv assms(3) by (simp add: gsup_inv_def)
  moreover have "qrefs s r = 0" "reqs s r = None"
    using gsup_invD [OF inv, of r] calculation by (auto simp: req_ok_def req_inv_def split: option.splits)
  ultimately have "unanswered r s"
    using assms(2) by (auto simp: unanswered_def qrefs_def one_def count_list_0_iff split: if_splits)
  then have "unanswered r s'" using unanswered_run assms(4) by blast
  then show ?thesis using assms(5) by (cases x) (auto simp: unanswered_def)
qed

text \<open>The race, followed by a second request that times out.\<close>

definition lost_race :: "gsup_action list" where
  "lost_race = [A_call 4 [] [1], A_requester 0, A_requester 0, A_worker True, A_wakeup 0 True,
     A_requester 0, A_requester 0, A_worker True]"

definition second_call :: "gsup_action list" where
  "second_call = [A_call 4 [] [1], A_requester 1, A_requester 1, A_wakeup 1 True, A_requester 1, A_requester 1,
     A_requester 1, A_requester 1]"

theorem gsup_ended_worker_answers_nothing_witness:
  "\<exists>s s' x. gsup_run sample_consts (\<lambda>_. None) (\<lambda>_. None) lost_race gsup_init = Inr s \<and> worker s = W_ended
     \<and> gsup_run sample_consts (\<lambda>_. None) (\<lambda>_. None) second_call s = Inr s'
     \<and> c_pc (callers s' 1) = C_returned x \<and> x = None"
proof -
  let ?run = "gsup_run sample_consts (\<lambda>_. None) (\<lambda>_. None)"
  note d = gsup_init_def gsup_exec_def gsup_request_create_def Let_def requester_step_def with_req_def
        gsup_request_get_def gsup_request_put_def bq_enqueue_def bq_dequeue_def bq_remove_def queue_worker_def wakeup_def gsup_defs
  obtain s where s: "?run lost_race gsup_init = Inr s" "worker s = W_ended" "next_req s = 1"
    "\<exists>s' x. ?run second_call s = Inr s' \<and> c_pc (callers s' 1) = C_returned x"
    by (simp add: lost_race_def second_call_def d)
  obtain s' x where s': "?run second_call s = Inr s'" "c_pc (callers s' 1) = C_returned x" using s(4) by blast
  have "x = None"
    by (rule gsup_ended_worker_answers_nothing [OF gsup_run_reachable [OF s(1) reach_gsup_init] s(2) _ s'])
      (simp add: s(3))
  then show ?thesis using s s' by blast
qed

end
