(* ===== verification/Ipa_Client.thy ===== *)
theory Ipa_Client
  imports Transition
begin

text \<open>
  The IPA client of \<open>ipa_client.c\<close>: framing of the messages on the stream, the answers to the
  IPA base protocol, and the reconnection with exponential back-off.  The message buffers
  (\<open>msgb\<close>) and the protocol constants come from libosmocore, which is not part of the
  repository: they are the parameters \<open>ops\<close> and \<open>K\<close>, and \<open>msgb_laws\<close> states the documented
  behaviour of the buffer functions (\<open>msgb_put\<close> and \<open>msgb_push\<close> abort the process when there
  is no room).  A stream is the list of bytes the peer sends.
\<close>

section \<open>Parameters\<close>

record 'm msgb_ops =
  mb_new :: "nat \<Rightarrow> 'm"
  mb_data :: "'m \<Rightarrow> chunk"
  mb_headroom :: "'m \<Rightarrow> nat"
  mb_tailroom :: "'m \<Rightarrow> nat"
  mb_reserve :: "nat \<Rightarrow> 'm \<Rightarrow> 'm"
  mb_pull :: "nat \<Rightarrow> 'm \<Rightarrow> 'm"
  mb_put :: "chunk \<Rightarrow> 'm \<Rightarrow> 'm option"
  mb_push :: "chunk \<Rightarrow> 'm \<Rightarrow> 'm option"

definition msgb_laws :: "'m msgb_ops \<Rightarrow> bool" where
  "msgb_laws ops \<longleftrightarrow>
     (\<forall>n. mb_data ops (mb_new ops n) = [] \<and> mb_tailroom ops (mb_new ops n) = n)
   \<and> (\<forall>n m. mb_data ops m = [] \<and> n \<le> mb_tailroom ops m \<longrightarrow>
        mb_data ops (mb_reserve ops n m) = [] \<and> mb_tailroom ops (mb_reserve ops n m) = mb_tailroom ops m - n)
   \<and> (\<forall>n m. n \<le> length (mb_data ops m) \<longrightarrow> mb_data ops (mb_pull ops n m) = drop n (mb_data ops m))
   \<and> (\<forall>bs m. if length bs \<le> mb_tailroom ops m
        then (\<exists>m'. mb_put ops bs m = Some m' \<and> mb_data ops m' = mb_data ops m @ bs
                \<and> mb_tailroom ops m' = mb_tailroom ops m - length bs)
        else mb_put ops bs m = None)
   \<and> (\<forall>bs m. if length bs \<le> mb_headroom ops m
        then (\<exists>m'. mb_push ops bs m = Some m' \<and> mb_data ops m' = bs @ mb_data ops m)
        else mb_push ops bs m = None)"

record ipa_consts =
  IPAC_PROTO_OSMO :: byte
  IPAC_PROTO_IPACCESS :: byte
  IPAC_MSGT_PING :: byte
  IPAC_MSGT_PONG :: byte
  IPAC_MSGT_ID_GET :: byte
  IPAC_MSGT_ID_RESP :: byte
  IPAC_MSGT_ID_ACK :: byte
  IPAC_IDTAG_SERNR :: byte
  IPAC_IDTAG_UNITNAME :: byte
  IPAC_IDTAG_LOCATION1 :: byte
  IPAC_IDTAG_LOCATION2 :: byte
  IPAC_IDTAG_EQUIPVERS :: byte
  IPAC_IDTAG_SWVERSION :: byte
  IPAC_IDTAG_UNIT :: byte
  MSGB_SIZE :: nat

definition IPA_ALLOC_SIZE :: nat where "IPA_ALLOC_SIZE = 1200"
definition INITIAL_BACKOFF_MS :: "32 word" where "INITIAL_BACKOFF_MS = 10"
definition MAX_BACKOFF_MS :: "32 word" where "MAX_BACKOFF_MS = 15000"

text \<open>The header is two octets of length and the protocol; \<open>sizeof\<close> is 3.\<close>

definition HEAD_SIZE :: nat where "HEAD_SIZE = 3"

record ipa_client =
  stream_up :: bool
  has_cb :: bool
  reconnecting :: bool
  reconnect_backoff_ms :: "32 word"
  reconnect_backoff_max_ms :: "32 word"
  scheduled :: "32 word list"
  out :: "chunk list"

definition lift_mb :: "'a option \<Rightarrow> 'a res" where
  "lift_mb x = (case x of None \<Rightarrow> Inl Panic | Some y \<Rightarrow> Inr y)"

text \<open>\<open>write_all\<close> on the stream of the client; \<open>wr\<close> tells whether it succeeds.\<close>

definition stream_write :: "(chunk \<Rightarrow> bool) \<Rightarrow> chunk \<Rightarrow> ipa_client \<Rightarrow> (bool \<times> ipa_client) res" where
  "stream_write wr bs this =
     (if \<not> stream_up this then Inl NullDeref
      else if wr bs then Inr (True, this\<lparr>out := out this @ [bs]\<rparr>)
      else Inr (False, this))"

section \<open>Sending\<close>

datatype send_error = ENOENT | EINVAL

definition send_pdu ::
  "'m msgb_ops \<Rightarrow> ipa_consts \<Rightarrow> (chunk \<Rightarrow> bool) \<Rightarrow> byte \<Rightarrow> 'm \<Rightarrow> ipa_client \<Rightarrow> ((send_error + nat) \<times> ipa_client) res" where
  "send_pdu ops K wr osmo_proto msg this =
     (let len = length (mb_data ops msg) + HEAD_SIZE + 1 in
      andThen (lift_mb (mb_push ops
          (be_bytes 2 (of_nat (len - HEAD_SIZE) :: 16 word) @ [IPAC_PROTO_OSMO K, osmo_proto]) msg)) (\<lambda>m.
      if \<not> stream_up this then Inr (Inl ENOENT, this)
      else
        andThen (stream_write wr (mb_data ops m) this) (\<lambda>(ok, t).
          if \<not> ok then Inr (Inl EINVAL, t) else Inr (Inr (length (mb_data ops m)), t))))"

definition ipa_pdu_base_send_simple :: "ipa_consts \<Rightarrow> (chunk \<Rightarrow> bool) \<Rightarrow> byte \<Rightarrow> ipa_client \<Rightarrow> ipa_client res" where
  "ipa_pdu_base_send_simple K wr msg_type this =
     andThen (stream_write wr (be_bytes 2 (1 :: 16 word) @ [IPAC_PROTO_IPACCESS K, msg_type]) this) (\<lambda>(_, t). Inr t)"

section \<open>The base protocol\<close>

definition ipa_tag_put_str :: "'m msgb_ops \<Rightarrow> byte \<Rightarrow> cstring \<Rightarrow> 'm \<Rightarrow> 'm res" where
  "ipa_tag_put_str ops tag value resp =
     andThen (lift_mb (mb_put ops (be_bytes 2 (of_nat (length value + 1) :: 16 word)) resp)) (\<lambda>r1.
     andThen (lift_mb (mb_put ops [tag] r1)) (\<lambda>r2.
     lift_mb (mb_put ops value r2)))"

definition str_swan :: cstring where  \<comment> \<open>SWAN-00-00-00-00-00-00\<close>
  "str_swan = [83,87,65,78,45,48,48,45,48,48,45,48,48,45,48,48,45,48,48,45,48,48]"

definition str_mac :: cstring where  \<comment> \<open>00:00:00:00:00:00\<close>
  "str_mac = [48,48,58,48,48,58,48,48,58,48,48,58,48,48,58,48,48]"

definition str_unit :: cstring where  \<comment> \<open>0/0/0\<close>
  "str_unit = [48,47,48,47,48]"

definition tag_value :: "ipa_consts \<Rightarrow> byte \<Rightarrow> cstring option" where
  "tag_value K tag =
     (if tag = IPAC_IDTAG_SERNR K \<or> tag = IPAC_IDTAG_UNITNAME K then Some str_swan
      else if tag = IPAC_IDTAG_LOCATION1 K \<or> tag = IPAC_IDTAG_LOCATION2 K \<or> tag = IPAC_IDTAG_EQUIPVERS K
        \<or> tag = IPAC_IDTAG_SWVERSION K then Some str_mac
      else if tag = IPAC_IDTAG_UNIT K then Some str_unit
      else None)"

definition ipa_resp_tag_encode :: "'m msgb_ops \<Rightarrow> ipa_consts \<Rightarrow> byte \<Rightarrow> 'm \<Rightarrow> 'm res" where
  "ipa_resp_tag_encode ops K tag resp =
     (case tag_value K tag of None \<Rightarrow> Inr resp | Some v \<Rightarrow> ipa_tag_put_str ops tag v resp)"

text \<open>
  The loop over the requested tags: an answer, \<open>Inr None\<close> after a protocol error, or the
  abort of the response buffer.
\<close>

partial_function (option) id_tag_loop ::
  "'m msgb_ops \<Rightarrow> ipa_consts \<Rightarrow> 'm \<Rightarrow> 'm \<Rightarrow> 'm option res option" where
  "id_tag_loop ops K req resp =
     (if length (mb_data ops req) \<ge> 2 then
        let len = hd (mb_data ops req); req1 = mb_pull ops 1 req in
        if len \<noteq> 1 then
          (if length (mb_data ops req1) < unat len then Some (Inr None)
           else id_tag_loop ops K (mb_pull ops (unat len) req1) resp)
        else
          let tag = hd (mb_data ops req1); req2 = mb_pull ops 1 req1 in
          (case ipa_resp_tag_encode ops K tag resp of
             Inl e \<Rightarrow> Some (Inl e)
           | Inr resp1 \<Rightarrow> id_tag_loop ops K req2 resp1)
      else Some (Inr (Some resp)))"

definition ipa_pdu_base_send_id_resp ::
  "'m msgb_ops \<Rightarrow> ipa_consts \<Rightarrow> (chunk \<Rightarrow> bool) \<Rightarrow> 'm \<Rightarrow> ipa_client \<Rightarrow> ipa_client res" where
  "ipa_pdu_base_send_id_resp ops K wr req this =
     (let resp = mb_new ops (IPA_ALLOC_SIZE - MSGB_SIZE K); req1 = mb_pull ops HEAD_SIZE req in
      if length (mb_data ops req1) < 1 then Inr this
      else
        let resp1 = mb_reserve ops 128 resp in
        andThen (lift_mb (mb_put ops (replicate HEAD_SIZE 0) resp1)) (\<lambda>resp2.
        andThen (lift_mb (mb_put ops [IPAC_MSGT_ID_RESP K] resp2)) (\<lambda>resp3.
        (case id_tag_loop ops K (mb_pull ops 1 req1) resp3 of
           None \<Rightarrow> Inl Diverges
         | Some (Inl e) \<Rightarrow> Inl e
         | Some (Inr None) \<Rightarrow> Inr this
         | Some (Inr (Some resp4)) \<Rightarrow>
             let body = drop HEAD_SIZE (mb_data ops resp4);
                 pdu = be_bytes 2 (of_nat (length body) :: 16 word) @ [IPAC_PROTO_IPACCESS K] @ body in
             andThen (stream_write wr pdu this) (\<lambda>(ok, t).
               if \<not> ok then Inr t else ipa_pdu_base_send_simple K wr (IPAC_MSGT_ID_ACK K) t)))))"

definition on_recv_ipa_pdu ::
  "'m msgb_ops \<Rightarrow> ipa_consts \<Rightarrow> (chunk \<Rightarrow> bool) \<Rightarrow> 'm \<Rightarrow> ipa_client \<Rightarrow> ipa_client res" where
  "on_recv_ipa_pdu ops K wr pdu this =
     (if length (mb_data ops pdu) < HEAD_SIZE + 1 then Inr this
      else
        let msg_type = mb_data ops pdu ! HEAD_SIZE in
        if msg_type = IPAC_MSGT_PING K then ipa_pdu_base_send_simple K wr (IPAC_MSGT_PONG K) this
        else if msg_type = IPAC_MSGT_PONG K then Inr this
        else if msg_type = IPAC_MSGT_ID_GET K then ipa_pdu_base_send_id_resp ops K wr pdu this
        else Inr this)"

section \<open>Connection\<close>

definition reconnect_ipa :: "ipa_client \<Rightarrow> ipa_client" where
  "reconnect_ipa this =
     (if reconnecting this then this
      else this\<lparr>reconnecting := True, scheduled := scheduled this @ [reconnect_backoff_ms this]\<rparr>)"

definition read_error :: "ipa_client \<Rightarrow> bool \<times> ipa_client" where
  "read_error this = (False, reconnect_ipa this)"

definition disconnect :: "ipa_client \<Rightarrow> ipa_client" where
  "disconnect this = this\<lparr>stream_up := False\<rparr>"

definition read_all :: "nat \<Rightarrow> chunk \<Rightarrow> (chunk \<times> chunk) option" where
  "read_all n inp = (if n \<le> length inp then Some (take n inp, drop n inp) else None)"

text \<open>
  The first, non-blocking read fails (with \<open>EWOULDBLOCK\<close> or otherwise) or delivers between one
  and three bytes.  The answer is the result of the callback, the new state, the rest of the
  input and the message handed to the registered callback.
\<close>

datatype first_read = RdFail bool | Rd nat

type_synonym read_result = "bool \<times> ipa_client \<times> chunk \<times> chunk option"

definition on_stream_read ::
  "'m msgb_ops \<Rightarrow> ipa_consts \<Rightarrow> (chunk \<Rightarrow> bool) \<Rightarrow> first_read \<Rightarrow> chunk \<Rightarrow> ipa_client \<Rightarrow> read_result res" where
  "on_stream_read ops K wr fr inp this =
     (let err = (\<lambda>inp. let (b, t) = read_error this in Inr (b, t, inp, None)) in
      case fr of
        RdFail True \<Rightarrow> Inr (True, this, inp, None)
      | RdFail False \<Rightarrow> err inp
      | Rd hlen \<Rightarrow>
     (case read_all (HEAD_SIZE - hlen) (drop hlen inp) of
        None \<Rightarrow> err []
      | Some (hrest, inp1) \<Rightarrow>
          let head = take hlen inp @ hrest; len = unat (be_word (take 2 head) :: 16 word) in
          if len + HEAD_SIZE > IPA_ALLOC_SIZE then err inp1
          else
            andThen (lift_mb (mb_put ops head (mb_new ops IPA_ALLOC_SIZE))) (\<lambda>req.
            (case read_all len inp1 of
               None \<Rightarrow> err []
             | Some (body, inp2) \<Rightarrow>
                 andThen (lift_mb (mb_put ops body req)) (\<lambda>req1.
                 if head ! 2 = IPAC_PROTO_IPACCESS K then
                   andThen (on_recv_ipa_pdu ops K wr req1 this) (\<lambda>t. Inr (True, t, inp2, None))
                 else if head ! 2 = IPAC_PROTO_OSMO K then
                   (if length (mb_data ops req1) < HEAD_SIZE + 1 then Inr (True, this, inp2, None)
                    else if has_cb this then Inr (True, this, inp2, Some (drop (HEAD_SIZE + 1) (mb_data ops req1)))
                    else Inr (True, this, inp2, None))
                 else Inr (True, this, inp2, None))))))"

text \<open>Connecting; \<open>conn\<close> is the outcome, \<open>fr\<close> and \<open>inp\<close> what the first read meets.\<close>

definition connect_ipa ::
  "'m msgb_ops \<Rightarrow> ipa_consts \<Rightarrow> (chunk \<Rightarrow> bool) \<Rightarrow> bool \<Rightarrow> first_read \<Rightarrow> chunk \<Rightarrow> ipa_client \<Rightarrow> (bool \<times> ipa_client) res" where
  "connect_ipa ops K wr conn fr inp this =
     (let t = (if stream_up this then disconnect this else this) in
      if \<not> conn then Inr (False, reconnect_ipa t)
      else
        andThen (on_stream_read ops K wr fr inp (t\<lparr>stream_up := True\<rparr>)) (\<lambda>(_, t1, _, _).
        Inr (True, t1\<lparr>reconnect_backoff_ms := INITIAL_BACKOFF_MS\<rparr>)))"

definition reconnect_job ::
  "'m msgb_ops \<Rightarrow> ipa_consts \<Rightarrow> (chunk \<Rightarrow> bool) \<Rightarrow> bool \<Rightarrow> first_read \<Rightarrow> chunk \<Rightarrow> ipa_client \<Rightarrow> ipa_client res" where
  "reconnect_job ops K wr conn fr inp this =
     andThen (connect_ipa ops K wr conn fr inp this) (\<lambda>(ok, t).
       if \<not> ok then
         let b = reconnect_backoff_ms t * 2;
             b1 = (if b > reconnect_backoff_max_ms t then reconnect_backoff_max_ms t else b) in
         Inr (t\<lparr>reconnect_backoff_ms := b1, scheduled := scheduled t @ [b1]\<rparr>)
       else Inr (t\<lparr>reconnecting := False\<rparr>))"

definition on_recv :: "ipa_client \<Rightarrow> ipa_client" where
  "on_recv this = this\<lparr>has_cb := True\<rparr>"

definition osmo_epdg_ipa_client_create ::
  "'m msgb_ops \<Rightarrow> ipa_consts \<Rightarrow> (chunk \<Rightarrow> bool) \<Rightarrow> bool \<Rightarrow> first_read \<Rightarrow> chunk \<Rightarrow> ipa_client res" where
  "osmo_epdg_ipa_client_create ops K wr conn fr inp =
     andThen (connect_ipa ops K wr conn fr inp
       \<lparr>stream_up = False, has_cb = False, reconnecting = False, reconnect_backoff_ms = INITIAL_BACKOFF_MS,
        reconnect_backoff_max_ms = MAX_BACKOFF_MS, scheduled = [], out = []\<rparr>) (\<lambda>(_, t). Inr t)"

section \<open>The buffer functions\<close>

text \<open>The documented behaviour, one rule per function.\<close>

lemma mb_new_laws:
  "msgb_laws ops \<Longrightarrow> mb_data ops (mb_new ops n) = []"
  "msgb_laws ops \<Longrightarrow> mb_tailroom ops (mb_new ops n) = n"
  by (auto simp: msgb_laws_def)

lemma mb_reserve_laws:
  "msgb_laws ops \<Longrightarrow> mb_data ops m = [] \<Longrightarrow> n \<le> mb_tailroom ops m \<Longrightarrow> mb_data ops (mb_reserve ops n m) = []"
  "msgb_laws ops \<Longrightarrow> mb_data ops m = [] \<Longrightarrow> n \<le> mb_tailroom ops m \<Longrightarrow>
     mb_tailroom ops (mb_reserve ops n m) = mb_tailroom ops m - n"
  by (auto simp: msgb_laws_def)

lemma mb_pull_law: "msgb_laws ops \<Longrightarrow> n \<le> length (mb_data ops m) \<Longrightarrow> mb_data ops (mb_pull ops n m) = drop n (mb_data ops m)"
  by (simp add: msgb_laws_def)

lemma mb_put_fits:
  assumes "msgb_laws ops" and "length bs \<le> mb_tailroom ops m"
  obtains m' where "mb_put ops bs m = Some m'" and "mb_data ops m' = mb_data ops m @ bs"
    and "mb_tailroom ops m' = mb_tailroom ops m - length bs"
  using assms unfolding msgb_laws_def by metis

lemma mb_put_full: "msgb_laws ops \<Longrightarrow> mb_tailroom ops m < length bs \<Longrightarrow> mb_put ops bs m = None"
  unfolding msgb_laws_def by (metis not_le)

lemma mb_push_fits:
  assumes "msgb_laws ops" and "length bs \<le> mb_headroom ops m"
  obtains m' where "mb_push ops bs m = Some m'" and "mb_data ops m' = bs @ mb_data ops m"
  using assms unfolding msgb_laws_def by metis

section \<open>Framing\<close>

definition ipa_frame :: "byte \<Rightarrow> chunk \<Rightarrow> chunk" where
  "ipa_frame proto body = be_bytes 2 (of_nat (length body) :: 16 word) @ proto # body"

lemma frame_head:
  "take 3 (ipa_frame p body @ rest) = be_bytes 2 (of_nat (length body) :: 16 word) @ [p]"
  "drop 3 (ipa_frame p body @ rest) = body @ rest"
  by (simp_all add: ipa_frame_def)

lemma split_read:
  assumes "h \<le> 3" and "3 \<le> length inp"
  shows "read_all (3 - h) (drop h inp) = Some (take (3 - h) (drop h inp), drop 3 inp)"
    and "take h inp @ take (3 - h) (drop h inp) = take 3 inp"
proof -
  show "read_all (3 - h) (drop h inp) = Some (take (3 - h) (drop h inp), drop 3 inp)"
    using assms by (simp add: read_all_def)
  show "take h inp @ take (3 - h) (drop h inp) = take 3 inp"
    using take_add [of h "3 - h" inp] assms(1) by simp
qed

lemma unat_of_nat_16: "n < 65536 \<Longrightarrow> unat (of_nat n :: 16 word) = n"
  by (simp add: unat_of_nat take_bit_nat_eq_self)

text \<open>
  A frame that fits the buffer is taken off the stream whole, however the first read
  splits its header, and what is left is the bytes behind it.
\<close>

lemma on_stream_read_frame:
  assumes L: "msgb_laws ops" and h: "h \<le> 3" and b: "length body \<le> 1197"
  obtains req where "mb_data ops req = ipa_frame p body"
    and "on_stream_read ops K wr (Rd h) (ipa_frame p body @ rest) this =
      (if p = IPAC_PROTO_IPACCESS K then andThen (on_recv_ipa_pdu ops K wr req this) (\<lambda>t. Inr (True, t, rest, None))
       else if p = IPAC_PROTO_OSMO K \<and> body \<noteq> [] \<and> has_cb this then Inr (True, this, rest, Some (tl body))
       else Inr (True, this, rest, None))"
proof -
  let ?hd = "be_bytes 2 (of_nat (length body) :: 16 word) @ [p]"
  let ?inp = "ipa_frame p body @ rest"
  have "length ?hd \<le> mb_tailroom ops (mb_new ops 1200)" by (simp add: mb_new_laws [OF L])
  from mb_put_fits [OF L this] obtain r1 where r1: "mb_put ops ?hd (mb_new ops 1200) = Some r1"
      "mb_data ops r1 = ?hd" "mb_tailroom ops r1 = 1197"
    by (auto simp: mb_new_laws [OF L])
  then have "length body \<le> mb_tailroom ops r1" using b by simp
  from mb_put_fits [OF L this] obtain r2 where r2: "mb_put ops body r1 = Some r2" "mb_data ops r2 = ipa_frame p body"
    by (auto simp: ipa_frame_def r1(2))
  have len: "unat (be_word (take 2 ?hd) :: 16 word) = length body"
    using b by (simp add: be_word_be_bytes_full unat_of_nat_16)
  have "length ?inp \<ge> 3" by (simp add: ipa_frame_def)
  note sp = split_read [OF h this, unfolded frame_head]
  have p2: "?hd ! 2 = p" by (simp add: nth_append)
  have ln: "length (ipa_frame p body) = length body + 3" "drop 4 (ipa_frame p body) = tl body"
    by (simp_all add: ipa_frame_def drop_Cons' tl_drop drop_Suc)
  have "on_stream_read ops K wr (Rd h) ?inp this =
      (if p = IPAC_PROTO_IPACCESS K then andThen (on_recv_ipa_pdu ops K wr r2 this) (\<lambda>t. Inr (True, t, rest, None))
       else if p = IPAC_PROTO_OSMO K \<and> body \<noteq> [] \<and> has_cb this then Inr (True, this, rest, Some (tl body))
       else Inr (True, this, rest, None))"
    unfolding on_stream_read_def HEAD_SIZE_def IPA_ALLOC_SIZE_def first_read.case Let_def sp option.case prod.case len p2
    using b r1 r2 ln by (auto simp: lift_mb_def read_all_def)
  with r2(2) show ?thesis by (rule that)
qed

lemma send_pdu_frame:
  assumes L: "msgb_laws ops" and "4 \<le> mb_headroom ops msg" and up: "stream_up this"
    and wr: "wr (ipa_frame (IPAC_PROTO_OSMO K) (osmo_proto # mb_data ops msg))"
  shows "send_pdu ops K wr osmo_proto msg this =
    Inr (Inr (length (mb_data ops msg) + 4),
         this\<lparr>out := out this @ [ipa_frame (IPAC_PROTO_OSMO K) (osmo_proto # mb_data ops msg)]\<rparr>)"
proof -
  let ?b = "be_bytes 2 (of_nat (length (mb_data ops msg) + 1) :: 16 word) @ [IPAC_PROTO_OSMO K, osmo_proto]"
  obtain m where m: "mb_push ops ?b msg = Some m" "mb_data ops m = ?b @ mb_data ops msg"
    using mb_push_fits [OF L, of ?b msg] assms(2) by auto
  have fr: "mb_data ops m = ipa_frame (IPAC_PROTO_OSMO K) (osmo_proto # mb_data ops msg)"
    using m(2) by (simp add: ipa_frame_def add.commute)
  have ln: "length (mb_data ops m) = length (mb_data ops msg) + 4" using m(2) by simp
  show ?thesis using m(1) wr up ln
    by (simp add: send_pdu_def HEAD_SIZE_def Let_def lift_mb_def stream_write_def fr)
qed

section \<open>The answer to an identity request\<close>

definition tag_enc :: "ipa_consts \<Rightarrow> byte \<Rightarrow> chunk" where
  "tag_enc K tag = (case tag_value K tag of None \<Rightarrow> []
     | Some v \<Rightarrow> be_bytes 2 (of_nat (length v + 1) :: 16 word) @ tag # v)"

lemma tag_put_fits:
  assumes L: "msgb_laws ops" and r: "length v + 3 \<le> mb_tailroom ops resp"
  obtains r' where "ipa_tag_put_str ops tag v resp = Inr r'"
    and "mb_data ops r' = mb_data ops resp @ be_bytes 2 (of_nat (length v + 1) :: 16 word) @ tag # v"
    and "mb_tailroom ops r' = mb_tailroom ops resp - (length v + 3)"
proof -
  let ?n = "be_bytes 2 (of_nat (length v + 1) :: 16 word)"
  have "length ?n \<le> mb_tailroom ops resp" using r by simp
  from mb_put_fits [OF L this] obtain r1 where r1: "mb_put ops ?n resp = Some r1" "mb_data ops r1 = mb_data ops resp @ ?n"
    "mb_tailroom ops r1 = mb_tailroom ops resp - 2" by auto
  have "length [tag] \<le> mb_tailroom ops r1" using r r1 by simp
  from mb_put_fits [OF L this] obtain r2 where r2: "mb_put ops [tag] r1 = Some r2"
    "mb_data ops r2 = mb_data ops r1 @ [tag]" "mb_tailroom ops r2 = mb_tailroom ops r1 - 1" by auto
  have "length v \<le> mb_tailroom ops r2" using r r1 r2 by simp
  from mb_put_fits [OF L this] obtain r3 where "mb_put ops v r2 = Some r3" "mb_data ops r3 = mb_data ops r2 @ v"
    "mb_tailroom ops r3 = mb_tailroom ops r2 - length v" .
  with r1 r2 show ?thesis by (intro that [of r3]) (simp_all add: ipa_tag_put_str_def lift_mb_def)
qed

lemma tag_put_full:
  assumes L: "msgb_laws ops" and r: "mb_tailroom ops resp < length v + 3"
  shows "ipa_tag_put_str ops tag v resp = Inl Panic"
proof -
  let ?n = "be_bytes 2 (of_nat (length v + 1) :: 16 word)"
  show ?thesis
  proof (cases "length ?n \<le> mb_tailroom ops resp")
    case False
    then show ?thesis using mb_put_full [OF L, of resp ?n] by (simp add: ipa_tag_put_str_def lift_mb_def)
  next
    case True
    from mb_put_fits [OF L True] obtain r1 where r1: "mb_put ops ?n resp = Some r1"
      "mb_tailroom ops r1 = mb_tailroom ops resp - 2" by auto
    show ?thesis
    proof (cases "length [tag] \<le> mb_tailroom ops r1")
      case False
      then show ?thesis using mb_put_full [OF L, of r1 "[tag]"] r1 by (simp add: ipa_tag_put_str_def lift_mb_def)
    next
      case T2: True
      from mb_put_fits [OF L T2] obtain r2 where r2: "mb_put ops [tag] r1 = Some r2"
        "mb_tailroom ops r2 = mb_tailroom ops r1 - 1" by auto
      have "mb_tailroom ops r2 < length v" using r r1(2) r2(2) True T2 by simp
      from mb_put_full [OF L this] show ?thesis using r1 r2 by (simp add: ipa_tag_put_str_def lift_mb_def)
    qed
  qed
qed

lemma tag_encode_fits:
  assumes "msgb_laws ops" and "length (tag_enc K tag) \<le> mb_tailroom ops resp"
  obtains r' where "ipa_resp_tag_encode ops K tag resp = Inr r'" and "mb_data ops r' = mb_data ops resp @ tag_enc K tag"
    and "mb_tailroom ops r' = mb_tailroom ops resp - length (tag_enc K tag)"
proof (cases "tag_value K tag")
  case None
  then show ?thesis by (intro that [of resp]) (simp_all add: ipa_resp_tag_encode_def tag_enc_def)
next
  case (Some v)
  then have "length v + 3 \<le> mb_tailroom ops resp" using assms(2) by (simp add: tag_enc_def)
  from tag_put_fits [OF assms(1) this, of tag] obtain r' where "ipa_tag_put_str ops tag v resp = Inr r'"
    "mb_data ops r' = mb_data ops resp @ be_bytes 2 (of_nat (length v + 1) :: 16 word) @ tag # v"
    "mb_tailroom ops r' = mb_tailroom ops resp - (length v + 3)" .
  with Some show ?thesis by (intro that [of r']) (simp_all add: ipa_resp_tag_encode_def tag_enc_def)
qed

lemma tag_encode_full:
  assumes "msgb_laws ops" and "mb_tailroom ops resp < length (tag_enc K tag)"
  shows "ipa_resp_tag_encode ops K tag resp = Inl Panic"
  using assms tag_put_full [OF assms(1)]
  by (auto simp: ipa_resp_tag_encode_def tag_enc_def split: option.splits)

text \<open>Whatever the request holds, the loop over it stops: each round takes a byte off.\<close>

lemma id_tag_loop_stops:
  assumes L: "msgb_laws ops"
  shows "\<exists>r. id_tag_loop ops K req resp = Some r"
proof (induction "length (mb_data ops req)" arbitrary: req resp rule: less_induct)
  case less
  show ?case
  proof (cases "2 \<le> length (mb_data ops req)")
    case False
    then show ?thesis by (simp add: id_tag_loop.simps)
  next
    case True
    let ?q1 = "mb_pull ops 1 req"
    have d1: "length (mb_data ops ?q1) = length (mb_data ops req) - 1"
      using mb_pull_law [OF L, of 1 req] True by simp
    have d2: "n \<le> length (mb_data ops ?q1) \<Longrightarrow> length (mb_data ops (mb_pull ops n ?q1)) < length (mb_data ops req)" for n
      using mb_pull_law [OF L, of n ?q1] d1 True by simp
    show ?thesis
      using less [OF d2 [of 1]] less [OF d2 [of "unat (hd (mb_data ops req))"]] True d1
      by (subst id_tag_loop.simps) (auto simp: Let_def not_less split: sum.split)
  qed
qed

definition id_req :: "byte list \<Rightarrow> chunk" where
  "id_req tags = concat (map (\<lambda>t. [1, t]) tags)"

definition id_answer :: "ipa_consts \<Rightarrow> byte list \<Rightarrow> chunk" where
  "id_answer K tags = concat (map (tag_enc K) tags)"

lemma id_tag_loop_tags:
  assumes L: "msgb_laws ops" and "mb_data ops req = id_req tags"
  shows "if length (id_answer K tags) \<le> mb_tailroom ops resp
    then \<exists>r. id_tag_loop ops K req resp = Some (Inr (Some r)) \<and> mb_data ops r = mb_data ops resp @ id_answer K tags
    else id_tag_loop ops K req resp = Some (Inl Panic)"
  using assms(2)
proof (induction tags arbitrary: req resp)
  case Nil
  then show ?case by (simp add: id_req_def id_answer_def id_tag_loop.simps)
next
  case (Cons t tags)
  let ?q1 = "mb_pull ops (Suc 0) req"
  have q: "mb_data ops req = 1 # t # id_req tags" using Cons.prems by (simp add: id_req_def)
  have q1: "mb_data ops ?q1 = t # id_req tags" using mb_pull_law [OF L, of "Suc 0" req] q by simp
  have q2: "mb_data ops (mb_pull ops (Suc 0) ?q1) = id_req tags" using mb_pull_law [OF L, of "Suc 0" ?q1] q1 by simp
  have step: "id_tag_loop ops K req resp = (case ipa_resp_tag_encode ops K t resp of
      Inl e \<Rightarrow> Some (Inl e) | Inr resp1 \<Rightarrow> id_tag_loop ops K (mb_pull ops (Suc 0) ?q1) resp1)"
    by (subst id_tag_loop.simps) (use q1 in \<open>simp add: q Let_def cong: sum.case_cong\<close>)
  have ans: "id_answer K (t # tags) = tag_enc K t @ id_answer K tags" by (simp add: id_answer_def)
  show ?case
  proof (cases "length (tag_enc K t) \<le> mb_tailroom ops resp")
    case True
    then obtain r' where r': "ipa_resp_tag_encode ops K t resp = Inr r'" "mb_data ops r' = mb_data ops resp @ tag_enc K t"
      "mb_tailroom ops r' = mb_tailroom ops resp - length (tag_enc K t)" using tag_encode_fits [OF L] by blast
    then have lp: "id_tag_loop ops K req resp = id_tag_loop ops K (mb_pull ops (Suc 0) ?q1) r'" using step by simp
    show ?thesis using Cons.IH [OF q2, of r'] r' True unfolding lp ans by (auto split: if_splits)
  next
    case False
    then show ?thesis using tag_encode_full [OF L, of resp K t] step by (simp add: ans)
  qed
qed

lemma send_simple_ok:
  "stream_up this \<Longrightarrow> wr (ipa_frame (IPAC_PROTO_IPACCESS K) [ty]) \<Longrightarrow> ipa_pdu_base_send_simple K wr ty this
     = Inr (this\<lparr>out := out this @ [ipa_frame (IPAC_PROTO_IPACCESS K) [ty]]\<rparr>)"
  by (simp add: ipa_pdu_base_send_simple_def stream_write_def ipa_frame_def)

lemma send_id_resp_tags:
  assumes L: "msgb_laws ops" and req: "mb_data ops req = ipa_frame p (ty # id_req tags)"
    and room: "132 + MSGB_SIZE K \<le> 1200" and up: "stream_up this" and wr: "\<forall>bs. wr bs"
  shows "ipa_pdu_base_send_id_resp ops K wr req this =
    (if length (id_answer K tags) + 132 + MSGB_SIZE K \<le> 1200
     then Inr (this\<lparr>out := out this @ [ipa_frame (IPAC_PROTO_IPACCESS K) (IPAC_MSGT_ID_RESP K # id_answer K tags),
            ipa_frame (IPAC_PROTO_IPACCESS K) [IPAC_MSGT_ID_ACK K]]\<rparr>)
     else Inl Panic)"
proof -
  let ?r0 = "mb_reserve ops 128 (mb_new ops (1200 - MSGB_SIZE K))"
  let ?q1 = "mb_pull ops 3 req"
  have q1: "mb_data ops ?q1 = ty # id_req tags"
    using mb_pull_law [OF L, of 3 req] req by (simp add: ipa_frame_def)
  have q2: "mb_data ops (mb_pull ops (Suc 0) ?q1) = id_req tags" using mb_pull_law [OF L, of "Suc 0" ?q1] q1 by simp
  have r0: "mb_data ops ?r0 = []" "mb_tailroom ops ?r0 = 1200 - MSGB_SIZE K - 128"
    using room by (simp_all add: mb_reserve_laws [OF L] mb_new_laws [OF L])
  have "length (replicate 3 (0 :: byte)) \<le> mb_tailroom ops ?r0" using room r0 by simp
  from mb_put_fits [OF L this] obtain r1 where r1: "mb_put ops (replicate 3 0) ?r0 = Some r1"
    "mb_data ops r1 = replicate 3 0" "mb_tailroom ops r1 = 1200 - MSGB_SIZE K - 131" using r0 by auto
  have "length [IPAC_MSGT_ID_RESP K] \<le> mb_tailroom ops r1" using room r1 by simp
  from mb_put_fits [OF L this] obtain r2 where r2: "mb_put ops [IPAC_MSGT_ID_RESP K] r1 = Some r2"
    "mb_data ops r2 = replicate 3 0 @ [IPAC_MSGT_ID_RESP K]" "mb_tailroom ops r2 = 1200 - MSGB_SIZE K - 132" using r1 by auto
  have sd: "stream_up (this\<lparr>out := x\<rparr>)" "wr bs" for x bs using up wr by auto
  note loop = id_tag_loop_tags [OF L q2, of K r2, unfolded r2(2,3)]
  note defs = ipa_pdu_base_send_id_resp_def HEAD_SIZE_def IPA_ALLOC_SIZE_def Let_def
  show ?thesis
  proof (cases "length (id_answer K tags) + 132 + MSGB_SIZE K \<le> 1200")
    case True
    then have "length (id_answer K tags) \<le> 1200 - MSGB_SIZE K - 132" by simp
    with loop obtain r where "id_tag_loop ops K (mb_pull ops (Suc 0) ?q1) r2 = Some (Inr (Some r))"
      "mb_data ops r = (replicate 3 0 @ [IPAC_MSGT_ID_RESP K]) @ id_answer K tags" by (auto simp only: if_True)
    then show ?thesis using True q1 r1(1) r2(1) up
      by (simp add: defs lift_mb_def stream_write_def sd send_simple_ok flip: append_assoc) (simp add: ipa_frame_def)
  next
    case False
    then have "\<not> length (id_answer K tags) \<le> 1200 - MSGB_SIZE K - 132" using room by simp
    with loop have "id_tag_loop ops K (mb_pull ops (Suc 0) ?q1) r2 = Some (Inl Panic)" by (simp only: if_False)
    then show ?thesis using False q1 r1(1) r2(1) by (simp add: defs lift_mb_def)
  qed
qed

section \<open>Reconnection\<close>

text \<open>What handling a message leaves alone: everything but the bytes written.\<close>

definition same_link :: "ipa_client \<Rightarrow> ipa_client \<Rightarrow> bool" where
  "same_link t t' \<longleftrightarrow> t' = t\<lparr>out := out t'\<rparr>"

lemma stream_write_link: "stream_write wr bs t = Inr (ok, t') \<Longrightarrow> same_link t t'"
  by (auto simp: stream_write_def same_link_def split: if_splits)

lemma send_simple_link: "ipa_pdu_base_send_simple K wr ty t = Inr t' \<Longrightarrow> same_link t t'"
  by (auto simp: ipa_pdu_base_send_simple_def andThen_Inr_iff dest: stream_write_link)

lemma same_link_trans: "same_link t u \<Longrightarrow> same_link u v \<Longrightarrow> same_link t v"
  unfolding same_link_def by (metis ipa_client.surjective ipa_client.update_convs(7) ipa_client.select_convs)

lemma same_link_refl: "same_link t t"
  by (simp add: same_link_def)

lemma id_resp_link: "ipa_pdu_base_send_id_resp ops K wr req t = Inr t' \<Longrightarrow> same_link t t'"
  unfolding ipa_pdu_base_send_id_resp_def Let_def
  by (auto elim!: andThen_InrE simp: same_link_refl split: if_split_asm option.split_asm sum.split_asm
      dest!: stream_write_link send_simple_link) (rule same_link_trans)

lemma on_recv_link: "on_recv_ipa_pdu ops K wr pdu t = Inr t' \<Longrightarrow> same_link t t'"
  by (auto simp: on_recv_ipa_pdu_def Let_def same_link_refl split: if_splits dest: send_simple_link id_resp_link)

lemma on_stream_read_link:
  assumes "on_stream_read ops K wr fr inp t = Inr (b, t', rest, m)"
  shows "if b then same_link t t' else t' = reconnect_ipa t"
  using assms
  by (auto simp: on_stream_read_def read_error_def Let_def andThen_Inr_iff same_link_refl
      split: if_splits first_read.splits bool.splits option.splits dest: on_recv_link)

text \<open>
  The running client: the watcher calls \<open>on_stream_read\<close> while the stream is registered, the
  scheduler runs a due job, requests are sent, the callback is registered.  (\<open>disconnect\<close> is
  called by \<open>connect_ipa\<close> only.)
\<close>

inductive ipa_step :: "'m msgb_ops \<Rightarrow> ipa_consts \<Rightarrow> ipa_client \<Rightarrow> ipa_client \<Rightarrow> bool"
  for ops :: "'m msgb_ops" and K :: ipa_consts where
  ipa_read: "stream_up t \<Longrightarrow> on_stream_read ops K wr fr inp t = Inr (b, t', rest, m) \<Longrightarrow> ipa_step ops K t t'"
| ipa_job: "scheduled t = d # ds \<Longrightarrow> reconnect_job ops K wr conn fr inp (t\<lparr>scheduled := ds\<rparr>) = Inr t' \<Longrightarrow> ipa_step ops K t t'"
| ipa_send: "send_pdu ops K wr proto msg t = Inr (r, t') \<Longrightarrow> ipa_step ops K t t'"
| ipa_recv: "ipa_step ops K t (on_recv t)"

inductive ipa_init :: "'m msgb_ops \<Rightarrow> ipa_consts \<Rightarrow> ipa_client \<Rightarrow> bool" for ops :: "'m msgb_ops" and K :: ipa_consts where
  "osmo_epdg_ipa_client_create ops K wr conn fr inp = Inr t \<Longrightarrow> ipa_init ops K t"

definition delay_ok :: "32 word \<Rightarrow> bool" where
  "delay_ok d \<longleftrightarrow> 10 \<le> d \<and> d \<le> 15000"

definition ipa_invar :: "ipa_client \<Rightarrow> bool" where
  "ipa_invar t \<longleftrightarrow> length (scheduled t) = (if reconnecting t then 1 else 0)
     \<and> (\<forall>d \<in> set (scheduled t). delay_ok d) \<and> delay_ok (reconnect_backoff_ms t)
     \<and> reconnect_backoff_max_ms t = 15000 \<and> (\<not> stream_up t \<longrightarrow> reconnecting t)"

text \<open>A job being run is out of the queue while \<open>reconnecting\<close> still holds.\<close>

definition job_invar :: "ipa_client \<Rightarrow> bool" where
  "job_invar t \<longleftrightarrow> scheduled t = [] \<and> reconnecting t \<and> delay_ok (reconnect_backoff_ms t)
     \<and> reconnect_backoff_max_ms t = 15000"

lemma delay_doubled: "delay_ok b \<Longrightarrow> delay_ok (if b * 2 > 15000 then 15000 else b * 2)"
proof -
  assume "delay_ok b"
  then have b: "10 \<le> unat b" "unat b \<le> 15000" by (simp_all add: delay_ok_def word_le_nat_alt)
  then have "unat (b * 2) = unat b * 2" by (subst unat_mult_lem [THEN iffD1]) simp_all
  with b show ?thesis by (simp add: delay_ok_def word_le_nat_alt word_less_nat_alt)
qed

lemma same_link_invar: "same_link t t' \<Longrightarrow> ipa_invar t \<Longrightarrow> ipa_invar t'"
  unfolding same_link_def ipa_invar_def by (metis ipa_client.select_convs(1-6) ipa_client.surjective ipa_client.update_convs(7))

lemma reconnect_ipa_invar: "ipa_invar t \<Longrightarrow> ipa_invar (reconnect_ipa t)"
  by (auto simp: ipa_invar_def reconnect_ipa_def)

lemma read_invar: "on_stream_read ops K wr fr inp t = Inr (b, t', rest, m) \<Longrightarrow> ipa_invar t \<Longrightarrow> ipa_invar t'"
  using on_stream_read_link [of ops K wr fr inp t b t' rest m]
  by (auto split: if_splits intro: same_link_invar reconnect_ipa_invar)

lemma disconnected: "(if stream_up t then disconnect t else t) = t\<lparr>stream_up := False\<rparr>"
  by (cases t) (simp add: disconnect_def)

lemma connect_failed: "connect_ipa ops K wr False fr inp t = Inr (False, reconnect_ipa (t\<lparr>stream_up := False\<rparr>))"
  by (simp add: connect_ipa_def disconnected)

lemma connect_up:
  assumes "connect_ipa ops K wr True fr inp t = Inr (ok, t')"
  obtains u b where "ok" and "t' = u\<lparr>reconnect_backoff_ms := 10\<rparr>"
    and "if b then same_link (t\<lparr>stream_up := True\<rparr>) u else u = reconnect_ipa (t\<lparr>stream_up := True\<rparr>)"
  using assms unfolding connect_ipa_def Let_def disconnected
  by (auto elim!: andThen_InrE dest!: on_stream_read_link simp: INITIAL_BACKOFF_MS_def)

lemma delay_initial: "delay_ok 10"
  by (simp add: delay_ok_def)

lemma same_link_fields:
  assumes "same_link t t'"
  shows "stream_up t' = stream_up t" "reconnecting t' = reconnecting t" "scheduled t' = scheduled t"
    "reconnect_backoff_ms t' = reconnect_backoff_ms t" "reconnect_backoff_max_ms t' = reconnect_backoff_max_ms t"
  by (subst assms [unfolded same_link_def], simp)+

lemma job_invar_preserved:
  assumes inv: "job_invar t" and job: "reconnect_job ops K wr conn fr inp t = Inr t'"
  shows "ipa_invar t'"
proof (cases conn)
  case False
  with job have "t' = (let b1 = (if reconnect_backoff_ms t * 2 > 15000 then 15000 else reconnect_backoff_ms t * 2)
      in t\<lparr>stream_up := False, reconnect_backoff_ms := b1, scheduled := [b1]\<rparr>)"
    using inv by (auto simp: reconnect_job_def connect_failed reconnect_ipa_def job_invar_def Let_def)
  with inv delay_doubled show ?thesis by (simp add: ipa_invar_def job_invar_def Let_def)
next
  case True
  with job obtain ok u where c: "connect_ipa ops K wr True fr inp t = Inr (ok, u)" and
    t': "ok \<Longrightarrow> t' = u\<lparr>reconnecting := False\<rparr>" unfolding reconnect_job_def Let_def
    by (auto elim!: andThen_InrE split: if_split_asm)
  from connect_up [OF c] obtain v b where "ok" and u: "u = v\<lparr>reconnect_backoff_ms := 10\<rparr>"
    and "if b then same_link (t\<lparr>stream_up := True\<rparr>) v else v = reconnect_ipa (t\<lparr>stream_up := True\<rparr>)" .
  then have "scheduled v = []" "stream_up v" "reconnect_backoff_max_ms v = 15000"
    using inv by (auto simp: job_invar_def reconnect_ipa_def same_link_fields split: if_splits)
  with u t' \<open>ok\<close> show ?thesis by (simp add: ipa_invar_def delay_initial)
qed

lemma create_invar:
  assumes "osmo_epdg_ipa_client_create ops K wr conn fr inp = Inr t'"
  shows "ipa_invar t'"
proof (cases conn)
  case False
  with assms show ?thesis
    by (auto simp: osmo_epdg_ipa_client_create_def connect_failed reconnect_ipa_def ipa_invar_def
        INITIAL_BACKOFF_MS_def MAX_BACKOFF_MS_def delay_initial)
next
  case True
  with assms obtain ok t where "connect_ipa ops K wr True fr inp t = Inr (ok, t')" and t: "\<not> reconnecting t"
      "scheduled t = []" "reconnect_backoff_ms t = 10" "reconnect_backoff_max_ms t = 15000"
    unfolding osmo_epdg_ipa_client_create_def by (auto elim!: andThen_InrE simp: INITIAL_BACKOFF_MS_def MAX_BACKOFF_MS_def)
  from connect_up [OF this(1)] obtain u b where t': "t' = u\<lparr>reconnect_backoff_ms := 10\<rparr>"
    and u: "if b then same_link (t\<lparr>stream_up := True\<rparr>) u else u = reconnect_ipa (t\<lparr>stream_up := True\<rparr>)" .
  have "ipa_invar (t\<lparr>stream_up := True\<rparr>)" using t by (simp add: ipa_invar_def delay_initial)
  with u have "ipa_invar u" by (auto split: if_splits intro: same_link_invar reconnect_ipa_invar)
  with t' show ?thesis by (simp add: ipa_invar_def delay_initial)
qed

lemma send_link: "send_pdu ops K wr proto msg t = Inr (r, t') \<Longrightarrow> same_link t t'"
  unfolding send_pdu_def Let_def
  by (auto elim!: andThen_InrE simp: same_link_refl split: if_split_asm dest!: stream_write_link)

lemma on_recv_invar: "ipa_invar t \<Longrightarrow> ipa_invar (on_recv t)"
  by (simp add: ipa_invar_def on_recv_def)

lemma ipa_step_invar:
  assumes "ipa_step ops K t t'" and "ipa_invar t"
  shows "ipa_invar t'"
  using assms
proof cases
  case (ipa_job d ds wr conn fr inp)
  then have "job_invar (t\<lparr>scheduled := ds\<rparr>)"
    using assms(2) by (cases "reconnecting t") (auto simp: ipa_invar_def job_invar_def)
  then show ?thesis using ipa_job(2) by (rule job_invar_preserved)
qed (use assms(2) in \<open>auto intro: read_invar same_link_invar on_recv_invar dest: send_link\<close>)

interpretation ipa: inv_system "ipa_init ops K" "ipa_step ops K" ipa_invar for ops K
  by unfold_locales (auto elim: ipa_init.cases intro: create_invar ipa_step_invar)

text \<open>\<open>n\<close> runs of the reconnection job, each of which fails to connect.\<close>

fun failed_attempts :: "'m msgb_ops \<Rightarrow> ipa_consts \<Rightarrow> nat \<Rightarrow> ipa_client \<Rightarrow> ipa_client res" where
  "failed_attempts ops K 0 t = Inr t"
| "failed_attempts ops K (Suc n) t =
     andThen (failed_attempts ops K n t) (\<lambda>u.
       reconnect_job ops K (\<lambda>_. True) False (RdFail False) [] (u\<lparr>scheduled := tl (scheduled u)\<rparr>))"

definition backoff_after :: "nat \<Rightarrow> nat" where
  "backoff_after n = min (10 * 2 ^ n) 15000"

lemma backoff_after_Suc: "backoff_after (Suc n) = min (2 * backoff_after n) 15000"
  by (simp add: backoff_after_def min_def)

lemma backoff_doubled:
  "(if (of_nat (backoff_after n) :: 32 word) * 2 > 15000 then 15000 else of_nat (backoff_after n) * 2)
     = (of_nat (backoff_after (Suc n)) :: 32 word)"
proof -
  have "backoff_after n \<le> 15000" by (simp add: backoff_after_def)
  then have "unat ((of_nat (backoff_after n) :: 32 word) * 2) = 2 * backoff_after n"
    using unat_of_nat [of "2 * backoff_after n", where 'a = 32] by (simp add: take_bit_nat_eq_self mult.commute)
  then show ?thesis by (simp add: backoff_after_Suc word_less_nat_alt min_def mult.commute)
qed

lemma failed_attempts_run:
  assumes "reconnecting t" "scheduled t = [10]" "reconnect_backoff_ms t = 10" "reconnect_backoff_max_ms t = 15000" "\<not> stream_up t"
  shows "failed_attempts ops K n t =
    Inr (t\<lparr>reconnect_backoff_ms := of_nat (backoff_after n), scheduled := [of_nat (backoff_after n)]\<rparr>)"
proof (induction n)
  case 0
  then show ?case using assms by (simp add: backoff_after_def)
next
  case (Suc n)
  have "(t\<lparr>stream_up := False\<rparr>) = t" using assms(5) by (cases t) simp
  then show ?case
    unfolding failed_attempts.simps(2) Suc.IH andThen.simps
    using assms by (simp add: reconnect_job_def connect_failed reconnect_ipa_def Let_def flip: backoff_doubled) 
qed

section \<open>The properties\<close>


text \<open>
  A well-formed identity request is answered by exactly one response, with the value of
  each known tag in the order asked, and an acknowledgement, if the answer fits the response
  buffer; if it does not fit, \<open>msgb_put\<close> aborts the process, since the loop does not compare
  the room left with what it appends.
\<close>

theorem id_request_answered:
  assumes "msgb_laws ops" and "132 + MSGB_SIZE K \<le> 1200" and "length tags \<le> 598" and "h \<in> {1, 2, 3}"
    and "stream_up this" and "\<forall>bs. wr bs" and "IPAC_MSGT_ID_GET K \<notin> {IPAC_MSGT_PING K, IPAC_MSGT_PONG K}"
  shows "on_stream_read ops K wr (Rd h) (ipa_frame (IPAC_PROTO_IPACCESS K) (IPAC_MSGT_ID_GET K # id_req tags) @ rest) this =
    (if length (id_answer K tags) + 132 + MSGB_SIZE K \<le> 1200
     then Inr (True, this\<lparr>out := out this @
            [ipa_frame (IPAC_PROTO_IPACCESS K) (IPAC_MSGT_ID_RESP K # id_answer K tags),
             ipa_frame (IPAC_PROTO_IPACCESS K) [IPAC_MSGT_ID_ACK K]]\<rparr>, rest, None)
     else Inl Panic)"
proof -
  let ?body = "IPAC_MSGT_ID_GET K # id_req tags"
  have len: "length (id_req ts) = 2 * length ts" for ts by (induction ts) (simp_all add: id_req_def)
  have h: "h \<le> 3" and b: "length ?body \<le> 1197" using assms(3,4) by (auto simp: len)
  from on_stream_read_frame [OF assms(1) h b, of "IPAC_PROTO_IPACCESS K" K wr rest this] obtain req where
    req: "mb_data ops req = ipa_frame (IPAC_PROTO_IPACCESS K) ?body" and
    rd: "on_stream_read ops K wr (Rd h) (ipa_frame (IPAC_PROTO_IPACCESS K) ?body @ rest) this =
      andThen (on_recv_ipa_pdu ops K wr req this) (\<lambda>t. Inr (True, t, rest, None))" by auto
  have "on_recv_ipa_pdu ops K wr req this = ipa_pdu_base_send_id_resp ops K wr req this"
    using assms(7) by (auto simp: on_recv_ipa_pdu_def req ipa_frame_def HEAD_SIZE_def Let_def nth_append)
  then show ?thesis using send_id_resp_tags [OF assms(1) req assms(2,5,6)] rd by simp
qed

text \<open>
  C30. At most one reconnection job is ever pending, and one is pending exactly while
  \<open>reconnecting\<close> is set; its delay is between 10 ms and 15 s; and a client that has no stream
  has a job pending, so it tries again.
\<close>

theorem reconnection_pending:
  assumes "reachable (ipa_init ops K) (ipa_step ops K) t"
  shows "length (scheduled t) = (if reconnecting t then 1 else 0)
    \<and> (\<forall>d \<in> set (scheduled t). 10 \<le> d \<and> d \<le> 15000)
    \<and> (\<not> stream_up t \<longrightarrow> reconnecting t)"
  using ipa.reachable_invar [OF assms] by (auto simp: ipa_invar_def delay_ok_def)

text \<open>
  After \<open>n\<close> failed attempts the next one is scheduled in the initial 10 ms doubled \<open>n\<close> times,
  or in 15 s if that is less.
\<close>

theorem backoff_doubles:
  "\<exists>t t'. osmo_epdg_ipa_client_create ops K wr False fr inp = Inr t \<and> failed_attempts ops K n t = Inr t'
     \<and> scheduled t' = [of_nat (min (10 * 2 ^ n) 15000)]"
proof -
  obtain t where "osmo_epdg_ipa_client_create ops K wr False fr inp = Inr t" "reconnecting t" "scheduled t = [10]"
      "reconnect_backoff_ms t = 10" "reconnect_backoff_max_ms t = 15000" "\<not> stream_up t"
    by (simp add: osmo_epdg_ipa_client_create_def connect_failed reconnect_ipa_def INITIAL_BACKOFF_MS_def MAX_BACKOFF_MS_def)
  with failed_attempts_run [of t ops K n] show ?thesis by (auto simp: backoff_after_def)
qed

text \<open>
  A read error on the first read after a successful reconnection schedules nothing:
  \<open>reconnect_ipa\<close> sees \<open>reconnecting\<close> still set, and the job then clears it.  The stream
  stays open, and only a further read through the watcher can start a reconnection.
\<close>

theorem read_error_in_job_is_dropped:
  assumes "reconnecting this"
  shows "reconnect_job ops K wr True (RdFail False) inp this
    = Inr (this\<lparr>stream_up := True, reconnecting := False, reconnect_backoff_ms := 10\<rparr>)"
  using assms
  by (simp add: reconnect_job_def connect_ipa_def disconnected on_stream_read_def read_error_def reconnect_ipa_def
      INITIAL_BACKOFF_MS_def Let_def)

section \<open>A concrete buffer library\<close>

text \<open>Buffers as headroom, contents and tailroom, the constants as libosmocore defines them.\<close>

definition sample_msgb :: "(nat \<times> chunk \<times> nat) msgb_ops" where
  "sample_msgb = \<lparr>mb_new = (\<lambda>n. (0, [], n)), mb_data = (\<lambda>(h, d, t). d), mb_headroom = (\<lambda>(h, d, t). h),
     mb_tailroom = (\<lambda>(h, d, t). t), mb_reserve = (\<lambda>n (h, d, t). (h + n, d, t - n)),
     mb_pull = (\<lambda>n (h, d, t). (h + n, drop n d, t)),
     mb_put = (\<lambda>bs (h, d, t). if length bs \<le> t then Some (h, d @ bs, t - length bs) else None),
     mb_push = (\<lambda>bs (h, d, t). if length bs \<le> h then Some (h - length bs, bs @ d, t) else None)\<rparr>"

definition sample_ipa :: ipa_consts where
  "sample_ipa = \<lparr>IPAC_PROTO_OSMO = 0xee, IPAC_PROTO_IPACCESS = 0xfe, IPAC_MSGT_PING = 0, IPAC_MSGT_PONG = 1,
     IPAC_MSGT_ID_GET = 4, IPAC_MSGT_ID_RESP = 5, IPAC_MSGT_ID_ACK = 6, IPAC_IDTAG_SERNR = 0, IPAC_IDTAG_UNITNAME = 1,
     IPAC_IDTAG_LOCATION1 = 2, IPAC_IDTAG_LOCATION2 = 3, IPAC_IDTAG_EQUIPVERS = 4, IPAC_IDTAG_SWVERSION = 5,
     IPAC_IDTAG_UNIT = 8, MSGB_SIZE = 104\<rparr>"

definition sample_client :: ipa_client where
  "sample_client = \<lparr>stream_up = True, has_cb = True, reconnecting = False, reconnect_backoff_ms = 10,
     reconnect_backoff_max_ms = 15000, scheduled = [], out = []\<rparr>"

lemma sample_msgb_laws: "msgb_laws sample_msgb"
  by (auto simp: msgb_laws_def sample_msgb_def)

lemma sample_msgb_data: "mb_data sample_msgb (h, d, t) = d" "mb_headroom sample_msgb (h, d, t) = h"
  by (simp_all add: sample_msgb_def)


lemma sample_answer_length: "length (id_answer sample_ipa (replicate n 0)) = 25 * n"
  by (induction n) (simp_all add: id_answer_def tag_enc_def tag_value_def sample_ipa_def str_swan_def)

theorem id_request_answered_witness:
  "on_stream_read sample_msgb sample_ipa (\<lambda>_. True) (Rd 3)
     (ipa_frame 0xfe (4 # id_req (replicate 39 0)) @ []) sample_client = Inl Panic"
  using id_request_answered [OF sample_msgb_laws, of sample_ipa "replicate 39 0" 3 sample_client "\<lambda>_. True" "[]"]
  unfolding sample_answer_length
  by (simp add: sample_client_def sample_ipa_def)

theorem reconnection_pending_witness:
  "\<exists>t. osmo_epdg_ipa_client_create sample_msgb sample_ipa (\<lambda>_. True) False (RdFail False) [] = Inr t
     \<and> length (scheduled t) = 1 \<and> reconnecting t"
proof -
  let ?t = "sample_client\<lparr>stream_up := False, has_cb := False, reconnecting := True, scheduled := [10]\<rparr>"
  have c: "osmo_epdg_ipa_client_create sample_msgb sample_ipa (\<lambda>_. True) False (RdFail False) [] = Inr ?t"
    by (simp add: osmo_epdg_ipa_client_create_def connect_failed reconnect_ipa_def INITIAL_BACKOFF_MS_def
        MAX_BACKOFF_MS_def sample_client_def)
  then have "reachable (ipa_init sample_msgb sample_ipa) (ipa_step sample_msgb sample_ipa) ?t"
    by (intro reach_init ipa_init.intros)
  from reconnection_pending [OF this] c show ?thesis by auto
qed

theorem read_error_in_job_is_dropped_witness:
  "reconnect_job sample_msgb sample_ipa (\<lambda>_. True) True (RdFail False) [] (sample_client\<lparr>reconnecting := True\<rparr>)
     = Inr sample_client"
  using read_error_in_job_is_dropped [of "sample_client\<lparr>reconnecting := True\<rparr>" sample_msgb sample_ipa "\<lambda>_. True" "[]"]
  by (simp add: sample_client_def)

end
