(* ===== verification/Esp_Context.thy ===== *)
theory Esp_Context
  imports Prelude
begin

text \<open>
  Sequence numbers of an ESP security association (\<open>libipsec/esp_context.c\<close>): the outbound
  counter and the inbound anti-replay window, a circular bitmap in a byte buffer.  All
  arithmetic is the code's 32-bit arithmetic.  The specification is the set of sequence
  numbers authenticated so far; the bitmap is shown to implement it.
\<close>

section \<open>Data and operations\<close>

definition ESP_DEFAULT_WINDOW_SIZE :: "32 word" where "ESP_DEFAULT_WINDOW_SIZE = 128"

record esp_context =
  last_seqno :: "32 word"
  seqno_index :: "32 word"
  window_size :: "32 word"
  window :: chunk
  inbound :: bool

definition set_window_bit :: "esp_context \<Rightarrow> 32 word \<Rightarrow> bool \<Rightarrow> esp_context" where
  "set_window_bit this index b =
     (let i = unat (index div 8); m = push_bit (unat (index mod 8)) 1 :: byte in
      if b then this\<lparr>window := (window this)[i := window this ! i OR m]\<rparr>
      else this\<lparr>window := (window this)[i := window this ! i AND NOT m]\<rparr>)"

definition get_window_bit :: "esp_context \<Rightarrow> 32 word \<Rightarrow> bool" where
  "get_window_bit this index =
     (let i = unat (index div 8) in window this ! i AND push_bit (unat (index mod 8)) 1 \<noteq> 0)"

definition check_window :: "esp_context \<Rightarrow> 32 word \<Rightarrow> bool" where
  "check_window this seqno =
     (let off = last_seqno this - seqno;
          off' = (seqno_index this - off) mod window_size this in
      \<not> get_window_bit this off')"

definition verify_seqno :: "esp_context \<Rightarrow> 32 word \<Rightarrow> bool" where
  "verify_seqno this seqno =
     (if \<not> inbound this then False
      else if seqno > last_seqno this then True
      else if seqno > 0 \<and> window_size this > last_seqno this - seqno then check_window this seqno
      else False)"

fun shift_window :: "nat \<Rightarrow> esp_context \<Rightarrow> esp_context" where
  "shift_window 0 this = this"
| "shift_window (Suc n) this =
     (let i = (seqno_index this + 1) mod window_size this in
      shift_window n (set_window_bit (this\<lparr>seqno_index := i\<rparr>) i False))"

definition set_authenticated_seqno :: "esp_context \<Rightarrow> 32 word \<Rightarrow> esp_context" where
  "set_authenticated_seqno this seqno =
     (if \<not> inbound this then this
      else if seqno > last_seqno this then
        (let shift = seqno - last_seqno this;
             shift' = (if shift < window_size this then shift else window_size this);
             this1 = shift_window (unat shift') this;
             this2 = set_window_bit this1 (seqno_index this1) True in
         this2\<lparr>last_seqno := seqno\<rparr>)
      else
        (let i = last_seqno this - seqno in
         set_window_bit this ((seqno_index this - i) mod window_size this) True))"

definition get_seqno :: "esp_context \<Rightarrow> 32 word" where
  "get_seqno this = last_seqno this"

definition next_seqno :: "esp_context \<Rightarrow> 32 word option \<times> esp_context" where
  "next_seqno this =
     (if inbound this \<or> last_seqno this = - 1 then (None, this)
      else (Some (last_seqno this + 1), this\<lparr>last_seqno := last_seqno this + 1\<rparr>))"

text \<open>The sequence number state of a new context; the cipher set-up is not part of the model.\<close>

definition esp_context_create :: "bool \<Rightarrow> esp_context" where
  "esp_context_create inb =
     \<lparr>last_seqno = 0, seqno_index = 0, window_size = ESP_DEFAULT_WINDOW_SIZE,
      window = (if inb then replicate (unat (ESP_DEFAULT_WINDOW_SIZE div 8) + 1) 0 else []), inbound = inb\<rparr>"

text \<open>
  What the caller does with one received packet: drop it if the sequence number does not
  verify or the packet does not authenticate, otherwise record the number.
\<close>

definition receive :: "esp_context \<Rightarrow> 32 word \<times> bool \<Rightarrow> bool \<times> esp_context" where
  "receive this p =
     (let (seqno, authentic) = p in
      if verify_seqno this seqno \<and> authentic then (True, set_authenticated_seqno this seqno) else (False, this))"

fun receive_all :: "esp_context \<Rightarrow> (32 word \<times> bool) list \<Rightarrow> bool list \<times> esp_context" where
  "receive_all this [] = ([], this)"
| "receive_all this (p # ps) =
     (let (b, t) = receive this p; (bs, t') = receive_all t ps in (b # bs, t'))"

section \<open>The bitmap\<close>

definition wbit :: "esp_context \<Rightarrow> nat \<Rightarrow> bool" where
  "wbit this j = bit (window this ! (j div 8)) (j mod 8)"

lemma get_window_bit_wbit: "get_window_bit this index = wbit this (unat index)"
proof -
  have "(b AND push_bit n 1 \<noteq> 0) = bit b n" for b :: byte and n
    by (simp add: and_exp_eq_0_iff_not_bit)
  moreover have "unat (index mod 8) = unat index mod 8" "unat (index div 8) = unat index div 8"
    by (simp_all add: unat_mod unat_div)
  ultimately show ?thesis by (simp add: get_window_bit_def wbit_def Let_def)
qed

lemma set_window_bit_sel [simp]:
  "last_seqno (set_window_bit this i b) = last_seqno this"
  "seqno_index (set_window_bit this i b) = seqno_index this"
  "window_size (set_window_bit this i b) = window_size this"
  "inbound (set_window_bit this i b) = inbound this"
  "length (window (set_window_bit this i b)) = length (window this)"
  by (simp_all add: set_window_bit_def Let_def)

lemma wbit_set:
  assumes "unat index < 8 * length (window this)"
  shows "wbit (set_window_bit this index b) j = (if j = unat index then b else wbit this j)"
proof -
  let ?i = "unat index div 8" and ?n = "unat index mod 8"
  have u: "unat (index mod 8) = ?n" "unat (index div 8) = ?i" by (simp_all add: unat_mod unat_div)
  have i: "?i < length (window this)" using assms by auto
  have jj: "j = unat index \<longleftrightarrow> j div 8 = ?i \<and> j mod 8 = ?n" by (metis div_mult_mod_eq)
  have m: "bit (2 ^ ?n :: byte) k \<longleftrightarrow> k = ?n" for k
    by (auto simp: bit_exp_iff possible_bit_def)
  show ?thesis
  proof (cases "j div 8 = ?i")
    case True
    then show ?thesis using i jj
      by (simp add: m set_window_bit_def wbit_def Let_def u bit_or_iff bit_and_iff bit_not_iff)
  next
    case False
    then show ?thesis using jj by (simp add: set_window_bit_def wbit_def Let_def u)
  qed
qed

lemma wbit_update [simp]:
  "wbit (this\<lparr>last_seqno := x\<rparr>) = wbit this" "wbit (this\<lparr>seqno_index := y\<rparr>) = wbit this"
  by (simp_all add: wbit_def fun_eq_iff)

text \<open>
  Positions are taken modulo the window size; a power of two, so the 32-bit wrap-around of
  the subtraction does not matter.
\<close>

definition pos :: "esp_context \<Rightarrow> int \<Rightarrow> nat" where
  "pos this k = nat ((uint (seqno_index this) + k) mod 128)"

lemma pos_less: "pos this k < 128"
  by (simp add: pos_def nat_less_iff)

lemma pos_eq_iff: "pos this k = pos this l \<longleftrightarrow> k mod 128 = l mod 128"
proof -
  have "pos this k = pos this l \<longleftrightarrow> (uint (seqno_index this) + k) mod 128 = (uint (seqno_index this) + l) mod 128"
    by (simp add: pos_def eq_nat_nat_iff)
  also have "\<dots> \<longleftrightarrow> k mod 128 = l mod 128"
    by (simp add: mod_eq_dvd_iff)
  finally show ?thesis .
qed

lemma sub_mod_128:
  fixes a b :: "32 word"
  shows "unat ((a - b) mod 128) = nat ((uint a - uint b) mod 128)"
proof -
  have "uint ((a - b) mod 128) = uint (a - b) mod 128" by (simp add: uint_mod)
  also have "\<dots> = (uint a - uint b) mod 2 ^ 32 mod 128" by (simp add: uint_word_ariths)
  also have "\<dots> = (uint a - uint b) mod 128" by (simp add: mod_mod_cancel)
  finally show ?thesis by (metis nat_uint_eq)
qed

lemma unat_sub_index:
  "unat ((seqno_index this - w) mod 128) = pos this (- int (unat w))"
  by (simp add: sub_mod_128 pos_def)

lemma unat_next_index: "unat ((seqno_index this + 1) mod 128) = pos this 1"
proof -
  have "uint ((seqno_index this + 1) mod 128) = (uint (seqno_index this) + 1) mod 2 ^ 32 mod 128"
    by (simp add: uint_mod uint_word_ariths)
  also have "\<dots> = (uint (seqno_index this) + 1) mod 128" by (simp add: mod_mod_cancel)
  finally show ?thesis by (simp add: pos_def) (metis nat_uint_eq)
qed

definition window_ok :: "esp_context \<Rightarrow> bool" where
  "window_ok this \<longleftrightarrow> inbound this \<and> window_size this = 128 \<and> length (window this) = 17
     \<and> unat (seqno_index this) < 128"

lemma pos_set_index:
  "pos (set_window_bit (this\<lparr>seqno_index := (seqno_index this + 1) mod 128\<rparr>) i b) k = pos this (k + 1)"
proof -
  have "uint ((seqno_index this + 1) mod 128) = (uint (seqno_index this) + 1) mod 128"
    using unat_next_index [of this] by (simp add: pos_def) (metis int_nat_eq pos_mod_sign uint_nat zero_less_numeral)
  then show ?thesis by (simp add: pos_def mod_simps algebra_simps)
qed

lemma shift_window_spec:
  assumes "window_ok this"
  shows "window_ok (shift_window n this) \<and> last_seqno (shift_window n this) = last_seqno this
    \<and> (\<forall>k. pos (shift_window n this) k = pos this (k + int n))
    \<and> (\<forall>j. wbit (shift_window n this) j \<longleftrightarrow> wbit this j \<and> (\<forall>i \<in> {1..int n}. j \<noteq> pos this i))"
  using assms
proof (induction n arbitrary: this)
  case 0
  then show ?case by simp
next
  case (Suc n)
  let ?i = "(seqno_index this + 1) mod 128"
  let ?t = "set_window_bit (this\<lparr>seqno_index := ?i\<rparr>) ?i False"
  have i: "unat ?i = pos this 1" by (rule unat_next_index)
  have ok: "window_ok ?t" using Suc.prems i pos_less [of this 1] by (simp add: window_ok_def)
  have p: "pos ?t k = pos this (k + 1)" for k by (rule pos_set_index)
  have w: "wbit ?t j \<longleftrightarrow> wbit this j \<and> j \<noteq> pos this 1" for j
    using wbit_set [of ?i "this\<lparr>seqno_index := ?i\<rparr>" False j] i pos_less [of this 1] Suc.prems
    by (auto simp: window_ok_def)
  have r: "(\<forall>i \<in> {1..int (Suc n)}. j \<noteq> pos this i)
      \<longleftrightarrow> j \<noteq> pos this 1 \<and> (\<forall>i \<in> {1..int n}. j \<noteq> pos this (i + 1))" for j
  proof -
    have "{1..int (Suc n)} = insert 1 ((\<lambda>i. i + 1) ` {1..int n})"
      by (auto simp: image_iff)
    then show ?thesis by (simp only: ball_simps)
  qed
  have s: "shift_window (Suc n) this = shift_window n ?t"
    using Suc.prems by (simp add: window_ok_def Let_def)
  show ?case unfolding s using Suc.IH [OF ok] p w r by (auto simp: add_ac)
qed

section \<open>The window implements the set of authenticated numbers\<close>

abbreviation last_n :: "esp_context \<Rightarrow> nat" where
  "last_n this \<equiv> unat (last_seqno this)"

definition replay_inv :: "esp_context \<Rightarrow> nat set \<Rightarrow> bool" where
  "replay_inv this seen \<longleftrightarrow> window_ok this \<and> seen \<subseteq> {1..last_n this} \<and> (0 < last_n this \<longrightarrow> last_n this \<in> seen)
     \<and> (\<forall>k < 128. k < last_n this \<longrightarrow> (wbit this (pos this (- int k)) \<longleftrightarrow> last_n this - k \<in> seen))"

text \<open>The specification: the highest number seen, and which numbers are acceptable.\<close>

definition top :: "nat set \<Rightarrow> nat" where
  "top seen = Max (insert 0 seen)"

definition acceptable :: "nat set \<Rightarrow> nat \<Rightarrow> bool" where
  "acceptable seen n \<longleftrightarrow> top seen < n \<or> (0 < n \<and> top seen - n < 128 \<and> n \<notin> seen)"

lemma replay_inv_top:
  assumes "replay_inv this seen"
  shows "top seen = last_n this" "finite seen"
proof -
  show f: "finite seen" using assms finite_subset by (auto simp: replay_inv_def)
  show "top seen = last_n this" unfolding top_def
    by (rule Max_eqI) (use assms f in \<open>auto simp: replay_inv_def\<close>)
qed

lemma unat_diff_le:
  fixes a b :: "32 word"
  assumes "b \<le> a"
  shows "unat (a - b) = unat a - unat b"
  using assms by (rule unat_sub)

lemma verify_seqno_spec:
  assumes inv: "replay_inv this seen"
  shows "verify_seqno this seqno \<longleftrightarrow> acceptable seen (unat seqno)"
proof (cases "last_seqno this < seqno")
  case True
  then show ?thesis using inv
    by (simp add: verify_seqno_def acceptable_def replay_inv_top [OF inv] replay_inv_def window_ok_def word_less_nat_alt)
next
  case False
  then have le: "seqno \<le> last_seqno this" by simp
  then have d: "unat (last_seqno this - seqno) = last_n this - unat seqno" by (rule unat_diff_le)
  have le': "unat seqno \<le> last_n this" using le by (simp add: word_le_nat_alt)
  have cw: "check_window this seqno = (\<not> wbit this (pos this (- int (last_n this - unat seqno))))"
    using inv unat_sub_index [of this "last_seqno this - seqno"] d
    by (simp add: check_window_def get_window_bit_wbit replay_inv_def window_ok_def Let_def)
  have w: "window_size this > last_seqno this - seqno \<longleftrightarrow> last_n this - unat seqno < 128"
    using inv d by (simp add: replay_inv_def window_ok_def word_less_nat_alt)
  have z: "seqno > 0 \<longleftrightarrow> 0 < unat seqno" by (simp add: word_less_nat_alt)
  have "check_window this seqno \<longleftrightarrow> unat seqno \<notin> seen"
    if "0 < unat seqno" "last_n this - unat seqno < 128"
    using inv that le' cw by (auto simp: replay_inv_def)
  then show ?thesis using False le' w z inv
    by (auto simp: verify_seqno_def acceptable_def replay_inv_top [OF inv] replay_inv_def window_ok_def)
qed

lemma dvd_128_eq: "k < 128 \<Longrightarrow> l < 128 \<Longrightarrow> 128 dvd int l - int k \<Longrightarrow> k = l"
proof -
  assume a: "k < 128" "l < 128" and d: "128 dvd int l - int k"
  obtain q where q: "int l - int k = 128 * q" using d by (auto elim: dvdE)
  then have "q = 0" using a by linarith
  then show "k = l" using q by simp
qed

lemma pos_neg_inj: "k < 128 \<Longrightarrow> l < 128 \<Longrightarrow> pos this (- int k) = pos this (- int l) \<longleftrightarrow> k = l"
  by (auto simp: pos_eq_iff mod_eq_dvd_iff dest: dvd_128_eq)

lemma set_old_spec:
  assumes inv: "replay_inv this seen" and le: "seqno \<le> last_seqno this" and pos: "0 < unat seqno"
    and w: "last_n this - unat seqno < 128"
  shows "replay_inv (set_authenticated_seqno this seqno) (insert (unat seqno) seen)"
proof -
  let ?k = "last_n this - unat seqno"
  let ?i = "(seqno_index this - (last_seqno this - seqno)) mod 128"
  have le': "unat seqno \<le> last_n this" using le by (simp add: word_le_nat_alt)
  have i: "unat ?i = pos this (- int ?k)"
    using unat_sub_index [of this "last_seqno this - seqno"] unat_diff_le [OF le] by simp
  have ok: "window_ok this" using inv by (simp add: replay_inv_def)
  have s: "set_authenticated_seqno this seqno = set_window_bit this ?i True"
    using le ok by (simp add: set_authenticated_seqno_def window_ok_def Let_def)
  have p: "pos (set_window_bit this ?i True) = pos this" by (simp add: pos_def fun_eq_iff)
  have b: "wbit (set_window_bit this ?i True) j = (j = pos this (- int ?k) \<or> wbit this j)" for j
    using wbit_set [of ?i this True j] i pos_less [of this "- int ?k"] ok by (simp add: window_ok_def)
  have "wbit (set_window_bit this ?i True) (pos this (- int k)) \<longleftrightarrow> last_n this - k \<in> insert (unat seqno) seen"
    if "k < 128" "k < last_n this" for k
    using b [of "pos this (- int k)"] pos_neg_inj [OF that(1) w, of this] that inv le' by (auto simp: replay_inv_def)
  then show ?thesis unfolding s using inv ok le' pos p by (auto simp: replay_inv_def window_ok_def)
qed

text \<open>
  Shifting the window by \<open>n\<close> clears exactly the positions of the numbers between the old and
  the new highest one.
\<close>

lemma cleared_iff:
  assumes "k < 128" and "n \<le> 128"
  shows "(\<exists>i \<in> {1..int n}. pos this (int n - int k) = pos this i) \<longleftrightarrow> k < n"
proof
  assume "\<exists>i \<in> {1..int n}. pos this (int n - int k) = pos this i"
  then obtain i where i: "1 \<le> i" "i \<le> int n" and d: "128 dvd int n - int k - i"
    by (auto simp: pos_eq_iff mod_eq_dvd_iff)
  obtain q where q: "int n - int k - i = 128 * q" using d by (auto elim: dvdE)
  have "\<not> q < 0" using q i assms by linarith
  then show "k < n" using q i by linarith
next
  assume "k < n"
  then show "\<exists>i \<in> {1..int n}. pos this (int n - int k) = pos this i"
    by (intro bexI [of _ "int n - int k"]) auto
qed

lemma set_new_spec:
  assumes inv: "replay_inv this seen" and new: "last_seqno this < seqno"
  shows "replay_inv (set_authenticated_seqno this seqno) (insert (unat seqno) seen)"
proof -
  define n where "n = min (unat seqno - last_n this) 128"
  have ok: "window_ok this" using inv by (simp add: replay_inv_def)
  have old: "wbit this (pos this (- int k)) \<longleftrightarrow> last_n this - k \<in> seen" if "k < 128" "k < last_n this" for k
    using inv that by (simp add: replay_inv_def)
  have lt: "last_n this < unat seqno" using new by (simp add: word_less_nat_alt)
  have d: "unat (seqno - last_seqno this) = unat seqno - last_n this"
    by (rule unat_diff_le) (use new in simp)
  have sh: "unat (if seqno - last_seqno this < window_size this then seqno - last_seqno this else window_size this) = n"
    using d ok by (auto simp: n_def window_ok_def word_less_nat_alt)
  let ?t = "shift_window n this"
  note sw = shift_window_spec [OF ok, of n]
  have t: "window_ok ?t" "last_seqno ?t = last_seqno this" "pos ?t k = pos this (k + int n)"
    "wbit ?t j \<longleftrightarrow> wbit this j \<and> \<not> (\<exists>i \<in> {1..int n}. j = pos this i)" for k j
    using sw by auto
  have i: "unat (seqno_index ?t) = pos ?t 0" using t(1) nat_uint_eq [of "seqno_index ?t"]
    by (simp add: pos_def window_ok_def nat_mod_distrib)
  let ?u = "(set_window_bit ?t (seqno_index ?t) True)\<lparr>last_seqno := seqno\<rparr>"
  have s: "set_authenticated_seqno this seqno = ?u"
    using new ok sh by (simp add: set_authenticated_seqno_def window_ok_def Let_def)
  have pu: "pos ?u k = pos ?t k" for k by (simp add: pos_def)
  have wu: "wbit ?u j \<longleftrightarrow> j = pos ?t 0 \<or> wbit ?t j" for j
    using wbit_set [of "seqno_index ?t" ?t True j] i t(1) by (simp add: window_ok_def)
  have "wbit ?u (pos ?u (- int k)) \<longleftrightarrow> unat seqno - k \<in> insert (unat seqno) seen"
    if k: "k < 128" "k < unat seqno" for k
  proof (cases "k = 0")
    case True
    then show ?thesis using wu pu by simp
  next
    case False
    have p: "pos ?u (- int k) = pos this (int n - int k)" using pu t(3) by (simp add: algebra_simps)
    have "pos ?u (- int k) \<noteq> pos ?t 0" using pos_neg_inj [of k 0 ?t] k False pu by simp
    then have w: "wbit ?u (pos ?u (- int k)) \<longleftrightarrow> wbit this (pos this (int n - int k)) \<and> \<not> k < n"
      using wu t(4) cleared_iff [OF k(1), of n this] p n_def by auto
    show ?thesis
    proof (cases "k < n")
      case True
      have "last_n this < unat seqno - k" using True n_def lt by linarith
      then have "unat seqno - k \<notin> seen" using inv by (auto simp: replay_inv_def)
      then show ?thesis using w True False k by auto
    next
      case ge: False
      then have n: "n = unat seqno - last_n this" using k(1) by (auto simp: n_def)
      have o: "wbit this (pos this (- int (k - n))) \<longleftrightarrow> last_n this - (k - n) \<in> seen"
        by (rule old) (use k ge n lt in linarith)+
      have e: "int n - int k = - int (k - n)" "last_n this - (k - n) = unat seqno - k"
        using ge n lt by auto
      have "unat seqno - k \<noteq> unat seqno" using False k by linarith
      then show ?thesis unfolding w e(1) using o [unfolded e(2)] ge by blast
    qed
  qed
  then show ?thesis unfolding s using inv t(1) lt by (auto simp: replay_inv_def window_ok_def)
qed

lemma set_authenticated_spec:
  assumes inv: "replay_inv this seen" and acc: "acceptable seen (unat seqno)"
  shows "replay_inv (set_authenticated_seqno this seqno) (insert (unat seqno) seen)"
proof (cases "last_seqno this < seqno")
  case True
  then show ?thesis by (rule set_new_spec [OF inv])
next
  case False
  then have "seqno \<le> last_seqno this" "\<not> last_n this < unat seqno" by (simp, simp add: word_less_nat_alt)
  then show ?thesis using acc set_old_spec [OF inv] by (auto simp: acceptable_def replay_inv_top [OF inv])
qed

lemma esp_context_create_inv: "replay_inv (esp_context_create True) {}"
  by (simp add: replay_inv_def esp_context_create_def window_ok_def ESP_DEFAULT_WINDOW_SIZE_def unat_div)

section \<open>Runs\<close>

lemma receive_spec:
  assumes inv: "replay_inv this seen"
  shows "fst (receive this (seqno, auth)) \<longleftrightarrow> acceptable seen (unat seqno) \<and> auth"
    and "replay_inv (snd (receive this (seqno, auth)))
      (if acceptable seen (unat seqno) \<and> auth then insert (unat seqno) seen else seen)"
  using inv set_authenticated_spec [OF inv] by (auto simp: receive_def verify_seqno_spec [OF inv])

text \<open>The specification of a run: what an ideal receiver that remembers every number answers.\<close>

fun ideal :: "nat set \<Rightarrow> (32 word \<times> bool) list \<Rightarrow> bool list" where
  "ideal seen [] = []"
| "ideal seen ((seqno, auth) # ps) =
     (let b = acceptable seen (unat seqno) \<and> auth in
      b # ideal (if b then insert (unat seqno) seen else seen) ps)"

lemma receive_all_ideal:
  "replay_inv this seen \<Longrightarrow> fst (receive_all this ps) = ideal seen ps"
proof (induction ps arbitrary: this seen)
  case (Cons p ps)
  obtain seqno auth where p: "p = (seqno, auth)" by fastforce
  obtain b t where r: "receive this (seqno, auth) = (b, t)" by fastforce
  then show ?case using Cons.IH [OF receive_spec(2) [OF Cons.prems, of seqno auth]] receive_spec(1) [OF Cons.prems, of seqno auth]
    by (simp add: p Let_def split_beta)
qed simp

definition accepted :: "(32 word \<times> bool) list \<Rightarrow> bool list \<Rightarrow> nat list" where
  "accepted ps bs = map (\<lambda>(p, b). unat (fst p)) (filter snd (zip ps bs))"

lemma acceptable_new: "finite seen \<Longrightarrow> acceptable seen n \<Longrightarrow> n \<notin> seen"
  by (auto simp: acceptable_def top_def)

lemma ideal_distinct:
  "finite seen \<Longrightarrow> distinct (accepted ps (ideal seen ps)) \<and> set (accepted ps (ideal seen ps)) \<inter> seen = {}"
proof (induction ps arbitrary: seen)
  case Nil
  then show ?case by (simp add: accepted_def)
next
  case (Cons p ps)
  obtain seqno auth where p: "p = (seqno, auth)" by fastforce
  let ?b = "acceptable seen (unat seqno) \<and> auth"
  show ?case
  proof (cases ?b)
    case True
    then show ?thesis
      using Cons.IH [of "insert (unat seqno) seen"] Cons.prems acceptable_new [OF Cons.prems, of "unat seqno"]
      by (auto simp: p accepted_def Let_def)
  next
    case False
    then show ?thesis using Cons.IH [OF Cons.prems] by (auto simp: p accepted_def Let_def)
  qed
qed

text \<open>Outbound numbers.\<close>

fun next_seqnos :: "nat \<Rightarrow> esp_context \<Rightarrow> 32 word option list" where
  "next_seqnos 0 this = []"
| "next_seqnos (Suc n) this = (let (r, t) = next_seqno this in r # next_seqnos n t)"

lemma next_seqno_step:
  assumes "\<not> inbound this"
  shows "next_seqno this = (if last_n this < 2 ^ 32 - 1
      then (Some (of_nat (last_n this + 1)), this\<lparr>last_seqno := of_nat (last_n this + 1)\<rparr>) else (None, this))"
proof -
  have "last_seqno this = - 1 \<longleftrightarrow> last_n this = 2 ^ 32 - 1" by (simp add: word_unat_eq_iff unsigned_minus_1_eq_mask mask_eq_exp_minus_1)
  moreover have "last_n this < 2 ^ 32" using unsigned_less [of "last_seqno this", where 'a = nat] by simp
  moreover have "of_nat (last_n this + 1) = last_seqno this + 1" by simp
  ultimately show ?thesis using assms by (auto simp: next_seqno_def)
qed

lemma next_seqnos_spec:
  assumes "\<not> inbound this"
  shows "i < n \<Longrightarrow> next_seqnos n this ! i =
    (if last_n this + i + 1 < 2 ^ 32 then Some (of_nat (last_n this + i + 1)) else None)"
  using assms
proof (induction n arbitrary: this i)
  case (Suc n)
  have l: "last_n this < 2 ^ 32" using unsigned_less [of "last_seqno this", where 'a = nat] by simp
  show ?case
  proof (cases "last_n this < 2 ^ 32 - 1")
    case True
    let ?t = "this\<lparr>last_seqno := of_nat (last_n this + 1)\<rparr>"
    have "unat (of_nat (last_n this + 1) :: 32 word) = last_n this + 1"
      using True by (simp only: unat_of_nat) (simp add: take_bit_nat_eq_self)
    then have t: "last_n ?t = last_n this + 1" by (cases this) (simp only: esp_context.simps)
    show ?thesis
      using Suc.IH [of "i - 1" ?t] Suc.prems t True
      by (cases i) (simp_all add: next_seqno_step [OF Suc.prems(2)] add_ac)
  next
    case False
    then show ?thesis
      using Suc.IH [of "i - 1" this] Suc.prems l
      by (cases i) (simp_all add: next_seqno_step [OF Suc.prems(2)])
  qed
qed simp

section \<open>Properties\<close>

text \<open>
  C20. The anti-replay window is exact: for every sequence of received packets the circular
  128-bit window answers as an ideal receiver that remembers all authenticated sequence
  numbers, accepting a number above the highest one or one of the last 128 that was not
  seen.  Neither the circular index nor the 32-bit wrap-around of the offsets matters.
\<close>

theorem replay_window_exact: "fst (receive_all (esp_context_create True) ps) = ideal {} ps"
  by (rule receive_all_ideal [OF esp_context_create_inv])

text \<open>
  No packet is accepted twice: the sequence numbers accepted in any run of an inbound
  context are pairwise different.
\<close>

theorem no_replay: "distinct (accepted ps (fst (receive_all (esp_context_create True) ps)))"
  using ideal_distinct [of "{}" ps] by (simp add: receive_all_ideal [OF esp_context_create_inv])

text \<open>
  C40. Outbound sequence numbers count 1, 2, 3, \<dots> and never cycle: the \<open>i\<close>-th call on a new
  outbound context answers \<open>i + 1\<close> as long as this fits 32 bits and fails for ever after.
\<close>

theorem next_seqno_never_cycles:
  "i < n \<Longrightarrow> next_seqnos n (esp_context_create False) ! i = (if i + 1 < 2 ^ 32 then Some (of_nat (i + 1)) else None)"
  using next_seqnos_spec [of "esp_context_create False" i n] by (simp add: esp_context_create_def)

theorem next_seqno_never_cycles_witness: "next_seqnos 3 (esp_context_create False) ! 2 = Some 3"
  using next_seqno_never_cycles [of 2 3] by simp

end
