(* ===== verification/Bio.thy ===== *)
theory Bio
  imports Prelude
begin

text \<open>
  The binary reader and writer of \<open>libstrongswan/bio\<close>.  The writer's buffer is a list of
  cells that may be uninitialised (\<open>realloc\<close> and \<open>chunk_alloc\<close> leave garbage); storing
  outside of it is the fault \<^const>\<open>OutOfBounds\<close>.  Lengths the code keeps as
  \<open>size_t\<close> are unbounded in the model; the lengths given to the reader and the initial size of a
  writer are \<open>uint32_t\<close> and words of 32 bits here.  The writer implements an append-only byte sink, and the reader reads back what was
  written.
\<close>

section \<open>Writer\<close>

record bio_writer =
  wbuf :: "byte option list"
  used :: nat
  increment :: nat

partial_function (option) grow :: "nat \<Rightarrow> nat \<Rightarrow> nat \<Rightarrow> nat option" where
  "grow need inc len = (if need > len then grow need inc (len + inc) else Some len)"

definition increase :: "nat \<Rightarrow> bio_writer \<Rightarrow> bio_writer res" where
  "increase required this =
     (case grow (used this + required) (increment this) (length (wbuf this)) of
        None \<Rightarrow> Inl Diverges
      | Some len \<Rightarrow> Inr (this\<lparr>wbuf := wbuf this @ replicate (len - length (wbuf this)) None\<rparr>))"

definition store :: "nat \<Rightarrow> byte option list \<Rightarrow> bio_writer \<Rightarrow> bio_writer res" where
  "store off bs this =
     (if off + length bs > length (wbuf this) then Inl OutOfBounds
      else Inr (this\<lparr>wbuf := take off (wbuf this) @ bs @ drop (off + length bs) (wbuf this)\<rparr>))"

definition append_bytes :: "chunk \<Rightarrow> bio_writer \<Rightarrow> bio_writer res" where
  "append_bytes bs this =
     andThen (increase (length bs) this) (\<lambda>w.
     andThen (store (used w) (map Some bs) w) (\<lambda>w1.
     Inr (w1\<lparr>used := used w1 + length bs\<rparr>)))"

definition write_uint8 :: "byte \<Rightarrow> bio_writer \<Rightarrow> bio_writer res" where
  "write_uint8 v = append_bytes [v]"

definition write_uint16 :: "16 word \<Rightarrow> bio_writer \<Rightarrow> bio_writer res" where
  "write_uint16 v = append_bytes (be_bytes 2 v)"

definition write_uint24 :: "32 word \<Rightarrow> bio_writer \<Rightarrow> bio_writer res" where
  "write_uint24 v = append_bytes (drop 1 (be_bytes 4 v))"

definition write_uint32 :: "32 word \<Rightarrow> bio_writer \<Rightarrow> bio_writer res" where
  "write_uint32 v = append_bytes (be_bytes 4 v)"

definition write_uint64 :: "64 word \<Rightarrow> bio_writer \<Rightarrow> bio_writer res" where
  "write_uint64 v = append_bytes (be_bytes 8 v)"

definition write_data :: "chunk \<Rightarrow> bio_writer \<Rightarrow> bio_writer res" where
  "write_data v = append_bytes v"

definition write_data8 :: "chunk \<Rightarrow> bio_writer \<Rightarrow> bio_writer res" where
  "write_data8 v this = andThen (increase (1 + length v) this) (\<lambda>w.
     andThen (write_uint8 (of_nat (length v)) w) (write_data v))"

definition write_data16 :: "chunk \<Rightarrow> bio_writer \<Rightarrow> bio_writer res" where
  "write_data16 v this = andThen (increase (2 + length v) this) (\<lambda>w.
     andThen (write_uint16 (of_nat (length v)) w) (write_data v))"

definition write_data24 :: "chunk \<Rightarrow> bio_writer \<Rightarrow> bio_writer res" where
  "write_data24 v this = andThen (increase (3 + length v) this) (\<lambda>w.
     andThen (write_uint24 (of_nat (length v)) w) (write_data v))"

definition write_data32 :: "chunk \<Rightarrow> bio_writer \<Rightarrow> bio_writer res" where
  "write_data32 v this = andThen (increase (4 + length v) this) (\<lambda>w.
     andThen (write_uint32 (of_nat (length v)) w) (write_data v))"

text \<open>The common body of the wrap operations: move the contents up, put the header in front.\<close>

definition wrap :: "(nat \<Rightarrow> chunk) \<Rightarrow> nat \<Rightarrow> bio_writer \<Rightarrow> bio_writer res" where
  "wrap header n this =
     andThen (increase n this) (\<lambda>w.
     andThen (store n (take (used w) (wbuf w)) w) (\<lambda>w1.
     andThen (store 0 (map Some (header (used w1))) w1) (\<lambda>w2.
     Inr (w2\<lparr>used := used w2 + n\<rparr>))))"

definition wrap8 :: "bio_writer \<Rightarrow> bio_writer res" where
  "wrap8 = wrap (\<lambda>u. [of_nat u]) 1"

definition wrap16 :: "bio_writer \<Rightarrow> bio_writer res" where
  "wrap16 = wrap (\<lambda>u. be_bytes 2 (of_nat u :: 16 word)) 2"

definition wrap24 :: "bio_writer \<Rightarrow> bio_writer res" where
  "wrap24 = wrap (\<lambda>u. drop 1 (be_bytes 4 (of_nat u :: 32 word))) 3"

definition wrap32 :: "bio_writer \<Rightarrow> bio_writer res" where
  "wrap32 = wrap (\<lambda>u. be_bytes 4 (of_nat u :: 32 word)) 4"

text \<open>\<open>skip\<close> hands the caller a region of the buffer to fill in later.\<close>

definition skip :: "nat \<Rightarrow> bio_writer \<Rightarrow> (nat \<times> bio_writer) res" where
  "skip len this = andThen (increase len this) (\<lambda>w. Inr (used w, w\<lparr>used := used w + len\<rparr>))"

definition get_buf :: "bio_writer \<Rightarrow> byte option list" where
  "get_buf this = take (used this) (wbuf this)"

definition extract_buf :: "bio_writer \<Rightarrow> byte option list \<times> bio_writer" where
  "extract_buf this = (get_buf this, this\<lparr>wbuf := [], used := 0\<rparr>)"

definition bio_writer_create :: "32 word \<Rightarrow> bio_writer" where
  "bio_writer_create bufsize =
     \<lparr>wbuf = replicate (unat bufsize) None, used = 0,
      increment = (if bufsize \<noteq> 0 then max (unat bufsize) 4 else 32)\<rparr>"

section \<open>Reader\<close>

record bio_reader =
  rbuf :: chunk

definition remaining :: "bio_reader \<Rightarrow> 32 word" where "remaining this = of_nat (length (rbuf this))"
definition peek :: "bio_reader \<Rightarrow> chunk" where "peek this = rbuf this"

definition chunk_skip_end :: "chunk \<Rightarrow> nat \<Rightarrow> bool \<Rightarrow> chunk" where
  "chunk_skip_end c n from_end =
     (if length c > n then (if \<not> from_end then drop n c else take (length c - n) c) else [])"

definition get_ptr_end :: "bio_reader \<Rightarrow> 32 word \<Rightarrow> bool \<Rightarrow> chunk" where
  "get_ptr_end this n from_end =
     (if from_end then drop (length (rbuf this) - unat n) (rbuf this) else take (unat n) (rbuf this))"

definition read_data_internal :: "32 word \<Rightarrow> bool \<Rightarrow> bio_reader \<Rightarrow> (chunk \<times> bio_reader) option" where
  "read_data_internal n from_end this =
     (if length (rbuf this) < unat n then None
      else Some (get_ptr_end this n from_end, this\<lparr>rbuf := chunk_skip_end (rbuf this) (unat n) from_end\<rparr>))"

definition read_uint8_internal :: "bool \<Rightarrow> bio_reader \<Rightarrow> (byte \<times> bio_reader) option" where
  "read_uint8_internal from_end this =
     (if length (rbuf this) < 1 then None
      else Some (hd (get_ptr_end this 1 from_end), this\<lparr>rbuf := chunk_skip_end (rbuf this) 1 from_end\<rparr>))"

definition read_uint16_internal :: "bool \<Rightarrow> bio_reader \<Rightarrow> (16 word \<times> bio_reader) option" where
  "read_uint16_internal from_end this =
     (if length (rbuf this) < 2 then None
      else Some (be_word (get_ptr_end this 2 from_end), this\<lparr>rbuf := chunk_skip_end (rbuf this) 2 from_end\<rparr>))"

definition read_uint24_internal :: "bool \<Rightarrow> bio_reader \<Rightarrow> (32 word \<times> bio_reader) option" where
  "read_uint24_internal from_end this =
     (if length (rbuf this) < 3 then None
      else Some (be_word (get_ptr_end this 3 from_end), this\<lparr>rbuf := chunk_skip_end (rbuf this) 3 from_end\<rparr>))"

definition read_uint32_internal :: "bool \<Rightarrow> bio_reader \<Rightarrow> (32 word \<times> bio_reader) option" where
  "read_uint32_internal from_end this =
     (if length (rbuf this) < 4 then None
      else Some (be_word (get_ptr_end this 4 from_end), this\<lparr>rbuf := chunk_skip_end (rbuf this) 4 from_end\<rparr>))"

definition read_uint64_internal :: "bool \<Rightarrow> bio_reader \<Rightarrow> (64 word \<times> bio_reader) option" where
  "read_uint64_internal from_end this =
     (if length (rbuf this) < 8 then None
      else Some (be_word (get_ptr_end this 8 from_end), this\<lparr>rbuf := chunk_skip_end (rbuf this) 8 from_end\<rparr>))"

definition read_data8 :: "bio_reader \<Rightarrow> (chunk \<times> bio_reader) option" where
  "read_data8 this = (case read_uint8_internal False this of None \<Rightarrow> None
     | Some (len, r) \<Rightarrow> read_data_internal (ucast len) False r)"

definition read_data16 :: "bio_reader \<Rightarrow> (chunk \<times> bio_reader) option" where
  "read_data16 this = (case read_uint16_internal False this of None \<Rightarrow> None
     | Some (len, r) \<Rightarrow> read_data_internal (ucast len) False r)"

definition read_data24 :: "bio_reader \<Rightarrow> (chunk \<times> bio_reader) option" where
  "read_data24 this = (case read_uint24_internal False this of None \<Rightarrow> None
     | Some (len, r) \<Rightarrow> read_data_internal len False r)"

definition read_data32 :: "bio_reader \<Rightarrow> (chunk \<times> bio_reader) option" where
  "read_data32 this = (case read_uint32_internal False this of None \<Rightarrow> None
     | Some (len, r) \<Rightarrow> read_data_internal len False r)"

definition bio_reader_create :: "chunk \<Rightarrow> bio_reader" where
  "bio_reader_create data = \<lparr>rbuf = data\<rparr>"

section \<open>The writer is an append-only sink\<close>

locale byte_sink =
  fixes emit :: "chunk \<Rightarrow> 'w \<Rightarrow> 'w res"
    and invar :: "'w \<Rightarrow> bool"
    and contents :: "'w \<Rightarrow> chunk"
  assumes emit_spec: "invar w \<Longrightarrow> \<exists>w'. emit bs w = Inr w' \<and> invar w' \<and> contents w' = contents w @ bs"
begin

fun emit_all :: "chunk list \<Rightarrow> 'w \<Rightarrow> 'w res" where
  "emit_all [] w = Inr w"
| "emit_all (bs # bss) w = andThen (emit bs w) (emit_all bss)"

lemma emit_all_spec:
  "invar w \<Longrightarrow> \<exists>w'. emit_all bss w = Inr w' \<and> invar w' \<and> contents w' = contents w @ concat bss"
proof (induction bss arbitrary: w)
  case (Cons bs bss)
  obtain w1 where w1: "emit bs w = Inr w1" "invar w1" "contents w1 = contents w @ bs"
    using emit_spec [OF Cons.prems] by blast
  then show ?case using Cons.IH [OF w1(2)] by auto
qed simp

end

definition writer_inv :: "bio_writer \<Rightarrow> bool" where
  "writer_inv w \<longleftrightarrow> 0 < increment w \<and> used w \<le> length (wbuf w) \<and> None \<notin> set (get_buf w)"

definition written :: "bio_writer \<Rightarrow> chunk" where
  "written w = map the (get_buf w)"

lemma grow_Some: "0 < inc \<Longrightarrow> \<exists>n. grow need inc len = Some n \<and> need \<le> n \<and> len \<le> n"
proof (induction "need - len" arbitrary: len rule: less_induct)
  case less
  show ?case
  proof (cases "need > len")
    case True
    then have "need - (len + inc) < need - len" using less.prems by simp
    from less.hyps [OF this less.prems] True show ?thesis by (subst grow.simps) auto
  qed (simp add: grow.simps)
qed

lemma increase_spec:
  assumes "writer_inv w"
  shows "\<exists>g. increase n w = Inr (w\<lparr>wbuf := wbuf w @ replicate g None\<rparr>)
    \<and> used w + n \<le> length (wbuf w) + g"
  using grow_Some [of "increment w" "used w + n" "length (wbuf w)"] assms
  by (fastforce simp: increase_def writer_inv_def)

lemma increase_keeps:
  assumes "writer_inv w" and "increase n w = Inr w'"
  shows "writer_inv w' \<and> written w' = written w \<and> used w' = used w \<and> used w + n \<le> length (wbuf w')
    \<and> get_buf w' = get_buf w"
  using increase_spec [OF assms(1), of n] assms by (auto simp: writer_inv_def written_def get_buf_def)

lemma increase_ok: "writer_inv w \<Longrightarrow> \<exists>w'. increase n w = Inr w'"
  using increase_spec [of w n] by auto

lemma append_bytes_spec:
  assumes "writer_inv w"
  shows "\<exists>w'. append_bytes bs w = Inr w' \<and> writer_inv w' \<and> written w' = written w @ bs"
proof -
  obtain w1 where w1: "increase (length bs) w = Inr w1" using increase_ok [OF assms] by blast
  note k = increase_keeps [OF assms w1]
  let ?w2 = "w1\<lparr>wbuf := take (used w1) (wbuf w1) @ map Some bs @ drop (used w1 + length bs) (wbuf w1),
     used := used w1 + length bs\<rparr>"
  have "append_bytes bs w = Inr ?w2" using w1 k by (simp add: append_bytes_def store_def)
  moreover have b: "get_buf ?w2 = get_buf w1 @ map Some bs" using k by (simp add: get_buf_def)
  moreover have "writer_inv ?w2" using k b by (auto simp: writer_inv_def)
  ultimately show ?thesis using k by (simp add: written_def)
qed

interpretation bio: byte_sink append_bytes writer_inv written
  by unfold_locales (rule append_bytes_spec)

lemma bio_writer_create_inv: "writer_inv (bio_writer_create n)" "written (bio_writer_create n) = []"
  by (simp_all add: writer_inv_def bio_writer_create_def get_buf_def written_def max_def)

lemma prefixed_spec:
  assumes inv: "writer_inv w" and op: "\<And>w. f w = andThen (increase n w) (\<lambda>w1. andThen (append_bytes h w1) (append_bytes v))"
  shows "\<exists>w'. f w = Inr w' \<and> writer_inv w' \<and> written w' = written w @ h @ v"
proof -
  obtain w1 where w1: "increase n w = Inr w1" using increase_ok [OF inv] by blast
  note k = increase_keeps [OF inv w1]
  obtain w2 where "bio.emit_all [h, v] w1 = Inr w2" "writer_inv w2" "written w2 = written w1 @ h @ v"
    using bio.emit_all_spec [of w1 "[h, v]"] k by auto
  then show ?thesis using w1 k by (auto simp: op andThen_Inr_iff)
qed

lemma wrap_spec:
  assumes inv: "writer_inv w" and n: "\<And>u. length (header u) = n"
  shows "\<exists>w'. wrap header n w = Inr w' \<and> writer_inv w' \<and> written w' = header (length (written w)) @ written w"
proof -
  obtain w1 where w1: "increase n w = Inr w1" using increase_ok [OF inv] by blast
  note k = increase_keeps [OF inv w1]
  let ?g = "get_buf w1"
  have l: "length ?g = used w" using k inv by (simp add: get_buf_def writer_inv_def)
  let ?b = "take n (wbuf w1) @ ?g @ drop (n + used w) (wbuf w1)"
  let ?w3 = "w1\<lparr>wbuf := map Some (header (used w)) @ drop n ?b, used := used w + n\<rparr>"
  have le: "n \<le> length (wbuf w1)" "used w \<le> length (wbuf w1)" using k by linarith+
  have "wrap header n w = Inr ?w3"
    using w1 k l le n [of "used w"] by (simp add: wrap_def store_def get_buf_def min_absorb1 min_absorb2)
  moreover have b: "get_buf ?w3 = map Some (header (used w)) @ ?g"
    using k l n [of "used w"] by (simp add: get_buf_def)
  moreover have "writer_inv ?w3"
    using k l b n [of "used w"] by (auto simp: writer_inv_def)
  moreover have "length (written w) = used w" using k l by (simp add: written_def)
  ultimately show ?thesis using k by (simp add: written_def)
qed

section \<open>Items\<close>

datatype item =
    U8 byte | U16 "16 word" | U24 "32 word" | U32 "32 word" | U64 "64 word"
  | D chunk | D8 chunk | D16 chunk | D24 chunk | D32 chunk

fun write_item :: "item \<Rightarrow> bio_writer \<Rightarrow> bio_writer res" where
  "write_item (U8 v) = write_uint8 v"
| "write_item (U16 v) = write_uint16 v"
| "write_item (U24 v) = write_uint24 v"
| "write_item (U32 v) = write_uint32 v"
| "write_item (U64 v) = write_uint64 v"
| "write_item (D v) = write_data v"
| "write_item (D8 v) = write_data8 v"
| "write_item (D16 v) = write_data16 v"
| "write_item (D24 v) = write_data24 v"
| "write_item (D32 v) = write_data32 v"

text \<open>Reading an item of the same kind; a raw chunk is read at the length it was written with.\<close>

fun read_item :: "item \<Rightarrow> bio_reader \<Rightarrow> (item \<times> bio_reader) option" where
  "read_item (U8 _) r = map_option (map_prod U8 (\<lambda>r. r)) (read_uint8_internal False r)"
| "read_item (U16 _) r = map_option (map_prod U16 (\<lambda>r. r)) (read_uint16_internal False r)"
| "read_item (U24 _) r = map_option (map_prod U24 (\<lambda>r. r)) (read_uint24_internal False r)"
| "read_item (U32 _) r = map_option (map_prod U32 (\<lambda>r. r)) (read_uint32_internal False r)"
| "read_item (U64 _) r = map_option (map_prod U64 (\<lambda>r. r)) (read_uint64_internal False r)"
| "read_item (D v) r = map_option (map_prod D (\<lambda>r. r)) (read_data_internal (of_nat (length v)) False r)"
| "read_item (D8 _) r = map_option (map_prod D8 (\<lambda>r. r)) (read_data8 r)"
| "read_item (D16 _) r = map_option (map_prod D16 (\<lambda>r. r)) (read_data16 r)"
| "read_item (D24 _) r = map_option (map_prod D24 (\<lambda>r. r)) (read_data24 r)"
| "read_item (D32 _) r = map_option (map_prod D32 (\<lambda>r. r)) (read_data32 r)"

text \<open>The values that fit their encoding; a raw chunk has to fit the reader's 32-bit length.\<close>

fun fits :: "item \<Rightarrow> bool" where
  "fits (U24 v) \<longleftrightarrow> unat v < 2 ^ 24"
| "fits (D v) \<longleftrightarrow> length v < 2 ^ 32"
| "fits (D8 v) \<longleftrightarrow> length v < 2 ^ 8"
| "fits (D16 v) \<longleftrightarrow> length v < 2 ^ 16"
| "fits (D24 v) \<longleftrightarrow> length v < 2 ^ 24"
| "fits (D32 v) \<longleftrightarrow> length v < 2 ^ 32"
| "fits _ \<longleftrightarrow> True"

fun enc_item :: "item \<Rightarrow> chunk" where
  "enc_item (U8 v) = [v]"
| "enc_item (U16 v) = be_bytes 2 v"
| "enc_item (U24 v) = drop 1 (be_bytes 4 v)"
| "enc_item (U32 v) = be_bytes 4 v"
| "enc_item (U64 v) = be_bytes 8 v"
| "enc_item (D v) = v"
| "enc_item (D8 v) = of_nat (length v) # v"
| "enc_item (D16 v) = be_bytes 2 (of_nat (length v) :: 16 word) @ v"
| "enc_item (D24 v) = drop 1 (be_bytes 4 (of_nat (length v) :: 32 word)) @ v"
| "enc_item (D32 v) = be_bytes 4 (of_nat (length v) :: 32 word) @ v"

fun write_items :: "item list \<Rightarrow> bio_writer \<Rightarrow> bio_writer res" where
  "write_items [] w = Inr w"
| "write_items (i # is) w = andThen (write_item i w) (write_items is)"

fun read_items :: "item list \<Rightarrow> bio_reader \<Rightarrow> (item list \<times> bio_reader) option" where
  "read_items [] r = Some ([], r)"
| "read_items (i # is) r =
     (case read_item i r of None \<Rightarrow> None
      | Some (x, r1) \<Rightarrow> map_option (\<lambda>(xs, r2). (x # xs, r2)) (read_items is r1))"

lemma write_item_spec:
  assumes "writer_inv w"
  shows "\<exists>w'. write_item i w = Inr w' \<and> writer_inv w' \<and> written w' = written w @ enc_item i"
proof (cases i)
  case (D8 v)
  then show ?thesis
    using prefixed_spec [OF assms, of "write_data8 v" "1 + length v" "[of_nat (length v)]" v]
    by (simp add: write_data8_def write_uint8_def write_data_def)
next
  case (D16 v)
  then show ?thesis
    using prefixed_spec [OF assms, of "write_data16 v" "2 + length v" "be_bytes 2 (of_nat (length v) :: 16 word)" v]
    by (simp add: write_data16_def write_uint16_def write_data_def)
next
  case (D24 v)
  then show ?thesis
    using prefixed_spec [OF assms, of "write_data24 v" "3 + length v" "drop 1 (be_bytes 4 (of_nat (length v) :: 32 word))" v]
    by (simp add: write_data24_def write_uint24_def write_data_def)
next
  case (D32 v)
  then show ?thesis
    using prefixed_spec [OF assms, of "write_data32 v" "4 + length v" "be_bytes 4 (of_nat (length v) :: 32 word)" v]
    by (simp add: write_data32_def write_uint32_def write_data_def)
qed (use append_bytes_spec [OF assms] in \<open>simp_all add: write_uint8_def write_uint16_def write_uint24_def
    write_uint32_def write_uint64_def write_data_def\<close>)

lemma write_items_spec:
  "writer_inv w \<Longrightarrow> \<exists>w'. write_items is w = Inr w' \<and> writer_inv w' \<and> written w' = written w @ concat (map enc_item is)"
proof (induction "is" arbitrary: w)
  case (Cons i "is")
  obtain w1 where w1: "write_item i w = Inr w1" "writer_inv w1" "written w1 = written w @ enc_item i"
    using write_item_spec [OF Cons.prems] by blast
  then show ?case using Cons.IH [OF w1(2)] by auto
qed simp

lemma be_bytes_Suc_drop: "drop 1 (be_bytes (Suc n) w) = be_bytes n w"
proof (induction n arbitrary: w)
  case (Suc n)
  have "drop 1 (be_bytes (Suc (Suc n)) w) = drop 1 (be_bytes (Suc n) (drop_bit 8 w)) @ [ucast w]"
    by (simp only: be_bytes.simps(2) [of "Suc n"] drop_append length_be_bytes) simp
  then show ?case unfolding Suc by (simp only: be_bytes.simps)
qed simp

lemma drop_be_bytes_4: "drop (Suc 0) (be_bytes 4 w) = be_bytes 3 w"
proof -
  have "(4 :: nat) = Suc 3" by simp
  then show ?thesis using be_bytes_Suc_drop [of 3 w] by (simp only: One_nat_def)
qed

lemma be_word_24: "unat (v :: 32 word) < 2 ^ 24 \<Longrightarrow> be_word (be_bytes 3 v) = v"
  by (simp add: be_word_be_bytes word_unat_eq_iff unsigned_take_bit_eq take_bit_nat_eq_self)

lemma skip_append: "chunk_skip_end (h @ rest) (length h) False = rest"
  by (simp add: chunk_skip_end_def)

lemma reader_append:
  "length h = unat n \<Longrightarrow> get_ptr_end \<lparr>rbuf = h @ rest\<rparr> n False = h"
  by (simp add: get_ptr_end_def)

lemma unat_of_nat_small: "n < 2 ^ LENGTH('a) \<Longrightarrow> unat (of_nat n :: 'a::len word) = n"
  by (simp add: unat_of_nat take_bit_nat_eq_self)

lemma unat_ucast_length:
  "unat (ucast (a :: 8 word) :: 32 word) = unat a" "unat (ucast (b :: 16 word) :: 32 word) = unat b"
proof -
  have "unat a < 2 ^ LENGTH(8)" "unat b < 2 ^ LENGTH(16)" by (rule unsigned_less)+
  then show "unat (ucast a :: 32 word) = unat a" "unat (ucast b :: 32 word) = unat b"
    by (simp_all add: unsigned_ucast_eq take_bit_nat_eq_self)
qed

lemma read_data_append:
  "unat n = length v \<Longrightarrow> read_data_internal n False \<lparr>rbuf = v @ rest\<rparr> = Some (v, \<lparr>rbuf = rest\<rparr>)"
  by (simp add: read_data_internal_def reader_append skip_append)

lemma read_words_append:
  "read_uint8_internal False \<lparr>rbuf = b # rest\<rparr> = Some (b, \<lparr>rbuf = rest\<rparr>)"
  "read_uint16_internal False \<lparr>rbuf = be_bytes 2 x @ rest\<rparr> = Some (x, \<lparr>rbuf = rest\<rparr>)"
  "unat y < 2 ^ 24 \<Longrightarrow> read_uint24_internal False \<lparr>rbuf = be_bytes 3 y @ rest\<rparr> = Some (y, \<lparr>rbuf = rest\<rparr>)"
  "read_uint32_internal False \<lparr>rbuf = be_bytes 4 y @ rest\<rparr> = Some (y, \<lparr>rbuf = rest\<rparr>)"
  "read_uint64_internal False \<lparr>rbuf = be_bytes 8 z @ rest\<rparr> = Some (z, \<lparr>rbuf = rest\<rparr>)"
  using skip_append [of "[b]" rest] skip_append [of "be_bytes 2 x" rest] skip_append [of "be_bytes 3 y" rest]
    skip_append [of "be_bytes 4 y" rest] skip_append [of "be_bytes 8 z" rest]
  by (simp_all add: read_uint8_internal_def read_uint16_internal_def read_uint24_internal_def
      read_uint32_internal_def read_uint64_internal_def reader_append be_word_24 be_word_be_bytes_full
      get_ptr_end_def)

lemma read_item_append:
  assumes "fits i"
  shows "read_item i \<lparr>rbuf = enc_item i @ rest\<rparr> = Some (i, \<lparr>rbuf = rest\<rparr>)"
proof (cases i)
  case (D24 v)
  then have "unat (of_nat (length v) :: 32 word) = length v" using assms by (simp add: unat_of_nat_small)
  then show ?thesis using D24 assms
    by (simp add: read_data24_def drop_be_bytes_4 read_words_append read_data_append)
qed (use assms in \<open>simp_all add: drop_be_bytes_4 read_words_append read_data_append read_data8_def read_data16_def
    read_data32_def unat_of_nat_small unat_ucast_length\<close>)

lemma read_items_append:
  "list_all fits is \<Longrightarrow> read_items is \<lparr>rbuf = concat (map enc_item is) @ rest\<rparr> = Some (is, \<lparr>rbuf = rest\<rparr>)"
  by (induction "is") (simp_all add: read_item_append)

lemma get_buf_written: "writer_inv w \<Longrightarrow> get_buf w = map Some (written w)"
  unfolding written_def writer_inv_def by (auto intro!: nth_equalityI simp: in_set_conv_nth)

section \<open>Properties\<close>

text \<open>
  C34. Writing and reading are inverse: any sequence of items that fit their encodings (a length
  prefix of its width, raw chunks the reader's 32-bit length, that is, fewer than 2^32 octets), written
  to a new writer of any initial size, never stores outside the buffer (the buffer always
  grows enough), and a reader on the buffer reads back the same items and nothing is left.
\<close>

theorem bio_round_trip:
  assumes "list_all fits is"
  shows "\<exists>w bs. write_items is (bio_writer_create n) = Inr w \<and> get_buf w = map Some bs
    \<and> read_items is (bio_reader_create bs) = Some (is, bio_reader_create [])"
proof -
  obtain w where w: "write_items is (bio_writer_create n) = Inr w" "writer_inv w"
    "written w = concat (map enc_item is)"
    using write_items_spec [OF bio_writer_create_inv(1), of "is" n] bio_writer_create_inv(2) by auto
  have "get_buf w = map Some (written w)" by (rule get_buf_written [OF w(2)])
  then show ?thesis using w(1,3) read_items_append [OF assms, of "[]"] by (auto simp: bio_reader_create_def)
qed

theorem bio_round_trip_witness:
  "\<exists>w bs. write_items [U16 0x1234, D8 [1,2,3], U24 0xABCDEF] (bio_writer_create 0) = Inr w \<and> get_buf w = map Some bs
     \<and> read_items [U16 0x1234, D8 [1,2,3], U24 0xABCDEF] (bio_reader_create bs)
        = Some ([U16 0x1234, D8 [1,2,3], U24 0xABCDEF], bio_reader_create [])"
  by (rule bio_round_trip) simp

text \<open>
  Length headers added afterwards: wrapping what was written in an 8, 16, 24 or 32 bit
  length field gives a buffer from which the matching length-prefixed read extracts exactly
  the earlier contents, as long as their length fits the field.
\<close>

theorem bio_wrap_round_trip:
  assumes "writer_inv w"
  shows "(length (written w) < 2 ^ 8 \<longrightarrow> (\<exists>w'. wrap8 w = Inr w' \<and> get_buf w' = map Some (written w')
        \<and> read_data8 \<lparr>rbuf = written w'\<rparr> = Some (written w, \<lparr>rbuf = []\<rparr>)))
    \<and> (length (written w) < 2 ^ 16 \<longrightarrow> (\<exists>w'. wrap16 w = Inr w' \<and> get_buf w' = map Some (written w')
        \<and> read_data16 \<lparr>rbuf = written w'\<rparr> = Some (written w, \<lparr>rbuf = []\<rparr>)))
    \<and> (length (written w) < 2 ^ 24 \<longrightarrow> (\<exists>w'. wrap24 w = Inr w' \<and> get_buf w' = map Some (written w')
        \<and> read_data24 \<lparr>rbuf = written w'\<rparr> = Some (written w, \<lparr>rbuf = []\<rparr>)))
    \<and> (length (written w) < 2 ^ 32 \<longrightarrow> (\<exists>w'. wrap32 w = Inr w' \<and> get_buf w' = map Some (written w')
        \<and> read_data32 \<lparr>rbuf = written w'\<rparr> = Some (written w, \<lparr>rbuf = []\<rparr>)))"
proof (intro conjI impI)
  let ?v = "written w"
  show "\<exists>w'. wrap8 w = Inr w' \<and> get_buf w' = map Some (written w') \<and> read_data8 \<lparr>rbuf = written w'\<rparr> = Some (?v, \<lparr>rbuf = []\<rparr>)"
    if "length ?v < 2 ^ 8"
    using wrap_spec [OF assms, of "\<lambda>u. [of_nat u]" 1] read_item_append [of "D8 ?v" "[]"] that
    by (auto simp: wrap8_def get_buf_written)
  show "\<exists>w'. wrap16 w = Inr w' \<and> get_buf w' = map Some (written w') \<and> read_data16 \<lparr>rbuf = written w'\<rparr> = Some (?v, \<lparr>rbuf = []\<rparr>)"
    if "length ?v < 2 ^ 16"
    using wrap_spec [OF assms, of "\<lambda>u. be_bytes 2 (of_nat u :: 16 word)" 2] read_item_append [of "D16 ?v" "[]"] that
    by (auto simp: wrap16_def get_buf_written)
  show "\<exists>w'. wrap24 w = Inr w' \<and> get_buf w' = map Some (written w') \<and> read_data24 \<lparr>rbuf = written w'\<rparr> = Some (?v, \<lparr>rbuf = []\<rparr>)"
    if "length ?v < 2 ^ 24"
    using wrap_spec [OF assms, of "\<lambda>u. drop 1 (be_bytes 4 (of_nat u :: 32 word))" 3] read_item_append [of "D24 ?v" "[]"] that
    by (auto simp: wrap24_def get_buf_written)
  show "\<exists>w'. wrap32 w = Inr w' \<and> get_buf w' = map Some (written w') \<and> read_data32 \<lparr>rbuf = written w'\<rparr> = Some (?v, \<lparr>rbuf = []\<rparr>)"
    if "length ?v < 2 ^ 32"
    using wrap_spec [OF assms, of "\<lambda>u. be_bytes 4 (of_nat u :: 32 word)" 4] read_item_append [of "D32 ?v" "[]"] that
    by (auto simp: wrap32_def get_buf_written)
qed

theorem bio_wrap_round_trip_witness:
  "\<exists>w'. wrap16 (bio_writer_create 0) = Inr w' \<and> read_data16 \<lparr>rbuf = written w'\<rparr> = Some ([], \<lparr>rbuf = []\<rparr>)"
  using bio_wrap_round_trip [OF bio_writer_create_inv(1), of 0] by (auto simp: bio_writer_create_inv)

end
