(* ===== verification/Mem_Pool.thy ===== *)
theory Mem_Pool
  imports Host Transition "HOL-Library.AList"
begin

text \<open>
  The in-memory pool of virtual addresses, \<open>libcharon/attributes/mem_pool.c\<close>.  Leases are
  offsets into the pool, 32-bit as in the code.  The lease table is an association list in
  insertion order, which is what the hash table enumerates; peers are identified by the type
  parameter \<open>'id\<close>.  The hash of a peer address is the parameter \<open>hash\<close>.
\<close>

section \<open>Data\<close>

type_synonym unique_lease = "32 word \<times> 32 word"

record lease_entry =
  online :: "unique_lease list"
  offline :: "32 word list"

record 'id mem_pool =
  pool_base :: "host option"
  base_is_network_id :: bool
  pool_size :: "32 word"
  unused :: "32 word"
  leases :: "('id \<times> lease_entry) list"

datatype mem_pool_op = MEM_POOL_EXISTING | MEM_POOL_NEW | MEM_POOL_REASSIGN

definition entry_create :: lease_entry where
  "entry_create = \<lparr>online = [], offline = []\<rparr>"

section \<open>Offsets and addresses\<close>

definition addr_index :: "host \<Rightarrow> nat" where
  "addr_index h = (if get_family h = AF_INET6 then 12 else 0)"

definition offset2host :: "host \<Rightarrow> 'id mem_pool \<Rightarrow> 32 word \<Rightarrow> host option" where
  "offset2host base pool off =
     (let o1 = off - 1 in
      if o1 > pool_size pool then None
      else
        let addr = get_address base; k = addr_index base;
            pos = o1 + be_word (take 4 (drop k addr)) in
        host_create_from_chunk (get_family base) (take k addr @ be_bytes 4 pos @ drop (k + 4) addr) 0)"

definition host2offset :: "host \<Rightarrow> 'id mem_pool \<Rightarrow> host \<Rightarrow> 32 word" where
  "host2offset base pool addr =
     (if get_family addr \<noteq> get_family base then - 1
      else if get_family addr = AF_INET6 \<and> take 12 (get_address addr) \<noteq> take 12 (get_address base) then - 1
      else
        let k = addr_index addr;
            hosti = be_word (take 4 (drop k (get_address addr)));
            basei = be_word (take 4 (drop k (get_address base))) in
        if hosti > basei + pool_size pool then - 1 else hosti - basei + 1)"

section \<open>Leases\<close>

definition get_online :: "'id mem_pool \<Rightarrow> 32 word" where
  "get_online this = foldl (\<lambda>c (i, e). c + of_nat (length (online e))) 0 (leases this)"

definition get_offline :: "'id mem_pool \<Rightarrow> 32 word" where
  "get_offline this = foldl (\<lambda>c (i, e). c + of_nat (length (offline e))) 0 (leases this)"

definition hash_addr :: "(host \<Rightarrow> 32 word) \<Rightarrow> host option \<Rightarrow> 32 word" where
  "hash_addr hash addr = (case addr of Some a \<Rightarrow> hash a | None \<Rightarrow> 0)"

fun find_online :: "(unique_lease \<Rightarrow> bool) \<Rightarrow> unique_lease list \<Rightarrow> unique_lease option" where
  "find_online P [] = None"
| "find_online P (l # ls) = (if P l then Some l else find_online P ls)"

definition existing_online ::
  "(host \<Rightarrow> 32 word) \<Rightarrow> host \<Rightarrow> 'id mem_pool \<Rightarrow> 'id \<Rightarrow> lease_entry \<Rightarrow> host \<Rightarrow> host option \<Rightarrow> 32 word \<times> 'id mem_pool" where
  "existing_online hash base this i e requested peer =
     (if peer = None then (0, this)
      else
        (case find_online (\<lambda>l. snd l = hash_addr hash peer
             \<and> (is_anyaddr requested \<or> fst l = host2offset base this requested)) (online e) of
           None \<Rightarrow> (0, this)
         | Some l \<Rightarrow> (fst l, this\<lparr>leases := AList.update i (e\<lparr>online := online e @ [l]\<rparr>) (leases this)\<rparr>)))"

definition get_existing ::
  "(host \<Rightarrow> 32 word) \<Rightarrow> host \<Rightarrow> 'id mem_pool \<Rightarrow> 'id \<Rightarrow> host \<Rightarrow> host option \<Rightarrow> 32 word \<times> 'id mem_pool" where
  "get_existing hash base this i requested peer =
     (case map_of (leases this) i of
        None \<Rightarrow> (0, this)
      | Some e \<Rightarrow>
          (case offline e of
             current # rest \<Rightarrow>
               let e1 = e\<lparr>online := online e @ [(current, hash_addr hash peer)], offline := rest\<rparr>;
                   this1 = this\<lparr>leases := AList.update i e1 (leases this)\<rparr> in
               if current \<noteq> 0 then (current, this1) else existing_online hash base this1 i e1 requested peer
           | [] \<Rightarrow> existing_online hash base this i e requested peer))"

text \<open>Adding an online lease to the entry of \<open>i\<close>, which is created if needed.\<close>

definition add_online :: "'id \<Rightarrow> unique_lease \<Rightarrow> ('id \<times> lease_entry) list \<Rightarrow> ('id \<times> lease_entry) list" where
  "add_online i l ls =
     (let e = (case map_of ls i of None \<Rightarrow> entry_create | Some e \<Rightarrow> e) in
      AList.update i (e\<lparr>online := online e @ [l]\<rparr>) ls)"

definition get_new :: "(host \<Rightarrow> 32 word) \<Rightarrow> 'id mem_pool \<Rightarrow> 'id \<Rightarrow> host option \<Rightarrow> 32 word \<times> 'id mem_pool" where
  "get_new hash this i peer =
     (if unused this < pool_size this then
        let u = unused this + 1; off = u + (if base_is_network_id this then 1 else 0) in
        (off, this\<lparr>unused := u, leases := add_online i (off, hash_addr hash peer) (leases this)\<rparr>)
      else (0, this))"

fun reassign_loop :: "('id \<times> lease_entry) list \<Rightarrow> 32 word \<times> ('id \<times> lease_entry) list" where
  "reassign_loop [] = (0, [])"
| "reassign_loop ((i, e) # rest) =
     (let (off, e1) = (case offline e of [] \<Rightarrow> (0, e) | c # cs \<Rightarrow> (c, e\<lparr>offline := cs\<rparr>));
          keep = (if online e1 = [] \<and> offline e1 = [] then [] else [(i, e1)]) in
      if off \<noteq> 0 then (off, keep @ rest)
      else let (o', rest') = reassign_loop rest in (o', keep @ rest'))"

definition get_reassigned ::
  "(host \<Rightarrow> 32 word) \<Rightarrow> 'id mem_pool \<Rightarrow> 'id \<Rightarrow> host option \<Rightarrow> 32 word \<times> 'id mem_pool" where
  "get_reassigned hash this i peer =
     (let (off, ls) = reassign_loop (leases this) in
      if off \<noteq> 0 then (off, this\<lparr>leases := add_online i (off, hash_addr hash peer) ls\<rparr>)
      else (0, this\<lparr>leases := ls\<rparr>))"

section \<open>Operations of the pool\<close>

definition acquire_offset ::
  "(host \<Rightarrow> 32 word) \<Rightarrow> host \<Rightarrow> 'id mem_pool \<Rightarrow> 'id \<Rightarrow> host \<Rightarrow> mem_pool_op \<Rightarrow> host option \<Rightarrow> 32 word \<times> 'id mem_pool"
where
  "acquire_offset hash base this i requested op peer =
     (case op of
        MEM_POOL_EXISTING \<Rightarrow> get_existing hash base this i requested peer
      | MEM_POOL_NEW \<Rightarrow> get_new hash this i peer
      | MEM_POOL_REASSIGN \<Rightarrow> get_reassigned hash this i peer)"

definition pool_acquire ::
  "(host \<Rightarrow> 32 word) \<Rightarrow> 'id mem_pool \<Rightarrow> 'id \<Rightarrow> host \<Rightarrow> mem_pool_op \<Rightarrow> host option
    \<Rightarrow> (host option \<times> 'id mem_pool) res" where
  "pool_acquire hash this i requested op peer =
     (if pool_size this = 0 then Inr (Some requested, this)
      else
        (case pool_base this of
           None \<Rightarrow> Inl NullDeref
         | Some base \<Rightarrow>
             if get_family requested \<noteq> get_family base then Inr (None, this)
             else
               let (off, this') = acquire_offset hash base this i requested op peer in
               if off \<noteq> 0 then Inr (offset2host base this' off, this') else Inr (None, this')))"

text \<open>The first online lease with the offset is taken out.\<close>

fun drop_first :: "32 word \<Rightarrow> unique_lease list \<Rightarrow> unique_lease list option" where
  "drop_first off [] = None"
| "drop_first off (l # ls) = (if fst l = off then Some ls else map_option ((#) l) (drop_first off ls))"

definition pool_release :: "'id mem_pool \<Rightarrow> host \<Rightarrow> 'id \<Rightarrow> (bool \<times> 'id mem_pool) res" where
  "pool_release this address i =
     (if pool_size this \<noteq> 0 then
        (case map_of (leases this) i of
           None \<Rightarrow> Inr (False, this)
         | Some e \<Rightarrow>
             (case pool_base this of
                None \<Rightarrow> Inl NullDeref
              | Some base \<Rightarrow>
                  let off = host2offset base this address in
                  (case drop_first off (online e) of
                     None \<Rightarrow> Inr (False, this)
                   | Some on' \<Rightarrow>
                       let more = off \<in> set (map fst on');
                           e1 = e\<lparr>online := on'\<rparr>;
                           e2 = (if \<not> more then e1\<lparr>offline := offline e1 @ [off]\<rparr> else e1) in
                       Inr (True, this\<lparr>leases := AList.update i e2 (leases this)\<rparr>))))
      else Inr (False, this))"

text \<open>What the lease enumerator lists: per entry the online leases, then the offline ones.\<close>

definition lease_enumerate :: "host \<Rightarrow> 'id mem_pool \<Rightarrow> ('id \<times> host option \<times> bool) list" where
  "lease_enumerate base this = concat (map (\<lambda>(i, e).
     map (\<lambda>l. (i, offset2host base this (fst l), True)) (online e)
     @ map (\<lambda>off. (i, offset2host base this off, False)) (offline e)) (leases this))"

section \<open>Construction\<close>

definition POOL_LIMIT :: nat where "POOL_LIMIT = 31"

definition create_generic :: "'id mem_pool" where
  "create_generic = \<lparr>pool_base = None, base_is_network_id = False, pool_size = 0, unused = 0, leases = []\<rparr>"

definition network_id_diff :: "host \<Rightarrow> nat \<Rightarrow> 32 word" where
  "network_id_diff h hostbits =
     (if hostbits = 0 then 0
      else
        let addr = get_address h; l = be_word (drop (length addr - 4) addr) :: 32 word; n = 32 - hostbits in
        drop_bit n (push_bit n l))"

definition mem_pool_create :: "host option \<Rightarrow> int \<Rightarrow> 'id mem_pool" where
  "mem_pool_create base bits =
     (case base of
        None \<Rightarrow> create_generic
      | Some b \<Rightarrow>
          let addr_bits = (if get_family b = AF_INET then 32 else 128) :: int;
              bits1 = addr_bits - max 0 (min bits addr_bits);
              bits2 = (if bits1 > int POOL_LIMIT then POOL_LIMIT else nat bits1);
              sz = push_bit bits2 1 :: 32 word;
              this = create_generic\<lparr>pool_size := sz, pool_base := Some b\<rparr> in
          if sz > 2 then
            let diff = network_id_diff b bits2;
                this1 = (if diff = 0 then this\<lparr>base_is_network_id := True, pool_size := sz - 1\<rparr>
                         else this\<lparr>pool_size := sz - diff\<rparr>) in
            this1\<lparr>pool_size := pool_size this1 - 1\<rparr>
          else if network_id_diff b bits2 \<noteq> 0 then this\<lparr>pool_size := sz - 1\<rparr>
          else this)"

fun memcmp_gt :: "chunk \<Rightarrow> chunk \<Rightarrow> bool" where
  "memcmp_gt (a # as) (b # bs) = (if a = b then memcmp_gt as bs else a > b)"
| "memcmp_gt _ _ = False"

definition mem_pool_create_range :: "host \<Rightarrow> host \<Rightarrow> 'id mem_pool option" where
  "mem_pool_create_range from to =
     (let f = get_address from; t = get_address to in
      if get_family from \<noteq> get_family to \<or> length f \<noteq> length t \<or> length f < 4 \<or> memcmp_gt f t then None
      else if length f > 4 \<and> take (length f - 4) f \<noteq> take (length t - 4) t then None
      else
        let diff = be_word (drop (length t - 4) t) - be_word (drop (length f - 4) f) :: 32 word in
        Some (create_generic\<lparr>pool_base := Some from, pool_size := diff + 1\<rparr>))"

section \<open>Who holds which offset\<close>

definition on_of :: "('id \<times> lease_entry) list \<Rightarrow> 'id \<Rightarrow> unique_lease list" where
  "on_of ls i = (case map_of ls i of None \<Rightarrow> [] | Some e \<Rightarrow> online e)"

definition off_of :: "('id \<times> lease_entry) list \<Rightarrow> 'id \<Rightarrow> 32 word list" where
  "off_of ls i = (case map_of ls i of None \<Rightarrow> [] | Some e \<Rightarrow> offline e)"

lemma on_of_update: "on_of (AList.update i e ls) = (on_of ls)(i := online e)"
  by (simp add: on_of_def fun_eq_iff update_conv')

lemma off_of_update: "off_of (AList.update i e ls) = (off_of ls)(i := offline e)"
  by (simp add: off_of_def fun_eq_iff update_conv')

lemma map_of_on_off: "map_of ls i = Some e \<Longrightarrow> on_of ls i = online e \<and> off_of ls i = offline e"
  by (simp add: on_of_def off_of_def)

lemma add_online_of:
  "on_of (add_online i l ls) = (on_of ls)(i := on_of ls i @ [l])"
  "off_of (add_online i l ls) = off_of ls"
  by (auto simp: add_online_def Let_def on_of_update off_of_update fun_eq_iff on_of_def off_of_def
      entry_create_def split: option.split)

definition holds :: "('id \<Rightarrow> unique_lease list) \<Rightarrow> ('id \<Rightarrow> 32 word list) \<Rightarrow> 'id \<Rightarrow> 32 word set" where
  "holds N F i = fst ` set (N i) \<union> set (F i)"

text \<open>
  Nobody holds an offset twice (offline and online, or twice offline), no two peers hold
  the same offset, and the offsets held are exactly those in \<open>R\<close>.
\<close>

definition lease_inv :: "('id \<Rightarrow> unique_lease list) \<Rightarrow> ('id \<Rightarrow> 32 word list) \<Rightarrow> 32 word set \<Rightarrow> bool" where
  "lease_inv N F R \<longleftrightarrow> (\<forall>i. distinct (F i) \<and> fst ` set (N i) \<inter> set (F i) = {})
     \<and> (\<forall>i j. i \<noteq> j \<longrightarrow> holds N F i \<inter> holds N F j = {}) \<and> (\<Union>i. holds N F i) = R"

lemma lease_inv_in: "lease_inv N F R \<Longrightarrow> c \<in> holds N F i \<Longrightarrow> c \<in> R"
  by (auto simp: lease_inv_def)

lemma lease_inv_entry: "lease_inv N F R \<Longrightarrow> distinct (F i) \<and> fst ` set (N i) \<inter> set (F i) = {}"
  by (simp add: lease_inv_def)

text \<open>An offline lease of \<open>j\<close> becomes an online lease of \<open>i\<close> (possibly the same peer).\<close>

lemma lease_inv_move:
  assumes inv: "lease_inv N F R" and c: "F j = c # cs"
  shows "lease_inv (N(i := N i @ [(c, h)])) (F(j := cs)) R"
proof -
  let ?N = "N(i := N i @ [(c, h)])" and ?F = "F(j := cs)"
  have ent: "distinct (F k) \<and> fst ` set (N k) \<inter> set (F k) = {}" for k using inv by (auto simp: lease_inv_def)
  have dj: "holds N F k \<inter> holds N F l = {}" if "k \<noteq> l" for k l using inv that by (auto simp: lease_inv_def)
  have cj: "c \<in> holds N F j" using c by (simp add: holds_def)
  have hj: "c \<notin> fst ` set (N j)" "c \<notin> set cs" using ent [of j] c by auto
  have not: "c \<notin> holds N F k" if "k \<noteq> j" for k using dj [OF that] cj by blast
  have h: "holds ?N ?F k = (if k = i then insert c (holds N F k) else if k = j then holds N F k - {c} else holds N F k)" for k
    using c hj by (auto simp: holds_def)
  have "distinct (?F k) \<and> fst ` set (?N k) \<inter> set (?F k) = {}" for k
    using ent [of k] c hj not [of k] by (auto simp: holds_def)
  moreover have "holds ?N ?F k \<inter> holds ?N ?F l = {}" if "k \<noteq> l" for k l
    using dj [OF that] not [of k] not [of l] that by (auto simp: h)
  moreover have "(\<Union>k. holds ?N ?F k) = (\<Union>k. holds N F k)" using cj by (auto simp: h split: if_splits)
  ultimately show ?thesis using inv by (auto simp: lease_inv_def)
qed

lemma lease_inv_new:
  assumes inv: "lease_inv N F R" and c: "c \<notin> R"
  shows "lease_inv (N(i := N i @ [(c, h)])) F (insert c R)"
proof -
  have n: "c \<notin> holds N F k" for k using lease_inv_in [OF inv] c by blast
  have "holds (N(i := N i @ [(c, h)])) F k = (if k = i then insert c (holds N F k) else holds N F k)" for k
    by (auto simp: holds_def)
  note h = this
  have ent: "distinct (F k) \<and> fst ` set ((N(i := N i @ [(c, h)])) k) \<inter> set (F k) = {}" for k
    using inv n [of k] by (auto simp: lease_inv_def holds_def)
  moreover have "holds (N(i := N i @ [(c, h)])) F k \<inter> holds (N(i := N i @ [(c, h)])) F l = {}" if "k \<noteq> l" for k l
    using inv that n [of k] n [of l] by (auto simp: h lease_inv_def)
  moreover have "(\<Union>k. holds (N(i := N i @ [(c, h)])) F k) = insert c (\<Union>k. holds N F k)"
    by (auto simp: h split: if_splits)
  ultimately show ?thesis using inv by (auto simp: lease_inv_def)
qed

text \<open>The set of held offsets does not change.\<close>

lemma lease_inv_same:
  assumes "lease_inv N F R" and "holds N' F' i = holds N F i"
    and "distinct (F' i) \<and> fst ` set (N' i) \<inter> set (F' i) = {}"
    and "\<And>k. k \<noteq> i \<Longrightarrow> N' k = N k \<and> F' k = F k"
  shows "lease_inv N' F' R"
proof -
  have h: "holds N' F' k = holds N F k" for k using assms(2,4) by (cases "k = i") (auto simp: holds_def)
  have "distinct (F' k) \<and> fst ` set (N' k) \<inter> set (F' k) = {}" for k
    using assms(1,3,4) by (cases "k = i") (auto simp: lease_inv_def)
  then show ?thesis using assms(1) by (simp add: lease_inv_def h)
qed

lemma find_online_Some: "find_online P ls = Some l \<Longrightarrow> l \<in> set ls"
  by (induction ls) (auto split: if_splits)

lemma drop_first_set:
  "drop_first c ls = Some ls' \<Longrightarrow> c \<in> fst ` set ls \<and> fst ` set ls = insert c (fst ` set ls') \<and> set ls' \<subseteq> set ls"
proof (induction ls arbitrary: ls')
  case (Cons l ls)
  show ?case
  proof (cases "fst l = c")
    case True
    then show ?thesis using Cons.prems by auto
  next
    case False
    then obtain ls2 where l2: "drop_first c ls = Some ls2" "ls' = l # ls2" using Cons.prems by auto
    from Cons.IH [OF l2(1)] show ?thesis unfolding l2(2) by auto
  qed
qed simp

lemma drop_first_None: "drop_first c ls = None \<longleftrightarrow> c \<notin> fst ` set ls"
  by (induction ls) auto

lemma reassign_loop_spec:
  assumes "distinct (map fst ls)" and "\<forall>i. 0 \<notin> set (off_of ls i)" and "reassign_loop ls = (c, ls')"
  shows "distinct (map fst ls') \<and> set (map fst ls') \<subseteq> set (map fst ls) \<and> on_of ls' = on_of ls
    \<and> (if c = 0 then off_of ls' = off_of ls \<and> (\<forall>i. off_of ls i = [])
       else \<exists>j cs. off_of ls j = c # cs \<and> off_of ls' = (off_of ls)(j := cs))"
  using assms
proof (induction ls arbitrary: c ls')
  case Nil
  then show ?case by (simp add: off_of_def)
next
  case (Cons p ls)
  obtain i e where p: "p = (i, e)" by fastforce
  have on: "on_of (p # ls) k = (if k = i then online e else on_of ls k)"
    and off: "off_of (p # ls) k = (if k = i then offline e else off_of ls k)" for k
    by (simp_all add: on_of_def off_of_def p)
  have i: "i \<notin> set (map fst ls)" "distinct (map fst ls)" using Cons.prems(1) p by auto
  have mi: "map_of l i = None" if "set (map fst l) \<subseteq> set (map fst ls)" for l :: "('a \<times> lease_entry) list"
    using that i(1) by (auto simp: map_of_eq_None_iff)
  show ?case
  proof (cases "offline e")
    case Nil
    obtain c1 l1 where r: "reassign_loop ls = (c1, l1)" by fastforce
    let ?k = "if online e = [] then [] else [(i, e)]"
    have ls': "c = c1" "ls' = ?k @ l1" using Cons.prems(3) Nil r p by (auto simp: Let_def)
    have o0: "off_of ls i = []" using mi [of ls] by (simp add: off_of_def)
    have "0 \<notin> set (off_of ls k)" for k
      using Cons.prems(2) off [of k] o0 by (cases "k = i") (simp, metis)
    then have z: "\<forall>k. 0 \<notin> set (off_of ls k)" by blast
    note IH = Cons.IH [OF i(2) z r]
    have m: "map_of l1 i = None" using mi [of l1] IH by blast
    have on': "on_of ls' k = (if k = i then online e else on_of l1 k)"
      and off': "off_of ls' k = (if k = i then [] else off_of l1 k)" for k
      using m Nil by (auto simp: ls' on_of_def off_of_def)
    have "distinct (map fst ls') \<and> set (map fst ls') \<subseteq> set (map fst (p # ls))"
      using IH i m p by (auto simp: ls' map_of_eq_None_iff)
    moreover have "on_of ls' = on_of (p # ls)" using IH on on' by (auto simp: fun_eq_iff)
    moreover have "if c = 0 then off_of ls' = off_of (p # ls) \<and> (\<forall>k. off_of (p # ls) k = [])
       else \<exists>j cs. off_of (p # ls) j = c # cs \<and> off_of ls' = (off_of (p # ls))(j := cs)"
    proof (cases "c = 0")
      case True
      then show ?thesis using IH ls'(1) off off' Nil by (simp add: fun_eq_iff)
    next
      case False
      then obtain j cs where j: "off_of ls j = c # cs" "off_of l1 = (off_of ls)(j := cs)" using IH ls'(1) by auto
      then have "j \<noteq> i" using o0 by auto
      then have "off_of (p # ls) j = c # cs" "off_of ls' = (off_of (p # ls))(j := cs)"
        using j off off' Nil by (auto simp: fun_eq_iff)
      then show ?thesis using False by auto
    qed
    ultimately show ?thesis by simp
  next
    case (Cons d cs)
    then have d: "d \<noteq> 0" using Cons.prems(2) off [of i] by (auto dest: spec [of _ i])
    let ?e = "e\<lparr>offline := cs\<rparr>"
    let ?k = "if online e = [] \<and> cs = [] then [] else [(i, ?e)]"
    have ls': "c = d" "ls' = ?k @ ls" using Cons.prems(3) Cons p d by (auto simp: Let_def)
    have m: "map_of ls i = None" using mi [of ls] by blast
    have on': "on_of ls' k = (if k = i then online e else on_of ls k)"
      and off': "off_of ls' k = (if k = i then cs else off_of ls k)" for k
      using m by (auto simp: ls' on_of_def off_of_def)
    have "distinct (map fst ls') \<and> set (map fst ls') \<subseteq> set (map fst (p # ls))"
      using i p by (auto simp: ls')
    moreover have "on_of ls' = on_of (p # ls)" using on on' by (auto simp: fun_eq_iff)
    moreover have "off_of (p # ls) i = d # cs" "off_of ls' = (off_of (p # ls))(i := cs)"
      using off off' Cons by (auto simp: fun_eq_iff)
    ultimately show ?thesis using ls'(1) d by auto
  qed
qed

section \<open>The pool invariant\<close>

definition first_offset :: "'id mem_pool \<Rightarrow> nat" where
  "first_offset p = (if base_is_network_id p then 2 else 1)"

text \<open>The offsets handed out so far.\<close>

definition assigned :: "'id mem_pool \<Rightarrow> 32 word set" where
  "assigned p = {c. first_offset p \<le> unat c \<and> unat c < first_offset p + unat (unused p)}"

definition pool_inv :: "'id mem_pool \<Rightarrow> bool" where
  "pool_inv p \<longleftrightarrow> distinct (map fst (leases p)) \<and> unused p \<le> pool_size p
     \<and> first_offset p + unat (pool_size p) \<le> 2 ^ 32 \<and> (pool_size p \<noteq> 0 \<longrightarrow> pool_base p \<noteq> None)
     \<and> lease_inv (on_of (leases p)) (off_of (leases p)) (assigned p)"

lemma assigned_nonzero: "0 \<notin> assigned p"
  by (simp add: assigned_def first_offset_def)

lemma assigned_leases [simp]: "assigned (p\<lparr>leases := l\<rparr>) = assigned p"
  by (simp add: assigned_def first_offset_def)

lemma first_offset_update [simp]:
  "first_offset (p\<lparr>leases := l\<rparr>) = first_offset p" "first_offset (p\<lparr>unused := u\<rparr>) = first_offset p"
  by (simp_all add: first_offset_def)

lemma pool_inv_update:
  assumes "pool_inv p" and "lease_inv (on_of l) (off_of l) (assigned p)" and "distinct (map fst l)"
  shows "pool_inv (p\<lparr>leases := l\<rparr>)"
  using assms by (simp add: pool_inv_def)

lemma get_existing_inv:
  assumes inv: "pool_inv p" and g: "get_existing hash base p i req peer = (c, p')"
  shows "pool_inv p' \<and> pool_size p' = pool_size p \<and> pool_base p' = pool_base p
    \<and> (c \<noteq> 0 \<longrightarrow> c \<in> fst ` set (on_of (leases p') i))"
proof (cases "map_of (leases p) i")
  case None
  then show ?thesis using inv g by (simp add: get_existing_def)
next
  case (Some e)
  note oo = map_of_on_off [OF Some]
  have li: "lease_inv (on_of (leases p)) (off_of (leases p)) (assigned p)" using inv by (simp add: pool_inv_def)
  have dk: "distinct (map fst (AList.update i x (leases p)))" for x
    using inv by (auto simp: pool_inv_def intro: distinct_update)
  show ?thesis
  proof (cases "offline e")
    case (Cons d cs)
    let ?e = "e\<lparr>online := online e @ [(d, hash_addr hash peer)], offline := cs\<rparr>"
    have "d \<in> holds (on_of (leases p)) (off_of (leases p)) i" using oo Cons by (simp add: holds_def)
    then have "d \<noteq> 0" using lease_inv_in [OF li] assigned_nonzero [of p] by blast
    have p': "c = d" "p' = p\<lparr>leases := AList.update i ?e (leases p)\<rparr>"
      using g Some Cons \<open>d \<noteq> 0\<close> by (auto simp: get_existing_def Let_def)
    have "lease_inv ((on_of (leases p))(i := on_of (leases p) i @ [(d, hash_addr hash peer)])) ((off_of (leases p))(i := cs)) (assigned p)"
      by (rule lease_inv_move [OF li]) (simp add: oo Cons)
    then show ?thesis unfolding p'
      using pool_inv_update [OF inv _ dk] oo by (simp add: on_of_update off_of_update)
  next
    case Nil
    show ?thesis
    proof (cases "c = 0 \<and> p' = p")
      case True
      then show ?thesis using inv by simp
    next
      case False
      then obtain l where l: "l \<in> set (online e)" "c = fst l"
        "p' = p\<lparr>leases := AList.update i (e\<lparr>online := online e @ [l]\<rparr>) (leases p)\<rparr>"
        using g Some Nil by (auto simp: get_existing_def existing_online_def dest: find_online_Some split: if_splits option.splits)
      have "lease_inv ((on_of (leases p))(i := online e @ [l])) ((off_of (leases p))(i := offline e)) (assigned p)"
        by (rule lease_inv_same [OF li, of _ _ i])
          (use l oo lease_inv_entry [OF li, of i] in \<open>auto simp: holds_def\<close>)
      then show ?thesis unfolding l(3)
        using pool_inv_update [OF inv _ dk] l oo by (simp add: on_of_update off_of_update)
    qed
  qed
qed

lemma distinct_add_online: "distinct (map fst ls) \<Longrightarrow> distinct (map fst (add_online i l ls))"
  by (simp add: add_online_def Let_def distinct_update)

lemma get_new_inv:
  assumes inv: "pool_inv p" and g: "get_new hash p i peer = (c, p')"
  shows "pool_inv p' \<and> pool_size p' = pool_size p \<and> pool_base p' = pool_base p
    \<and> (c \<noteq> 0 \<longrightarrow> c \<in> fst ` set (on_of (leases p') i)) \<and> (c \<noteq> 0 \<longleftrightarrow> unused p < pool_size p)"
proof (cases "unused p < pool_size p")
  case False
  then show ?thesis using inv g by (simp add: get_new_def)
next
  case True
  let ?b = "if base_is_network_id p then 1 else 0 :: 32 word"
  have c: "c = unused p + 1 + ?b"
    and p': "p' = p\<lparr>unused := unused p + 1, leases := add_online i (c, hash_addr hash peer) (leases p)\<rparr>"
    using g True by (auto simp: get_new_def Let_def)
  have lt: "unat (unused p) < unat (pool_size p)" "first_offset p + unat (pool_size p) \<le> 2 ^ 32"
    using True inv by (simp_all add: word_less_nat_alt pool_inv_def)
  then have u: "unat (unused p + 1) = unat (unused p) + 1"
    by (simp add: unat_word_ariths first_offset_def split: if_splits)
  then have uc: "unat c = first_offset p + unat (unused p)"
    using lt unfolding c by (simp add: unat_word_ariths first_offset_def split: if_splits)
  have a: "assigned p' = insert c (assigned p)"
    using u uc by (auto simp: assigned_def first_offset_def p' word_unat_eq_iff)
  have "c \<notin> assigned p" using uc by (simp add: assigned_def)
  then have "lease_inv (on_of (leases p')) (off_of (leases p')) (assigned p')"
    unfolding a using lease_inv_new [of "on_of (leases p)" "off_of (leases p)" "assigned p" c i "hash_addr hash peer"] inv
    by (simp add: p' add_online_of pool_inv_def)
  moreover have "c \<noteq> 0" using uc by (auto simp: first_offset_def split: if_splits)
  moreover have "unused p' \<le> pool_size p'" using u lt by (simp add: p' word_le_nat_alt)
  ultimately show ?thesis using inv True
    by (auto simp: p' pool_inv_def add_online_of distinct_add_online)
qed

lemma get_reassigned_inv:
  assumes inv: "pool_inv p" and g: "get_reassigned hash p i peer = (c, p')"
  shows "pool_inv p' \<and> pool_size p' = pool_size p \<and> pool_base p' = pool_base p
    \<and> (c \<noteq> 0 \<longrightarrow> c \<in> fst ` set (on_of (leases p') i))
    \<and> (c = 0 \<longleftrightarrow> (\<forall>j. off_of (leases p) j = []))"
proof -
  obtain ls where r: "reassign_loop (leases p) = (c, ls)"
    and p': "p' = p\<lparr>leases := if c \<noteq> 0 then add_online i (c, hash_addr hash peer) ls else ls\<rparr>"
    using g by (auto simp: get_reassigned_def split: prod.splits if_splits)
  have li: "lease_inv (on_of (leases p)) (off_of (leases p)) (assigned p)" using inv by (simp add: pool_inv_def)
  have "\<forall>j. 0 \<notin> set (off_of (leases p) j)"
    using lease_inv_in [OF li] assigned_nonzero by (auto simp: holds_def)
  then have sp: "distinct (map fst ls) \<and> on_of ls = on_of (leases p)
      \<and> (if c = 0 then off_of ls = off_of (leases p) \<and> (\<forall>j. off_of (leases p) j = [])
         else \<exists>j cs. off_of (leases p) j = c # cs \<and> off_of ls = (off_of (leases p))(j := cs))"
    using reassign_loop_spec [OF _ _ r] inv by (auto simp: pool_inv_def)
  show ?thesis
  proof (cases "c = 0")
    case True
    then have "pool_inv p'" unfolding p' using sp li by (auto intro!: pool_inv_update [OF inv])
    then show ?thesis using True sp p' by auto
  next
    case False
    then obtain j cs where j: "off_of (leases p) j = c # cs" "off_of ls = (off_of (leases p))(j := cs)"
      using sp by auto
    have "lease_inv ((on_of (leases p))(i := on_of (leases p) i @ [(c, hash_addr hash peer)])) ((off_of (leases p))(j := cs)) (assigned p)"
      by (rule lease_inv_move [OF li j(1)])
    then have "pool_inv p'" unfolding p' using sp j False
      by (auto intro!: pool_inv_update [OF inv] distinct_add_online simp: add_online_of)
    moreover have "\<not> (\<forall>j. off_of (leases p) j = [])" using j(1) by (metis list.distinct(1))
    ultimately show ?thesis using False sp by (simp add: p' add_online_of)
  qed
qed

lemma pool_release_inv:
  assumes inv: "pool_inv p"
  shows "\<exists>b p'. pool_release p a i = Inr (b, p') \<and> pool_inv p' \<and> pool_size p' = pool_size p
    \<and> pool_base p' = pool_base p \<and> unused p' = unused p
    \<and> (b \<longleftrightarrow> pool_size p \<noteq> 0 \<and> (\<forall>base. pool_base p = Some base \<longrightarrow>
          host2offset base p a \<in> fst ` set (on_of (leases p) i)))"
proof (cases "pool_size p = 0 \<or> map_of (leases p) i = None")
  case True
  then show ?thesis using inv by (auto simp: pool_release_def on_of_def pool_inv_def)
next
  case False
  then obtain e base where e: "map_of (leases p) i = Some e" and b: "pool_base p = Some base" "pool_size p \<noteq> 0"
    using inv by (auto simp: pool_inv_def)
  note oo = map_of_on_off [OF e]
  let ?c = "host2offset base p a"
  have li: "lease_inv (on_of (leases p)) (off_of (leases p)) (assigned p)" using inv by (simp add: pool_inv_def)
  show ?thesis
  proof (cases "drop_first ?c (online e)")
    case None
    then have "pool_release p a i = Inr (False, p)" using e b by (simp add: pool_release_def Let_def)
    then show ?thesis using inv e b oo None by (auto simp: drop_first_None)
  next
    case (Some on')
    define e2 where "e2 = (if ?c \<notin> set (map fst on') then e\<lparr>online := on', offline := offline e @ [?c]\<rparr> else e\<lparr>online := on'\<rparr>)"
    let ?p = "p\<lparr>leases := AList.update i e2 (leases p)\<rparr>"
    note d = drop_first_set [OF Some]
    have r: "pool_release p a i = Inr (True, ?p)"
      using e b Some by (simp add: pool_release_def Let_def e2_def)
    have ent: "distinct (offline e)" "fst ` set (online e) \<inter> set (offline e) = {}"
      using lease_inv_entry [OF li, of i] oo by auto
    have "lease_inv ((on_of (leases p))(i := online e2)) ((off_of (leases p))(i := offline e2)) (assigned p)"
      by (rule lease_inv_same [OF li, of _ _ i])
        (use d ent oo in \<open>auto simp: holds_def e2_def\<close>)
    then have "pool_inv ?p"
      using inv by (intro pool_inv_update) (auto simp: on_of_update off_of_update pool_inv_def intro: distinct_update)
    then show ?thesis using r b d oo by auto
  qed
qed

section \<open>Addresses\<close>

fun wf_host :: "host \<Rightarrow> bool" where
  "wf_host (Host4 a p) \<longleftrightarrow> length a = 4"
| "wf_host (Host6 a p) \<longleftrightarrow> length a = 16"

definition base32 :: "host \<Rightarrow> 32 word" where
  "base32 h = be_word (take 4 (drop (addr_index h) (get_address h)))"

lemma offset_round_trip:
  assumes wf: "wf_host base" and room: "unat (base32 base) + unat (pool_size p) < 2 ^ 32"
    and c: "1 \<le> unat c" "unat c \<le> unat (pool_size p) + 1"
  shows "\<exists>h. offset2host base p c = Some h \<and> host2offset base p h = c \<and> wf_host h
    \<and> get_family h = get_family base \<and> base32 h = base32 base + (c - 1)"
proof -
  let ?a = "get_address base" and ?k = "addr_index base"
  let ?x = "c - 1 + base32 base"
  have c1: "unat (c - 1) = unat c - 1" using c(1) by (simp add: unat_sub word_le_nat_alt)
  then have le: "\<not> pool_size p < c - 1" using c by (simp add: word_less_nat_alt)
  have l: "?k + 4 = length ?a" using wf by (cases base) (auto simp: addr_index_def)
  let ?b = "take ?k ?a @ be_bytes 4 ?x"
  have lb: "length ?b = length ?a" using l by simp
  define h where "h = (if get_family base = AF_INET6 then Host6 ?b 0 else Host4 ?b 0)"
  have o: "offset2host base p c = Some h"
    using le l lb wf by (cases base) (auto simp: offset2host_def Let_def h_def host_create_from_chunk_def base32_def)
  have f: "get_family h = get_family base" "get_address h = ?b" "addr_index h = ?k" "wf_host h"
    using wf l by (cases base; simp add: h_def addr_index_def)+
  have d: "take 4 (drop ?k ?b) = be_bytes 4 ?x" using l by simp
  have b32: "base32 h = ?x" using f d by (simp add: base32_def be_word_be_bytes_full)
  have "\<not> base32 base + pool_size p < ?x"
    using room c c1 by (simp add: word_less_nat_alt unat_word_ariths)
  then have "host2offset base p h = c"
    using f b32 l wf unfolding host2offset_def base32_def
    by (cases base) (auto simp: Let_def addr_index_def)
  then show ?thesis using o f b32 by (auto simp: add.commute)
qed

lemma assigned_bounds:
  assumes "pool_inv p" and "c \<in> assigned p"
  shows "1 \<le> unat c" "unat c \<le> unat (pool_size p) + 1"
  using assms by (auto simp: pool_inv_def assigned_def first_offset_def word_le_nat_alt split: if_splits)

lemma acquire_offset_inv:
  assumes inv: "pool_inv p" and g: "acquire_offset hash base p i req op peer = (c, p')"
  shows "pool_inv p' \<and> pool_size p' = pool_size p \<and> pool_base p' = pool_base p
    \<and> (c \<noteq> 0 \<longrightarrow> c \<in> fst ` set (on_of (leases p') i))"
  using g get_existing_inv [OF inv] get_new_inv [OF inv] get_reassigned_inv [OF inv]
  by (cases op) (fastforce simp: acquire_offset_def)+

lemma on_assigned: "pool_inv p \<Longrightarrow> c \<in> fst ` set (on_of (leases p) i) \<Longrightarrow> c \<in> assigned p"
  using lease_inv_in [of "on_of (leases p)" "off_of (leases p)" "assigned p" c i]
  by (auto simp: pool_inv_def holds_def)

lemma pool_acquire_inv:
  assumes inv: "pool_inv p"
  shows "\<exists>r p'. pool_acquire hash p i req op peer = Inr (r, p') \<and> pool_inv p' \<and> pool_size p' = pool_size p
    \<and> pool_base p' = pool_base p"
proof (cases "pool_size p = 0")
  case True
  then show ?thesis using inv by (simp add: pool_acquire_def)
next
  case False
  then obtain base where b: "pool_base p = Some base" using inv by (auto simp: pool_inv_def)
  obtain c p' where g: "acquire_offset hash base p i req op peer = (c, p')" by fastforce
  then show ?thesis using acquire_offset_inv [OF inv g] False b inv by (auto simp: pool_acquire_def)
qed

section \<open>Reachable pools\<close>

definition pool_init :: "'id mem_pool \<Rightarrow> bool" where
  "pool_init p \<longleftrightarrow> (\<exists>base bits. p = mem_pool_create base bits) \<or> (\<exists>from to. mem_pool_create_range from to = Some p)"

inductive pool_step :: "(host \<Rightarrow> 32 word) \<Rightarrow> 'id mem_pool \<Rightarrow> 'id mem_pool \<Rightarrow> bool" for hash where
  "pool_acquire hash p i req op peer = Inr (r, p') \<Longrightarrow> pool_step hash p p'"
| "pool_release p a i = Inr (b, p') \<Longrightarrow> pool_step hash p p'"

lemma empty_pool_inv:
  assumes "leases p = []" and "unused p = 0" and "pool_size p \<noteq> 0 \<longrightarrow> pool_base p \<noteq> None"
    and "base_is_network_id p \<longrightarrow> unat (pool_size p) + 2 \<le> 2 ^ 32"
  shows "pool_inv p"
proof -
  have "unat (pool_size p) < 2 ^ 32" using unsigned_less [of "pool_size p", where 'a = nat] by simp
  moreover have "assigned p = {}" using assms(2) by (auto simp: assigned_def)
  ultimately show ?thesis using assms
    by (auto simp: pool_inv_def lease_inv_def holds_def on_of_def off_of_def first_offset_def)
qed

lemma word_minus_2: "x > 2 \<Longrightarrow> unat (x - 1 - 1 :: 32 word) + 2 \<le> 2 ^ 32"
proof -
  assume x: "x > 2"
  then have "unat (x - 1 - 1) = unat x - 2" by (simp add: unat_sub word_less_nat_alt word_le_nat_alt)
  then show ?thesis using x unsigned_less [of x, where 'a = nat] by (simp add: word_less_nat_alt)
qed

lemma mem_pool_create_inv: "pool_inv (mem_pool_create base bits)"
proof (cases base)
  case None
  then show ?thesis by (intro empty_pool_inv) (simp_all add: mem_pool_create_def create_generic_def)
next
  case (Some b)
  define sz :: "32 word" where "sz = push_bit (if (if get_family b = AF_INET then 32 else 128) - max 0 (min bits (if get_family b = AF_INET then 32 else 128)) > int POOL_LIMIT
     then POOL_LIMIT else nat ((if get_family b = AF_INET then 32 else 128) - max 0 (min bits (if get_family b = AF_INET then 32 else 128)))) 1"
  define p where "p = (mem_pool_create base bits :: 'a mem_pool)"
  have "leases p = [] \<and> unused p = 0 \<and> pool_base p = Some b
      \<and> (base_is_network_id p \<longrightarrow> sz > 2 \<and> pool_size p = sz - 1 - 1)"
    unfolding p_def mem_pool_create_def Some option.case Let_def sz_def [symmetric]
    by (simp add: create_generic_def)
  then have "pool_inv p" using word_minus_2 [of sz] by (intro empty_pool_inv) auto
  then show ?thesis by (simp add: p_def)
qed

lemma pool_init_inv: "pool_init p \<Longrightarrow> pool_inv p"
  by (auto simp: pool_init_def mem_pool_create_inv mem_pool_create_range_def create_generic_def Let_def
      split: if_splits intro!: empty_pool_inv)

lemma pool_step_inv: 
  assumes inv: "pool_inv p" and step: "pool_step hash p p'"
  shows "pool_inv p'"
  using step
proof cases
  case (1 i req op peer r)
  then show ?thesis using pool_acquire_inv [OF inv, of hash i req op peer] by auto
next
  case (2 a i b)
  then show ?thesis using pool_release_inv [OF inv, of a i] by auto
qed

interpretation mp: inv_system pool_init "pool_step hash" pool_inv
  by unfold_locales (auto intro: pool_init_inv pool_step_inv)

section \<open>Properties\<close>


text \<open>
  An acquired address can be released: whatever \<open>acquire_address\<close> answers lies in the pool
  (base plus at most the size), and releasing it for the same peer succeeds, provided the
  pool does not reach the end of the 32-bit block of its base.
\<close>

theorem acquire_then_release:
  assumes reach: "reachable pool_init (pool_step hash) p" and base: "pool_base p = Some base" "wf_host base"
    and room: "unat (base32 base) + unat (pool_size p) < 2 ^ 32" and sz: "pool_size p \<noteq> 0"
    and acq: "pool_acquire hash p i req op peer = Inr (Some a, p')"
  shows "wf_host a \<and> get_family a = get_family base
    \<and> unat (base32 base) \<le> unat (base32 a) \<and> unat (base32 a) \<le> unat (base32 base) + unat (pool_size p)
    \<and> (\<exists>p''. pool_release p' a i = Inr (True, p''))"
proof -
  have inv: "pool_inv p" by (rule mp.reachable_invar [OF reach])
  obtain c where g: "acquire_offset hash base p i req op peer = (c, p')" "c \<noteq> 0" "offset2host base p' c = Some a"
    using acq sz base by (auto simp: pool_acquire_def split: prod.splits if_splits)
  note gi = acquire_offset_inv [OF inv g(1)]
  then have c: "c \<in> fst ` set (on_of (leases p') i)" using g(2) by blast
  have cb: "1 \<le> unat c" "unat c \<le> unat (pool_size p') + 1"
    using assigned_bounds [of p' c] on_assigned [of p' c i] gi c by blast+
  obtain h where h: "offset2host base p' c = Some h" "host2offset base p' h = c" "wf_host h"
    "get_family h = get_family base" "base32 h = base32 base + (c - 1)"
    using offset_round_trip [OF base(2) _ cb] room gi by auto
  have a: "h = a" using h(1) g(3) by simp
  have c1: "unat (c - 1) = unat c - 1" using cb(1) by (simp add: unat_sub word_le_nat_alt)
  have "unat (base32 a) = unat (base32 base) + (unat c - 1)"
    using h(5) a room cb gi c1 by (simp add: unat_word_ariths)
  moreover have "\<exists>p''. pool_release p' a i = Inr (True, p'')"
    using pool_release_inv [of p' a i] gi c h(2) a sz base by auto
  ultimately show ?thesis using h a cb gi by auto
qed

text \<open>
  The pool is used up completely: if a peer can get neither a new lease nor a reassigned
  one, then every address of the pool is online.
\<close>

theorem pool_full:
  assumes reach: "reachable pool_init (pool_step hash) p"
    and new: "get_new hash p i peer = (0, p1)" and re: "get_reassigned hash p i peer = (0, p2)"
    and c: "first_offset p \<le> unat c" "unat c < first_offset p + unat (pool_size p)"
  shows "\<exists>j. c \<in> fst ` set (on_of (leases p) j)"
proof -
  have inv: "pool_inv p" by (rule mp.reachable_invar [OF reach])
  have "\<not> unused p < pool_size p" using get_new_inv [OF inv new] by blast
  then have "unused p = pool_size p" using inv by (simp add: pool_inv_def)
  then have "c \<in> assigned p" using c by (simp add: assigned_def)
  moreover have "off_of (leases p) j = []" for j using get_reassigned_inv [OF inv re] by blast
  moreover have "(\<Union>k. holds (on_of (leases p)) (off_of (leases p)) k) = assigned p"
    using inv by (simp add: pool_inv_def lease_inv_def)
  ultimately obtain k where "c \<in> holds (on_of (leases p)) (off_of (leases p)) k" "off_of (leases p) k = []" by blast
  then show ?thesis by (auto simp: holds_def)
qed

text \<open>A pool for the subnet 10.45.0.0/24 and its first lease.\<close>

definition sample_pool :: "nat mem_pool" where
  "sample_pool = mem_pool_create (Some (Host4 [10,45,0,0] 0)) 24"

lemma sample_pool_eq:
  "sample_pool = \<lparr>pool_base = Some (Host4 [10,45,0,0] 0), base_is_network_id = True, pool_size = 254, unused = 0, leases = []\<rparr>"
  by (simp add: sample_pool_def mem_pool_create_def create_generic_def network_id_diff_def be_word_def POOL_LIMIT_def Let_def)

lemma be_bytes_4: "be_bytes 4 w = [ucast (drop_bit 24 w), ucast (drop_bit 16 w), ucast (drop_bit 8 w), ucast w]"
proof -
  have "be_bytes (Suc (Suc (Suc (Suc 0)))) w = [ucast (drop_bit 24 w), ucast (drop_bit 16 w), ucast (drop_bit 8 w), ucast w]"
    by simp
  moreover have "(4 :: nat) = Suc (Suc (Suc (Suc 0)))" by simp
  ultimately show ?thesis by (simp only:)
qed

lemma sample_acquire:
  "pool_acquire (\<lambda>_. 0) sample_pool 7 (Host4 [0,0,0,0] 0) MEM_POOL_NEW None
     = Inr (Some (Host4 [10,45,0,1] 0), sample_pool\<lparr>unused := 1, leases := [(7, \<lparr>online = [(2, 0)], offline = []\<rparr>)]\<rparr>)"
  unfolding sample_pool_eq
  by (simp add: pool_acquire_def acquire_offset_def get_new_def add_online_def entry_create_def hash_addr_def
      offset2host_def addr_index_def host_create_from_chunk_def be_word_def Let_def be_bytes_4)


theorem acquire_then_release_witness:
  "\<exists>p' p''. pool_acquire (\<lambda>_. 0) sample_pool 7 (Host4 [0,0,0,0] 0) MEM_POOL_NEW None = Inr (Some (Host4 [10,45,0,1] 0), p')
     \<and> pool_release p' (Host4 [10,45,0,1] 0) 7 = Inr (True, p'')"
proof -
  have "reachable pool_init (pool_step (\<lambda>_. 0)) sample_pool"
    by (rule reach_init) (auto simp: pool_init_def sample_pool_def)
  from acquire_then_release [OF this _ _ _ _ sample_acquire, of "Host4 [10,45,0,0] 0"]
  show ?thesis using sample_acquire by (auto simp: sample_pool_eq base32_def addr_index_def be_word_def)
qed

text \<open>A pool of one address.\<close>

definition tiny_pool :: "nat mem_pool" where
  "tiny_pool = mem_pool_create (Some (Host4 [10,45,0,9] 0)) 32"

lemma tiny_pool_eq:
  "tiny_pool = \<lparr>pool_base = Some (Host4 [10,45,0,9] 0), base_is_network_id = False, pool_size = 1, unused = 0, leases = []\<rparr>"
  by (simp add: tiny_pool_def mem_pool_create_def create_generic_def network_id_diff_def POOL_LIMIT_def Let_def)

theorem pool_full_witness:
  "\<exists>p p1 p2. get_new (\<lambda>_. 0) p 8 None = (0, p1) \<and> get_reassigned (\<lambda>_. 0) p 8 None = (0, p2)
     \<and> pool_size p = 1 \<and> (\<exists>j :: nat. 1 \<in> fst ` set (on_of (leases p) j))"
proof -
  let ?p = "tiny_pool\<lparr>unused := 1, leases := [(7, \<lparr>online = [(1, 0)], offline = []\<rparr>)]\<rparr>"
  have a: "pool_acquire (\<lambda>_. 0) tiny_pool 7 (Host4 [0,0,0,0] 0) MEM_POOL_NEW None = Inr (Some (Host4 [10,45,0,9] 0), ?p)"
    unfolding tiny_pool_eq
    by (simp add: pool_acquire_def acquire_offset_def get_new_def add_online_def entry_create_def hash_addr_def
      offset2host_def addr_index_def host_create_from_chunk_def be_word_def Let_def be_bytes_4)
  have "reachable pool_init (pool_step (\<lambda>_. 0)) tiny_pool"
    by (rule reach_init) (auto simp: pool_init_def tiny_pool_def)
  then have r: "reachable pool_init (pool_step (\<lambda>_. 0)) ?p"
    by (rule reach_step) (rule pool_step.intros(1) [OF a])
  have n: "get_new (\<lambda>_. 0) ?p 8 None = (0, ?p)" by (simp add: get_new_def tiny_pool_eq)
  have g: "get_reassigned (\<lambda>_. 0) ?p 8 None = (0, ?p)" by (simp add: get_reassigned_def tiny_pool_eq)
  have "\<exists>j. 1 \<in> fst ` set (on_of (leases ?p) j)"
    by (rule pool_full [OF r n g]) (simp_all add: first_offset_def tiny_pool_eq)
  moreover have "pool_size ?p = 1" by (simp add: tiny_pool_eq)
  ultimately show ?thesis using n g by blast
qed

text \<open>
  A range that ends with the last address of its 32-bit block loses its leases: for
  255.255.255.250-255.255.255.255 the bound \<open>basei + size\<close> in \<open>host2offset\<close> wraps to zero, so
  releasing the address that was just handed out fails.
\<close>

theorem range_end_not_released:
  "\<exists>p p'. mem_pool_create_range (Host4 [255,255,255,250] 0) (Host4 [255,255,255,255] 0) = Some p
     \<and> pool_acquire (\<lambda>_. 0) p (7 :: nat) (Host4 [0,0,0,0] 0) MEM_POOL_NEW None = Inr (Some (Host4 [255,255,255,250] 0), p')
     \<and> pool_release p' (Host4 [255,255,255,250] 0) 7 = Inr (False, p')"
  by (simp add: mem_pool_create_range_def create_generic_def pool_acquire_def acquire_offset_def get_new_def
      add_online_def entry_create_def hash_addr_def offset2host_def addr_index_def host_create_from_chunk_def
      pool_release_def host2offset_def be_word_def Let_def be_bytes_4)

text \<open>
  A pool whose base is the broadcast address of its subnet (here 10.0.0.255/24) gets size
  zero and is then taken for the \<open>%config\<close> pool: every peer is given the address it asks
  for, and nothing is recorded.
\<close>

theorem broadcast_base_gives_away:
  "pool_acquire hash (mem_pool_create (Some (Host4 [10,0,0,255] 0)) 24) i requested op peer
     = Inr (Some requested, mem_pool_create (Some (Host4 [10,0,0,255] 0)) 24)"
  by (simp add: pool_acquire_def mem_pool_create_def create_generic_def network_id_diff_def be_word_def POOL_LIMIT_def Let_def)

end
