(* ===== verification/Simaka_Message.thy ===== *)
theory Simaka_Message
  imports Prelude
begin

text \<open>
  Messages of EAP-SIM and EAP-AKA, \<open>libsimaka/simaka_message.c\<close>: parsing, decryption, MAC
  verification and generation.  A message is the byte sequence with the header; parsed
  attributes are pairs of type and data.  Pointers kept into the message (\<open>mac\<close>, \<open>iv\<close>,
  \<open>encr\<close>) carry their position and whether they point into the decrypted plain text, which
  is freed when \<open>decrypt\<close> returns.  Cipher, signature and random numbers are the parameter
  \<open>C\<close>; message hooks only observe and are left out.  Integers in host order are those of a
  little-endian machine.
\<close>

section \<open>Constants\<close>

definition EAP_REQUEST :: byte where "EAP_REQUEST = 1"
definition EAP_RESPONSE :: byte where "EAP_RESPONSE = 2"
definition EAP_SIM :: byte where "EAP_SIM = 18"
definition EAP_AKA :: byte where "EAP_AKA = 23"

definition AT_RAND :: byte where "AT_RAND = 1"
definition AT_AUTN :: byte where "AT_AUTN = 2"
definition AT_RES :: byte where "AT_RES = 3"
definition AT_AUTS :: byte where "AT_AUTS = 4"
definition AT_PADDING :: byte where "AT_PADDING = 6"
definition AT_NONCE_MT :: byte where "AT_NONCE_MT = 7"
definition AT_PERMANENT_ID_REQ :: byte where "AT_PERMANENT_ID_REQ = 10"
definition AT_MAC :: byte where "AT_MAC = 11"
definition AT_NOTIFICATION :: byte where "AT_NOTIFICATION = 12"
definition AT_ANY_ID_REQ :: byte where "AT_ANY_ID_REQ = 13"
definition AT_IDENTITY :: byte where "AT_IDENTITY = 14"
definition AT_VERSION_LIST :: byte where "AT_VERSION_LIST = 15"
definition AT_SELECTED_VERSION :: byte where "AT_SELECTED_VERSION = 16"
definition AT_FULLAUTH_ID_REQ :: byte where "AT_FULLAUTH_ID_REQ = 17"
definition AT_COUNTER :: byte where "AT_COUNTER = 19"
definition AT_COUNTER_TOO_SMALL :: byte where "AT_COUNTER_TOO_SMALL = 20"
definition AT_NONCE_S :: byte where "AT_NONCE_S = 21"
definition AT_CLIENT_ERROR_CODE :: byte where "AT_CLIENT_ERROR_CODE = 22"
definition AT_IV :: byte where "AT_IV = 129"
definition AT_ENCR_DATA :: byte where "AT_ENCR_DATA = 130"
definition AT_NEXT_PSEUDONYM :: byte where "AT_NEXT_PSEUDONYM = 132"
definition AT_NEXT_REAUTH_ID :: byte where "AT_NEXT_REAUTH_ID = 133"

lemmas at_defs = AT_RAND_def AT_AUTN_def AT_RES_def AT_AUTS_def AT_PADDING_def AT_NONCE_MT_def
  AT_PERMANENT_ID_REQ_def AT_MAC_def AT_NOTIFICATION_def AT_ANY_ID_REQ_def AT_IDENTITY_def
  AT_VERSION_LIST_def AT_SELECTED_VERSION_def AT_FULLAUTH_ID_REQ_def AT_COUNTER_def
  AT_COUNTER_TOO_SMALL_def AT_NONCE_S_def AT_CLIENT_ERROR_CODE_def AT_IV_def AT_ENCR_DATA_def
  AT_NEXT_PSEUDONYM_def AT_NEXT_REAUTH_ID_def

definition AKA_CHALLENGE :: byte where "AKA_CHALLENGE = 1"
definition AKA_AUTHENTICATION_REJECT :: byte where "AKA_AUTHENTICATION_REJECT = 2"
definition AKA_SYNCHRONIZATION_FAILURE :: byte where "AKA_SYNCHRONIZATION_FAILURE = 4"
definition AKA_IDENTITY :: byte where "AKA_IDENTITY = 5"
definition SIM_START :: byte where "SIM_START = 10"
definition SIM_CHALLENGE :: byte where "SIM_CHALLENGE = 11"
definition SIM_NOTIFICATION :: byte where "SIM_NOTIFICATION = 12"
definition SIM_REAUTHENTICATION :: byte where "SIM_REAUTHENTICATION = 13"
definition SIM_CLIENT_ERROR :: byte where "SIM_CLIENT_ERROR = 14"

lemmas subtype_defs = AKA_CHALLENGE_def AKA_AUTHENTICATION_REJECT_def AKA_SYNCHRONIZATION_FAILURE_def
  AKA_IDENTITY_def SIM_START_def SIM_CHALLENGE_def SIM_NOTIFICATION_def SIM_REAUTHENTICATION_def SIM_CLIENT_ERROR_def

section \<open>Data\<close>

record crypter =
  cr_block_size :: nat
  cr_iv_size :: nat
  cr_encrypt :: "chunk \<Rightarrow> chunk \<Rightarrow> chunk option"
  cr_decrypt :: "chunk \<Rightarrow> chunk \<Rightarrow> chunk option"

record signer =
  sg_block_size :: nat
  sg_get_signature :: "chunk \<Rightarrow> chunk option"
  sg_verify_signature :: "chunk \<Rightarrow> chunk \<Rightarrow> bool"

record simaka_crypto =
  get_crypter :: "crypter option"
  get_signer :: "signer option"
  get_rng :: "nat \<Rightarrow> chunk option"

type_synonym attr = "byte \<times> chunk"

record located =
  in_plain :: bool
  at_pos :: nat
  contents :: chunk

record simaka_message =
  hdr :: chunk
  attributes :: "attr list"
  encrypted :: bool
  p_bit :: bool
  mac :: "located option"
  iv :: "located option"
  encr :: "located option"

definition hdr_length :: "simaka_message \<Rightarrow> nat" where
  "hdr_length this = unat (be_word (take 2 (drop 2 (hdr this))) :: 16 word)"

definition is_request :: "simaka_message \<Rightarrow> bool" where
  "is_request this = (hdr this ! 0 = EAP_REQUEST)"

definition get_identifier :: "simaka_message \<Rightarrow> byte" where
  "get_identifier this = hdr this ! 1"

definition get_type :: "simaka_message \<Rightarrow> byte" where
  "get_type this = hdr this ! 4"

definition get_subtype :: "simaka_message \<Rightarrow> byte" where
  "get_subtype this = hdr this ! 5"

definition simaka_attribute_skippable :: "byte \<Rightarrow> bool" where
  "simaka_attribute_skippable a = (\<not> a \<le> 127)"

definition add_attribute :: "byte \<Rightarrow> chunk \<Rightarrow> simaka_message \<Rightarrow> simaka_message" where
  "add_attribute ty d this = this\<lparr>attributes := attributes this @ [(ty, d)]\<rparr>"

section \<open>Parsing\<close>

text \<open>
  The first switch: where the data of the attribute at the front of \<open>inp\<close> starts, its length
  (a \<open>size_t\<close>) and how far the input is skipped; \<open>None\<close> where the code returns FALSE.
\<close>

definition needs_encryption :: "byte \<Rightarrow> bool" where
  "needs_encryption ty \<longleftrightarrow> ty \<in> {AT_COUNTER_TOO_SMALL, AT_COUNTER, AT_NEXT_PSEUDONYM, AT_NEXT_REAUTH_ID, AT_NONCE_S}"

definition parse_attr :: "bool \<Rightarrow> chunk \<Rightarrow> (nat \<times> 64 word \<times> nat) option" where
  "parse_attr enc inp =
     (let ty = inp ! 0; hlen = unat (inp ! 1) in
      if needs_encryption ty \<and> \<not> enc then None
      else if ty \<in> {AT_COUNTER_TOO_SMALL, AT_ANY_ID_REQ, AT_PERMANENT_ID_REQ, AT_FULLAUTH_ID_REQ} then
        (if hlen \<noteq> 1 \<or> length inp < 4 then None else Some (0, 0, 4))
      else if ty \<in> {AT_COUNTER, AT_CLIENT_ERROR_CODE, AT_SELECTED_VERSION, AT_NOTIFICATION} then
        (if hlen \<noteq> 1 \<or> length inp < 4 then None else Some (2, 2, 4))
      else if ty \<in> {AT_NEXT_PSEUDONYM, AT_NEXT_REAUTH_ID, AT_RES, AT_IDENTITY, AT_VERSION_LIST} then
        (if hlen < 1 \<or> length inp < 4 then None
         else
           let len = unat (be_word (take 2 (drop 2 inp)) :: 16 word);
               len' = (if ty = AT_RES then len div 8 else len) in
           if len' > hlen * 4 \<or> len' > length inp then None else Some (4, of_nat len', hlen * 4))
      else if ty \<in> {AT_NONCE_S, AT_AUTN, AT_NONCE_MT, AT_IV, AT_MAC} then
        (if hlen \<noteq> 5 \<or> length inp < 20 then None else Some (4, 16, 20))
      else if ty \<in> {AT_ENCR_DATA, AT_RAND} then
        (if hlen * 4 > length inp \<or> length inp < 4 then None else Some (4, of_nat (hlen * 4) - 4, hlen * 4))
      else if ty = AT_AUTS then
        (if hlen \<noteq> 4 \<or> length inp < 16 then None else Some (2, 14, 16))
      else
        (if hlen * 4 > length inp \<or> length inp < 4 then None else Some (2, of_nat (hlen * 4) - 2, hlen * 4)))"

text \<open>
  The second switch.  Only copying the data into a new attribute reads it; \<open>Inr None\<close> is the
  return of FALSE.
\<close>

definition handle_attr :: "nat \<Rightarrow> chunk \<Rightarrow> nat \<Rightarrow> 64 word \<Rightarrow> simaka_message \<Rightarrow> simaka_message option res" where
  "handle_attr pos inp off len this =
     (let ty = inp ! 0; d = take (unat len) (drop off inp);
          loc = \<lparr>in_plain = encrypted this, at_pos = pos + off, contents = d\<rparr>;
          add = (\<lambda>t. if off + unat len > length inp then Inl OutOfBounds else Inr (Some (add_attribute ty d t))) in
      if ty = AT_MAC then Inr (Some (this\<lparr>mac := Some loc\<rparr>))
      else if ty = AT_IV then Inr (Some (this\<lparr>iv := Some loc\<rparr>))
      else if ty = AT_ENCR_DATA then Inr (Some (this\<lparr>encr := Some loc\<rparr>))
      else if ty = AT_PADDING then Inr (Some this)
      else if ty = AT_NOTIFICATION then
        (if p_bit this then add (this\<lparr>p_bit := (hd d AND 0x40 \<noteq> 0)\<rparr>)
         else if \<not> encrypted this then Inr None
         else add this)
      else add this)"

partial_function (option) parse_loop :: "nat \<Rightarrow> chunk \<Rightarrow> simaka_message \<Rightarrow> (bool \<times> simaka_message) res option" where
  "parse_loop pos inp this =
     (if inp = [] then Some (Inr (True, this))
      else if length inp < 2 then Some (Inr (False, this))
      else
        (case parse_attr (encrypted this) inp of
           None \<Rightarrow> Some (Inr (False, this))
         | Some (off, len, skp) \<Rightarrow>
             (case handle_attr pos inp off len this of
                Inl e \<Rightarrow> Some (Inl e)
              | Inr None \<Rightarrow> Some (Inr (False, this))
              | Inr (Some this1) \<Rightarrow> parse_loop (pos + skp) (drop skp inp) this1)))"

definition parse_attributes :: "nat \<Rightarrow> chunk \<Rightarrow> simaka_message \<Rightarrow> (bool \<times> simaka_message) res" where
  "parse_attributes pos inp this = (case parse_loop pos inp this of None \<Rightarrow> Inl Diverges | Some r \<Rightarrow> r)"

definition decrypt :: "simaka_crypto \<Rightarrow> simaka_message \<Rightarrow> (bool \<times> simaka_message) res" where
  "decrypt C this =
     (case (get_crypter C, iv this, encr this) of
        (Some c, Some i, Some e) \<Rightarrow>
          if contents i = [] \<or> contents e = [] \<or> encrypted this then Inr (True, this)
          else if length (contents e) mod cr_block_size c \<noteq> 0 then Inr (False, this)
          else if in_plain i \<or> in_plain e then Inl UseAfterFree
          else
            (case cr_decrypt c (contents e) (contents i) of
               None \<Rightarrow> Inr (False, this)
             | Some plain \<Rightarrow>
                 andThen (parse_attributes 0 plain (this\<lparr>encrypted := True\<rparr>)) (\<lambda>(success, t).
                   Inr (success, t\<lparr>encrypted := False\<rparr>)))
      | _ \<Rightarrow> Inr (True, this))"

definition parse :: "simaka_crypto \<Rightarrow> simaka_message \<Rightarrow> (bool \<times> simaka_message) res" where
  "parse C this =
     (if attributes this \<noteq> [] then decrypt C this
      else
        andThen (parse_attributes 8 (drop 8 (take (hdr_length this) (hdr this))) this) (\<lambda>(ok, t).
          if \<not> ok then Inr (False, t) else decrypt C t))"

definition check_mac :: "simaka_crypto \<Rightarrow> chunk \<Rightarrow> simaka_message \<Rightarrow> (bool \<times> simaka_message) res" where
  "check_mac C sigdata this =
     (case (mac this, get_signer C) of
        (Some m, Some s) \<Rightarrow>
          if in_plain m then Inl UseAfterFree
          else
            let n = length (contents m);
                msg = take (at_pos m) (hdr this) @ replicate n 0 @ drop (at_pos m + n) (hdr this);
                data = take (hdr_length this) msg @ sigdata in
            Inr (sg_verify_signature s data (contents m), this\<lparr>hdr := msg\<rparr>)
      | _ \<Rightarrow> Inr (False, this))"

definition verify :: "simaka_crypto \<Rightarrow> chunk \<Rightarrow> simaka_message \<Rightarrow> (bool \<times> simaka_message) res" where
  "verify C sigdata this =
     (let st = get_subtype this in
      if st \<in> {SIM_START, SIM_CLIENT_ERROR, AKA_AUTHENTICATION_REJECT, AKA_SYNCHRONIZATION_FAILURE, AKA_IDENTITY}
      then Inr (True, this)
      else if st \<in> {SIM_CHALLENGE, AKA_CHALLENGE, SIM_REAUTHENTICATION} then check_mac C sigdata this
      else if st = SIM_NOTIFICATION then (if p_bit this then Inr (True, this) else check_mac C sigdata this)
      else Inr (False, this))"

section \<open>Generation\<close>

text \<open>
  A chunk into one of the buffers on the stack: the memory of the buffer, whatever it holds,
  and the position of the chunk's start.  \<open>chunk_skip\<close> gives the NULL chunk once nothing is
  left, so a write to a full buffer dereferences NULL; a write that starts inside and does not
  fit runs over the end.
\<close>

record wbuf =
  mem :: chunk
  pos :: nat

definition put_at :: "nat \<Rightarrow> chunk \<Rightarrow> chunk \<Rightarrow> chunk" where
  "put_at p bs m = take p m @ bs @ drop (p + length bs) m"

definition emit :: "chunk \<Rightarrow> nat \<Rightarrow> wbuf \<Rightarrow> wbuf res" where
  "emit bs skp w =
     (if pos w \<ge> length (mem w) then Inl NullDeref
      else if pos w + length bs > length (mem w) then Inl OutOfBounds
      else Inr \<lparr>mem = put_at (pos w) bs (mem w), pos = min (pos w + skp) (length (mem w))\<rparr>)"

definition swap16 :: "16 word \<Rightarrow> 16 word" where
  "swap16 w = push_bit 8 w OR drop_bit 8 w"

definition le_bytes :: "16 word \<Rightarrow> chunk" where
  "le_bytes w = [ucast w, ucast (drop_bit 8 w)]"

text \<open>
  The actual length of an attribute: \<open>htons\<close>, and for AT_RES a multiplication by eight of the
  value that is already in network order.
\<close>

definition actual_length :: "byte \<Rightarrow> nat \<Rightarrow> chunk" where
  "actual_length ty n = le_bytes (if ty = AT_RES then swap16 (of_nat n) * 8 else swap16 (of_nat n))"

text \<open>The bytes an attribute is encoded to and how far the target is advanced.\<close>

definition encode_attr :: "byte \<Rightarrow> chunk \<Rightarrow> (chunk \<times> nat) res" where
  "encode_attr ty d =
     (if ty \<in> {AT_COUNTER_TOO_SMALL, AT_ANY_ID_REQ, AT_PERMANENT_ID_REQ, AT_FULLAUTH_ID_REQ} then
        Inr ([ty, 1, 0, 0], 4)
      else if ty \<in> {AT_COUNTER, AT_CLIENT_ERROR_CODE, AT_SELECTED_VERSION, AT_NOTIFICATION} then
        (if length d < 2 then Inl OutOfBounds else Inr ([ty, 1] @ take 2 d, 4))
      else if ty \<in> {AT_NEXT_PSEUDONYM, AT_NEXT_REAUTH_ID, AT_IDENTITY, AT_VERSION_LIST, AT_RES} then
        (let padding = (4 - length d mod 4) mod 4;
             l = of_nat (length d div 4 + 1) + (if padding \<noteq> 0 then 1 else 0) :: byte in
         Inr ([ty, l] @ actual_length ty (length d) @ d @ replicate padding 0, unat l * 4))
      else if ty \<in> {AT_NONCE_S, AT_NONCE_MT, AT_AUTN} then Inr ([ty, 5, 0, 0] @ d, 20)
      else if ty = AT_RAND then Inr ([ty, of_nat (1 + length d div 4), 0, 0] @ d, length d + 4)
      else if ty = AT_AUTS then Inr ([ty, 4] @ d, 16)
      else Inr ([ty], 0))"

definition to_encr :: "byte \<Rightarrow> chunk \<Rightarrow> bool res" where
  "to_encr ty d =
     (if ty \<in> {AT_NONCE_S, AT_NEXT_PSEUDONYM, AT_NEXT_REAUTH_ID, AT_COUNTER, AT_COUNTER_TOO_SMALL} then Inr True
      else if ty = AT_NOTIFICATION then
        (if d = [] then Inl OutOfBounds else Inr (hd d AND 0x40 = 0))
      else Inr False)"

fun encode_attrs :: "attr list \<Rightarrow> wbuf \<Rightarrow> wbuf \<Rightarrow> (wbuf \<times> wbuf) res" where
  "encode_attrs [] out enc = Inr (out, enc)"
| "encode_attrs ((ty, d) # as) out enc =
     andThen (to_encr ty d) (\<lambda>e.
     andThen (encode_attr ty d) (\<lambda>(bs, skp).
       if e then andThen (emit bs skp enc) (\<lambda>enc1. encode_attrs as out enc1)
       else andThen (emit bs skp out) (\<lambda>out1. encode_attrs as out1 enc)))"

text \<open>Padding, IV and encrypted data; \<open>Inr None\<close> if a random number or the encryption fails.\<close>

definition encrypt_attrs :: "simaka_crypto \<Rightarrow> wbuf \<Rightarrow> wbuf \<Rightarrow> wbuf option res" where
  "encrypt_attrs C out enc =
     (case get_crypter C of
        None \<Rightarrow> Inl NullDeref
      | Some c \<Rightarrow>
          let padding = cr_block_size c - pos enc mod cr_block_size c in
          andThen (if padding = 0 then Inr enc
                   else if padding < 2 then Inl OutOfBounds
                   else emit ([AT_PADDING, of_nat (padding div 4)] @ replicate (padding - 2) 0) padding enc) (\<lambda>enc1.
          andThen (emit [AT_IV, of_nat (cr_iv_size c div 4 + 1), 0, 0] 4 out) (\<lambda>out1.
          (case get_rng C (cr_iv_size c) of
             None \<Rightarrow> Inr None
           | Some ivb \<Rightarrow>
               andThen (emit ivb (cr_iv_size c) out1) (\<lambda>out2.
               (case cr_encrypt c (take (pos enc1) (mem enc1)) ivb of
                  None \<Rightarrow> Inr None
                | Some e \<Rightarrow>
                    andThen (emit ([AT_ENCR_DATA, of_nat (length e div 4 + 1), 0, 0] @ e) (length e + 4) out2) (\<lambda>out3.
                    Inr (Some out3))))))))"

definition wants_mac :: "byte \<Rightarrow> bool" where
  "wants_mac st \<longleftrightarrow> st \<in> {SIM_CHALLENGE, AKA_CHALLENGE, SIM_REAUTHENTICATION}"

text \<open>Room for the MAC: the buffer and the position of the MAC.\<close>

definition reserve_mac :: "simaka_crypto \<Rightarrow> byte \<Rightarrow> wbuf \<Rightarrow> (wbuf \<times> nat option) res" where
  "reserve_mac C st out =
     (if wants_mac st then
        (case get_signer C of
           None \<Rightarrow> Inl NullDeref
         | Some s \<Rightarrow>
             let bs = sg_block_size s in
             andThen (emit ([AT_MAC, of_nat (bs div 4 + 1)] @ replicate (2 + bs) 0) (bs + 4) out) (\<lambda>out1.
             Inr (out1, Some (pos out + 4))))
      else Inr (out, None))"

text \<open>The length goes into the header, then the MAC over the message and \<open>sigdata\<close> into its place.\<close>

definition finish :: "simaka_crypto \<Rightarrow> chunk \<Rightarrow> byte \<Rightarrow> wbuf \<Rightarrow> chunk option res" where
  "finish C sigdata st out =
     andThen (reserve_mac C st out) (\<lambda>(out1, mp).
       let gen = put_at 2 (be_bytes 2 (of_nat (pos out1) :: 16 word)) (take (pos out1) (mem out1)) in
       (case (mp, get_signer C) of
          (Some p, Some s) \<Rightarrow>
            if sg_block_size s = 0 then Inr (Some gen)
            else
              (case sg_get_signature s (gen @ sigdata) of
                 None \<Rightarrow> Inr None
               | Some sig \<Rightarrow> Inr (Some (put_at p sig gen)))
        | _ \<Rightarrow> Inr (Some gen)))"

definition generate :: "simaka_crypto \<Rightarrow> chunk \<Rightarrow> chunk \<Rightarrow> chunk \<Rightarrow> simaka_message \<Rightarrow> chunk option res" where
  "generate C out_buf encr_buf sigdata this =
     andThen (emit (take 8 (hdr this)) 8 \<lparr>mem = out_buf, pos = 0\<rparr>) (\<lambda>out0.
     andThen (encode_attrs (attributes this) out0 \<lparr>mem = encr_buf, pos = 0\<rparr>) (\<lambda>(out1, enc).
     andThen (if pos enc > 0 then encrypt_attrs C out1 enc else Inr (Some out1)) (\<lambda>r.
     case r of None \<Rightarrow> Inr None
     | Some out2 \<Rightarrow> finish C sigdata (get_subtype this) out2)))"

section \<open>Construction\<close>

definition simaka_message_create_from_payload :: "chunk \<Rightarrow> simaka_message option" where
  "simaka_message_create_from_payload data =
     (if length data < 8 \<or> (be_word (take 2 (drop 2 data)) :: 16 word) \<noteq> of_nat (length data) then None
      else if data ! 0 \<noteq> EAP_REQUEST \<and> data ! 0 \<noteq> EAP_RESPONSE then None
      else if data ! 4 \<noteq> EAP_SIM \<and> data ! 4 \<noteq> EAP_AKA then None
      else Some \<lparr>hdr = data, attributes = [], encrypted = False, p_bit = True, mac = None, iv = None, encr = None\<rparr>)"

definition simaka_message_create :: "bool \<Rightarrow> byte \<Rightarrow> byte \<Rightarrow> byte \<Rightarrow> simaka_message option" where
  "simaka_message_create request ident ty subtype =
     simaka_message_create_from_payload
       ([if request then EAP_REQUEST else EAP_RESPONSE, ident] @ be_bytes 2 (8 :: 16 word) @ [ty, subtype, 0, 0])"

section \<open>Encoded attributes\<close>

text \<open>Attributes the generator has a rule for, with data of the size the type prescribes.\<close>

definition attr_ok :: "attr \<Rightarrow> bool" where
  "attr_ok a \<longleftrightarrow> (let (ty, d) = a in
     if ty \<in> {AT_COUNTER_TOO_SMALL, AT_ANY_ID_REQ, AT_PERMANENT_ID_REQ, AT_FULLAUTH_ID_REQ} then d = []
     else if ty \<in> {AT_COUNTER, AT_CLIENT_ERROR_CODE, AT_SELECTED_VERSION, AT_NOTIFICATION} then length d = 2
     else if ty \<in> {AT_NEXT_PSEUDONYM, AT_NEXT_REAUTH_ID, AT_IDENTITY, AT_VERSION_LIST} then length d \<le> 1000
     else if ty = AT_RES then length d \<le> 31
     else if ty \<in> {AT_NONCE_S, AT_NONCE_MT, AT_AUTN} then length d = 16
     else if ty = AT_RAND then length d \<le> 1000 \<and> 4 dvd length d
     else ty = AT_AUTS \<and> length d = 14)"

definition enc_attr :: "attr \<Rightarrow> chunk" where
  "enc_attr a = (case encode_attr (fst a) (snd a) of Inr (bs, n) \<Rightarrow> bs | Inl e \<Rightarrow> [])"

definition is_encr :: "attr \<Rightarrow> bool" where
  "is_encr a \<longleftrightarrow> to_encr (fst a) (snd a) = Inr True"

lemma swap16_bytes: "le_bytes (swap16 w) = be_bytes 2 w"
  by (simp add: le_bytes_def swap16_def numeral_2_eq_2) (auto intro!: bit_word_eqI simp: bit_simps)

lemma actual_length_bytes: "ty \<noteq> AT_RES \<Longrightarrow> actual_length ty n = be_bytes 2 (of_nat n :: 16 word)"
  by (simp add: actual_length_def swap16_bytes)

lemma actual_length_res_all: "list_all (\<lambda>n. actual_length AT_RES n = be_bytes 2 (of_nat (8 * n) :: 16 word)) [0..<32]"
  by code_simp

lemma actual_length_res: "n \<le> 31 \<Longrightarrow> actual_length AT_RES n = be_bytes 2 (of_nat (8 * n) :: 16 word)"
  using actual_length_res_all by (simp add: list_all_iff)

lemma length_actual [simp]: "length (actual_length ty n) = 2"
  by (simp add: actual_length_def le_bytes_def)

lemma unat_small_16: "n < 65536 \<Longrightarrow> unat (of_nat n :: 16 word) = n"
  by (simp add: unat_of_nat take_bit_nat_eq_self)

lemma unat_small_8: "n < 256 \<Longrightarrow> unat (of_nat n :: byte) = n"
  by (simp add: unat_of_nat take_bit_nat_eq_self)

lemma pad4: "(4 - n mod 4) mod 4 + n = 4 * (n div 4 + (if (4 - n mod 4) mod 4 \<noteq> 0 then 1 else 0))" for n :: nat
proof -
  consider "n mod 4 = 0" | "n mod 4 = 1" | "n mod 4 = 2" | "n mod 4 = 3" by linarith
  then show ?thesis using div_mult_mod_eq [of n 4] by cases simp_all
qed

text \<open>
  How the generator encodes the attributes whose size is variable: the bytes make up whole
  words, and the second one counts them.
\<close>

lemma enc_actual_length:
  assumes "length d \<le> 1000" and "ty \<in> {AT_NEXT_PSEUDONYM, AT_NEXT_REAUTH_ID, AT_IDENTITY, AT_VERSION_LIST, AT_RES}"
  obtains l padding where "encode_attr ty d = Inr ([ty, of_nat l] @ actual_length ty (length d) @ d @ replicate padding 0, l * 4)"
    and "l * 4 = 4 + length d + padding" and "1 \<le> l" "l < 256"
proof -
  define p where "p = (4 - length d mod 4) mod 4"
  define l where "l = length d div 4 + 1 + (if p \<noteq> 0 then 1 else 0)"
  have p4: "p + length d = 4 * (length d div 4 + (if p \<noteq> 0 then 1 else 0))" unfolding p_def by (rule pad4)
  have l4: "l * 4 = 4 + length d + p" unfolding l_def using p4 by simp
  have "p < 4" by (simp add: p_def)
  then have l: "l < 256" "1 \<le> l" using assms(1) l4 by linarith+
  have w: "of_nat (length d div 4 + 1) + (if p \<noteq> 0 then 1 else 0) = (of_nat l :: byte)" by (simp add: l_def)
  have "encode_attr ty d = Inr ([ty, of_nat l] @ actual_length ty (length d) @ d @ replicate p 0, unat (of_nat l :: byte) * 4)"
    unfolding encode_attr_def Let_def p_def [symmetric] w using assms(2) by (auto simp: at_defs)
  then have "encode_attr ty d = Inr ([ty, of_nat l] @ actual_length ty (length d) @ d @ replicate p 0, l * 4)"
    by (simp only: unat_small_8 [OF l(1)])
  from that [OF this l4 l(2) l(1)] show ?thesis .
qed

lemma attr_ok_cases:
  assumes "attr_ok (ty, d)"
  obtains (empty) "ty \<in> {AT_COUNTER_TOO_SMALL, AT_ANY_ID_REQ, AT_PERMANENT_ID_REQ, AT_FULLAUTH_ID_REQ}" "d = []"
  | (two) x y where "ty \<in> {AT_COUNTER, AT_CLIENT_ERROR_CODE, AT_SELECTED_VERSION, AT_NOTIFICATION}" "d = [x, y]"
  | (actual) "ty \<in> {AT_NEXT_PSEUDONYM, AT_NEXT_REAUTH_ID, AT_IDENTITY, AT_VERSION_LIST, AT_RES}" "length d \<le> 1000"
      "ty = AT_RES \<longrightarrow> length d \<le> 31"
  | (sixteen) "ty \<in> {AT_NONCE_S, AT_NONCE_MT, AT_AUTN}" "length d = 16"
  | (rand) k where "ty = AT_RAND" "length d = 4 * k" "k \<le> 250"
  | (auts) "ty = AT_AUTS" "length d = 14"
proof -
  have two': thesis if "length d = 2" "ty \<in> {AT_COUNTER, AT_CLIENT_ERROR_CODE, AT_SELECTED_VERSION, AT_NOTIFICATION}"
  proof -
    from that(1) obtain x y where "d = [x, y]" by (cases d rule: list.exhaust; cases "tl d"; auto)
    with two that(2) show thesis by blast
  qed
  have rand': thesis if "ty = AT_RAND" "length d \<le> 1000" "4 dvd length d"
    using rand that by (auto elim!: dvdE)
  have actual': thesis if "ty \<in> {AT_NEXT_PSEUDONYM, AT_NEXT_REAUTH_ID, AT_IDENTITY, AT_VERSION_LIST}" "length d \<le> 1000"
    by (rule actual) (use that in \<open>auto simp: at_defs\<close>)
  have res': thesis if "ty = AT_RES" "length d \<le> 31"
    by (rule actual) (use that in auto)
  from assms show thesis unfolding attr_ok_def Let_def prod.case
    by (auto simp only: split: if_split_asm intro: empty two' actual' res' sixteen rand' auts)
qed

lemma encode_attr_ok:
  assumes "attr_ok (ty, d)"
  shows "encode_attr ty d = Inr (enc_attr (ty, d), length (enc_attr (ty, d)))"
    and "4 \<le> length (enc_attr (ty, d))" and "4 dvd length (enc_attr (ty, d))"
proof -
  obtain bs where "encode_attr ty d = Inr (bs, length bs)" "4 \<le> length bs" "4 dvd length bs"
    using assms
  proof (cases rule: attr_ok_cases)
    case actual
    from enc_actual_length [OF actual(2,1)] obtain l p
      where "encode_attr ty d = Inr ([ty, of_nat l] @ actual_length ty (length d) @ d @ replicate p 0, l * 4)"
        and l: "l * 4 = 4 + length d + p" "1 \<le> l" by blast
    moreover have "length ([ty, of_nat l :: byte] @ actual_length ty (length d) @ d @ replicate p 0) = l * 4" using l by simp
    ultimately show ?thesis using l
      by (intro that [of "[ty, of_nat l] @ actual_length ty (length d) @ d @ replicate p 0"]) (simp_all only: dvd_triv_right,
        metis dvd_triv_right)
  next
    case (rand k)
    then have "length ([AT_RAND, of_nat (1 + k), 0, 0] @ d) = 4 * (k + 1)" by simp
    moreover have "encode_attr ty d = Inr ([AT_RAND, of_nat (1 + k), 0, 0] @ d, length ([AT_RAND, of_nat (1 + k), 0, 0] @ d))"
      using rand by (simp add: encode_attr_def at_defs)
    ultimately show ?thesis by (intro that [of "[AT_RAND, of_nat (1 + k), 0, 0] @ d"]) (simp_all only:, simp_all)
  qed (auto intro: that simp: encode_attr_def at_defs)
  then show "encode_attr ty d = Inr (enc_attr (ty, d), length (enc_attr (ty, d)))"
    "4 \<le> length (enc_attr (ty, d))" "4 dvd length (enc_attr (ty, d))" by (simp_all add: enc_attr_def)
qed

lemma parse_enc_attr:
  assumes "attr_ok (ty, d)" and "needs_encryption ty \<longrightarrow> e"
  obtains off where "parse_attr e (enc_attr (ty, d) @ rest) = Some (off, of_nat (length d), length (enc_attr (ty, d)))"
    and "off + length d \<le> length (enc_attr (ty, d))" and "take (length d) (drop off (enc_attr (ty, d) @ rest)) = d"
    and "(enc_attr (ty, d) @ rest) ! 0 = ty"
  using assms(1)
proof (cases rule: attr_ok_cases)
  case empty
  then show thesis using assms(2)
    by (intro that [of 0]; elim insertE emptyE; simp add: enc_attr_def encode_attr_def parse_attr_def at_defs needs_encryption_def)
next
  case two
  then show thesis using assms(2)
    by (intro that [of 2]; elim insertE emptyE; simp add: enc_attr_def encode_attr_def parse_attr_def at_defs needs_encryption_def)
next
  case sixteen
  then show thesis using assms(2)
    by (intro that [of 4]; elim insertE emptyE; simp add: enc_attr_def encode_attr_def parse_attr_def at_defs needs_encryption_def)
next
  case auts
  then show thesis by (intro that [of 2]) (auto simp: enc_attr_def encode_attr_def parse_attr_def at_defs needs_encryption_def)
next
  case (rand k)
  have k: "unat (of_nat (1 + k) :: byte) = 1 + k" using rand(3) by (intro unat_small_8) simp
  have e: "enc_attr (ty, d) = [AT_RAND, of_nat (1 + k), 0, 0] @ d"
    using rand by (simp add: enc_attr_def encode_attr_def at_defs)
  have "parse_attr e (enc_attr (ty, d) @ rest) = Some (4, of_nat ((1 + k) * 4) - 4, (1 + k) * 4)"
    unfolding e parse_attr_def using rand k by (simp add: at_defs needs_encryption_def)
  moreover have "of_nat ((1 + k) * 4) - 4 = (of_nat (length d) :: 64 word)" "(1 + k) * 4 = length (enc_attr (ty, d))"
    using rand(2) by (simp_all add: e)
  moreover have "4 + length d \<le> length (enc_attr (ty, d))" "take (length d) (drop 4 (enc_attr (ty, d) @ rest)) = d"
    "(enc_attr (ty, d) @ rest) ! 0 = ty" unfolding e using rand(1) by simp_all
  ultimately show thesis by (intro that [of 4]) simp_all
next
  case actual
  from enc_actual_length [OF actual(2,1)] obtain l p
    where "encode_attr ty d = Inr ([ty, of_nat l] @ actual_length ty (length d) @ d @ replicate p 0, l * 4)"
      and l: "l * 4 = 4 + length d + p" "1 \<le> l" "l < 256" by blast
  then have e: "enc_attr (ty, d) = [ty, of_nat l] @ actual_length ty (length d) @ d @ replicate p 0"
    by (simp add: enc_attr_def)
  let ?inp = "enc_attr (ty, d) @ rest"
  have i: "?inp ! 0 = ty" "?inp ! 1 = of_nat l" "take 2 (drop 2 ?inp) = actual_length ty (length d)"
    "length ?inp = l * 4 + length rest" "drop 4 ?inp = d @ replicate p 0 @ rest"
    using l by (simp_all add: e)
  have al: "(if ty = AT_RES then unat (be_word (actual_length ty (length d)) :: 16 word) div 8
      else unat (be_word (actual_length ty (length d)) :: 16 word)) = length d"
  proof (cases "ty = AT_RES")
    case True
    then have "length d \<le> 31" using actual(3) by blast
    then show ?thesis using True unat_small_16 [of "8 * length d"]
      by (simp add: actual_length_res be_word_be_bytes_full del: of_nat_mult)
  next
    case False
    then show ?thesis using actual(2) by (simp add: actual_length_bytes be_word_be_bytes_full unat_small_16)
  qed
  have "parse_attr e ?inp = Some (4, of_nat (length d), l * 4)"
    unfolding parse_attr_def i Let_def unat_small_8 [OF l(3)] al using actual(1) assms(2) l
    by (elim insertE emptyE; simp add: needs_encryption_def at_defs)
  then show thesis using i l by (intro that [of 4]) (simp_all add: e)
qed

section \<open>Parsing encoded attributes\<close>

definition p_after :: "bool \<Rightarrow> attr list \<Rightarrow> bool" where
  "p_after p as = foldl (\<lambda>p (ty, d). if ty = AT_NOTIFICATION \<and> p then hd d AND 0x40 \<noteq> 0 else p) p as"

lemma handle_enc_attr:
  assumes "attr_ok (ty, d)" and "inp ! 0 = ty" and "off + length d \<le> length inp" and "take (length d) (drop off inp) = d"
    and "encrypted this \<or> p_bit this"
  shows "handle_attr q inp off (of_nat (length d)) this =
    Inr (Some (this\<lparr>attributes := attributes this @ [(ty, d)], p_bit := p_after (p_bit this) [(ty, d)]\<rparr>))"
proof -
  have l: "unat (of_nat (length d) :: 64 word) = length d"
  proof -
    have "length d \<le> 1000" using assms(1) by (cases rule: attr_ok_cases) simp_all
    then show ?thesis by (simp only: unat_of_nat) (simp add: take_bit_nat_eq_self)
  qed
  have "ty \<notin> {AT_MAC, AT_IV, AT_ENCR_DATA, AT_PADDING}"
    using assms(1) by (cases rule: attr_ok_cases) (auto simp: at_defs)
  then show ?thesis
    using assms(3,5) unfolding handle_attr_def Let_def l assms(2,4)
    by (auto simp: add_attribute_def p_after_def)
qed

lemma parse_loop_attr:
  assumes "attr_ok a" and "needs_encryption (fst a) \<longrightarrow> encrypted this" and "encrypted this \<or> p_bit this"
  shows "parse_loop q (enc_attr a @ rest) this = parse_loop (q + length (enc_attr a)) rest
    (this\<lparr>attributes := attributes this @ [a], p_bit := p_after (p_bit this) [a]\<rparr>)"
proof -
  obtain ty d where a: "a = (ty, d)" by fastforce
  let ?inp = "enc_attr (ty, d) @ rest"
  from parse_enc_attr [of ty d "encrypted this" rest] assms(1,2) obtain off where
    pa: "parse_attr (encrypted this) ?inp = Some (off, of_nat (length d), length (enc_attr (ty, d)))"
    and o: "off + length d \<le> length (enc_attr (ty, d))" "take (length d) (drop off ?inp) = d" "?inp ! 0 = ty"
    by (auto simp: a)
  have "handle_attr q ?inp off (of_nat (length d)) this =
    Inr (Some (this\<lparr>attributes := attributes this @ [(ty, d)], p_bit := p_after (p_bit this) [(ty, d)]\<rparr>))"
    using assms a o by (intro handle_enc_attr) auto
  moreover have "4 \<le> length ?inp" using encode_attr_ok(2) assms(1) a by (metis le_add1 le_trans length_append)
  ultimately show ?thesis using pa by (subst parse_loop.simps) (auto simp: a)
qed

lemma parse_loop_attrs:
  assumes "list_all attr_ok as" and "list_all (\<lambda>a. needs_encryption (fst a) \<longrightarrow> encrypted this) as"
    and "encrypted this \<or> (p_bit this \<and> list_all (\<lambda>a. \<not> is_encr a) as)"
  shows "parse_loop q (concat (map enc_attr as) @ rest) this =
    parse_loop (q + length (concat (map enc_attr as))) rest
      (this\<lparr>attributes := attributes this @ as, p_bit := p_after (p_bit this) as\<rparr>)"
  using assms
proof (induction as arbitrary: q this)
  case Nil
  then show ?case by (simp add: p_after_def)
next
  case (Cons a as)
  let ?t = "this\<lparr>attributes := attributes this @ [a], p_bit := p_after (p_bit this) [a]\<rparr>"
  have step: "parse_loop q (enc_attr a @ concat (map enc_attr as) @ rest) this =
      parse_loop (q + length (enc_attr a)) (concat (map enc_attr as) @ rest) ?t"
    using Cons.prems by (intro parse_loop_attr) auto
  have "\<not> is_encr a \<Longrightarrow> attr_ok a \<Longrightarrow> p_after True [a]"
    by (cases a) (auto simp: is_encr_def to_encr_def p_after_def attr_ok_def at_defs split: if_splits)
  then have p: "encrypted ?t \<or> (p_bit ?t \<and> list_all (\<lambda>a. \<not> is_encr a) as)" using Cons.prems by auto
  have "p_after (p_after (p_bit this) [a]) as = p_after (p_bit this) (a # as)" by (simp add: p_after_def)
  then show ?case using Cons.IH [of ?t "q + length (enc_attr a)"] Cons.prems p by (simp add: step add.assoc)
qed

section \<open>Writing\<close>

definition filled :: "wbuf \<Rightarrow> chunk" where
  "filled w = take (pos w) (mem w)"

text \<open>A write that fits appends.\<close>

lemma emit_fits:
  assumes "pos w < length (mem w)" and "pos w + n \<le> length (mem w)" and "length bs = n"
  obtains w' where "emit bs n w = Inr w'" and "filled w' = filled w @ bs"
    and "pos w' = pos w + n" and "length (mem w') = length (mem w)"
proof -
  let ?w = "\<lparr>mem = put_at (pos w) bs (mem w), pos = pos w + length bs\<rparr>"
  have "emit bs n w = Inr ?w" using assms by (simp add: emit_def)
  moreover have "filled ?w = filled w @ bs" using assms by (simp add: filled_def put_at_def)
  moreover have "length (mem ?w) = length (mem w)" using assms by (simp add: put_at_def)
  ultimately show ?thesis using assms(3) by (intro that [of ?w]) simp_all
qed

lemma to_encr_ok: "attr_ok (ty, d) \<Longrightarrow> to_encr ty d = Inr (is_encr (ty, d))"
  by (erule attr_ok_cases) (auto simp: to_encr_def is_encr_def at_defs)

lemma encode_attrs_ok:
  assumes "list_all attr_ok as" and "pos out \<le> length (mem out)" and "pos enc \<le> length (mem enc)"
    and "pos out + length (concat (map enc_attr (filter (\<lambda>a. \<not> is_encr a) as))) \<le> length (mem out)"
    and "pos enc + length (concat (map enc_attr (filter is_encr as))) \<le> length (mem enc)"
  shows "\<exists>out' enc'. encode_attrs as out enc = Inr (out', enc')
    \<and> filled out' = filled out @ concat (map enc_attr (filter (\<lambda>a. \<not> is_encr a) as))
    \<and> filled enc' = filled enc @ concat (map enc_attr (filter is_encr as))
    \<and> pos out' = pos out + length (concat (map enc_attr (filter (\<lambda>a. \<not> is_encr a) as)))
    \<and> pos enc' = pos enc + length (concat (map enc_attr (filter is_encr as)))
    \<and> length (mem out') = length (mem out) \<and> length (mem enc') = length (mem enc)"
  using assms
proof (induction as arbitrary: out enc)
  case Nil
  then show ?case by simp
next
  case (Cons a as)
  obtain ty d where a: "a = (ty, d)" by fastforce
  have ok: "attr_ok (ty, d)" using Cons.prems a by simp
  note e = encode_attr_ok [OF ok] to_encr_ok [OF ok]
  show ?case
  proof (cases "is_encr a")
    case True
    have "pos enc < length (mem enc)" "pos enc + length (enc_attr a) \<le> length (mem enc)"
      using Cons.prems(5) True e(2) a by auto
    from emit_fits [OF this refl] obtain w where w: "emit (enc_attr a) (length (enc_attr a)) enc = Inr w"
      "filled w = filled enc @ enc_attr a" "pos w = pos enc + length (enc_attr a)" "length (mem w) = length (mem enc)" .
    then show ?thesis using Cons.IH [of out w] Cons.prems True e a by auto
  next
    case False
    have "pos out < length (mem out)" "pos out + length (enc_attr a) \<le> length (mem out)"
      using Cons.prems(4) False e(2) a by auto
    from emit_fits [OF this refl] obtain w where w: "emit (enc_attr a) (length (enc_attr a)) out = Inr w"
      "filled w = filled out @ enc_attr a" "pos w = pos out + length (enc_attr a)" "length (mem w) = length (mem out)" .
    then show ?thesis using Cons.IH [of w enc] Cons.prems False e a by auto
  qed
qed

section \<open>Attributes the generator adds\<close>

definition pad_attr :: "nat \<Rightarrow> chunk" where
  "pad_attr n = [AT_PADDING, of_nat (n div 4)] @ replicate (n - 2) 0"

definition iv_attr :: "chunk \<Rightarrow> chunk" where
  "iv_attr i = [AT_IV, 5, 0, 0] @ i"

definition encr_attr :: "chunk \<Rightarrow> chunk" where
  "encr_attr e = [AT_ENCR_DATA, of_nat (length e div 4 + 1), 0, 0] @ e"

definition mac_attr :: "chunk \<Rightarrow> chunk" where
  "mac_attr m = [AT_MAC, 5, 0, 0] @ m"

lemmas own_attr_defs = pad_attr_def iv_attr_def encr_attr_def mac_attr_def

lemma parse_loop_iv:
  assumes "length i = 16"
  shows "parse_loop q (iv_attr i @ rest) this = parse_loop (q + 20) rest
    (this\<lparr>iv := Some \<lparr>in_plain = encrypted this, at_pos = q + 4, contents = i\<rparr>\<rparr>)"
  using assms
  by (subst parse_loop.simps) (simp add: iv_attr_def parse_attr_def handle_attr_def needs_encryption_def at_defs)

lemma parse_loop_mac:
  assumes "length m = 16"
  shows "parse_loop q (mac_attr m @ rest) this = parse_loop (q + 20) rest
    (this\<lparr>mac := Some \<lparr>in_plain = encrypted this, at_pos = q + 4, contents = m\<rparr>\<rparr>)"
  using assms
  by (subst parse_loop.simps) (simp add: mac_attr_def parse_attr_def handle_attr_def needs_encryption_def at_defs)

lemma parse_loop_encr:
  assumes "length e = 4 * k" and "k \<le> 250"
  shows "parse_loop q (encr_attr e @ rest) this = parse_loop (q + 4 + length e) rest
    (this\<lparr>encr := Some \<lparr>in_plain = encrypted this, at_pos = q + 4, contents = e\<rparr>\<rparr>)"
proof -
  let ?inp = "encr_attr e @ rest"
  have k: "unat (of_nat (k + 1) :: byte) = k + 1" using assms(2) by (intro unat_small_8) simp
  have e: "?inp = [AT_ENCR_DATA, of_nat (k + 1), 0, 0] @ e @ rest" using assms(1) by (simp add: encr_attr_def)
  have "of_nat ((k + 1) * 4) - 4 = (of_nat (length e) :: 64 word)" using assms(1) by simp
  then have "parse_attr (encrypted this) ?inp = Some (4, of_nat (length e), 4 + length e)"
    unfolding e parse_attr_def using assms(1) k by (simp add: needs_encryption_def at_defs)
  moreover have "unat (of_nat (length e) :: 64 word) = length e"
    using assms by (simp only: unat_of_nat) (simp add: take_bit_nat_eq_self)
  then have "handle_attr q ?inp 4 (of_nat (length e)) this =
      Inr (Some (this\<lparr>encr := Some \<lparr>in_plain = encrypted this, at_pos = q + 4, contents = e\<rparr>\<rparr>))"
    unfolding e handle_attr_def by (simp add: at_defs)
  moreover have "length (encr_attr e) = 4 + length e" by (simp add: encr_attr_def)
  then have "drop (4 + length e) ?inp = rest" "length ?inp \<ge> 4" by simp_all
  ultimately show ?thesis by (subst parse_loop.simps) (auto simp: add.assoc)
qed

lemma parse_loop_pad:
  assumes "n = 4 * k" and "1 \<le> k" and "k \<le> 63"
  shows "parse_loop q (pad_attr n) this = Some (Inr (True, this))"
proof -
  have k: "unat (of_nat k :: byte) = k" using assms(3) by (intro unat_small_8) simp
  have l: "length (pad_attr n) = n" using assms by (simp add: pad_attr_def)
  have "of_nat (k * 4) - 2 = (of_nat (n - 2) :: 64 word)" using assms by (simp add: of_nat_diff)
  moreover have "pad_attr n ! 0 = AT_PADDING" "pad_attr n ! 1 = of_nat k" using assms by (simp_all add: pad_attr_def)
  ultimately have "parse_attr (encrypted this) (pad_attr n) = Some (2, of_nat (n - 2), n)"
    unfolding parse_attr_def using assms k l by (simp add: needs_encryption_def at_defs)
  moreover have "handle_attr q (pad_attr n) 2 (of_nat (n - 2)) this = Inr (Some this)"
    by (simp add: handle_attr_def pad_attr_def at_defs)
  ultimately show ?thesis using l assms by (subst parse_loop.simps) (auto simp: parse_loop.simps)
qed

section \<open>Cipher and signature\<close>

text \<open>
  What the code relies on of AES-128-CBC, HMAC-SHA1-128 and the random number generator, which
  \<open>simaka_crypto.c\<close> asks for.
\<close>

definition crypter_laws :: "crypter \<Rightarrow> bool" where
  "crypter_laws c \<longleftrightarrow> cr_block_size c = 16 \<and> cr_iv_size c = 16
     \<and> (\<forall>d i. 16 dvd length d \<and> length i = 16 \<longrightarrow>
          (\<exists>e. cr_encrypt c d i = Some e \<and> length e = length d \<and> cr_decrypt c e i = Some d))"

definition signer_laws :: "signer \<Rightarrow> bool" where
  "signer_laws s \<longleftrightarrow> sg_block_size s = 16
     \<and> (\<forall>d. \<exists>m. sg_get_signature s d = Some m \<and> length m = 16 \<and> sg_verify_signature s d m)"

definition crypto_laws :: "simaka_crypto \<Rightarrow> bool" where
  "crypto_laws C \<longleftrightarrow> (case (get_crypter C, get_signer C) of (Some c, Some s) \<Rightarrow> crypter_laws c \<and> signer_laws s | _ \<Rightarrow> False)
     \<and> (\<forall>n. \<exists>b. get_rng C n = Some b \<and> length b = n)"

lemma crypto_lawsE:
  assumes "crypto_laws C"
  obtains c s where "get_crypter C = Some c" "get_signer C = Some s" "crypter_laws c" "signer_laws s"
    "\<forall>n. \<exists>b. get_rng C n = Some b \<and> length b = n"
  using assms by (auto simp: crypto_laws_def split: option.splits)

definition padding_for :: "nat \<Rightarrow> nat" where
  "padding_for x = 16 - x mod 16"

lemma padding_for_props:
  "4 dvd x \<Longrightarrow> \<exists>k. padding_for x = 4 * k \<and> 1 \<le> k \<and> k \<le> 63"
  "16 dvd x + padding_for x" "padding_for x \<le> 16" "x < 512 \<Longrightarrow> x + padding_for x \<le> 512"
proof -
  have m: "x mod 16 < 16" by simp
  show "\<exists>k. padding_for x = 4 * k \<and> 1 \<le> k \<and> k \<le> 63" if "4 dvd x"
  proof -
    have "4 dvd x mod 16" using that by (simp add: dvd_mod)
    then obtain j where j: "x mod 16 = 4 * j" by (elim dvdE)
    then have "padding_for x = 4 * (4 - j)" "1 \<le> 4 - j" using m by (simp_all add: padding_for_def)
    then show ?thesis by (intro exI [of _ "4 - j"]) simp
  qed
  have s: "x + padding_for x = 16 * (x div 16 + 1)"
  proof -
    obtain q r where "x = 16 * q + r" "r < 16" using m div_mult_mod_eq [of x 16] by (metis mult.commute)
    then show ?thesis by (simp add: padding_for_def)
  qed
  then show "16 dvd x + padding_for x" by simp
  show "padding_for x \<le> 16" by (simp add: padding_for_def)
  show "x + padding_for x \<le> 512" if "x < 512"
  proof -
    have "x div 16 < 32" using that by (simp add: less_mult_imp_div_less)
    then show ?thesis using s by simp
  qed
qed

lemma encrypt_attrs_ok:
  assumes c: "get_crypter C = Some c" "crypter_laws c" and r: "\<forall>n. \<exists>b. get_rng C n = Some b \<and> length b = n"
    and enc: "length (mem enc) = 512" "pos enc < 512" "4 dvd pos enc"
    and out: "pos out + 24 + pos enc + padding_for (pos enc) \<le> length (mem out)"
  obtains i e out' where "length i = 16" "length e = pos enc + padding_for (pos enc)"
    "cr_decrypt c e i = Some (filled enc @ pad_attr (padding_for (pos enc)))"
    "encrypt_attrs C out enc = Inr (Some out')" "filled out' = filled out @ iv_attr i @ encr_attr e"
    "pos out' = pos out + 24 + length e" "length (mem out') = length (mem out)"
proof -
  let ?p = "padding_for (pos enc)"
  note pp = padding_for_props [of "pos enc"]
  have p: "4 \<le> ?p" using pp(1) [OF enc(3)] by auto
  have lp: "length (pad_attr ?p) = ?p" using p by (simp add: pad_attr_def)
  have "pos enc < length (mem enc)" "pos enc + ?p \<le> length (mem enc)"
    using enc pp(4) by simp_all
  from emit_fits [OF this lp] obtain enc1 where e1: "emit (pad_attr ?p) ?p enc = Inr enc1"
    "filled enc1 = filled enc @ pad_attr ?p" .
  have "pos out < length (mem out)" "pos out + 4 \<le> length (mem out)" "length [AT_IV, 5, 0, 0] = 4" using out by simp_all
  from emit_fits [OF this] obtain o1 where o1: "emit [AT_IV, 5, 0, 0] 4 out = Inr o1"
    "filled o1 = filled out @ [AT_IV, 5, 0, 0]" "pos o1 = pos out + 4" "length (mem o1) = length (mem out)" .
  obtain i where i: "get_rng C 16 = Some i" "length i = 16" using r by blast
  have "pos o1 < length (mem o1)" "pos o1 + 16 \<le> length (mem o1)" using out o1 by simp_all
  from emit_fits [OF this i(2)] obtain o2 where o2: "emit i 16 o1 = Inr o2"
    "filled o2 = filled o1 @ i" "pos o2 = pos o1 + 16" "length (mem o2) = length (mem o1)" .
  have lf: "length (filled enc1) = pos enc + ?p" using e1(2) lp enc by (simp add: filled_def)
  then have "16 dvd length (filled enc1)" using pp(2) by simp
  with c(2) i(2) obtain e where e: "cr_encrypt c (filled enc1) i = Some e" "length e = length (filled enc1)"
    "cr_decrypt c e i = Some (filled enc1)" unfolding crypter_laws_def by blast
  have le: "length (encr_attr e) = length e + 4" by (simp add: encr_attr_def)
  have "pos o2 < length (mem o2)" "pos o2 + (length e + 4) \<le> length (mem o2)"
    using out o1 o2 e lf by simp_all
  from emit_fits [OF this le] obtain o3 where o3: "emit (encr_attr e) (length e + 4) o2 = Inr o3"
    "filled o3 = filled o2 @ encr_attr e" "pos o3 = pos o2 + (length e + 4)" "length (mem o3) = length (mem o2)" .
  have "encrypt_attrs C out enc = Inr (Some o3)"
    using c p e1(1) o1(1) i(1) o2(1) e(1) o3(1)
    by (simp add: encrypt_attrs_def crypter_laws_def Let_def padding_for_def [symmetric] pad_attr_def
        encr_attr_def filled_def)
  then show ?thesis using that [of i e o3] i(2) e lf e1(2) o1 o2 o3 by (simp add: iv_attr_def)
qed

section \<open>Generating and parsing a message\<close>

definition plain_part :: "attr list \<Rightarrow> chunk" where
  "plain_part as = concat (map enc_attr (filter (\<lambda>a. \<not> is_encr a) as))"

definition encr_part :: "attr list \<Rightarrow> chunk" where
  "encr_part as = concat (map enc_attr (filter is_encr as))"

definition message_size :: "byte \<Rightarrow> attr list \<Rightarrow> nat" where
  "message_size st as = 8 + length (plain_part as)
     + (if encr_part as = [] then 0 else 24 + length (encr_part as) + padding_for (length (encr_part as)))
     + (if wants_mac st then 20 else 0)"

definition msg_header :: "bool \<Rightarrow> byte \<Rightarrow> nat \<Rightarrow> byte \<Rightarrow> byte \<Rightarrow> chunk" where
  "msg_header req ident n ty st =
     [if req then EAP_REQUEST else EAP_RESPONSE, ident] @ be_bytes 2 (of_nat n :: 16 word) @ [ty, st, 0, 0]"

lemma length_msg_header [simp]: "length (msg_header req ident n ty st) = 8"
  by (simp add: msg_header_def)

definition fresh_message :: "chunk \<Rightarrow> simaka_message" where
  "fresh_message data = \<lparr>hdr = data, attributes = [], encrypted = False, p_bit = True, mac = None, iv = None, encr = None\<rparr>"

lemma create_header:
  assumes "ty \<in> {EAP_SIM, EAP_AKA}" and "length rest + 8 < 65536"
  shows "simaka_message_create_from_payload (msg_header req ident (length rest + 8) ty st @ rest)
    = Some (fresh_message (msg_header req ident (length rest + 8) ty st @ rest))"
  using assms(1)
  by (auto simp: simaka_message_create_from_payload_def msg_header_def fresh_message_def be_word_be_bytes_full add.commute
      nth_append)

lemma hdr_length_header:
  assumes "n < 65536"
  shows "hdr_length (fresh_message (msg_header req ident n ty st @ rest)) = n"
  using assms by (simp add: hdr_length_def fresh_message_def msg_header_def be_word_be_bytes_full unat_small_16)

lemma foldl_add_attribute: "foldl (\<lambda>m (t, d). add_attribute t d m) m as = m\<lparr>attributes := attributes m @ as\<rparr>"
  by (induction as arbitrary: m) (auto simp: add_attribute_def)

text \<open>The attributes behind the plain ones: the encrypted ones and the MAC, if any.\<close>

definition encr_block :: "attr list \<Rightarrow> chunk \<Rightarrow> chunk \<Rightarrow> chunk" where
  "encr_block as i e = (if encr_part as = [] then [] else iv_attr i @ encr_attr e)"

definition encr_ok :: "simaka_crypto \<Rightarrow> attr list \<Rightarrow> chunk \<Rightarrow> chunk \<Rightarrow> bool" where
  "encr_ok C as i e \<longleftrightarrow> encr_part as = [] \<or>
     length i = 16 \<and> length e = length (encr_part as) + padding_for (length (encr_part as))
     \<and> (case get_crypter C of None \<Rightarrow> False
        | Some c \<Rightarrow> cr_decrypt c e i = Some (encr_part as @ pad_attr (padding_for (length (encr_part as)))))"

definition mac_block :: "byte \<Rightarrow> chunk \<Rightarrow> chunk" where
  "mac_block st m = (if wants_mac st then mac_attr m else [])"

lemma attr_dvd: "list_all attr_ok as \<Longrightarrow> 4 dvd length (concat (map enc_attr as))"
  by (induction as) (auto intro: dvd_add dest: encode_attr_ok(3))

lemma encr_part_dvd: "list_all attr_ok as \<Longrightarrow> 4 dvd length (encr_part as)"
  unfolding encr_part_def by (rule attr_dvd) (auto simp: list_all_iff)

lemma encr_stage:
  assumes cs: "get_crypter C = Some c" "crypter_laws c" and rng: "\<forall>n. \<exists>b. get_rng C n = Some b \<and> length b = n"
    and as: "list_all attr_ok as" and en: "filled en = encr_part as" "pos en = length (encr_part as)"
      "length (mem en) = 512" "pos en < 512"
    and room: "pos out + length (encr_part as) + 24 + padding_for (length (encr_part as)) \<le> length (mem out) \<or> encr_part as = []"
  obtains i e out' where "encr_ok C as i e"
    and "(if pos en > 0 then encrypt_attrs C out en else Inr (Some out)) = Inr (Some out')"
    and "filled out' = filled out @ encr_block as i e" and "pos out' = pos out + length (encr_block as i e)"
    and "length (mem out') = length (mem out)"
proof (cases "encr_part as = []")
  case True
  then show ?thesis using that [of "[]" "[]" out] en by (simp add: encr_ok_def encr_block_def)
next
  case False
  have "4 dvd pos en" using en encr_part_dvd [OF as] by simp
  moreover have "pos out + 24 + pos en + padding_for (pos en) \<le> length (mem out)" using en room False by simp
  ultimately obtain i e o2 where "length i = 16" "length e = pos en + padding_for (pos en)"
    "cr_decrypt c e i = Some (filled en @ pad_attr (padding_for (pos en)))"
    "encrypt_attrs C out en = Inr (Some o2)" "filled o2 = filled out @ iv_attr i @ encr_attr e"
    "pos o2 = pos out + 24 + length e" "length (mem o2) = length (mem out)"
    using encrypt_attrs_ok [OF cs rng en(3,4)] by metis
  then show ?thesis using that [of i e o2] en False cs(1) by (simp add: encr_ok_def encr_block_def own_attr_defs)
qed

lemma put_length: "put_at 2 (be_bytes 2 (of_nat n :: 16 word)) (msg_header req ident k ty st @ r) = msg_header req ident n ty st @ r"
  by (simp add: put_at_def msg_header_def)

lemma finish_ok:
  assumes s: "get_signer C = Some s" "signer_laws s" and out: "filled out = msg_header req ident 8 ty st @ body"
    "pos out = 8 + length body" "pos out + (if wants_mac st then 20 else 0) \<le> length (mem out)"
    and n: "n = pos out + (if wants_mac st then 20 else 0)"
  obtains sig where "length sig = 16"
    and "finish C sigdata st out = Inr (Some (msg_header req ident n ty st @ body @ mac_block st sig))"
    and "sg_verify_signature s (msg_header req ident n ty st @ body @ mac_block st (replicate 16 0) @ sigdata) sig"
proof -
  let ?H = "msg_header req ident"
  obtain sig where sig: "sg_get_signature s (?H n ty st @ body @ mac_block st (replicate 16 0) @ sigdata) = Some sig"
    "length sig = 16" "sg_verify_signature s (?H n ty st @ body @ mac_block st (replicate 16 0) @ sigdata) sig"
    and bs: "sg_block_size s = 16" using s(2) unfolding signer_laws_def by metis
  have "finish C sigdata st out = Inr (Some (?H n ty st @ body @ mac_block st sig))"
  proof (cases "wants_mac st")
    case False
    then show ?thesis using out(1) n by (simp add: finish_def reserve_mac_def put_length mac_block_def filled_def)
  next
    case True
    let ?z = "mac_attr (replicate 16 0)"
    have "pos out < length (mem out)" "pos out + 20 \<le> length (mem out)" "length ?z = 20"
      using out(3) True by (simp_all add: mac_attr_def)
    from emit_fits [OF this] obtain o3 where o3: "emit ?z 20 out = Inr o3" "filled o3 = filled out @ ?z" "pos o3 = pos out + 20" .
    have rm: "reserve_mac C st out = Inr (o3, Some (pos out + 4))"
      using True s(1) o3(1) by (simp add: reserve_mac_def bs mac_attr_def)
    have g: "put_at 2 (be_bytes 2 (of_nat (pos o3) :: 16 word)) (take (pos o3) (mem o3)) = ?H n ty st @ body @ ?z"
      using o3(2,3) out(1) n True put_length [of n req ident 8 ty st "body @ ?z"] by (simp add: filled_def)
    have "put_at (pos out + 4) sig (?H n ty st @ body @ ?z) = ?H n ty st @ body @ mac_attr sig"
      using sig(2) unfolding out(2) by (simp add: put_at_def mac_attr_def)
    then show ?thesis unfolding finish_def rm
      using sig(1) True s(1) by (simp add: g bs mac_block_def)
  qed
  then show ?thesis using that sig by blast
qed

lemma generate_layout:
  assumes C: "crypto_laws C" and as: "list_all attr_ok as" and e512: "length (encr_part as) < 512"
    and size: "message_size st as \<le> 1024" and buf: "length out_buf = 1024" "length encr_buf = 512"
    and m: "hdr m = msg_header req ident 8 ty st" "attributes m = as"
  obtains i e sig where "encr_ok C as i e" and "length sig = 16"
    and "generate C out_buf encr_buf sigdata m =
      Inr (Some (msg_header req ident (message_size st as) ty st @ plain_part as @ encr_block as i e @ mac_block st sig))"
    and "\<exists>s. get_signer C = Some s \<and> sg_verify_signature s
      (msg_header req ident (message_size st as) ty st @ plain_part as @ encr_block as i e @ mac_block st (replicate 16 0) @ sigdata) sig"
proof -
  obtain c s where cs: "get_crypter C = Some c" "get_signer C = Some s" "crypter_laws c" "signer_laws s"
    and rng: "\<forall>n. \<exists>b. get_rng C n = Some b \<and> length b = n" using C by (rule crypto_lawsE)
  let ?H = "msg_header req ident"
  let ?out = "\<lparr>mem = out_buf, pos = 0\<rparr>" and ?enc = "\<lparr>mem = encr_buf, pos = 0\<rparr>"
  have "pos ?out < length (mem ?out)" "pos ?out + 8 \<le> length (mem ?out)" "length (take 8 (hdr m)) = 8"
    using buf m by simp_all
  from emit_fits [OF this] obtain o0 where o0: "emit (take 8 (hdr m)) 8 ?out = Inr o0"
    "filled o0 = ?H 8 ty st" "pos o0 = 8" "length (mem o0) = 1024" using buf m by (auto simp: filled_def)
  have "pos o0 + length (plain_part as) \<le> length (mem o0)" "pos ?enc + length (encr_part as) \<le> length (mem ?enc)"
    using size e512 buf o0 by (simp_all add: message_size_def)
  then obtain o1 en where o1: "encode_attrs as o0 ?enc = Inr (o1, en)" "filled o1 = ?H 8 ty st @ plain_part as"
    "filled en = encr_part as" "pos o1 = 8 + length (plain_part as)" "pos en = length (encr_part as)"
    "length (mem o1) = 1024" "length (mem en) = 512"
    using encode_attrs_ok [OF as, of o0 ?enc] o0 buf by (auto simp: plain_part_def encr_part_def filled_def)
  have "pos en < 512" "pos o1 + length (encr_part as) + 24 + padding_for (length (encr_part as)) \<le> length (mem o1) \<or> encr_part as = []"
    using o1 e512 size by (auto simp: message_size_def)
  from encr_stage [OF cs(1,3) rng as o1(3,5,7) this] obtain i e o2 where eo: "encr_ok C as i e" and
    o2: "(if pos en > 0 then encrypt_attrs C o1 en else Inr (Some o1)) = Inr (Some o2)"
      "filled o2 = filled o1 @ encr_block as i e" "pos o2 = pos o1 + length (encr_block as i e)" "length (mem o2) = length (mem o1)" .
  let ?body = "plain_part as @ encr_block as i e"
  have "length (encr_block as i e) = (if encr_part as = [] then 0 else 24 + length (encr_part as) + padding_for (length (encr_part as)))"
    using eo by (auto simp: encr_block_def encr_ok_def own_attr_defs)
  then have n: "message_size st as = pos o2 + (if wants_mac st then 20 else 0)"
    using o1(4) o2(3) by (simp add: message_size_def)
  have "filled o2 = ?H 8 ty st @ ?body" "pos o2 = 8 + length ?body" "pos o2 + (if wants_mac st then 20 else 0) \<le> length (mem o2)"
    using o1 o2 n size by simp_all
  from finish_ok [OF cs(2,4) this n, of sigdata] obtain sig where sig: "length sig = 16"
    "finish C sigdata st o2 = Inr (Some (?H (message_size st as) ty st @ ?body @ mac_block st sig))"
    "sg_verify_signature s (?H (message_size st as) ty st @ ?body @ mac_block st (replicate 16 0) @ sigdata) sig" .
  have "get_subtype m = st" using m(1) by (simp add: get_subtype_def msg_header_def nth_append)
  then have "generate C out_buf encr_buf sigdata m = finish C sigdata st o2"
    using o0(1) o1(1) o2(1) m(2) by (simp add: generate_def)
  then show ?thesis using that [OF eo sig(1)] sig(2,3) cs(2) by auto
qed

lemma needs_encryption_is_encr: "needs_encryption (fst a) \<Longrightarrow> is_encr a"
  by (cases a) (auto simp: needs_encryption_def is_encr_def to_encr_def)

lemma parse_plain:
  assumes as: "list_all attr_ok as" and t: "encrypted t = False" "p_bit t"
  shows "parse_loop q (plain_part as @ rest) t = parse_loop (q + length (plain_part as)) rest
    (t\<lparr>attributes := attributes t @ filter (\<lambda>a. \<not> is_encr a) as,
       p_bit := p_after True (filter (\<lambda>a. \<not> is_encr a) as)\<rparr>)"
proof -
  let ?p = "filter (\<lambda>a. \<not> is_encr a) as"
  have "list_all attr_ok ?p" "list_all (\<lambda>a. needs_encryption (fst a) \<longrightarrow> encrypted t) ?p" "list_all (\<lambda>a. \<not> is_encr a) ?p"
    using as by (auto simp: list_all_iff dest: needs_encryption_is_encr [of "(_, _)", simplified])
  then show ?thesis unfolding plain_part_def using parse_loop_attrs [of ?p t q rest] t by simp
qed

lemma parse_encr:
  assumes as: "list_all attr_ok as" and t: "encrypted t"
  shows "parse_attributes 0 (encr_part as @ pad_attr (padding_for (length (encr_part as)))) t =
    Inr (True, t\<lparr>attributes := attributes t @ filter is_encr as, p_bit := p_after (p_bit t) (filter is_encr as)\<rparr>)"
proof -
  obtain k where "padding_for (length (encr_part as)) = 4 * k" "1 \<le> k" "k \<le> 63"
    using padding_for_props(1) [OF encr_part_dvd [OF as]] by blast
  then show ?thesis
    using parse_loop_attrs [of "filter is_encr as" t 0 "pad_attr (padding_for (length (encr_part as)))"] as t
    by (simp add: parse_attributes_def list_all_iff encr_part_def [symmetric] parse_loop_pad)
qed

text \<open>The state after the unencrypted part, in which IV, encrypted data and MAC are located.\<close>

definition after_plain :: "byte \<Rightarrow> attr list \<Rightarrow> chunk \<Rightarrow> chunk \<Rightarrow> chunk \<Rightarrow> simaka_message \<Rightarrow> simaka_message" where
  "after_plain st as i e sig t =
     (let q = 8 + length (plain_part as); loc = (\<lambda>p c. Some \<lparr>in_plain = False, at_pos = p, contents = c\<rparr>) in
      t\<lparr>attributes := filter (\<lambda>a. \<not> is_encr a) as, p_bit := p_after True (filter (\<lambda>a. \<not> is_encr a) as),
        iv := (if encr_part as = [] then iv t else loc (q + 4) i),
        encr := (if encr_part as = [] then encr t else loc (q + 24) e),
        mac := (if wants_mac st then loc (q + length (encr_block as i e) + 4) sig else mac t)\<rparr>)"

lemma parse_loop_Nil [simp]: "parse_loop q [] t = Some (Inr (True, t))"
  by (simp add: parse_loop.simps)

lemma parse_body:
  assumes as: "list_all attr_ok as" and eo: "encr_ok C as i e" and e512: "length (encr_part as) < 512" and sig: "length sig = 16"
    and t: "encrypted t = False" "p_bit t" "attributes t = []"
  shows "parse_attributes 8 (plain_part as @ encr_block as i e @ mac_block st sig) t = Inr (True, after_plain st as i e sig t)"
proof -
  have m: "parse_loop q (mac_attr sig) u = Some (Inr (True, u\<lparr>mac := Some \<lparr>in_plain = encrypted u, at_pos = q + 4, contents = sig\<rparr>\<rparr>))" for q u
    using parse_loop_mac [OF sig, of q "[]" u] by simp
  show ?thesis
  proof (cases "encr_part as = []")
    case True
    then show ?thesis using t parse_plain [OF as t(1,2)]
      by (simp add: parse_attributes_def encr_block_def mac_block_def m after_plain_def Let_def)
  next
    case False
    then have l: "length i = 16" "length e = length (encr_part as) + padding_for (length (encr_part as))"
      using eo by (simp_all add: encr_ok_def)
    have "16 dvd length e" "length e \<le> 512" using padding_for_props(2,4) [of "length (encr_part as)"] e512 l(2) by simp_all
    then obtain j where "length e = 4 * (4 * j)" "4 * j \<le> 250" by (auto elim!: dvdE)
    from parse_loop_encr [OF this] parse_loop_iv [OF l(1)] show ?thesis using t parse_plain [OF as t(1,2)] False
      by (simp add: parse_attributes_def encr_block_def mac_block_def m after_plain_def Let_def own_attr_defs(2,3) add.assoc l(1))
  qed
qed

lemma decrypt_body:
  assumes as: "list_all attr_ok as" and eo: "encr_ok C as i e" and C: "crypto_laws C"
    and t: "encrypted t = False" "encr_part as = [] \<Longrightarrow> iv t = None"
  obtains t' where "decrypt C (after_plain st as i e sig t) = Inr (True, t')" and "hdr t' = hdr t"
    and "mac t' = mac (after_plain st as i e sig t)"
    and "attributes t' = filter (\<lambda>a. \<not> is_encr a) as @ filter is_encr as"
proof (cases "encr_part as = []")
  case True
  then have "filter is_encr as = []"
    using as by (auto simp: encr_part_def list_all_iff filter_empty_conv dest!: encode_attr_ok(2))
  then show ?thesis using that [of "after_plain st as i e sig t"] True t
    by (simp add: decrypt_def after_plain_def Let_def split: option.split)
next
  case False
  let ?u = "after_plain st as i e sig t"
  obtain c where c: "get_crypter C = Some c" "crypter_laws c" using C by (rule crypto_lawsE)
  have d: "cr_decrypt c e i = Some (encr_part as @ pad_attr (padding_for (length (encr_part as))))"
    and l: "length i = 16" "length e = length (encr_part as) + padding_for (length (encr_part as))"
    using eo False c(1) by (simp_all add: encr_ok_def)
  have "length e mod 16 = 0" using l(2) padding_for_props(2) [of "length (encr_part as)"] by (simp add: dvd_eq_mod_eq_0)
  moreover have "i \<noteq> []" "e \<noteq> []" using l False by auto
  ultimately have "decrypt C ?u = andThen (parse_attributes 0 (encr_part as @ pad_attr (padding_for (length (encr_part as))))
      (?u\<lparr>encrypted := True\<rparr>)) (\<lambda>(success, t). Inr (success, t\<lparr>encrypted := False\<rparr>))"
    using c d False t by (simp add: decrypt_def after_plain_def Let_def crypter_laws_def)
  also have "\<dots> = Inr (True, ?u\<lparr>attributes := attributes ?u @ filter is_encr as,
      p_bit := p_after (p_bit ?u) (filter is_encr as), encrypted := False\<rparr>)"
    by (simp add: parse_encr [OF as])
  finally show ?thesis by (rule that) (simp_all add: after_plain_def Let_def)
qed

lemma verify_ok:
  assumes h: "hdr t = h @ mac_attr sig" and n: "hdr_length t = length h + 20" and st: "wants_mac (get_subtype t)"
    and sig: "length sig = 16" and mac: "mac t = Some \<lparr>in_plain = False, at_pos = length h + 4, contents = sig\<rparr>"
    and s: "get_signer C = Some s" "sg_verify_signature s (h @ mac_attr (replicate 16 0) @ sigdata) sig"
  shows "verify C sigdata t = Inr (True, t\<lparr>hdr := h @ mac_attr (replicate 16 0)\<rparr>)"
proof -
  let ?z = "h @ mac_attr (replicate 16 0)"
  have z: "take (length h + 4) (hdr t) @ replicate 16 0 @ drop (length h + 4 + 16) (hdr t) = ?z"
    using sig by (simp add: h mac_attr_def)
  have "length ?z = hdr_length t" by (simp add: n mac_attr_def)
  then have "check_mac C sigdata t = Inr (sg_verify_signature s (?z @ sigdata) sig, t\<lparr>hdr := ?z\<rparr>)"
    unfolding check_mac_def mac s(1) option.case prod.case located.select_convs Let_def sig z by simp
  moreover have "verify C sigdata t = check_mac C sigdata t"
    using st by (auto simp: verify_def wants_mac_def subtype_defs)
  ultimately show ?thesis using s(2) by simp
qed

text \<open>Messages that need a MAC are accepted for a valid one only.\<close>

definition mac_valid :: "signer \<Rightarrow> chunk \<Rightarrow> simaka_message \<Rightarrow> bool" where
  "mac_valid s sigdata m \<longleftrightarrow> (case mac m of None \<Rightarrow> False | Some a \<Rightarrow>
     sg_verify_signature s
       (take (hdr_length m) (take (at_pos a) (hdr m) @ replicate (length (contents a)) 0 @ drop (at_pos a + length (contents a)) (hdr m))
        @ sigdata) (contents a))"

lemma verify_signed:
  assumes "verify C sigdata m = Inr (True, m')" and "wants_mac (get_subtype m)"
  shows "attributes m' = attributes m" and "\<exists>s. get_signer C = Some s \<and> mac_valid s sigdata m"
proof -
  have "check_mac C sigdata m = Inr (True, m')"
    using assms by (auto simp: verify_def wants_mac_def Let_def subtype_defs split: if_split_asm)
  then show "attributes m' = attributes m" "\<exists>s. get_signer C = Some s \<and> mac_valid s sigdata m"
    by (auto simp: check_mac_def mac_valid_def Let_def split: option.split_asm if_split_asm)
qed

text \<open>Reading a message takes the crypter and the signer only, not the random numbers.\<close>

lemma parse_cong: "get_crypter C' = get_crypter C \<Longrightarrow> parse C' = parse C"
proof -
  assume "get_crypter C' = get_crypter C"
  then have "decrypt C' = decrypt C" by (simp add: fun_eq_iff decrypt_def)
  then show "parse C' = parse C" by (intro ext) (simp only: parse_def)
qed

lemma verify_cong: "get_signer C' = get_signer C \<Longrightarrow> verify C' = verify C"
proof -
  assume "get_signer C' = get_signer C"
  then have "check_mac C' = check_mac C" by (simp add: fun_eq_iff check_mac_def)
  then show "verify C' = verify C" by (intro ext) (simp only: verify_def)
qed

definition same_head :: "simaka_message \<Rightarrow> bool \<Rightarrow> byte \<Rightarrow> byte \<Rightarrow> bool" where
  "same_head m req ident st \<longleftrightarrow> is_request m = req \<and> get_identifier m = ident \<and> get_subtype m = st"

text \<open>
  A message on its way to a receiver with the same keys, and to one that has no keys yet: the
  latter reads the plain attributes, and verifies and decrypts once it has derived the keys.
\<close>

lemma delivery:
  assumes C: "crypto_laws C" and ty: "ty \<in> {EAP_SIM, EAP_AKA}" and as: "list_all attr_ok as"
    and e512: "length (encr_part as) < 512" and size: "message_size st as \<le> 1024"
    and buf: "length out_buf = 1024" "length encr_buf = 512"
    and m: "simaka_message_create req ident ty st = Some m"
  obtains bs m1 m2 n2 where
      "generate C out_buf encr_buf sigdata (foldl (\<lambda>m (t, d). add_attribute t d m) m as) = Inr (Some bs)"
    and "simaka_message_create_from_payload bs = Some m1" and "bs ! 1 = ident"
    and "parse C m1 = Inr (True, m2)" and "attributes m2 = filter (\<lambda>a. \<not> is_encr a) as @ filter is_encr as"
    and "same_head m2 req ident st"
    and "wants_mac st \<Longrightarrow> \<exists>m3. verify C sigdata m2 = Inr (True, m3) \<and> attributes m3 = attributes m2"
    and "\<And>N. get_crypter N = None \<Longrightarrow> parse N m1 = Inr (True, n2)"
    and "attributes n2 = filter (\<lambda>a. \<not> is_encr a) as" and "same_head n2 req ident st"
    and "wants_mac st \<Longrightarrow> \<exists>n3 n4. verify C sigdata n2 = Inr (True, n3) \<and> parse C n3 = Inr (True, n4)
      \<and> attributes n4 = filter (\<lambda>a. \<not> is_encr a) as @ filter is_encr as \<and> same_head n4 req ident st"
proof -
  let ?H = "msg_header req ident" and ?n = "message_size st as"
  have "m = fresh_message (?H 8 ty st)"
    using m create_header [OF ty, of "[]" req ident st] by (simp add: simaka_message_create_def msg_header_def)
  then have "hdr (foldl (\<lambda>m (t, d). add_attribute t d m) m as) = ?H 8 ty st"
    "attributes (foldl (\<lambda>m (t, d). add_attribute t d m) m as) = as"
    by (simp_all add: foldl_add_attribute fresh_message_def)
  from generate_layout [OF C as e512 size buf this, of sigdata] obtain i e sig where
    eo: "encr_ok C as i e" and sl: "length sig = 16" and
    g: "generate C out_buf encr_buf sigdata (foldl (\<lambda>m (t, d). add_attribute t d m) m as) =
      Inr (Some (?H ?n ty st @ plain_part as @ encr_block as i e @ mac_block st sig))" and
    sg: "\<exists>s. get_signer C = Some s \<and> sg_verify_signature s
      (?H ?n ty st @ plain_part as @ encr_block as i e @ mac_block st (replicate 16 0) @ sigdata) sig" .
  let ?B = "plain_part as @ encr_block as i e @ mac_block st sig"
  let ?t = "fresh_message (?H ?n ty st @ ?B)"
  have n: "length ?B + 8 = ?n"
    using eo sl by (auto simp: message_size_def encr_block_def encr_ok_def mac_block_def own_attr_defs)
  have cr: "simaka_message_create_from_payload (?H ?n ty st @ ?B) = Some ?t"
    using create_header [OF ty, of ?B req ident st] size unfolding n by simp
  have hl: "hdr_length ?t = ?n" using size by (intro hdr_length_header) simp
  have ft: "encrypted ?t = False" "p_bit ?t" "attributes ?t = []" "iv ?t = None" "hdr ?t = ?H ?n ty st @ ?B"
    by (simp_all add: fresh_message_def)
  from decrypt_body [OF as eo C ft(1,4)] obtain t' where
    d: "decrypt C (after_plain st as i e sig ?t) = Inr (True, t')" "hdr t' = ?H ?n ty st @ ?B"
      "mac t' = mac (after_plain st as i e sig ?t)" "attributes t' = filter (\<lambda>a. \<not> is_encr a) as @ filter is_encr as"
    unfolding ft(5) .
  have b: "drop 8 (take ?n (?H ?n ty st @ ?B)) = ?B" using n by simp
  then have p: "parse C ?t = Inr (True, t')"
    unfolding parse_def hl ft(5) using parse_body [OF as eo e512 sl ft(1-3)] ft(3) d(1) by simp
  let ?n2 = "after_plain st as i e sig ?t"
  have n2: "hdr ?n2 = hdr ?t" "attributes ?n2 = filter (\<lambda>a. \<not> is_encr a) as" by (simp_all add: after_plain_def Let_def)
  have pl: "parse N ?t = Inr (True, ?n2)" if "get_crypter N = None" for N
    unfolding parse_def hl ft(5) using parse_body [OF as eo e512 sl ft(1-3)] ft(3) that b by (simp add: decrypt_def)
  have h0: "same_head u req ident st" if "take 8 (hdr u) = ?H ?n ty st" for u
  proof -
    have "hdr u ! k = ?H ?n ty st ! k" if "k < 8" for k using \<open>take 8 (hdr u) = _\<close> nth_take [OF that, of "hdr u"] by simp
    then show ?thesis by (simp add: same_head_def is_request_def get_identifier_def get_subtype_def msg_header_def nth_append
        EAP_REQUEST_def EAP_RESPONSE_def)
  qed
  have h8: "length (?H ?n ty st) = 8" by (simp add: msg_header_def)
  have h: "same_head u req ident st" if "hdr u = hdr ?t" for u using that h8 unfolding ft(5) by (intro h0) simp
  let ?z = "?H ?n ty st @ plain_part as @ encr_block as i e @ mac_attr (replicate 16 0)"
  have v: "verify C sigdata u = Inr (True, u\<lparr>hdr := ?z\<rparr>)" if w: "wants_mac st" and u: "hdr u = hdr ?t" "mac u = mac ?n2" for u
  proof -
    let ?h = "?H ?n ty st @ plain_part as @ encr_block as i e"
    obtain s where s: "get_signer C = Some s" "sg_verify_signature s (?h @ mac_attr (replicate 16 0) @ sigdata) sig"
      using sg w by (auto simp: mac_block_def)
    have "hdr u = ?h @ mac_attr sig" using u(1) ft(5) w by (simp add: mac_block_def)
    moreover have "hdr_length u = hdr_length ?t" using u(1) by (simp add: hdr_length_def)
    then have "hdr_length u = length ?h + 20" using hl n w sl by (simp add: mac_block_def mac_attr_def)
    moreover have "wants_mac (get_subtype u)" using h [OF u(1)] w by (simp add: same_head_def)
    moreover have "mac u = Some \<lparr>in_plain = False, at_pos = length ?h + 4, contents = sig\<rparr>"
      using u(2) w by (simp add: after_plain_def Let_def)
    ultimately show ?thesis using verify_ok [OF _ _ _ sl _ s] by simp
  qed
  have again: "\<exists>n3 n4. verify C sigdata ?n2 = Inr (True, n3) \<and> parse C n3 = Inr (True, n4)
      \<and> attributes n4 = filter (\<lambda>a. \<not> is_encr a) as @ filter is_encr as \<and> same_head n4 req ident st" if w: "wants_mac st"
  proof -
    let ?n3 = "?n2\<lparr>hdr := ?z\<rparr>"
    have v2: "verify C sigdata ?n2 = Inr (True, ?n3)" by (rule v [OF w n2(1) refl])
    have n3: "encrypted ?n3 = False" "encr_part as = [] \<Longrightarrow> iv ?n3 = None" "hdr ?n3 = ?z" "attributes ?n3 = attributes ?n2"
      using ft by (simp_all add: after_plain_def Let_def)
    have e: "?n3 = after_plain st as i e sig (?t\<lparr>hdr := ?z\<rparr>)" by (simp add: after_plain_def Let_def)
    have "\<exists>n4. parse C ?n3 = Inr (True, n4) \<and> hdr n4 = ?z \<and> attributes n4 = filter (\<lambda>a. \<not> is_encr a) as @ filter is_encr as"
    proof (cases "attributes ?n2 = []")
      case True
      have "hdr_length ?n3 = hdr_length ?t" using h8 by (simp add: hdr_length_def ft(5))
      then have b3: "drop 8 (take (hdr_length ?n3) ?z) = plain_part as @ encr_block as i e @ mac_block st (replicate 16 0)"
        using hl n h8 sl w by (simp add: mac_block_def mac_attr_def)
      have "p_bit ?n3" using True n2(2) by (simp add: after_plain_def Let_def p_after_def)
      then have pa: "parse_attributes 8 (plain_part as @ encr_block as i e @ mac_block st (replicate 16 0)) ?n3
          = Inr (True, after_plain st as i e (replicate 16 0) ?n3)"
        using parse_body [OF as eo e512 _ n3(1)] True n3(4) by simp
      obtain n4 where "decrypt C (after_plain st as i e (replicate 16 0) ?n3) = Inr (True, n4)" "hdr n4 = ?z"
        "attributes n4 = filter (\<lambda>a. \<not> is_encr a) as @ filter is_encr as"
        by (rule decrypt_body [OF as eo C n3(1,2)]) (simp_all only: n3(3))
      then show ?thesis unfolding parse_def n3(3,4) b3 pa using True by simp
    next
      case False
      have "encrypted (?t\<lparr>hdr := ?z\<rparr>) = False" "encr_part as = [] \<Longrightarrow> iv (?t\<lparr>hdr := ?z\<rparr>) = None" using ft by simp_all
      from decrypt_body [OF as eo C this, where st = st and sig = sig] obtain n4 where
        "decrypt C ?n3 = Inr (True, n4)" "hdr n4 = ?z" "attributes n4 = filter (\<lambda>a. \<not> is_encr a) as @ filter is_encr as"
        unfolding e [symmetric] by auto
      then show ?thesis using False n3(4) unfolding parse_def by auto
    qed
    then obtain n4 where n4: "parse C ?n3 = Inr (True, n4)" "hdr n4 = ?z" "attributes n4 = filter (\<lambda>a. \<not> is_encr a) as @ filter is_encr as"
      by blast
    moreover have "same_head n4 req ident st" using n4(2) h8 by (intro h0) simp
    ultimately show ?thesis using v2 by blast
  qed
  have vk: "\<exists>m3. verify C sigdata t' = Inr (True, m3) \<and> attributes m3 = attributes t'" if "wants_mac st"
    using v [OF that, of t'] d(2,3) ft(5) by auto
  have "(?H ?n ty st @ ?B) ! 1 = ident" by (simp add: msg_header_def nth_append)
  moreover have "hdr t' = hdr ?t" using d(2) ft(5) by simp
  ultimately show ?thesis using that [OF g cr _ p d(4) h vk pl n2(2) h [OF n2(1)] again] by blast
qed

text \<open>Without encrypted attributes and MAC, a message is generated without keys.\<close>

lemma encode_attrs_plain:
  "list_all (\<lambda>a. \<not> is_encr a) as \<Longrightarrow> encode_attrs as out enc = Inr (out', enc') \<Longrightarrow> enc' = enc"
proof (induction as arbitrary: out)
  case (Cons a as)
  obtain ty d where a: "a = (ty, d)" by (cases a)
  with Cons.prems have "to_encr ty d \<noteq> Inr True" by (simp add: is_encr_def)
  with Cons.prems(2) a obtain o1 where "encode_attrs as o1 enc = Inr (out', enc')"
    by (auto elim!: andThen_InrE split: if_split_asm)
  with Cons.IH Cons.prems(1) show ?case by simp
qed simp

lemma generate_plain:
  assumes "list_all (\<lambda>a. \<not> is_encr a) (attributes m)" and "\<not> wants_mac (get_subtype m)"
  shows "generate C out_buf encr_buf sigdata m = generate C' out_buf encr_buf sigdata m"
proof (cases "emit (take 8 (hdr m)) 8 \<lparr>mem = out_buf, pos = 0\<rparr>")
  case (Inr o0)
  show ?thesis
  proof (cases "encode_attrs (attributes m) o0 \<lparr>mem = encr_buf, pos = 0\<rparr>")
    case e: (Inr x)
    then have "pos (snd x) = 0" using encode_attrs_plain [OF assms(1), of o0 "\<lparr>mem = encr_buf, pos = 0\<rparr>" "fst x" "snd x"] by simp
    then show ?thesis using Inr e assms(2)
      by (cases x) (simp add: generate_def finish_def reserve_mac_def)
  qed (simp add: generate_def Inr)
qed (simp add: generate_def)

section \<open>Well-framed and malformed attributes\<close>

text \<open>
  Attributes that are framed as the length octets say: no length is zero, no attribute is cut
  off, and an actual length leaves room for the header.
\<close>

definition has_actual_length :: "byte \<Rightarrow> bool" where
  "has_actual_length ty \<longleftrightarrow> ty \<in> {AT_NEXT_PSEUDONYM, AT_NEXT_REAUTH_ID, AT_RES, AT_IDENTITY, AT_VERSION_LIST}"

definition frame_ok :: "chunk \<Rightarrow> bool" where
  "frame_ok inp \<longleftrightarrow> 4 \<le> length inp \<and> 1 \<le> unat (inp ! 1) \<and> 4 * unat (inp ! 1) \<le> length inp
     \<and> (has_actual_length (inp ! 0) \<longrightarrow>
          (let len = unat (be_word (take 2 (drop 2 inp)) :: 16 word) in
           (if inp ! 0 = AT_RES then len div 8 else len) + 4 \<le> 4 * unat (inp ! 1)))"

function framed :: "chunk \<Rightarrow> bool" where
  "framed inp \<longleftrightarrow> inp = [] \<or> (if frame_ok inp then framed (drop (4 * unat (inp ! 1)) inp) else False)"
  by auto
termination
  by (relation "measure length") (auto simp: frame_ok_def)

declare framed.simps [simp del]

lemma unat_word_diff: "d \<le> n \<Longrightarrow> n < 2 ^ 64 \<Longrightarrow> unat (of_nat n - of_nat d :: 64 word) = n - d"
  by (simp add: unat_of_nat take_bit_nat_eq_self flip: of_nat_diff)

lemma unat_small_64: "n < 2 ^ 64 \<Longrightarrow> unat (of_nat n :: 64 word) = n"
  by (simp add: unat_of_nat take_bit_nat_eq_self)

lemma parse_attr_bounds:
  assumes f: "frame_ok inp" and p: "parse_attr e inp = Some (off, len, skp)"
  shows "skp = 4 * unat (inp ! 1)" and "off + unat len \<le> length inp"
proof -
  let ?l = "unat (inp ! 1)"
  have l: "?l < 256" by (rule unat_byte_less)
  have l4: "1 \<le> ?l" "4 * ?l \<le> length inp" using f by (simp_all add: frame_ok_def)
  have u: "unat (of_nat (?l * 4) - 4 :: 64 word) = ?l * 4 - 4" "unat (of_nat (?l * 4) - 2 :: 64 word) = ?l * 4 - 2"
    using unat_word_diff [of 4 "?l * 4"] unat_word_diff [of 2 "?l * 4"] l l4 by simp_all
  have "skp = 4 * ?l \<and> off + unat len \<le> length inp"
  proof (cases "has_actual_length (inp ! 0)")
    case True
    let ?n = "unat (be_word (take 2 (drop 2 inp)) :: 16 word)"
    let ?m = "if inp ! 0 = AT_RES then ?n div 8 else ?n"
    have m: "?m + 4 \<le> 4 * ?l" using f True by (simp add: frame_ok_def Let_def)
    have "parse_attr e inp = None \<or> parse_attr e inp = Some (4, of_nat ?m, ?l * 4)"
      using True unfolding has_actual_length_def parse_attr_def Let_def
      by (elim insertE emptyE; simp add: at_defs needs_encryption_def)
    then show ?thesis using p m l l4 unat_small_64 [of ?m] by auto
  next
    case False
    then show ?thesis using p l4 u unfolding parse_attr_def Let_def has_actual_length_def
      by (auto split: if_split_asm)
  qed
  then show "skp = 4 * ?l" "off + unat len \<le> length inp" by simp_all
qed

lemma handle_attr_safe: "off + unat len \<le> length inp \<Longrightarrow> \<exists>r. handle_attr q inp off len t = Inr r"
  by (auto simp: handle_attr_def Let_def)

lemma parse_loop_safe: "framed inp \<Longrightarrow> \<exists>r. parse_loop q inp t = Some (Inr r)"
proof (induction inp arbitrary: q t rule: framed.induct)
  case (1 inp)
  show ?case
  proof (cases "inp = []")
    case False
    then have f: "frame_ok inp" "framed (drop (4 * unat (inp ! 1)) inp)"
      using "1.prems" by (subst (asm) framed.simps, simp split: if_split_asm)+
    note IH = "1.IH" [OF f]
    have "2 \<le> length inp" using f(1) by (simp add: frame_ok_def)
    show ?thesis
    proof (cases "parse_attr (encrypted t) inp")
      case None
      then show ?thesis using False \<open>2 \<le> length inp\<close> by (subst parse_loop.simps) auto
    next
      case (Some x)
      obtain off len skp where x: "x = (off, len, skp)" by (cases x) auto
      note b = parse_attr_bounds [OF f(1) Some [unfolded x]]
      obtain h where h: "handle_attr q inp off len t = Inr h" using handle_attr_safe [OF b(2)] by blast
      show ?thesis using False \<open>2 \<le> length inp\<close> Some x h IH b(1)
        by (subst parse_loop.simps) (auto split: option.split)
    qed
  qed auto
qed

text \<open>An attribute of length zero that is not copied is met again and again.\<close>

lemma parse_loop_stuck:
  assumes "inp ! 0 \<in> {AT_PADDING, AT_ENCR_DATA}" and "inp ! 1 = 0" and "4 \<le> length inp"
  shows "parse_loop q inp t = None"
proof -
  have h: "handle_attr q inp off len t = Inr (Some (if inp ! 0 = AT_PADDING then t else
      t\<lparr>encr := Some \<lparr>in_plain = encrypted t, at_pos = q + off, contents = take (unat len) (drop off inp)\<rparr>\<rparr>))" for q off len t
    using assms(1) by (auto simp: handle_attr_def at_defs Let_def)
  have p: "\<exists>off len. parse_attr e inp = Some (off, len, 0)" for e
    using assms by (auto simp: parse_attr_def at_defs needs_encryption_def)
  have "inp' \<noteq> inp" if "parse_loop q inp' t = Some r" for q inp' t r
  proof (rule parse_loop.raw_induct [where P = "\<lambda>q inp' t r. inp' \<noteq> inp", OF _ that])
    fix f q inp' t r
    assume IH: "\<And>q i t r. f q i t = Some r \<Longrightarrow> i \<noteq> inp"
      and st: "(if inp' = [] then Some (Inr (True, t))
        else if length inp' < 2 then Some (Inr (False, t))
        else case parse_attr (encrypted t) inp' of None \<Rightarrow> Some (Inr (False, t))
          | Some (off, len, skp) \<Rightarrow> (case handle_attr q inp' off len t of Inl e \<Rightarrow> Some (Inl e)
              | Inr None \<Rightarrow> Some (Inr (False, t))
              | Inr (Some t1) \<Rightarrow> f (q + skp) (drop skp inp') t1)) = Some r"
    obtain off len where "parse_attr (encrypted t) inp = Some (off, len, 0)" using p by blast
    moreover have "f q inp t \<noteq> Some r" for q t r using IH by blast
    ultimately show "inp' \<noteq> inp" using st assms(3) h by (auto split: if_split_asm)
  qed
  then show ?thesis by (cases "parse_loop q inp t") auto
qed

section \<open>Properties\<close>

text \<open>
  C19. What \<open>generate\<close> writes is read back: for every message whose attributes have the sizes their
  types prescribe and that fits the buffers on the stack, \<open>generate\<close> succeeds without a write
  outside them, the peer accepts the bytes as a message with the same code, identifier and
  subtype, parsing and decrypting it gives the same attributes (the encrypted ones behind the
  others), and the MAC of those messages that carry one verifies.
\<close>

theorem simaka_round_trip:
  assumes C: "crypto_laws C" and ty: "ty \<in> {EAP_SIM, EAP_AKA}" and as: "list_all attr_ok as"
    and e512: "length (encr_part as) < 512" and size: "message_size st as \<le> 1024"
    and buf: "length out_buf = 1024" "length encr_buf = 512"
    and m: "simaka_message_create req ident ty st = Some m"
  shows "\<exists>bs m1 m2. generate C out_buf encr_buf sigdata (foldl (\<lambda>m (t, d). add_attribute t d m) m as) = Inr (Some bs)
    \<and> simaka_message_create_from_payload bs = Some m1 \<and> parse C m1 = Inr (True, m2)
    \<and> attributes m2 = filter (\<lambda>a. \<not> is_encr a) as @ filter is_encr as
    \<and> is_request m2 = req \<and> get_identifier m2 = ident \<and> get_subtype m2 = st
    \<and> (wants_mac st \<longrightarrow> (\<exists>m3. verify C sigdata m2 = Inr (True, m3)))"
  by (rule delivery [OF C ty as e512 size buf m, of sigdata]) (auto simp: same_head_def)

text \<open>
  C32. Parsing is safe on attributes that are framed as their length octets say: whatever their
  types and contents, the parser stops, without reading outside the message.
\<close>

theorem simaka_parse_safe:
  assumes "framed inp"
  shows "\<exists>ok t'. parse_attributes q inp t = Inr (ok, t')"
  using parse_loop_safe [OF assms, of q t] by (auto simp: parse_attributes_def)

text \<open>
  C31. A message of twelve octets suffices to break the parser, before any MAC is verified: an
  AT_PADDING or AT_ENCR_DATA of length zero makes it loop for ever, an AT_RAND of length zero
  makes it copy almost the whole address space, and an AT_IDENTITY whose actual length counts
  the header makes it copy four octets from behind the message.
\<close>

theorem simaka_malformed_attributes:
  "(\<exists>m. simaka_message_create_from_payload [2, ident, 0, 12, 23, 1, 0, 0, 6, 0, x, y] = Some m \<and> parse C m = Inl Diverges)
    \<and> (\<exists>m. simaka_message_create_from_payload [2, ident, 0, 12, 23, 1, 0, 0, 130, 0, x, y] = Some m \<and> parse C m = Inl Diverges)
    \<and> (\<exists>m. simaka_message_create_from_payload [2, ident, 0, 12, 23, 1, 0, 0, 1, 0, x, y] = Some m \<and> parse C m = Inl OutOfBounds)
    \<and> (\<exists>m. simaka_message_create_from_payload [2, ident, 0, 12, 23, 5, 0, 0, 14, 1, 0, 4] = Some m \<and> parse C m = Inl OutOfBounds)"
proof -
  have c: "simaka_message_create_from_payload [2, ident, 0, 12, 23, st, 0, 0, a, b, x, y]
      = Some (fresh_message [2, ident, 0, 12, 23, st, 0, 0, a, b, x, y])" for st a b x y
    by (simp add: simaka_message_create_from_payload_def fresh_message_def EAP_RESPONSE_def EAP_AKA_def be_word_def)
  have p: "parse C (fresh_message [2, ident, 0, 12, 23, st, 0, 0, a, b, x, y]) = Inl e"
    if "parse_attributes 8 [a, b, x, y] (fresh_message [2, ident, 0, 12, 23, st, 0, 0, a, b, x, y]) = Inl e" for st a b x y e
    using that by (simp add: parse_def hdr_length_def fresh_message_def be_word_def)
  have d: "parse_attributes 8 [a, 0, x, y] t = Inl Diverges" if "a \<in> {AT_PADDING, AT_ENCR_DATA}" for a t
    using parse_loop_stuck [of "[a, 0, x, y]" 8 t] that by (simp add: parse_attributes_def)
  show ?thesis
  proof (intro conjI)
    show "\<exists>m. simaka_message_create_from_payload [2, ident, 0, 12, 23, 1, 0, 0, 6, 0, x, y] = Some m \<and> parse C m = Inl Diverges"
      using c p d by (simp add: at_defs)
    show "\<exists>m. simaka_message_create_from_payload [2, ident, 0, 12, 23, 1, 0, 0, 130, 0, x, y] = Some m \<and> parse C m = Inl Diverges"
      using c p d by (simp add: at_defs)
    show "\<exists>m. simaka_message_create_from_payload [2, ident, 0, 12, 23, 1, 0, 0, 1, 0, x, y] = Some m \<and> parse C m = Inl OutOfBounds"
      using c by (auto intro!: p simp: parse_attributes_def parse_loop.simps parse_attr_def handle_attr_def at_defs needs_encryption_def)
    show "\<exists>m. simaka_message_create_from_payload [2, ident, 0, 12, 23, 5, 0, 0, 14, 1, 0, 4] = Some m \<and> parse C m = Inl OutOfBounds"
      using c by (auto intro!: p simp: parse_attributes_def parse_loop.simps parse_attr_def handle_attr_def at_defs needs_encryption_def be_word_def)
  qed
qed

section \<open>A concrete cipher and signature\<close>

text \<open>A cipher that does nothing and a constant signature satisfy the laws.\<close>

definition sample_crypto :: simaka_crypto where
  "sample_crypto = \<lparr>get_crypter = Some \<lparr>cr_block_size = 16, cr_iv_size = 16, cr_encrypt = (\<lambda>d i. Some d), cr_decrypt = (\<lambda>d i. Some d)\<rparr>,
     get_signer = Some \<lparr>sg_block_size = 16, sg_get_signature = (\<lambda>d. Some (replicate 16 7)), sg_verify_signature = (\<lambda>d m. m = replicate 16 7)\<rparr>,
     get_rng = (\<lambda>n. Some (replicate n 9))\<rparr>"

lemma sample_crypto_laws: "crypto_laws sample_crypto"
  by (simp add: crypto_laws_def crypter_laws_def signer_laws_def sample_crypto_def)

text \<open>A challenge: RAND, AUTN and, encrypted, an identity for fast re-authentication.\<close>

definition sample_attrs :: "attr list" where
  "sample_attrs = [(AT_RAND, replicate 16 1), (AT_NEXT_REAUTH_ID, [97, 98, 99]), (AT_AUTN, replicate 16 2)]"

theorem simaka_round_trip_witness:
  "\<exists>m bs m1 m2. simaka_message_create True 5 EAP_AKA AKA_CHALLENGE = Some m
    \<and> generate sample_crypto (replicate 1024 0) (replicate 512 0) [] (foldl (\<lambda>m (t, d). add_attribute t d m) m sample_attrs) = Inr (Some bs)
    \<and> simaka_message_create_from_payload bs = Some m1 \<and> parse sample_crypto m1 = Inr (True, m2)
    \<and> attributes m2 = [(AT_RAND, replicate 16 1), (AT_AUTN, replicate 16 2), (AT_NEXT_REAUTH_ID, [97, 98, 99])]
    \<and> (\<exists>m3. verify sample_crypto [] m2 = Inr (True, m3))"
proof -
  have ok: "list_all attr_ok sample_attrs" by (simp add: sample_attrs_def attr_ok_def at_defs)
  have f: "filter is_encr sample_attrs = [(AT_NEXT_REAUTH_ID, [97, 98, 99])]"
    "filter (\<lambda>a. \<not> is_encr a) sample_attrs = [(AT_RAND, replicate 16 1), (AT_AUTN, replicate 16 2)]"
    by (simp_all add: sample_attrs_def is_encr_def to_encr_def at_defs)
  have e: "length (encr_part sample_attrs) = 8" "length (plain_part sample_attrs) = 40"
    by (simp_all add: encr_part_def plain_part_def f enc_attr_def encode_attr_def at_defs)
  have w: "wants_mac AKA_CHALLENGE" by (simp add: wants_mac_def)
  obtain m where m: "simaka_message_create True 5 EAP_AKA AKA_CHALLENGE = Some m"
    by (simp add: simaka_message_create_def simaka_message_create_from_payload_def EAP_REQUEST_def EAP_AKA_def be_word_be_bytes_full
        nth_append)
  have s: "message_size AKA_CHALLENGE sample_attrs \<le> 1024" using e w by (simp add: message_size_def padding_for_def)
  show ?thesis
    using simaka_round_trip [OF sample_crypto_laws _ ok _ s _ _ m, of "replicate 1024 0" "replicate 512 0" "[]"] m e(1) w f by auto
qed

theorem simaka_parse_safe_witness:
  "\<exists>ok t'. parse_attributes 8 ([AT_IDENTITY, 2, 0, 3, 97, 98, 99, 0] @ [200, 1, 0, 0]) (fresh_message []) = Inr (ok, t')"
  by (rule simaka_parse_safe) (simp add: framed.simps frame_ok_def has_actual_length_def at_defs be_word_def)

end
