(* ===== verification/Simaka_Crypto.thy ===== *)
theory Simaka_Crypto
  imports Simaka_Message
begin

text \<open>
  Key derivation of EAP-AKA, \<open>libsimaka/simaka_crypto.c\<close>.  SHA-1, the FIPS 186-2 generator,
  HMAC-SHA1-128 and AES-CBC-128 are parameters (\<open>aka_algs\<close>): the hash of a sequence, the i-th
  block the generator gives after its key was set, and the signer and crypter for a key.  A
  result \<open>None\<close> is a failed call.
\<close>

record aka_algs =
  al_sha1 :: "chunk \<Rightarrow> chunk option"
  al_prf_key :: "chunk \<Rightarrow> bool"
  al_prf :: "chunk \<Rightarrow> nat \<Rightarrow> chunk option"
  al_signer :: "chunk \<Rightarrow> signer option"
  al_crypter :: "chunk \<Rightarrow> crypter option"

record aka_crypto =
  derived :: bool
  k_encr :: chunk
  k_auth :: chunk

definition aka_crypto_create :: aka_crypto where
  "aka_crypto_create = \<lparr>derived = False, k_encr = [], k_auth = []\<rparr>"

text \<open>What the message functions see of it: signer and crypter once keys were derived.\<close>

definition as_crypto :: "aka_algs \<Rightarrow> (nat \<Rightarrow> chunk option) \<Rightarrow> aka_crypto \<Rightarrow> simaka_crypto" where
  "as_crypto A rnd this =
     \<lparr>get_crypter = (if derived this then al_crypter A (k_encr this) else None),
      get_signer = (if derived this then al_signer A (k_auth this) else None),
      get_rng = rnd\<rparr>"

fun prf_blocks :: "aka_algs \<Rightarrow> chunk \<Rightarrow> nat \<Rightarrow> chunk option" where
  "prf_blocks A key 0 = Some []"
| "prf_blocks A key (Suc n) =
     (case (prf_blocks A key n, al_prf A key n) of (Some bs, Some b) \<Rightarrow> Some (bs @ b) | _ \<Rightarrow> None)"

definition set_keys :: "aka_algs \<Rightarrow> chunk \<Rightarrow> chunk \<Rightarrow> aka_crypto \<Rightarrow> bool \<times> aka_crypto" where
  "set_keys A e a this =
     (if al_signer A a = None then (False, this)
      else if al_crypter A e = None then (False, this\<lparr>k_auth := a\<rparr>)
      else (True, this\<lparr>k_auth := a, k_encr := e\<rparr>))"

definition derive_keys_full :: "aka_algs \<Rightarrow> chunk \<Rightarrow> chunk \<Rightarrow> aka_crypto \<Rightarrow> ((chunk \<times> chunk) option \<times> aka_crypto) res" where
  "derive_keys_full A i data this =
     (case al_sha1 A (i @ data) of
        None \<Rightarrow> Inr (None, this)
      | Some mk \<Rightarrow>
          if \<not> al_prf_key A mk then Inr (None, this)
          else
            (case prf_blocks A mk 3 of
               None \<Rightarrow> Inr (None, this)
             | Some str \<Rightarrow>
                 if length str < 96 then Inl OutOfBounds
                 else
                   let (ok, t) = set_keys A (take 16 str) (take 16 (drop 16 str)) this in
                   if \<not> ok then Inr (None, t)
                   else Inr (Some (mk, take 64 (drop 32 str)), t\<lparr>derived := True\<rparr>)))"

definition derive_keys_reauth :: "aka_algs \<Rightarrow> chunk \<Rightarrow> aka_crypto \<Rightarrow> (bool \<times> aka_crypto) res" where
  "derive_keys_reauth A mk this =
     (if \<not> al_prf_key A mk then Inr (False, this)
      else
        (case prf_blocks A mk 2 of
           None \<Rightarrow> Inr (False, this)
         | Some str \<Rightarrow>
             if length str < 32 then Inl OutOfBounds
             else
               let (ok, t) = set_keys A (take 16 str) (take 16 (drop 16 str)) this in
               if \<not> ok then Inr (False, t) else Inr (True, t\<lparr>derived := True\<rparr>)))"

definition derive_keys_reauth_msk :: "aka_algs \<Rightarrow> chunk \<Rightarrow> chunk \<Rightarrow> chunk \<Rightarrow> chunk \<Rightarrow> chunk option res" where
  "derive_keys_reauth_msk A i counter nonce_s mk =
     (case al_sha1 A (i @ counter @ nonce_s @ mk) of
        None \<Rightarrow> Inr None
      | Some xkey \<Rightarrow>
          if \<not> al_prf_key A xkey then Inr None
          else
            (case prf_blocks A xkey 2 of
               None \<Rightarrow> Inr None
             | Some str \<Rightarrow> if length str < 64 then Inl OutOfBounds else Inr (Some (take 64 str))))"

definition clear_keys :: "aka_crypto \<Rightarrow> aka_crypto" where
  "clear_keys this = this\<lparr>derived := False\<rparr>"

text \<open>The keys of a vector, as the derivation gives them.\<close>

definition vector_keys :: "aka_algs \<Rightarrow> chunk \<Rightarrow> chunk \<Rightarrow> (chunk \<times> chunk \<times> chunk \<times> chunk) option" where
  "vector_keys A i data =
     (case al_sha1 A (i @ data) of
        None \<Rightarrow> None
      | Some mk \<Rightarrow> (case prf_blocks A mk 3 of
          None \<Rightarrow> None
        | Some str \<Rightarrow> Some (mk, take 16 str, take 16 (drop 16 str), take 64 (drop 32 str))))"

lemma derive_keys_full_keys:
  assumes "derive_keys_full A i data this = Inr (Some (mk, msk), t)"
  shows "derived t \<and> vector_keys A i data = Some (mk, k_encr t, k_auth t, msk)"
  using assms
  by (auto simp: derive_keys_full_def vector_keys_def set_keys_def Let_def split: option.split_asm if_split_asm)

end
