(* ===== verification/Eap_Aka.thy ===== *)
theory Eap_Aka
  imports Simaka_Crypto Simaka_Manager
begin

text \<open>
  What the two sides of EAP-AKA share: the environment \<open>E\<close> of one call (random numbers, what
  the buffers on the stack hold, how a received identity is turned into an identification,
  which is given by its encoding), the function that generates a payload, and the loops over
  the attributes of a received message.
\<close>

section \<open>Environment\<close>

datatype status = SUCCESS | FAILED | NEED_MORE

record env =
  rnd :: "nat \<Rightarrow> chunk option"
  out_stack :: chunk
  encr_stack :: chunk
  id_from_data :: "chunk \<Rightarrow> chunk"

section \<open>Payloads\<close>

text \<open>A message of the given subtype with the given attributes, under the current keys.\<close>

definition generate_payload ::
  "aka_algs \<Rightarrow> env \<Rightarrow> aka_crypto \<Rightarrow> bool \<Rightarrow> byte \<Rightarrow> byte \<Rightarrow> attr list \<Rightarrow> chunk \<Rightarrow> chunk option res" where
  "generate_payload A E cr request ident subtype attrs sigdata =
     (case simaka_message_create request ident EAP_AKA subtype of
        None \<Rightarrow> Inl NullDeref
      | Some message \<Rightarrow>
          generate (as_crypto A (rnd E) cr) (out_stack E) (encr_stack E) sigdata
            (foldl (\<lambda>m (t, d). add_attribute t d m) message attrs))"

definition opt_attr :: "byte \<Rightarrow> chunk option \<Rightarrow> attr list" where
  "opt_attr ty x = (case x of None \<Rightarrow> [] | Some d \<Rightarrow> [(ty, d)])"

text \<open>
  The loop over the attributes of a message: \<open>None\<close> if there is one that is not in \<open>tys\<close> and may
  not be skipped, otherwise the attributes in \<open>tys\<close>.
\<close>

fun scan_attrs :: "byte list \<Rightarrow> attr list \<Rightarrow> attr list option" where
  "scan_attrs tys [] = Some []"
| "scan_attrs tys ((ty, d) # as) =
     (if ty \<in> set tys then map_option ((#) (ty, d)) (scan_attrs tys as)
      else if simaka_attribute_skippable ty then scan_attrs tys as
      else None)"

text \<open>The value a variable that is overwritten by each occurrence holds after the loop.\<close>

definition last_attr :: "byte \<Rightarrow> attr list \<Rightarrow> chunk option" where
  "last_attr ty as = map_of (rev as) ty"

text \<open>\<open>chunk_equals_const\<close>: a chunk that is empty after cloning is NULL and equal to nothing.\<close>

definition chunk_equals_const :: "chunk option \<Rightarrow> chunk \<Rightarrow> bool" where
  "chunk_equals_const a b \<longleftrightarrow> b \<noteq> [] \<and> a = Some b"

section \<open>Lemmas\<close>

lemma subtype_distinct [simp]:
  "AKA_IDENTITY \<noteq> AKA_CHALLENGE" "AKA_CHALLENGE \<noteq> AKA_IDENTITY" "SIM_REAUTHENTICATION \<noteq> AKA_IDENTITY"
  "AKA_IDENTITY \<noteq> SIM_REAUTHENTICATION" "SIM_REAUTHENTICATION \<noteq> AKA_CHALLENGE" "AKA_CHALLENGE \<noteq> SIM_REAUTHENTICATION"
  by (simp_all add: subtype_defs)

lemma scan_attrs_subset: "scan_attrs tys as = Some bs \<Longrightarrow> set bs \<subseteq> set as"
proof (induction as arbitrary: bs)
  case (Cons a as)
  then show ?case by (cases a) (fastforce split: if_split_asm option.split_asm)
qed simp

lemma last_attr_scanned:
  assumes "scan_attrs tys as = Some bs" "last_attr ty bs = Some d"
  shows "(ty, d) \<in> set as"
  using scan_attrs_subset [OF assms(1)] assms(2) by (auto simp: last_attr_def dest!: map_of_SomeD)

end
