(* ===== verification/Eap_Aka_Server.thy ===== *)
theory Eap_Aka_Server
  imports Eap_Aka Transition
begin

text \<open>
  The server side of EAP-AKA, \<open>libcharon/plugins/eap_aka/eap_aka_server.c\<close>: identity request,
  challenge, fast re-authentication and resynchronisation.  Besides algorithms and environment,
  the operations take the manager \<open>mgr\<close> with the state \<open>w\<close> behind its providers.  An operation
  answers its status, the payload to send and the new state.
\<close>

section \<open>State\<close>

record eap_aka_server =
  crypto :: aka_crypto
  permanent :: chunk
  pseudonym :: "chunk option"
  reauth :: "chunk option"
  eap_identifier :: byte
  xres :: chunk
  rand :: "chunk option"
  msk :: "chunk option"
  nonce :: chunk
  counter :: chunk
  use_reauth :: bool
  use_pseudonym :: bool
  use_permanent :: bool
  pending :: byte
  synchronized :: bool
  auth :: "chunk list"

type_synonym reply = "status \<times> chunk option \<times> eap_aka_server"

definition eap_aka_server_create :: "chunk \<Rightarrow> bool \<Rightarrow> byte \<Rightarrow> eap_aka_server" where
  "eap_aka_server_create peer request_identity ident =
     \<lparr>crypto = aka_crypto_create, permanent = peer, pseudonym = None, reauth = None, eap_identifier = ident,
      xres = [], rand = None, msk = None, nonce = [], counter = [], use_reauth = request_identity,
      use_pseudonym = request_identity, use_permanent = request_identity, pending = 0, synchronized = False, auth = []\<rparr>"

definition set_identifier :: "byte \<Rightarrow> eap_aka_server \<Rightarrow> eap_aka_server" where
  "set_identifier ident this = this\<lparr>eap_identifier := ident\<rparr>"

definition get_auth :: "eap_aka_server \<Rightarrow> chunk list" where
  "get_auth this = auth this"

definition get_msk :: "eap_aka_server \<Rightarrow> chunk option" where
  "get_msk this = msk this"

section \<open>Requests\<close>

definition send_request ::
  "aka_algs \<Rightarrow> env \<Rightarrow> byte \<Rightarrow> attr list \<Rightarrow> eap_aka_server \<Rightarrow> reply res" where
  "send_request A E subtype attrs this =
     (let t = this\<lparr>eap_identifier := eap_identifier this + 1\<rparr> in
      andThen (generate_payload A E (crypto this) True (eap_identifier this) subtype attrs []) (\<lambda>out.
        case out of None \<Rightarrow> Inr (FAILED, None, t)
        | Some p \<Rightarrow> Inr (NEED_MORE, Some p, t\<lparr>pending := subtype\<rparr>)))"

definition identity :: "aka_algs \<Rightarrow> env \<Rightarrow> eap_aka_server \<Rightarrow> reply res" where
  "identity A E this =
     send_request A E AKA_IDENTITY
       (if use_reauth this then [(AT_ANY_ID_REQ, [])]
        else if use_pseudonym this then [(AT_FULLAUTH_ID_REQ, [])]
        else if use_permanent this then [(AT_PERMANENT_ID_REQ, [])]
        else []) this"

definition challenge ::
  "aka_algs \<Rightarrow> env \<Rightarrow> 'w simaka_manager \<Rightarrow> eap_aka_server \<Rightarrow> 'w \<Rightarrow> (reply \<times> 'w) res" where
  "challenge A E mgr this w =
     andThen (provider_get_quintuplet mgr (permanent this) w) (\<lambda>(r, w1).
       case r of
         None \<Rightarrow>
           if use_pseudonym this then
             andThen (identity A E (this\<lparr>use_pseudonym := False, pseudonym := None\<rparr>)) (\<lambda>x. Inr (x, w1))
           else Inr ((FAILED, None, this), w1)
       | Some q \<Rightarrow>
           let i = (case pseudonym this of None \<Rightarrow> permanent this | Some p \<Rightarrow> p) in
           andThen (derive_keys_full A i (q_ik q @ q_ck q) (crypto this)) (\<lambda>(k, cr).
             case k of
               None \<Rightarrow> Inr ((FAILED, None, this\<lparr>msk := None, crypto := cr\<rparr>), w1)
             | Some (mk, ms) \<Rightarrow>
                 let t = this\<lparr>msk := Some ms, crypto := cr, rand := Some (q_rand q), xres := q_xres q\<rparr> in
                 andThen (provider_gen_reauth mgr (permanent this) mk w1) (\<lambda>(re, w2).
                 andThen (provider_gen_pseudonym mgr (permanent this) w2) (\<lambda>(ps, w3).
                 andThen (send_request A E AKA_CHALLENGE
                     ([(AT_RAND, q_rand q), (AT_AUTN, q_autn q)] @ opt_attr AT_NEXT_REAUTH_ID re @ opt_attr AT_NEXT_PSEUDONYM ps) t)
                   (\<lambda>x. Inr (x, w3))))))"

definition reauthenticate ::
  "aka_algs \<Rightarrow> env \<Rightarrow> 'w simaka_manager \<Rightarrow> chunk \<Rightarrow> 16 word \<Rightarrow> eap_aka_server \<Rightarrow> 'w \<Rightarrow> (reply \<times> 'w) res" where
  "reauthenticate A E mgr mk cnt this w =
     (case rnd E 16 of
        None \<Rightarrow> Inr ((FAILED, None, this), w)
      | Some n \<Rightarrow>
          let c = be_bytes 2 cnt; t = this\<lparr>nonce := n, counter := c\<rparr> in
          andThen (derive_keys_reauth A mk (crypto this)) (\<lambda>(ok, cr).
            let t1 = t\<lparr>crypto := cr\<rparr> in
            if \<not> ok then Inr ((FAILED, None, t1), w)
            else
              andThen (derive_keys_reauth_msk A (case reauth this of None \<Rightarrow> [] | Some i \<Rightarrow> i) c n mk) (\<lambda>k.
                case k of
                  None \<Rightarrow> Inr ((FAILED, None, t1), w)
                | Some ms \<Rightarrow>
                    andThen (provider_gen_reauth mgr (permanent this) mk w) (\<lambda>(nx, w1).
                    andThen (send_request A E SIM_REAUTHENTICATION
                        ([(AT_COUNTER, c), (AT_NONCE_S, n)] @ opt_attr AT_NEXT_REAUTH_ID nx) (t1\<lparr>msk := Some ms\<rparr>))
                      (\<lambda>x. Inr (x, w1))))))"

definition initiate ::
  "aka_algs \<Rightarrow> env \<Rightarrow> 'w simaka_manager \<Rightarrow> eap_aka_server \<Rightarrow> 'w \<Rightarrow> (reply \<times> 'w) res" where
  "initiate A E mgr this w =
     (if use_permanent this \<or> use_pseudonym this \<or> use_reauth this then
        andThen (identity A E this) (\<lambda>x. Inr (x, w))
      else challenge A E mgr this w)"

section \<open>Responses\<close>

definition failed :: "eap_aka_server \<Rightarrow> 'w \<Rightarrow> (reply \<times> 'w) res" where
  "failed this w = Inr ((FAILED, None, this), w)"

definition process_identity ::
  "aka_algs \<Rightarrow> env \<Rightarrow> 'w simaka_manager \<Rightarrow> simaka_message \<Rightarrow> eap_aka_server \<Rightarrow> 'w \<Rightarrow> (reply \<times> 'w) res" where
  "process_identity A E mgr inm this w =
     (if pending this \<noteq> AKA_IDENTITY then failed this w
      else
        (case scan_attrs [AT_IDENTITY] (attributes inm) of
           None \<Rightarrow> failed this w
         | Some as \<Rightarrow>
     (case last_attr AT_IDENTITY as of
        None \<Rightarrow> failed this w
      | Some [] \<Rightarrow> failed this w
      | Some data \<Rightarrow>
          let i = id_from_data E data in
          andThen (if use_reauth this then provider_is_reauth mgr i w else Inr (None, w)) (\<lambda>(r, w1).
            case r of
              Some (perm, mk, cnt) \<Rightarrow> reauthenticate A E mgr mk cnt (this\<lparr>permanent := perm, reauth := Some i\<rparr>) w1
            | None \<Rightarrow>
                let t = this\<lparr>use_reauth := False\<rparr> in
                andThen (if use_pseudonym t then provider_is_pseudonym mgr i w1 else Inr (None, w1)) (\<lambda>(p, w2).
                  let t1 = (case p of None \<Rightarrow> t | Some perm \<Rightarrow> t\<lparr>permanent := perm, pseudonym := Some i, use_permanent := False\<rparr>);
                      t2 = (if pseudonym t1 = None \<and> use_permanent t1 then t1\<lparr>permanent := i\<rparr> else t1) in
                  challenge A E mgr t2 w2)))))"

definition process_challenge ::
  "aka_algs \<Rightarrow> env \<Rightarrow> simaka_message \<Rightarrow> eap_aka_server \<Rightarrow> 'w \<Rightarrow> (reply \<times> 'w) res" where
  "process_challenge A E inm this w =
     (if pending this \<noteq> AKA_CHALLENGE then failed this w
      else
        andThen (verify (as_crypto A (rnd E) (crypto this)) [] inm) (\<lambda>(ok, m).
          if \<not> ok then failed this w
          else
            (case scan_attrs [AT_RES] (attributes m) of
               None \<Rightarrow> failed this w
             | Some as \<Rightarrow>
                 if \<not> chunk_equals_const (last_attr AT_RES as) (xres this) then failed this w
                 else Inr ((SUCCESS, None, this\<lparr>auth := auth this @ [permanent this]\<rparr>), w))))"

definition process_reauthentication ::
  "aka_algs \<Rightarrow> env \<Rightarrow> 'w simaka_manager \<Rightarrow> simaka_message \<Rightarrow> eap_aka_server \<Rightarrow> 'w \<Rightarrow> (reply \<times> 'w) res" where
  "process_reauthentication A E mgr inm this w =
     (if pending this \<noteq> SIM_REAUTHENTICATION then failed this w
      else
        andThen (verify (as_crypto A (rnd E) (crypto this)) (nonce this) inm) (\<lambda>(ok, m).
          if \<not> ok then failed this w
          else
            (case scan_attrs [AT_COUNTER, AT_COUNTER_TOO_SMALL] (attributes m) of
               None \<Rightarrow> failed this w
             | Some as \<Rightarrow>
                 if last_attr AT_COUNTER_TOO_SMALL as \<noteq> None then
                   challenge A E mgr (this\<lparr>use_reauth := False, crypto := clear_keys (crypto this)\<rparr>) w
                 else if \<not> chunk_equals_const (last_attr AT_COUNTER as) (counter this) then failed this w
                 else Inr ((SUCCESS, None, this), w))))"

definition process_synchronize ::
  "aka_algs \<Rightarrow> env \<Rightarrow> 'w simaka_manager \<Rightarrow> simaka_message \<Rightarrow> eap_aka_server \<Rightarrow> 'w \<Rightarrow> (reply \<times> 'w) res" where
  "process_synchronize A E mgr inm this w =
     (if synchronized this then failed this w
      else
        (case scan_attrs [AT_AUTS] (attributes inm) of
           None \<Rightarrow> failed this w
         | Some as \<Rightarrow>
     (case last_attr AT_AUTS as of
        None \<Rightarrow> failed this w
      | Some [] \<Rightarrow> failed this w
      | Some auts \<Rightarrow>
          andThen (provider_resync mgr (permanent this) (rand this) auts w) (\<lambda>(r, w1).
            case r of
              None \<Rightarrow> failed this w1
            | Some _ \<Rightarrow> challenge A E mgr (this\<lparr>synchronized := True\<rparr>) w1))))"

definition process_client_error :: "simaka_message \<Rightarrow> eap_aka_server \<Rightarrow> 'w \<Rightarrow> (reply \<times> 'w) res" where
  "process_client_error inm this w = failed this w"

definition process_authentication_reject :: "simaka_message \<Rightarrow> eap_aka_server \<Rightarrow> 'w \<Rightarrow> (reply \<times> 'w) res" where
  "process_authentication_reject inm this w = failed this w"

definition process ::
  "aka_algs \<Rightarrow> env \<Rightarrow> 'w simaka_manager \<Rightarrow> chunk \<Rightarrow> eap_aka_server \<Rightarrow> 'w \<Rightarrow> (reply \<times> 'w) res" where
  "process A E mgr data this w =
     (case simaka_message_create_from_payload data of
        None \<Rightarrow> failed this w
      | Some message \<Rightarrow>
          andThen (parse (as_crypto A (rnd E) (crypto this)) message) (\<lambda>(ok, m).
            if \<not> ok then failed this w
            else
              let st = get_subtype m in
              if st = AKA_IDENTITY then process_identity A E mgr m this w
              else if st = AKA_CHALLENGE then process_challenge A E m this w
              else if st = SIM_REAUTHENTICATION then process_reauthentication A E mgr m this w
              else if st = AKA_SYNCHRONIZATION_FAILURE then process_synchronize A E mgr m this w
              else if st = SIM_CLIENT_ERROR then process_client_error m this w
              else if st = AKA_AUTHENTICATION_REJECT then process_authentication_reject m this w
              else failed this w))"

section \<open>Every conversation ends\<close>

text \<open>
  One round: a response is processed and answered by another request.  The environment of the
  call and the response are arbitrary.
\<close>

inductive aka_round :: "aka_algs \<Rightarrow> 'w simaka_manager \<Rightarrow> eap_aka_server \<times> 'w \<Rightarrow> eap_aka_server \<times> 'w \<Rightarrow> bool"
  for A :: aka_algs and mgr :: "'w simaka_manager" where
  "process A E mgr data s w = Inr ((NEED_MORE, Some out, s'), w') \<Longrightarrow> aka_round A mgr (s, w) (s', w')"

inductive_cases aka_roundE: "aka_round A mgr x y"

text \<open>How many more responses can be answered with a request.\<close>

definition aka_rank :: "eap_aka_server \<times> 'w \<Rightarrow> nat" where
  "aka_rank x = (let t = fst x; r = of_bool (use_reauth t); p = of_bool (use_pseudonym t); n = of_bool (\<not> synchronized t) in
     if pending t = AKA_IDENTITY then 1 + r + p + n
     else if pending t = SIM_REAUTHENTICATION then 1 + p + n
     else if synchronized t then 0 else if use_pseudonym t then 2 + r else 1)"

lemma send_request_result:
  assumes "send_request A E st as this = Inr (NEED_MORE, out, t)"
  shows "t = this\<lparr>eap_identifier := eap_identifier this + 1, pending := st\<rparr>"
  using assms by (auto simp: send_request_def Let_def elim!: andThen_InrE split: option.split_asm)

text \<open>What a challenge that is sent leaves behind, and what the fallback to an identity request does.\<close>

definition vector_for ::
  "aka_algs \<Rightarrow> 'w simaka_manager \<Rightarrow> eap_aka_server \<Rightarrow> quintuplet \<Rightarrow> bool" where
  "vector_for A mgr t q \<longleftrightarrow>
     (\<exists>v v'. provider_get_quintuplet mgr (permanent t) v = Inr (Some q, v')) \<and> xres t = q_xres q \<and> derived (crypto t)
     \<and> (\<exists>mk ms. vector_keys A (case pseudonym t of None \<Rightarrow> permanent t | Some p \<Rightarrow> p) (q_ik q @ q_ck q)
            = Some (mk, k_encr (crypto t), k_auth (crypto t), ms) \<and> msk t = Some ms)"

lemma challenge_result:
  assumes "challenge A E mgr this w = Inr ((NEED_MORE, out, t), w')"
  obtains (challenge) q where "pending t = AKA_CHALLENGE" "vector_for A mgr t q" "use_pseudonym t = use_pseudonym this"
      "synchronized t = synchronized this" "auth t = auth this" "use_reauth t = use_reauth this"
  | (fallback) "pending t = AKA_IDENTITY" "use_pseudonym this" "\<not> use_pseudonym t" "synchronized t = synchronized this"
      "auth t = auth this" "use_reauth t = use_reauth this"
proof -
  obtain r w1 where r: "provider_get_quintuplet mgr (permanent this) w = Inr (r, w1)"
    using assms by (auto simp: challenge_def elim!: andThen_InrE)
  show thesis
  proof (cases r)
    case None
    then show thesis using assms r fallback
      by (auto simp: challenge_def identity_def elim!: andThen_InrE dest!: send_request_result split: if_split_asm)
  next
    case (Some q)
    let ?i = "case pseudonym this of None \<Rightarrow> permanent this | Some p \<Rightarrow> p"
    obtain k cr where k: "derive_keys_full A ?i (q_ik q @ q_ck q) (crypto this) = Inr (k, cr)"
      using assms r Some by (auto simp: challenge_def Let_def elim!: andThen_InrE)
    then obtain mk ms where ks: "k = Some (mk, ms)" using assms r Some by (auto simp: challenge_def Let_def split: option.split_asm)
    have t: "t = this\<lparr>msk := Some ms, crypto := cr, rand := Some (q_rand q), xres := q_xres q,
        eap_identifier := eap_identifier this + 1, pending := AKA_CHALLENGE\<rparr>"
      using assms r Some k ks
      by (auto simp: challenge_def Let_def elim!: andThen_InrE dest!: send_request_result)
    have vk: "derived cr" "vector_keys A ?i (q_ik q @ q_ck q) = Some (mk, k_encr cr, k_auth cr, ms)"
      using derive_keys_full_keys [OF k [unfolded ks]] by simp_all
    have g: "provider_get_quintuplet mgr (permanent t) w = Inr (Some q, w1)" using r Some t by simp
    have i: "(case pseudonym t of None \<Rightarrow> permanent t | Some p \<Rightarrow> p) = ?i" and c: "crypto t = cr" "xres t = q_xres q" "msk t = Some ms"
      using t by (simp_all split: option.split)
    have "vector_for A mgr t q" unfolding vector_for_def i c using g vk by blast
    then show thesis using challenge [of q] t by simp
  qed
qed

text \<open>What a re-authentication request that is sent leaves behind.\<close>

definition reauth_for ::
  "aka_algs \<Rightarrow> chunk \<Rightarrow> chunk \<Rightarrow> 16 word \<Rightarrow> eap_aka_server \<Rightarrow> bool" where
  "reauth_for A i mk cnt t \<longleftrightarrow> counter t = be_bytes 2 cnt \<and> reauth t = Some i
     \<and> (\<exists>c. derive_keys_reauth A mk c = Inr (True, crypto t))
     \<and> (\<exists>ms. derive_keys_reauth_msk A i (counter t) (nonce t) mk = Inr (Some ms) \<and> msk t = Some ms)"

lemma reauthenticate_result:
  assumes "reauthenticate A E mgr mk cnt this w = Inr ((NEED_MORE, out, t), w')" and i: "reauth this = Some i"
  shows "pending t = SIM_REAUTHENTICATION" "use_pseudonym t = use_pseudonym this" "synchronized t = synchronized this"
    and "permanent t = permanent this" "auth t = auth this" "reauth_for A i mk cnt t" "use_reauth t = use_reauth this"
proof -
  obtain n where n: "rnd E 16 = Some n" using assms(1) by (auto simp: reauthenticate_def split: option.split_asm)
  obtain cr where cr: "derive_keys_reauth A mk (crypto this) = Inr (True, cr)"
    using assms(1) n by (auto simp: reauthenticate_def Let_def elim!: andThen_InrE split: if_split_asm)
  obtain ms where ms: "derive_keys_reauth_msk A i (be_bytes 2 cnt) n mk = Inr (Some ms)"
    using assms(1) n cr i by (auto simp: reauthenticate_def Let_def elim!: andThen_InrE split: option.split_asm)
  have t: "t = this\<lparr>nonce := n, counter := be_bytes 2 cnt, crypto := cr, msk := Some ms,
      eap_identifier := eap_identifier this + 1, pending := SIM_REAUTHENTICATION\<rparr>"
    using assms(1) n cr i ms by (auto simp: reauthenticate_def Let_def elim!: andThen_InrE dest!: send_request_result)
  show "pending t = SIM_REAUTHENTICATION" "use_pseudonym t = use_pseudonym this" "synchronized t = synchronized this"
    "permanent t = permanent this" "auth t = auth this" "reauth_for A i mk cnt t" "use_reauth t = use_reauth this"
    using cr ms i by (auto simp: t reauth_for_def)
qed

lemma challenge_rank:
  assumes "challenge A E mgr this w = Inr ((NEED_MORE, out, t), w')"
  shows "aka_rank (t, v) = (if synchronized this then 0 else if use_pseudonym this then 2 + of_bool (use_reauth this) else 1)
    \<or> use_pseudonym this \<and> aka_rank (t, v) = 1 + of_bool (use_reauth this) + of_bool (\<not> synchronized this)"
  using assms by (cases rule: challenge_result) (auto simp: aka_rank_def Let_def)

lemma identity_pending: "process_identity A E mgr m this w = Inr ((NEED_MORE, out, t), w') \<Longrightarrow> pending this = AKA_IDENTITY"
  by (auto simp: process_identity_def failed_def split: if_split_asm)

text \<open>The two ways an identity response is answered.\<close>

lemma process_identity_result:
  assumes "process_identity A E mgr m this w = Inr ((NEED_MORE, out, t), w')"
  obtains (reauth) i perm mk cnt v v1 this1 where "use_reauth this"
      "provider_is_reauth mgr i v = Inr (Some (perm, mk, cnt), v1)"
      "this1 = this\<lparr>permanent := perm, reauth := Some i\<rparr>" "reauthenticate A E mgr mk cnt this1 v1 = Inr ((NEED_MORE, out, t), w')"
  | (challenge) this1 v where "use_pseudonym this1 = use_pseudonym this" "synchronized this1 = synchronized this"
      "auth this1 = auth this" "\<not> use_reauth this1"
      "challenge A E mgr this1 v = Inr ((NEED_MORE, out, t), w')"
proof -
  obtain as x xs where as: "scan_attrs [AT_IDENTITY] (attributes m) = Some as" "last_attr AT_IDENTITY as = Some (x # xs)"
    "pending this = AKA_IDENTITY"
    using assms unfolding process_identity_def failed_def
    by (auto split: if_split_asm option.split_asm list.split_asm)
  define i where "i = id_from_data E (x # xs)"
  obtain rr w1 where rr: "(if use_reauth this then provider_is_reauth mgr i w else Inr (None, w)) = Inr (rr, w1)"
    and c: "(case rr of Some (perm, mk, cnt) \<Rightarrow> reauthenticate A E mgr mk cnt (this\<lparr>permanent := perm, reauth := Some i\<rparr>) w1
      | None \<Rightarrow> let t = this\<lparr>use_reauth := False\<rparr> in
          andThen (if use_pseudonym t then provider_is_pseudonym mgr i w1 else Inr (None, w1)) (\<lambda>(p, w2).
            let t1 = (case p of None \<Rightarrow> t | Some perm \<Rightarrow> t\<lparr>permanent := perm, pseudonym := Some i, use_permanent := False\<rparr>);
                t2 = (if pseudonym t1 = None \<and> use_permanent t1 then t1\<lparr>permanent := i\<rparr> else t1) in
            challenge A E mgr t2 w2)) = Inr ((NEED_MORE, out, t), w')"
    using assms unfolding process_identity_def as option.case list.case i_def [symmetric]
    by (simp only: simp_thms if_False Let_def [of i]) (erule andThen_InrE, simp split: prod.split_asm)
  show thesis
  proof (cases rr)
    case None
    from c None obtain pp w2 where "challenge A E mgr (let t1 = (case pp of None \<Rightarrow> this\<lparr>use_reauth := False\<rparr>
        | Some perm \<Rightarrow> this\<lparr>use_reauth := False, permanent := perm, pseudonym := Some i, use_permanent := False\<rparr>)
      in if pseudonym t1 = None \<and> use_permanent t1 then t1\<lparr>permanent := i\<rparr> else t1) w2 = Inr ((NEED_MORE, out, t), w')"
      by (auto simp: Let_def elim!: andThen_InrE)
    then show thesis by (rule challenge [rotated 4]) (auto simp: Let_def split: option.split)
  next
    case (Some y)
    obtain perm mk cnt where y: "y = (perm, mk, cnt)" by (cases y) auto
    show thesis by (rule reauth [of i w perm mk cnt w1]) (use rr c Some y in \<open>auto split: if_split_asm\<close>)
  qed
qed

lemma process_cases:
  assumes "process A E mgr data this w = Inr ((NEED_MORE, out, t), w')"
  obtains (identity) m where "process_identity A E mgr m this w = Inr ((NEED_MORE, out, t), w')"
  | (reauth) v where "pending this = SIM_REAUTHENTICATION"
      "challenge A E mgr (this\<lparr>use_reauth := False, crypto := clear_keys (crypto this)\<rparr>) v = Inr ((NEED_MORE, out, t), w')"
  | (sync) v where "\<not> synchronized this" "challenge A E mgr (this\<lparr>synchronized := True\<rparr>) v = Inr ((NEED_MORE, out, t), w')"
proof -
  note d = process_challenge_def process_client_error_def process_authentication_reject_def failed_def
  obtain m where "process_identity A E mgr m this w = Inr ((NEED_MORE, out, t), w')
      \<or> process_reauthentication A E mgr m this w = Inr ((NEED_MORE, out, t), w')
      \<or> process_synchronize A E mgr m this w = Inr ((NEED_MORE, out, t), w')"
    using assms unfolding process_def Let_def d
    by (auto elim!: andThen_InrE split: option.split_asm if_split_asm; blast)
  then show thesis
  proof (elim disjE)
    assume "process_identity A E mgr m this w = Inr ((NEED_MORE, out, t), w')"
    then show thesis by (rule identity)
  next
    assume "process_reauthentication A E mgr m this w = Inr ((NEED_MORE, out, t), w')"
    then show thesis using reauth unfolding process_reauthentication_def failed_def
      by (auto elim!: andThen_InrE split: option.split_asm if_split_asm)
  next
    assume "process_synchronize A E mgr m this w = Inr ((NEED_MORE, out, t), w')"
    then show thesis using sync unfolding process_synchronize_def failed_def
      by (auto elim!: andThen_InrE split: option.split_asm if_split_asm list.split_asm)
  qed
qed

lemma process_rank:
  assumes p: "process A E mgr data this w = Inr ((NEED_MORE, out, t), w')"
  shows "aka_rank (t, w') < aka_rank (this, w)"
  using p
proof (cases rule: process_cases)
  case (identity m)
  note pend = identity_pending [OF identity]
  from identity show ?thesis
  proof (cases rule: process_identity_result)
    case (reauth i perm mk cnt v v1 this1)
    have i: "Eap_Aka_Server.reauth this1 = Some i" using reauth(3) by simp
    note rr = reauthenticate_result [OF reauth(4) i]
    show ?thesis using rr(1-3,7) reauth(1,3) pend by (simp add: aka_rank_def Let_def)
  next
    case (challenge this1 v)
    show ?thesis using challenge_rank [OF challenge(5), of w'] challenge(1,2,4) pend
      by (auto simp: aka_rank_def [of "(this, w)"] Let_def)
  qed
next
  case (reauth v)
  show ?thesis using challenge_rank [OF reauth(2), of w'] reauth(1)
    by (auto simp: aka_rank_def [of "(this, w)"] Let_def)
next
  case (sync v)
  show ?thesis using challenge_rank [OF sync(2), of w'] sync(1)
    by (auto simp: aka_rank_def [of "(this, w)"] Let_def)
qed

interpretation aka: ranked_system "aka_round A mgr" aka_rank for A mgr
  by unfold_locales (auto elim!: aka_roundE intro: process_rank)

section \<open>Who is authenticated\<close>

text \<open>
  A conversation starts with a first request.  In every state it reaches, a pending challenge
  belongs to a vector of a provider, a pending re-authentication to an identity a provider has
  mapped, and no identity has been reported yet.
\<close>

inductive aka_started :: "aka_algs \<Rightarrow> 'w simaka_manager \<Rightarrow> eap_aka_server \<times> 'w \<Rightarrow> bool"
  for A :: aka_algs and mgr :: "'w simaka_manager" where
  "initiate A E mgr (eap_aka_server_create peer request_identity ident) w = Inr ((NEED_MORE, Some out, s), w')
     \<Longrightarrow> aka_started A mgr (s, w')"

inductive_cases aka_startedE: "aka_started A mgr x"

definition mapped_for :: "'w simaka_manager \<Rightarrow> eap_aka_server \<Rightarrow> chunk \<Rightarrow> chunk \<Rightarrow> 16 word \<Rightarrow> bool" where
  "mapped_for mgr s i mk cnt \<longleftrightarrow> (\<exists>v v'. provider_is_reauth mgr i v = Inr (Some (permanent s, mk, cnt), v'))"

definition aka_inv :: "aka_algs \<Rightarrow> 'w simaka_manager \<Rightarrow> eap_aka_server \<times> 'w \<Rightarrow> bool" where
  "aka_inv A mgr x \<longleftrightarrow> auth (fst x) = []
     \<and> (pending (fst x) = AKA_CHALLENGE \<longrightarrow> (\<exists>q. vector_for A mgr (fst x) q))
     \<and> (pending (fst x) = SIM_REAUTHENTICATION \<longrightarrow>
          (\<exists>i mk cnt. mapped_for mgr (fst x) i mk cnt \<and> reauth_for A i mk cnt (fst x)))"

lemma challenge_inv:
  assumes "challenge A E mgr this w = Inr ((NEED_MORE, out, t), w')" "auth this = []"
  shows "aka_inv A mgr (t, v)"
  using assms(1) by (cases rule: challenge_result) (use assms(2) in \<open>auto simp: aka_inv_def\<close>)

lemma process_inv:
  assumes "process A E mgr data this w = Inr ((NEED_MORE, out, t), w')" and a: "auth this = []"
  shows "aka_inv A mgr (t, v)"
  using assms(1)
proof (cases rule: process_cases)
  case (identity m)
  then show ?thesis
  proof (cases rule: process_identity_result)
    case (reauth i perm mk cnt u u1 this1)
    have i: "Eap_Aka_Server.reauth this1 = Some i" using reauth(3) by simp
    note rr = reauthenticate_result [OF reauth(4) i]
    have "mapped_for mgr t i mk cnt" using reauth(2,3) rr(4) by (auto simp: mapped_for_def)
    then show ?thesis using rr a reauth(3) by (auto simp: aka_inv_def)
  next
    case (challenge this1 u)
    then show ?thesis using a challenge_inv [OF challenge(5)] by simp
  qed
next
  case (reauth u)
  then show ?thesis using a challenge_inv [OF reauth(2)] by simp
next
  case (sync u)
  then show ?thesis using a challenge_inv [OF sync(2)] by simp
qed

lemma initiate_inv:
  assumes "initiate A E mgr this w = Inr ((NEED_MORE, out, t), w')" and "auth this = []"
  shows "aka_inv A mgr (t, v)"
  using assms challenge_inv [of A E mgr this w out t w' v]
  by (auto simp: initiate_def identity_def aka_inv_def elim!: andThen_InrE dest!: send_request_result split: if_split_asm)

interpretation aka_sys: inv_system "aka_started A mgr" "aka_round A mgr" "aka_inv A mgr" for A mgr
proof
  fix x assume "aka_started A mgr x"
  then show "aka_inv A mgr x" by (auto elim!: aka_startedE intro!: initiate_inv simp: eap_aka_server_create_def)
next
  fix x y assume "aka_inv A mgr x" "aka_round A mgr x y"
  then show "aka_inv A mgr y" by (auto elim!: aka_roundE intro!: process_inv simp: aka_inv_def [of A mgr x])
qed

text \<open>The message a response is parsed to, and the two ways to success.\<close>

definition received :: "aka_algs \<Rightarrow> env \<Rightarrow> eap_aka_server \<Rightarrow> chunk \<Rightarrow> simaka_message \<Rightarrow> bool" where
  "received A E this data m \<longleftrightarrow>
     (\<exists>m0. simaka_message_create_from_payload data = Some m0 \<and> parse (as_crypto A (rnd E) (crypto this)) m0 = Inr (True, m))"

definition signed_by :: "aka_algs \<Rightarrow> aka_crypto \<Rightarrow> chunk \<Rightarrow> simaka_message \<Rightarrow> bool" where
  "signed_by A cr sigdata m \<longleftrightarrow> derived cr \<and> (\<exists>s. al_signer A (k_auth cr) = Some s \<and> mac_valid s sigdata m)"

lemma verify_signed_by:
  assumes "verify (as_crypto A r cr) sigdata m = Inr (True, m')" "wants_mac (get_subtype m)"
  shows "attributes m' = attributes m" "signed_by A cr sigdata m"
  using verify_signed [OF assms] by (auto simp: as_crypto_def signed_by_def split: if_split_asm)

lemma send_request_fails: "send_request A E st as this \<noteq> Inr (SUCCESS, out, t)"
  by (auto simp: send_request_def Let_def elim!: andThen_InrE split: option.split_asm)

lemma challenge_no_success: "challenge A E mgr this w \<noteq> Inr ((SUCCESS, out, t), w')"
  by (auto simp: challenge_def identity_def Let_def elim!: andThen_InrE dest!: send_request_fails [THEN notE]
      split: option.split_asm if_split_asm)

lemma reauthenticate_no_success: "reauthenticate A E mgr mk cnt this w \<noteq> Inr ((SUCCESS, out, t), w')"
  by (auto simp: reauthenticate_def Let_def elim!: andThen_InrE dest!: send_request_fails [THEN notE]
      split: option.split_asm if_split_asm)

lemma process_identity_no_success: "process_identity A E mgr m this w \<noteq> Inr ((SUCCESS, out, t), w')"
  by (auto simp: process_identity_def failed_def Let_def elim!: andThen_InrE
      dest!: challenge_no_success [THEN notE] reauthenticate_no_success [THEN notE]
      split: option.split_asm if_split_asm list.split_asm)

lemma process_synchronize_no_success: "process_synchronize A E mgr m this w \<noteq> Inr ((SUCCESS, out, t), w')"
  by (auto simp: process_synchronize_def failed_def Let_def elim!: andThen_InrE dest!: challenge_no_success [THEN notE]
      split: option.split_asm if_split_asm list.split_asm)

lemma process_challenge_success:
  assumes "process_challenge A E m this w = Inr ((SUCCESS, out, t), w')" and st: "get_subtype m = AKA_CHALLENGE"
  shows "pending this = AKA_CHALLENGE" "signed_by A (crypto this) [] m" "(AT_RES, xres this) \<in> set (attributes m)"
    "xres this \<noteq> []" "t = this\<lparr>auth := auth this @ [permanent this]\<rparr>"
proof -
  obtain m' as where v: "verify (as_crypto A (rnd E) (crypto this)) [] m = Inr (True, m')"
    "scan_attrs [AT_RES] (attributes m') = Some as" "chunk_equals_const (last_attr AT_RES as) (xres this)"
    and r: "pending this = AKA_CHALLENGE" "t = this\<lparr>auth := auth this @ [permanent this]\<rparr>"
    using assms(1) by (auto simp: process_challenge_def failed_def elim!: andThen_InrE split: option.split_asm if_split_asm)
  show "pending this = AKA_CHALLENGE" "t = this\<lparr>auth := auth this @ [permanent this]\<rparr>" by (rule r)+
  have "wants_mac (get_subtype m)" by (simp add: st wants_mac_def)
  note s = verify_signed_by [OF v(1) this]
  show "signed_by A (crypto this) [] m" by (rule s(2))
  show "(AT_RES, xres this) \<in> set (attributes m)" "xres this \<noteq> []"
    using last_attr_scanned [OF v(2)] v(3) s(1) by (auto simp: chunk_equals_const_def)
qed

lemma process_reauthentication_success:
  assumes "process_reauthentication A E mgr m this w = Inr ((SUCCESS, out, t), w')" and st: "get_subtype m = SIM_REAUTHENTICATION"
  shows "pending this = SIM_REAUTHENTICATION" "signed_by A (crypto this) (nonce this) m"
    "(AT_COUNTER, counter this) \<in> set (attributes m)" "t = this"
proof -
  obtain m' as where v: "verify (as_crypto A (rnd E) (crypto this)) (nonce this) m = Inr (True, m')"
    "scan_attrs [AT_COUNTER, AT_COUNTER_TOO_SMALL] (attributes m') = Some as"
    "chunk_equals_const (last_attr AT_COUNTER as) (counter this)"
    and r: "pending this = SIM_REAUTHENTICATION" "t = this"
    using assms(1) by (auto simp: process_reauthentication_def failed_def elim!: andThen_InrE
        dest!: challenge_no_success [THEN notE] split: option.split_asm if_split_asm)
  show "pending this = SIM_REAUTHENTICATION" "t = this" by (rule r)+
  have "wants_mac (get_subtype m)" by (simp add: st wants_mac_def)
  note s = verify_signed_by [OF v(1) this]
  show "signed_by A (crypto this) (nonce this) m" by (rule s(2))
  show "(AT_COUNTER, counter this) \<in> set (attributes m)"
    using last_attr_scanned [OF v(2)] v(3) s(1) by (auto simp: chunk_equals_const_def)
qed

lemma process_success:
  assumes "process A E mgr data this w = Inr ((SUCCESS, out, t), w')"
  obtains (challenge) m where "received A E this data m" "get_subtype m = AKA_CHALLENGE"
      "process_challenge A E m this w = Inr ((SUCCESS, out, t), w')"
  | (reauth) m where "received A E this data m" "get_subtype m = SIM_REAUTHENTICATION"
      "process_reauthentication A E mgr m this w = Inr ((SUCCESS, out, t), w')"
proof -
  obtain m0 where m0: "simaka_message_create_from_payload data = Some m0"
    using assms by (auto simp: process_def failed_def split: option.split_asm)
  obtain m where m: "parse (as_crypto A (rnd E) (crypto this)) m0 = Inr (True, m)"
    using assms m0 by (auto simp: process_def failed_def elim!: andThen_InrE split: if_split_asm)
  have r: "received A E this data m" using m0 m by (auto simp: received_def)
  have "get_subtype m = AKA_CHALLENGE \<and> process_challenge A E m this w = Inr ((SUCCESS, out, t), w')
    \<or> get_subtype m = SIM_REAUTHENTICATION \<and> process_reauthentication A E mgr m this w = Inr ((SUCCESS, out, t), w')"
    using assms m0 m process_identity_no_success [of A E mgr m this w out t w'] process_synchronize_no_success [of A E mgr m this w out t w']
    by (simp add: process_def failed_def process_client_error_def process_authentication_reject_def Let_def split: if_split_asm)
  then show thesis using challenge [OF r] reauth [OF r] by blast
qed

end
