(* ===== verification/Eap_Aka_Peer.thy ===== *)
theory Eap_Aka_Peer
  imports Eap_Aka
begin

text \<open>
  The peer side of EAP-AKA, \<open>libcharon/plugins/eap_aka/eap_aka_peer.c\<close>: it answers identity
  requests, challenges, re-authentication requests and notifications, with the help of the
  cards of the manager and the state \<open>w\<close> behind them.
\<close>

section \<open>State\<close>

record eap_aka_peer =
  pe_crypto :: aka_crypto
  pe_permanent :: chunk
  pe_pseudonym :: "chunk option"
  pe_reauth :: "chunk option"
  pe_identifier :: byte
  pe_msk :: "chunk option"
  pe_mk :: chunk
  pe_counter :: "16 word"

type_synonym peer_reply = "status \<times> chunk option \<times> eap_aka_peer"

definition eap_aka_peer_create :: "chunk \<Rightarrow> eap_aka_peer" where
  "eap_aka_peer_create peer =
     \<lparr>pe_crypto = aka_crypto_create, pe_permanent = peer, pe_pseudonym = None, pe_reauth = None, pe_identifier = 0,
      pe_msk = None, pe_mk = replicate 20 0, pe_counter = 0\<rparr>"

definition peer_get_msk :: "eap_aka_peer \<Rightarrow> chunk option" where
  "peer_get_msk this = pe_msk this"

definition peer_set_identifier :: "byte \<Rightarrow> eap_aka_peer \<Rightarrow> eap_aka_peer" where
  "peer_set_identifier ident this = this\<lparr>pe_identifier := ident\<rparr>"

section \<open>Responses\<close>

text \<open>The message is generated; nothing but the status depends on whether that succeeds.\<close>

definition respond ::
  "aka_algs \<Rightarrow> env \<Rightarrow> byte \<Rightarrow> byte \<Rightarrow> attr list \<Rightarrow> chunk \<Rightarrow> eap_aka_peer \<Rightarrow> 'w \<Rightarrow> (peer_reply \<times> 'w) res" where
  "respond A E ident subtype attrs sigdata this w =
     andThen (generate_payload A E (pe_crypto this) False ident subtype attrs sigdata) (\<lambda>out.
       Inr ((if out = None then FAILED else NEED_MORE, out, this), w))"

definition create_client_error ::
  "aka_algs \<Rightarrow> env \<Rightarrow> eap_aka_peer \<Rightarrow> 'w \<Rightarrow> (peer_reply \<times> 'w) res" where
  "create_client_error A E this w =
     respond A E (pe_identifier this) SIM_CLIENT_ERROR [(AT_CLIENT_ERROR_CODE, be_bytes 2 (0 :: 16 word))] [] this w"

text \<open>Which identity is sent: the switch over the last request, whose cases fall through.\<close>

definition select_identity ::
  "'w cards \<Rightarrow> byte option \<Rightarrow> eap_aka_peer \<Rightarrow> 'w \<Rightarrow> ((chunk \<times> eap_aka_peer) \<times> 'w) res" where
  "select_identity cards id_req this w =
     andThen (if id_req = Some AT_ANY_ID_REQ then card_get_reauth cards (pe_permanent this) w else Inr (None, w)) (\<lambda>(r, w1).
       case r of
         Some (i, mk, cnt) \<Rightarrow> Inr ((i, this\<lparr>pe_reauth := Some i, pe_mk := mk, pe_counter := cnt\<rparr>), w1)
       | None \<Rightarrow>
           andThen (if id_req \<in> {Some AT_ANY_ID_REQ, Some AT_FULLAUTH_ID_REQ} then card_get_pseudonym cards (pe_permanent this) w1
                    else Inr (None, w1)) (\<lambda>(p, w2).
             case p of
               Some i \<Rightarrow> Inr ((i, this\<lparr>pe_pseudonym := Some i\<rparr>), w2)
             | None \<Rightarrow> Inr ((if id_req = None then [] else pe_permanent this, this), w2)))"

definition process_identity ::
  "aka_algs \<Rightarrow> env \<Rightarrow> 'w cards \<Rightarrow> simaka_message \<Rightarrow> eap_aka_peer \<Rightarrow> 'w \<Rightarrow> (peer_reply \<times> 'w) res" where
  "process_identity A E cards inm this w =
     (let t = this\<lparr>pe_crypto := clear_keys (pe_crypto this), pe_pseudonym := None, pe_reauth := None\<rparr> in
      case scan_attrs [AT_ANY_ID_REQ, AT_FULLAUTH_ID_REQ, AT_PERMANENT_ID_REQ] (attributes inm) of
        None \<Rightarrow> create_client_error A E t w
      | Some as \<Rightarrow>
          andThen (select_identity cards (if as = [] then None else Some (fst (last as))) t w) (\<lambda>((i, t1), w1).
            respond A E (pe_identifier t1) AKA_IDENTITY (if i = [] then [] else [(AT_IDENTITY, i)]) [] t1 w1))"

text \<open>The loop that hands the identities of a challenge to the cards.\<close>

fun store_identities ::
  "env \<Rightarrow> 'w cards \<Rightarrow> attr list \<Rightarrow> eap_aka_peer \<Rightarrow> 'w \<Rightarrow> (eap_aka_peer \<times> 'w) res" where
  "store_identities E cards [] this w = Inr (this, w)"
| "store_identities E cards ((ty, d) # as) this w =
     (if ty = AT_NEXT_REAUTH_ID then
        let t = this\<lparr>pe_counter := 0\<rparr> in
        andThen (card_set_reauth cards (pe_permanent t) (id_from_data E d) (pe_mk t) (pe_counter t) w)
          (store_identities E cards as t)
      else if ty = AT_NEXT_PSEUDONYM then
        andThen (card_set_pseudonym cards (pe_permanent this) (id_from_data E d) w)
          (store_identities E cards as this)
      else store_identities E cards as this w)"

text \<open>What follows once a card has answered with RES, CK and IK.\<close>

definition accept_challenge ::
  "aka_algs \<Rightarrow> env \<Rightarrow> 'w cards \<Rightarrow> simaka_message \<Rightarrow> chunk \<Rightarrow> chunk \<Rightarrow> chunk \<Rightarrow> eap_aka_peer \<Rightarrow> 'w \<Rightarrow> (peer_reply \<times> 'w) res" where
  "accept_challenge A E cards inm res ck ik this w =
     (let i = (case pe_pseudonym this of None \<Rightarrow> pe_permanent this | Some p \<Rightarrow> p) in
      andThen (derive_keys_full A i (ik @ ck) (pe_crypto this)) (\<lambda>(k, cr).
        case k of
          None \<Rightarrow> Inr ((FAILED, None, this\<lparr>pe_msk := None, pe_crypto := cr\<rparr>), w)
        | Some (mk, ms) \<Rightarrow>
            let t = this\<lparr>pe_msk := Some ms, pe_crypto := cr, pe_mk := mk @ drop (length mk) (pe_mk this)\<rparr>;
                C = as_crypto A (rnd E) cr in
            andThen (verify C [] inm) (\<lambda>(ok, m1).
            andThen (if ok then parse C m1 else Inr (False, m1)) (\<lambda>(ok2, m2).
              if \<not> ok2 then create_client_error A E t w
              else
                andThen (store_identities E cards (attributes m2) t w) (\<lambda>(t1, w1).
                  respond A E (pe_identifier t1) AKA_CHALLENGE [(AT_RES, res)] [] t1 w1)))))"

definition process_challenge ::
  "aka_algs \<Rightarrow> env \<Rightarrow> 'w cards \<Rightarrow> simaka_message \<Rightarrow> eap_aka_peer \<Rightarrow> 'w \<Rightarrow> (peer_reply \<times> 'w) res" where
  "process_challenge A E cards inm this w =
     (case scan_attrs [AT_RAND, AT_AUTN] (attributes inm) of
        None \<Rightarrow> create_client_error A E this w
      | Some as \<Rightarrow>
     (case (last_attr AT_RAND as, last_attr AT_AUTN as) of
        (Some rn, Some autn) \<Rightarrow>
          if rn = [] \<or> autn = [] then create_client_error A E this w
          else if length rn < 16 \<or> length autn < 16 then Inl OutOfBounds
          else
            andThen (card_get_quintuplet cards (pe_permanent this) (take 16 rn) (take 16 autn) w) (\<lambda>(a, w1).
            andThen (if a = Card_Invalid_State then card_resync cards (pe_permanent this) (take 16 rn) w1 else Inr (None, w1))
              (\<lambda>(auts, w2).
              case auts of
                Some x \<Rightarrow> respond A E (get_identifier inm) AKA_SYNCHRONIZATION_FAILURE [(AT_AUTS, x)] [] this w2
              | None \<Rightarrow>
                  (case a of
                     Card_Success res ck ik \<Rightarrow> accept_challenge A E cards inm res ck ik this w2
                   | _ \<Rightarrow> respond A E (get_identifier inm) AKA_AUTHENTICATION_REJECT [] [] this w2)))
      | _ \<Rightarrow> create_client_error A E this w))"

definition counter_too_small :: "chunk \<Rightarrow> eap_aka_peer \<Rightarrow> bool res" where
  "counter_too_small c this = (if length c < 2 then Inl OutOfBounds else Inr (be_word (take 2 c) < pe_counter this))"

text \<open>
  The reply to a re-authentication request with the given counter and nonce.  The identity that
  is stored is that of the last attribute of the message, which the loop leaves in \<open>data\<close>.
\<close>

definition accept_reauthentication ::
  "aka_algs \<Rightarrow> env \<Rightarrow> 'w cards \<Rightarrow> simaka_message \<Rightarrow> chunk \<Rightarrow> chunk \<Rightarrow> chunk option \<Rightarrow> chunk \<Rightarrow> eap_aka_peer \<Rightarrow> 'w
     \<Rightarrow> (peer_reply \<times> 'w) res" where
  "accept_reauthentication A E cards m cnt nonce nxt reauth this w =
     andThen (counter_too_small cnt this) (\<lambda>small.
       if small then
         respond A E (get_identifier m) SIM_REAUTHENTICATION [(AT_COUNTER_TOO_SMALL, []), (AT_COUNTER, cnt)] nonce this w
       else
         andThen (derive_keys_reauth_msk A reauth cnt nonce (pe_mk this)) (\<lambda>k.
           let t = this\<lparr>pe_msk := k\<rparr> in
           if k = None then Inr ((FAILED, None, t), w)
           else
             andThen (if nxt = None \<or> nxt = Some [] then Inr w
                      else card_set_reauth cards (pe_permanent t) (id_from_data E (snd (last (attributes m)))) (pe_mk t)
                        (pe_counter t) w) (\<lambda>w1.
               respond A E (get_identifier m) SIM_REAUTHENTICATION [(AT_COUNTER, cnt)] nonce t w1)))"

definition process_reauthentication ::
  "aka_algs \<Rightarrow> env \<Rightarrow> 'w cards \<Rightarrow> simaka_message \<Rightarrow> eap_aka_peer \<Rightarrow> 'w \<Rightarrow> (peer_reply \<times> 'w) res" where
  "process_reauthentication A E cards inm this w =
     (case pe_reauth this of
        None \<Rightarrow> create_client_error A E this w
      | Some reauth \<Rightarrow>
          andThen (derive_keys_reauth A (pe_mk this) (pe_crypto this)) (\<lambda>(ok, cr).
            let t = this\<lparr>pe_crypto := cr\<rparr>; C = as_crypto A (rnd E) cr in
            if \<not> ok then Inr ((FAILED, None, t), w)
            else
              andThen (verify C [] inm) (\<lambda>(ok1, m1).
              andThen (if ok1 then parse C m1 else Inr (False, m1)) (\<lambda>(ok2, m2).
                if \<not> ok2 then create_client_error A E t w
                else
                  (case scan_attrs [AT_COUNTER, AT_NONCE_S, AT_NEXT_REAUTH_ID] (attributes m2) of
                     None \<Rightarrow> create_client_error A E t w
                   | Some as \<Rightarrow>
                  (case (last_attr AT_NONCE_S as, last_attr AT_COUNTER as) of
                     (Some nonce, Some cnt) \<Rightarrow>
                       if nonce = [] \<or> cnt = [] then create_client_error A E t w
                       else accept_reauthentication A E cards m2 cnt nonce (last_attr AT_NEXT_REAUTH_ID as) reauth t w
                   | _ \<Rightarrow> create_client_error A E t w))))))"

definition process_notification ::
  "aka_algs \<Rightarrow> env \<Rightarrow> simaka_message \<Rightarrow> eap_aka_peer \<Rightarrow> 'w \<Rightarrow> (peer_reply \<times> 'w) res" where
  "process_notification A E inm this w =
     (if scan_attrs [AT_NOTIFICATION] (attributes inm) = None then create_client_error A E this w
      else respond A E (pe_identifier this) SIM_NOTIFICATION [] [] this w)"

definition peer_process ::
  "aka_algs \<Rightarrow> env \<Rightarrow> 'w cards \<Rightarrow> chunk \<Rightarrow> eap_aka_peer \<Rightarrow> 'w \<Rightarrow> (peer_reply \<times> 'w) res" where
  "peer_process A E cards data this w =
     (let t = this\<lparr>pe_identifier := if length data > 1 then data ! 1 else 0\<rparr> in
      case simaka_message_create_from_payload data of
        None \<Rightarrow> create_client_error A E t w
      | Some message \<Rightarrow>
          andThen (parse (as_crypto A (rnd E) (pe_crypto t)) message) (\<lambda>(ok, m).
            if \<not> ok then create_client_error A E t w
            else
              let st = get_subtype m in
              if st = AKA_IDENTITY then process_identity A E cards m t w
              else if st = AKA_CHALLENGE then process_challenge A E cards m t w
              else if st = SIM_REAUTHENTICATION then process_reauthentication A E cards m t w
              else if st = SIM_NOTIFICATION then process_notification A E m t w
              else create_client_error A E t w))"

end
