(* ===== verification/Aka_Exchange.thy ===== *)
theory Aka_Exchange
  imports Eap_Aka_Server Eap_Aka_Peer Epdg_Provider
begin

text \<open>
  The two sides of EAP-AKA together: every payload one side generates is handed to the other.
\<close>

section \<open>What is relied on\<close>

text \<open>
  The algorithms \<open>simaka_crypto.c\<close> asks for: SHA-1 gives 20 octets, the FIPS 186-2 generator
  blocks of 40, and signer and crypter accept every key and satisfy their laws.
\<close>

definition aka_laws :: "aka_algs \<Rightarrow> bool" where
  "aka_laws A \<longleftrightarrow> (\<forall>d. \<exists>h. al_sha1 A d = Some h \<and> length h = 20) \<and> (\<forall>k. al_prf_key A k)
     \<and> (\<forall>k n. \<exists>b. al_prf A k n = Some b \<and> length b = 40)
     \<and> (\<forall>k. \<exists>s. al_signer A k = Some s \<and> signer_laws s) \<and> (\<forall>k. \<exists>c. al_crypter A k = Some c \<and> crypter_laws c)"

definition env_laws :: "env \<Rightarrow> bool" where
  "env_laws E \<longleftrightarrow> (\<forall>n. \<exists>b. rnd E n = Some b \<and> length b = n) \<and> length (out_stack E) = 1024 \<and> length (encr_stack E) = 512"

lemma prf_blocks_total:
  assumes "aka_laws A"
  shows "\<exists>str. prf_blocks A mk n = Some str \<and> length str = 40 * n"
proof (induction n)
  case (Suc n)
  moreover obtain b where "al_prf A mk n = Some b" "length b = 40" using assms unfolding aka_laws_def by blast
  ultimately show ?case by auto
qed simp

lemma set_keys_total:
  assumes "aka_laws A"
  shows "set_keys A e a t = (True, \<lparr>derived = derived t, k_encr = e, k_auth = a\<rparr>)"
    and "env_laws E \<Longrightarrow> crypto_laws (as_crypto A (rnd E) \<lparr>derived = True, k_encr = e, k_auth = a\<rparr>)"
proof -
  obtain s c where sc: "al_signer A a = Some s" "signer_laws s" "al_crypter A e = Some c" "crypter_laws c"
    using assms unfolding aka_laws_def by blast
  show "set_keys A e a t = (True, \<lparr>derived = derived t, k_encr = e, k_auth = a\<rparr>)" using sc by (simp add: set_keys_def)
  show "env_laws E \<Longrightarrow> crypto_laws (as_crypto A (rnd E) \<lparr>derived = True, k_encr = e, k_auth = a\<rparr>)"
    using sc by (simp add: as_crypto_def crypto_laws_def env_laws_def)
qed

lemma derive_keys_full_total:
  assumes A: "aka_laws A"
  obtains mk ms cr where "\<And>t. derive_keys_full A i d t = Inr (Some (mk, ms), cr)" "length mk = 20"
    and "\<And>E. env_laws E \<Longrightarrow> crypto_laws (as_crypto A (rnd E) cr)"
proof -
  obtain mk where mk: "al_sha1 A (i @ d) = Some mk" "length mk = 20" using A unfolding aka_laws_def by blast
  obtain str where str: "prf_blocks A mk 3 = Some str" "length str = 120" using prf_blocks_total [OF A, of mk 3] by auto
  let ?cr = "\<lparr>derived = True, k_encr = take 16 str, k_auth = take 16 (drop 16 str)\<rparr>"
  have "derive_keys_full A i d t = Inr (Some (mk, take 64 (drop 32 str)), ?cr)" for t
    using A mk(1) str by (simp add: derive_keys_full_def set_keys_total [OF A] aka_laws_def)
  then show thesis using mk(2) set_keys_total(2) [OF A] by (rule that)
qed

section \<open>Payloads on the way\<close>

lemma create_aka: obtains m where "simaka_message_create req ident EAP_AKA st = Some m"
proof -
  have "simaka_message_create req ident EAP_AKA st = Some (fresh_message (msg_header req ident 8 EAP_AKA st))"
    using create_header [of EAP_AKA "[]" req ident st] by (simp add: simaka_message_create_def msg_header_def)
  then show thesis by (rule that)
qed

lemma as_crypto_parts [simp]:
  "get_crypter (as_crypto A r cr) = (if derived cr then al_crypter A (k_encr cr) else None)"
  "get_signer (as_crypto A r cr) = (if derived cr then al_signer A (k_auth cr) else None)"
  by (simp_all add: as_crypto_def)

text \<open>A payload under keys reaches a receiver with these keys, or one that will derive them.\<close>

lemma payload_keyed:
  assumes C: "crypto_laws (as_crypto A (rnd E) cr)" and E: "env_laws E" and as: "list_all attr_ok as"
    and e512: "length (encr_part as) < 512" and size: "message_size st as \<le> 1024"
  obtains bs m1 m2 n2 where "generate_payload A E cr req ident st as sigdata = Inr (Some bs)"
    and "simaka_message_create_from_payload bs = Some m1" and "length bs > 1" "bs ! 1 = ident"
    and "\<And>r. parse (as_crypto A r cr) m1 = Inr (True, m2)" and "attributes m2 = filter (\<lambda>a. \<not> is_encr a) as @ filter is_encr as"
    and "same_head m2 req ident st"
    and "\<And>r. wants_mac st \<Longrightarrow> \<exists>m3. verify (as_crypto A r cr) sigdata m2 = Inr (True, m3) \<and> attributes m3 = attributes m2"
    and "\<And>r c0. \<not> derived c0 \<Longrightarrow> parse (as_crypto A r c0) m1 = Inr (True, n2)"
    and "attributes n2 = filter (\<lambda>a. \<not> is_encr a) as" and "same_head n2 req ident st"
    and "\<And>r. wants_mac st \<Longrightarrow> \<exists>n3 n4. verify (as_crypto A r cr) sigdata n2 = Inr (True, n3)
      \<and> parse (as_crypto A r cr) n3 = Inr (True, n4) \<and> attributes n4 = filter (\<lambda>a. \<not> is_encr a) as @ filter is_encr as
      \<and> same_head n4 req ident st"
proof -
  obtain m where m: "simaka_message_create req ident EAP_AKA st = Some m" by (rule create_aka)
  have buf: "length (out_stack E) = 1024" "length (encr_stack E) = 512" using E by (simp_all add: env_laws_def)
  have ty: "EAP_AKA \<in> {EAP_SIM, EAP_AKA}" by simp
  have pc: "parse (as_crypto A r cr) = parse (as_crypto A (rnd E) cr)"
    "verify (as_crypto A r cr) = verify (as_crypto A (rnd E) cr)" for r
    by (rule parse_cong verify_cong, simp)+
  show thesis
  proof (rule delivery [OF C ty as e512 size buf m, of sigdata], goal_cases)
    case (1 bs m1 m2 n2)
    have "length bs > 1" using 1(2) by (auto simp: simaka_message_create_from_payload_def split: if_split_asm)
    show thesis
    proof (rule that [of bs m1 m2 n2])
      show "generate_payload A E cr req ident st as sigdata = Inr (Some bs)" using 1(1) m by (simp add: generate_payload_def)
    next
      fix r :: "nat \<Rightarrow> chunk option" and c0 :: aka_crypto assume "\<not> derived c0"
      then show "parse (as_crypto A r c0) m1 = Inr (True, n2)" by (intro 1(8)) simp
    next
      fix r :: "nat \<Rightarrow> chunk option"
      show "parse (as_crypto A r cr) m1 = Inr (True, m2)" unfolding pc(1) [of r] by (rule 1(4))
    next
      fix r :: "nat \<Rightarrow> chunk option" assume "wants_mac st"
      then show "\<exists>m3. verify (as_crypto A r cr) sigdata m2 = Inr (True, m3) \<and> attributes m3 = attributes m2"
        unfolding pc(2) [of r] by (rule 1(7))
    next
      fix r :: "nat \<Rightarrow> chunk option" assume "wants_mac st"
      then show "\<exists>n3 n4. verify (as_crypto A r cr) sigdata n2 = Inr (True, n3) \<and> parse (as_crypto A r cr) n3 = Inr (True, n4)
          \<and> attributes n4 = filter (\<lambda>a. \<not> is_encr a) as @ filter is_encr as \<and> same_head n4 req ident st"
        unfolding pc [of r] by (rule 1(11))
    qed (fact 1 \<open>length bs > 1\<close>)+
  qed
qed

text \<open>
  A payload without encrypted attributes and MAC needs no keys, and reaches a receiver with any
  keys or none.
\<close>

lemma payload_plain_keyed:
  assumes kc: "crypto_laws (as_crypto A (rnd E) kc)" and E: "env_laws E" and as: "list_all attr_ok as" "list_all (\<lambda>a. \<not> is_encr a) as"
    and st: "\<not> wants_mac st" and size: "length (plain_part as) \<le> 1000"
  obtains bs m1 m2 n2 where "generate_payload A E cr req ident st as sigdata = Inr (Some bs)"
    and "simaka_message_create_from_payload bs = Some m1" and "length bs > 1" "bs ! 1 = ident"
    and "\<And>r c0. \<not> derived c0 \<Longrightarrow> parse (as_crypto A r c0) m1 = Inr (True, n2)"
    and "attributes n2 = as" and "same_head n2 req ident st"
    and "\<And>r. parse (as_crypto A r kc) m1 = Inr (True, m2)" and "attributes m2 = as" and "same_head m2 req ident st"
proof -
  have f: "filter is_encr as = []" "filter (\<lambda>a. \<not> is_encr a) as = as" using as(2) by (induction as) auto
  have e: "encr_part as = []" by (simp add: encr_part_def f)
  then have sz: "length (encr_part as) < 512" "message_size st as \<le> 1024" using size st by (simp_all add: message_size_def)
  obtain m where m: "simaka_message_create req ident EAP_AKA st = Some m" by (rule create_aka)
  then have h: "attributes (foldl (\<lambda>m (t, d). add_attribute t d m) m as) = as" "get_subtype (foldl (\<lambda>m (t, d). add_attribute t d m) m as) = st"
    by (auto simp: simaka_message_create_def simaka_message_create_from_payload_def foldl_add_attribute get_subtype_def nth_append
        split: if_split_asm)
  have g: "generate_payload A E cr req ident st as sigdata = generate_payload A E kc req ident st as sigdata"
    unfolding generate_payload_def m option.case by (rule generate_plain) (simp_all only: h as(2) st not_False_eq_True)
  show thesis
  proof (rule payload_keyed [OF kc E as(1) sz, of req ident sigdata], goal_cases)
    case (1 bs m1 m2 n2)
    show thesis by (rule that [of bs m1 n2 m2]) (use 1(1-7,9-11) g f in simp_all)
  qed
qed

lemma payload_plain:
  assumes A: "aka_laws A" and E: "env_laws E" and as: "list_all attr_ok as" "list_all (\<lambda>a. \<not> is_encr a) as"
    and st: "\<not> wants_mac st" and size: "length (plain_part as) \<le> 1000"
  obtains bs m1 n2 where "generate_payload A E cr req ident st as sigdata = Inr (Some bs)"
    and "simaka_message_create_from_payload bs = Some m1" and "length bs > 1" "bs ! 1 = ident"
    and "\<And>r c0. \<not> derived c0 \<Longrightarrow> parse (as_crypto A r c0) m1 = Inr (True, n2)"
    and "attributes n2 = as" and "same_head n2 req ident st"
proof -
  obtain kc where kc: "crypto_laws (as_crypto A (rnd E) kc)" using derive_keys_full_total [OF A] E by metis
  show thesis by (rule payload_plain_keyed [OF kc E as st size, of cr req ident sigdata]) (rule that)
qed

section \<open>Challenge and response\<close>

text \<open>
  A provider has a vector \<open>q\<close> of the sizes AKA prescribes, and the identities it proposes are of
  moderate length; a USIM of the peer has the same vector, and its functions return.
\<close>

definition issues :: "aka_algs \<Rightarrow> 'w simaka_manager \<Rightarrow> chunk \<Rightarrow> 'w \<Rightarrow> quintuplet \<Rightarrow> 'w \<Rightarrow> bool" where
  "issues A mgr i w q w3 \<longleftrightarrow>
     length (q_rand q) = 16 \<and> length (q_autn q) = 16 \<and> 0 < length (q_xres q) \<and> length (q_xres q) \<le> 16
     \<and> (\<exists>w1 w2 mk ks re ps. provider_get_quintuplet mgr i w = Inr (Some q, w1) \<and> vector_keys A i (q_ik q @ q_ck q) = Some (mk, ks)
          \<and> provider_gen_reauth mgr i mk w1 = Inr (re, w2) \<and> (\<forall>x. re = Some x \<longrightarrow> length x \<le> 200)
          \<and> provider_gen_pseudonym mgr i w2 = Inr (ps, w3) \<and> (\<forall>x. ps = Some x \<longrightarrow> length x \<le> 200))"

lemma vector_keys_total:
  assumes "aka_laws A"
  shows "\<exists>mk ks. vector_keys A i d = Some (mk, ks)"
proof (rule derive_keys_full_total [OF assms, of i d])
  fix mk ms cr
  assume "\<And>t. derive_keys_full A i d t = Inr (Some (mk, ms), cr)"
  from derive_keys_full_keys [OF this] show ?thesis by blast
qed

text \<open>The same with the identities that are proposed and the keys that are derived made explicit.\<close>

record offer =
  of_vector :: quintuplet
  of_reauth :: "chunk option"
  of_pseudonym :: "chunk option"
  of_mk :: chunk
  of_msk :: chunk
  of_crypto :: aka_crypto

definition offers :: "aka_algs \<Rightarrow> 'w simaka_manager \<Rightarrow> chunk \<Rightarrow> 'w \<Rightarrow> offer \<Rightarrow> 'w \<Rightarrow> bool" where
  "offers A mgr i w x w3 \<longleftrightarrow> (let q = of_vector x in
     length (q_rand q) = 16 \<and> length (q_autn q) = 16 \<and> 0 < length (q_xres q) \<and> length (q_xres q) \<le> 16
     \<and> (\<exists>w1 w2. provider_get_quintuplet mgr i w = Inr (Some q, w1)
          \<and> provider_gen_reauth mgr i (of_mk x) w1 = Inr (of_reauth x, w2) \<and> (\<forall>y. of_reauth x = Some y \<longrightarrow> length y \<le> 200)
          \<and> provider_gen_pseudonym mgr i w2 = Inr (of_pseudonym x, w3) \<and> (\<forall>y. of_pseudonym x = Some y \<longrightarrow> length y \<le> 200))
     \<and> (\<forall>t. derive_keys_full A i (q_ik q @ q_ck q) t = Inr (Some (of_mk x, of_msk x), of_crypto x)) \<and> length (of_mk x) = 20
     \<and> (\<forall>E. env_laws E \<longrightarrow> crypto_laws (as_crypto A (rnd E) (of_crypto x))))"

lemma issues_offers:
  assumes A: "aka_laws A" and vec: "issues A mgr i w q w3"
  obtains x where "offers A mgr i w x w3" "of_vector x = q"
proof -
  obtain w1 w2 mk ks re ps where q: "length (q_rand q) = 16" "length (q_autn q) = 16" "0 < length (q_xres q)" "length (q_xres q) \<le> 16"
    and g: "provider_get_quintuplet mgr i w = Inr (Some q, w1)" "vector_keys A i (q_ik q @ q_ck q) = Some (mk, ks)"
      "provider_gen_reauth mgr i mk w1 = Inr (re, w2)" "\<forall>x. re = Some x \<longrightarrow> length x \<le> 200"
      "provider_gen_pseudonym mgr i w2 = Inr (ps, w3)" "\<forall>x. ps = Some x \<longrightarrow> length x \<le> 200"
    using vec unfolding issues_def by blast
  obtain mk' ms cr where dk: "\<And>t. derive_keys_full A i (q_ik q @ q_ck q) t = Inr (Some (mk', ms), cr)" "length mk' = 20"
    and C: "\<And>E. env_laws E \<Longrightarrow> crypto_laws (as_crypto A (rnd E) cr)" using derive_keys_full_total [OF A] by blast
  have "mk' = mk" using derive_keys_full_keys [OF dk(1)] g(2) by simp
  then show thesis using q g dk C
    by (intro that [of "\<lparr>of_vector = q, of_reauth = re, of_pseudonym = ps, of_mk = mk, of_msk = ms, of_crypto = cr\<rparr>"])
      (auto simp: offers_def)
qed

definition usim_has :: "'c cards \<Rightarrow> chunk \<Rightarrow> quintuplet \<Rightarrow> 'c \<Rightarrow> bool" where
  "usim_has cards i q c \<longleftrightarrow>
     (\<exists>c1. card_get_quintuplet cards i (q_rand q) (q_autn q) c = Inr (Card_Success (q_xres q) (q_ck q) (q_ik q), c1))
     \<and> (\<forall>x y. \<exists>y'. card_set_pseudonym cards i x y = Inr y') \<and> (\<forall>x mk n y. \<exists>y'. card_set_reauth cards i x mk n y = Inr y')"

lemma store_identities_total:
  assumes "usim_has cards (pe_permanent t) q c"
  shows "\<exists>t1 y'. store_identities E cards as t y = Inr (t1, y') \<and> pe_crypto t1 = pe_crypto t \<and> pe_msk t1 = pe_msk t"
  using assms
proof (induction as arbitrary: t y)
  case (Cons a as)
  obtain ty d where a: "a = (ty, d)" by (cases a)
  obtain y1 where y1: "card_set_pseudonym cards (pe_permanent t) (id_from_data E d) y = Inr y1"
    using Cons.prems unfolding usim_has_def by blast
  obtain y2 where y2: "card_set_reauth cards (pe_permanent t) (id_from_data E d) (pe_mk t) 0 y = Inr y2"
    using Cons.prems unfolding usim_has_def by blast
  show ?case using Cons.IH [of t] Cons.IH [of "t\<lparr>pe_counter := 0\<rparr>"] Cons.prems y1 y2 by (simp add: a Let_def)
qed simp

lemma identity_attr_size:
  assumes "length d \<le> 200" "ty \<in> {AT_NEXT_PSEUDONYM, AT_NEXT_REAUTH_ID, AT_IDENTITY}"
  shows "length (enc_attr (ty, d)) \<le> 208"
proof -
  have "(4 - length d mod 4) mod 4 < 4" by simp
  then show ?thesis using assms by (elim insertE emptyE; simp add: enc_attr_def encode_attr_def at_defs Let_def)
qed

definition challenge_attrs :: "quintuplet \<Rightarrow> chunk option \<Rightarrow> chunk option \<Rightarrow> attr list" where
  "challenge_attrs q re ps =
     [(AT_RAND, q_rand q), (AT_AUTN, q_autn q)] @ opt_attr AT_NEXT_REAUTH_ID re @ opt_attr AT_NEXT_PSEUDONYM ps"

lemma challenge_attrs_ok:
  assumes "length (q_rand q) = 16" "length (q_autn q) = 16" "\<forall>x. re = Some x \<longrightarrow> length x \<le> 200" "\<forall>x. ps = Some x \<longrightarrow> length x \<le> 200"
  shows "list_all attr_ok (challenge_attrs q re ps)"
    and "filter (\<lambda>a. \<not> is_encr a) (challenge_attrs q re ps) = [(AT_RAND, q_rand q), (AT_AUTN, q_autn q)]"
    and "length (encr_part (challenge_attrs q re ps)) < 512" and "message_size AKA_CHALLENGE (challenge_attrs q re ps) \<le> 1024"
proof -
  show "list_all attr_ok (challenge_attrs q re ps)"
    using assms by (auto simp: challenge_attrs_def opt_attr_def attr_ok_def at_defs split: option.split)
  have e: "is_encr (AT_NEXT_REAUTH_ID, d)" "is_encr (AT_NEXT_PSEUDONYM, d)" "\<not> is_encr (AT_RAND, d)" "\<not> is_encr (AT_AUTN, d)" for d
    by (simp_all add: is_encr_def to_encr_def at_defs)
  show p: "filter (\<lambda>a. \<not> is_encr a) (challenge_attrs q re ps) = [(AT_RAND, q_rand q), (AT_AUTN, q_autn q)]"
    by (auto simp: challenge_attrs_def opt_attr_def e split: option.split)
  have "filter is_encr (challenge_attrs q re ps) = opt_attr AT_NEXT_REAUTH_ID re @ opt_attr AT_NEXT_PSEUDONYM ps"
    by (auto simp: challenge_attrs_def opt_attr_def e split: option.split)
  moreover have "length (concat (map enc_attr (opt_attr AT_NEXT_REAUTH_ID re))) \<le> 208"
    "length (concat (map enc_attr (opt_attr AT_NEXT_PSEUDONYM ps))) \<le> 208"
    using assms(3,4) by (auto simp: opt_attr_def intro!: identity_attr_size split: option.split)
  ultimately have l: "length (encr_part (challenge_attrs q re ps)) \<le> 416" by (simp add: encr_part_def)
  then show "length (encr_part (challenge_attrs q re ps)) < 512" by simp
  have "length (plain_part (challenge_attrs q re ps)) = 40"
    using assms(1,2) by (simp add: plain_part_def p enc_attr_def encode_attr_def at_defs)
  then show "message_size AKA_CHALLENGE (challenge_attrs q re ps) \<le> 1024"
    using l padding_for_props(3) [of "length (encr_part (challenge_attrs q re ps))"] by (simp add: message_size_def)
qed

text \<open>The challenge a server sends, as a peer without keys receives it.\<close>

definition challenged :: "eap_aka_server \<Rightarrow> offer \<Rightarrow> eap_aka_server" where
  "challenged s x = s\<lparr>msk := Some (of_msk x), crypto := of_crypto x, rand := Some (q_rand (of_vector x)), xres := q_xres (of_vector x),
     eap_identifier := eap_identifier s + 1, pending := AKA_CHALLENGE\<rparr>"

abbreviation offered :: "offer \<Rightarrow> attr list" where
  "offered x \<equiv> challenge_attrs (of_vector x) (of_reauth x) (of_pseudonym x)"

lemma challenge_sent:
  assumes E: "env_laws E1" and vec: "offers A mgr (permanent s) w x w3" and s: "pseudonym s = None"
  obtains ch m1 n2 where "challenge A E1 mgr s w = Inr ((NEED_MORE, Some ch, challenged s x), w3)"
    and "simaka_message_create_from_payload ch = Some m1" "length ch > 1" "ch ! 1 = eap_identifier s"
    and "\<And>r c0. \<not> derived c0 \<Longrightarrow> parse (as_crypto A r c0) m1 = Inr (True, n2)"
    and "attributes n2 = [(AT_RAND, q_rand (of_vector x)), (AT_AUTN, q_autn (of_vector x))]"
    and "same_head n2 True (eap_identifier s) AKA_CHALLENGE"
    and "\<And>r. \<exists>n3 n4. verify (as_crypto A r (of_crypto x)) [] n2 = Inr (True, n3)
      \<and> parse (as_crypto A r (of_crypto x)) n3 = Inr (True, n4) \<and> attributes n4 = offered x"
proof -
  let ?i = "permanent s" and ?q = "of_vector x"
  obtain w1 w2 where q: "length (q_rand ?q) = 16" "length (q_autn ?q) = 16"
    and g: "provider_get_quintuplet mgr ?i w = Inr (Some ?q, w1)" "provider_gen_reauth mgr ?i (of_mk x) w1 = Inr (of_reauth x, w2)"
      "provider_gen_pseudonym mgr ?i w2 = Inr (of_pseudonym x, w3)"
    and ids: "\<forall>y. of_reauth x = Some y \<longrightarrow> length y \<le> 200" "\<forall>y. of_pseudonym x = Some y \<longrightarrow> length y \<le> 200"
    and dk: "\<And>t. derive_keys_full A ?i (q_ik ?q @ q_ck ?q) t = Inr (Some (of_mk x, of_msk x), of_crypto x)"
    and C: "\<And>E. env_laws E \<Longrightarrow> crypto_laws (as_crypto A (rnd E) (of_crypto x))"
    using vec unfolding offers_def Let_def by blast
  note as = challenge_attrs_ok [OF q(1,2) ids]
  have o: "filter (\<lambda>a. \<not> is_encr a) (offered x) @ filter is_encr (offered x) = offered x"
    by (auto simp: challenge_attrs_def opt_attr_def is_encr_def to_encr_def at_defs split: option.split)
  have w: "wants_mac AKA_CHALLENGE" by (simp add: wants_mac_def)
  show thesis
  proof (rule payload_keyed [OF C [OF E] E as(1,3,4), of True "eap_identifier s" "[]"], goal_cases)
    case (1 ch m1 m2 n2)
    have ch: "challenge A E1 mgr s w = Inr ((NEED_MORE, Some ch, challenged s x), w3)"
      using 1(1) g dk s by (simp add: challenge_def send_request_def Let_def challenge_attrs_def challenged_def)
    have n2: "attributes n2 = [(AT_RAND, q_rand ?q), (AT_AUTN, q_autn ?q)]" using 1(10) as(2) by simp
    have v: "\<exists>n3 n4. verify (as_crypto A r (of_crypto x)) [] n2 = Inr (True, n3)
        \<and> parse (as_crypto A r (of_crypto x)) n3 = Inr (True, n4) \<and> attributes n4 = offered x" for r
      using 1(12) [OF w, of r] unfolding o by auto
    show thesis by (rule that [OF ch 1(2,3,4,9) n2 1(11) v])
  qed
qed

text \<open>The peer on a challenge it reads without keys, and the server on the response.\<close>

definition learned :: "offer \<Rightarrow> eap_aka_peer \<Rightarrow> eap_aka_peer" where
  "learned x p = p\<lparr>pe_msk := Some (of_msk x), pe_crypto := of_crypto x, pe_mk := of_mk x @ drop (length (of_mk x)) (pe_mk p)\<rparr>"

lemma peer_answers_challenge:
  assumes E: "env_laws E" and vec: "offers A mgr (pe_permanent p) w x w3"
    and card: "card_get_quintuplet cards (pe_permanent p) (q_rand (of_vector x)) (q_autn (of_vector x)) c
      = Inr (Card_Success (q_xres (of_vector x)) (q_ck (of_vector x)) (q_ik (of_vector x)), c1)"
    and p: "pe_pseudonym p = None"
    and n2: "attributes n2 = [(AT_RAND, q_rand (of_vector x)), (AT_AUTN, q_autn (of_vector x))]"
    and v: "verify (as_crypto A (rnd E) (of_crypto x)) [] n2 = Inr (True, n3)" "parse (as_crypto A (rnd E) (of_crypto x)) n3 = Inr (True, n4)"
    and st: "store_identities E cards (attributes n4) (learned x p) c1 = Inr (t1, c2)" "pe_crypto t1 = of_crypto x"
  obtains rsp m1 m2 where "Eap_Aka_Peer.process_challenge A E cards n2 p c = Inr ((NEED_MORE, Some rsp, t1), c2)"
    and "simaka_message_create_from_payload rsp = Some m1"
    and "\<And>r. parse (as_crypto A r (of_crypto x)) m1 = Inr (True, m2)" and "attributes m2 = [(AT_RES, q_xres (of_vector x))]"
    and "get_subtype m2 = AKA_CHALLENGE"
    and "\<And>r. \<exists>m3. verify (as_crypto A r (of_crypto x)) [] m2 = Inr (True, m3) \<and> attributes m3 = attributes m2"
proof -
  let ?q = "of_vector x" and ?as = "[(AT_RES, q_xres (of_vector x))]"
  have q: "length (q_rand ?q) = 16" "length (q_autn ?q) = 16" "0 < length (q_xres ?q)" "length (q_xres ?q) \<le> 16"
    and dk: "\<And>t. derive_keys_full A (pe_permanent p) (q_ik ?q @ q_ck ?q) t = Inr (Some (of_mk x, of_msk x), of_crypto x)"
    and C: "crypto_laws (as_crypto A (rnd E) (of_crypto x))"
    using vec E unfolding offers_def Let_def by blast+
  have as: "list_all attr_ok ?as" using q by (simp add: attr_ok_def at_defs)
  have f: "filter is_encr ?as = []" "filter (\<lambda>a. \<not> is_encr a) ?as = ?as" by (simp_all add: is_encr_def to_encr_def at_defs)
  have "length (enc_attr (AT_RES, q_xres ?q)) \<le> 200" using q(4)
    by (simp add: enc_attr_def encode_attr_def at_defs Let_def)
  then have sz: "length (encr_part ?as) < 512" "message_size AKA_CHALLENGE ?as \<le> 1024"
    using f by (simp_all add: encr_part_def plain_part_def message_size_def)
  have w: "wants_mac AKA_CHALLENGE" by (simp add: wants_mac_def)
  show thesis
  proof (rule payload_keyed [OF C E as sz, of False "pe_identifier t1" "[]"], goal_cases)
    case (1 bs m1 m2 n2')
    have "accept_challenge A E cards n2 (q_xres ?q) (q_ck ?q) (q_ik ?q) p c1 = Inr ((NEED_MORE, Some bs, t1), c2)"
      using p dk v st 1(1) by (simp add: accept_challenge_def respond_def Let_def learned_def)
    moreover have "AT_RAND \<noteq> AT_AUTN" by (simp add: at_defs)
    ultimately have "Eap_Aka_Peer.process_challenge A E cards n2 p c = Inr ((NEED_MORE, Some bs, t1), c2)"
      using n2 q p card by (auto simp: Eap_Aka_Peer.process_challenge_def last_attr_def)
    from that [OF this 1(2,5) _ _ 1(8) [OF w]] show thesis using 1(6,7) f by (simp add: same_head_def)
  qed
qed

text \<open>
  The exchange: the server sends its challenge, the peer answers it and stores what it was
  offered, and the server accepts the answer.
\<close>

lemma offer_exchange:
  assumes E: "env_laws E1" "env_laws E2" and vec: "offers A mgr (permanent s) w x w3"
    and card: "card_get_quintuplet cards (permanent s) (q_rand (of_vector x)) (q_autn (of_vector x)) c
      = Inr (Card_Success (q_xres (of_vector x)) (q_ck (of_vector x)) (q_ik (of_vector x)), c1)"
    and s: "pseudonym s = None" and p: "pe_pseudonym p = None" "pe_permanent p = permanent s" "\<not> derived (pe_crypto p)"
    and st: "store_identities E2 cards (offered x) (learned x (p\<lparr>pe_identifier := eap_identifier s\<rparr>)) c1 = Inr (t1, c2)"
      "pe_crypto t1 = of_crypto x"
  obtains ch rsp where "challenge A E1 mgr s w = Inr ((NEED_MORE, Some ch, challenged s x), w3)"
    and "peer_process A E2 cards ch p c = Inr ((NEED_MORE, Some rsp, t1), c2)"
    and "\<And>E3 v. Eap_Aka_Server.process A E3 mgr rsp (challenged s x) v
      = Inr ((SUCCESS, None, (challenged s x)\<lparr>auth := auth s @ [permanent s]\<rparr>), v)"
proof -
  show thesis
  proof (rule challenge_sent [OF E(1) vec s], goal_cases)
    case (1 ch m1 n2)
    let ?q = "of_vector x" and ?s1 = "challenged s x" and ?p = "p\<lparr>pe_identifier := eap_identifier s\<rparr>"
    obtain n3 n4 where v: "verify (as_crypto A (rnd E2) (of_crypto x)) [] n2 = Inr (True, n3)"
      "parse (as_crypto A (rnd E2) (of_crypto x)) n3 = Inr (True, n4)" "attributes n4 = offered x" using 1(8) by blast
    have p': "offers A mgr (pe_permanent ?p) w x w3" "pe_pseudonym ?p = None"
      "card_get_quintuplet cards (pe_permanent ?p) (q_rand ?q) (q_autn ?q) c = Inr (Card_Success (q_xres ?q) (q_ck ?q) (q_ik ?q), c1)"
      "store_identities E2 cards (attributes n4) (learned x ?p) c1 = Inr (t1, c2)"
      using p vec card st v(3) by simp_all
    have x: "0 < length (q_xres ?q)" using vec by (simp add: offers_def Let_def)
    show thesis
    proof (rule peer_answers_challenge [OF E(2) p'(1,3,2) 1(6) v(1,2) p'(4) st(2)], goal_cases)
      case r: (1 rsp r1 r2)
      have pr: "peer_process A E2 cards ch p c = Inr ((NEED_MORE, Some rsp, t1), c2)"
        using 1(2-5,7) r(1) p(3) by (simp add: peer_process_def same_head_def Let_def)
      have sv: "Eap_Aka_Server.process A E3 mgr rsp ?s1 v = Inr ((SUCCESS, None, ?s1\<lparr>auth := auth s @ [permanent s]\<rparr>), v)" for E3 v
      proof -
        obtain r3 where "verify (as_crypto A (rnd E3) (of_crypto x)) [] r2 = Inr (True, r3)" "attributes r3 = [(AT_RES, q_xres ?q)]"
          using r(6) [of "rnd E3"] r(4) by auto
        then have "Eap_Aka_Server.process_challenge A E3 r2 ?s1 v = Inr ((SUCCESS, None, ?s1\<lparr>auth := auth s @ [permanent s]\<rparr>), v)"
          using x by (auto simp: Eap_Aka_Server.process_challenge_def last_attr_def chunk_equals_const_def challenged_def)
        then show ?thesis using r(2,3,5) by (simp add: Eap_Aka_Server.process_def Let_def challenged_def)
      qed
      show thesis by (rule that [OF 1(1) pr sv])
    qed
  qed
qed

lemma challenge_exchange:
  assumes A: "aka_laws A" and E: "env_laws E1" "env_laws E2"
    and vec: "issues A mgr (permanent s) w q w3" and usim: "usim_has cards (permanent s) q c"
    and s: "pseudonym s = None" and p: "pe_pseudonym p = None" "pe_permanent p = permanent s" "\<not> derived (pe_crypto p)"
  obtains ch s1 rsp p1 c2 where "challenge A E1 mgr s w = Inr ((NEED_MORE, Some ch, s1), w3)"
    and "peer_process A E2 cards ch p c = Inr ((NEED_MORE, Some rsp, p1), c2)"
    and "\<And>E3 v. Eap_Aka_Server.process A E3 mgr rsp s1 v = Inr ((SUCCESS, None, s1\<lparr>auth := auth s @ [permanent s]\<rparr>), v)"
    and "msk s1 = pe_msk p1" and "pe_msk p1 \<noteq> None"
proof -
  obtain x where x: "offers A mgr (permanent s) w x w3" "of_vector x = q" using issues_offers [OF A vec] by blast
  let ?t = "learned x (p\<lparr>pe_identifier := eap_identifier s\<rparr>)"
  obtain c1 where c1: "card_get_quintuplet cards (permanent s) (q_rand (of_vector x)) (q_autn (of_vector x)) c
      = Inr (Card_Success (q_xres (of_vector x)) (q_ck (of_vector x)) (q_ik (of_vector x)), c1)"
    using usim x(2) unfolding usim_has_def by blast
  have "usim_has cards (pe_permanent ?t) q c" using usim p by (simp add: learned_def)
  from store_identities_total [OF this] obtain t1 c2 where st: "store_identities E2 cards (offered x) ?t c1 = Inr (t1, c2)"
    "pe_crypto t1 = of_crypto x" "pe_msk t1 = Some (of_msk x)" by (fastforce simp: learned_def)
  show thesis
  proof (rule offer_exchange [OF E x(1) c1 s p st(1,2)], goal_cases)
    case (1 ch rsp)
    show thesis by (rule that [OF 1]) (simp_all add: st(3) challenged_def)
  qed
qed

section \<open>A whole conversation\<close>

text \<open>The identity round: the peer answers the request for any identity with the one it selects.\<close>

definition asked :: "byte \<Rightarrow> eap_aka_peer \<Rightarrow> eap_aka_peer" where
  "asked ident p = p\<lparr>pe_identifier := ident, pe_crypto := clear_keys (pe_crypto p), pe_pseudonym := None, pe_reauth := None\<rparr>"

lemma any_identity_exchange:
  assumes A: "aka_laws A" and E: "env_laws E1" "env_laws E2" and i: "0 < length i" "length i \<le> 200"
    and s: "use_reauth s" "\<not> derived (crypto s)" and p: "\<not> derived (pe_crypto p)"
    and sel: "select_identity cards (Some AT_ANY_ID_REQ) (asked (eap_identifier s) p) c = Inr ((i, t1), c1)"
  obtains req rsp m1 m2 where
      "identity A E1 s = Inr (NEED_MORE, Some req, s\<lparr>eap_identifier := eap_identifier s + 1, pending := AKA_IDENTITY\<rparr>)"
    and "peer_process A E2 cards req p c = Inr ((NEED_MORE, Some rsp, t1), c1)"
    and "simaka_message_create_from_payload rsp = Some m1"
    and "\<And>r c0. \<not> derived c0 \<Longrightarrow> parse (as_crypto A r c0) m1 = Inr (True, m2)"
    and "attributes m2 = [(AT_IDENTITY, i)]" "get_subtype m2 = AKA_IDENTITY"
proof -
  have w: "\<not> wants_mac AKA_IDENTITY" by (simp add: wants_mac_def subtype_defs)
  have a: "list_all attr_ok [(AT_ANY_ID_REQ, [])]" "list_all (\<lambda>a. \<not> is_encr a) [(AT_ANY_ID_REQ, [])]"
    "length (plain_part [(AT_ANY_ID_REQ, [])]) \<le> 1000"
    by (simp_all add: attr_ok_def is_encr_def to_encr_def plain_part_def enc_attr_def encode_attr_def at_defs)
  have b: "list_all attr_ok [(AT_IDENTITY, i)]" "list_all (\<lambda>a. \<not> is_encr a) [(AT_IDENTITY, i)]"
    using i by (simp_all add: attr_ok_def is_encr_def to_encr_def at_defs)
  have b3: "length (plain_part [(AT_IDENTITY, i)]) \<le> 1000"
    using identity_attr_size [of i AT_IDENTITY] i b(2) by (simp add: plain_part_def)
  show thesis
  proof (rule payload_plain [OF A E(1) a(1,2) w a(3), of "crypto s" True "eap_identifier s" "[]"], goal_cases)
    case q: (1 req k1 k2)
    have r1: "identity A E1 s = Inr (NEED_MORE, Some req, s\<lparr>eap_identifier := eap_identifier s + 1, pending := AKA_IDENTITY\<rparr>)"
      using q(1) s(1) by (simp add: identity_def send_request_def)
    show thesis
    proof (rule payload_plain [OF A E(2) b w b3, of "pe_crypto t1" False "pe_identifier t1" "[]"], goal_cases)
      case r: (1 rsp m1 m2)
      have "Eap_Aka_Peer.process_identity A E2 cards k2 (p\<lparr>pe_identifier := eap_identifier s\<rparr>) c = Inr ((NEED_MORE, Some rsp, t1), c1)"
        using q(6) r(1) i(1) sel by (simp add: Eap_Aka_Peer.process_identity_def respond_def asked_def)
      then have "peer_process A E2 cards req p c = Inr ((NEED_MORE, Some rsp, t1), c1)"
        using p q(2-5,7) by (simp add: peer_process_def same_head_def)
      from that [OF r1 this r(2,5,6)] show thesis using r(7) by (simp add: same_head_def)
    qed
  qed
qed

lemma identity_exchange:
  assumes A: "aka_laws A" and E: "env_laws E1" "env_laws E2" and nai: "0 < length nai" "length nai \<le> 200"
    and s: "use_reauth s" "\<not> derived (crypto s)" and p: "pe_permanent p = nai" "\<not> derived (pe_crypto p)"
    and cards: "card_get_reauth cards nai c = Inr (None, c0)" "card_get_pseudonym cards nai c0 = Inr (None, c1)"
  obtains req rsp p1 m1 m2 where
      "identity A E1 s = Inr (NEED_MORE, Some req, s\<lparr>eap_identifier := eap_identifier s + 1, pending := AKA_IDENTITY\<rparr>)"
    and "peer_process A E2 cards req p c = Inr ((NEED_MORE, Some rsp, p1), c1)"
    and "pe_pseudonym p1 = None" "pe_permanent p1 = nai" "\<not> derived (pe_crypto p1)"
    and "simaka_message_create_from_payload rsp = Some m1"
    and "\<And>r c0. \<not> derived c0 \<Longrightarrow> parse (as_crypto A r c0) m1 = Inr (True, m2)"
    and "attributes m2 = [(AT_IDENTITY, nai)]" "get_subtype m2 = AKA_IDENTITY"
proof -
  let ?p = "asked (eap_identifier s) p"
  have sel: "select_identity cards (Some AT_ANY_ID_REQ) ?p c = Inr ((nai, ?p), c1)"
    using cards p by (simp add: select_identity_def asked_def)
  show thesis
  proof (rule any_identity_exchange [OF A E nai s p(2) sel], goal_cases)
    case (1 req rsp m1 m2)
    show thesis by (rule that [OF 1(1,2) _ _ _ 1(3-6)]) (simp_all add: asked_def p clear_keys_def)
  qed
qed

text \<open>From the first request to the server's decision to challenge the identity the peer gave.\<close>

lemma identity_round:
  assumes A: "aka_laws A" and E: "env_laws E1" "env_laws E2"
    and nai: "0 < length nai" "length nai \<le> 200" "\<And>E3. E3 \<in> Es \<Longrightarrow> id_from_data E3 nai = nai"
    and mgr: "provider_is_reauth mgr nai w = Inr (None, w0)" "provider_is_pseudonym mgr nai w0 = Inr (None, w1)"
    and cards: "card_get_reauth cards nai c = Inr (None, c0)" "card_get_pseudonym cards nai c0 = Inr (None, c1)"
  obtains req1 rsp1 s1 s2 p1 where
      "initiate A E1 mgr (eap_aka_server_create peer True ident) w = Inr ((NEED_MORE, Some req1, s1), w)"
    and "peer_process A E2 cards req1 (eap_aka_peer_create nai) c = Inr ((NEED_MORE, Some rsp1, p1), c1)"
    and "\<And>E3. E3 \<in> Es \<Longrightarrow> Eap_Aka_Server.process A E3 mgr rsp1 s1 w = challenge A E3 mgr s2 w1"
    and "permanent s2 = nai" "pseudonym s2 = None" "auth s2 = []" "\<not> synchronized s2"
    and "pe_pseudonym p1 = None" "pe_permanent p1 = nai" "\<not> derived (pe_crypto p1)"
proof -
  let ?s = "eap_aka_server_create peer True ident" and ?p = "eap_aka_peer_create nai"
  let ?s1 = "?s\<lparr>eap_identifier := eap_identifier ?s + 1, pending := AKA_IDENTITY\<rparr>"
  let ?s2 = "?s1\<lparr>use_reauth := False, permanent := nai\<rparr>"
  have s: "use_reauth ?s" "\<not> derived (crypto ?s)" and p: "pe_permanent ?p = nai" "\<not> derived (pe_crypto ?p)"
    by (simp_all add: eap_aka_server_create_def eap_aka_peer_create_def aka_crypto_create_def)
  show thesis
  proof (rule identity_exchange [OF A E(1,2) nai(1,2) s p cards], goal_cases)
    case i: (1 req1 rsp1 p1 m1 m2)
    have i0: "initiate A E1 mgr ?s w = Inr ((NEED_MORE, Some req1, ?s1), w)"
      using i(1) by (simp add: initiate_def eap_aka_server_create_def)
    have i2: "Eap_Aka_Server.process A E3 mgr rsp1 ?s1 w = challenge A E3 mgr ?s2 w1" if "E3 \<in> Es" for E3
    proof -
      obtain y ys where y: "nai = y # ys" using nai(1) by (cases nai) auto
      have "Eap_Aka_Server.process_identity A E3 mgr m2 ?s1 w = challenge A E3 mgr ?s2 w1"
        using i(8) nai(3) [OF that] mgr(1,2) unfolding y
        by (simp add: Eap_Aka_Server.process_identity_def last_attr_def eap_aka_server_create_def)
      then show ?thesis using i(6,7,9) s(2) by (simp add: Eap_Aka_Server.process_def)
    qed
    show thesis by (rule that [OF i0 i(2) i2 _ _ _ _ i(3,4,5)]) (simp_all add: eap_aka_server_create_def)
  qed
qed

text \<open>What has to hold around a conversation: see the property below.\<close>

lemma full_exchange:
  assumes A: "aka_laws A" and E: "env_laws E1" "env_laws E2" "env_laws E3" "env_laws E4"
    and nai: "0 < length nai" "length nai \<le> 200" "id_from_data E3 nai = nai"
    and mgr: "provider_is_reauth mgr nai w = Inr (None, w0)" "provider_is_pseudonym mgr nai w0 = Inr (None, w1)"
      "issues A mgr nai w1 q w3"
    and cards: "card_get_reauth cards nai c = Inr (None, c0)" "card_get_pseudonym cards nai c0 = Inr (None, c1)"
      "usim_has cards nai q c1"
  obtains req1 rsp1 req2 rsp2 s1 s2 s3 p1 p2 c2 where
      "initiate A E1 mgr (eap_aka_server_create peer True ident) w = Inr ((NEED_MORE, Some req1, s1), w)"
    and "peer_process A E2 cards req1 (eap_aka_peer_create nai) c = Inr ((NEED_MORE, Some rsp1, p1), c1)"
    and "Eap_Aka_Server.process A E3 mgr rsp1 s1 w = Inr ((NEED_MORE, Some req2, s2), w3)"
    and "peer_process A E4 cards req2 p1 c1 = Inr ((NEED_MORE, Some rsp2, p2), c2)"
    and "\<And>E5 v. Eap_Aka_Server.process A E5 mgr rsp2 s2 v = Inr ((SUCCESS, None, s3), v)"
    and "get_auth s3 = [nai]" and "get_msk s3 = peer_get_msk p2" and "peer_get_msk p2 \<noteq> None"
proof -
  have n: "id_from_data E nai = nai" if "E \<in> {E3}" for E using that nai(3) by simp
  show thesis
  proof (rule identity_round [where Es = "{E3}" and peer = peer and ident = ident, OF A E(1,2) nai(1,2) n mgr(1,2) cards(1,2)], goal_cases)
    case i: (2 req1 rsp1 s1 s2 p1)
    have iss: "issues A mgr (permanent s2) w1 q w3" "usim_has cards (permanent s2) q c1" "pe_permanent p1 = permanent s2"
      using mgr(3) cards(3) i(4,9) by simp_all
    show thesis
    proof (rule challenge_exchange [OF A E(3,4) iss(1,2) i(5,8) iss(3) i(10)], goal_cases)
      case x: (1 req2 s3 rsp2 p2 c2)
      have i2: "Eap_Aka_Server.process A E3 mgr rsp1 s1 w = Inr ((NEED_MORE, Some req2, s3), w3)" using i(3) x(1) by simp
      show thesis
        by (rule that [OF i(1,2) i2 x(2,3)]) (use x(4,5) i(4,6) in \<open>simp_all add: get_auth_def get_msk_def peer_get_msk_def\<close>)
    qed
  qed simp
qed

section \<open>Properties\<close>

text \<open>
  C11. A conversation with an honest peer completes: the server asks for any identity, the peer
  answers with its permanent one, no provider maps it and one of them issues a vector for it;
  when a card of the peer has the same vector, every payload is generated within its buffer and
  accepted by the other side, the second response succeeds, exactly the permanent identity of
  the peer is reported, and both sides hold the same MSK.  The identities the providers propose
  for later conversations travel encrypted in the challenge.
\<close>

theorem aka_exchange_completes:
  assumes "aka_laws A" and "env_laws E1" "env_laws E2" "env_laws E3" "env_laws E4"
    and "0 < length nai" "length nai \<le> 200" "id_from_data E3 nai = nai"
    and "provider_is_reauth mgr nai w = Inr (None, w0)" "provider_is_pseudonym mgr nai w0 = Inr (None, w1)"
    and "issues A mgr nai w1 q w3"
    and "card_get_reauth cards nai c = Inr (None, c0)" "card_get_pseudonym cards nai c0 = Inr (None, c1)"
    and "usim_has cards nai q c1"
  shows "\<exists>req1 rsp1 req2 rsp2 s1 s2 s3 p1 p2 c2.
    initiate A E1 mgr (eap_aka_server_create peer True ident) w = Inr ((NEED_MORE, Some req1, s1), w)
    \<and> peer_process A E2 cards req1 (eap_aka_peer_create nai) c = Inr ((NEED_MORE, Some rsp1, p1), c1)
    \<and> Eap_Aka_Server.process A E3 mgr rsp1 s1 w = Inr ((NEED_MORE, Some req2, s2), w3)
    \<and> peer_process A E4 cards req2 p1 c1 = Inr ((NEED_MORE, Some rsp2, p2), c2)
    \<and> Eap_Aka_Server.process A E5 mgr rsp2 s2 w3 = Inr ((SUCCESS, None, s3), w3)
    \<and> get_auth s3 = [nai] \<and> get_msk s3 = peer_get_msk p2 \<and> peer_get_msk p2 \<noteq> None"
  by (rule full_exchange [OF assms, of peer ident]) blast

lemma success_grounds:
  assumes "reachable (aka_started A mgr) (aka_round A mgr) (s, w)"
    and "Eap_Aka_Server.process A E mgr data s w = Inr ((SUCCESS, out, s'), w')"
  shows "\<exists>m. received A E s data m \<and> get_msk s' = msk s \<and>
    ((\<exists>q. vector_for A mgr s q \<and> signed_by A (crypto s) [] m \<and> q_xres q \<noteq> [] \<and> (AT_RES, q_xres q) \<in> set (attributes m)
        \<and> get_auth s' = [permanent s])
     \<or> (\<exists>i mk cnt. mapped_for mgr s i mk cnt \<and> reauth_for A i mk cnt s \<and> signed_by A (crypto s) (nonce s) m
        \<and> (AT_COUNTER, be_bytes 2 cnt) \<in> set (attributes m) \<and> get_auth s' = []))"
proof -
  have inv: "aka_inv A mgr (s, w)" using assms(1) by (rule aka_sys.reachable_invar)
  from assms(2) show ?thesis
  proof (cases rule: process_success)
    case (challenge m)
    note c = process_challenge_success [OF challenge(3,2)]
    obtain q where "vector_for A mgr s q" using inv c(1) by (auto simp: aka_inv_def)
    moreover from this have "xres s = q_xres q" by (simp add: vector_for_def)
    ultimately show ?thesis using challenge(1) c(2-5) inv by (auto simp: get_msk_def get_auth_def aka_inv_def)
  next
    case (reauth m)
    note c = process_reauthentication_success [OF reauth(3,2)]
    obtain i mk cnt where "mapped_for mgr s i mk cnt" "reauth_for A i mk cnt s" using inv c(1) by (auto simp: aka_inv_def)
    moreover from this have "counter s = be_bytes 2 cnt" by (simp add: reauth_for_def)
    ultimately show ?thesis using reauth(1) c(2-4) inv by (auto simp: get_msk_def get_auth_def aka_inv_def)
  qed
qed

text \<open>
  C5. Success is authentic: in every state a conversation reaches, a response is answered with
  success only if it carries a MAC that is valid under the derived authentication key, and
  either the non-empty RES of a challenge whose vector a provider issued for the permanent
  identity, from which the keys and the MSK were derived, in which case that identity and no
  other is reported; or the counter of a re-authentication whose identity a provider mapped to
  the permanent one, with keys and MSK derived from the master key the provider kept, in which
  case no identity is reported.
\<close>

theorem aka_success_authentic:
  assumes "reachable (aka_started A mgr) (aka_round A mgr) (s, w)"
    and "Eap_Aka_Server.process A E mgr data s w = Inr ((SUCCESS, out, s'), w')"
  shows "\<exists>m. received A E s data m \<and> get_msk s' = msk s \<and>
    ((\<exists>q. vector_for A mgr s q \<and> signed_by A (crypto s) [] m \<and> q_xres q \<noteq> [] \<and> (AT_RES, q_xres q) \<in> set (attributes m)
        \<and> get_auth s' = [permanent s])
     \<or> (\<exists>i mk cnt. mapped_for mgr s i mk cnt \<and> reauth_for A i mk cnt s \<and> signed_by A (crypto s) (nonce s) m
        \<and> (AT_COUNTER, be_bytes 2 cnt) \<in> set (attributes m) \<and> get_auth s' = []))"
  using assms by (rule success_grounds)

text \<open>
  C24. Every conversation ends: whatever the peer sends, whatever the providers answer and whatever
  the random numbers are, a server that has sent its first request answers at most four
  responses with another request before it succeeds or fails.
\<close>

theorem aka_conversation_bounded:
  assumes "(aka_round A mgr ^^ n) (s, w) (s', w')"
  shows "n \<le> 4"
proof -
  have "n + aka_rank (s', w') \<le> aka_rank (s, w)" using assms by (rule aka.steps_bounded)
  moreover have "aka_rank (s, w) \<le> 4" by (simp add: aka_rank_def Let_def)
  ultimately show ?thesis by linarith
qed

section \<open>A conversation with the ePDG\<close>

text \<open>
  The manager of the server has the provider of the plugin, whose core network answers with one
  vector; the card of the peer knows that vector.
\<close>

definition sample_algs :: aka_algs where
  "sample_algs = \<lparr>al_sha1 = (\<lambda>d. Some (replicate 20 (of_nat (length d)))), al_prf_key = (\<lambda>k. True),
     al_prf = (\<lambda>k n. Some (replicate 40 (of_nat n))), al_signer = (\<lambda>k. get_signer sample_crypto),
     al_crypter = (\<lambda>k. get_crypter sample_crypto)\<rparr>"

definition sample_env :: env where
  "sample_env = \<lparr>rnd = (\<lambda>n. Some (replicate n 9)), out_stack = replicate 1024 0, encr_stack = replicate 512 0, id_from_data = (\<lambda>d. d)\<rparr>"

definition sample_manager :: "'w simaka_manager" where
  "sample_manager = add_provider (osmo_epdg_provider sample_consts
     (sample_gsup\<lparr>gc_send_auth_request := \<lambda>_ _ _ _ _ _. Some sample_auth_resp\<rparr>) (Some sample_sa)) []"

definition sample_quintuplet :: quintuplet where
  "sample_quintuplet = \<lparr>q_rand = replicate 16 0, q_xres = [1,2,3,4,5,6,7,8], q_ck = replicate 16 0, q_ik = replicate 16 0, q_autn = replicate 16 0\<rparr>"

definition sample_cards :: "unit cards" where
  "sample_cards = add_card \<lparr>sc_get_quintuplet = (\<lambda>i r a w. Inr (Card_Success (q_xres sample_quintuplet) (q_ck sample_quintuplet) (q_ik sample_quintuplet), w)),
     sc_resync = (\<lambda>i r w. Inr (None, w)), sc_set_pseudonym = (\<lambda>i p w. Inr w), sc_get_pseudonym = (\<lambda>i w. Inr (None, w)),
     sc_set_reauth = (\<lambda>i n mk cnt w. Inr w), sc_get_reauth = (\<lambda>i w. Inr (None, w))\<rparr> []"

lemma sample_laws: "aka_laws sample_algs" "env_laws sample_env"
  using sample_crypto_laws
  by (simp_all add: aka_laws_def env_laws_def sample_algs_def sample_env_def crypto_laws_def split: option.split_asm)

lemma sample_nai: "0 < length (permanent_nai sample_imsi [])" "length (permanent_nai sample_imsi []) \<le> 200"
  by (simp_all add: permanent_nai_def sample_imsi_def)

lemma sample_issues: "issues sample_algs sample_manager (permanent_nai sample_imsi []) w sample_quintuplet w"
proof -
  have i: "epdg_get_imsi (permanent_nai sample_imsi []) 16 = Inr sample_imsi"
    by (rule epdg_get_imsi_permanent [OF sample_imsi_valid]) simp
  have a: "epdg_get_apn sample_sa (APN_MAXLEN sample_consts) = Inr [105,109,115]"
    by (simp add: epdg_get_apn_def sample_sa_def sample_consts_def cstr_def)
  have "SEND_AUTH_INFO_RESULT sample_consts = 10" by (simp add: sample_consts_def)
  then have "get_quintuplet sample_consts (sample_gsup\<lparr>gc_send_auth_request := \<lambda>_ _ _ _ _ _. Some sample_auth_resp\<rparr>)
      (Some sample_sa) (permanent_nai sample_imsi []) = Inr (Some sample_quintuplet)"
    by (simp add: get_quintuplet_def i a sample_auth_resp_def sample_quintuplet_def AKA_RES_MAX_def empty_auth_vector_def Let_def)
  then have "provider_get_quintuplet sample_manager (permanent_nai sample_imsi []) w = Inr (Some sample_quintuplet, w)"
    by (simp add: provider_get_quintuplet_def sample_manager_def add_provider_def osmo_epdg_provider_def)
  moreover have "provider_gen_reauth sample_manager i mk w = Inr (None, w)" "provider_gen_pseudonym sample_manager i w = Inr (None, w)" for i mk
    by (simp_all add: provider_gen_reauth_def provider_gen_pseudonym_def sample_manager_def add_provider_def osmo_epdg_provider_def)
  moreover have "\<exists>mk ks. vector_keys sample_algs (permanent_nai sample_imsi []) (q_ik sample_quintuplet @ q_ck sample_quintuplet) = Some (mk, ks)"
    using vector_keys_total [OF sample_laws(1)] by blast
  ultimately show ?thesis unfolding issues_def by (simp add: sample_quintuplet_def)
qed

lemma sample_usim: "usim_has sample_cards (permanent_nai sample_imsi []) sample_quintuplet ()"
  by (simp add: usim_has_def sample_cards_def add_card_def card_set_pseudonym_def card_set_reauth_def)

lemma sample_maps:
  "id_from_data sample_env nai = nai"
  "provider_is_reauth sample_manager nai w = Inr (None, w)" "provider_is_pseudonym sample_manager nai w = Inr (None, w)"
  "card_get_reauth sample_cards nai () = Inr (None, ())" "card_get_pseudonym sample_cards nai () = Inr (None, ())"
  by (simp_all add: sample_env_def sample_manager_def add_provider_def provider_is_reauth_def provider_is_pseudonym_def
      osmo_epdg_provider_def sample_cards_def add_card_def card_get_reauth_def card_get_pseudonym_def)

lemmas sample_conversation = sample_laws(1) sample_laws(2) sample_laws(2) sample_laws(2) sample_laws(2) sample_nai
  sample_maps(1) sample_maps(2,3) [where w = "()"] sample_issues [where w = "()"] sample_maps(4,5) sample_usim

theorem aka_exchange_completes_witness:
  "\<exists>req1 rsp1 req2 rsp2 s1 s2 s3 p1 p2. let nai = permanent_nai sample_imsi [] in
    initiate sample_algs sample_env sample_manager (eap_aka_server_create [1] True 7) () = Inr ((NEED_MORE, Some req1, s1), ())
    \<and> peer_process sample_algs sample_env sample_cards req1 (eap_aka_peer_create nai) () = Inr ((NEED_MORE, Some rsp1, p1), ())
    \<and> Eap_Aka_Server.process sample_algs sample_env sample_manager rsp1 s1 () = Inr ((NEED_MORE, Some req2, s2), ())
    \<and> peer_process sample_algs sample_env sample_cards req2 p1 () = Inr ((NEED_MORE, Some rsp2, p2), ())
    \<and> Eap_Aka_Server.process sample_algs sample_env sample_manager rsp2 s2 () = Inr ((SUCCESS, None, s3), ())
    \<and> get_auth s3 = [nai] \<and> get_msk s3 = peer_get_msk p2 \<and> peer_get_msk p2 \<noteq> None"
  using aka_exchange_completes [OF sample_conversation, of "[1]" 7 sample_env] by (auto simp: Let_def)

lemma sample_rounds:
  obtains s1 s2 s3 rsp2 where "aka_started sample_algs sample_manager (s1, ())" "aka_round sample_algs sample_manager (s1, ()) (s2, ())"
    "Eap_Aka_Server.process sample_algs sample_env sample_manager rsp2 s2 () = Inr ((SUCCESS, None, s3), ())"
    "get_auth s3 = [permanent_nai sample_imsi []]"
proof -
  show thesis
  proof (rule full_exchange [OF sample_conversation, of "[1]" 7], goal_cases)
    case (1 req1 rsp1 req2 rsp2 s1 s2 s3 p1 p2 c2)
    show thesis by (rule that [OF aka_started.intros [OF 1(1)] aka_round.intros [OF 1(3)] 1(5) 1(6)])
  qed
qed

theorem aka_success_authentic_witness:
  "\<exists>s data s'. reachable (aka_started sample_algs sample_manager) (aka_round sample_algs sample_manager) (s, ())
    \<and> Eap_Aka_Server.process sample_algs sample_env sample_manager data s () = Inr ((SUCCESS, None, s'), ())
    \<and> (\<exists>m q. vector_for sample_algs (sample_manager :: unit simaka_manager) s q \<and> signed_by sample_algs (crypto s) [] m \<and> (AT_RES, q_xres q) \<in> set (Simaka_Message.attributes m))
    \<and> get_auth s' = [permanent_nai sample_imsi []]"
proof (rule sample_rounds)
  fix s1 s2 s3 rsp2
  assume a: "aka_started sample_algs sample_manager (s1, ())" "aka_round sample_algs sample_manager (s1, ()) (s2, ())"
    and p: "Eap_Aka_Server.process sample_algs sample_env sample_manager rsp2 s2 () = Inr ((SUCCESS, None, s3), ())"
    and g: "get_auth s3 = [permanent_nai sample_imsi []]"
  have r: "reachable (aka_started sample_algs sample_manager) (aka_round sample_algs sample_manager) (s2, ())"
    by (rule reach_step, rule reach_init, rule a(1), rule a(2))
  have "\<exists>m q. vector_for sample_algs (sample_manager :: unit simaka_manager) s2 q \<and> signed_by sample_algs (crypto s2) [] m
      \<and> (AT_RES, q_xres q) \<in> set (Simaka_Message.attributes m)"
    using aka_success_authentic [OF r p] g by auto
  with r p g show ?thesis by blast
qed

theorem aka_conversation_bounded_witness:
  "\<exists>s s'. (aka_round sample_algs sample_manager ^^ 1) (s, ()) (s', ()) \<and> (1 :: nat) \<le> 4"
proof (rule sample_rounds)
  fix s1 s2
  assume "aka_round sample_algs sample_manager (s1, ()) (s2, ())"
  then have r: "(aka_round sample_algs sample_manager ^^ 1) (s1, ()) (s2, ())" by (simp add: eq_OO)
  from aka_conversation_bounded [OF this] r show ?thesis by blast
qed

end
