(* ===== verification/Milenage.thy ===== *)
theory Milenage
  imports Prelude
begin

text \<open>
  The 3GPP MILENAGE functions f1, f1*, f2 to f5 and f5* as
  \<open>libcharon/plugins/eap_aka_3gpp/eap_aka_3gpp_functions.c\<close> computes them, byte by byte in a
  block of 16, and the formulas of 3GPP TS 35.206 on 128-bit words, which they are shown to
  compute.  AES is a parameter: whether a key is accepted, and the encryption of a single block
  with a zero initialisation vector.
\<close>

section \<open>AES and key material\<close>

record aes =
  aes_set_key :: "chunk \<Rightarrow> bool"
  aes_encrypt :: "chunk \<Rightarrow> chunk \<Rightarrow> chunk option"

definition memxor :: "chunk \<Rightarrow> chunk \<Rightarrow> chunk" where
  "memxor dst src = map2 (XOR) dst src"

text \<open>
  \<open>get_shared\<close> is the credential manager's answer; the key of a subscriber is K alone, when OPc
  is taken to be zero, or K followed by OPc.
\<close>

definition eap_aka_3gpp_get_k_opc :: "(chunk \<Rightarrow> chunk option) \<Rightarrow> chunk \<Rightarrow> (chunk \<times> chunk) option" where
  "eap_aka_3gpp_get_k_opc get_shared i =
     (case get_shared i of
        None \<Rightarrow> None
      | Some key \<Rightarrow>
          if length key = 16 then Some (key, replicate 16 0)
          else if length key = 16 + 16 then Some (take 16 key, drop 16 key)
          else None)"

section \<open>The time-based sequence number\<close>

text \<open>
  Objects in memory on the 64-bit little-endian machines the container images are built for:
  \<open>time_t\<close> and \<open>suseconds_t\<close> have 8 octets, least significant first; \<open>htonl\<close> takes and gives 32
  bits, and swaps them.
\<close>

definition le_bytes :: "nat \<Rightarrow> 'a::len word \<Rightarrow> chunk" where
  "le_bytes n w = rev (be_bytes n w)"

definition htonl :: "32 word \<Rightarrow> 32 word" where
  "htonl w = be_word (le_bytes 4 w)"

definition eap_aka_3gpp_get_sqn :: "64 word \<Rightarrow> 64 word \<Rightarrow> 64 word \<Rightarrow> chunk" where
  "eap_aka_3gpp_get_sqn tv_sec tv_usec offset =
     (let sec = ucast (htonl (ucast (tv_sec + offset))) :: 64 word;
          usec = ucast (htonl (ucast (push_bit 12 tv_usec))) :: 64 word in
      take 4 (drop (8 - 4) (le_bytes 8 sec)) @ take 2 (le_bytes 8 usec))"

section \<open>The functions\<close>

text \<open>The loops over the block: \<open>data[(i + s) % 16] ^= x[i]\<close> and \<open>data[(i + s) % 16] = x[i]\<close>.\<close>

definition xor_shifted :: "nat \<Rightarrow> chunk \<Rightarrow> chunk \<Rightarrow> chunk" where
  "xor_shifted s x data =
     foldl (\<lambda>d i. d[(i + s) mod 16 := (d ! ((i + s) mod 16)) XOR (x ! i)]) data [0..<16]"

definition set_shifted :: "nat \<Rightarrow> chunk \<Rightarrow> chunk \<Rightarrow> chunk" where
  "set_shifted s x data = foldl (\<lambda>d i. d[(i + s) mod 16 := x ! i]) data [0..<16]"

definition f1andf1star :: "aes \<Rightarrow> chunk \<Rightarrow> chunk \<Rightarrow> chunk \<Rightarrow> chunk \<Rightarrow> chunk \<Rightarrow> chunk option" where
  "f1andf1star F k opc rand sqn amf =
     (if \<not> aes_set_key F k then None
      else
        (case aes_encrypt F k (memxor rand opc) of
           None \<Rightarrow> None
         | Some data \<Rightarrow>
             let h = take 6 sqn @ take 2 amf;
                 inp = h @ h in
             (case aes_encrypt F k (xor_shifted 8 (map2 (XOR) inp opc) data) of
                None \<Rightarrow> None
              | Some out \<Rightarrow> Some (memxor out opc))))"

definition f1 :: "aes \<Rightarrow> chunk \<Rightarrow> chunk \<Rightarrow> chunk \<Rightarrow> chunk \<Rightarrow> chunk \<Rightarrow> chunk option" where
  "f1 F k opc rand sqn amf =
     (case f1andf1star F k opc rand sqn amf of None \<Rightarrow> None | Some mac \<Rightarrow> Some (take 8 mac))"

definition f1star :: "aes \<Rightarrow> chunk \<Rightarrow> chunk \<Rightarrow> chunk \<Rightarrow> chunk \<Rightarrow> chunk \<Rightarrow> chunk option" where
  "f1star F k opc rand sqn amf =
     (case f1andf1star F k opc rand sqn amf of None \<Rightarrow> None | Some mac \<Rightarrow> Some (take 8 (drop 8 mac)))"

text \<open>One output block: the rotated and masked block is encrypted and masked with OPc.\<close>

definition out_block :: "aes \<Rightarrow> chunk \<Rightarrow> chunk \<Rightarrow> nat \<Rightarrow> byte \<Rightarrow> chunk \<Rightarrow> chunk \<Rightarrow> chunk option" where
  "out_block F k opc s c temp data =
     (let d = set_shifted s (map2 (XOR) temp opc) data in
      case aes_encrypt F k (d[15 := (d ! 15) XOR c]) of
        None \<Rightarrow> None
      | Some out \<Rightarrow> Some (memxor out opc))"

text \<open>
  The results are RES, CK, IK and AK.  The buffer \<open>data\<close> is encrypted in place, except for the
  first encryption, whose result is \<open>temp\<close> while \<open>data\<close> keeps its contents.
\<close>

definition f2345 :: "aes \<Rightarrow> chunk \<Rightarrow> chunk \<Rightarrow> chunk \<Rightarrow> (chunk \<times> chunk \<times> chunk \<times> chunk) option" where
  "f2345 F k opc rand =
     (if \<not> aes_set_key F k then None
      else
        (case aes_encrypt F k (memxor rand opc) of
           None \<Rightarrow> None
         | Some temp \<Rightarrow>
             (case out_block F k opc 0 1 temp (memxor rand opc) of
                None \<Rightarrow> None
              | Some data2 \<Rightarrow>
             (case out_block F k opc 12 2 temp data2 of
                None \<Rightarrow> None
              | Some data3 \<Rightarrow>
             (case out_block F k opc 8 4 temp data3 of
                None \<Rightarrow> None
              | Some data4 \<Rightarrow> Some (take 8 (drop 8 data2), data3, data4, take 6 data2))))))"

definition f5star :: "aes \<Rightarrow> chunk \<Rightarrow> chunk \<Rightarrow> chunk \<Rightarrow> chunk option" where
  "f5star F k opc rand =
     (if \<not> aes_set_key F k then None
      else
        (case aes_encrypt F k (memxor rand opc) of
           None \<Rightarrow> None
         | Some temp \<Rightarrow>
             (case out_block F k opc 4 8 temp (memxor rand opc) of
                None \<Rightarrow> None
              | Some data \<Rightarrow> Some (take 6 data))))"

section \<open>Bytes and 128-bit words\<close>

abbreviation block :: "chunk \<Rightarrow> 128 word" where
  "block bs \<equiv> be_word bs"

lemma be_bytes_block: "length bs = 16 \<Longrightarrow> be_bytes 16 (block bs) = bs"
  using be_bytes_be_word [of bs, where 'a = 128] by simp

lemma length_memxor [simp]: "length (memxor a b) = min (length a) (length b)"
  by (simp add: memxor_def)

lemma be_word_memxor:
  assumes "length a = length b"
  shows "(be_word (memxor a b) :: 'a::len word) = be_word a XOR be_word b"
proof (rule bit_word_eqI)
  fix n assume "n < LENGTH('a)"
  then show "bit (be_word (memxor a b) :: 'a word) n \<longleftrightarrow> bit (be_word a XOR be_word b :: 'a word) n"
    using assms by (cases "n < 8 * length b") (auto simp: bit_be_word bit_simps memxor_def)
qed

lemma block_rotate:
  assumes "length bs = 16" "n < 16"
  shows "block (rotate n bs) = word_rotl (8 * n) (block bs)"
proof (rule bit_word_eqI)
  fix m assume "m < LENGTH(128)"
  then have m: "m < 128" by simp
  define a b where "a = m div 8" and "b = m mod 8"
  have ab: "m = 8 * a + b" "b < 8" "a < 16" using m by (auto simp: a_def b_def)
  define c where "c = (if n \<le> a then a - n else a + 16 - n)"
  have c: "c < 16" "15 - c = (n + (15 - a)) mod 16" using ab(3) assms(2) by (auto simp: c_def mod_if)
  have "(m + (128 - 8 * n)) mod 128 = 8 * c + b"
    using ab assms(2) by (auto simp: c_def mod_if)
  moreover have "(8 * n) mod 128 = 8 * n" "8 * n \<le> 128" using assms(2) by auto
  ultimately have k: "(m + 128 - (8 * n) mod 128) mod 128 = 8 * c + b" by simp
  have bc: "(8 * c + b) div 8 = c" "(8 * c + b) mod 8 = b" "8 * c + b < 128" using ab(2) c(1) by auto
  have "bit (block (rotate n bs)) m \<longleftrightarrow> bit (bs ! ((n + (15 - a)) mod 16)) b"
    using m assms ab(3) by (simp add: bit_be_word nth_rotate a_def b_def)
  moreover have "bit (word_rotl (8 * n) (block bs)) m \<longleftrightarrow> bit (bs ! (15 - c)) b"
    using m assms(1) ab(2) by (simp add: bit_word_rotl_iff k bit_be_word bc)
  ultimately show "bit (block (rotate n bs)) m \<longleftrightarrow> bit (word_rotl (8 * n) (block bs)) m" using c(2) by simp
qed

section \<open>The loops are rotations\<close>

lemma length_16E:
  assumes "length xs = (16 :: nat)"
  obtains a b c d e f g h i j k l m n p q where "xs = [a, b, c, d, e, f, g, h, i, j, k, l, m, n, p, q]"
proof -
  have "\<exists>a b c d e f g h i j k l m n p q. xs = [a, b, c, d, e, f, g, h, i, j, k, l, m, n, p, q]"
    using assms by (simp add: length_Suc_conv eval_nat_numeral) blast
  then show thesis using that by blast
qed

lemma upt_16: "[0..<16] = [0, 1, 2, 3, 4, 5, 6, 7, 8, 9, 10, 11, 12, 13, 14, 15]"
  by (simp add: upt_rec)

lemma set_shifted_rotate:
  assumes "length x = 16" "length d = 16"
  shows "set_shifted 0 x d = rotate 0 x" "set_shifted 12 x d = rotate 4 x"
    and "set_shifted 8 x d = rotate 8 x" "set_shifted 4 x d = rotate 12 x"
  by (rule length_16E [OF assms(1)], rule length_16E [OF assms(2)],
      simp add: set_shifted_def upt_16 rotate_drop_take)+

lemma xor_shifted_rotate:
  assumes "length x = 16" "length d = 16"
  shows "xor_shifted 8 x d = memxor d (rotate 8 x)"
  by (rule length_16E [OF assms(1)], rule length_16E [OF assms(2)])
    (simp add: xor_shifted_def upt_16 rotate_drop_take memxor_def)

lemma block_last_xor:
  assumes "length d = 16"
  shows "block (d[15 := (d ! 15) XOR c]) = block d XOR ucast c"
proof -
  have "d[15 := (d ! 15) XOR c] = memxor d (replicate 15 0 @ [c])"
    by (rule length_16E [OF assms]) (simp add: memxor_def eval_nat_numeral)
  moreover have "block (replicate 15 0 @ [c]) = ucast c"
    by (simp add: be_word_def eval_nat_numeral)
  ultimately show ?thesis using assms by (simp add: be_word_memxor)
qed

section \<open>The formulas of TS 35.206\<close>

text \<open>
  \<open>E\<close> is the block cipher under K.  The constants are those of the specification, section 4.1:
  the output blocks \<open>OUT\<^sub>2\<close> to \<open>OUT\<^sub>5\<close> rotate by 0, 32, 64 and 96 bits and add 1, 2, 4 and 8;
  \<open>OUT\<^sub>1\<close> rotates its input by 64 bits and adds nothing.
\<close>

definition ts_temp :: "(128 word \<Rightarrow> 128 word) \<Rightarrow> 128 word \<Rightarrow> 128 word \<Rightarrow> 128 word" where
  "ts_temp E opc rand = E (rand XOR opc)"

definition ts_out1 :: "(128 word \<Rightarrow> 128 word) \<Rightarrow> 128 word \<Rightarrow> 128 word \<Rightarrow> 128 word \<Rightarrow> 128 word" where
  "ts_out1 E opc rand in1 = E (ts_temp E opc rand XOR word_rotl 64 (in1 XOR opc)) XOR opc"

definition ts_out :: "(128 word \<Rightarrow> 128 word) \<Rightarrow> 128 word \<Rightarrow> 128 word \<Rightarrow> nat \<Rightarrow> 128 word \<Rightarrow> 128 word" where
  "ts_out E opc rand r c = E (word_rotl r (ts_temp E opc rand XOR opc) XOR c) XOR opc"

text \<open>AES-128 accepts every key of 16 octets and encrypts a block of 16 octets to one.\<close>

definition aes_laws :: "aes \<Rightarrow> bool" where
  "aes_laws F \<longleftrightarrow> (\<forall>k. length k = 16 \<longrightarrow> aes_set_key F k
     \<and> (\<forall>x. length x = 16 \<longrightarrow> (\<exists>y. aes_encrypt F k x = Some y \<and> length y = 16)))"

definition cipher :: "aes \<Rightarrow> chunk \<Rightarrow> 128 word \<Rightarrow> 128 word" where
  "cipher F k x = block (the (aes_encrypt F k (be_bytes 16 x)))"

lemma aes_total:
  assumes "aes_laws F" "length k = 16" "length x = 16"
  obtains y where "aes_encrypt F k x = Some y" "length y = 16" "block y = cipher F k (block x)"
proof -
  obtain y where y: "aes_encrypt F k x = Some y" "length y = 16" using assms unfolding aes_laws_def by blast
  then have "block y = cipher F k (block x)" using assms(3) by (simp add: cipher_def be_bytes_block)
  with y show thesis by (rule that)
qed

lemma out_block_ts:
  assumes F: "aes_laws F" "length k = 16" and l: "length opc = 16" "length temp = 16" "length data = 16"
    and t: "block temp = ts_temp (cipher F k) (block opc) (block rand)"
    and s: "(s, r) \<in> {(0, 0), (12, 32), (8, 64), (4, 96)}"
  obtains out where "out_block F k opc s c temp data = Some out" "length out = 16"
    and "block out = ts_out (cipher F k) (block opc) (block rand) r (ucast c)"
proof -
  let ?x = "memxor temp opc" and ?d = "set_shifted s (memxor temp opc) data"
  have x: "length ?x = 16" using l by simp
  obtain n where n: "n < 16" "r = 8 * n" "?d = rotate n ?x"
    using s set_shifted_rotate [OF x l(3)] by auto
  then have d: "length ?d = 16" "block ?d = word_rotl r (ts_temp (cipher F k) (block opc) (block rand) XOR block opc)"
    using block_rotate [OF x n(1)] x l t by (simp_all add: be_word_memxor)
  let ?e = "?d[15 := (?d ! 15) XOR c]"
  have e: "length ?e = 16" using d(1) by simp
  obtain y where y: "aes_encrypt F k ?e = Some y" "length y = 16" "block y = cipher F k (block ?e)"
    by (rule aes_total [OF F e])
  show thesis
  proof (rule that [of "memxor y opc"])
    show "out_block F k opc s c temp data = Some (memxor y opc)"
      using y(1) by (simp add: out_block_def memxor_def Let_def)
    show "block (memxor y opc) = ts_out (cipher F k) (block opc) (block rand) r (ucast c)"
      using y l by (simp add: be_word_memxor ts_out_def block_last_xor [OF d(1)] d(2))
  qed (use y l in simp)
qed

lemma temp_ts:
  assumes F: "aes_laws F" "length k = 16" and l: "length opc = 16" "length rand = 16"
  obtains temp where "aes_encrypt F k (memxor rand opc) = Some temp" "length temp = 16"
    and "block temp = ts_temp (cipher F k) (block opc) (block rand)"
proof (rule aes_total [OF F, of "memxor rand opc"], goal_cases)
  case (2 y)
  then show thesis using l that [of y] by (simp add: be_word_memxor ts_temp_def)
qed (use l in simp)

lemma f1andf1star_ts:
  assumes F: "aes_laws F" "length k = 16" and l: "length opc = 16" "length rand = 16" "length sqn = 6" "length amf = 2"
  shows "f1andf1star F k opc rand sqn amf
    = Some (be_bytes 16 (ts_out1 (cipher F k) (block opc) (block rand) (block (sqn @ amf @ sqn @ amf))))"
proof (rule temp_ts [OF F l(1,2)])
  fix temp
  assume t: "aes_encrypt F k (memxor rand opc) = Some temp" "length temp = 16"
    "block temp = ts_temp (cipher F k) (block opc) (block rand)"
  let ?in = "sqn @ amf @ sqn @ amf" and ?d = "xor_shifted 8 (memxor (sqn @ amf @ sqn @ amf) opc) temp"
  have i: "length (memxor ?in opc) = 16" using l by simp
  have d: "length ?d = 16" "block ?d = block temp XOR word_rotl 64 (block ?in XOR block opc)"
    using xor_shifted_rotate [OF i t(2)] block_rotate [OF i, of 8] i t(2) l by (simp_all add: be_word_memxor)
  obtain y where y: "aes_encrypt F k ?d = Some y" "length y = 16" "block y = cipher F k (block ?d)"
    by (rule aes_total [OF F d(1)])
  have "aes_set_key F k" using F by (simp add: aes_laws_def)
  then have "f1andf1star F k opc rand sqn amf = Some (memxor y opc)"
    using t(1) y(1) l by (simp add: f1andf1star_def memxor_def Let_def)
  moreover have "be_bytes 16 (block (memxor y opc)) = memxor y opc" using y(2) l by (simp add: be_bytes_block)
  moreover have "block (memxor y opc) = ts_out1 (cipher F k) (block opc) (block rand) (block ?in)"
    using y l t(3) by (simp add: be_word_memxor ts_out1_def d(2))
  ultimately show ?thesis by metis
qed

lemma f2345_ts:
  assumes F: "aes_laws F" "length k = 16" and l: "length opc = 16" "length rand = 16"
  shows "f2345 F k opc rand = Some (
    let OUT = ts_out (cipher F k) (block opc) (block rand) in
      (be_bytes 8 (OUT 0 1), be_bytes 16 (OUT 32 2), be_bytes 16 (OUT 64 4), be_bytes 6 (drop_bit 80 (OUT 0 1))))"
proof (rule temp_ts [OF F l(1,2)])
  fix temp
  assume t: "aes_encrypt F k (memxor rand opc) = Some temp" "length temp = 16"
    "block temp = ts_temp (cipher F k) (block opc) (block rand)"
  have d: "length (memxor rand opc) = 16" using l by simp
  obtain d2 where d2: "out_block F k opc 0 1 temp (memxor rand opc) = Some d2" "length d2 = 16"
    "block d2 = ts_out (cipher F k) (block opc) (block rand) 0 (ucast (1 :: byte))"
    by (rule out_block_ts [OF F l(1) t(2) d t(3), of 0 0 1]) simp_all
  obtain d3 where d3: "out_block F k opc 12 2 temp d2 = Some d3" "length d3 = 16"
    "block d3 = ts_out (cipher F k) (block opc) (block rand) 32 (ucast (2 :: byte))"
    by (rule out_block_ts [OF F l(1) t(2) d2(2) t(3), of 12 32 2]) simp_all
  obtain d4 where d4: "out_block F k opc 8 4 temp d3 = Some d4" "length d4 = 16"
    "block d4 = ts_out (cipher F k) (block opc) (block rand) 64 (ucast (4 :: byte))"
    by (rule out_block_ts [OF F l(1) t(2) d3(2) t(3), of 8 64 4]) simp_all
  have "aes_set_key F k" using F by (simp add: aes_laws_def)
  then have "f2345 F k opc rand = Some (take 8 (drop 8 d2), d3, d4, take 6 d2)"
    using t(1) d2(1) d3(1) d4(1) by (simp add: f2345_def)
  moreover have "take 8 (drop 8 d2) = be_bytes 8 (block d2)" "take 6 d2 = be_bytes 6 (drop_bit 80 (block d2))"
    using drop_be_bytes [of 8 8 "block d2"] take_be_bytes [of 6 10 "block d2"] d2(2) by (simp_all add: be_bytes_block)
  moreover have "d3 = be_bytes 16 (block d3)" "d4 = be_bytes 16 (block d4)"
    using d3(2) d4(2) by (simp_all add: be_bytes_block)
  ultimately show ?thesis using d2(3) d3(3) d4(3) by (simp add: Let_def)
qed

lemma f5star_ts:
  assumes F: "aes_laws F" "length k = 16" and l: "length opc = 16" "length rand = 16"
  shows "f5star F k opc rand
    = Some (be_bytes 6 (drop_bit 80 (ts_out (cipher F k) (block opc) (block rand) 96 8)))"
proof (rule temp_ts [OF F l(1,2)])
  fix temp
  assume t: "aes_encrypt F k (memxor rand opc) = Some temp" "length temp = 16"
    "block temp = ts_temp (cipher F k) (block opc) (block rand)"
  have d: "length (memxor rand opc) = 16" using l by simp
  obtain d5 where d5: "out_block F k opc 4 8 temp (memxor rand opc) = Some d5" "length d5 = 16"
    "block d5 = ts_out (cipher F k) (block opc) (block rand) 96 (ucast (8 :: byte))"
    by (rule out_block_ts [OF F l(1) t(2) d t(3), of 4 96 8]) simp_all
  have "aes_set_key F k" using F by (simp add: aes_laws_def)
  then have "f5star F k opc rand = Some (take 6 d5)" using t(1) d5(1) by (simp add: f5star_def)
  moreover have "take 6 d5 = be_bytes 6 (drop_bit 80 (block d5))"
    using take_be_bytes [of 6 10 "block d5"] d5(2) by (simp add: be_bytes_block)
  ultimately show ?thesis using d5(3) by simp
qed

section \<open>The sequence number in memory\<close>

lemma le_bytes_htonl: "le_bytes 4 (htonl w) = be_bytes 4 w"
  using be_bytes_be_word [of "rev (be_bytes 4 w)", where 'a = 32] by (simp add: le_bytes_def htonl_def)

lemma le_bytes_widen: "le_bytes 8 (ucast (w :: 32 word) :: 64 word) = le_bytes 4 w @ [0, 0, 0, 0]"
proof -
  have "be_bytes 8 (ucast w :: 64 word) = replicate 4 0 @ be_bytes 4 w"
  proof (rule nth_equalityI)
    fix i assume "i < length (be_bytes 8 (ucast w :: 64 word))"
    then have i: "i < 8" by simp
    show "be_bytes 8 (ucast w :: 64 word) ! i = (replicate 4 0 @ be_bytes 4 w) ! i"
    proof (rule bit_word_eqI)
      fix j assume "j < LENGTH(8)"
      then have j: "j < 8" by simp
      show "bit (be_bytes 8 (ucast w :: 64 word) ! i) j \<longleftrightarrow> bit ((replicate 4 0 @ be_bytes 4 w) ! i) j"
      proof (cases "i < 4")
        case True
        then have "\<not> bit w (8 * (7 - i) + j)" using bit_imp_le_length [of w "8 * (7 - i) + j"] by auto
        then show ?thesis using True i j by (simp add: bit_be_bytes bit_simps nth_append)
      next
        case False
        then have "3 - (i - 4) = 7 - i" using i by simp
        then show ?thesis using False i j by (auto simp: bit_be_bytes bit_simps nth_append)
      qed
    qed
  qed simp
  then show ?thesis by (simp add: le_bytes_def eval_nat_numeral)
qed

lemma get_sqn_value:
  "eap_aka_3gpp_get_sqn tv_sec tv_usec offset
    = [0, 0, 0, 0] @ be_bytes 2 (drop_bit 16 (ucast (push_bit 12 tv_usec) :: 32 word))"
  using take_be_bytes [of 2 2 "ucast (push_bit 12 tv_usec) :: 32 word"]
  by (simp add: eap_aka_3gpp_get_sqn_def le_bytes_widen le_bytes_htonl Let_def)

section \<open>Properties\<close>

text \<open>
  C16. The functions of the plugin compute MILENAGE: with an AES-128 that works on keys and blocks of
  16 octets, they succeed on inputs of the prescribed sizes, and MAC-A, MAC-S, RES, CK, IK, AK
  and the AK of a resynchronisation are the bits of the output blocks that TS 35.206 defines by
  rotations and constants on 128-bit words.
\<close>

theorem milenage_ts35206:
  assumes "aes_laws F" "length k = 16" "length opc = 16" "length rand = 16" "length sqn = 6" "length amf = 2"
  defines "OUT1 \<equiv> ts_out1 (cipher F k) (block opc) (block rand) (block (sqn @ amf @ sqn @ amf))"
  defines "OUT \<equiv> ts_out (cipher F k) (block opc) (block rand)"
  shows "f1 F k opc rand sqn amf = Some (be_bytes 8 (drop_bit 64 OUT1))
    \<and> f1star F k opc rand sqn amf = Some (be_bytes 8 OUT1)
    \<and> f2345 F k opc rand = Some (be_bytes 8 (OUT 0 1), be_bytes 16 (OUT 32 2), be_bytes 16 (OUT 64 4), be_bytes 6 (drop_bit 80 (OUT 0 1)))
    \<and> f5star F k opc rand = Some (be_bytes 6 (drop_bit 80 (OUT 96 8)))"
proof -
  have o: "take 8 (be_bytes 16 OUT1) = be_bytes 8 (drop_bit 64 OUT1)" "take 8 (drop 8 (be_bytes 16 OUT1)) = be_bytes 8 OUT1"
    using take_be_bytes [of 8 8 OUT1] drop_be_bytes [of 8 8 OUT1] by simp_all
  have "f1andf1star F k opc rand sqn amf = Some (be_bytes 16 OUT1)"
    unfolding OUT1_def by (rule f1andf1star_ts [OF assms(1-6)])
  then show ?thesis using o f2345_ts [OF assms(1-4)] f5star_ts [OF assms(1-4)]
    by (simp add: f1_def f1star_def OUT_def Let_def)
qed

text \<open>
  The initial sequence number does not depend on the time in seconds: on the 64-bit
  little-endian targets its first four octets are zero, whatever the clock and the offset for
  clock skew are, and the other two are the upper bits of the microseconds.
\<close>

theorem get_sqn_ignores_seconds:
  "eap_aka_3gpp_get_sqn tv_sec tv_usec offset
     = [0, 0, 0, 0] @ be_bytes 2 (drop_bit 16 (ucast (push_bit 12 tv_usec) :: 32 word))
   \<and> eap_aka_3gpp_get_sqn tv_sec tv_usec offset = eap_aka_3gpp_get_sqn tv_sec' tv_usec offset'"
  by (simp add: get_sqn_value)

section \<open>Witness\<close>

definition sample_aes :: aes where
  "sample_aes = \<lparr>aes_set_key = (\<lambda>k. True), aes_encrypt = (\<lambda>k x. Some (memxor x k))\<rparr>"

lemma sample_aes_laws: "aes_laws sample_aes"
  by (simp add: aes_laws_def sample_aes_def)

theorem milenage_ts35206_witness:
  "f5star sample_aes (replicate 16 1) (replicate 16 2) (replicate 16 3)
    = Some (be_bytes 6 (drop_bit 80 (ts_out (cipher sample_aes (replicate 16 1)) (block (replicate 16 2)) (block (replicate 16 3)) 96 8)))
   \<and> f1 sample_aes (replicate 16 1) (replicate 16 2) (replicate 16 3) (replicate 6 4) (replicate 2 5) \<noteq> None"
  using milenage_ts35206 [OF sample_aes_laws, of "replicate 16 1" "replicate 16 2" "replicate 16 3" "replicate 6 4" "replicate 2 5"]
  by simp

end
