(* ===== verification/Chunk.thy ===== *)
theory Chunk
  imports Prelude
begin

text \<open>
  Sequences of octets, \<open>libstrongswan/utils/chunk.c\<close>: comparison, increment, padded copies, the
  hexadecimal, base 64 and base 32 notations, and SipHash-2-4, with which hash tables are
  filled.  The variants that write into a buffer of the caller and those that allocate one give
  the same octets.
\<close>

section \<open>Comparison, increment, copy\<close>

text \<open>Bytes are compared as \<open>unsigned char\<close>; only the sign of the result counts.\<close>

fun memcmp :: "chunk \<Rightarrow> chunk \<Rightarrow> int" where
  "memcmp (a # as) (b # bs) = (if a = b then memcmp as bs else uint a - uint b)"
| "memcmp _ _ = 0"

definition chunk_compare :: "chunk \<Rightarrow> chunk \<Rightarrow> int" where
  "chunk_compare a b =
     (let compare_len = int (length a) - int (length b);
          len = (if compare_len < 0 then length a else length b) in
      if compare_len \<noteq> 0 \<or> len = 0 then compare_len else memcmp (take len a) (take len b))"

text \<open>The loop runs from the last octet; the result is whether it ran out of octets.\<close>

fun increment_from :: "chunk \<Rightarrow> bool \<times> chunk" where
  "increment_from [] = (True, [])"
| "increment_from (b # bs) =
     (if b + 1 \<noteq> 0 then (False, (b + 1) # bs)
      else let (c, r) = increment_from bs in (c, (b + 1) # r))"

definition chunk_increment :: "chunk \<Rightarrow> bool \<times> chunk" where
  "chunk_increment c = (let (r, bs) = increment_from (rev c) in (r, rev bs))"

definition chunk_copy_pad :: "nat \<Rightarrow> chunk \<Rightarrow> byte \<Rightarrow> chunk" where
  "chunk_copy_pad dst_len src chr =
     (if dst_len > length src then replicate (dst_len - length src) chr @ src
      else drop (length src - dst_len) src)"

section \<open>Hexadecimal\<close>

definition hexdig :: "bool \<Rightarrow> byte list" where
  "hexdig uppercase =
     (if uppercase then [48, 49, 50, 51, 52, 53, 54, 55, 56, 57, 65, 66, 67, 68, 69, 70]
      else [48, 49, 50, 51, 52, 53, 54, 55, 56, 57, 97, 98, 99, 100, 101, 102])"

definition chunk_to_hex :: "chunk \<Rightarrow> bool \<Rightarrow> chunk" where
  "chunk_to_hex chunk uppercase =
     concat (map (\<lambda>b. [hexdig uppercase ! unat (drop_bit 4 b AND 0xF), hexdig uppercase ! unat (b AND 0xF)]) chunk)"

definition hex2bin :: "byte \<Rightarrow> byte" where
  "hex2bin hex =
     (if 48 \<le> hex \<and> hex \<le> 57 then hex - 48
      else if 65 \<le> hex \<and> hex \<le> 70 then hex - 65 + 10
      else if 97 \<le> hex \<and> hex \<le> 102 then hex - 97 + 10
      else 0)"

definition COLON :: byte where "COLON = 58"

text \<open>
  The loop that fills the buffer from the right: \<open>hex\<close> holds the characters before the pointer,
  nearest first, and a read beyond them would leave the buffer.
\<close>

fun hex_loop :: "nat \<Rightarrow> bool \<Rightarrow> chunk \<Rightarrow> chunk \<Rightarrow> chunk res" where
  "hex_loop 0 odd_len hex buf = Inr buf"
| "hex_loop (Suc i) odd_len hex buf =
     (let h = (case hex of c # r \<Rightarrow> if c = COLON then r else hex | [] \<Rightarrow> []) in
      case h of
        [] \<Rightarrow> Inl OutOfBounds
      | c # r \<Rightarrow>
          if i > 0 \<or> \<not> odd_len then
            (case r of
               [] \<Rightarrow> Inl OutOfBounds
             | d # r1 \<Rightarrow> hex_loop i odd_len r1 ((hex2bin c OR push_bit 4 (hex2bin d)) # buf))
          else hex_loop i odd_len r (hex2bin c # buf))"

definition chunk_from_hex :: "chunk \<Rightarrow> chunk res" where
  "chunk_from_hex hex =
     (let h = (if length hex > 1 \<and> hex ! 1 = 120 \<and> hex ! 0 = 48 then drop 2 hex else hex);
          len = length h - length (filter (\<lambda>c. c = COLON) h);
          odd_len = (len mod 2 \<noteq> 0) in
      hex_loop ((if odd_len then len + 1 else len) div 2) odd_len (rev h) [])"

section \<open>Base 64 and base 32\<close>

definition b64digits :: "byte list" where
  "b64digits =
     [65, 66, 67, 68, 69, 70, 71, 72, 73, 74, 75, 76, 77, 78, 79, 80, 81, 82, 83, 84, 85, 86, 87, 88, 89, 90,
      97, 98, 99, 100, 101, 102, 103, 104, 105, 106, 107, 108, 109, 110, 111, 112, 113, 114, 115, 116, 117,
      118, 119, 120, 121, 122, 48, 49, 50, 51, 52, 53, 54, 55, 56, 57, 43, 47]"

definition EQUALS :: byte where "EQUALS = 61"

abbreviation b64 :: "byte \<Rightarrow> byte" where
  "b64 x \<equiv> b64digits ! unat x"

fun chunk_to_base64 :: "chunk \<Rightarrow> chunk" where
  "chunk_to_base64 [] = []"
| "chunk_to_base64 [a] = [b64 (drop_bit 2 a), b64 (push_bit 4 (a AND 0x03)), EQUALS, EQUALS]"
| "chunk_to_base64 [a, b] =
     [b64 (drop_bit 2 a), b64 (push_bit 4 (a AND 0x03) OR drop_bit 4 b), b64 (push_bit 2 (b AND 0x0F)), EQUALS]"
| "chunk_to_base64 (a # b # c # r) =
     [b64 (drop_bit 2 a), b64 (push_bit 4 (a AND 0x03) OR drop_bit 4 b),
      b64 (push_bit 2 (b AND 0x0F) OR drop_bit 6 c), b64 (c AND 0x3F)] @ chunk_to_base64 r"

text \<open>The result of the function is an \<open>int\<close>, -1 for other characters, and stored in an octet.\<close>

definition b642bin :: "byte \<Rightarrow> byte" where
  "b642bin c =
     (if 65 \<le> c \<and> c \<le> 90 then c - 65
      else if 97 \<le> c \<and> c \<le> 122 then 26 + c - 97
      else if 48 \<le> c \<and> c \<le> 57 then 26 + 26 + c - 48
      else if c = 43 \<or> c = 45 then 62
      else if c = 47 \<or> c = 95 then 63
      else if c = EQUALS then 0
      else - 1)"

definition b64_outlen :: "nat \<Rightarrow> byte list \<Rightarrow> nat" where
  "b64_outlen outlen cs = foldl (\<lambda>n c. if c = EQUALS \<and> n > 0 then n - 1 else n) (outlen + 3) cs"

fun base64_loop :: "chunk \<Rightarrow> nat \<Rightarrow> chunk \<times> nat" where
  "base64_loop (a # b # c # d # r) outlen =
     (let (buf, n) = base64_loop r (b64_outlen outlen [a, b, c, d]) in
      ([push_bit 2 (b642bin a) OR drop_bit 4 (b642bin b), push_bit 4 (b642bin b) OR drop_bit 2 (b642bin c),
        push_bit 6 (b642bin c) OR b642bin d] @ buf, n))"
| "base64_loop _ outlen = ([], outlen)"

definition chunk_from_base64 :: "chunk \<Rightarrow> chunk" where
  "chunk_from_base64 base64 = (let (buf, outlen) = base64_loop base64 0 in take outlen buf)"

definition b32digits :: "byte list" where
  "b32digits =
     [65, 66, 67, 68, 69, 70, 71, 72, 73, 74, 75, 76, 77, 78, 79, 80, 81, 82, 83, 84, 85, 86, 87, 88, 89, 90,
      50, 51, 52, 53, 54, 55]"

abbreviation b32 :: "byte \<Rightarrow> byte" where
  "b32 x \<equiv> b32digits ! unat x"

fun chunk_to_base32 :: "chunk \<Rightarrow> chunk" where
  "chunk_to_base32 [] = []"
| "chunk_to_base32 [a] = [b32 (drop_bit 3 a), b32 (push_bit 2 (a AND 0x07))] @ replicate 6 EQUALS"
| "chunk_to_base32 [a, b] =
     [b32 (drop_bit 3 a), b32 (push_bit 2 (a AND 0x07) OR drop_bit 6 b), b32 (drop_bit 1 (b AND 0x3E)),
      b32 (push_bit 4 (b AND 0x01))] @ replicate 4 EQUALS"
| "chunk_to_base32 [a, b, c] =
     [b32 (drop_bit 3 a), b32 (push_bit 2 (a AND 0x07) OR drop_bit 6 b), b32 (drop_bit 1 (b AND 0x3E)),
      b32 (push_bit 4 (b AND 0x01) OR drop_bit 4 c), b32 (push_bit 1 (c AND 0x0F))] @ replicate 3 EQUALS"
| "chunk_to_base32 [a, b, c, d] =
     [b32 (drop_bit 3 a), b32 (push_bit 2 (a AND 0x07) OR drop_bit 6 b), b32 (drop_bit 1 (b AND 0x3E)),
      b32 (push_bit 4 (b AND 0x01) OR drop_bit 4 c), b32 (push_bit 1 (c AND 0x0F) OR drop_bit 7 d),
      b32 (drop_bit 2 (d AND 0x7F)), b32 (push_bit 3 (d AND 0x03)), EQUALS]"
| "chunk_to_base32 (a # b # c # d # e # r) =
     [b32 (drop_bit 3 a), b32 (push_bit 2 (a AND 0x07) OR drop_bit 6 b), b32 (drop_bit 1 (b AND 0x3E)),
      b32 (push_bit 4 (b AND 0x01) OR drop_bit 4 c), b32 (push_bit 1 (c AND 0x0F) OR drop_bit 7 d),
      b32 (drop_bit 2 (d AND 0x7F)), b32 (push_bit 3 (d AND 0x03) OR drop_bit 5 e), b32 (e AND 0x1F)]
     @ chunk_to_base32 r"

section \<open>SipHash-2-4\<close>

definition sipget :: "chunk \<Rightarrow> 64 word" where
  "sipget inp = foldl (\<lambda>v i. v OR push_bit (8 * i) (ucast (inp ! i))) 0 [0..<8]"

definition siprotate :: "64 word \<Rightarrow> nat \<Rightarrow> 64 word" where
  "siprotate v shift = push_bit shift v OR drop_bit (64 - shift) v"

type_synonym sip = "64 word \<times> 64 word \<times> 64 word \<times> 64 word"

definition sipround :: "sip \<Rightarrow> sip" where
  "sipround = (\<lambda>(v0, v1, v2, v3).
     let v0 = v0 + v1; v1 = siprotate v1 13; v1 = v1 XOR v0; v0 = siprotate v0 32;
         v2 = v2 + v3; v3 = siprotate v3 16; v3 = v3 XOR v2;
         v2 = v2 + v1; v1 = siprotate v1 17; v1 = v1 XOR v2; v2 = siprotate v2 32;
         v0 = v0 + v3; v3 = siprotate v3 21; v3 = v3 XOR v0
     in (v0, v1, v2, v3))"

definition sipcompress :: "64 word \<Rightarrow> sip \<Rightarrow> sip" where
  "sipcompress m = (\<lambda>(v0, v1, v2, v3).
     let (v0, v1, v2, v3) = sipround (sipround (v0, v1, v2, v3 XOR m)) in (v0 XOR m, v1, v2, v3))"

text \<open>The cases of the switch fall through: the octets that remain, the first one lowest.\<close>

definition siplast :: "nat \<Rightarrow> chunk \<Rightarrow> 64 word" where
  "siplast len pos =
     foldl (\<lambda>b i. b OR push_bit (8 * i) (ucast (pos ! i))) (push_bit 56 (of_nat len)) (rev [0..<len mod 8])"

text \<open>The loop over full blocks: the octets that are left, and the state.\<close>

fun sipblocks :: "nat \<Rightarrow> chunk \<Rightarrow> sip \<Rightarrow> sip" where
  "sipblocks 0 pos v = v"
| "sipblocks (Suc n) pos v = sipblocks n (drop 8 pos) (sipcompress (sipget pos) v)"

definition chunk_mac_inc :: "chunk \<Rightarrow> chunk \<Rightarrow> 64 word \<Rightarrow> 64 word" where
  "chunk_mac_inc chunk key m =
     (let len = length chunk;
          k0 = sipget key; k1 = sipget (drop 8 key);
          v = (k0 XOR 0x736f6d6570736575, k1 XOR 0x646f72616e646f6d, k0 XOR 0x6c7967656e657261, k1 XOR 0x7465646279746573);
          v = (if m \<noteq> 0 then sipcompress m v else v);
          v = sipblocks (len div 8) chunk v;
          (v0, v1, v2, v3) = sipcompress (siplast len (drop (8 * (len div 8)) chunk)) v;
          (v0, v1, v2, v3) = sipround (sipround (sipround (sipround (v0, v1, v2 XOR 0xff, v3))))
      in v0 XOR v1 XOR v2 XOR v3)"

definition chunk_mac :: "chunk \<Rightarrow> chunk \<Rightarrow> 64 word" where
  "chunk_mac chunk key = chunk_mac_inc chunk key 0"

definition static_key :: chunk where
  "static_key = [0x00, 0x01, 0x02, 0x03, 0x04, 0x05, 0x06, 0x07, 0x08, 0x09, 0x0a, 0x0b, 0x0c, 0x0d, 0x0e, 0x0f]"

text \<open>The key of the process (\<open>hash_key\<close>) is a parameter.\<close>

definition chunk_hash_inc :: "chunk \<Rightarrow> chunk \<Rightarrow> 32 word \<Rightarrow> 32 word" where
  "chunk_hash_inc hash_key chunk hash = ucast (chunk_mac_inc chunk hash_key (push_bit 32 (ucast hash) OR ucast hash))"

definition chunk_hash :: "chunk \<Rightarrow> chunk \<Rightarrow> 32 word" where
  "chunk_hash hash_key chunk = ucast (chunk_mac chunk hash_key)"

definition chunk_hash_static_inc :: "chunk \<Rightarrow> 32 word \<Rightarrow> 32 word" where
  "chunk_hash_static_inc chunk hash = ucast (chunk_mac_inc chunk static_key (push_bit 32 (ucast hash) OR ucast hash))"

definition chunk_hash_static :: "chunk \<Rightarrow> 32 word" where
  "chunk_hash_static chunk = ucast (chunk_mac chunk static_key)"

section \<open>Octets as a number\<close>

primrec addr_val :: "chunk \<Rightarrow> nat" where
  "addr_val [] = 0"
| "addr_val (b # bs) = unat b * 256 ^ length bs + addr_val bs"

lemma addr_val_less: "addr_val bs < 256 ^ length bs"
proof (induction bs)
  case (Cons b bs)
  have "unat b + 1 \<le> 256" using unat_byte_less [of b] by linarith
  then have "(unat b + 1) * 256 ^ length bs \<le> 256 * 256 ^ length bs" by (rule mult_le_mono1)
  moreover have "(unat b + 1) * 256 ^ length bs = unat b * 256 ^ length bs + 256 ^ length bs" by simp
  moreover have "256 ^ length (b # bs) = 256 * (256 :: nat) ^ length bs" by simp
  ultimately show ?case unfolding addr_val.simps using Cons by linarith
qed simp

lemma memcmp_less:
  assumes "length xs = length ys" "unat x < unat y"
  shows "addr_val (x # xs) < addr_val (y # ys)"
proof -
  have "(unat x + 1) * 256 ^ length xs \<le> unat y * 256 ^ length xs" using assms(2) by (intro mult_le_mono1) simp
  then show ?thesis using addr_val_less [of xs] assms(1) by simp
qed

lemma memcmp_val:
  assumes "length xs = length ys"
  shows "0 < memcmp xs ys \<longleftrightarrow> addr_val ys < addr_val xs" and "memcmp xs ys < 0 \<longleftrightarrow> addr_val xs < addr_val ys"
  using assms
proof (induction xs ys rule: list_induct2)
  case (Cons x xs y ys)
  consider "x = y" | "unat x < unat y" | "unat y < unat x" using linorder_less_linear [of "unat x" "unat y"] by (auto simp: word_unat_eq_iff)
  then have "(0 < memcmp (x # xs) (y # ys) \<longleftrightarrow> addr_val (y # ys) < addr_val (x # xs))
    \<and> (memcmp (x # xs) (y # ys) < 0 \<longleftrightarrow> addr_val (x # xs) < addr_val (y # ys))"
  proof cases
    case 1
    then show ?thesis using Cons by simp
  next
    case 2
    then have "x < y" by (simp add: word_less_nat_alt)
    then have "uint x < uint y" "x \<noteq> y" by (auto simp: word_less_def)
    then show ?thesis using memcmp_less [OF Cons.hyps 2] by (simp del: addr_val.simps)
  next
    case 3
    then have "y < x" by (simp add: word_less_nat_alt)
    then have "uint y < uint x" "x \<noteq> y" by (auto simp: word_less_def)
    then show ?thesis using memcmp_less [OF Cons.hyps [symmetric] 3] by (simp del: addr_val.simps)
  qed
  then show "0 < memcmp (x # xs) (y # ys) \<longleftrightarrow> addr_val (y # ys) < addr_val (x # xs)"
    "memcmp (x # xs) (y # ys) < 0 \<longleftrightarrow> addr_val (x # xs) < addr_val (y # ys)" by blast+
qed simp_all

lemma addr_val_snoc: "addr_val (xs @ [b]) = addr_val xs * 256 + unat b"
  by (induction xs) (simp_all add: algebra_simps)

lemma increment_from_val:
  "length (snd (increment_from bs)) = length bs
   \<and> (fst (increment_from bs) \<longleftrightarrow> addr_val (rev bs) + 1 = 256 ^ length bs)
   \<and> addr_val (rev (snd (increment_from bs))) = (addr_val (rev bs) + 1) mod 256 ^ length bs"
proof (induction bs)
  case (Cons b bs)
  have l: "addr_val (rev bs) < 256 ^ length bs" using addr_val_less [of "rev bs"] by simp
  show ?case
  proof (cases "b + 1 = 0")
    case True
    then have "b = - 1" by (simp add: eq_neg_iff_add_eq_0)
    then have "unat b = 255" by (simp add: unsigned_minus_1_eq_mask mask_eq_exp_minus_1)
    then have v: "addr_val (rev (b # bs)) + 1 = 256 * (addr_val (rev bs) + 1)" by (simp add: addr_val_snoc)
    obtain c r where r: "increment_from bs = (c, r)" by (cases "increment_from bs")
    then have "addr_val (rev (0 # r)) = 256 * ((addr_val (rev bs) + 1) mod 256 ^ length bs)"
      using Cons.IH by (simp add: addr_val_snoc)
    moreover have "256 * (addr_val (rev bs) + 1) = 256 * 256 ^ length bs \<longleftrightarrow> addr_val (rev bs) + 1 = 256 ^ length bs"
      by (rule mult_left_cancel) simp
    ultimately show ?thesis using True r Cons.IH unfolding v by (simp add: mult_mod_right)
  next
    case False
    have "unat (b + 1) = (unat b + 1) mod 256" by (simp add: unat_word_ariths)
    moreover have "unat (b + 1) \<noteq> 0" using False by (simp add: unat_eq_zero)
    ultimately have u: "unat (b + 1) = unat b + 1" using unat_byte_less [of b] by (auto simp: mod_if split: if_split_asm)
    have "unat b + 1 < 256" using unat_byte_less [of "b + 1"] u by simp
    then have "addr_val (rev bs) * 256 + (unat b + 1) < 256 * 256 ^ length bs" using l by linarith
    then show ?thesis using False u by (simp add: addr_val_snoc)
  qed
qed simp

lemma chunk_increment_val:
  "length (snd (chunk_increment c)) = length c"
  "fst (chunk_increment c) \<longleftrightarrow> addr_val c + 1 = 256 ^ length c"
  "addr_val (snd (chunk_increment c)) = (addr_val c + 1) mod 256 ^ length c"
  using increment_from_val [of "rev c"] by (simp_all add: chunk_increment_def case_prod_beta Let_def)

lemma addr_val_inject: "length xs = length ys \<Longrightarrow> addr_val xs = addr_val ys \<Longrightarrow> xs = ys"
proof (induction xs ys rule: list_induct2)
  case (Cons x xs y ys)
  have "unat x = unat y"
    using memcmp_less [OF Cons.hyps, of x y] memcmp_less [OF Cons.hyps [symmetric], of y x] Cons.prems
    by (metis less_irrefl linorder_neqE_nat)
  then show ?case using Cons by (simp add: word_unat_eq_iff)
qed simp

lemma memcmp_ge: "length xs = length ys \<Longrightarrow> 0 \<le> memcmp xs ys \<longleftrightarrow> addr_val ys \<le> addr_val xs"
  using memcmp_val(2) [of xs ys] by linarith

section \<open>Hexadecimal and base 64 are read back\<close>

lemma hexdig_digits:
  assumes "i < 16"
  shows "hex2bin (hexdig u ! i) = of_nat i" "hexdig u ! i \<noteq> COLON" "hexdig u ! i \<noteq> 120"
proof -
  have "list_all (\<lambda>i. hex2bin (hexdig True ! i) = of_nat i \<and> hexdig True ! i \<noteq> COLON \<and> hexdig True ! i \<noteq> 120) [0..<16]"
    "list_all (\<lambda>i. hex2bin (hexdig False ! i) = of_nat i \<and> hexdig False ! i \<noteq> COLON \<and> hexdig False ! i \<noteq> 120) [0..<16]"
    by code_simp+
  then show "hex2bin (hexdig u ! i) = of_nat i" "hexdig u ! i \<noteq> COLON" "hexdig u ! i \<noteq> 120"
    using assms by (cases u; auto simp: list_all_iff)+
qed

lemma nibbles:
  fixes b :: byte
  shows "unat (drop_bit 4 b AND 0xF) < 16" "unat (b AND 0xF) < 16"
    and "(b AND 0xF) OR push_bit 4 (drop_bit 4 b AND 0xF) = b"
proof -
  have m: "(0xF :: byte) = mask 4" by (simp add: mask_eq_exp_minus_1)
  show "unat (drop_bit 4 b AND 0xF) < 16" "unat (b AND 0xF) < 16"
    unfolding m using take_bit_nat_less_exp [of 4 "unat (drop_bit 4 b)"] take_bit_nat_less_exp [of 4 "unat b"]
    by (simp_all add: unsigned_take_bit_eq flip: take_bit_eq_mask)
  show "(b AND 0xF) OR push_bit 4 (drop_bit 4 b AND 0xF) = b"
    unfolding m by (rule bit_word_eqI) (auto simp: bit_simps)
qed

lemma sextet_digits:
  assumes "i < 64"
  shows "b642bin (b64digits ! i) = of_nat i" "b64digits ! i \<noteq> EQUALS"
proof -
  have "list_all (\<lambda>i. b642bin (b64digits ! i) = of_nat i \<and> b64digits ! i \<noteq> EQUALS) [0..<64]" by code_simp
  then show "b642bin (b64digits ! i) = of_nat i" "b64digits ! i \<noteq> EQUALS"
    using assms by (auto simp: list_all_iff)
qed

text \<open>The vector of the SipHash paper: key \<open>00..0f\<close>, message \<open>00..0e\<close>.\<close>

lemma siphash_steps:
  "sipcompress 0x706050403020100 (0x7469686173716475, 0x6b617f6d656e6665, 0x6b7f62616d677361, 0x7b6b696e727e6c7b)
    = (0x4a017198de0a59e0, 0xd52f6f62a4f59a4, 0x634cb3577b01fd3d, 0xa5224d6f55c7d9c8)"
  "sipcompress 0xf0e0d0c0b0a0908 (0x4a017198de0a59e0, 0xd52f6f62a4f59a4, 0x634cb3577b01fd3d, 0xa5224d6f55c7d9c8)
    = (0x3c85b3ab6f55be51, 0x414fc3fb98efe374, 0xccf13ea527b9f4bd, 0x5293f5da84008f82)"
  "sipround (sipround (sipround (sipround (0x3c85b3ab6f55be51, 0x414fc3fb98efe374, 0xccf13ea527b9f442, 0x5293f5da84008f82))))
    = (0xf6bcd53893fecff1, 0x54b9964c7ea0d937, 0x1b38329c099bb55a, 0x1814bb89ad7be679)"
  by (simp_all add: sipcompress_def sipround_def siprotate_def Let_def)

lemma siphash_words:
  "sipget [0, 1, 2, 3, 4, 5, 6, 7, 8, 9, 10, 11, 12, 13, 14] = 0x706050403020100"
  "sipget static_key = 0x706050403020100" "sipget (drop 8 static_key) = 0xf0e0d0c0b0a0908"
  "n = 15 \<Longrightarrow> siplast n [8, 9, 10, 11, 12, 13, 14] = 0xf0e0d0c0b0a0908"
  by (simp_all add: sipget_def siplast_def static_key_def upt_rec)

lemma siphash_reference_vector:
  "chunk_mac [0, 1, 2, 3, 4, 5, 6, 7, 8, 9, 10, 11, 12, 13, 14] static_key = 0xa129ca6149be45e5"
  using siphash_steps by (simp add: chunk_mac_def chunk_mac_inc_def siphash_words)

text \<open>One round of each notation.\<close>

lemma hex_loop_digits:
  "hex_loop (length c) False (rev (chunk_to_hex c u)) buf = Inr (c @ buf)"
proof (induction c arbitrary: buf rule: rev_induct)
  case (snoc b c)
  have "(of_nat (unat (b AND 0xF)) :: byte) OR push_bit 4 (of_nat (unat (drop_bit 4 b AND 0xF))) = b"
    using nibbles(3) by simp
  then show ?case using snoc.IH [of "b # buf"] nibbles(1,2) [of b]
    by (simp add: chunk_to_hex_def hexdig_digits)
qed simp

lemma chunk_from_hex_to_hex: "chunk_from_hex (chunk_to_hex c u) = Inr c"
proof -
  have d: "\<forall>x \<in> set (chunk_to_hex c u). x \<noteq> COLON \<and> x \<noteq> 120"
    using hexdig_digits(2,3) nibbles(1,2) by (auto simp: chunk_to_hex_def)
  then have f: "filter (\<lambda>x. x = COLON) (chunk_to_hex c u) = []" by (simp add: filter_empty_conv)
  have l: "length (chunk_to_hex c u) = 2 * length c" by (induction c) (simp_all add: chunk_to_hex_def)
  have x: "\<not> (length (chunk_to_hex c u) > 1 \<and> chunk_to_hex c u ! 1 = 120 \<and> chunk_to_hex c u ! 0 = 48)"
    using d nth_mem [of 1 "chunk_to_hex c u"] by auto
  have "(if length (chunk_to_hex c u) > 1 \<and> chunk_to_hex c u ! 1 = 120 \<and> chunk_to_hex c u ! 0 = 48
      then drop 2 (chunk_to_hex c u) else chunk_to_hex c u) = chunk_to_hex c u"
    by (simp only: x if_False)
  then show ?thesis using hex_loop_digits [of c u "[]"] by (simp only: chunk_from_hex_def Let_def f l) simp
qed

text \<open>The four sextets of a group, the last two of which may be missing.\<close>

definition sextet0 :: "byte \<Rightarrow> byte" where "sextet0 a = drop_bit 2 a"
definition sextet1 :: "byte \<Rightarrow> byte \<Rightarrow> byte" where "sextet1 a b = push_bit 4 (a AND 0x03) OR drop_bit 4 b"
definition sextet2 :: "byte \<Rightarrow> byte \<Rightarrow> byte" where "sextet2 b c = push_bit 2 (b AND 0x0F) OR drop_bit 6 c"
definition sextet3 :: "byte \<Rightarrow> byte" where "sextet3 c = c AND 0x3F"

lemma byte_bitsE:
  assumes "n < LENGTH(8)"
  obtains "n = 0" | "n = 1" | "n = 2" | "n = 3" | "n = 4" | "n = 5" | "n = 6" | "n = 7"
  using assms by (auto simp: less_Suc_eq eval_nat_numeral)

lemma byte_masks: "(0x03 :: byte) = mask 2" "(0x0F :: byte) = mask 4" "(0x3F :: byte) = mask 6"
  by (simp_all add: mask_eq_exp_minus_1)

lemma byte_high_bits: "8 \<le> n \<Longrightarrow> \<not> bit (b :: byte) n"
  using bit_imp_le_length [of b n] by auto

lemmas sextet_bits = sextet0_def sextet1_def sextet2_def sextet3_def byte_masks bit_simps byte_high_bits

lemma sextet_bound: "unat (sextet0 a) < 64" "unat (sextet1 a b) < 64" "unat (sextet2 b c) < 64" "unat (sextet3 c) < 64"
proof -
  have 6: "unat x < 64" if "\<not> bit x 6" "\<not> bit x 7" for x :: byte
  proof -
    have "take_bit 6 x = x" by (rule bit_word_eqI, erule byte_bitsE) (use that in \<open>simp_all add: bit_simps\<close>)
    moreover have "unat (take_bit 6 x) < 2 ^ 6" unfolding unsigned_take_bit_eq by (rule take_bit_nat_less_exp)
    ultimately show ?thesis by simp
  qed
  show "unat (sextet0 a) < 64" "unat (sextet1 a b) < 64" "unat (sextet2 b c) < 64" "unat (sextet3 c) < 64"
    by (rule 6; simp only: sextet_bits; simp add: sextet_bits)+
qed

lemma octets_of_sextets:
  "push_bit 2 (sextet0 a) OR drop_bit 4 (sextet1 a b) = a"
  "push_bit 4 (sextet1 a b) OR drop_bit 2 (sextet2 b c) = b"
  "push_bit 6 (sextet2 b c) OR sextet3 c = c"
  by (rule bit_word_eqI, erule byte_bitsE; simp only: sextet_bits; simp add: sextet_bits)+

lemma b642bin_EQUALS: "b642bin EQUALS = 0"
  by (simp add: b642bin_def EQUALS_def)

lemma base64_group:
  assumes "unat s0 < 64" "unat s1 < 64" "unat s2 < 64" "unat s3 < 64"
  shows "base64_loop ([b64 s0, b64 s1, b64 s2, b64 s3] @ r) n =
      (let (buf, m) = base64_loop r (n + 3) in
       ([push_bit 2 s0 OR drop_bit 4 s1, push_bit 4 s1 OR drop_bit 2 s2, push_bit 6 s2 OR s3] @ buf, m))"
    and "base64_loop [b64 s0, b64 s1, b64 s2, EQUALS] n =
      ([push_bit 2 s0 OR drop_bit 4 s1, push_bit 4 s1 OR drop_bit 2 s2, push_bit 6 s2], n + 2)"
    and "base64_loop [b64 s0, b64 s1, EQUALS, EQUALS] n =
      ([push_bit 2 s0 OR drop_bit 4 s1, push_bit 4 s1, 0], n + 1)"
  using assms by (simp_all add: sextet_digits b64_outlen_def b642bin_EQUALS)

lemma chunk_to_base64_sextets:
  "chunk_to_base64 [a] = [b64 (sextet0 a), b64 (sextet1 a 0), EQUALS, EQUALS]"
  "chunk_to_base64 [a, b] = [b64 (sextet0 a), b64 (sextet1 a b), b64 (sextet2 b 0), EQUALS]"
  "chunk_to_base64 (a # b # c # r) = [b64 (sextet0 a), b64 (sextet1 a b), b64 (sextet2 b c), b64 (sextet3 c)] @ chunk_to_base64 r"
  by (simp_all only: chunk_to_base64.simps sextet0_def sextet1_def sextet2_def sextet3_def drop_bit_of_0 or.right_neutral)

lemma base64_loop_digits:
  "\<exists>pad. base64_loop (chunk_to_base64 c) n = (c @ pad, n + length c)"
proof (induction c arbitrary: n rule: chunk_to_base64.induct)
  case (2 a)
  show ?case unfolding chunk_to_base64_sextets base64_group(3) [OF sextet_bound] octets_of_sextets by simp
next
  case (3 a b)
  show ?case unfolding chunk_to_base64_sextets base64_group(2) [OF sextet_bound] octets_of_sextets by simp
next
  case (4 a b c r)
  then obtain pad where "base64_loop (chunk_to_base64 r) (n + 3) = (r @ pad, n + 3 + length r)" by blast
  then show ?case unfolding chunk_to_base64_sextets base64_group(1) [OF sextet_bound] octets_of_sextets by simp
qed simp

lemma chunk_from_base64_to_base64: "chunk_from_base64 (chunk_to_base64 c) = c"
  using base64_loop_digits [of c 0] by (auto simp: chunk_from_base64_def)

text \<open>
  Whatever the characters are, the loop of \<open>chunk_from_hex\<close> stays within them: every octet needs
  two characters besides a separator, and there are enough characters that are no separators.
\<close>

abbreviation digits :: "chunk \<Rightarrow> nat" where
  "digits h \<equiv> length (filter (\<lambda>c. c \<noteq> COLON) h)"

lemma hex_loop_total:
  assumes "2 * n \<le> digits hex + of_bool odd_len"
  shows "\<exists>out. hex_loop n odd_len hex buf = Inr out \<and> length out = n + length buf"
  using assms
proof (induction n arbitrary: hex buf)
  case (Suc n)
  define h where "h = (case hex of c # r \<Rightarrow> if c = COLON then r else hex | [] \<Rightarrow> [])"
  have h: "digits h = digits hex" by (auto simp: h_def split: list.split)
  then have "h \<noteq> []" using Suc.prems by (auto simp: of_bool_def split: if_split_asm)
  then obtain c r where c: "h = c # r" by (cases h) auto
  then have r: "digits hex \<le> digits r + 1" using h [symmetric] by simp
  show ?case
  proof (cases "n > 0 \<or> \<not> odd_len")
    case True
    then have "1 \<le> digits r" using r Suc.prems by (auto simp: of_bool_def split: if_split_asm)
    then obtain d r1 where d: "r = d # r1" by (cases r) auto
    then have "2 * n \<le> digits r1 + of_bool odd_len" using r Suc.prems by (auto split: if_split_asm)
    from Suc.IH [OF this, of "(hex2bin c OR push_bit 4 (hex2bin d)) # buf"] show ?thesis
      using True c d by (simp add: h_def [symmetric])
  next
    case False
    then show ?thesis using c by (simp add: h_def [symmetric])
  qed
qed simp

definition skip_0x :: "chunk \<Rightarrow> chunk" where
  "skip_0x hex = (if length hex > 1 \<and> hex ! 1 = 120 \<and> hex ! 0 = 48 then drop 2 hex else hex)"

lemma chunk_from_hex_total:
  "\<exists>out. chunk_from_hex hex = Inr out \<and> length out = (digits (skip_0x hex) + 1) div 2"
proof -
  define h where "h = skip_0x hex"
  have l: "length h - length (filter (\<lambda>c. c = COLON) h) = digits h"
    using sum_length_filter_compl [of "\<lambda>c. c = COLON" h] by linarith
  define odd_len where "odd_len = (digits h mod 2 \<noteq> 0)"
  define n where "n = (if odd_len then digits h + 1 else digits h) div 2"
  have n: "2 * n \<le> digits h + of_bool odd_len" "n = (digits h + 1) div 2" unfolding n_def odd_len_def by auto
  have "digits (rev h) = digits h" by (simp flip: rev_filter)
  then obtain out where "hex_loop n odd_len (rev h) [] = Inr out" "length out = n"
    using hex_loop_total [of n "rev h" odd_len "[]"] n(1) by auto
  moreover have "chunk_from_hex hex = hex_loop n odd_len (rev h) []"
    unfolding chunk_from_hex_def skip_0x_def [symmetric] h_def [symmetric] Let_def l odd_len_def [symmetric] n_def ..
  ultimately show ?thesis using n(2) unfolding h_def by auto
qed

section \<open>Properties\<close>

text \<open>
  The notations are read back: hexadecimal in either case and base 64 give the octets they were
  written from, for every length, the padding of base 64 included; and whatever is read as
  hexadecimal, with separators or other characters in any place, no character outside the input
  is read and one octet comes out for every two characters that are no separators, an odd one
  counting for itself.
\<close>

theorem chunk_notation_round_trip:
  "chunk_from_hex (chunk_to_hex c uppercase) = Inr c \<and> chunk_from_base64 (chunk_to_base64 c) = c
   \<and> (\<exists>out. chunk_from_hex hex = Inr out
        \<and> length out = (digits (skip_0x hex) + 1) div 2)"
  using chunk_from_hex_to_hex chunk_from_base64_to_base64 chunk_from_hex_total by blast

end
