(* ===== verification/Aka_3gpp.thy ===== *)
theory Aka_3gpp
  imports Milenage Chunk Simaka_Manager
begin

text \<open>
  The two backends of the eap-aka-3gpp plugin, \<open>eap_aka_3gpp_card.c\<close> (a USIM in software) and
  \<open>eap_aka_3gpp_provider.c\<close> (an authentication centre in software), over the functions of
  \<open>Milenage\<close>.  Both take the key of a subscriber from the credential manager (\<open>get_shared\<close>).
\<close>

section \<open>The card\<close>

record eap_aka_3gpp_card =
  seq_check :: bool
  card_sqn :: chunk

definition eap_aka_3gpp_card_create :: "bool \<Rightarrow> 64 word \<Rightarrow> 64 word \<Rightarrow> eap_aka_3gpp_card" where
  "eap_aka_3gpp_card_create check sec usec =
     \<lparr>seq_check = check, card_sqn = eap_aka_3gpp_get_sqn sec usec 0\<rparr>"

definition card3_get_quintuplet ::
  "aes \<Rightarrow> (chunk \<Rightarrow> chunk option) \<Rightarrow> chunk \<Rightarrow> chunk \<Rightarrow> chunk \<Rightarrow> eap_aka_3gpp_card \<Rightarrow> card_answer \<times> eap_aka_3gpp_card" where
  "card3_get_quintuplet F get_shared i rand autn this =
     (case eap_aka_3gpp_get_k_opc get_shared i of
        None \<Rightarrow> (Card_Failed, this)
      | Some (k, opc) \<Rightarrow>
          let amf = take 2 (drop 6 autn); mac = take 8 (drop 8 autn) in
          (case f2345 F k opc rand of
             None \<Rightarrow> (Card_Failed, this)
           | Some (res, ck, ik, ak) \<Rightarrow>
               let sqn = memxor (take 6 autn) ak in
               (case f1 F k opc rand sqn amf of
                  None \<Rightarrow> (Card_Failed, this)
                | Some xmac \<Rightarrow>
                    if mac \<noteq> xmac then (Card_Failed, this)
                    else if seq_check this \<and> memcmp (card_sqn this) sqn \<ge> 0 then (Card_Invalid_State, this)
                    else (Card_Success res ck ik, this\<lparr>card_sqn := sqn\<rparr>))))"

definition card3_resync ::
  "aes \<Rightarrow> (chunk \<Rightarrow> chunk option) \<Rightarrow> chunk \<Rightarrow> chunk \<Rightarrow> eap_aka_3gpp_card \<Rightarrow> chunk option" where
  "card3_resync F get_shared i rand this =
     (case eap_aka_3gpp_get_k_opc get_shared i of
        None \<Rightarrow> None
      | Some (k, opc) \<Rightarrow>
          (case f5star F k opc rand of
             None \<Rightarrow> None
           | Some aks \<Rightarrow>
               (case f1star F k opc rand (card_sqn this) (replicate 2 0) of
                  None \<Rightarrow> None
                | Some macs \<Rightarrow> Some (memxor (card_sqn this) aks @ macs))))"

text \<open>The card as a backend of the manager; it keeps no pseudonyms and re-authentication identities.\<close>

definition card3_backend :: "aes \<Rightarrow> (chunk \<Rightarrow> chunk option) \<Rightarrow> eap_aka_3gpp_card simaka_card" where
  "card3_backend F get_shared =
     \<lparr>sc_get_quintuplet = (\<lambda>i rand autn w. Inr (card3_get_quintuplet F get_shared i rand autn w)),
      sc_resync = (\<lambda>i rand w. Inr (card3_resync F get_shared i rand w, w)),
      sc_set_pseudonym = (\<lambda>i p w. Inr w), sc_get_pseudonym = (\<lambda>i w. Inr (None, w)),
      sc_set_reauth = (\<lambda>i n mk cnt w. Inr w), sc_get_reauth = (\<lambda>i w. Inr (None, w))\<rparr>"

section \<open>The provider\<close>

text \<open>
  Beside the sequence number, the state holds what the generator of random numbers will give,
  in order (\<open>None\<close> is a failed call).
\<close>

record eap_aka_3gpp_provider =
  provider_sqn :: chunk
  rng :: "nat \<Rightarrow> chunk option"

definition SQN_TIME_OFFSET :: "64 word" where "SQN_TIME_OFFSET = 180"

definition eap_aka_3gpp_provider_create :: "64 word \<Rightarrow> 64 word \<Rightarrow> (nat \<Rightarrow> chunk option) \<Rightarrow> eap_aka_3gpp_provider" where
  "eap_aka_3gpp_provider_create sec usec g =
     \<lparr>provider_sqn = eap_aka_3gpp_get_sqn sec usec SQN_TIME_OFFSET, rng = g\<rparr>"

definition AMF :: chunk where "AMF = [0x80, 0x00]"

definition provider3_get_quintuplet ::
  "aes \<Rightarrow> (chunk \<Rightarrow> chunk option) \<Rightarrow> chunk \<Rightarrow> eap_aka_3gpp_provider \<Rightarrow> quintuplet option \<times> eap_aka_3gpp_provider" where
  "provider3_get_quintuplet F get_shared i this =
     (let t = this\<lparr>rng := \<lambda>n. rng this (Suc n)\<rparr> in
      case rng this 0 of
        None \<Rightarrow> (None, t)
      | Some rand \<Rightarrow>
          (case eap_aka_3gpp_get_k_opc get_shared i of
             None \<Rightarrow> (None, t)
           | Some (k, opc) \<Rightarrow>
               (case f1 F k opc rand (provider_sqn this) AMF of
                  None \<Rightarrow> (None, t)
                | Some maca \<Rightarrow>
                    (case f2345 F k opc rand of
                       None \<Rightarrow> (None, t)
                     | Some (xres, ck, ik, ak) \<Rightarrow>
                         (Some \<lparr>q_rand = rand, q_xres = xres, q_ck = ck, q_ik = ik,
                                q_autn = memxor (provider_sqn this) ak @ AMF @ maca\<rparr>,
                          t\<lparr>provider_sqn := snd (chunk_increment (provider_sqn this))\<rparr>)))))"

text \<open>
  RAND is the pointer the server keeps, NULL before the first challenge; the first use of it is
  in f5*.  Of AUTS, 14 octets are read.
\<close>

definition provider3_resync ::
  "aes \<Rightarrow> (chunk \<Rightarrow> chunk option) \<Rightarrow> chunk \<Rightarrow> chunk option \<Rightarrow> chunk \<Rightarrow> eap_aka_3gpp_provider
    \<Rightarrow> (unit option \<times> eap_aka_3gpp_provider) res" where
  "provider3_resync F get_shared i rand auts this =
     (case eap_aka_3gpp_get_k_opc get_shared i of
        None \<Rightarrow> Inr (None, this)
      | Some (k, opc) \<Rightarrow>
          if \<not> aes_set_key F k then Inr (None, this)
          else
            (case rand of
               None \<Rightarrow> Inl NullDeref
             | Some rnd \<Rightarrow>
                 (case f5star F k opc rnd of
                    None \<Rightarrow> Inr (None, this)
                  | Some aks \<Rightarrow>
                      if length auts < 14 then Inl OutOfBounds
                      else
                        let sqn = memxor (take 6 auts) aks; macs = take 8 (drop 6 auts) in
                        (case f1star F k opc rnd sqn (replicate 2 0) of
                           None \<Rightarrow> Inr (None, this)
                         | Some xmacs \<Rightarrow>
                             if xmacs \<noteq> macs then Inr (None, this)
                             else Inr (Some (), this\<lparr>provider_sqn := snd (chunk_increment sqn)\<rparr>)))))"

definition provider3_backend :: "aes \<Rightarrow> (chunk \<Rightarrow> chunk option) \<Rightarrow> eap_aka_3gpp_provider simaka_provider" where
  "provider3_backend F get_shared =
     \<lparr>sp_get_quintuplet = (\<lambda>i w. Inr (provider3_get_quintuplet F get_shared i w)),
      sp_resync = provider3_resync F get_shared,
      sp_is_pseudonym = (\<lambda>i w. Inr (None, w)), sp_gen_pseudonym = (\<lambda>i w. Inr (None, w)),
      sp_is_reauth = (\<lambda>i w. Inr (None, w)), sp_gen_reauth = (\<lambda>i mk w. Inr (None, w))\<rparr>"

section \<open>What is relied on\<close>

text \<open>A subscriber has K, or K and OPc; sequence numbers have six octets, random numbers sixteen.\<close>

definition has_key :: "(chunk \<Rightarrow> chunk option) \<Rightarrow> chunk \<Rightarrow> bool" where
  "has_key get_shared i \<longleftrightarrow> (\<exists>key. get_shared i = Some key \<and> (length key = 16 \<or> length key = 32))"

definition card3_wf :: "eap_aka_3gpp_card \<Rightarrow> bool" where
  "card3_wf c \<longleftrightarrow> length (card_sqn c) = 6"

definition provider3_wf :: "eap_aka_3gpp_provider \<Rightarrow> bool" where
  "provider3_wf p \<longleftrightarrow> length (provider_sqn p) = 6 \<and> (\<forall>n r. rng p n = Some r \<longrightarrow> length r = 16)"

lemma get_k_opc_sizes:
  "eap_aka_3gpp_get_k_opc g i = Some (k, opc) \<Longrightarrow> length k = 16 \<and> length opc = 16"
  by (auto simp: eap_aka_3gpp_get_k_opc_def split: option.split_asm if_split_asm)

lemma has_key_k_opc:
  assumes "has_key g i"
  obtains k opc where "eap_aka_3gpp_get_k_opc g i = Some (k, opc)" "length k = 16" "length opc = 16"
proof -
  obtain k opc where "eap_aka_3gpp_get_k_opc g i = Some (k, opc)"
    using assms by (auto simp: has_key_def eap_aka_3gpp_get_k_opc_def)
  from that [OF this] get_k_opc_sizes [OF this] show thesis by blast
qed

lemma f1_total:
  assumes "aes_laws F" "length k = 16" "length opc = 16" "length rand = 16" "length sqn = 6" "length amf = 2"
  obtains mac where "f1 F k opc rand sqn amf = Some mac" "length mac = 8"
  using f1andf1star_ts [OF assms] by (auto simp: f1_def)

lemma f1star_total:
  assumes "aes_laws F" "length k = 16" "length opc = 16" "length rand = 16" "length sqn = 6" "length amf = 2"
  obtains mac where "f1star F k opc rand sqn amf = Some mac" "length mac = 8"
  using f1andf1star_ts [OF assms] by (auto simp: f1star_def)

lemma f2345_total:
  assumes "aes_laws F" "length k = 16" "length opc = 16" "length rand = 16"
  obtains res ck ik ak where "f2345 F k opc rand = Some (res, ck, ik, ak)"
    "length res = 8" "length ck = 16" "length ik = 16" "length ak = 6"
  using f2345_ts [OF assms] by (auto simp: Let_def)

lemma f5star_total:
  assumes "aes_laws F" "length k = 16" "length opc = 16" "length rand = 16"
  obtains aks where "f5star F k opc rand = Some aks" "length aks = 6"
  using f5star_ts [OF assms] by auto

lemma memxor_twice [simp]: "length a = length b \<Longrightarrow> memxor (memxor a b) b = a"
  by (induction a b rule: list_induct2) (simp_all add: memxor_def xor.assoc)

section \<open>Provider and card on the same subscriber\<close>

lemma provider3_issues:
  assumes F: "aes_laws F" and k: "has_key g i" and p: "provider3_wf p" "rng p 0 = Some r"
  obtains k opc xres ck ik ak maca where "eap_aka_3gpp_get_k_opc g i = Some (k, opc)" "length k = 16" "length opc = 16"
    and "f2345 F k opc r = Some (xres, ck, ik, ak)" "f1 F k opc r (provider_sqn p) AMF = Some maca"
    and "length xres = 8" "length ck = 16" "length ik = 16" "length ak = 6" "length maca = 8" "length r = 16"
    and "provider3_get_quintuplet F g i p =
      (Some \<lparr>q_rand = r, q_xres = xres, q_ck = ck, q_ik = ik, q_autn = memxor (provider_sqn p) ak @ AMF @ maca\<rparr>,
       p\<lparr>rng := \<lambda>n. rng p (Suc n), provider_sqn := snd (chunk_increment (provider_sqn p))\<rparr>)"
proof -
  obtain k opc where ko: "eap_aka_3gpp_get_k_opc g i = Some (k, opc)" "length k = 16" "length opc = 16"
    using k by (rule has_key_k_opc)
  have r: "length r = 16" "length (provider_sqn p) = 6" "length AMF = 2" using p by (auto simp: provider3_wf_def AMF_def)
  obtain xres ck ik ak where f: "f2345 F k opc r = Some (xres, ck, ik, ak)"
    "length xres = 8" "length ck = 16" "length ik = 16" "length ak = 6" by (rule f2345_total [OF F ko(2,3) r(1)])
  obtain maca where m: "f1 F k opc r (provider_sqn p) AMF = Some maca" "length maca = 8" by (rule f1_total [OF F ko(2,3) r])
  show thesis
    by (rule that [OF ko f(1) m(1) f(2-5) m(2) r(1)]) (simp add: provider3_get_quintuplet_def p(2) ko f m Let_def)
qed

lemma provider3_vector_sizes:
  assumes F: "aes_laws F" and k: "has_key g i" and p: "provider3_wf p" "rng p 0 = Some r"
  shows "\<exists>q p'. provider3_get_quintuplet F g i p = (Some q, p') \<and> provider3_wf p' \<and> q_rand q = r
    \<and> length (q_rand q) = 16 \<and> length (q_xres q) = 8 \<and> length (q_ck q) = 16 \<and> length (q_ik q) = 16 \<and> length (q_autn q) = 16"
proof (rule provider3_issues [OF F k p], goal_cases)
  case (1 k opc xres ck ik ak maca)
  then show ?case using p(1) by (simp add: provider3_wf_def chunk_increment_val AMF_def)
qed

lemma card3_on_vector:
  assumes F: "aes_laws F" and k: "has_key g i" and p: "provider3_wf p" and c: "card3_wf c"
    and q: "provider3_get_quintuplet F g i p = (Some q, p')"
  shows "card3_get_quintuplet F g i (q_rand q) (q_autn q) c =
    (if seq_check c \<and> addr_val (provider_sqn p) \<le> addr_val (card_sqn c) then (Card_Invalid_State, c)
     else (Card_Success (q_xres q) (q_ck q) (q_ik q), c\<lparr>card_sqn := provider_sqn p\<rparr>))"
    and "p' = p\<lparr>rng := \<lambda>n. rng p (Suc n), provider_sqn := snd (chunk_increment (provider_sqn p))\<rparr>"
proof -
  obtain r where r: "rng p 0 = Some r" using q by (cases "rng p 0") (auto simp: provider3_get_quintuplet_def Let_def)
  have "card3_get_quintuplet F g i (q_rand q) (q_autn q) c =
    (if seq_check c \<and> addr_val (provider_sqn p) \<le> addr_val (card_sqn c) then (Card_Invalid_State, c)
     else (Card_Success (q_xres q) (q_ck q) (q_ik q), c\<lparr>card_sqn := provider_sqn p\<rparr>))
    \<and> p' = p\<lparr>rng := \<lambda>n. rng p (Suc n), provider_sqn := snd (chunk_increment (provider_sqn p))\<rparr>"
  proof (rule provider3_issues [OF F k p r], goal_cases)
    case (1 k opc xres ck ik ak maca)
    have l: "length (provider_sqn p) = 6" "length (card_sqn c) = 6" using p c by (simp_all add: provider3_wf_def card3_wf_def)
    define au where "au = memxor (provider_sqn p) ak @ AMF @ maca"
    have a: "take 2 (drop 6 au) = AMF" "take 8 (drop 8 au) = maca" "memxor (take 6 au) ak = provider_sqn p"
      using l 1(9,10) by (simp_all add: AMF_def au_def)
    have "q_rand q = r" "q_xres q = xres" "q_ck q = ck" "q_ik q = ik" "q_autn q = au"
      "p' = p\<lparr>rng := \<lambda>n. rng p (Suc n), provider_sqn := snd (chunk_increment (provider_sqn p))\<rparr>"
      using q unfolding 1(12) by (auto simp: au_def)
    then show ?case using l by (auto simp: card3_get_quintuplet_def 1(1,4,5) a Let_def memcmp_ge)
  qed
  then show "card3_get_quintuplet F g i (q_rand q) (q_autn q) c =
    (if seq_check c \<and> addr_val (provider_sqn p) \<le> addr_val (card_sqn c) then (Card_Invalid_State, c)
     else (Card_Success (q_xres q) (q_ck q) (q_ik q), c\<lparr>card_sqn := provider_sqn p\<rparr>))"
    and "p' = p\<lparr>rng := \<lambda>n. rng p (Suc n), provider_sqn := snd (chunk_increment (provider_sqn p))\<rparr>" by blast+
qed

lemma resync_round:
  assumes F: "aes_laws F" and k: "has_key g i" and c: "card3_wf c" and r: "length r = 16"
  obtains auts where "card3_resync F g i r c = Some auts" "length auts = 14"
    and "\<And>p. provider3_resync F g i (Some r) auts p = Inr (Some (), p\<lparr>provider_sqn := snd (chunk_increment (card_sqn c))\<rparr>)"
proof -
  obtain k opc where ko: "eap_aka_3gpp_get_k_opc g i = Some (k, opc)" "length k = 16" "length opc = 16"
    using k by (rule has_key_k_opc)
  have l: "length (card_sqn c) = 6" "length (replicate 2 (0 :: byte)) = 2" using c by (simp_all add: card3_wf_def)
  obtain aks where f: "f5star F k opc r = Some aks" "length aks = 6" by (rule f5star_total [OF F ko(2,3) r])
  obtain macs where m: "f1star F k opc r (card_sqn c) (replicate 2 0) = Some macs" "length macs = 8"
    by (rule f1star_total [OF F ko(2,3) r l])
  have a: "take 6 (memxor (card_sqn c) aks @ macs) = memxor (card_sqn c) aks"
    "take 8 (drop 6 (memxor (card_sqn c) aks @ macs)) = macs" "memxor (memxor (card_sqn c) aks) aks = card_sqn c"
    using l(1) f(2) m(2) by simp_all
  have s: "aes_set_key F k" using F ko(2) by (simp add: aes_laws_def)
  show thesis
  proof (rule that [of "memxor (card_sqn c) aks @ macs"])
    fix p
    show "provider3_resync F g i (Some r) (memxor (card_sqn c) aks @ macs) p
        = Inr (Some (), p\<lparr>provider_sqn := snd (chunk_increment (card_sqn c))\<rparr>)"
      using l(1) f m by (simp only: provider3_resync_def ko option.case prod.case s a Let_def) simp
  qed (use l(1) f m in \<open>simp_all add: card3_resync_def ko\<close>)
qed

lemma provider3_resync_wf:
  assumes F: "aes_laws F" and p: "provider3_wf p" and r: "\<forall>r. rand = Some r \<longrightarrow> length r = 16"
    and ok: "provider3_resync F g i rand auts p = Inr (a, p')"
  shows "provider3_wf p'"
proof (cases "p' = p")
  case False
  then obtain k opc rnd where k: "eap_aka_3gpp_get_k_opc g i = Some (k, opc)" "rand = Some rnd" "aes_set_key F k"
    using ok by (auto simp: provider3_resync_def split: option.split_asm if_split_asm)
  then obtain aks where "f5star F k opc rnd = Some aks" "length aks = 6"
    using f5star_total [OF F, of k opc rnd] get_k_opc_sizes [OF k(1)] r by blast
  then have "p' = p\<lparr>provider_sqn := snd (chunk_increment (memxor (take 6 auts) aks))\<rparr> \<and> 14 \<le> length auts \<and> length aks = 6"
    using ok False k by (auto simp: provider3_resync_def Let_def split: option.split_asm if_split_asm)
  then show ?thesis using p by (simp add: provider3_wf_def chunk_increment_val)
qed (use p in simp)

section \<open>The card over time\<close>

text \<open>One challenge, whatever RAND and AUTN are, and whatever the answer is.\<close>

inductive card3_step :: "aes \<Rightarrow> (chunk \<Rightarrow> chunk option) \<Rightarrow> eap_aka_3gpp_card \<Rightarrow> eap_aka_3gpp_card \<Rightarrow> bool"
  for F :: aes and g :: "chunk \<Rightarrow> chunk option" where
  "length rand = 16 \<Longrightarrow> length autn = 16 \<Longrightarrow> card3_get_quintuplet F g i rand autn c = (ans, c') \<Longrightarrow> card3_step F g c c'"

inductive_cases card3_stepE: "card3_step F g c c'"

text \<open>Which sequence number a challenge that was accepted carries, and what any card does with it.\<close>

lemma card3_accepted:
  assumes F: "aes_laws F" and c: "card3_wf c" and l: "length rand = 16" "length autn = 16"
    and ok: "card3_get_quintuplet F g i rand autn c = (Card_Success res ck ik, c1)"
  obtains sqn where "length sqn = 6" "c1 = c\<lparr>card_sqn := sqn\<rparr>" "seq_check c \<Longrightarrow> addr_val (card_sqn c) < addr_val sqn"
    and "\<And>c2. card3_wf c2 \<Longrightarrow> card3_get_quintuplet F g i rand autn c2 =
      (if seq_check c2 \<and> addr_val sqn \<le> addr_val (card_sqn c2) then (Card_Invalid_State, c2)
       else (Card_Success res ck ik, c2\<lparr>card_sqn := sqn\<rparr>))"
proof -
  obtain k opc where ko: "eap_aka_3gpp_get_k_opc g i = Some (k, opc)"
    using ok by (auto simp: card3_get_quintuplet_def split: option.split_asm)
  obtain x ck' ik' ak where f: "f2345 F k opc rand = Some (x, ck', ik', ak)" "length ak = 6"
    using f2345_total [OF F _ _ l(1)] get_k_opc_sizes [OF ko] by metis
  define sqn where "sqn = memxor (take 6 autn) ak"
  have s: "length sqn = 6" using l f by (simp add: sqn_def)
  have e: "res = x" "ck = ck'" "ik = ik'" "c1 = c\<lparr>card_sqn := sqn\<rparr>" "f1 F k opc rand sqn (take 2 (drop 6 autn)) = Some (take 8 (drop 8 autn))"
      "\<not> (seq_check c \<and> memcmp (card_sqn c) sqn \<ge> 0)"
    using ok unfolding card3_get_quintuplet_def ko f option.case prod.case Let_def sqn_def [symmetric]
    by (auto split: option.split_asm if_split_asm)
  show thesis
  proof (rule that [OF s e(4)])
    show "addr_val (card_sqn c) < addr_val sqn" if "seq_check c"
      using e(6) that c s memcmp_ge [of "card_sqn c" sqn] by (simp add: card3_wf_def)
    show "card3_get_quintuplet F g i rand autn c2 = (if seq_check c2 \<and> addr_val sqn \<le> addr_val (card_sqn c2) then (Card_Invalid_State, c2)
       else (Card_Success res ck ik, c2\<lparr>card_sqn := sqn\<rparr>))" if "card3_wf c2" for c2
      using that s e(1-3,5) memcmp_ge [of "card_sqn c2" sqn] unfolding card3_get_quintuplet_def ko f option.case prod.case Let_def sqn_def [symmetric]
      by (auto simp: card3_wf_def)
  qed
qed

lemma card3_step_mono:
  assumes F: "aes_laws F" and st: "card3_step F g c c'" and c: "card3_wf c"
  shows "card3_wf c' \<and> seq_check c' = seq_check c \<and> (seq_check c \<longrightarrow> addr_val (card_sqn c) \<le> addr_val (card_sqn c'))"
  using st
proof (rule card3_stepE)
  fix rand autn i ans
  assume l: "length rand = 16" "length autn = 16" and r: "card3_get_quintuplet F g i rand autn c = (ans, c')"
  show ?thesis
  proof (cases ans)
    case (Card_Success res ck ik)
    show ?thesis by (rule card3_accepted [OF F c l r [unfolded Card_Success]]) (use c in \<open>auto simp: card3_wf_def\<close>)
  qed (use r c in \<open>auto simp: card3_get_quintuplet_def Let_def split: option.split_asm if_split_asm\<close>)
qed

lemma card3_steps_mono:
  assumes F: "aes_laws F" and st: "(card3_step F g)\<^sup>*\<^sup>* c c'" and c: "card3_wf c"
  shows "card3_wf c' \<and> seq_check c' = seq_check c \<and> (seq_check c \<longrightarrow> addr_val (card_sqn c) \<le> addr_val (card_sqn c'))"
  using st c
proof (induction rule: rtranclp_induct)
  case (step c1 c2)
  then show ?case using card3_step_mono [OF F, of g c1 c2] by auto
qed simp

section \<open>Properties\<close>

text \<open>
  C23. Card and provider agree on the vectors the provider issues for a subscriber whose key both
  have.  A card that checks sequence numbers (\<open>seq_check\<close>) gives the RES, CK and IK of the vector
  and takes over its sequence number when that number is greater than its own; when it is not,
  the card asks for resynchronisation and keeps its state, so a vector is accepted once only.
  A card that does not check them, which is what \<open>eap_aka_3gpp_card_create\<close> makes unless the
  setting \<open>seq_check\<close> or a build with \<open>SEQ_CHECK\<close> asks for the check, accepts the vector
  whatever its number is, lower and repeated ones included.  The provider counts up modulo \<open>2^48\<close>.
\<close>

theorem card_accepts_newer_vectors:
  assumes "aes_laws F" "has_key g i" "provider3_wf p" "card3_wf c" "provider3_get_quintuplet F g i p = (Some q, p')"
  shows "card3_get_quintuplet F g i (q_rand q) (q_autn q) c =
      (if \<not> seq_check c \<or> addr_val (card_sqn c) < addr_val (provider_sqn p)
       then (Card_Success (q_xres q) (q_ck q) (q_ik q), c\<lparr>card_sqn := provider_sqn p\<rparr>)
       else (Card_Invalid_State, c))
    \<and> card3_get_quintuplet F g i (q_rand q) (q_autn q) (c\<lparr>card_sqn := provider_sqn p\<rparr>) =
      (if \<not> seq_check c
       then (Card_Success (q_xres q) (q_ck q) (q_ik q), c\<lparr>card_sqn := provider_sqn p\<rparr>)
       else (Card_Invalid_State, c\<lparr>card_sqn := provider_sqn p\<rparr>))
    \<and> addr_val (provider_sqn p') = (addr_val (provider_sqn p) + 1) mod 2 ^ 48"
proof (intro conjI)
  have w: "card3_wf (c\<lparr>card_sqn := provider_sqn p\<rparr>)" using assms(3) by (simp add: card3_wf_def provider3_wf_def)
  show "card3_get_quintuplet F g i (q_rand q) (q_autn q) (c\<lparr>card_sqn := provider_sqn p\<rparr>) =
      (if \<not> seq_check c
       then (Card_Success (q_xres q) (q_ck q) (q_ik q), c\<lparr>card_sqn := provider_sqn p\<rparr>)
       else (Card_Invalid_State, c\<lparr>card_sqn := provider_sqn p\<rparr>))"
    by (simp add: card3_on_vector(1) [OF assms(1-3) w assms(5)])
qed (use card3_on_vector [OF assms] assms(3) in \<open>simp_all add: provider3_wf_def chunk_increment_val\<close>)

text \<open>
  Resynchronisation heals: when a card rejects a vector because of its sequence number, the
  AUTS it makes for the RAND of the vector is accepted by the provider, and the next vector is
  accepted by the card; only a card that has reached the greatest sequence number rejects it
  again.
\<close>

theorem resync_heals:
  assumes "aes_laws F" "has_key g i" "provider3_wf p" "card3_wf c" "provider3_get_quintuplet F g i p = (Some q, p')"
    and "card3_get_quintuplet F g i (q_rand q) (q_autn q) c = (Card_Invalid_State, c)" "rng p' 0 = Some r"
  shows "\<exists>auts p1 q2 p2. card3_resync F g i (q_rand q) c = Some auts
    \<and> provider3_resync F g i (Some (q_rand q)) auts p' = Inr (Some (), p1)
    \<and> provider3_get_quintuplet F g i p1 = (Some q2, p2) \<and> q_rand q2 = r
    \<and> fst (card3_get_quintuplet F g i (q_rand q2) (q_autn q2) c) =
        (if addr_val (card_sqn c) = 2 ^ 48 - 1 then Card_Invalid_State else Card_Success (q_xres q2) (q_ck q2) (q_ik q2))"
proof -
  obtain r0 where r0: "rng p 0 = Some r0" using assms(5) by (cases "rng p 0") (auto simp: provider3_get_quintuplet_def Let_def)
  from provider3_vector_sizes [OF assms(1-3) r0] assms(5) have q: "length (q_rand q) = 16" "provider3_wf p'" by auto
  obtain auts where au: "card3_resync F g i (q_rand q) c = Some auts"
    "\<And>p. provider3_resync F g i (Some (q_rand q)) auts p = Inr (Some (), p\<lparr>provider_sqn := snd (chunk_increment (card_sqn c))\<rparr>)"
    by (rule resync_round [OF assms(1,2,4) q(1)]) blast
  let ?p1 = "p'\<lparr>provider_sqn := snd (chunk_increment (card_sqn c))\<rparr>"
  have wf: "provider3_wf ?p1" "rng ?p1 0 = Some r" using q(2) assms(4,7) by (simp_all add: provider3_wf_def card3_wf_def chunk_increment_val)
  then obtain q2 p2 where q2: "provider3_get_quintuplet F g i ?p1 = (Some q2, p2)" "q_rand q2 = r"
    using provider3_vector_sizes [OF assms(1,2) wf] by blast
  have s: "seq_check c" using card3_on_vector(1) [OF assms(1-5)] assms(6) by (auto split: if_split_asm)
  have v: "addr_val (provider_sqn ?p1) = (addr_val (card_sqn c) + 1) mod 2 ^ 48" "addr_val (card_sqn c) < 2 ^ 48"
    using assms(4) addr_val_less [of "card_sqn c"] by (simp_all add: card3_wf_def chunk_increment_val)
  have "addr_val (provider_sqn ?p1) \<le> addr_val (card_sqn c) \<longleftrightarrow> addr_val (card_sqn c) = 2 ^ 48 - 1"
  proof (cases "addr_val (card_sqn c) = 2 ^ 48 - 1")
    case False
    then have "addr_val (card_sqn c) + 1 < 2 ^ 48" using v(2) by linarith
    then show ?thesis using v(1) False by simp
  qed (use v in simp)
  then have "fst (card3_get_quintuplet F g i (q_rand q2) (q_autn q2) c) =
      (if addr_val (card_sqn c) = 2 ^ 48 - 1 then Card_Invalid_State else Card_Success (q_xres q2) (q_ck q2) (q_ik q2))"
    unfolding card3_on_vector(1) [OF assms(1,2) wf(1) assms(4) q2(1)] using s by simp
  then show ?thesis using au q2 by blast
qed

text \<open>
  A challenge is good for one use: a card that checks sequence numbers, once it has accepted a
  RAND and AUTN, rejects them for ever, whatever challenges it sees in between.
\<close>

theorem card_rejects_replay:
  assumes "aes_laws F" "card3_wf c" "seq_check c" "length rand = 16" "length autn = 16"
    and "card3_get_quintuplet F g i rand autn c = (Card_Success res ck ik, c1)" "(card3_step F g)\<^sup>*\<^sup>* c1 c2"
  shows "card3_get_quintuplet F g i rand autn c2 = (Card_Invalid_State, c2)"
proof (rule card3_accepted [OF assms(1,2,4,5,6)])
  fix sqn
  assume s: "length sqn = 6" "c1 = c\<lparr>card_sqn := sqn\<rparr>"
    and a: "\<And>c2. card3_wf c2 \<Longrightarrow> card3_get_quintuplet F g i rand autn c2 =
      (if seq_check c2 \<and> addr_val sqn \<le> addr_val (card_sqn c2) then (Card_Invalid_State, c2)
       else (Card_Success res ck ik, c2\<lparr>card_sqn := sqn\<rparr>))"
  have "card3_wf c1" "seq_check c1" "card_sqn c1 = sqn" using s assms(3) by (simp_all add: card3_wf_def)
  then show ?thesis using card3_steps_mono [OF assms(1,7)] a by simp
qed

section \<open>Witnesses\<close>

definition sample_shared :: "chunk \<Rightarrow> chunk option" where
  "sample_shared i = Some (replicate 32 1)"

definition sample_provider3 :: eap_aka_3gpp_provider where
  "sample_provider3 = \<lparr>provider_sqn = [0, 0, 0, 0, 0, 5], rng = (\<lambda>n. Some (replicate 16 (of_nat n)))\<rparr>"

definition sample_card3 :: "byte \<Rightarrow> eap_aka_3gpp_card" where
  "sample_card3 n = \<lparr>seq_check = True, card_sqn = [0, 0, 0, 0, 0, n]\<rparr>"

lemma sample3_wf: "has_key sample_shared i" "provider3_wf sample_provider3" "card3_wf (sample_card3 n)"
    "rng sample_provider3 0 = Some (replicate 16 0)" "seq_check (sample_card3 n)"
  by (simp_all add: has_key_def sample_shared_def provider3_wf_def sample_provider3_def card3_wf_def sample_card3_def)

lemma sample3_vector:
  obtains q p' where "provider3_get_quintuplet sample_aes sample_shared [1] sample_provider3 = (Some q, p')"
    "length (q_rand q) = 16" "length (q_autn q) = 16" "rng p' 0 = Some (replicate 16 1)"
proof -
  obtain q p' where q: "provider3_get_quintuplet sample_aes sample_shared [1] sample_provider3 = (Some q, p')"
    "length (q_rand q) = 16" "length (q_autn q) = 16"
    using provider3_vector_sizes [OF sample_aes_laws sample3_wf(1,2,4)] by blast
  have "rng p' 0 = Some (replicate 16 1)"
    using card3_on_vector(2) [OF sample_aes_laws sample3_wf(1,2,3) q(1)] by (simp add: sample_provider3_def)
  with q show thesis by (rule that)
qed

theorem card_accepts_newer_vectors_witness:
  "\<exists>q p'. provider3_get_quintuplet sample_aes sample_shared [1] sample_provider3 = (Some q, p')
    \<and> card3_get_quintuplet sample_aes sample_shared [1] (q_rand q) (q_autn q) (sample_card3 4)
        = (Card_Success (q_xres q) (q_ck q) (q_ik q), sample_card3 5)
    \<and> card3_get_quintuplet sample_aes sample_shared [1] (q_rand q) (q_autn q) (sample_card3 5) = (Card_Invalid_State, sample_card3 5)
    \<and> fst (card3_get_quintuplet sample_aes sample_shared [1] (q_rand q) (q_autn q) (sample_card3 9\<lparr>seq_check := False\<rparr>))
        = Card_Success (q_xres q) (q_ck q) (q_ik q)"
proof (rule sample3_vector)
  fix q p'
  assume q: "provider3_get_quintuplet sample_aes sample_shared [1] sample_provider3 = (Some q, p')"
  note t = card_accepts_newer_vectors [OF sample_aes_laws sample3_wf(1,2), OF _ q]
  have w: "card3_wf (sample_card3 9\<lparr>seq_check := False\<rparr>)" by (simp add: card3_wf_def sample_card3_def)
  have "card3_get_quintuplet sample_aes sample_shared [1] (q_rand q) (q_autn q) (sample_card3 4)
        = (Card_Success (q_xres q) (q_ck q) (q_ik q), sample_card3 5)"
    "card3_get_quintuplet sample_aes sample_shared [1] (q_rand q) (q_autn q) (sample_card3 5) = (Card_Invalid_State, sample_card3 5)"
    "fst (card3_get_quintuplet sample_aes sample_shared [1] (q_rand q) (q_autn q) (sample_card3 9\<lparr>seq_check := False\<rparr>))
        = Card_Success (q_xres q) (q_ck q) (q_ik q)"
    using t [OF sample3_wf(3), of 4] t [OF sample3_wf(3), of 5] t [OF w]
    by (simp_all add: sample_card3_def sample_provider3_def)
  with q show ?thesis by blast
qed

theorem resync_heals_witness:
  "\<exists>q p' auts p1 (q2 :: quintuplet). provider3_get_quintuplet sample_aes sample_shared [1] sample_provider3 = (Some q, p')
    \<and> card3_resync sample_aes sample_shared [1] (q_rand q) (sample_card3 9) = Some auts
    \<and> provider3_resync sample_aes sample_shared [1] (Some (q_rand q)) auts p' = Inr (Some (), p1)
    \<and> fst (card3_get_quintuplet sample_aes sample_shared [1] (q_rand q2) (q_autn q2) (sample_card3 9))
        = Card_Success (q_xres q2) (q_ck q2) (q_ik q2)"
proof (rule sample3_vector)
  fix q p'
  assume q: "provider3_get_quintuplet sample_aes sample_shared [1] sample_provider3 = (Some q, p')"
    and r: "rng p' 0 = Some (replicate 16 1)"
  have i: "card3_get_quintuplet sample_aes sample_shared [1] (q_rand q) (q_autn q) (sample_card3 9) = (Card_Invalid_State, sample_card3 9)"
    using card3_on_vector(1) [OF sample_aes_laws sample3_wf(1,2,3) q, of 9] by (simp add: sample_card3_def sample_provider3_def)
  have v: "addr_val (card_sqn (sample_card3 9)) \<noteq> 2 ^ 48 - 1" by (simp add: sample_card3_def)
  show ?thesis using resync_heals [OF sample_aes_laws sample3_wf(1,2,3) q i r] q unfolding if_not_P [OF v] by blast
qed

theorem card_rejects_replay_witness:
  "\<exists>rand autn c1. fst (card3_get_quintuplet sample_aes sample_shared [1] rand autn (sample_card3 4)) \<noteq> Card_Invalid_State
    \<and> card3_get_quintuplet sample_aes sample_shared [1] rand autn c1 = (Card_Invalid_State, c1)"
proof (rule sample3_vector)
  fix q p'
  assume q: "provider3_get_quintuplet sample_aes sample_shared [1] sample_provider3 = (Some q, p')"
    and l: "length (q_rand q) = 16" "length (q_autn q) = 16"
  have a: "card3_get_quintuplet sample_aes sample_shared [1] (q_rand q) (q_autn q) (sample_card3 4)
        = (Card_Success (q_xres q) (q_ck q) (q_ik q), sample_card3 5)"
    using card3_on_vector(1) [OF sample_aes_laws sample3_wf(1,2,3) q, of 4] by (simp add: sample_card3_def sample_provider3_def)
  show ?thesis using card_rejects_replay [OF sample_aes_laws sample3_wf(3,5) l a rtranclp.rtrancl_refl] a by (metis card_answer.distinct(1) fst_conv)
qed

end
