(* ===== verification/Aka_Resync.thy ===== *)
theory Aka_Resync
  imports Aka_Exchange Aka_3gpp
begin

text \<open>
  EAP-AKA between a server with the provider and a peer with the card of the eap-aka-3gpp
  plugin, through a resynchronisation of the sequence number when there has to be one.
\<close>

section \<open>The conversation\<close>

text \<open>
  Requests and responses are handed over until the server succeeds; anything else than another
  request or success, and more than \<open>n\<close> responses, give \<open>None\<close>.
\<close>

fun conversation ::
  "nat \<Rightarrow> aka_algs \<Rightarrow> (nat \<Rightarrow> env) \<Rightarrow> (nat \<Rightarrow> env) \<Rightarrow> 'w simaka_manager \<Rightarrow> 'c cards \<Rightarrow> chunk
    \<Rightarrow> eap_aka_server \<times> 'w \<Rightarrow> eap_aka_peer \<times> 'c \<Rightarrow> ((eap_aka_server \<times> 'w) \<times> eap_aka_peer \<times> 'c) option" where
  "conversation 0 A Es Ep mgr cards req (s, w) (p, c) = None"
| "conversation (Suc n) A Es Ep mgr cards req (s, w) (p, c) =
     (case peer_process A (Ep n) cards req p c of
        Inr ((NEED_MORE, Some rsp, p1), c1) \<Rightarrow>
          (case Eap_Aka_Server.process A (Es n) mgr rsp s w of
             Inr ((NEED_MORE, Some req1, s1), w1) \<Rightarrow> conversation n A Es Ep mgr cards req1 (s1, w1) (p1, c1)
           | Inr ((SUCCESS, _, s1), w1) \<Rightarrow> Some ((s1, w1), p1, c1)
           | _ \<Rightarrow> None)
      | _ \<Rightarrow> None)"

section \<open>The backends in the managers\<close>

lemma manager3:
  "provider_get_quintuplet [provider3_backend F g] i w = Inr (provider3_get_quintuplet F g i w)"
  "provider_is_reauth [provider3_backend F g] i w = Inr (None, w)"
  "provider_is_pseudonym [provider3_backend F g] i w = Inr (None, w)"
  "provider_gen_reauth [provider3_backend F g] i mk w = Inr (None, w)"
  "provider_gen_pseudonym [provider3_backend F g] i w = Inr (None, w)"
  by (auto simp: provider_get_quintuplet_def provider_is_reauth_def provider_is_pseudonym_def provider_gen_reauth_def
      provider_gen_pseudonym_def provider3_backend_def split: prod.split option.split)

lemma manager3_resync:
  "provider_resync [provider3_backend F g] i rn auts w = provider3_resync F g i rn auts w"
  by (cases "provider3_resync F g i rn auts w") (auto simp: provider_resync_def provider3_backend_def split: option.split)

lemma cards3:
  "card_get_reauth [card3_backend F g] i w = Inr (None, w)" "card_get_pseudonym [card3_backend F g] i w = Inr (None, w)"
  "card_set_pseudonym [card3_backend F g] i x w = Inr w" "card_set_reauth [card3_backend F g] i x mk n w = Inr w"
  "card_resync [card3_backend F g] i rn w = Inr (card3_resync F g i rn w, w)"
  "card_get_quintuplet [card3_backend F g] i rn autn w = Inr (card3_get_quintuplet F g i rn autn w)"
  by (auto simp: card_get_reauth_def card_get_pseudonym_def card_set_pseudonym_def card_set_reauth_def card_resync_def
      card3_backend_def split: prod.split option.split card_answer.split)

lemma issues3:
  assumes A: "aka_laws A" and F: "aes_laws F" and k: "has_key g i" and p: "provider3_wf p"
    and q: "provider3_get_quintuplet F g i p = (Some q, p')"
  shows "issues A [provider3_backend F g] i p q p'"
proof -
  obtain r where r: "rng p 0 = Some r" using q by (cases "rng p 0") (auto simp: provider3_get_quintuplet_def Let_def)
  from provider3_vector_sizes [OF F k p r] q vector_keys_total [OF A, of i "q_ik q @ q_ck q"]
  show ?thesis by (auto simp: issues_def manager3)
qed

lemma usim3:
  assumes F: "aes_laws F" and k: "has_key g i" and p: "provider3_wf p" and c: "card3_wf c"
    and q: "provider3_get_quintuplet F g i p = (Some q, p')"
    and new: "\<not> (seq_check c \<and> addr_val (provider_sqn p) \<le> addr_val (card_sqn c))"
  shows "usim_has [card3_backend F g] i q c"
  using card3_on_vector(1) [OF F k p c q] new by (simp add: usim_has_def cards3 del: card_get_quintuplet.simps)

section \<open>A synchronization failure\<close>

lemma peer_reports_failure:
  assumes kc: "crypto_laws (as_crypto A (rnd E) kc)" and E: "env_laws E"
    and q: "length (q_rand q) = 16" "length (q_autn q) = 16"
    and n2: "attributes n2 = [(AT_RAND, q_rand q), (AT_AUTN, q_autn q)]"
    and card: "card_get_quintuplet cards (pe_permanent p) (q_rand q) (q_autn q) c = Inr (Card_Invalid_State, c)"
      "card_resync cards (pe_permanent p) (q_rand q) c = Inr (Some auts, c)" "length auts = 14"
  obtains rsp m1 m2 where "Eap_Aka_Peer.process_challenge A E cards n2 p c = Inr ((NEED_MORE, Some rsp, p), c)"
    and "simaka_message_create_from_payload rsp = Some m1" and "\<And>r. parse (as_crypto A r kc) m1 = Inr (True, m2)"
    and "attributes m2 = [(AT_AUTS, auts)]" and "get_subtype m2 = AKA_SYNCHRONIZATION_FAILURE"
proof -
  have w: "\<not> wants_mac AKA_SYNCHRONIZATION_FAILURE" by (simp add: wants_mac_def subtype_defs)
  have a: "list_all attr_ok [(AT_AUTS, auts)]" "list_all (\<lambda>a. \<not> is_encr a) [(AT_AUTS, auts)]"
    "length (plain_part [(AT_AUTS, auts)]) \<le> 1000"
    using card(3) by (simp_all add: attr_ok_def is_encr_def to_encr_def plain_part_def enc_attr_def encode_attr_def at_defs)
  show thesis
  proof (rule payload_plain_keyed [OF kc E a(1,2) w a(3), of "pe_crypto p" False "get_identifier n2" "[]"], goal_cases)
    case (1 rsp m1 m2 n2')
    have "AT_RAND \<noteq> AT_AUTN" by (simp add: at_defs)
    then have "Eap_Aka_Peer.process_challenge A E cards n2 p c = Inr ((NEED_MORE, Some rsp, p), c)"
      using n2 q card 1(1) by (auto simp: Eap_Aka_Peer.process_challenge_def last_attr_def respond_def)
    from that [OF this 1(2) 1(8,9)] show thesis using 1(10) by (simp add: same_head_def)
  qed
qed

text \<open>
  The server has sent a challenge whose sequence number is too small for the card: the peer
  reports it, and the server starts over from the resynchronised state.
\<close>

lemma sync_exchange:
  assumes A: "aka_laws A" and E: "env_laws E1" "env_laws E2" and F: "aes_laws F" and k: "has_key g (permanent s)"
    and w: "provider3_wf p" "card3_wf c" and q: "provider3_get_quintuplet F g (permanent s) p = (Some q, p')"
    and old: "seq_check c" "addr_val (provider_sqn p) \<le> addr_val (card_sqn c)"
    and s: "pseudonym s = None" "\<not> synchronized s"
    and pe: "pe_permanent pe = permanent s" "\<not> derived (pe_crypto pe)"
  obtains ch s1 rsp where "challenge A E1 [provider3_backend F g] s p = Inr ((NEED_MORE, Some ch, s1), p')"
    and "permanent s1 = permanent s" "pseudonym s1 = None" "auth s1 = auth s"
    and "peer_process A E2 [card3_backend F g] ch pe c = Inr ((NEED_MORE, Some rsp, pe\<lparr>pe_identifier := eap_identifier s\<rparr>), c)"
    and "\<And>E3. Eap_Aka_Server.process A E3 [provider3_backend F g] rsp s1 p'
      = challenge A E3 [provider3_backend F g] (s1\<lparr>synchronized := True\<rparr>) (p'\<lparr>provider_sqn := snd (chunk_increment (card_sqn c))\<rparr>)"
proof -
  let ?i = "permanent s" and ?pe = "pe\<lparr>pe_identifier := eap_identifier s\<rparr>"
  obtain x where vec: "offers A [provider3_backend F g] ?i p x p'" and xq: "of_vector x = q"
    using issues_offers [OF A issues3 [OF A F k w(1) q]] by blast
  have l: "length (q_rand q) = 16" "length (q_autn q) = 16" and C: "crypto_laws (as_crypto A (rnd E2) (of_crypto x))"
    using vec E(2) unfolding offers_def Let_def xq by blast+
  have inv: "card3_get_quintuplet F g ?i (q_rand q) (q_autn q) c = (Card_Invalid_State, c)"
    using card3_on_vector(1) [OF F k w q] old by simp
  obtain auts where au: "card3_resync F g ?i (q_rand q) c = Some auts" "length auts = 14"
    "\<And>p. provider3_resync F g ?i (Some (q_rand q)) auts p = Inr (Some (), p\<lparr>provider_sqn := snd (chunk_increment (card_sqn c))\<rparr>)"
    by (rule resync_round [OF F k w(2) l(1)]) blast
  show thesis
  proof (rule challenge_sent [OF E(1) vec s(1)], goal_cases)
    case (1 ch m1 n2)
    let ?s1 = "challenged s x"
    have card: "card_get_quintuplet [card3_backend F g] (pe_permanent ?pe) (q_rand q) (q_autn q) c = Inr (Card_Invalid_State, c)"
      "card_resync [card3_backend F g] (pe_permanent ?pe) (q_rand q) c = Inr (Some auts, c)"
      using inv au(1) pe(1) by (simp_all add: cards3 del: card_get_quintuplet.simps)
    show thesis
    proof (rule peer_reports_failure [OF C E(2) l 1(6) [unfolded xq] card au(2)], goal_cases)
      case r: (1 rsp r1 r2)
      have pr: "peer_process A E2 [card3_backend F g] ch pe c = Inr ((NEED_MORE, Some rsp, ?pe), c)"
        using 1(2-5,7) r(1) pe(2) by (simp add: peer_process_def same_head_def Let_def)
      obtain y ys where y: "auts = y # ys" using au(2) by (cases auts) auto
      have sv: "Eap_Aka_Server.process A E3 [provider3_backend F g] rsp ?s1 p'
          = challenge A E3 [provider3_backend F g] (?s1\<lparr>synchronized := True\<rparr>) (p'\<lparr>provider_sqn := snd (chunk_increment (card_sqn c))\<rparr>)" for E3
      proof -
        have "process_synchronize A E3 [provider3_backend F g] r2 ?s1 p'
            = challenge A E3 [provider3_backend F g] (?s1\<lparr>synchronized := True\<rparr>) (p'\<lparr>provider_sqn := snd (chunk_increment (card_sqn c))\<rparr>)"
          using r(4) s(2) au(3) [of p'] unfolding y
          by (simp add: process_synchronize_def last_attr_def challenged_def manager3_resync xq)
        then show ?thesis using r(2,3,5) by (simp add: Eap_Aka_Server.process_def Let_def challenged_def subtype_defs)
      qed
      show thesis by (rule that [OF 1(1) _ _ _ pr sv]) (simp_all add: challenged_def s)
    qed
  qed
qed

section \<open>Properties\<close>

text \<open>
  C7. With the backends of the plugin a conversation completes whatever the sequence numbers are: for
  a subscriber whose key both sides have, and a card that has not reached the greatest sequence
  number, the server's request for an identity leads to success within three responses, with a
  resynchronisation in between exactly when the card finds the number too small; the permanent
  identity is reported and both sides hold the same MSK.
\<close>

theorem aka_3gpp_conversation_completes:
  assumes "aka_laws A" "env_laws E0" "\<forall>n. env_laws (Es n) \<and> env_laws (Ep n) \<and> id_from_data (Es n) nai = nai"
    and "aes_laws F" "has_key g nai" "provider3_wf p" "card3_wf c" "rng p 0 \<noteq> None" "rng p 1 \<noteq> None"
    and "0 < length nai" "length nai \<le> 200" "addr_val (card_sqn c) < 2 ^ 48 - 1"
  shows "\<exists>req s s' p' pe' c'.
    initiate A E0 [provider3_backend F g] (eap_aka_server_create peer True ident) p = Inr ((NEED_MORE, Some req, s), p)
    \<and> conversation 3 A Es Ep [provider3_backend F g] [card3_backend F g] req (s, p) (eap_aka_peer_create nai, c) = Some ((s', p'), pe', c')
    \<and> get_auth s' = [nai] \<and> get_msk s' = peer_get_msk pe' \<and> peer_get_msk pe' \<noteq> None
    \<and> synchronized s' = (seq_check c \<and> addr_val (provider_sqn p) \<le> addr_val (card_sqn c))"
proof -
  have n: "id_from_data E nai = nai" if "E \<in> range Es" for E using that assms(3) by auto
  have E: "env_laws (Ep k)" "env_laws (Es k)" for k using assms(3) by blast+
  obtain q p1 where q: "provider3_get_quintuplet F g nai p = (Some q, p1)" "provider3_wf p1"
    using provider3_vector_sizes [OF assms(4-6)] assms(8) by blast
  show ?thesis
  proof (rule identity_round [where Es = "range Es" and peer = peer and ident = ident,
        OF assms(1,2) E(1) [of 2] assms(10,11) n manager3(2,3) [of F g nai p] cards3(1,2) [of F g nai c]], goal_cases)
    case i: (2 req1 rsp1 s1 s2 pe1)
    have k: "has_key g (permanent s2)" "provider3_get_quintuplet F g (permanent s2) p = (Some q, p1)" "pe_permanent pe1 = permanent s2"
      using assms(5) q(1) i(4,9) by simp_all
    show ?thesis
    proof (cases "seq_check c \<and> addr_val (provider_sqn p) \<le> addr_val (card_sqn c)")
      case False
      note iss = issues3 [OF assms(1,4) k(1) assms(6) k(2)] usim3 [OF assms(4) k(1) assms(6,7) k(2) False]
      show ?thesis
      proof (rule challenge_exchange [OF assms(1) E(2) [of 2] E(1) [of 1] iss i(5,8) k(3) i(10)], goal_cases)
        case x: (1 req2 s3 rsp2 pe2 c2)
        have "Eap_Aka_Server.process A (Es 2) [provider3_backend F g] rsp1 s1 p = Inr ((NEED_MORE, Some req2, s3), p1)"
          using i(3) x(1) by simp
        then have "conversation 3 A Es Ep [provider3_backend F g] [card3_backend F g] req1 (s1, p) (eap_aka_peer_create nai, c)
            = Some ((s3\<lparr>auth := auth s2 @ [permanent s2]\<rparr>, p1), pe2, c2)"
          using i(2) x(2,3) by (simp add: numeral_3_eq_3 numeral_2_eq_2)
        moreover have "\<not> synchronized s3" by (rule challenge_result [OF x(1)]) (use i(7) in simp_all)
        ultimately show ?thesis using i(1,4,6) x(4,5) False by (auto simp: get_auth_def get_msk_def peer_get_msk_def)
      qed
    next
      case True
      show ?thesis
      proof (rule sync_exchange [OF assms(1) E(2) [of 2] E(1) [of 1] assms(4) k(1) assms(6,7) k(2) _ _ i(5,7) k(3) i(10)], goal_cases)
        case y: (3 req2 s3 rsp2)
        let ?s3 = "s3\<lparr>synchronized := True\<rparr>" and ?p1 = "p1\<lparr>provider_sqn := snd (chunk_increment (card_sqn c))\<rparr>"
        let ?pe = "pe1\<lparr>pe_identifier := eap_identifier s2\<rparr>"
        have "rng ?p1 0 = rng p 1" using card3_on_vector(2) [OF assms(4-7) q(1)] by simp
        then obtain r where r: "rng ?p1 0 = Some r" using assms(9) by auto
        have wf: "provider3_wf ?p1" using q(2) assms(7) by (simp add: provider3_wf_def card3_wf_def chunk_increment_val)
        have k2: "has_key g (permanent ?s3)" "pseudonym ?s3 = None" "pe_pseudonym ?pe = None" "pe_permanent ?pe = permanent ?s3"
            "\<not> derived (pe_crypto ?pe)" using k(1,3) y(2,3) i(8,10) by simp_all
        obtain q2 p2 where q2: "provider3_get_quintuplet F g (permanent ?s3) ?p1 = (Some q2, p2)"
          using provider3_vector_sizes [OF assms(4) k2(1) wf r] by blast
        have new: "\<not> (seq_check c \<and> addr_val (provider_sqn ?p1) \<le> addr_val (card_sqn c))"
          using assms(7,12) by (simp add: card3_wf_def chunk_increment_val)
        note iss = issues3 [OF assms(1,4) k2(1) wf q2] usim3 [OF assms(4) k2(1) wf assms(7) q2 new]
        show ?thesis
        proof (rule challenge_exchange [OF assms(1) E(2) [of 1] E(1) [of 0] iss k2(2-5)], goal_cases)
          case x: (1 req3 s4 rsp3 pe2 c2)
          have "Eap_Aka_Server.process A (Es 2) [provider3_backend F g] rsp1 s1 p = Inr ((NEED_MORE, Some req2, s3), p1)"
            using i(3) y(1) by simp
          then have "conversation 3 A Es Ep [provider3_backend F g] [card3_backend F g] req1 (s1, p) (eap_aka_peer_create nai, c)
              = Some ((s4\<lparr>auth := auth ?s3 @ [permanent ?s3]\<rparr>, p2), pe2, c2)"
            using i(2) y(5,6) x(1,2,3) by (simp add: numeral_3_eq_3 numeral_2_eq_2)
          moreover have "synchronized s4" by (rule challenge_result [OF x(1)]) simp_all
          ultimately show ?thesis using i(1,4,6) y(2,4) x(4,5) True by (auto simp: get_auth_def get_msk_def peer_get_msk_def)
        qed
      qed (use True in simp_all)
    qed
  qed simp
qed

text \<open>
  C38. A response that reports a synchronization failure before any challenge was sent brings the
  server down when the provider of the plugin knows a key for the identity of the IKE peer: it
  dereferences the RAND the server does not have yet.
\<close>

theorem early_sync_failure_crashes:
  assumes "initiate A E0 [provider3_backend F g] (eap_aka_server_create peer True ident) p = Inr ((NEED_MORE, Some req, s), p')"
    and "has_key g peer" "aes_laws F" "aka_laws A" "env_laws E" "length auts = 14"
  shows "\<exists>rsp. generate_payload A E aka_crypto_create False (eap_identifier s) AKA_SYNCHRONIZATION_FAILURE [(AT_AUTS, auts)] [] = Inr (Some rsp)
    \<and> Eap_Aka_Server.process A E1 [provider3_backend F g] rsp s p' = Inl NullDeref"
proof -
  have s: "permanent s = peer" "rand s = None" "\<not> derived (crypto s)" "\<not> synchronized s"
    using assms(1) by (auto simp: initiate_def identity_def eap_aka_server_create_def aka_crypto_create_def elim!: andThen_InrE
        dest!: send_request_result)
  have w: "\<not> wants_mac AKA_SYNCHRONIZATION_FAILURE" by (simp add: wants_mac_def subtype_defs)
  have a: "list_all attr_ok [(AT_AUTS, auts)]" "list_all (\<lambda>a. \<not> is_encr a) [(AT_AUTS, auts)]"
    "length (plain_part [(AT_AUTS, auts)]) \<le> 1000"
    using assms(6) by (simp_all add: attr_ok_def is_encr_def to_encr_def plain_part_def enc_attr_def encode_attr_def at_defs)
  obtain k opc where ko: "eap_aka_3gpp_get_k_opc g peer = Some (k, opc)" "length k = 16" using assms(2) by (rule has_key_k_opc)
  have "aes_set_key F k" using assms(3) ko(2) by (simp add: aes_laws_def)
  then have r: "provider3_resync F g peer None auts p' = Inl NullDeref" by (simp add: provider3_resync_def ko)
  obtain y ys where y: "auts = y # ys" using assms(6) by (cases auts) auto
  show ?thesis
  proof (rule payload_plain [OF assms(4,5) a(1,2) w a(3), of aka_crypto_create False "eap_identifier s" "[]"], goal_cases)
    case (1 rsp m1 m2)
    have "process_synchronize A E1 [provider3_backend F g] m2 s p' = Inl NullDeref"
      using 1(6) s r unfolding y by (simp add: process_synchronize_def last_attr_def manager3_resync)
    then have "Eap_Aka_Server.process A E1 [provider3_backend F g] rsp s p' = Inl NullDeref"
      using 1(2,5,7) s(3) by (simp add: Eap_Aka_Server.process_def same_head_def subtype_defs)
    with 1(1) show ?thesis by blast
  qed
qed

section \<open>Witnesses\<close>

lemma sample3_conversation:
  "\<forall>n :: nat. env_laws sample_env \<and> env_laws sample_env \<and> id_from_data sample_env [1] = [1]"
  "rng sample_provider3 0 \<noteq> None" "rng sample_provider3 1 \<noteq> None" "0 < length [1 :: byte]" "length [1 :: byte] \<le> 200"
  "addr_val (card_sqn (sample_card3 9)) < 2 ^ 48 - 1"
  using sample_laws sample_maps(1) by (simp_all add: sample_provider3_def sample_card3_def)

theorem aka_3gpp_conversation_completes_witness:
  "\<exists>req s s' p' pe' c'.
    initiate sample_algs sample_env [provider3_backend sample_aes sample_shared] (eap_aka_server_create [2] True 7) sample_provider3
      = Inr ((NEED_MORE, Some req, s), sample_provider3)
    \<and> conversation 3 sample_algs (\<lambda>_. sample_env) (\<lambda>_. sample_env) [provider3_backend sample_aes sample_shared]
        [card3_backend sample_aes sample_shared] req (s, sample_provider3) (eap_aka_peer_create [1], sample_card3 9) = Some ((s', p'), pe', c')
    \<and> get_auth s' = [[1]] \<and> synchronized s'"
proof -
  have v: "addr_val (provider_sqn sample_provider3) \<le> addr_val (card_sqn (sample_card3 9))"
    by (simp add: sample_provider3_def sample_card3_def)
  show ?thesis
    using aka_3gpp_conversation_completes [OF sample_laws(1,2) sample3_conversation(1) sample_aes_laws sample3_wf(1,2) sample3_wf(3) [of 9]
        sample3_conversation(2-6), of "[2]" 7] v sample3_wf(5) by blast
qed

theorem early_sync_failure_crashes_witness:
  "\<exists>req s rsp. initiate sample_algs sample_env [provider3_backend sample_aes sample_shared] (eap_aka_server_create [2] True 7) sample_provider3
      = Inr ((NEED_MORE, Some req, s), sample_provider3)
    \<and> Eap_Aka_Server.process sample_algs sample_env [provider3_backend sample_aes sample_shared] rsp s sample_provider3 = Inl NullDeref"
proof -
  have n: "id_from_data E [1] = [1]" if "E \<in> {sample_env}" for E using that sample_maps(1) by simp
  show ?thesis
  proof (rule identity_round [where Es = "{sample_env}" and peer = "[2]" and ident = 7,
        OF sample_laws(1,2,2) sample3_conversation(4,5) n manager3(2,3) [of sample_aes sample_shared "[1]" sample_provider3]
          cards3(1,2) [of sample_aes sample_shared "[1]" "sample_card3 9"]], goal_cases)
    case (2 req rsp s s2 p)
    have "length (replicate 14 0 :: chunk) = 14" by simp
    from early_sync_failure_crashes [OF 2(1) sample3_wf(1) sample_aes_laws sample_laws this, of sample_env] 2(1) show ?thesis by blast
  qed simp
qed

end
