(* ===== verification/Simaka_Reauth.thy ===== *)
theory Simaka_Reauth
  imports Chunk Simaka_Manager
begin

text \<open>
  The backends of the eap-simaka-reauth plugin: \<open>eap_simaka_reauth_provider.c\<close> gives out
  identities for fast re-authentication and remembers the master key behind them,
  \<open>eap_simaka_reauth_card.c\<close> keeps such an identity for the peer.  The hash tables are finite maps
  (the contract of \<open>Dict\<close>, which \<open>Hashtable\<close> fulfils); identities are given by their encoding.
\<close>

section \<open>The provider\<close>

record reauth_data =
  rd_id :: chunk
  rd_counter :: "16 word"
  rd_mk :: chunk

text \<open>\<open>rp_rng\<close> is what the generator of random numbers will give, in order.\<close>

record reauth_provider =
  rp_reauth :: "chunk \<Rightarrow> reauth_data option"
  rp_permanent :: "chunk \<Rightarrow> chunk option"
  rp_rng :: "nat \<Rightarrow> chunk option"

definition eap_simaka_reauth_provider_create :: "(nat \<Rightarrow> chunk option) \<Rightarrow> reauth_provider" where
  "eap_simaka_reauth_provider_create g = \<lparr>rp_reauth = Map.empty, rp_permanent = Map.empty, rp_rng = g\<rparr>"

definition gen_identity :: "reauth_provider \<Rightarrow> chunk option \<times> reauth_provider" where
  "gen_identity this =
     (case rp_rng this 0 of
        None \<Rightarrow> (None, this\<lparr>rp_rng := \<lambda>n. rp_rng this (Suc n)\<rparr>)
      | Some buf \<Rightarrow> (Some (chunk_to_hex buf False), this\<lparr>rp_rng := \<lambda>n. rp_rng this (Suc n)\<rparr>))"

definition is_reauth :: "chunk \<Rightarrow> reauth_provider \<Rightarrow> (chunk \<times> chunk \<times> 16 word) option \<times> reauth_provider" where
  "is_reauth i this =
     (case rp_permanent this i of
        None \<Rightarrow> (None, this)
      | Some permanent \<Rightarrow>
          (case rp_reauth this permanent of
             None \<Rightarrow> (None, this)
           | Some data \<Rightarrow>
               let d = data\<lparr>rd_counter := rd_counter data + 1\<rparr> in
               (Some (permanent, rd_mk d, rd_counter d), this\<lparr>rp_reauth := (rp_reauth this)(permanent \<mapsto> d)\<rparr>)))"

definition gen_reauth :: "chunk \<Rightarrow> chunk \<Rightarrow> reauth_provider \<Rightarrow> chunk option \<times> reauth_provider" where
  "gen_reauth i mk this =
     (case gen_identity this of
        (None, t) \<Rightarrow> (None, t)
      | (Some new_id, t) \<Rightarrow>
          (case rp_reauth t i of
             Some data \<Rightarrow>
               (case rp_permanent t (rd_id data) of
                  Some permanent \<Rightarrow>
                    (Some new_id,
                     t\<lparr>rp_permanent := ((rp_permanent t)(rd_id data := None))(new_id \<mapsto> permanent),
                       rp_reauth := (rp_reauth t)(i \<mapsto> data\<lparr>rd_id := new_id, rd_mk := take 20 mk\<rparr>)\<rparr>)
                | None \<Rightarrow>
                    (Some (rd_id data), t\<lparr>rp_reauth := (rp_reauth t)(i \<mapsto> data\<lparr>rd_mk := take 20 mk\<rparr>)\<rparr>))
           | None \<Rightarrow>
               (Some new_id,
                t\<lparr>rp_reauth := (rp_reauth t)(i \<mapsto> \<lparr>rd_id = new_id, rd_counter = 0, rd_mk = take 20 mk\<rparr>),
                  rp_permanent := (rp_permanent t)(new_id \<mapsto> i)\<rparr>)))"

definition reauth_provider_backend :: "reauth_provider simaka_provider" where
  "reauth_provider_backend =
     \<lparr>sp_get_quintuplet = (\<lambda>i w. Inr (None, w)), sp_resync = (\<lambda>i rnd auts w. Inr (None, w)),
      sp_is_pseudonym = (\<lambda>i w. Inr (None, w)), sp_gen_pseudonym = (\<lambda>i w. Inr (None, w)),
      sp_is_reauth = (\<lambda>i w. Inr (is_reauth i w)), sp_gen_reauth = (\<lambda>i mk w. Inr (gen_reauth i mk w))\<rparr>"

section \<open>The card\<close>

record reauth_card_data =
  cd_id :: chunk
  cd_counter :: "16 word"
  cd_mk :: chunk

type_synonym reauth_card = "chunk \<Rightarrow> reauth_card_data option"

definition get_reauth :: "chunk \<Rightarrow> reauth_card \<Rightarrow> (chunk \<times> chunk \<times> 16 word) option \<times> reauth_card" where
  "get_reauth i this =
     (case this i of
        None \<Rightarrow> (None, this)
      | Some data \<Rightarrow> (Some (cd_id data, cd_mk data, cd_counter data + 1), this(i := None)))"

definition set_reauth :: "chunk \<Rightarrow> chunk \<Rightarrow> chunk \<Rightarrow> 16 word \<Rightarrow> reauth_card \<Rightarrow> reauth_card" where
  "set_reauth i nxt mk counter this = this(i \<mapsto> \<lparr>cd_id = nxt, cd_counter = counter, cd_mk = take 20 mk\<rparr>)"

text \<open>Any status but success and an invalid state makes the manager ask the next card.\<close>

definition reauth_card_backend :: "reauth_card simaka_card" where
  "reauth_card_backend =
     \<lparr>sc_get_quintuplet = (\<lambda>i rand autn w. Inr (Card_Failed, w)), sc_resync = (\<lambda>i rand w. Inr (None, w)),
      sc_set_pseudonym = (\<lambda>i p w. Inr w), sc_get_pseudonym = (\<lambda>i w. Inr (None, w)),
      sc_set_reauth = (\<lambda>i n mk cnt w. Inr (set_reauth i n mk cnt w)), sc_get_reauth = (\<lambda>i w. Inr (get_reauth i w))\<rparr>"

section \<open>The two tables of the provider\<close>

text \<open>Every subscriber with an entry has exactly one identity, which leads back to it.\<close>

definition reauth_inv :: "reauth_provider \<Rightarrow> bool" where
  "reauth_inv t \<longleftrightarrow> (\<forall>i p. rp_permanent t i = Some p \<longleftrightarrow> (\<exists>d. rp_reauth t p = Some d \<and> rd_id d = i))"

lemma reauth_inv_create: "reauth_inv (eap_simaka_reauth_provider_create g)"
  by (simp add: reauth_inv_def eap_simaka_reauth_provider_create_def)

text \<open>What the generator gives next is an identity no subscriber has.\<close>

definition fresh_next :: "reauth_provider \<Rightarrow> bool" where
  "fresh_next t \<longleftrightarrow> (\<forall>buf. rp_rng t 0 = Some buf \<longrightarrow> rp_permanent t (chunk_to_hex buf False) = None)"

lemma reauth_inv_is_reauth:
  assumes "reauth_inv t"
  shows "reauth_inv (snd (is_reauth i t))"
  using assms by (auto simp: reauth_inv_def is_reauth_def Let_def split: option.split)

lemma gen_reauth_cases:
  assumes "reauth_inv t"
  obtains (failed) "rp_rng t 0 = None" "gen_reauth p mk t = (None, t\<lparr>rp_rng := \<lambda>n. rp_rng t (Suc n)\<rparr>)"
  | (update) buf d where "rp_rng t 0 = Some buf" "rp_reauth t p = Some d" "rp_permanent t (rd_id d) = Some p"
      "gen_reauth p mk t = (Some (chunk_to_hex buf False), t\<lparr>rp_rng := \<lambda>n. rp_rng t (Suc n),
         rp_permanent := ((rp_permanent t)(rd_id d := None))(chunk_to_hex buf False \<mapsto> p),
         rp_reauth := (rp_reauth t)(p \<mapsto> d\<lparr>rd_id := chunk_to_hex buf False, rd_mk := take 20 mk\<rparr>)\<rparr>)"
  | (new) buf where "rp_rng t 0 = Some buf" "rp_reauth t p = None"
      "gen_reauth p mk t = (Some (chunk_to_hex buf False), t\<lparr>rp_rng := \<lambda>n. rp_rng t (Suc n),
         rp_reauth := (rp_reauth t)(p \<mapsto> \<lparr>rd_id = chunk_to_hex buf False, rd_counter = 0, rd_mk = take 20 mk\<rparr>),
         rp_permanent := (rp_permanent t)(chunk_to_hex buf False \<mapsto> p)\<rparr>)"
proof (cases "rp_rng t 0")
  case None
  then show ?thesis using failed by (simp add: gen_reauth_def gen_identity_def)
next
  case (Some buf)
  show ?thesis
  proof (cases "rp_reauth t p")
    case None
    then show ?thesis using new Some by (simp add: gen_reauth_def gen_identity_def)
  next
    case d: (Some d)
    then have "rp_permanent t (rd_id d) = Some p" using assms by (auto simp: reauth_inv_def)
    then show ?thesis using update Some d by (simp add: gen_reauth_def gen_identity_def)
  qed
qed

lemma reauth_inv_gen_reauth:
  assumes inv: "reauth_inv t" and fresh: "fresh_next t"
  shows "reauth_inv (snd (gen_reauth p mk t))"
  using inv
proof (cases rule: gen_reauth_cases [of t p mk])
  case failed
  then show ?thesis using inv by (simp add: reauth_inv_def)
next
  case (update buf d)
  have n: "rp_permanent t (chunk_to_hex buf False) = None" using fresh update(1) by (simp add: fresh_next_def)
  show ?thesis using inv n update(2,3) unfolding update(4) reauth_inv_def by simp (metis option.inject option.distinct(1))
next
  case (new buf)
  have n: "rp_permanent t (chunk_to_hex buf False) = None" using fresh new(1) by (simp add: fresh_next_def)
  show ?thesis using inv n new(2) unfolding new(3) reauth_inv_def by simp (metis option.distinct(1))
qed

section \<open>Properties\<close>

text \<open>
  An identity for re-authentication leads back to its subscriber: after one was generated for
  a subscriber, looking it up gives the subscriber, the master key it was generated with and
  the next counter, which is 1 for a new subscriber; an earlier identity of the subscriber is
  no longer accepted, and those of all others are as before.  The tables stay consistent.
\<close>

theorem reauth_identity_round_trip:
  assumes "reauth_inv t" "fresh_next t" "rp_rng t 0 = Some buf" "length mk = 20"
  shows "\<exists>i t1. gen_reauth p mk t = (Some i, t1) \<and> reauth_inv t1 \<and> reauth_inv (snd (is_reauth i t1))
    \<and> fst (is_reauth i t1) = Some (p, mk, (case rp_reauth t p of None \<Rightarrow> 1 | Some d \<Rightarrow> rd_counter d + 1))
    \<and> (\<forall>d. rp_reauth t p = Some d \<longrightarrow> fst (is_reauth (rd_id d) t1) = None)
    \<and> (\<forall>p' d. p' \<noteq> p \<and> rp_reauth t p' = Some d \<longrightarrow> fst (is_reauth (rd_id d) t1) = Some (p', rd_mk d, rd_counter d + 1))"
proof -
  have n: "rp_permanent t (chunk_to_hex buf False) = None" using assms(2,3) by (simp add: fresh_next_def)
  have o: "rd_id d \<noteq> chunk_to_hex buf False \<and> rp_permanent t (rd_id d) = Some p'" if "rp_reauth t p' = Some d" for p' d
    using that assms(1) n unfolding reauth_inv_def by (metis option.distinct(1))
  have j: "reauth_inv (snd (gen_reauth p mk t))" by (rule reauth_inv_gen_reauth [OF assms(1,2)])
  from assms(1) show ?thesis
  proof (cases rule: gen_reauth_cases [of t p mk])
    case failed
    then show ?thesis using assms(3) by simp
  next
    case (update b d)
    have "rd_id d' \<noteq> rd_id d" if "p' \<noteq> p" "rp_reauth t p' = Some d'" for p' d'
      using o [OF update(2)] o [OF that(2)] that(1) by auto
    then show ?thesis using j reauth_inv_is_reauth [OF j, of "chunk_to_hex b False"] o assms(3,4) update(1-3)
      unfolding update(4) by (auto simp: is_reauth_def Let_def)
  next
    case (new b)
    then show ?thesis using j reauth_inv_is_reauth [OF j, of "chunk_to_hex b False"] o assms(3,4)
      unfolding new(3) by (auto simp: is_reauth_def Let_def)
  qed
qed

theorem reauth_identity_round_trip_witness:
  "\<exists>i t1. gen_reauth [1] (replicate 20 7) (eap_simaka_reauth_provider_create (\<lambda>n. Some (replicate 8 (of_nat n)))) = (Some i, t1)
    \<and> fst (is_reauth i t1) = Some ([1], replicate 20 7, 1)"
proof -
  let ?t = "eap_simaka_reauth_provider_create (\<lambda>n. Some (replicate 8 (of_nat n)))"
  have "fresh_next ?t" "rp_rng ?t 0 = Some (replicate 8 0)" "rp_reauth ?t [1] = None" "length (replicate 20 7 :: chunk) = 20"
    by (simp_all add: fresh_next_def eap_simaka_reauth_provider_create_def)
  from reauth_identity_round_trip [OF reauth_inv_create this(1,2,4), of "[1]"] this(3) show ?thesis by fastforce
qed

end
