(* ===== verification/Aka_Reauth.thy ===== *)
theory Aka_Reauth
  imports Aka_Resync Simaka_Reauth
begin

text \<open>
  Fast re-authentication: server and peer of EAP-AKA with the backends of the eap-simaka-reauth
  plugin, after a full authentication.
\<close>

section \<open>Keys\<close>

lemma derive_keys_reauth_total:
  assumes A: "aka_laws A"
  obtains cr where "\<And>t. derive_keys_reauth A mk t = Inr (True, cr)"
    and "\<And>E. env_laws E \<Longrightarrow> crypto_laws (as_crypto A (rnd E) cr)"
proof -
  obtain str where str: "prf_blocks A mk 2 = Some str" "length str = 80" using prf_blocks_total [OF A, of mk 2] by auto
  let ?cr = "\<lparr>derived = True, k_encr = take 16 str, k_auth = take 16 (drop 16 str)\<rparr>"
  have "derive_keys_reauth A mk t = Inr (True, ?cr)" for t
    using A str by (simp add: derive_keys_reauth_def set_keys_total [OF A] aka_laws_def)
  then show thesis using set_keys_total(2) [OF A] by (rule that)
qed

lemma derive_keys_reauth_msk_total:
  assumes A: "aka_laws A"
  obtains ms where "derive_keys_reauth_msk A i c n mk = Inr (Some ms)"
proof -
  obtain x where x: "al_sha1 A (i @ c @ n @ mk) = Some x" using A unfolding aka_laws_def by blast
  obtain str where "prf_blocks A x 2 = Some str" "length str = 80" using prf_blocks_total [OF A, of x 2] by auto
  then show thesis using that A x by (simp add: derive_keys_reauth_msk_def aka_laws_def)
qed

section \<open>The request and the response\<close>

definition reauth_attrs :: "chunk \<Rightarrow> chunk \<Rightarrow> chunk option \<Rightarrow> attr list" where
  "reauth_attrs cnt n nx = [(AT_COUNTER, cnt), (AT_NONCE_S, n)] @ opt_attr AT_NEXT_REAUTH_ID nx"

lemma reauth_attrs_ok:
  assumes "length cnt = 2" "length n = 16" "\<forall>x. nx = Some x \<longrightarrow> length x \<le> 200"
  shows "list_all attr_ok (reauth_attrs cnt n nx)"
    and "filter (\<lambda>a. \<not> is_encr a) (reauth_attrs cnt n nx) = []" "filter is_encr (reauth_attrs cnt n nx) = reauth_attrs cnt n nx"
    and "length (encr_part (reauth_attrs cnt n nx)) < 512" and "message_size SIM_REAUTHENTICATION (reauth_attrs cnt n nx) \<le> 1024"
proof -
  show "list_all attr_ok (reauth_attrs cnt n nx)"
    using assms by (auto simp: reauth_attrs_def opt_attr_def attr_ok_def at_defs split: option.split)
  have e: "is_encr (AT_NEXT_REAUTH_ID, d)" "is_encr (AT_COUNTER, d)" "is_encr (AT_NONCE_S, d)" for d
    by (simp_all add: is_encr_def to_encr_def at_defs)
  show f: "filter (\<lambda>a. \<not> is_encr a) (reauth_attrs cnt n nx) = []" "filter is_encr (reauth_attrs cnt n nx) = reauth_attrs cnt n nx"
    by (auto simp: reauth_attrs_def opt_attr_def e split: option.split)
  have "length (concat (map enc_attr (opt_attr AT_NEXT_REAUTH_ID nx))) \<le> 208"
    using assms(3) by (auto simp: opt_attr_def intro!: identity_attr_size split: option.split)
  moreover have "length (enc_attr (AT_COUNTER, cnt)) \<le> 4" "length (enc_attr (AT_NONCE_S, n)) \<le> 20"
    using assms(1,2) by (simp_all add: enc_attr_def encode_attr_def at_defs)
  ultimately have l: "length (encr_part (reauth_attrs cnt n nx)) \<le> 232" unfolding encr_part_def f(2) by (simp add: reauth_attrs_def)
  then show "length (encr_part (reauth_attrs cnt n nx)) < 512" by simp
  have "plain_part (reauth_attrs cnt n nx) = []" by (simp add: plain_part_def f)
  then show "message_size SIM_REAUTHENTICATION (reauth_attrs cnt n nx) \<le> 1024"
    using l padding_for_props(3) [of "length (encr_part (reauth_attrs cnt n nx))"] by (simp add: message_size_def)
qed

definition reauth_requested :: "chunk \<Rightarrow> 16 word \<Rightarrow> aka_crypto \<Rightarrow> chunk \<Rightarrow> eap_aka_server \<Rightarrow> eap_aka_server" where
  "reauth_requested n cnt cr ms s = s\<lparr>nonce := n, counter := be_bytes 2 cnt, crypto := cr, msk := Some ms,
     eap_identifier := eap_identifier s + 1, pending := SIM_REAUTHENTICATION\<rparr>"

lemma reauth_sent:
  assumes E: "env_laws E1" and dk: "\<And>t. derive_keys_reauth A mk t = Inr (True, cr)"
    and C: "crypto_laws (as_crypto A (rnd E1) cr)" and n: "rnd E1 16 = Some n" "length n = 16"
    and ms: "derive_keys_reauth_msk A i (be_bytes 2 cnt) n mk = Inr (Some ms)" and s: "reauth s = Some i"
    and nx: "provider_gen_reauth mgr (permanent s) mk w = Inr (nx, w1)" "\<forall>x. nx = Some x \<longrightarrow> length x \<le> 200"
  obtains req m1 n2 where "reauthenticate A E1 mgr mk cnt s w = Inr ((NEED_MORE, Some req, reauth_requested n cnt cr ms s), w1)"
    and "simaka_message_create_from_payload req = Some m1" "length req > 1" "req ! 1 = eap_identifier s"
    and "\<And>r c0. \<not> derived c0 \<Longrightarrow> parse (as_crypto A r c0) m1 = Inr (True, n2)"
    and "same_head n2 True (eap_identifier s) SIM_REAUTHENTICATION"
    and "\<And>r. \<exists>n3 n4. verify (as_crypto A r cr) [] n2 = Inr (True, n3) \<and> parse (as_crypto A r cr) n3 = Inr (True, n4)
      \<and> attributes n4 = reauth_attrs (be_bytes 2 cnt) n nx"
proof -
  let ?c = "be_bytes 2 cnt"
  have c: "length ?c = 2" by simp
  note as = reauth_attrs_ok [OF c n(2) nx(2)]
  have w: "wants_mac SIM_REAUTHENTICATION" by (simp add: wants_mac_def)
  show thesis
  proof (rule payload_keyed [OF C E as(1,4,5), of True "eap_identifier s" "[]"], goal_cases)
    case (1 req m1 m2 n2)
    have rq: "reauthenticate A E1 mgr mk cnt s w = Inr ((NEED_MORE, Some req, reauth_requested n cnt cr ms s), w1)"
      using 1(1) n(1) dk ms s nx(1) by (simp add: reauthenticate_def send_request_def Let_def reauth_attrs_def reauth_requested_def)
    have v: "\<exists>n3 n4. verify (as_crypto A r cr) [] n2 = Inr (True, n3) \<and> parse (as_crypto A r cr) n3 = Inr (True, n4)
        \<and> attributes n4 = reauth_attrs ?c n nx" for r
      using 1(12) [OF w, of r] unfolding as(2,3) by auto
    show thesis by (rule that [OF rq 1(2,3,4,9,11) v])
  qed
qed

lemma peer_answers_reauth:
  assumes E: "env_laws E" and dk: "\<And>t. derive_keys_reauth A mk t = Inr (True, cr)"
    and C: "crypto_laws (as_crypto A (rnd E) cr)" and n: "length n = 16"
    and ms: "derive_keys_reauth_msk A i (be_bytes 2 cnt) n mk = Inr (Some ms)"
    and v: "verify (as_crypto A (rnd E) cr) [] n2 = Inr (True, n3)" "parse (as_crypto A (rnd E) cr) n3 = Inr (True, n4)"
      "attributes n4 = reauth_attrs (be_bytes 2 cnt) n nx"
    and p: "pe_reauth p = Some i" "pe_mk p = mk" "pe_counter p \<le> cnt"
    and st: "(case nx of None \<Rightarrow> Inr c | Some x \<Rightarrow> card_set_reauth cards (pe_permanent p) (id_from_data E x) mk (pe_counter p) c) = Inr c1"
      "nx \<noteq> Some []"
  obtains rsp m1 m2 where "Eap_Aka_Peer.process_reauthentication A E cards n2 p c
      = Inr ((NEED_MORE, Some rsp, p\<lparr>pe_crypto := cr, pe_msk := Some ms\<rparr>), c1)"
    and "simaka_message_create_from_payload rsp = Some m1" and "\<And>r. parse (as_crypto A r cr) m1 = Inr (True, m2)"
    and "attributes m2 = [(AT_COUNTER, be_bytes 2 cnt)]" "get_subtype m2 = SIM_REAUTHENTICATION"
    and "\<And>r. \<exists>m3. verify (as_crypto A r cr) n m2 = Inr (True, m3) \<and> attributes m3 = attributes m2"
proof -
  let ?c = "be_bytes 2 cnt" and ?t = "p\<lparr>pe_crypto := cr, pe_msk := Some ms\<rparr>" and ?as = "[(AT_COUNTER, be_bytes 2 cnt)]"
  have w: "wants_mac SIM_REAUTHENTICATION" by (simp add: wants_mac_def)
  have f: "filter is_encr ?as = ?as" "filter (\<lambda>a. \<not> is_encr a) ?as = []" by (simp_all add: is_encr_def to_encr_def at_defs)
  have as: "list_all attr_ok ?as" by (simp add: attr_ok_def at_defs)
  have "length (enc_attr (AT_COUNTER, ?c)) \<le> 4" by (simp add: enc_attr_def encode_attr_def at_defs)
  then have l: "length (encr_part ?as) \<le> 4" unfolding encr_part_def f by simp
  have sz: "length (encr_part ?as) < 512" "message_size SIM_REAUTHENTICATION ?as \<le> 1024"
    using l padding_for_props(3) [of "length (encr_part ?as)"] f by (simp_all add: message_size_def plain_part_def)
  have cne: "?c \<noteq> []" "n \<noteq> []" using n by (auto simp: numeral_2_eq_2)
  have sc: "scan_attrs [AT_COUNTER, AT_NONCE_S, AT_NEXT_REAUTH_ID] (attributes n4) = Some (attributes n4)"
    "last_attr AT_NONCE_S (attributes n4) = Some n" "last_attr AT_COUNTER (attributes n4) = Some ?c"
    "last_attr AT_NEXT_REAUTH_ID (attributes n4) = nx" "\<And>x. nx = Some x \<Longrightarrow> snd (last (attributes n4)) = x"
    unfolding v(3) by (auto simp: reauth_attrs_def opt_attr_def last_attr_def at_defs split: option.split)
  have small: "counter_too_small ?c (p\<lparr>pe_crypto := cr\<rparr>) = Inr False"
    using p(3) by (simp add: counter_too_small_def be_word_be_bytes_full)
  show thesis
  proof (rule payload_keyed [OF C E as sz, of False "get_identifier n4" n], goal_cases)
    case (1 rsp m1 m2 n2')
    have "accept_reauthentication A E cards n4 ?c n nx i (p\<lparr>pe_crypto := cr\<rparr>) c = Inr ((NEED_MORE, Some rsp, ?t), c1)"
      using small ms st p(2) sc(5) 1(1)
      by (cases nx) (simp_all add: accept_reauthentication_def Let_def respond_def)
    then have "Eap_Aka_Peer.process_reauthentication A E cards n2 p c = Inr ((NEED_MORE, Some rsp, ?t), c1)"
      using p(1,2) dk v(1,2) sc(1-4) cne by (simp add: Eap_Aka_Peer.process_reauthentication_def Let_def)
    from that [OF this 1(2,5) _ _ 1(8) [OF w]] show thesis using 1(6,7) f by (simp add: same_head_def)
  qed
qed

text \<open>
  A whole conversation: the peer sends the identity its card has, the server finds it mapped to
  the subscriber, and the peer accepts the counter.
\<close>

lemma reauth_exchange:
  assumes A: "aka_laws A" and E: "env_laws E1" "env_laws E2" "env_laws E3" "env_laws E4"
    and i: "0 < length i" "length i \<le> 200" "id_from_data E3 i = i"
    and card: "card_get_reauth cards nai c = Inr (Some (i, mk, pc), c1)"
    and mgr: "provider_is_reauth mgr i w = Inr (Some (perm, mk, sc), w1)" "provider_gen_reauth mgr perm mk w1 = Inr (nx, w2)"
      "\<forall>x. nx = Some x \<longrightarrow> 0 < length x \<and> length x \<le> 200"
    and cnt: "pc \<le> sc"
    and st: "(case nx of None \<Rightarrow> Inr c1 | Some x \<Rightarrow> card_set_reauth cards nai (id_from_data E4 x) mk pc c1) = Inr c2"
  obtains req1 rsp1 req2 rsp2 s1 s2 p1 p2 where
      "initiate A E1 mgr (eap_aka_server_create peer True ident) w = Inr ((NEED_MORE, Some req1, s1), w)"
    and "peer_process A E2 cards req1 (eap_aka_peer_create nai) c = Inr ((NEED_MORE, Some rsp1, p1), c1)"
    and "Eap_Aka_Server.process A E3 mgr rsp1 s1 w = Inr ((NEED_MORE, Some req2, s2), w2)"
    and "peer_process A E4 cards req2 p1 c1 = Inr ((NEED_MORE, Some rsp2, p2), c2)"
    and "\<And>E5 v. Eap_Aka_Server.process A E5 mgr rsp2 s2 v = Inr ((SUCCESS, None, s2), v)"
    and "get_msk s2 = peer_get_msk p2" "peer_get_msk p2 \<noteq> None"
proof -
  let ?s = "eap_aka_server_create peer True ident" and ?p = "eap_aka_peer_create nai"
  let ?s1 = "?s\<lparr>eap_identifier := eap_identifier ?s + 1, pending := AKA_IDENTITY\<rparr>"
  let ?s2 = "?s1\<lparr>permanent := perm, reauth := Some i\<rparr>"
  let ?p1 = "(asked (eap_identifier ?s) ?p)\<lparr>pe_reauth := Some i, pe_mk := mk, pe_counter := pc\<rparr>"
  have s: "use_reauth ?s" "\<not> derived (crypto ?s)" "\<not> derived (pe_crypto ?p)" and p1: "\<not> derived (pe_crypto ?p1)"
    by (simp_all add: eap_aka_server_create_def eap_aka_peer_create_def aka_crypto_create_def asked_def clear_keys_def)
  have sel: "select_identity cards (Some AT_ANY_ID_REQ) (asked (eap_identifier ?s) ?p) c = Inr ((i, ?p1), c1)"
    using card by (simp add: select_identity_def asked_def eap_aka_peer_create_def)
  obtain n where n: "rnd E3 16 = Some n" "length n = 16" using E(3) unfolding env_laws_def by blast
  obtain cr where dk: "\<And>t. derive_keys_reauth A mk t = Inr (True, cr)" and C: "\<And>E. env_laws E \<Longrightarrow> crypto_laws (as_crypto A (rnd E) cr)"
    using derive_keys_reauth_total [OF A] by blast
  obtain ms where ms: "derive_keys_reauth_msk A i (be_bytes 2 sc) n mk = Inr (Some ms)" using derive_keys_reauth_msk_total [OF A] by blast
  have r: "reauth ?s2 = Some i" "provider_gen_reauth mgr (permanent ?s2) mk w1 = Inr (nx, w2)" "\<forall>x. nx = Some x \<longrightarrow> length x \<le> 200"
    using mgr(2,3) by simp_all
  show thesis
  proof (rule any_identity_exchange [OF A E(1,2) i(1,2) s sel], goal_cases)
    case a: (1 req1 rsp1 m1 m2)
    show thesis
    proof (rule reauth_sent [OF E(3) dk C [OF E(3)] n ms r], goal_cases)
      case b: (1 req2 k1 n2)
      let ?s3 = "reauth_requested n sc cr ms ?s2" and ?p2 = "?p1\<lparr>pe_identifier := eap_identifier ?s2\<rparr>"
      obtain n3 n4 where v: "verify (as_crypto A (rnd E4) cr) [] n2 = Inr (True, n3)" "parse (as_crypto A (rnd E4) cr) n3 = Inr (True, n4)"
        "attributes n4 = reauth_attrs (be_bytes 2 sc) n nx" using b(7) by blast
      have p2: "pe_reauth ?p2 = Some i" "pe_mk ?p2 = mk" "pe_counter ?p2 \<le> sc" "nx \<noteq> Some []"
        "(case nx of None \<Rightarrow> Inr c1 | Some x \<Rightarrow> card_set_reauth cards (pe_permanent ?p2) (id_from_data E4 x) mk (pe_counter ?p2) c1) = Inr c2"
        using cnt mgr(3) st by (auto simp: asked_def eap_aka_peer_create_def split: option.split option.split_asm)
      show thesis
      proof (rule peer_answers_reauth [OF E(4) dk C [OF E(4)] n(2) ms v p2(1-3,5,4)], goal_cases)
        case d: (1 rsp2 j1 j2)
        have e1: "initiate A E1 mgr ?s w = Inr ((NEED_MORE, Some req1, ?s1), w)"
          using a(1) by (simp add: initiate_def eap_aka_server_create_def)
        have "Eap_Aka_Server.process_identity A E3 mgr m2 ?s1 w = reauthenticate A E3 mgr mk sc ?s2 w1"
          using a(5) i(1,3) mgr(1) by (cases i) (simp_all add: Eap_Aka_Server.process_identity_def last_attr_def eap_aka_server_create_def)
        then have e2: "Eap_Aka_Server.process A E3 mgr rsp1 ?s1 w = Inr ((NEED_MORE, Some req2, ?s3), w2)"
          using a(3,4,6) b(1) s(2) by (simp add: Eap_Aka_Server.process_def)
        have e3: "peer_process A E4 cards req2 ?p1 c1 = Inr ((NEED_MORE, Some rsp2, ?p2\<lparr>pe_crypto := cr, pe_msk := Some ms\<rparr>), c2)"
          using b(2-6) d(1) p1 by (simp add: peer_process_def same_head_def Let_def subtype_defs)
        have e4: "Eap_Aka_Server.process A E5 mgr rsp2 ?s3 v = Inr ((SUCCESS, None, ?s3), v)" for E5 v
        proof -
          obtain j3 where "verify (as_crypto A (rnd E5) cr) n j2 = Inr (True, j3)" "attributes j3 = [(AT_COUNTER, be_bytes 2 sc)]"
            using d(6) [of "rnd E5"] d(4) by auto
          moreover have "be_bytes 2 sc \<noteq> []" by (auto simp: numeral_2_eq_2)
          ultimately have "Eap_Aka_Server.process_reauthentication A E5 mgr j2 ?s3 v = Inr ((SUCCESS, None, ?s3), v)"
            by (simp add: Eap_Aka_Server.process_reauthentication_def last_attr_def chunk_equals_const_def reauth_requested_def at_defs)
          then show ?thesis using d(2,3,5) by (simp add: Eap_Aka_Server.process_def Let_def reauth_requested_def subtype_defs)
        qed
        show thesis by (rule that [OF e1 a(2) e2 e3 e4]) (simp_all add: get_msk_def peer_get_msk_def reauth_requested_def)
      qed
    qed
  qed
qed

section \<open>Two backends on each side\<close>

text \<open>
  Server and peer each have two backends with a state of their own: the one for vectors and the
  one for re-authentication.  A backend works on its component of the pair.
\<close>

definition at_fst :: "('w \<Rightarrow> ('a \<times> 'w) res) \<Rightarrow> 'w \<times> 'v \<Rightarrow> ('a \<times> 'w \<times> 'v) res" where
  "at_fst f = (\<lambda>(w, v). andThen (f w) (\<lambda>(r, w1). Inr (r, w1, v)))"

definition at_snd :: "('v \<Rightarrow> ('a \<times> 'v) res) \<Rightarrow> 'w \<times> 'v \<Rightarrow> ('a \<times> 'w \<times> 'v) res" where
  "at_snd f = (\<lambda>(w, v). andThen (f v) (\<lambda>(r, v1). Inr (r, w, v1)))"

definition provider_fst :: "'w simaka_provider \<Rightarrow> ('w \<times> 'v) simaka_provider" where
  "provider_fst b = \<lparr>sp_get_quintuplet = (\<lambda>i. at_fst (sp_get_quintuplet b i)), sp_resync = (\<lambda>i rn auts. at_fst (sp_resync b i rn auts)),
     sp_is_pseudonym = (\<lambda>i. at_fst (sp_is_pseudonym b i)), sp_gen_pseudonym = (\<lambda>i. at_fst (sp_gen_pseudonym b i)),
     sp_is_reauth = (\<lambda>i. at_fst (sp_is_reauth b i)), sp_gen_reauth = (\<lambda>i mk. at_fst (sp_gen_reauth b i mk))\<rparr>"

definition provider_snd :: "'v simaka_provider \<Rightarrow> ('w \<times> 'v) simaka_provider" where
  "provider_snd b = \<lparr>sp_get_quintuplet = (\<lambda>i. at_snd (sp_get_quintuplet b i)), sp_resync = (\<lambda>i rn auts. at_snd (sp_resync b i rn auts)),
     sp_is_pseudonym = (\<lambda>i. at_snd (sp_is_pseudonym b i)), sp_gen_pseudonym = (\<lambda>i. at_snd (sp_gen_pseudonym b i)),
     sp_is_reauth = (\<lambda>i. at_snd (sp_is_reauth b i)), sp_gen_reauth = (\<lambda>i mk. at_snd (sp_gen_reauth b i mk))\<rparr>"

definition card_fst :: "'w simaka_card \<Rightarrow> ('w \<times> 'v) simaka_card" where
  "card_fst b = \<lparr>sc_get_quintuplet = (\<lambda>i rn autn. at_fst (sc_get_quintuplet b i rn autn)), sc_resync = (\<lambda>i rn. at_fst (sc_resync b i rn)),
     sc_set_pseudonym = (\<lambda>i p (w, v). andThen (sc_set_pseudonym b i p w) (\<lambda>w1. Inr (w1, v))),
     sc_get_pseudonym = (\<lambda>i. at_fst (sc_get_pseudonym b i)),
     sc_set_reauth = (\<lambda>i n mk cnt (w, v). andThen (sc_set_reauth b i n mk cnt w) (\<lambda>w1. Inr (w1, v))),
     sc_get_reauth = (\<lambda>i. at_fst (sc_get_reauth b i))\<rparr>"

definition card_snd :: "'v simaka_card \<Rightarrow> ('w \<times> 'v) simaka_card" where
  "card_snd b = \<lparr>sc_get_quintuplet = (\<lambda>i rn autn. at_snd (sc_get_quintuplet b i rn autn)), sc_resync = (\<lambda>i rn. at_snd (sc_resync b i rn)),
     sc_set_pseudonym = (\<lambda>i p (w, v). andThen (sc_set_pseudonym b i p v) (\<lambda>v1. Inr (w, v1))),
     sc_get_pseudonym = (\<lambda>i. at_snd (sc_get_pseudonym b i)),
     sc_set_reauth = (\<lambda>i n mk cnt (w, v). andThen (sc_set_reauth b i n mk cnt v) (\<lambda>v1. Inr (w, v1))),
     sc_get_reauth = (\<lambda>i. at_snd (sc_get_reauth b i))\<rparr>"

definition aka_manager :: "aes \<Rightarrow> (chunk \<Rightarrow> chunk option) \<Rightarrow> (eap_aka_3gpp_provider \<times> reauth_provider) simaka_manager" where
  "aka_manager F g = add_provider (provider_snd reauth_provider_backend) (add_provider (provider_fst (provider3_backend F g)) [])"

definition aka_cards :: "aes \<Rightarrow> (chunk \<Rightarrow> chunk option) \<Rightarrow> (eap_aka_3gpp_card \<times> reauth_card) cards" where
  "aka_cards F g = add_card (card_snd reauth_card_backend) (add_card (card_fst (card3_backend F g)) [])"

lemmas two_backends_defs = aka_manager_def aka_cards_def add_provider_def add_card_def provider_fst_def provider_snd_def card_fst_def
  card_snd_def at_fst_def at_snd_def provider3_backend_def reauth_provider_backend_def card3_backend_def reauth_card_backend_def

lemma aka_manager_calls:
  "provider_get_quintuplet (aka_manager F g) i (p, t) = Inr (fst (provider3_get_quintuplet F g i p), snd (provider3_get_quintuplet F g i p), t)"
  "provider_is_reauth (aka_manager F g) i (p, t) = Inr (fst (is_reauth i t), p, snd (is_reauth i t))"
  "provider_gen_reauth (aka_manager F g) i mk (p, t) = Inr (fst (gen_reauth i mk t), p, snd (gen_reauth i mk t))"
  "provider_is_pseudonym (aka_manager F g) i (p, t) = Inr (None, p, t)"
  "provider_gen_pseudonym (aka_manager F g) i (p, t) = Inr (None, p, t)"
  by (simp_all add: provider_get_quintuplet_def provider_is_reauth_def provider_gen_reauth_def provider_is_pseudonym_def
      provider_gen_pseudonym_def two_backends_defs split: prod.split option.split)

lemma aka_cards_calls:
  "card_get_quintuplet (aka_cards F g) i rn autn (c, v) = Inr (fst (card3_get_quintuplet F g i rn autn c), snd (card3_get_quintuplet F g i rn autn c), v)"
  "card_get_reauth (aka_cards F g) i (c, v) = Inr (fst (get_reauth i v), c, snd (get_reauth i v))"
  "card_set_reauth (aka_cards F g) i n mk cnt (c, v) = Inr (c, set_reauth i n mk cnt v)"
  "card_get_pseudonym (aka_cards F g) i (c, v) = Inr (None, c, v)"
  "card_set_pseudonym (aka_cards F g) i x (c, v) = Inr (c, v)"
  by (simp_all add: card_get_reauth_def card_set_reauth_def card_get_pseudonym_def card_set_pseudonym_def two_backends_defs
      split: prod.split option.split card_answer.split)

section \<open>Ready for re-authentication\<close>

text \<open>
  Provider and card agree on the identity and the master key of a subscriber, and the counter of
  the card is not ahead.
\<close>

definition reauth_ready :: "reauth_provider \<Rightarrow> reauth_card \<Rightarrow> chunk \<Rightarrow> bool" where
  "reauth_ready t v nai \<longleftrightarrow> reauth_inv t \<and> (\<exists>d e b. rp_reauth t nai = Some d \<and> v nai = Some e \<and> cd_id e = rd_id d
     \<and> rd_id d = chunk_to_hex b False \<and> length b = 8 \<and> cd_mk e = rd_mk d \<and> length (rd_mk d) = 20 \<and> cd_counter e \<le> rd_counter d)"

lemma length_chunk_to_hex: "length (chunk_to_hex b u) = 2 * length b"
  by (induction b) (simp_all add: chunk_to_hex_def)

lemma word_Suc_mono:
  fixes x y :: "16 word"
  assumes "x \<le> y" "y \<noteq> - 1"
  shows "x + 1 \<le> y + 1"
proof -
  have "y + 1 \<noteq> 0" using assms(2) by (simp add: eq_neg_iff_add_eq_0)
  moreover have "unat x \<le> unat y" using assms(1) by (simp add: word_le_nat_alt)
  moreover have "x + 1 \<noteq> 0" using assms by (metis eq_neg_iff_add_eq_0 word_order.extremum_uniqueI)
  ultimately show ?thesis by (simp add: word_le_nat_alt unatSuc add.commute)
qed

lemma gen_reauth_ready:
  assumes inv: "reauth_inv t" and fresh: "fresh_next t" and b: "rp_rng t 0 = Some b"
  obtains t1 d where "gen_reauth nai mk t = (Some (chunk_to_hex b False), t1)" "reauth_inv t1" "rp_reauth t1 nai = Some d"
    and "rd_id d = chunk_to_hex b False" "rd_mk d = take 20 mk" "rd_counter d = (case rp_reauth t nai of None \<Rightarrow> 0 | Some d0 \<Rightarrow> rd_counter d0)"
proof -
  have j: "reauth_inv (snd (gen_reauth nai mk t))" by (rule reauth_inv_gen_reauth [OF inv fresh])
  from inv show thesis
    by (cases rule: gen_reauth_cases [of t nai mk]) (use b j in \<open>auto intro!: that\<close>)
qed

text \<open>
  The server after a fast re-authentication: the counter went up and a new identity was given out.
\<close>

lemma reauth_backends:
  assumes rdy: "reauth_ready t v nai" and d: "rp_reauth t nai = Some d" "rd_counter d \<noteq> - 1"
    and fresh: "fresh_next t" and b: "rp_rng t 0 = Some b" "length b = 8"
  obtains b0 and e :: reauth_card_data and t1 t2 where "rd_id d = chunk_to_hex b0 False" "length b0 = 8"
    and "get_reauth nai v = (Some (rd_id d, rd_mk d, cd_counter e + 1), v(nai := None))" "cd_counter e + 1 \<le> rd_counter d + 1"
    and "is_reauth (rd_id d) t = (Some (nai, rd_mk d, rd_counter d + 1), t1)"
    and "gen_reauth nai (rd_mk d) t1 = (Some (chunk_to_hex b False), t2)"
    and "reauth_ready t2 (set_reauth nai (chunk_to_hex b False) (rd_mk d) (cd_counter e + 1) (v(nai := None))) nai"
proof -
  obtain e b0 where e: "reauth_inv t" "v nai = Some e" "cd_id e = rd_id d" "rd_id d = chunk_to_hex b0 False" "length b0 = 8"
    "cd_mk e = rd_mk d" "length (rd_mk d) = 20" "cd_counter e \<le> rd_counter d"
    using rdy d(1) unfolding reauth_ready_def by auto
  let ?t1 = "t\<lparr>rp_reauth := (rp_reauth t)(nai \<mapsto> d\<lparr>rd_counter := rd_counter d + 1\<rparr>)\<rparr>"
  have p: "rp_permanent t (rd_id d) = Some nai" using e(1) d(1) by (auto simp: reauth_inv_def)
  then have i: "is_reauth (rd_id d) t = (Some (nai, rd_mk d, rd_counter d + 1), ?t1)" using d(1) by (simp add: is_reauth_def Let_def)
  have t1: "reauth_inv ?t1" "fresh_next ?t1" "rp_rng ?t1 0 = Some b"
    using reauth_inv_is_reauth [OF e(1), of "rd_id d"] fresh b(1) unfolding i by (simp_all add: fresh_next_def)
  have c: "cd_counter e + 1 \<le> rd_counter d + 1" by (rule word_Suc_mono [OF e(8) d(2)])
  show thesis
  proof (rule gen_reauth_ready [OF t1, of nai "rd_mk d"], goal_cases)
    case (1 t2 d2)
    have "reauth_ready t2 (set_reauth nai (chunk_to_hex b False) (rd_mk d) (cd_counter e + 1) (v(nai := None))) nai"
      using 1(2-6) b(2) c e(7) by (auto simp: reauth_ready_def set_reauth_def)
    moreover have "get_reauth nai v = (Some (rd_id d, rd_mk d, cd_counter e + 1), v(nai := None))"
      using e(2,3,6) by (simp add: get_reauth_def)
    ultimately show thesis using that [OF e(4,5) _ c i 1(1)] by blast
  qed
qed

section \<open>Properties\<close>

text \<open>
  C17. Fast re-authentication: once provider and card agree on an identity, the next conversation
  succeeds within two responses without a vector, so that the sequence numbers of card and
  provider stay as they are; both sides hold the same MSK, and they agree on the next identity,
  so that this can go on until the counter of the provider is exhausted.
\<close>

theorem fast_reauthentication:
  assumes "aka_laws A" "env_laws E0" "\<forall>n. env_laws (Es n) \<and> env_laws (Ep n)"
    and "\<forall>n b. length b = 8 \<longrightarrow> id_from_data (Es n) (chunk_to_hex b False) = chunk_to_hex b False
      \<and> id_from_data (Ep n) (chunk_to_hex b False) = chunk_to_hex b False"
    and "reauth_ready t v nai" "rp_reauth t nai = Some d" "rd_counter d \<noteq> - 1"
    and "fresh_next t" "rp_rng t 0 = Some b" "length b = 8"
  shows "\<exists>req s s' t' pe' v'.
    initiate A E0 (aka_manager F g) (eap_aka_server_create peer True ident) (p, t) = Inr ((NEED_MORE, Some req, s), p, t)
    \<and> conversation 2 A Es Ep (aka_manager F g) (aka_cards F g) req (s, p, t) (eap_aka_peer_create nai, c, v) = Some ((s', p, t'), pe', c, v')
    \<and> get_msk s' = peer_get_msk pe' \<and> peer_get_msk pe' \<noteq> None \<and> reauth_ready t' v' nai"
proof -
  have E: "env_laws (Ep k)" "env_laws (Es k)" for k using assms(3) by blast+
  show ?thesis
  proof (rule reauth_backends [OF assms(5-10)], goal_cases)
    case (1 b0 e t1 t2)
    let ?i = "chunk_to_hex b False" and ?v1 = "v(nai := None)"
    let ?v2 = "set_reauth nai ?i (rd_mk d) (cd_counter e + 1) ?v1"
    have l: "0 < length (rd_id d)" "length (rd_id d) \<le> 200" "id_from_data (Es 1) (rd_id d) = rd_id d"
      using 1(1,2) assms(4) by (simp_all add: length_chunk_to_hex)
    have li: "length ?i = 16" using assms(10) by (simp add: length_chunk_to_hex)
    then have ne: "?i \<noteq> []" by (metis list.size(3) zero_neq_numeral)
    have g: "card_get_reauth (aka_cards F g) nai (c, v) = Inr (Some (rd_id d, rd_mk d, cd_counter e + 1), c, ?v1)"
      "provider_is_reauth (aka_manager F g) (rd_id d) (p, t) = Inr (Some (nai, rd_mk d, rd_counter d + 1), p, t1)"
      "provider_gen_reauth (aka_manager F g) nai (rd_mk d) (p, t1) = Inr (Some ?i, p, t2)"
      "\<forall>x. Some ?i = Some x \<longrightarrow> 0 < length x \<and> length x \<le> 200"
      "(case Some ?i of None \<Rightarrow> Inr (c, ?v1) | Some x \<Rightarrow> card_set_reauth (aka_cards F g) nai (id_from_data (Ep 0) x) (rd_mk d)
          (cd_counter e + 1) (c, ?v1)) = Inr (c, ?v2)"
      using 1(3,5,6) assms(4,10) li ne by (simp_all add: aka_cards_calls aka_manager_calls)
    show ?thesis
    proof (rule reauth_exchange [where peer = peer and ident = ident,
          OF assms(1,2) E(1) [of 1] E(2) [of 1] E(1) [of 0] l g(1,2,3,4) 1(4) g(5)], goal_cases)
      case x: (1 req1 rsp1 req2 rsp2 s1 s2 p1 p2)
      have "conversation 2 A Es Ep (aka_manager F g) (aka_cards F g) req1 (s1, p, t) (eap_aka_peer_create nai, c, v) = Some ((s2, p, t2), p2, c, ?v2)"
        using x(2-5) by (simp add: numeral_2_eq_2)
      then show ?thesis using x(1,6,7) 1(7) by blast
    qed
  qed
qed

text \<open>What the full authentication leaves behind.\<close>

lemma full_offer:
  assumes A: "aka_laws A" and F: "aes_laws F" "has_key g nai" "provider3_wf p" "provider3_get_quintuplet F g nai p = (Some q, p1)"
    and t: "reauth_inv t" "fresh_next t" "rp_rng t 0 = Some b" "length b = 8"
  obtains x t1 where "offers A (aka_manager F g) nai (p, t) x (p1, t1)" "of_vector x = q"
    and "of_reauth x = Some (chunk_to_hex b False)" "of_pseudonym x = None"
    and "\<And>v m. take 20 m = of_mk x \<Longrightarrow> reauth_ready t1 (set_reauth nai (chunk_to_hex b False) m 0 v) nai"
proof -
  obtain mk ks where mk: "vector_keys A nai (q_ik q @ q_ck q) = Some (mk, ks)" using vector_keys_total [OF A] by blast
  obtain t1 d where g: "gen_reauth nai mk t = (Some (chunk_to_hex b False), t1)" and d: "reauth_inv t1" "rp_reauth t1 nai = Some d"
    "rd_id d = chunk_to_hex b False" "rd_mk d = take 20 mk"
    by (rule gen_reauth_ready [OF t(1-3), of nai mk]) blast
  obtain r where "rng p 0 = Some r" using F(4) by (cases "rng p 0") (auto simp: provider3_get_quintuplet_def Let_def)
  from provider3_vector_sizes [OF F(1-3) this] F(4) have l: "length (q_rand q) = 16" "length (q_xres q) = 8" "length (q_autn q) = 16" by auto
  have c: "provider_get_quintuplet (aka_manager F g) nai (p, t) = Inr (Some q, p1, t)"
    "provider_gen_reauth (aka_manager F g) nai mk (p1, t) = Inr (Some (chunk_to_hex b False), p1, t1)"
    "provider_gen_pseudonym (aka_manager F g) nai (p1, t1) = Inr (None, p1, t1)"
    using F(4) g by (simp_all add: aka_manager_calls)
  have iss: "issues A (aka_manager F g) nai (p, t) q (p1, t1)"
    unfolding issues_def
  proof (intro conjI exI)
    show "provider_get_quintuplet (aka_manager F g) nai (p, t) = Inr (Some q, p1, t)" "vector_keys A nai (q_ik q @ q_ck q) = Some (mk, ks)"
      "provider_gen_reauth (aka_manager F g) nai mk (p1, t) = Inr (Some (chunk_to_hex b False), p1, t1)"
      "provider_gen_pseudonym (aka_manager F g) nai (p1, t1) = Inr (None, p1, t1)" by (fact c mk)+
  qed (use l t(4) in \<open>auto simp: length_chunk_to_hex\<close>)
  obtain x where x: "offers A (aka_manager F g) nai (p, t) x (p1, t1)" "of_vector x = q" by (rule issues_offers [OF A iss])
  obtain w1 w2 where w1: "provider_get_quintuplet (aka_manager F g) nai (p, t) = Inr (Some q, w1)"
    and w0: "provider_gen_reauth (aka_manager F g) nai (of_mk x) w1 = Inr (of_reauth x, w2)"
    and w2: "provider_gen_pseudonym (aka_manager F g) nai w2 = Inr (of_pseudonym x, p1, t1)"
    and dk: "derive_keys_full A nai (q_ik q @ q_ck q) aka_crypto_create = Inr (Some (of_mk x, of_msk x), of_crypto x)" "length (of_mk x) = 20"
    using x(1) unfolding offers_def Let_def x(2) by blast
  have w: "provider_gen_reauth (aka_manager F g) nai (of_mk x) (p1, t) = Inr (of_reauth x, w2)" using w1 w0 c(1) by simp
  have m: "of_mk x = mk" using derive_keys_full_keys [OF dk(1)] mk by simp
  show thesis
  proof (rule that [OF x])
    show "of_reauth x = Some (chunk_to_hex b False)" using w g m by (simp add: aka_manager_calls)
    show "of_pseudonym x = None" using w2 by (cases w2) (simp add: aka_manager_calls)
    show "reauth_ready t1 (set_reauth nai (chunk_to_hex b False) k 0 v) nai" if "take 20 k = of_mk x" for v k
      using that d m dk(2) t(4) by (auto simp: reauth_ready_def set_reauth_def)
  qed
qed

text \<open>
  C39. A full authentication prepares the next one: with both backends on either side, a card that
  has no identity for re-authentication and finds the sequence number of the vector new (or does
  not check it), and a provider that has none for the subscriber, the
  conversation succeeds within two responses, the permanent identity is reported, both sides hold
  the same MSK, and afterwards provider and card agree on an identity and a master key for fast
  re-authentication.
\<close>

theorem full_authentication_prepares_reauth:
  assumes "aka_laws A" "env_laws E0" "\<forall>n. env_laws (Es n) \<and> env_laws (Ep n) \<and> id_from_data (Es n) nai = nai"
    and "\<forall>n. id_from_data (Ep n) (chunk_to_hex b False) = chunk_to_hex b False"
    and "aes_laws F" "has_key g nai" "provider3_wf p" "card3_wf c" "rng p 0 \<noteq> None" "0 < length nai" "length nai \<le> 200"
    and "seq_check c \<longrightarrow> addr_val (card_sqn c) < addr_val (provider_sqn p)"
    and "reauth_inv t" "rp_permanent t nai = None" "v nai = None" "fresh_next t" "rp_rng t 0 = Some b" "length b = 8"
  shows "\<exists>req s s' p' t' pe' c' v'.
    initiate A E0 (aka_manager F g) (eap_aka_server_create peer True ident) (p, t) = Inr ((NEED_MORE, Some req, s), p, t)
    \<and> conversation 2 A Es Ep (aka_manager F g) (aka_cards F g) req (s, p, t) (eap_aka_peer_create nai, c, v) = Some ((s', p', t'), pe', c', v')
    \<and> get_auth s' = [nai] \<and> get_msk s' = peer_get_msk pe' \<and> peer_get_msk pe' \<noteq> None \<and> reauth_ready t' v' nai"
proof -
  have n: "id_from_data E nai = nai" if "E \<in> range Es" for E using that assms(3) by auto
  have E: "env_laws (Ep k)" "env_laws (Es k)" for k using assms(3) by blast+
  obtain q p1 where q: "provider3_get_quintuplet F g nai p = (Some q, p1)" using provider3_vector_sizes [OF assms(5-7)] assms(9) by blast
  let ?c1 = "c\<lparr>card_sqn := provider_sqn p\<rparr>" and ?i = "chunk_to_hex b False"
  have card: "card_get_quintuplet (aka_cards F g) nai (q_rand q) (q_autn q) (c, v) = Inr (Card_Success (q_xres q) (q_ck q) (q_ik q), ?c1, v)"
    using card3_on_vector(1) [OF assms(5-8) q] assms(12) by (auto simp: aka_cards_calls)
  have none: "provider_is_reauth (aka_manager F g) nai (p, t) = Inr (None, p, t)" "provider_is_pseudonym (aka_manager F g) nai (p, t) = Inr (None, p, t)"
    "card_get_reauth (aka_cards F g) nai (c, v) = Inr (None, c, v)" "card_get_pseudonym (aka_cards F g) nai (c, v) = Inr (None, c, v)"
    using assms(14,15) by (simp_all add: aka_manager_calls aka_cards_calls is_reauth_def get_reauth_def)
  obtain x t1 where x: "offers A (aka_manager F g) nai (p, t) x (p1, t1)" "of_vector x = q" "of_reauth x = Some ?i" "of_pseudonym x = None"
    "\<And>v m. take 20 m = of_mk x \<Longrightarrow> reauth_ready t1 (set_reauth nai ?i m 0 v) nai"
    by (rule full_offer [OF assms(1,5,6,7) q assms(13,16-18)]) blast
  have lm: "length (of_mk x) = 20" using x(1) by (simp add: offers_def Let_def)
  show ?thesis
  proof (rule identity_round [where Es = "range Es" and peer = peer and ident = ident, OF assms(1,2) E(1) [of 1] assms(10,11) n none], goal_cases)
    case i: (2 req1 rsp1 s1 s2 pe1)
    let ?t = "learned x (pe1\<lparr>pe_identifier := eap_identifier s2\<rparr>)"
    let ?v1 = "set_reauth nai ?i (pe_mk ?t) 0 v"
    have st: "store_identities (Ep 0) (aka_cards F g) (offered x) ?t (?c1, v) = Inr (?t\<lparr>pe_counter := 0\<rparr>, ?c1, ?v1)"
      using x(3,4) assms(4) i(9) by (simp add: challenge_attrs_def opt_attr_def at_defs aka_cards_calls Let_def learned_def)
    have k: "offers A (aka_manager F g) (permanent s2) (p, t) x (p1, t1)" "pe_permanent pe1 = permanent s2" "pe_crypto (?t\<lparr>pe_counter := 0\<rparr>) = of_crypto x"
      "card_get_quintuplet (aka_cards F g) (permanent s2) (q_rand (of_vector x)) (q_autn (of_vector x)) (c, v)
        = Inr (Card_Success (q_xres (of_vector x)) (q_ck (of_vector x)) (q_ik (of_vector x)), ?c1, v)"
      using x(1,2) i(4,9) card by (simp_all add: learned_def)
    show ?thesis
    proof (rule offer_exchange [OF E(2) [of 1] E(1) [of 0] k(1,4) i(5,8) k(2) i(10) st k(3)], goal_cases)
      case y: (1 req2 rsp2)
      let ?s3 = "(challenged s2 x)\<lparr>auth := auth s2 @ [permanent s2]\<rparr>"
      have "Eap_Aka_Server.process A (Es 1) (aka_manager F g) rsp1 s1 (p, t) = Inr ((NEED_MORE, Some req2, challenged s2 x), p1, t1)"
        using i(3) y(1) by simp
      then have c: "conversation 2 A Es Ep (aka_manager F g) (aka_cards F g) req1 (s1, p, t) (eap_aka_peer_create nai, c, v)
          = Some ((?s3, p1, t1), ?t\<lparr>pe_counter := 0\<rparr>, ?c1, ?v1)"
        using i(2) y(2,3) by (simp add: numeral_2_eq_2)
      have r: "reauth_ready t1 ?v1 nai" using lm by (intro x(5)) (simp add: learned_def)
      have "get_auth ?s3 = [nai]" "get_msk ?s3 = peer_get_msk (?t\<lparr>pe_counter := 0\<rparr>)" "peer_get_msk (?t\<lparr>pe_counter := 0\<rparr>) \<noteq> None"
        using i(4,6) by (simp_all add: get_auth_def get_msk_def peer_get_msk_def challenged_def learned_def)
      with c r i(1) show ?thesis by blast
    qed
  qed simp
qed

section \<open>Witnesses\<close>

definition sample_reauth_id :: chunk where
  "sample_reauth_id = chunk_to_hex (replicate 8 0) False"

definition sample_reauth_provider :: reauth_provider where
  "sample_reauth_provider = \<lparr>rp_reauth = [[1] \<mapsto> \<lparr>rd_id = sample_reauth_id, rd_counter = 3, rd_mk = replicate 20 7\<rparr>],
     rp_permanent = [sample_reauth_id \<mapsto> [1]], rp_rng = (\<lambda>n. Some (replicate 8 (of_nat (n + 1))))\<rparr>"

definition sample_reauth_card :: reauth_card where
  "sample_reauth_card = [[1] \<mapsto> \<lparr>cd_id = sample_reauth_id, cd_counter = 2, cd_mk = replicate 20 7\<rparr>]"

lemma sample_reauth_ready: "reauth_ready sample_reauth_provider sample_reauth_card [1]" "fresh_next sample_reauth_provider"
proof -
  have "reauth_inv sample_reauth_provider" by (auto simp: reauth_inv_def sample_reauth_provider_def)
  then show "reauth_ready sample_reauth_provider sample_reauth_card [1]"
    by (auto simp: reauth_ready_def sample_reauth_provider_def sample_reauth_card_def sample_reauth_id_def intro!: exI [of _ "replicate 8 0"])
  have "chunk_to_hex (replicate 8 1) False \<noteq> sample_reauth_id"
    by (simp add: sample_reauth_id_def chunk_to_hex_def hexdig_def eval_nat_numeral)
  then show "fresh_next sample_reauth_provider" by (simp add: fresh_next_def sample_reauth_provider_def)
qed

lemma sample_ids:
  "\<forall>n :: nat. env_laws sample_env \<and> env_laws sample_env"
  "\<forall>(n :: nat) b. length b = 8 \<longrightarrow> id_from_data sample_env (chunk_to_hex b False) = chunk_to_hex b False
     \<and> id_from_data sample_env (chunk_to_hex b False) = chunk_to_hex b False"
  "\<forall>n :: nat. id_from_data sample_env (chunk_to_hex (replicate 8 0) False) = chunk_to_hex (replicate 8 0) False"
  using sample_laws sample_maps(1) by simp_all

theorem fast_reauthentication_witness:
  "\<exists>req s s' t' pe' v'.
    initiate sample_algs sample_env (aka_manager sample_aes sample_shared) (eap_aka_server_create [2] True 7) (sample_provider3, sample_reauth_provider)
      = Inr ((NEED_MORE, Some req, s), sample_provider3, sample_reauth_provider)
    \<and> conversation 2 sample_algs (\<lambda>_. sample_env) (\<lambda>_. sample_env) (aka_manager sample_aes sample_shared) (aka_cards sample_aes sample_shared)
        req (s, sample_provider3, sample_reauth_provider) (eap_aka_peer_create [1], sample_card3 4, sample_reauth_card)
      = Some ((s', sample_provider3, t'), pe', sample_card3 4, v')
    \<and> get_msk s' = peer_get_msk pe'"
proof -
  have d: "rp_reauth sample_reauth_provider [1] = Some \<lparr>rd_id = sample_reauth_id, rd_counter = 3, rd_mk = replicate 20 7\<rparr>"
    "rd_counter \<lparr>rd_id = sample_reauth_id, rd_counter = 3, rd_mk = replicate 20 7\<rparr> \<noteq> - 1"
    "rp_rng sample_reauth_provider 0 = Some (replicate 8 1)" "length (replicate 8 1 :: chunk) = 8"
    by (simp_all add: sample_reauth_provider_def)
  show ?thesis
    using fast_reauthentication [OF sample_laws(1,2) sample_ids(1,2) sample_reauth_ready(1) d(1,2) sample_reauth_ready(2) d(3,4)] by blast
qed

theorem full_authentication_prepares_reauth_witness:
  "\<exists>req s s' p' t' pe' c' v'. let t = eap_simaka_reauth_provider_create (\<lambda>n. Some (replicate 8 0)) in
    initiate sample_algs sample_env (aka_manager sample_aes sample_shared) (eap_aka_server_create [2] True 7) (sample_provider3, t)
      = Inr ((NEED_MORE, Some req, s), sample_provider3, t)
    \<and> conversation 2 sample_algs (\<lambda>_. sample_env) (\<lambda>_. sample_env) (aka_manager sample_aes sample_shared) (aka_cards sample_aes sample_shared)
        req (s, sample_provider3, t) (eap_aka_peer_create [1], sample_card3 4, Map.empty) = Some ((s', p', t'), pe', c', v')
    \<and> get_auth s' = [[1]] \<and> get_msk s' = peer_get_msk pe' \<and> peer_get_msk pe' \<noteq> None \<and> reauth_ready t' v' [1]"
proof -
  let ?t = "eap_simaka_reauth_provider_create (\<lambda>n. Some (replicate 8 0))"
  have t: "rp_permanent ?t [1] = None" "(Map.empty :: reauth_card) [1] = None" "fresh_next ?t" "rp_rng ?t 0 = Some (replicate 8 0)"
    "length (replicate 8 0 :: chunk) = 8"
    by (simp_all add: eap_simaka_reauth_provider_create_def fresh_next_def)
  have n: "seq_check (sample_card3 4) \<longrightarrow> addr_val (card_sqn (sample_card3 4)) < addr_val (provider_sqn sample_provider3)"
    by (simp add: sample_card3_def sample_provider3_def)
  show ?thesis unfolding Let_def
    using full_authentication_prepares_reauth [OF sample_laws(1,2) sample3_conversation(1) sample_ids(3) sample_aes_laws sample3_wf(1,2)
        sample3_wf(3) [of 4] sample3_conversation(2,4,5) n reauth_inv_create t, of "[2]" 7] by blast
qed

end
