(* ===== verification/Traffic_Selector.thy ===== *)
theory Traffic_Selector
  imports Host Chunk
begin

text \<open>
  Traffic selectors, \<open>libstrongswan/selectors/traffic_selector.c\<close>: ranges of addresses and ports
  with a protocol, which IKE narrows to what both sides allow.  An address is kept in an array
  of 16 octets, of which the first 4 count for IPv4.
\<close>

section \<open>Data\<close>

datatype ts_type = TS_IPV4_ADDR_RANGE | TS_IPV6_ADDR_RANGE

record traffic_selector =
  ts_type :: ts_type
  protocol :: byte
  dynamic :: bool
  netbits :: byte
  ts_from :: chunk
  ts_to :: chunk
  from_port :: "16 word"
  to_port :: "16 word"

fun ts_ip_len_of :: "ts_type \<Rightarrow> nat" where
  "ts_ip_len_of TS_IPV4_ADDR_RANGE = 4"
| "ts_ip_len_of TS_IPV6_ADDR_RANGE = 16"

abbreviation ts_ip_len :: "traffic_selector \<Rightarrow> nat" where
  "ts_ip_len this \<equiv> ts_ip_len_of (ts_type this)"

fun ts_family :: "ts_type \<Rightarrow> family" where
  "ts_family TS_IPV4_ADDR_RANGE = AF_INET"
| "ts_family TS_IPV6_ADDR_RANGE = AF_INET6"

fun type_val :: "ts_type \<Rightarrow> int" where
  "type_val TS_IPV4_ADDR_RANGE = 7"
| "type_val TS_IPV6_ADDR_RANGE = 8"

definition IPPROTO_ICMP :: byte where "IPPROTO_ICMP = 1"
definition IPPROTO_ICMPV6 :: byte where "IPPROTO_ICMPV6 = 58"

definition NON_SUBNET_ADDRESS_RANGE :: byte where "NON_SUBNET_ADDRESS_RANGE = 255"

text \<open>Copying into an array.\<close>

definition copy_to :: "chunk \<Rightarrow> chunk \<Rightarrow> chunk" where
  "copy_to bs arr = bs @ drop (length bs) arr"

section \<open>Address ranges and subnets\<close>

text \<open>
  For an empty prefix the code reads and writes back the octet before the array, with a mask
  that does not change it.
\<close>

definition calc_range :: "byte \<Rightarrow> traffic_selector \<Rightarrow> traffic_selector" where
  "calc_range nb this =
     (let len = ts_ip_len this;
          bytes = (unat nb + 7) div 8;
          bits = bytes * 8 - unat nb;
          m = (if bits \<noteq> 0 then 2 ^ bits - 1 else 0) :: byte;
          t = take bytes (ts_from this) @ replicate (len - bytes) 0xff @ drop len (ts_to this);
          f = take bytes (ts_from this) @ replicate (len - bytes) 0 @ drop len (ts_from this) in
      if bytes = 0 then this\<lparr>netbits := nb, ts_from := f, ts_to := t\<rparr>
      else this\<lparr>netbits := nb, ts_from := f[bytes - 1 := f ! (bytes - 1) AND NOT m],
             ts_to := t[bytes - 1 := t ! (bytes - 1) OR m]\<rparr>)"

text \<open>The bits of an address, the most significant one of each octet first.\<close>

definition bits_of :: "chunk \<Rightarrow> bool list" where
  "bits_of bs = concat (map (\<lambda>b. map (bit b) [7, 6, 5, 4, 3, 2, 1, 0]) bs)"

text \<open>
  The two nested loops over the bits: whether the bits have been equal so far, the subnet size,
  the index of the bit.  The result is the size and whether it is a true subnet.
\<close>

fun netbits_loop :: "bool \<Rightarrow> nat \<Rightarrow> nat \<Rightarrow> (bool \<times> bool) list \<Rightarrow> nat \<times> bool" where
  "netbits_loop prefix nb i [] = (nb, True)"
| "netbits_loop prefix nb i ((f, t) # bs) =
     (if prefix then
        (if f \<noteq> t then netbits_loop False i (i + 1) bs else netbits_loop True nb (i + 1) bs)
      else if f \<or> \<not> t then (nb, False)
      else netbits_loop False nb (i + 1) bs)"

definition calc_netbits :: "traffic_selector \<Rightarrow> byte \<times> traffic_selector" where
  "calc_netbits this =
     (let size = ts_ip_len this;
          (nb, subnet) = netbits_loop True (size * 8) 0
            (zip (bits_of (take size (ts_from this))) (bits_of (take size (ts_to this)))) in
      (of_nat nb, this\<lparr>netbits := if subnet then of_nat nb else NON_SUBNET_ADDRESS_RANGE\<rparr>))"

section \<open>Construction\<close>

definition icmp_port :: "byte \<Rightarrow> 16 word \<Rightarrow> 16 word" where
  "icmp_port proto port =
     (if proto = IPPROTO_ICMP \<or> proto = IPPROTO_ICMPV6 then (if port < 256 then push_bit 8 port else port) else port)"

definition traffic_selector_create :: "byte \<Rightarrow> ts_type \<Rightarrow> 16 word \<Rightarrow> 16 word \<Rightarrow> traffic_selector" where
  "traffic_selector_create proto ty fport tport =
     \<lparr>ts_type = ty, protocol = proto, dynamic = False, netbits = 0, ts_from = replicate 16 0, ts_to = replicate 16 0,
      from_port = icmp_port proto fport, to_port = icmp_port proto tport\<rparr>"

definition traffic_selector_create_from_bytes ::
  "byte \<Rightarrow> ts_type \<Rightarrow> chunk \<Rightarrow> 16 word \<Rightarrow> chunk \<Rightarrow> 16 word \<Rightarrow> traffic_selector option" where
  "traffic_selector_create_from_bytes proto ty f fport t tport =
     (let this = traffic_selector_create proto ty fport tport in
      if length f \<noteq> length t \<or> length f \<noteq> ts_ip_len this then None
      else Some (snd (calc_netbits (this\<lparr>ts_from := copy_to f (ts_from this), ts_to := copy_to t (ts_to this)\<rparr>))))"

definition traffic_selector_create_from_subnet ::
  "host \<Rightarrow> byte \<Rightarrow> byte \<Rightarrow> 16 word \<Rightarrow> 16 word \<Rightarrow> traffic_selector option" where
  "traffic_selector_create_from_subnet net nb proto fport tport =
     (case (case get_family net of AF_INET \<Rightarrow> Some TS_IPV4_ADDR_RANGE | AF_INET6 \<Rightarrow> Some TS_IPV6_ADDR_RANGE | _ \<Rightarrow> None) of
        None \<Rightarrow> None
      | Some ty \<Rightarrow>
          let this = traffic_selector_create proto ty fport tport;
              n = min nb (of_nat (ts_ip_len this * 8)) in
          Some (calc_range n (this\<lparr>ts_from := copy_to (get_address net) (ts_from this)\<rparr>)))"

text \<open>\<open>inet_pton\<close> is a parameter.\<close>

definition traffic_selector_create_from_string ::
  "(family \<Rightarrow> cstring \<Rightarrow> chunk option) \<Rightarrow> byte \<Rightarrow> ts_type \<Rightarrow> cstring \<Rightarrow> 16 word \<Rightarrow> cstring \<Rightarrow> 16 word \<Rightarrow> traffic_selector option" where
  "traffic_selector_create_from_string pton proto ty f fport t tport =
     (let this = traffic_selector_create proto ty fport tport in
      case (pton (ts_family ty) f, pton (ts_family ty) t) of
        (Some a, Some b) \<Rightarrow> Some (snd (calc_netbits (this\<lparr>ts_from := copy_to a (ts_from this), ts_to := copy_to b (ts_to this)\<rparr>)))
      | _ \<Rightarrow> None)"

definition traffic_selector_create_dynamic :: "byte \<Rightarrow> 16 word \<Rightarrow> 16 word \<Rightarrow> traffic_selector" where
  "traffic_selector_create_dynamic proto fport tport =
     (traffic_selector_create proto TS_IPV4_ADDR_RANGE fport tport)
       \<lparr>ts_from := replicate 16 0, ts_to := replicate 16 0xff, netbits := 0, dynamic := True\<rparr>"

section \<open>Operations\<close>

definition get_from_address :: "traffic_selector \<Rightarrow> chunk" where
  "get_from_address this = take (ts_ip_len this) (ts_from this)"

definition get_to_address :: "traffic_selector \<Rightarrow> chunk" where
  "get_to_address this = take (ts_ip_len this) (ts_to this)"

definition is_opaque :: "traffic_selector \<Rightarrow> bool" where
  "is_opaque this \<longleftrightarrow> from_port this = 0xffff \<and> to_port this = 0"

definition is_any :: "traffic_selector \<Rightarrow> bool" where
  "is_any this \<longleftrightarrow> from_port this = 0 \<and> to_port this = 0xffff"

text \<open>The ports two selectors have in common, \<open>None\<close> if there are none.\<close>

definition subset_ports :: "traffic_selector \<Rightarrow> traffic_selector \<Rightarrow> (16 word \<times> 16 word) option" where
  "subset_ports this other =
     (if is_opaque this \<and> is_opaque other \<or> is_opaque this \<and> is_any other \<or> is_opaque other \<and> is_any this then Some (0xffff, 0)
      else
        let f = max (from_port this) (from_port other); t = min (to_port this) (to_port other) in
        if f > t then None else Some (f, t))"

definition get_subset :: "traffic_selector \<Rightarrow> traffic_selector \<Rightarrow> traffic_selector option" where
  "get_subset this other =
     (if dynamic this \<or> dynamic other then None
      else if ts_type this \<noteq> ts_type other then None
      else if protocol this \<noteq> protocol other \<and> protocol this \<noteq> 0 \<and> protocol other \<noteq> 0 then None
      else
        let proto = max (protocol this) (protocol other) in
        (case subset_ports this other of
           None \<Rightarrow> None
         | Some (fport, tport) \<Rightarrow>
             let size = ts_ip_len this;
                 f = take size (if memcmp (take size (ts_from this)) (take size (ts_from other)) > 0 then ts_from this else ts_from other);
                 t = take size (if memcmp (take size (ts_to this)) (take size (ts_to other)) > 0 then ts_to other else ts_to this) in
             if memcmp f t > 0 then None
             else
               let sub = traffic_selector_create proto (ts_type this) fport tport in
               Some (snd (calc_netbits (sub\<lparr>ts_from := copy_to f (ts_from sub), ts_to := copy_to t (ts_to sub)\<rparr>)))))"

definition traffic_selector_cmp :: "traffic_selector \<Rightarrow> traffic_selector \<Rightarrow> int" where
  "traffic_selector_cmp a b =
     (let len = ts_ip_len a;
          r0 = type_val (ts_type a) - type_val (ts_type b);
          r1 = memcmp (take len (ts_from a)) (take len (ts_from b));
          r2 = memcmp (take len (ts_to b)) (take len (ts_to a));
          r3 = uint (protocol a) - uint (protocol b);
          r4 = uint (from_port a) - uint (from_port b) in
      if r0 \<noteq> 0 then r0 else if r1 \<noteq> 0 then r1 else if r2 \<noteq> 0 then r2 else if r3 \<noteq> 0 then r3 else if r4 \<noteq> 0 then r4
      else uint (to_port b) - uint (to_port a))"

definition ts_equals :: "traffic_selector \<Rightarrow> traffic_selector \<Rightarrow> bool" where
  "ts_equals this other \<longleftrightarrow> traffic_selector_cmp this other = 0"

definition is_host :: "host option \<Rightarrow> traffic_selector \<Rightarrow> bool" where
  "is_host h this =
     (case h of
        Some host \<Rightarrow> ts_family (ts_type this) = get_family host
          \<and> get_address host = take (length (get_address host)) (ts_from this)
          \<and> get_address host = take (length (get_address host)) (ts_to this)
      | None \<Rightarrow> dynamic this \<or> get_from_address this = get_to_address this)"

definition set_address :: "host \<Rightarrow> traffic_selector \<Rightarrow> traffic_selector" where
  "set_address host this =
     (let t = this\<lparr>ts_type := if get_family host = AF_INET then TS_IPV4_ADDR_RANGE else TS_IPV6_ADDR_RANGE, dynamic := False\<rparr> in
      if is_anyaddr host then t\<lparr>ts_from := replicate 16 0, ts_to := replicate 16 0xff, netbits := 0\<rparr>
      else t\<lparr>ts_from := copy_to (get_address host) (ts_from this), ts_to := copy_to (get_address host) (ts_to this),
            netbits := of_nat (length (get_address host) * 8)\<rparr>)"

definition is_contained_in :: "traffic_selector \<Rightarrow> traffic_selector \<Rightarrow> bool" where
  "is_contained_in this other = (case get_subset this other of None \<Rightarrow> False | Some sub \<Rightarrow> ts_equals sub this)"

definition ts_includes :: "host \<Rightarrow> traffic_selector \<Rightarrow> bool" where
  "ts_includes host this \<longleftrightarrow> ts_family (ts_type this) = get_family host
     \<and> memcmp (take (length (get_address host)) (ts_from this)) (get_address host) \<le> 0
     \<and> memcmp (take (length (get_address host)) (ts_to this)) (get_address host) \<ge> 0"

definition to_subnet :: "traffic_selector \<Rightarrow> bool \<times> host option \<times> byte \<times> traffic_selector" where
  "to_subnet this =
     (let (m, t) = (if netbits this = NON_SUBNET_ADDRESS_RANGE then calc_netbits this else (netbits this, this));
          len = ts_ip_len this;
          nz = (unat m + 7) div 8;
          net0 = copy_to (take nz (ts_from this)) (replicate len 0);
          net = (if m = 0 then replicate len 0
                 else net0[nz - 1 := net0 ! (nz - 1) AND push_bit (8 * nz - unat m) 0xff]);
          port = (if to_port this = from_port this then to_port this else 0) in
      (netbits t \<noteq> NON_SUBNET_ADDRESS_RANGE, host_create_from_chunk (ts_family (ts_type this)) net port, m, t))"

definition ts_clone :: "traffic_selector \<Rightarrow> traffic_selector" where
  "ts_clone this =
     (let clone = traffic_selector_create (protocol this) (ts_type this) (from_port this) (to_port this) in
      clone\<lparr>netbits := netbits this, dynamic := dynamic this,
        ts_from := copy_to (get_from_address this) (ts_from clone), ts_to := copy_to (get_to_address this) (ts_to clone)\<rparr>)"

section \<open>The packets a selector stands for\<close>

text \<open>
  A packet without port information (\<open>None\<close>) is covered by opaque ports and by all ports.
\<close>

definition ports_in :: "16 word \<Rightarrow> 16 word \<Rightarrow> 16 word option \<Rightarrow> bool" where
  "ports_in f t p = (case p of None \<Rightarrow> f = 0xffff \<and> t = 0 \<or> f = 0 \<and> t = 0xffff | Some x \<Rightarrow> f \<le> x \<and> x \<le> t)"

definition selects :: "traffic_selector \<Rightarrow> ts_type \<Rightarrow> chunk \<Rightarrow> byte \<Rightarrow> 16 word option \<Rightarrow> bool" where
  "selects this ty addr proto port \<longleftrightarrow> ts_type this = ty
     \<and> addr_val (get_from_address this) \<le> addr_val addr \<and> addr_val addr \<le> addr_val (get_to_address this)
     \<and> (protocol this = 0 \<or> protocol this = proto) \<and> ports_in (from_port this) (to_port this) port"

definition ts_wf :: "traffic_selector \<Rightarrow> bool" where
  "ts_wf this \<longleftrightarrow> length (ts_from this) = 16 \<and> length (ts_to this) = 16"

lemma ts_ip_len_le: "ts_ip_len_of ty \<le> 16"
  by (cases ty) simp_all

lemma subset_ports_spec:
  "case subset_ports this other of
     None \<Rightarrow> \<not> (ports_in (from_port this) (to_port this) p \<and> ports_in (from_port other) (to_port other) p)
   | Some (f, t) \<Rightarrow> ports_in f t p \<longleftrightarrow> ports_in (from_port this) (to_port this) p \<and> ports_in (from_port other) (to_port other) p"
proof -
  have top: "x \<le> 0xffff" for x :: "16 word" 
    by (simp add: word_le_nat_alt) (use unsigned_less [of x, where 'a = nat] in simp)
  have e: "0xffff \<le> x \<longleftrightarrow> x = 0xffff" for x :: "16 word" using top [of x] by (auto intro: antisym)
  have z: "x \<le> 0 \<longleftrightarrow> x = 0" for x :: "16 word" by simp
  let ?f = "max (from_port this) (from_port other)" and ?t = "min (to_port this) (to_port other)"
  let ?o = "is_opaque this \<and> is_opaque other \<or> is_opaque this \<and> is_any other \<or> is_opaque other \<and> is_any this"
  consider (opaque) ?o | (none) "\<not> ?o" "?t < ?f" | (range) "\<not> ?o" "\<not> ?t < ?f" by argo
  then show ?thesis
  proof cases
    case opaque
    then have "subset_ports this other = Some (0xffff, 0)" by (simp only: subset_ports_def if_True)
    then show ?thesis using opaque by (auto simp: ports_in_def is_opaque_def is_any_def e z split: option.split)
  next
    case none
    then have s: "subset_ports this other = None" by (simp only: subset_ports_def if_True if_False Let_def)
    have "\<not> ports_in (from_port this) (to_port this) p \<or> \<not> ports_in (from_port other) (to_port other) p"
    proof (cases p)
      case None
      then show ?thesis using none by (auto simp: ports_in_def is_opaque_def is_any_def)
    next
      case (Some x)
      have "\<not> (?f \<le> x \<and> x \<le> ?t)" using none(2) by (meson leD order_trans)
      then show ?thesis using Some by (auto simp: ports_in_def)
    qed
    then show ?thesis using s by auto
  next
    case range
    then have s: "subset_ports this other = Some (?f, ?t)" by (simp only: subset_ports_def if_False Let_def)
    have "?f = 0 \<and> ?t = 0xffff \<longleftrightarrow> is_any this \<and> is_any other"
      unfolding is_any_def by (auto simp: max_def min_def e z top split: if_splits)
    moreover have "\<not> (?f = 0xffff \<and> ?t = 0)" using range(2) by auto
    ultimately show ?thesis using s range(1)
      by (cases p) (auto simp: ports_in_def is_opaque_def is_any_def)
  qed
qed

lemma calc_netbits_keeps: "\<exists>n. snd (calc_netbits t) = t\<lparr>netbits := n\<rparr>"
  by (auto simp: calc_netbits_def Let_def split: prod.split)

text \<open>The selector between two addresses, as \<open>get_subset\<close> and the constructors build it.\<close>

definition ranged :: "byte \<Rightarrow> ts_type \<Rightarrow> 16 word \<Rightarrow> 16 word \<Rightarrow> chunk \<Rightarrow> chunk \<Rightarrow> traffic_selector" where
  "ranged proto ty fport tport f t =
     (let this = traffic_selector_create proto ty fport tport in
      snd (calc_netbits (this\<lparr>ts_from := copy_to f (ts_from this), ts_to := copy_to t (ts_to this)\<rparr>)))"

lemma ranged_fields:
  assumes "length f = ts_ip_len_of ty" "length t = ts_ip_len_of ty"
  shows "get_from_address (ranged proto ty fport tport f t) = f" "get_to_address (ranged proto ty fport tport f t) = t"
    "ts_type (ranged proto ty fport tport f t) = ty" "protocol (ranged proto ty fport tport f t) = proto"
    "dynamic (ranged proto ty fport tport f t) = False" "ts_wf (ranged proto ty fport tport f t)"
    "from_port (ranged proto ty fport tport f t) = icmp_port proto fport" "to_port (ranged proto ty fport tport f t) = icmp_port proto tport"
proof -
  let ?this = "traffic_selector_create proto ty fport tport"
  obtain n where n: "ranged proto ty fport tport f t =
      ?this\<lparr>ts_from := copy_to f (ts_from ?this), ts_to := copy_to t (ts_to ?this), netbits := n\<rparr>"
    using calc_netbits_keeps [of "?this\<lparr>ts_from := copy_to f (ts_from ?this), ts_to := copy_to t (ts_to ?this)\<rparr>"]
    by (auto simp: ranged_def Let_def)
  show "get_from_address (ranged proto ty fport tport f t) = f" "get_to_address (ranged proto ty fport tport f t) = t"
    "ts_type (ranged proto ty fport tport f t) = ty" "protocol (ranged proto ty fport tport f t) = proto"
    "dynamic (ranged proto ty fport tport f t) = False" "ts_wf (ranged proto ty fport tport f t)"
    "from_port (ranged proto ty fport tport f t) = icmp_port proto fport" "to_port (ranged proto ty fport tport f t) = icmp_port proto tport"
    using assms ts_ip_len_le [of ty]
    by (simp_all add: n get_from_address_def get_to_address_def traffic_selector_create_def copy_to_def ts_wf_def)
qed

lemma get_subset_eq:
  assumes "\<not> dynamic this" "\<not> dynamic other" "ts_type this = ts_type other"
    and "protocol this = protocol other \<or> protocol this = 0 \<or> protocol other = 0"
  shows "get_subset this other =
    (case subset_ports this other of None \<Rightarrow> None
     | Some (fport, tport) \<Rightarrow>
         let f = (if memcmp (get_from_address this) (get_from_address other) > 0 then get_from_address this else get_from_address other);
             t = (if memcmp (get_to_address this) (get_to_address other) > 0 then get_to_address other else get_to_address this) in
         if memcmp f t > 0 then None
         else Some (ranged (max (protocol this) (protocol other)) (ts_type this) fport tport f t))"
  using assms by (auto simp: get_subset_def ranged_def get_from_address_def get_to_address_def Let_def split: option.split)

lemma max_protocol: "a = b \<or> a = 0 \<or> b = 0 \<Longrightarrow>
  (max a b = 0 \<or> max a b = p) \<longleftrightarrow> (a = 0 \<or> a = p) \<and> (b = 0 \<or> b = p)" for a b p :: byte
  by (auto simp: max_def)

lemma create_from_bytes_ranged:
  "length f = ts_ip_len_of ty \<Longrightarrow> length t = ts_ip_len_of ty \<Longrightarrow>
    traffic_selector_create_from_bytes proto ty f fport t tport = Some (ranged proto ty fport tport f t)"
  by (simp add: traffic_selector_create_from_bytes_def ranged_def traffic_selector_create_def Let_def)

section \<open>Subnets\<close>

primrec bval :: "bool list \<Rightarrow> nat" where
  "bval [] = 0"
| "bval (x # xs) = of_bool x * 2 ^ length xs + bval xs"

lemma bval_append: "bval (xs @ ys) = bval xs * 2 ^ length ys + bval ys"
  by (induction xs) (simp_all add: power_add algebra_simps)

lemma bval_less: "bval xs < 2 ^ length xs"
  by (induction xs) auto

lemma bval_inj: "length xs = length ys \<Longrightarrow> bval xs = bval ys \<Longrightarrow> xs = ys"
proof (induction xs ys rule: list_induct2)
  case (Cons x xs y ys)
  then show ?case using bval_less [of xs] bval_less [of ys] by (cases x; cases y) auto
qed simp

lemma bval_replicate: "bval (replicate k False) = 0" "bval (replicate k True) + 1 = 2 ^ k"
  by (induction k) auto

lemma bits_of_simps [simp]: "bits_of [] = []" "bits_of (b # bs) = map (bit b) [7, 6, 5, 4, 3, 2, 1, 0] @ bits_of bs"
  "bits_of (xs @ ys) = bits_of xs @ bits_of ys"
  by (simp_all add: bits_of_def)

lemma length_bits_of [simp]: "length (bits_of bs) = 8 * length bs"
  by (induction bs) simp_all

lemma bval_byte: "bval (map (bit b) [7, 6, 5, 4, 3, 2, 1, 0]) = unat b" for b :: byte
proof -
  have "list_all (\<lambda>n. bval (map (bit (of_nat n :: byte)) [7, 6, 5, 4, 3, 2, 1, 0]) = n) [0..<256]" by code_simp
  then have "bval (map (bit (of_nat n :: byte)) [7, 6, 5, 4, 3, 2, 1, 0]) = n" if "n < 256" for n
    using that unfolding list_all_iff by fastforce
  from this [OF unat_byte_less [of b]] show ?thesis by simp
qed

lemma addr_val_bits: "addr_val bs = bval (bits_of bs)"
proof (induction bs)
  case (Cons b bs)
  have "bval (bits_of (b # bs)) = unat b * 2 ^ (8 * length bs) + bval (bits_of bs)"
    unfolding bits_of_simps bval_append bval_byte by simp
  then show ?case using Cons by (simp add: power_mult)
qed simp

lemma subnet_interval:
  assumes "length a = length P + k"
  shows "bval (P @ replicate k False) \<le> bval a \<and> bval a \<le> bval (P @ replicate k True) \<longleftrightarrow> take (length P) a = P"
proof -
  let ?A = "bval (take (length P) a)" and ?r = "bval (drop (length P) a)"
  have a: "bval a = ?A * 2 ^ k + ?r" using assms bval_append [of "take (length P) a" "drop (length P) a"] by simp
  have r: "?r < 2 ^ k" using bval_less [of "drop (length P) a"] assms by simp
  have "bval P * 2 ^ k \<le> ?A * 2 ^ k + ?r \<and> ?A * 2 ^ k + ?r < (bval P + 1) * 2 ^ k \<longleftrightarrow> ?A = bval P"
  proof (cases ?A "bval P" rule: linorder_cases)
    case less
    then have "(?A + 1) * 2 ^ k \<le> bval P * 2 ^ k" by (intro mult_le_mono1) simp
    then show ?thesis using less r by (simp add: algebra_simps)
  next
    case greater
    then have "(bval P + 1) * 2 ^ k \<le> ?A * 2 ^ k" by (intro mult_le_mono1) simp
    then show ?thesis using greater by linarith
  qed (use r in simp)
  moreover have "?A = bval P \<longleftrightarrow> take (length P) a = P" using bval_inj [of "take (length P) a" P] assms by auto
  moreover have "bval (P @ replicate k False) = bval P * 2 ^ k" "bval (P @ replicate k True) + 1 = (bval P + 1) * 2 ^ k"
    using bval_replicate(2) [of k] by (simp_all add: bval_append bval_replicate(1))
  ultimately show ?thesis unfolding a by (metis Suc_eq_plus1 less_Suc_eq_le)
qed

lemma netbits_loop_subnet:
  "netbits_loop True nb i (zip (P @ replicate k False) (P @ replicate k True)) = (if k = 0 then nb else i + length P, True)"
proof (induction P arbitrary: i)
  case Nil
  have "netbits_loop False m j (replicate l (False, True)) = (m, True)" for m j l
    by (induction l arbitrary: j) simp_all
  then show ?case by (cases k) simp_all
qed simp

lemma bits_of_replicate: "bits_of (replicate n 0) = replicate (8 * n) False" "bits_of (replicate n 255) = replicate (8 * n) True"
proof -
  show "bits_of (replicate n 0) = replicate (8 * n) False"
    by (induction n) (simp_all add: numeral_eq_Suc)
  have e: "bits_of [255] = replicate 8 True"
    by (simp, simp add: eval_nat_numeral)
  show "bits_of (replicate n 255) = replicate (8 * n) True"
  proof (induction n)
    case (Suc n)
    have "bits_of (replicate (Suc n) 255) = bits_of [255] @ bits_of (replicate n 255)" by simp
    then show ?case unfolding e Suc replicate_add [symmetric] by simp
  qed simp
qed

text \<open>One octet of the prefix that is masked.\<close>

lemma masked_octet:
  assumes "1 \<le> r" "r \<le> 8" "m = (if 8 - r \<noteq> 0 then 2 ^ (8 - r) - 1 else 0 :: byte)"
  shows "bits_of [b AND NOT m] = take r (bits_of [b]) @ replicate (8 - r) False"
    and "bits_of [b OR m] = take r (bits_of [b]) @ replicate (8 - r) True"
proof -
  consider "r = 1" | "r = 2" | "r = 3" | "r = 4" | "r = 5" | "r = 6" | "r = 7" | "r = 8" using assms(1,2) by linarith
  then have "bits_of [b AND NOT m] = take r (bits_of [b]) @ replicate (8 - r) False
    \<and> bits_of [b OR m] = take r (bits_of [b]) @ replicate (8 - r) True"
    unfolding assms(3) by cases (simp_all add: bit_simps, simp_all add: eval_nat_numeral)
  then show "bits_of [b AND NOT m] = take r (bits_of [b]) @ replicate (8 - r) False"
    "bits_of [b OR m] = take r (bits_of [b]) @ replicate (8 - r) True" by blast+
qed

lemma take_drop_exact: "length us = n \<Longrightarrow> take n (us @ ys) = us \<and> drop n (us @ ys) = ys"
  by auto

text \<open>What \<open>calc_range\<close> makes of an address: the prefix, followed by zeros or ones.\<close>

lemma calc_range_bits:
  assumes "length (ts_from this) = 16" "length (ts_to this) = 16" "unat nb \<le> 8 * ts_ip_len this"
  defines "P \<equiv> take (unat nb) (bits_of (take (ts_ip_len this) (ts_from this)))"
  shows "bits_of (get_from_address (calc_range nb this)) = P @ replicate (8 * ts_ip_len this - unat nb) False"
    and "bits_of (get_to_address (calc_range nb this)) = P @ replicate (8 * ts_ip_len this - unat nb) True"
    and "drop (ts_ip_len this) (ts_from (calc_range nb this)) = drop (ts_ip_len this) (ts_from this)"
    and "drop (ts_ip_len this) (ts_to (calc_range nb this)) = drop (ts_ip_len this) (ts_to this)"
proof -
  let ?len = "ts_ip_len this" and ?n = "unat nb"
  have l16: "?len \<le> 16" by (rule ts_ip_len_le)
  have "bits_of (get_from_address (calc_range nb this)) = P @ replicate (8 * ?len - ?n) False
    \<and> bits_of (get_to_address (calc_range nb this)) = P @ replicate (8 * ?len - ?n) True
    \<and> drop ?len (ts_from (calc_range nb this)) = drop ?len (ts_from this)
    \<and> drop ?len (ts_to (calc_range nb this)) = drop ?len (ts_to this)"
  proof (cases "?n = 0")
    case True
    then show ?thesis
      by (simp add: calc_range_def Let_def get_from_address_def get_to_address_def P_def bits_of_replicate)
  next
    case False
    define j r where "j = (?n - 1) div 8" and "r = ?n - 8 * j"
    have "8 * j \<le> ?n - 1" by (simp add: j_def)
    moreover have "?n - 1 < 8 * j + 8" unfolding j_def by (simp add: dividend_less_times_div add.commute)
    ultimately have r: "1 \<le> r" "r \<le> 8" "?n = 8 * j + r" using False by (auto simp: r_def)
    have bytes: "(?n + 7) div 8 = Suc j" using r by simp
    have jl: "j < ?len" using assms(3) r by simp
    define xs b where "xs = take j (ts_from this)" and "b = ts_from this ! j"
    have f: "take (Suc j) (ts_from this) = xs @ [b]" using jl l16 assms(1) by (simp add: xs_def b_def take_Suc_conv_app_nth)
    have xl: "length xs = j" using jl l16 assms(1) by (simp add: xs_def)
    define m where "m = (if 8 - r \<noteq> 0 then 2 ^ (8 - r) - 1 else 0 :: byte)"
    have mm: "(if Suc j * 8 - ?n \<noteq> 0 then 2 ^ (Suc j * 8 - ?n) - 1 else 0 :: byte) = m" using r by (simp add: m_def)
    have c: "calc_range nb this = this\<lparr>netbits := nb,
        ts_from := xs @ [b AND NOT m] @ replicate (?len - Suc j) 0 @ drop ?len (ts_from this),
        ts_to := xs @ [b OR m] @ replicate (?len - Suc j) 255 @ drop ?len (ts_to this)\<rparr>"
      unfolding calc_range_def Let_def bytes mm f using xl by (simp add: list_update_append nth_append)
    have t: "take ?len (ts_from this) = xs @ [b] @ take (?len - Suc j) (drop (Suc j) (ts_from this))"
      using take_add [of "Suc j" "?len - Suc j" "ts_from this"] jl f by simp
    have P: "P = bits_of xs @ take r (bits_of [b])"
      unfolding P_def t r(3) bits_of_simps(3) using xl r by (simp del: bits_of_simps(2))
    have k: "8 * ?len - ?n = (8 - r) + 8 * (?len - Suc j)" using r jl by simp
    note o = masked_octet [OF r(1,2) m_def, of b]
    have cut: "take ?len (xs @ [d] @ replicate (?len - Suc j) z @ ys) = xs @ [d] @ replicate (?len - Suc j) z"
      "drop ?len (xs @ [d] @ replicate (?len - Suc j) z @ ys) = ys" for d z :: byte and ys
    proof -
      have "length (xs @ [d] @ replicate (?len - Suc j) z) = ?len" using xl jl by simp
      then show "take ?len (xs @ [d] @ replicate (?len - Suc j) z @ ys) = xs @ [d] @ replicate (?len - Suc j) z"
        "drop ?len (xs @ [d] @ replicate (?len - Suc j) z @ ys) = ys"
        using take_drop_exact [of "xs @ [d] @ replicate (?len - Suc j) z" ?len ys] by (simp_all only: append_assoc)
    qed
    have fr: "ts_from (calc_range nb this) = xs @ [b AND NOT m] @ replicate (?len - Suc j) 0 @ drop ?len (ts_from this)"
      "ts_to (calc_range nb this) = xs @ [b OR m] @ replicate (?len - Suc j) 255 @ drop ?len (ts_to this)"
      "ts_type (calc_range nb this) = ts_type this" unfolding c by simp_all
    show ?thesis unfolding get_from_address_def get_to_address_def fr cut P k replicate_add bits_of_simps(3) o bits_of_replicate
      by (simp only: append_assoc simp_thms)
  qed
  then show "bits_of (get_from_address (calc_range nb this)) = P @ replicate (8 * ?len - ?n) False"
    "bits_of (get_to_address (calc_range nb this)) = P @ replicate (8 * ?len - ?n) True"
    "drop ?len (ts_from (calc_range nb this)) = drop ?len (ts_from this)"
    "drop ?len (ts_to (calc_range nb this)) = drop ?len (ts_to this)" by blast+
qed

lemma subset_selects:
  assumes wf: "ts_wf this" "ts_wf other" and dyn: "\<not> dynamic this" "\<not> dynamic other"
    and icmp: "max (protocol this) (protocol other) \<notin> {IPPROTO_ICMP, IPPROTO_ICMPV6}" and addr: "length addr = ts_ip_len_of ty"
  shows "(case get_subset this other of None \<Rightarrow> False | Some sub \<Rightarrow> selects sub ty addr proto port)
    \<longleftrightarrow> selects this ty addr proto port \<and> selects other ty addr proto port"
proof (cases "ts_type this = ts_type other \<and> (protocol this = protocol other \<or> protocol this = 0 \<or> protocol other = 0)")
  case False
  then have "get_subset this other = None" by (auto simp: get_subset_def)
  then show ?thesis using False by (auto simp: selects_def)
next
  case True
  let ?F = "if memcmp (get_from_address this) (get_from_address other) > 0 then get_from_address this else get_from_address other"
  let ?T = "if memcmp (get_to_address this) (get_to_address other) > 0 then get_to_address other else get_to_address this"
  have len: "length (get_from_address this) = ts_ip_len this" "length (get_from_address other) = ts_ip_len this"
    "length (get_to_address this) = ts_ip_len this" "length (get_to_address other) = ts_ip_len this"
    using wf True ts_ip_len_le [of "ts_type this"] by (auto simp: ts_wf_def get_from_address_def get_to_address_def)
  then have FT: "length ?F = ts_ip_len this" "length ?T = ts_ip_len this" by simp_all
  have F: "addr_val ?F = max (addr_val (get_from_address this)) (addr_val (get_from_address other))"
    and T: "addr_val ?T = min (addr_val (get_to_address this)) (addr_val (get_to_address other))"
    using memcmp_val(1) len by (simp_all add: max_def min_def)
  have e: "get_subset this other = (case subset_ports this other of None \<Rightarrow> None | Some (fport, tport) \<Rightarrow>
      if addr_val ?T < addr_val ?F then None
      else Some (ranged (max (protocol this) (protocol other)) (ts_type this) fport tport ?F ?T))"
  proof -
    have mc: "0 < memcmp ?F ?T \<longleftrightarrow> addr_val ?T < addr_val ?F" using FT by (intro memcmp_val(1)) (simp only:)
    show ?thesis unfolding get_subset_eq [OF dyn conjunct1 [OF True] conjunct2 [OF True]] Let_def mc by (rule refl)
  qed
  note ports = subset_ports_spec [where this = this and other = other and p = port]
  have pr: "(max (protocol this) (protocol other) = 0 \<or> max (protocol this) (protocol other) = proto)
      \<longleftrightarrow> (protocol this = 0 \<or> protocol this = proto) \<and> (protocol other = 0 \<or> protocol other = proto)"
    using True by (intro max_protocol) blast
  show ?thesis
  proof (cases "subset_ports this other")
    case None
    then show ?thesis using e ports by (auto simp: selects_def)
  next
    case (Some ft)
    obtain fp tp where ft: "ft = (fp, tp)" by (cases ft)
    have s: "selects (ranged (max (protocol this) (protocol other)) (ts_type this) fp tp ?F ?T) ty addr proto port
        \<longleftrightarrow> selects this ty addr proto port \<and> selects other ty addr proto port"
      using ports Some ft icmp pr True
      unfolding selects_def ranged_fields [OF FT] F T by (auto simp: icmp_port_def)
    have "\<not> (selects this ty addr proto port \<and> selects other ty addr proto port)" if "addr_val ?T < addr_val ?F"
      using that unfolding F T selects_def by (auto simp: max_def min_def split: if_splits)
    then show ?thesis using e s Some ft by auto
  qed
qed

text \<open>A subset that is returned is not empty: its first address is in it.\<close>

lemma subset_ports_nonempty: "subset_ports this other = Some (f, t) \<Longrightarrow> \<exists>p. ports_in f t p"
proof -
  assume s: "subset_ports this other = Some (f, t)"
  let ?o = "is_opaque this \<and> is_opaque other \<or> is_opaque this \<and> is_any other \<or> is_opaque other \<and> is_any this"
  have "f = 0xffff \<and> t = 0 \<or> f \<le> t"
  proof (cases ?o)
    case True
    then show ?thesis using s by (simp only: subset_ports_def if_True option.inject prod.inject) blast
  next
    case False
    then have r: "subset_ports this other = (let f = max (from_port this) (from_port other); t = min (to_port this) (to_port other) in
        if f > t then None else Some (f, t))" by (simp only: subset_ports_def if_False)
    show ?thesis
    proof (cases "min (to_port this) (to_port other) < max (from_port this) (from_port other)")
      case True
      then show ?thesis using s unfolding r by (simp only: Let_def if_True option.distinct)
    next
      case False
      then have "f = max (from_port this) (from_port other)" "t = min (to_port this) (to_port other)"
        using s unfolding r by (simp_all only: Let_def if_False option.inject prod.inject)
      then show ?thesis using False by (simp only: not_less simp_thms)
    qed
  qed
  then show "\<exists>p. ports_in f t p"
  proof (elim disjE)
    assume "f = 0xffff \<and> t = 0"
    then show ?thesis by (intro exI [of _ None]) (simp add: ports_in_def)
  next
    assume "f \<le> t"
    then show ?thesis by (intro exI [of _ "Some f"]) (simp add: ports_in_def)
  qed
qed

lemma subset_nonempty:
  assumes wf: "ts_wf this" "ts_wf other" and dyn: "\<not> dynamic this" "\<not> dynamic other"
    and icmp: "max (protocol this) (protocol other) \<notin> {IPPROTO_ICMP, IPPROTO_ICMPV6}" and sub: "get_subset this other = Some sub"
  shows "\<exists>addr proto port. length addr = ts_ip_len this \<and> selects sub (ts_type this) addr proto port"
proof -
  have True: "ts_type this = ts_type other" "protocol this = protocol other \<or> protocol this = 0 \<or> protocol other = 0"
    using sub by (auto simp: get_subset_def split: if_splits)
  let ?F = "if memcmp (get_from_address this) (get_from_address other) > 0 then get_from_address this else get_from_address other"
  let ?T = "if memcmp (get_to_address this) (get_to_address other) > 0 then get_to_address other else get_to_address this"
  have "length (get_from_address this) = ts_ip_len this" "length (get_from_address other) = ts_ip_len this"
    "length (get_to_address this) = ts_ip_len this" "length (get_to_address other) = ts_ip_len this"
    using wf True ts_ip_len_le [of "ts_type this"] by (auto simp: ts_wf_def get_from_address_def get_to_address_def)
  then have FT: "length ?F = ts_ip_len this" "length ?T = ts_ip_len this" by simp_all
  obtain f t where p: "subset_ports this other = Some (f, t)"
      and r: "\<not> memcmp ?F ?T > 0" "sub = ranged (max (protocol this) (protocol other)) (ts_type this) f t ?F ?T"
    using sub unfolding get_subset_eq [OF dyn True] by (auto simp: Let_def split: option.splits if_splits)
  have "\<not> addr_val ?T < addr_val ?F" using r(1) memcmp_val(1) [of ?F ?T] FT by metis
  moreover obtain port where "ports_in f t port" using subset_ports_nonempty [OF p] by blast
  ultimately have "selects sub (ts_type this) ?F (max (protocol this) (protocol other)) port"
    using icmp unfolding selects_def r(2) ranged_fields [OF FT] by (simp add: icmp_port_def)
  then show ?thesis using FT(1) by blast
qed

section \<open>Properties\<close>

text \<open>
  C21. Narrowing is intersection, for well-formed selectors whose protocol is not ICMP: without an
  address in one of them there is no subset; otherwise the subset stands for exactly the packets
  both stand for, opaque ports included, and there is none if and only if there is no such packet.
\<close>

theorem get_subset_intersection:
  assumes wf: "ts_wf this" "ts_wf other"
    and icmp: "max (protocol this) (protocol other) \<notin> {IPPROTO_ICMP, IPPROTO_ICMPV6}"
  shows "if dynamic this \<or> dynamic other then get_subset this other = None
    else (\<forall>ty addr proto port. length addr = ts_ip_len_of ty \<longrightarrow>
        ((case get_subset this other of None \<Rightarrow> False | Some sub \<Rightarrow> selects sub ty addr proto port)
         \<longleftrightarrow> selects this ty addr proto port \<and> selects other ty addr proto port))
      \<and> (get_subset this other = None \<longleftrightarrow>
         \<not> (\<exists>ty addr proto port. length addr = ts_ip_len_of ty \<and> selects this ty addr proto port \<and> selects other ty addr proto port))"
proof (cases "dynamic this \<or> dynamic other")
  case True
  then show ?thesis by (simp add: get_subset_def)
next
  case False
  then have dyn: "\<not> dynamic this" "\<not> dynamic other" by simp_all
  note s = subset_selects [OF wf dyn icmp]
  have "\<exists>ty addr proto port. length addr = ts_ip_len_of ty \<and> selects this ty addr proto port \<and> selects other ty addr proto port"
    if sub: "get_subset this other = Some sub" for sub
  proof -
    obtain addr proto port where "length addr = ts_ip_len this" "selects sub (ts_type this) addr proto port"
      using subset_nonempty [OF wf dyn icmp sub] by blast
    then show ?thesis using s [of addr "ts_type this" proto port] sub by auto
  qed
  then have "get_subset this other = None \<longleftrightarrow>
      \<not> (\<exists>ty addr proto port. length addr = ts_ip_len_of ty \<and> selects this ty addr proto port \<and> selects other ty addr proto port)"
    using s by (cases "get_subset this other") auto
  then show ?thesis using False s by simp
qed

text \<open>
  A subnet and its selector: the selector of a network with a prefix length covers exactly
  the hosts of the same family whose addresses agree with the network in the bits of the
  prefix, and the prefix length is found again when the selector is built from the two ends of
  its range, as it is by the peer that receives it.
\<close>

theorem subnet_selector:
  assumes cr: "traffic_selector_create_from_subnet net nb proto fport tport = Some this"
    and net: "length (get_address net) = ts_ip_len this"
    and h: "get_family h = get_family net" "length (get_address h) = ts_ip_len this"
  shows "unat (netbits this) = min (unat nb) (8 * ts_ip_len this)
    \<and> (ts_includes h this \<longleftrightarrow>
        take (unat (netbits this)) (bits_of (get_address h)) = take (unat (netbits this)) (bits_of (get_address net)))
    \<and> traffic_selector_create_from_bytes proto (ts_type this) (get_from_address this) fport (get_to_address this) tport = Some this"
proof -
  obtain ty where ty: "ts_family ty = get_family net"
    and t: "this = calc_range (min nb (of_nat (ts_ip_len_of ty * 8)))
      ((traffic_selector_create proto ty fport tport)\<lparr>ts_from := copy_to (get_address net) (replicate 16 0)\<rparr>)"
  proof (cases net)
    case (Host4 a p)
    then show thesis using cr by (intro that [of TS_IPV4_ADDR_RANGE])
      (simp_all add: traffic_selector_create_from_subnet_def traffic_selector_create_def Let_def)
  next
    case (Host6 a p)
    then show thesis using cr by (intro that [of TS_IPV6_ADDR_RANGE])
      (simp_all add: traffic_selector_create_from_subnet_def traffic_selector_create_def Let_def)
  qed
  let ?n = "min nb (of_nat (ts_ip_len_of ty * 8))" and ?a = "get_address net" and ?len = "ts_ip_len_of ty"
  let ?c = "(traffic_selector_create proto ty fport tport)\<lparr>ts_from := copy_to ?a (replicate 16 0)\<rparr>"
  have keep: "ts_type this = ty" "netbits this = ?n" "protocol this = proto" "dynamic this = False"
    "from_port this = icmp_port proto fport" "to_port this = icmp_port proto tport"
    unfolding t by (simp_all add: calc_range_def Let_def traffic_selector_create_def)
  have l: "length ?a = ?len" "?len \<le> 16" using net keep ts_ip_len_le by simp_all
  have n: "unat ?n = min (unat nb) (8 * ?len)"
    by (cases ty) (simp_all add: min_def word_le_nat_alt)
  have c: "length (ts_from ?c) = 16" "length (ts_to ?c) = 16" "unat ?n \<le> 8 * ts_ip_len ?c" "ts_type ?c = ty" "take ?len (ts_from ?c) = ?a"
    using l n by (simp_all add: traffic_selector_create_def copy_to_def)
  let ?P = "take (unat ?n) (bits_of ?a)" and ?k = "8 * ?len - unat ?n"
  note b = calc_range_bits [OF c(1-3), unfolded c(4,5), folded t]
  have len: "length (get_from_address this) = ?len" "length (get_to_address this) = ?len"
  proof -
    have "8 * length (get_from_address this) = length (?P @ replicate ?k False)" "8 * length (get_to_address this) = length (?P @ replicate ?k True)"
      unfolding b(1,2) [symmetric] by simp_all
    then show "length (get_from_address this) = ?len" "length (get_to_address this) = ?len" using l n by simp_all
  qed
  have lh: "length (get_address h) = ?len" using h(2) keep(1) by simp
  have "ts_includes h this \<longleftrightarrow> bval (?P @ replicate ?k False) \<le> bval (bits_of (get_address h))
      \<and> bval (bits_of (get_address h)) \<le> bval (?P @ replicate ?k True)"
  proof -
    have "ts_includes h this \<longleftrightarrow> memcmp (get_from_address this) (get_address h) \<le> 0 \<and> memcmp (get_to_address this) (get_address h) \<ge> 0"
      using ty h(1) lh keep(1) by (simp add: ts_includes_def get_from_address_def get_to_address_def)
    also have "\<dots> \<longleftrightarrow> addr_val (get_from_address this) \<le> addr_val (get_address h) \<and> addr_val (get_address h) \<le> addr_val (get_to_address this)"
      using memcmp_val(1) [of "get_from_address this" "get_address h"] memcmp_val(2) [of "get_to_address this" "get_address h"] len lh
      by (simp add: not_less [symmetric])
    finally show ?thesis unfolding addr_val_bits b(1,2) .
  qed
  also have "\<dots> \<longleftrightarrow> take (length ?P) (bits_of (get_address h)) = ?P" by (rule subnet_interval) (use l lh n in simp)
  finally have inc: "ts_includes h this \<longleftrightarrow> take (unat (netbits this)) (bits_of (get_address h)) = take (unat (netbits this)) (bits_of ?a)"
    using l n keep(2) by simp
  have "ranged proto ty fport tport (get_from_address this) (get_to_address this) = this"
  proof -
    have f: "ts_from this = copy_to (get_from_address this) (replicate 16 0)" "ts_to this = copy_to (get_to_address this) (replicate 16 0)"
      using b(3,4) l len keep(1) append_take_drop_id [of ?len "ts_from this"] append_take_drop_id [of ?len "ts_to this"]
      by (simp_all add: copy_to_def get_from_address_def get_to_address_def traffic_selector_create_def)
    have "netbits_loop True (?len * 8) 0 (zip (bits_of (get_from_address this)) (bits_of (get_to_address this))) = (unat ?n, True)"
      unfolding b(1,2) netbits_loop_subnet using l n by simp
    then show ?thesis using f keep len l
      by (simp add: ranged_def calc_netbits_def traffic_selector_create_def Let_def copy_to_def)
  qed
  then show ?thesis using n inc keep create_from_bytes_ranged [OF len] by simp
qed

text \<open>
  With ICMP the ports of the subset, message type and code, are shifted a second time where one
  selector stands for any protocol.
\<close>

lemma icmp_subset_is_no_intersection:
  "case (traffic_selector_create_from_bytes 0 TS_IPV4_ADDR_RANGE [10,0,0,0] 1 [10,0,0,255] 100,
         traffic_selector_create_from_bytes IPPROTO_ICMP TS_IPV4_ADDR_RANGE [10,0,0,0] 0 [10,0,0,255] 0xffff) of
     (Some this, Some other) \<Rightarrow>
       (case get_subset this other of None \<Rightarrow> False
        | Some sub \<Rightarrow> \<not> selects this TS_IPV4_ADDR_RANGE [10,0,0,1] IPPROTO_ICMP (Some 300)
            \<and> selects sub TS_IPV4_ADDR_RANGE [10,0,0,1] IPPROTO_ICMP (Some 300))
   | _ \<Rightarrow> False"
  by (simp add: create_from_bytes_ranged get_subset_eq ranged_fields subset_ports_def is_opaque_def is_any_def icmp_port_def
      selects_def ports_in_def IPPROTO_ICMP_def IPPROTO_ICMPV6_def)

section \<open>Concrete selectors\<close>

theorem get_subset_intersection_witness:
  "case get_subset (ranged 0 TS_IPV4_ADDR_RANGE 0 0xffff [10,0,0,0] [10,0,0,255]) (ranged 6 TS_IPV4_ADDR_RANGE 80 80 [10,0,0,128] [10,0,1,0]) of
     None \<Rightarrow> False | Some sub \<Rightarrow> selects sub TS_IPV4_ADDR_RANGE [10,0,0,200] 6 (Some 80)"
proof -
  let ?a = "ranged 0 TS_IPV4_ADDR_RANGE 0 0xffff [10,0,0,0] [10,0,0,255]" and ?b = "ranged 6 TS_IPV4_ADDR_RANGE 80 80 [10,0,0,128] [10,0,1,0]"
  have w: "ts_wf ?a" "ts_wf ?b" "max (protocol ?a) (protocol ?b) \<notin> {IPPROTO_ICMP, IPPROTO_ICMPV6}" and d: "\<not> (dynamic ?a \<or> dynamic ?b)"
    by (simp_all add: ranged_fields IPPROTO_ICMP_def IPPROTO_ICMPV6_def max_def)
  have "\<forall>ty addr proto port. length addr = ts_ip_len_of ty \<longrightarrow>
        ((case get_subset ?a ?b of None \<Rightarrow> False | Some sub \<Rightarrow> selects sub ty addr proto port)
         \<longleftrightarrow> selects ?a ty addr proto port \<and> selects ?b ty addr proto port)"
    using get_subset_intersection [OF w] d by meson
  then have i: "(case get_subset ?a ?b of None \<Rightarrow> False | Some sub \<Rightarrow> selects sub TS_IPV4_ADDR_RANGE [10,0,0,200] 6 (Some 80))
         \<longleftrightarrow> selects ?a TS_IPV4_ADDR_RANGE [10,0,0,200] 6 (Some 80) \<and> selects ?b TS_IPV4_ADDR_RANGE [10,0,0,200] 6 (Some 80)"
    by simp
  have "selects ?a TS_IPV4_ADDR_RANGE [10,0,0,200] 6 (Some 80)" "selects ?b TS_IPV4_ADDR_RANGE [10,0,0,200] 6 (Some 80)"
    by (simp_all add: selects_def ranged_fields ports_in_def icmp_port_def IPPROTO_ICMP_def IPPROTO_ICMPV6_def)
  then show ?thesis using i by simp
qed

theorem subnet_selector_witness:
  "\<exists>this. traffic_selector_create_from_subnet (Host4 [10,1,2,3] 0) 20 0 0 0xffff = Some this
    \<and> unat (netbits this) = 20 \<and> ts_includes (Host4 [10,1,15,9] 0) this"
proof -
  obtain this where t: "traffic_selector_create_from_subnet (Host4 [10,1,2,3] 0) 20 0 0 0xffff = Some this" and v4: "ts_type this = TS_IPV4_ADDR_RANGE"
    by (simp add: traffic_selector_create_from_subnet_def traffic_selector_create_def calc_range_def Let_def)
  have "length (get_address (Host4 [10,1,2,3] 0)) = ts_ip_len this" "get_family (Host4 [10,1,15,9] 0) = get_family (Host4 [10,1,2,3] 0)"
    "length (get_address (Host4 [10,1,15,9] 0)) = ts_ip_len this" using v4 by simp_all
  note s = subnet_selector [OF t this]
  then have n: "unat (netbits this) = 20" using v4 by simp
  have "take 20 (bits_of [10,1,15,9]) = take 20 (bits_of [10,1,2,3])" by simp
  then have "ts_includes (Host4 [10,1,15,9] 0) this" using s n by simp
  with t n show ?thesis by blast
qed

end
