(* ===== verification/Eap_Manager.thy ===== *)
theory Eap_Manager
  imports Prelude
begin

text \<open>
  \<open>libcharon/sa/eap/eap_manager.c\<close>, where the plugins register their EAP methods.  A constructor
  is a function pointer: it is compared, and called through the parameter \<open>call\<close>.  The lock
  makes every operation atomic.
\<close>

section \<open>Data\<close>

text \<open>Types and vendors of EAP methods; the types of \<open>eap_type_t\<close> that the code names.\<close>

type_synonym eap_type = "32 word"

abbreviation EAP_IDENTITY :: eap_type where "EAP_IDENTITY \<equiv> 1"
abbreviation EAP_NAK :: eap_type where "EAP_NAK \<equiv> 3"
abbreviation EAP_EXPANDED :: eap_type where "EAP_EXPANDED \<equiv> 254"
abbreviation EAP_EXPERIMENTAL :: eap_type where "EAP_EXPERIMENTAL \<equiv> 255"

datatype eap_role = EAP_SERVER | EAP_PEER

record 'c eap_entry =
  ee_type :: eap_type
  ee_vendor :: "32 word"
  ee_role :: eap_role
  ee_constructor :: 'c

type_synonym 'c eap_manager = "'c eap_entry list"

section \<open>Operations\<close>

definition add_method :: "eap_type \<Rightarrow> 32 word \<Rightarrow> eap_role \<Rightarrow> 'c \<Rightarrow> 'c eap_manager \<Rightarrow> 'c eap_manager" where
  "add_method type vendor role constructor this =
     this @ [\<lparr>ee_type = type, ee_vendor = vendor, ee_role = role, ee_constructor = constructor\<rparr>]"

definition remove_method :: "'c \<Rightarrow> 'c eap_manager \<Rightarrow> 'c eap_manager" where
  "remove_method constructor this = filter (\<lambda>e. ee_constructor e \<noteq> constructor) this"

definition filter_methods :: "eap_role \<Rightarrow> 'c eap_entry \<Rightarrow> bool" where
  "filter_methods role e \<longleftrightarrow> ee_role e = role
     \<and> \<not> (ee_vendor e = 0 \<and> (ee_type e < 4 \<or> ee_type e = EAP_EXPANDED \<or> ee_type e > EAP_EXPERIMENTAL))"

text \<open>What \<open>create_enumerator\<close> enumerates.\<close>

definition eap_methods :: "eap_role \<Rightarrow> 'c eap_manager \<Rightarrow> (eap_type \<times> 32 word) list" where
  "eap_methods role this = map (\<lambda>e. (ee_type e, ee_vendor e)) (filter (filter_methods role) this)"

text \<open>The first constructor for the method that gives an instance.\<close>

fun create_instance ::
  "('c \<Rightarrow> 'i \<Rightarrow> 'i \<Rightarrow> 'm option) \<Rightarrow> eap_type \<Rightarrow> 32 word \<Rightarrow> eap_role \<Rightarrow> 'i \<Rightarrow> 'i \<Rightarrow> 'c eap_manager \<Rightarrow> 'm option" where
  "create_instance call type vendor role server peer [] = None"
| "create_instance call type vendor role server peer (e # es) =
     (if type = ee_type e \<and> vendor = ee_vendor e \<and> role = ee_role e then
        (case call (ee_constructor e) server peer of
           None \<Rightarrow> create_instance call type vendor role server peer es
         | Some m \<Rightarrow> Some m)
      else create_instance call type vendor role server peer es)"

section \<open>Lemmas\<close>

lemma create_instance_Some:
  "create_instance call type vendor role server peer this = Some m \<Longrightarrow>
     \<exists>e \<in> set this. ee_type e = type \<and> ee_vendor e = vendor \<and> ee_role e = role \<and> call (ee_constructor e) server peer = Some m"
  by (induction this) (auto split: if_splits option.splits)

lemma create_instance_None:
  "create_instance call type vendor role server peer this = None \<longleftrightarrow>
     (\<forall>e \<in> set this. ee_type e = type \<and> ee_vendor e = vendor \<and> ee_role e = role \<longrightarrow> call (ee_constructor e) server peer = None)"
  by (induction this) (auto split: option.splits)

lemma create_after_remove:
  assumes "\<And>e. e \<in> set this \<Longrightarrow> ee_type e = type \<and> ee_vendor e = vendor \<and> ee_role e = role \<Longrightarrow> ee_constructor e = c"
  shows "create_instance call type vendor role server peer (remove_method c this) = None"
  using assms by (auto simp: create_instance_None remove_method_def)

lemma create_append:
  "create_instance call type vendor role server peer (xs @ ys) =
     (case create_instance call type vendor role server peer xs of None \<Rightarrow> create_instance call type vendor role server peer ys | Some m \<Rightarrow> Some m)"
  by (induction xs) (auto split: option.splits)

lemma create_after_add:
  assumes "create_instance call type vendor role server peer this = None"
  shows "create_instance call type vendor role server peer (add_method type vendor role c this) = call c server peer"
  using assms by (simp add: add_method_def create_append split: option.splits)

text \<open>A method of the standard range that is enumerated has a type of one octet, which is not the escape.\<close>

lemma eap_methods_standard:
  assumes "(t, v) \<in> set (eap_methods role this)" "v = 0"
  shows "4 \<le> t" "t \<noteq> EAP_EXPANDED" "t \<le> EAP_EXPERIMENTAL"
  using assms by (auto simp: eap_methods_def filter_methods_def not_less)

end
