(* ===== verification/Eap_Payload.thy ===== *)
theory Eap_Payload
  imports Bio Eap_Manager Eap_Aka
begin

text \<open>
  \<open>libcharon/encoding/payloads/eap_payload.c\<close>, the IKEv2 payload that carries an EAP message: its
  checks, the (possibly expanded) type of the message, and the construction of a Nak, which
  lists the methods registered with the manager of \<open>Eap_Manager\<close>.
\<close>

section \<open>Data\<close>

abbreviation EAP_SUCCESS :: byte where "EAP_SUCCESS \<equiv> 3"
abbreviation EAP_FAILURE :: byte where "EAP_FAILURE \<equiv> 4"

record eap_payload =
  ep_next_payload :: byte
  ep_critical :: bool
  ep_reserved :: "bool list"
  ep_payload_length :: "16 word"
  ep_data :: chunk

definition eap_payload_create :: eap_payload where
  "eap_payload_create =
     \<lparr>ep_next_payload = 0, ep_critical = False, ep_reserved = replicate 7 False, ep_payload_length = 4, ep_data = []\<rparr>"

definition eap_set_data :: "chunk \<Rightarrow> eap_payload \<Rightarrow> eap_payload" where
  "eap_set_data d this = this\<lparr>ep_data := d, ep_payload_length := word_of_nat (length d + 4)\<rparr>"

definition eap_payload_create_data :: "chunk \<Rightarrow> eap_payload" where
  "eap_payload_create_data d = eap_set_data d eap_payload_create"

definition eap_payload_create_code :: "byte \<Rightarrow> byte \<Rightarrow> eap_payload" where
  "eap_payload_create_code code ident = eap_payload_create_data ([code, ident] @ be_bytes 2 (4 :: 16 word))"

section \<open>Reading\<close>

definition eap_verify :: "eap_payload \<Rightarrow> status" where
  "eap_verify this =
     (let d = ep_data this in
      if length d < 4 then FAILED
      else if length d \<noteq> unat (be_word (take 2 (drop 2 d)) :: 16 word) then FAILED
      else if d ! 0 = EAP_REQUEST \<or> d ! 0 = EAP_RESPONSE then (if length d < 4 then FAILED else SUCCESS)
      else if d ! 0 = EAP_SUCCESS \<or> d ! 0 = EAP_FAILURE then (if length d \<noteq> 4 then FAILED else SUCCESS)
      else FAILED)"

definition eap_get_code :: "eap_payload \<Rightarrow> byte" where
  "eap_get_code this = (if length (ep_data this) > 0 then ep_data this ! 0 else 0)"

definition eap_get_identifier :: "eap_payload \<Rightarrow> byte" where
  "eap_get_identifier this = (if length (ep_data this) > 1 then ep_data this ! 1 else 0)"

text \<open>Type, vendor and the offset behind them; \<open>None\<close> for the result 0.\<close>

definition eap_extract_type :: "chunk \<Rightarrow> nat \<Rightarrow> (eap_type \<times> 32 word \<times> nat) option" where
  "eap_extract_type d offset =
     (if length d > offset then
        if ucast (d ! offset) \<noteq> EAP_EXPANDED then Some (ucast (d ! offset), 0, offset + 1)
        else if length d \<ge> offset + 8 then
          Some (be_word (take 4 (drop (offset + 4) d)), be_word (take 4 (drop offset d)) AND 0x00FFFFFF, offset + 8)
        else None
      else None)"

definition eap_get_type :: "eap_payload \<Rightarrow> eap_type \<times> 32 word" where
  "eap_get_type this = (case eap_extract_type (ep_data this) 4 of None \<Rightarrow> (0, 0) | Some (t, v, _) \<Rightarrow> (t, v))"

text \<open>The rest of an enumeration of types.\<close>

lemma eap_extract_type_advances: "eap_extract_type d offset = Some (t, v, n) \<Longrightarrow> offset < n \<and> offset < length d"
  by (auto simp: eap_extract_type_def split: if_splits)

function enumerate_types :: "chunk \<Rightarrow> nat \<Rightarrow> (eap_type \<times> 32 word) list" where
  "enumerate_types d offset =
     (case eap_extract_type d offset of None \<Rightarrow> [] | Some (t, v, n) \<Rightarrow> (t, v) # enumerate_types d n)"
  by pat_completeness auto
termination by (relation "measure (\<lambda>(d, offset). length d - offset)") (auto dest!: eap_extract_type_advances)

declare enumerate_types.simps [simp del]

definition eap_get_types :: "eap_payload \<Rightarrow> (eap_type \<times> 32 word) list" where
  "eap_get_types this =
     (case eap_extract_type (ep_data this) 4 of
        None \<Rightarrow> []
      | Some (t, v, n) \<Rightarrow> if t = EAP_NAK then enumerate_types (ep_data this) n else [])"

definition is_expanded :: "eap_payload \<Rightarrow> bool" where
  "is_expanded this \<longleftrightarrow> length (ep_data this) > 4 \<and> ucast (ep_data this ! 4) = EAP_EXPANDED"

section \<open>Writing a Nak\<close>

definition write_type :: "eap_type \<Rightarrow> 32 word \<Rightarrow> bool \<Rightarrow> bio_writer \<Rightarrow> bio_writer res" where
  "write_type type vendor expanded writer =
     (if expanded then
        andThen (write_uint8 (ucast EAP_EXPANDED) writer) (\<lambda>w.
        andThen (write_uint24 vendor w) (write_uint32 type))
      else write_uint8 (ucast type) writer)"

text \<open>The loop over the registered methods; \<open>added_any\<close> and \<open>found_vendor\<close> are its flags.\<close>

fun write_methods ::
  "eap_type \<Rightarrow> 32 word \<Rightarrow> bool \<Rightarrow> (eap_type \<times> 32 word) list \<Rightarrow> bool \<Rightarrow> bool \<Rightarrow> bio_writer \<Rightarrow> (bool \<times> bool \<times> bio_writer) res" where
  "write_methods type vendor expanded [] added_any found_vendor writer = Inr (added_any, found_vendor, writer)"
| "write_methods type vendor expanded ((reg_type, reg_vendor) # ms) added_any found_vendor writer =
     (if type \<noteq> 0 \<and> type \<noteq> reg_type \<or> type \<noteq> 0 \<and> vendor \<noteq> 0 \<and> vendor \<noteq> reg_vendor then
        write_methods type vendor expanded ms added_any found_vendor writer
      else if reg_vendor = 0 \<or> expanded then
        andThen (write_type reg_type reg_vendor expanded writer) (write_methods type vendor expanded ms True found_vendor)
      else write_methods type vendor expanded ms added_any True writer)"

definition eap_payload_create_nak :: "'c eap_manager \<Rightarrow> byte \<Rightarrow> eap_type \<Rightarrow> 32 word \<Rightarrow> bool \<Rightarrow> eap_payload res" where
  "eap_payload_create_nak mgr ident type vendor expanded =
     andThen (write_uint8 EAP_RESPONSE (bio_writer_create 12)) (\<lambda>w1.
     andThen (write_uint8 ident w1) (\<lambda>w2.
     andThen (write_uint16 0 w2) (\<lambda>w3.
     andThen (write_type EAP_NAK 0 expanded w3) (\<lambda>w4.
     andThen (write_methods type vendor expanded (eap_methods EAP_PEER mgr) False False w4) (\<lambda>(added_any, found_vendor, w5).
     andThen (if found_vendor then write_type EAP_EXPANDED 0 expanded w5 else Inr w5) (\<lambda>w6.
     andThen (if \<not> (added_any \<or> found_vendor) then write_type 0 0 expanded w6 else Inr w6) (\<lambda>w7.
     andThen (store 2 (map Some (be_bytes 2 (word_of_nat (length (get_buf w7)) :: 16 word))) w7) (\<lambda>w8.
     Inr (eap_payload_create_data (written w8))))))))))"

section \<open>What a Nak holds\<close>

definition enc_type :: "bool \<Rightarrow> eap_type \<times> 32 word \<Rightarrow> chunk" where
  "enc_type expanded = (\<lambda>(t, v). if expanded then [254] @ be_bytes 3 v @ be_bytes 4 t else [ucast t])"

text \<open>The methods that match what was asked for, and those of them that fit the form of the Nak.\<close>

definition offered :: "eap_type \<Rightarrow> 32 word \<Rightarrow> (eap_type \<times> 32 word) list \<Rightarrow> (eap_type \<times> 32 word) list" where
  "offered type vendor ms = filter (\<lambda>(t, v). \<not> (type \<noteq> 0 \<and> type \<noteq> t \<or> type \<noteq> 0 \<and> vendor \<noteq> 0 \<and> vendor \<noteq> v)) ms"

definition listed :: "bool \<Rightarrow> (eap_type \<times> 32 word) list \<Rightarrow> (eap_type \<times> 32 word) list" where
  "listed expanded ms = filter (\<lambda>(t, v). v = 0 \<or> expanded) ms"

lemma offered_Cons:
  "offered type vendor ((t, v) # ms) =
     (if type \<noteq> 0 \<and> type \<noteq> t \<or> type \<noteq> 0 \<and> vendor \<noteq> 0 \<and> vendor \<noteq> v then offered type vendor ms else (t, v) # offered type vendor ms)"
  by (auto simp: offered_def)

lemma listed_Cons: "listed expanded ((t, v) # ms) = (if v = 0 \<or> expanded then (t, v) # listed expanded ms else listed expanded ms)"
  by (simp add: listed_def)

lemma listed_shorter: "listed expanded ms \<noteq> m # ms"
proof -
  have "length (listed expanded ms) \<le> length ms" by (simp add: listed_def)
  then show ?thesis by (metis Suc_n_not_le_n length_Cons)
qed

lemma write_type_spec:
  assumes "writer_inv w"
  shows "\<exists>w'. write_type t v expanded w = Inr w' \<and> writer_inv w' \<and> written w' = written w @ enc_type expanded (t, v)"
proof (cases expanded)
  case True
  obtain w' where "bio.emit_all [[254], be_bytes 3 v, be_bytes 4 t] w = Inr w'" "writer_inv w'"
      "written w' = written w @ [254] @ be_bytes 3 v @ be_bytes 4 t"
    using bio.emit_all_spec [OF assms, of "[[254], be_bytes 3 v, be_bytes 4 t]"] by auto
  then show ?thesis using True
    by (auto simp: write_type_def write_uint8_def write_uint24_def write_uint32_def drop_be_bytes_4 enc_type_def andThen_Inr_iff)
next
  case False
  then show ?thesis using append_bytes_spec [OF assms, of "[ucast t]"] by (simp add: write_type_def write_uint8_def enc_type_def)
qed

lemma write_methods_spec:
  assumes "writer_inv w"
  shows "\<exists>w'. write_methods type vendor expanded ms a f w =
      Inr (a \<or> listed expanded (offered type vendor ms) \<noteq> [], f \<or> listed expanded (offered type vendor ms) \<noteq> offered type vendor ms, w')
    \<and> writer_inv w' \<and> written w' = written w @ concat (map (enc_type expanded) (listed expanded (offered type vendor ms)))"
  using assms
proof (induction ms arbitrary: a f w)
  case (Cons m ms)
  obtain t v where m: "m = (t, v)" by force
  show ?case
  proof (cases "type \<noteq> 0 \<and> type \<noteq> t \<or> type \<noteq> 0 \<and> vendor \<noteq> 0 \<and> vendor \<noteq> v")
    case True
    then show ?thesis using Cons.IH [OF Cons.prems, of a f] by (simp only: m offered_Cons write_methods.simps if_True)
  next
    case o: False
    show ?thesis
    proof (cases "v = 0 \<or> expanded")
      case True
      obtain w1 where w1: "write_type t v expanded w = Inr w1" "writer_inv w1" "written w1 = written w @ enc_type expanded (t, v)"
        using write_type_spec [OF Cons.prems] by blast
      obtain w2 where "write_methods type vendor expanded ms True f w1 =
          Inr (True, f \<or> listed expanded (offered type vendor ms) \<noteq> offered type vendor ms, w2)" "writer_inv w2"
          "written w2 = written w1 @ concat (map (enc_type expanded) (listed expanded (offered type vendor ms)))"
        using Cons.IH [OF w1(2), of True f] by auto
      then show ?thesis using o True w1 by (simp only: m offered_Cons listed_Cons write_methods.simps if_True if_False andThen.simps) simp
    next
      case False
      then show ?thesis using Cons.IH [OF Cons.prems, of a True] o listed_shorter
        by (simp only: m offered_Cons listed_Cons write_methods.simps if_True if_False) simp
    qed
  qed
qed (simp add: offered_def listed_def)

text \<open>The reader takes the types back out.\<close>

definition readable :: "bool \<Rightarrow> eap_type \<times> 32 word \<Rightarrow> bool" where
  "readable expanded = (\<lambda>(t, v). if expanded then unat v < 2 ^ 24 else v = 0 \<and> t \<noteq> EAP_EXPANDED \<and> t \<le> 255)"

lemma take_bit_small: "unat (w :: 32 word) < 2 ^ n \<Longrightarrow> take_bit n w = w"
  by (simp add: word_unat_eq_iff unsigned_take_bit_eq take_bit_nat_eq_self)

lemma ucast_octet:
  assumes "(t :: 32 word) \<le> 255"
  shows "ucast (ucast t :: byte) = t"
proof -
  have "unat t < 2 ^ 8" using assms by (simp add: word_le_nat_alt)
  then have t: "take_bit 8 t = t" by (rule take_bit_small)
  have "ucast (ucast t :: byte) = take_bit 8 t" by (rule bit_word_eqI) (auto simp: bit_simps)
  then show ?thesis by (simp add: t)
qed

lemma mask_24:
  assumes "unat (v :: 32 word) < 2 ^ 24"
  shows "be_word (254 # be_bytes 3 v) AND 0x00FFFFFF = v"
proof (rule bit_word_eqI)
  fix n assume "n < LENGTH(32)"
  have v: "take_bit 24 v = v" using assms by (rule take_bit_small)
  have m: "(0x00FFFFFF :: 32 word) = mask 24" by (simp add: mask_eq_exp_minus_1)
  show "bit (be_word (254 # be_bytes 3 v) AND (0x00FFFFFF :: 32 word)) n \<longleftrightarrow> bit v n"
  proof (cases "n < 24")
    case True
    then have "n div 8 < 3" by simp
    then obtain k where k: "2 = n div 8 + k" by (metis le_add_diff_inverse less_Suc_eq_le numeral_3_eq_3 numeral_2_eq_2)
    then have "3 - n div 8 = Suc k" "2 - k = n div 8" "k < 3" by simp_all
    moreover from this have "8 * (2 - k) + n mod 8 = n" by (simp only: mult_div_mod_eq)
    ultimately show ?thesis using True by (simp add: m bit_simps bit_be_word bit_be_bytes)
  next
    case False
    then have "\<not> bit v n" by (metis v bit_take_bit_iff)
    then show ?thesis using False by (simp add: m bit_simps)
  qed
qed

lemma extract_enc_type:
  assumes "readable expanded (t, v)"
  shows "eap_extract_type (pre @ enc_type expanded (t, v) @ post) (length pre) = Some (t, v, length (pre @ enc_type expanded (t, v)))"
proof (cases expanded)
  case True
  have "take 4 (drop (length pre + 4) (pre @ (254 # be_bytes 3 v) @ be_bytes 4 t @ post)) = be_bytes 4 t"
      "take 4 (drop (length pre) (pre @ (254 # be_bytes 3 v) @ be_bytes 4 t @ post)) = 254 # be_bytes 3 v"
    by simp_all
  then show ?thesis using assms True mask_24 [of v] by (simp add: eap_extract_type_def enc_type_def readable_def be_word_be_bytes_full)
next
  case False
  then have "v = 0" "t \<noteq> EAP_EXPANDED" "ucast (ucast t :: byte) = t" using assms ucast_octet [of t] by (auto simp: readable_def)
  then show ?thesis using False by (simp add: eap_extract_type_def enc_type_def nth_append)
qed

lemma enumerate_enc_types:
  "\<forall>m \<in> set ms. readable expanded m \<Longrightarrow>
     enumerate_types (pre @ concat (map (enc_type expanded) ms) @ post) (length pre)
     = ms @ enumerate_types (pre @ concat (map (enc_type expanded) ms) @ post) (length (pre @ concat (map (enc_type expanded) ms)))"
proof (induction ms arbitrary: pre)
  case (Cons m ms)
  obtain t v where m: "m = (t, v)" by force
  have "eap_extract_type (pre @ enc_type expanded (t, v) @ concat (map (enc_type expanded) ms) @ post) (length pre)
      = Some (t, v, length (pre @ enc_type expanded (t, v)))"
    by (rule extract_enc_type) (use Cons.prems m in simp)
  then show ?case using Cons.IH [of "pre @ enc_type expanded (t, v)"] Cons.prems
    by (subst enumerate_types.simps) (simp add: m)
qed simp

lemma store_written:
  assumes "writer_inv w" "off + length bs \<le> length (written w)"
  shows "\<exists>w'. store off (map Some bs) w = Inr w' \<and> written w' = take off (written w) @ bs @ drop (off + length bs) (written w)"
proof -
  obtain g r where g: "wbuf w = g @ r" "get_buf w = g" "length g = used w"
    using assms(1) by (metis append_take_drop_id get_buf_def length_take min_absorb2 writer_inv_def)
  then have l: "off + length bs \<le> length g" using assms(2) by (simp add: written_def)
  let ?w = "w\<lparr>wbuf := take off g @ map Some bs @ drop (off + length bs) g @ r\<rparr>"
  have "store off (map Some bs) w = Inr ?w" using g(1) l by (simp add: store_def)
  moreover have "get_buf ?w = take off g @ map Some bs @ drop (off + length bs) g" using l g(3) by (simp add: get_buf_def)
  ultimately show ?thesis using g(2) by (simp add: written_def take_map drop_map comp_def)
qed

definition nak_tail :: "bool \<Rightarrow> (eap_type \<times> 32 word) list \<Rightarrow> chunk" where
  "nak_tail expanded os =
     (if os = [] then enc_type expanded (0, 0) else if listed expanded os \<noteq> os then enc_type expanded (EAP_EXPANDED, 0) else [])"

definition nak_body :: "bool \<Rightarrow> (eap_type \<times> 32 word) list \<Rightarrow> chunk" where
  "nak_body expanded os = enc_type expanded (EAP_NAK, 0) @ concat (map (enc_type expanded) (listed expanded os)) @ nak_tail expanded os"

lemma create_nak_data:
  fixes type :: eap_type and vendor :: "32 word" and mgr :: "'c eap_manager"
  defines "os \<equiv> offered type vendor (eap_methods EAP_PEER mgr)"
  shows "eap_payload_create_nak mgr ident type vendor expanded =
    Inr (eap_payload_create_data ([EAP_RESPONSE, ident] @ be_bytes 2 (word_of_nat (4 + length (nak_body expanded os)) :: 16 word) @ nak_body expanded os))"
proof -
  note e = append_bytes_spec
  obtain w1 where 1: "write_uint8 EAP_RESPONSE (bio_writer_create 12) = Inr w1" "writer_inv w1" "written w1 = [EAP_RESPONSE]"
    using e [OF bio_writer_create_inv(1), of "[EAP_RESPONSE]" 12] by (auto simp: write_uint8_def bio_writer_create_inv)
  obtain w2 where 2: "write_uint8 ident w1 = Inr w2" "writer_inv w2" "written w2 = [EAP_RESPONSE, ident]"
    using e [OF 1(2), of "[ident]"] 1(3) by (auto simp: write_uint8_def)
  obtain w3 where 3: "write_uint16 0 w2 = Inr w3" "writer_inv w3" "written w3 = [EAP_RESPONSE, ident, 0, 0]"
    using e [OF 2(2), of "be_bytes 2 (0 :: 16 word)"] 2(3) by (auto simp: write_uint16_def numeral_2_eq_2)
  obtain w4 where 4: "write_type EAP_NAK 0 expanded w3 = Inr w4" "writer_inv w4" "written w4 = written w3 @ enc_type expanded (EAP_NAK, 0)"
    using write_type_spec [OF 3(2)] by blast
  obtain w5 where 5: "write_methods type vendor expanded (eap_methods EAP_PEER mgr) False False w4 = Inr (listed expanded os \<noteq> [], listed expanded os \<noteq> os, w5)"
      "writer_inv w5" "written w5 = written w4 @ concat (map (enc_type expanded) (listed expanded os))"
    using write_methods_spec [OF 4(2), of type vendor expanded "eap_methods EAP_PEER mgr" False False] unfolding os_def by auto
  define found where "found \<longleftrightarrow> listed expanded os \<noteq> os"
  have n: "(\<not> (listed expanded os \<noteq> [] \<or> found)) = (os = [])" by (auto simp: found_def listed_def)
  obtain w6 where 6: "(if found then write_type EAP_EXPANDED 0 expanded w5 else Inr w5) = Inr w6" "writer_inv w6"
      "written w6 = written w5 @ (if found then enc_type expanded (EAP_EXPANDED, 0) else [])"
    using write_type_spec [OF 5(2), of EAP_EXPANDED 0 expanded] 5(2) by (cases found) auto
  obtain w7 where 7: "(if os = [] then write_type 0 0 expanded w6 else Inr w6) = Inr w7" "writer_inv w7"
      "written w7 = written w6 @ (if os = [] then enc_type expanded (0, 0) else [])"
    using write_type_spec [OF 6(2), of 0 0 expanded] 6(2) by (cases "os = []") auto
  have w7: "written w7 = [EAP_RESPONSE, ident, 0, 0] @ nak_body expanded os"
    using 3(3) 4(3) 5(3) 6(3) 7(3) by (auto simp: nak_body_def nak_tail_def found_def listed_def)
  have "length (get_buf w7) = length (written w7)" by (simp add: written_def)
  then have l: "length (get_buf w7) = 4 + length (nak_body expanded os)" by (simp add: w7)
  obtain w8 where 8: "store 2 (map Some (be_bytes 2 (word_of_nat (4 + length (nak_body expanded os)) :: 16 word))) w7 = Inr w8"
      "written w8 = [EAP_RESPONSE, ident] @ be_bytes 2 (word_of_nat (4 + length (nak_body expanded os)) :: 16 word) @ nak_body expanded os"
    using store_written [OF 7(2), of 2 "be_bytes 2 (word_of_nat (4 + length (nak_body expanded os)) :: 16 word)"] by (auto simp: w7)
  show ?thesis
    by (simp only: eap_payload_create_nak_def 1(1) 2(1) 3(1) 4(1) 5(1) [folded found_def] 6(1) 7(1) 8 l n andThen.simps prod.case)
qed

lemma listed_readable:
  assumes "\<forall>(t, v) \<in> set (eap_methods EAP_PEER mgr). unat v < 2 ^ 24"
    and "m \<in> set (listed expanded (offered type vendor (eap_methods EAP_PEER mgr)))"
  shows "readable expanded m"
proof -
  obtain t v where m: "m = (t, v)" by force
  have r: "(t, v) \<in> set (eap_methods EAP_PEER mgr)" "v = 0 \<or> expanded" using assms(2) by (auto simp: m listed_def offered_def)
  show ?thesis
  proof (cases expanded)
    case True
    then show ?thesis using assms(1) r(1) by (auto simp: m readable_def)
  next
    case False
    then show ?thesis using eap_methods_standard [OF r(1)] r(2) by (simp add: m readable_def)
  qed
qed

lemma length_enc_type: "length (enc_type expanded m) \<le> 8" "0 < length (enc_type expanded m)"
  by (cases m; simp add: enc_type_def)+

lemma length_nak_body: "length (nak_body expanded os) \<le> 16 + 8 * length os"
proof -
  have "length (concat (map (enc_type expanded) xs)) \<le> 8 * length xs" for xs
    by (induction xs) (use length_enc_type(1) in \<open>simp_all add: add_mono\<close>)
  from this [of "listed expanded os"] have "length (concat (map (enc_type expanded) (listed expanded os))) \<le> 8 * length os"
    by (rule order_trans) (simp add: listed_def)
  moreover have "length (nak_tail expanded os) \<le> 8" using length_enc_type(1) by (simp add: nak_tail_def)
  ultimately show ?thesis using length_enc_type(1) [of expanded "(EAP_NAK, 0)"] by (simp add: nak_body_def)
qed

lemma nak_body_types:
  assumes "\<forall>m \<in> set (listed expanded os). readable expanded m"
  shows "enumerate_types (hd4 @ nak_body expanded os) (length (hd4 @ enc_type expanded (EAP_NAK, 0))) = (if os = [] then [(0, 0)] else listed expanded os)"
proof -
  define pre where "pre = hd4 @ enc_type expanded (EAP_NAK, 0)"
  define all where "all = pre @ concat (map (enc_type expanded) (listed expanded os))"
  have d: "hd4 @ nak_body expanded os = all @ nak_tail expanded os" by (simp add: nak_body_def pre_def all_def)
  have "enumerate_types (all @ nak_tail expanded os) (length pre) = listed expanded os @ enumerate_types (all @ nak_tail expanded os) (length all)"
    using enumerate_enc_types [OF assms, of pre "nak_tail expanded os"] by (simp add: all_def)
  moreover have "enumerate_types (all @ nak_tail expanded os) (length all) = (if os = [] then [(0, 0)] else [])"
  proof (cases "os = []")
    case True
    have "readable expanded (0, 0)" by (simp add: readable_def)
    from extract_enc_type [OF this, of all "[]"] True show ?thesis
      by (subst enumerate_types.simps, subst enumerate_types.simps) (simp add: nak_tail_def eap_extract_type_def)
  next
    case False
    have "expanded \<Longrightarrow> listed expanded os = os" by (simp add: listed_def)
    then show ?thesis using False
      by (subst enumerate_types.simps) (auto simp: nak_tail_def eap_extract_type_def enc_type_def nth_append)
  qed
  ultimately show ?thesis unfolding d by (simp add: listed_def flip: pre_def)
qed

text \<open>
  C29. The server reads from a Nak what the peer supports: the Nak of a peer passes the checks of the
  payload, answers the identifier, is expanded just as asked for, and its enumeration of types
  gives every registered method that matches the preferred one, in order (all methods if none
  is preferred), or the type 0 if there is none.  Methods of vendors are left out unless the Nak
  is expanded; the octet that asks for an expanded type in their place is not enumerated.
\<close>

theorem nak_lists_methods:
  assumes "\<forall>(t, v) \<in> set (eap_methods EAP_PEER mgr). unat v < 2 ^ 24" and "length mgr \<le> 8000"
  shows "\<exists>p. eap_payload_create_nak mgr ident type vendor expanded = Inr p
    \<and> eap_verify p = SUCCESS \<and> eap_get_code p = EAP_RESPONSE \<and> eap_get_identifier p = ident
    \<and> eap_get_type p = (EAP_NAK, 0) \<and> is_expanded p = expanded
    \<and> eap_get_types p = (let os = offered type vendor (eap_methods EAP_PEER mgr) in if os = [] then [(0, 0)] else listed expanded os)"
proof -
  define os where "os = offered type vendor (eap_methods EAP_PEER mgr)"
  define n where "n = 4 + length (nak_body expanded os)"
  define hd4 where "hd4 = [EAP_RESPONSE, ident] @ be_bytes 2 (word_of_nat n :: 16 word)"
  have p: "eap_payload_create_nak mgr ident type vendor expanded = Inr (eap_payload_create_data (hd4 @ nak_body expanded os))"
    by (simp add: create_nak_data os_def hd4_def n_def)
  have h: "length hd4 = 4" "hd4 ! 0 = EAP_RESPONSE" "hd4 ! 1 = ident" "take 2 (drop 2 hd4) = be_bytes 2 (word_of_nat n :: 16 word)"
    by (simp_all add: hd4_def)
  have d: "ep_data (eap_payload_create_data x) = x" for x by (simp add: eap_payload_create_data_def eap_set_data_def)
  have "length os \<le> length mgr"
    unfolding os_def offered_def eap_methods_def by (metis (no_types, lifting) length_filter_le length_map order_trans)
  then have "n < 2 ^ 16" using length_nak_body [of expanded os] assms(2) by (simp add: n_def)
  then have "unat (word_of_nat n :: 16 word) = n" by (simp add: unat_of_nat_small)
  moreover have "take 2 (drop 2 (hd4 @ nak_body expanded os)) = be_bytes 2 (word_of_nat n :: 16 word)" using h(1,4) by simp
  ultimately have v: "eap_verify (eap_payload_create_data (hd4 @ nak_body expanded os)) = SUCCESS"
    using h(1,2) by (simp add: eap_verify_def d nth_append be_word_be_bytes_full n_def)
  have "readable expanded (EAP_NAK, 0)" by (simp add: readable_def)
  from extract_enc_type [OF this, of hd4 "concat (map (enc_type expanded) (listed expanded os)) @ nak_tail expanded os"]
  have x: "eap_extract_type (hd4 @ nak_body expanded os) 4 = Some (EAP_NAK, 0, length (hd4 @ enc_type expanded (EAP_NAK, 0)))"
    using h(1) by (simp add: nak_body_def)
  have "(hd4 @ nak_body expanded os) ! 4 = (if expanded then 254 else 3)" using h(1) by (simp add: nth_append nak_body_def enc_type_def)
  then have e: "is_expanded (eap_payload_create_data (hd4 @ nak_body expanded os)) = expanded"
    using h(1) length_enc_type(2) [of expanded "(EAP_NAK, 0)"] by (simp add: is_expanded_def d nak_body_def)
  have "\<forall>m \<in> set (listed expanded os). readable expanded m" using listed_readable [OF assms(1)] unfolding os_def by blast
  from nak_body_types [OF this, of hd4]
  have "eap_get_types (eap_payload_create_data (hd4 @ nak_body expanded os)) = (if os = [] then [(0, 0)] else listed expanded os)"
    by (simp only: eap_get_types_def d x option.case prod.case refl if_True)
  moreover have "eap_get_code (eap_payload_create_data (hd4 @ nak_body expanded os)) = EAP_RESPONSE"
      "eap_get_identifier (eap_payload_create_data (hd4 @ nak_body expanded os)) = ident"
      "eap_get_type (eap_payload_create_data (hd4 @ nak_body expanded os)) = (EAP_NAK, 0)"
    using h(1-3) by (auto simp: eap_get_code_def eap_get_identifier_def eap_get_type_def d x nth_append)
  ultimately show ?thesis unfolding Let_def using p v e by (simp only: flip: os_def) blast
qed

section \<open>Witness\<close>

definition sample_eap_manager :: "nat eap_manager" where
  "sample_eap_manager = add_method 7 10415 EAP_PEER 2 (add_method 23 0 EAP_PEER 1 (add_method EAP_IDENTITY 0 EAP_PEER 0 []))"

theorem nak_lists_methods_witness:
  "\<exists>p. eap_payload_create_nak sample_eap_manager 9 0 0 False = Inr p \<and> eap_get_types p = [(23, 0)]"
proof -
  have m: "eap_methods EAP_PEER sample_eap_manager = [(23, 0), (7, 10415)]"
    by (simp add: sample_eap_manager_def add_method_def eap_methods_def filter_methods_def)
  then have "\<forall>(t, v) \<in> set (eap_methods EAP_PEER sample_eap_manager). unat v < 2 ^ 24" "length sample_eap_manager \<le> 8000"
    by (simp_all add: sample_eap_manager_def add_method_def)
  from nak_lists_methods [OF this, of 9 0 0 False] m show ?thesis by (auto simp: offered_def listed_def)
qed

end
