(* ===== verification/Prf_Plus.thy ===== *)
theory Prf_Plus
  imports Prelude
begin

text \<open>
  The key expansion of IKEv2, \<open>libstrongswan/crypto/prf_plus.c\<close>, over a pseudo-random function,
  and the function prf+ of RFC 7296, section 2.13, whose octets it is shown to hand out in order.
\<close>

section \<open>Pseudo-random functions\<close>

text \<open>
  The implementations are plugins, and a parameter: which keys are accepted, whether data can be
  appended, and the output for a key and all the data since the last output.  The object
  \<open>prf_t\<close> has an implementation, a key and the data that was appended by calls without an output
  buffer.
\<close>

record prf_alg =
  prf_accepts :: "chunk \<Rightarrow> bool"
  prf_appends :: "chunk \<Rightarrow> chunk \<Rightarrow> bool"
  prf_output :: "chunk \<Rightarrow> chunk \<Rightarrow> chunk option"
  prf_block_size :: nat
  prf_key_size :: nat

record prf_t =
  pf_alg :: prf_alg
  pf_key :: chunk
  pf_pending :: chunk

definition new_prf :: "prf_alg \<Rightarrow> prf_t" where
  "new_prf P = \<lparr>pf_alg = P, pf_key = [], pf_pending = []\<rparr>"

definition prf_set_key :: "chunk \<Rightarrow> prf_t \<Rightarrow> bool \<times> prf_t" where
  "prf_set_key k this =
     (if prf_accepts (pf_alg this) k then (True, this\<lparr>pf_key := k, pf_pending := []\<rparr>) else (False, this))"

definition prf_append :: "chunk \<Rightarrow> prf_t \<Rightarrow> bool \<times> prf_t" where
  "prf_append d this =
     (if prf_appends (pf_alg this) (pf_key this) (pf_pending this @ d)
      then (True, this\<lparr>pf_pending := pf_pending this @ d\<rparr>) else (False, this))"

definition prf_get_bytes :: "chunk \<Rightarrow> prf_t \<Rightarrow> chunk option \<times> prf_t" where
  "prf_get_bytes d this =
     (case prf_output (pf_alg this) (pf_key this) (pf_pending this @ d) of
        None \<Rightarrow> (None, this)
      | Some out \<Rightarrow> (Some out, this\<lparr>pf_pending := []\<rparr>))"

section \<open>The expansion\<close>

text \<open>The member \<open>apply_prf\<close> is one of the two functions below, or \<open>return_false\<close>.\<close>

datatype apply_prf_t = Apply_Prf_Counter | Apply_Prf | Return_False

record prf_plus =
  pp_prf :: prf_t
  pp_seed :: chunk
  pp_counter :: byte
  pp_used :: nat
  pp_buffer :: chunk
  pp_apply :: apply_prf_t

definition apply_prf_counter :: "prf_plus \<Rightarrow> bool \<times> prf_plus" where
  "apply_prf_counter this =
     (case prf_append (pp_seed this) (pp_prf this) of
        (False, p) \<Rightarrow> (False, this\<lparr>pp_prf := p\<rparr>)
      | (True, p) \<Rightarrow>
          (case prf_get_bytes [pp_counter this] p of
             (None, p1) \<Rightarrow> (False, this\<lparr>pp_prf := p1\<rparr>)
           | (Some out, p1) \<Rightarrow>
               let t = this\<lparr>pp_prf := p1, pp_buffer := out, pp_counter := pp_counter this + 1\<rparr> in
               (True, if pp_counter t = 0 then t\<lparr>pp_apply := Return_False\<rparr> else t)))"

definition apply_prf :: "prf_plus \<Rightarrow> bool \<times> prf_plus" where
  "apply_prf this =
     (case prf_get_bytes (pp_seed this) (pp_prf this) of
        (None, p) \<Rightarrow> (False, this\<lparr>pp_prf := p\<rparr>)
      | (Some out, p) \<Rightarrow> (True, this\<lparr>pp_prf := p, pp_buffer := out\<rparr>))"

fun run_apply :: "apply_prf_t \<Rightarrow> prf_plus \<Rightarrow> bool \<times> prf_plus" where
  "run_apply Apply_Prf_Counter this = apply_prf_counter this"
| "run_apply Apply_Prf this = apply_prf this"
| "run_apply Return_False this = (False, this)"

text \<open>The block of the loop that is entered when the buffer is used up.\<close>

definition next_round :: "prf_plus \<Rightarrow> bool \<times> prf_plus" where
  "next_round this =
     (if length (pp_buffer this) = pp_used this then
        (case prf_append (pp_buffer this) (pp_prf this) of
           (False, p) \<Rightarrow> (False, this\<lparr>pp_prf := p\<rparr>)
         | (True, p) \<Rightarrow>
             (case run_apply (pp_apply this) (this\<lparr>pp_prf := p\<rparr>) of
                (False, t) \<Rightarrow> (False, t)
              | (True, t) \<Rightarrow> (True, t\<lparr>pp_used := 0\<rparr>)))
      else (True, this))"

partial_function (option) plus_loop :: "nat \<Rightarrow> chunk \<Rightarrow> prf_plus \<Rightarrow> (chunk option \<times> prf_plus) option" where
  "plus_loop len written this =
     (if len > 0 then
        (case next_round this of (ok, t) \<Rightarrow>
           if \<not> ok then Some (None, t)
           else
             let round = min len (length (pp_buffer t) - pp_used t) in
             plus_loop (len - round) (written @ take round (drop (pp_used t) (pp_buffer t)))
               (t\<lparr>pp_used := pp_used t + round\<rparr>))
      else Some (Some written, this))"

definition allocate_bytes :: "nat \<Rightarrow> prf_plus \<Rightarrow> (chunk option \<times> prf_plus) res" where
  "allocate_bytes len this = (case plus_loop len [] this of None \<Rightarrow> Inl Diverges | Some r \<Rightarrow> Inr r)"

text \<open>Nothing of the buffer is read before the first application has filled it.\<close>

definition prf_plus_create :: "prf_t \<Rightarrow> bool \<Rightarrow> chunk \<Rightarrow> prf_plus option \<times> prf_t" where
  "prf_plus_create p counter seed =
     (let this = \<lparr>pp_prf = p, pp_seed = seed, pp_counter = 1, pp_used = 0,
                  pp_buffer = replicate (prf_block_size (pf_alg p)) 0,
                  pp_apply = (if counter then Apply_Prf_Counter else Apply_Prf)\<rparr> in
      (case run_apply (pp_apply this) this of
         (False, t) \<Rightarrow> (None, pp_prf t)
       | (True, t) \<Rightarrow> (Some t, pp_prf t)))"

section \<open>The function prf+ of RFC 7296\<close>

text \<open>
  T1 = prf (K, S | 0x01), and Tn = prf (K, T(n-1) | S | n); the expansion is T1 | T2 | ..., up to
  T255.
\<close>

fun rfc_block :: "(chunk \<Rightarrow> chunk \<Rightarrow> chunk) \<Rightarrow> chunk \<Rightarrow> chunk \<Rightarrow> nat \<Rightarrow> chunk" where
  "rfc_block f k s 0 = []"
| "rfc_block f k s (Suc n) = f k (rfc_block f k s n @ s @ [word_of_nat (Suc n)])"

fun rfc_stream :: "(chunk \<Rightarrow> chunk \<Rightarrow> chunk) \<Rightarrow> chunk \<Rightarrow> chunk \<Rightarrow> nat \<Rightarrow> chunk" where
  "rfc_stream f k s 0 = []"
| "rfc_stream f k s (Suc n) = rfc_stream f k s n @ rfc_block f k s (Suc n)"

definition rfc_prf_plus :: "(chunk \<Rightarrow> chunk \<Rightarrow> chunk) \<Rightarrow> chunk \<Rightarrow> chunk \<Rightarrow> chunk" where
  "rfc_prf_plus f k s = rfc_stream f k s 255"

text \<open>The octets from \<open>m\<close> on, \<open>n\<close> of them.\<close>

definition slice :: "nat \<Rightarrow> nat \<Rightarrow> chunk \<Rightarrow> chunk" where
  "slice m n c = take n (drop m c)"

text \<open>What the plugins promise, and the function they compute.\<close>

definition prf_laws :: "prf_alg \<Rightarrow> bool" where
  "prf_laws P \<longleftrightarrow> prf_block_size P > 0 \<and>
     (\<forall>k d. prf_accepts P k \<longrightarrow> prf_appends P k d \<and> (\<exists>out. prf_output P k d = Some out \<and> length out = prf_block_size P))"

definition prf_fun :: "prf_alg \<Rightarrow> chunk \<Rightarrow> chunk \<Rightarrow> chunk" where
  "prf_fun P k d = (case prf_output P k d of Some out \<Rightarrow> out | None \<Rightarrow> [])"

section \<open>Lemmas\<close>

lemma slice_append: "slice m n c @ slice (m + n) n' c = slice m (n + n') c"
  by (simp add: slice_def take_add add.commute)

lemma prf_laws_output:
  assumes "prf_laws P" "prf_accepts P k"
  shows "prf_output P k d = Some (prf_fun P k d)" "length (prf_fun P k d) = prf_block_size P" "prf_appends P k d"
proof -
  obtain out where "prf_output P k d = Some out" "length out = prf_block_size P"
    using assms unfolding prf_laws_def by blast
  then show "prf_output P k d = Some (prf_fun P k d)" "length (prf_fun P k d) = prf_block_size P" by (simp_all add: prf_fun_def)
  show "prf_appends P k d" using assms by (simp add: prf_laws_def)
qed

lemma length_rfc_block:
  assumes "prf_laws P" "prf_accepts P k"
  shows "length (rfc_block (prf_fun P) k s (Suc n)) = prf_block_size P"
  by (simp add: prf_laws_output [OF assms])

lemma length_rfc_stream:
  assumes "prf_laws P" "prf_accepts P k"
  shows "length (rfc_stream (prf_fun P) k s n) = n * prf_block_size P"
  by (induction n) (simp_all add: prf_laws_output [OF assms])

lemma rfc_stream_prefix:
  assumes "n \<le> m"
  shows "\<exists>ys. rfc_stream f k s m = rfc_stream f k s n @ ys"
  using assms by (induction rule: dec_induct) auto

text \<open>The n-th block is the part of the expansion from (n-1) B on.\<close>

lemma slice_rfc_prf_plus:
  assumes "prf_laws P" "prf_accepts P k" "n < 255" "u + r \<le> prf_block_size P"
  shows "slice (n * prf_block_size P + u) r (rfc_prf_plus (prf_fun P) k s) = slice u r (rfc_block (prf_fun P) k s (Suc n))"
proof -
  obtain ys where "rfc_prf_plus (prf_fun P) k s = rfc_stream (prf_fun P) k s (Suc n) @ ys"
    using rfc_stream_prefix [of "Suc n" 255 "prf_fun P" k s] assms(3) unfolding rfc_prf_plus_def by fastforce
  then show ?thesis using assms(4)
    by (simp add: slice_def length_rfc_stream [OF assms(1,2)] prf_laws_output [OF assms(1,2)])
qed

text \<open>The object when \<open>n + 1\<close> blocks were computed and \<open>u\<close> octets of the last were taken.\<close>

definition pp_state :: "prf_alg \<Rightarrow> chunk \<Rightarrow> chunk \<Rightarrow> nat \<Rightarrow> nat \<Rightarrow> prf_plus" where
  "pp_state P k s n u =
     \<lparr>pp_prf = \<lparr>pf_alg = P, pf_key = k, pf_pending = []\<rparr>, pp_seed = s, pp_counter = word_of_nat (n + 2), pp_used = u,
      pp_buffer = rfc_block (prf_fun P) k s (Suc n), pp_apply = (if n = 254 then Return_False else Apply_Prf_Counter)\<rparr>"

text \<open>The object after \<open>m\<close> octets were taken.\<close>

definition pp_at :: "prf_alg \<Rightarrow> chunk \<Rightarrow> chunk \<Rightarrow> nat \<Rightarrow> prf_plus \<Rightarrow> bool" where
  "pp_at P k s m pp \<longleftrightarrow> (\<exists>n u. n < 255 \<and> u \<le> prf_block_size P \<and> m = n * prf_block_size P + u \<and> pp = pp_state P k s n u)"

lemma pp_atI: "n < 255 \<Longrightarrow> u \<le> prf_block_size P \<Longrightarrow> pp_at P k s (n * prf_block_size P + u) (pp_state P k s n u)"
  unfolding pp_at_def by blast

lemma counter_zero:
  assumes "n < 255"
  shows "(word_of_nat (n + 2) :: byte) = 0 \<longleftrightarrow> n = 254"
proof
  assume "(word_of_nat (n + 2) :: byte) = 0"
  then have "256 dvd n + 2" by (simp only: word_of_nat_eq_0_iff) simp
  then show "n = 254" using assms by presburger
qed simp

lemma apply_prf_counter_block:
  assumes "prf_laws P" "prf_accepts P k" "n < 255"
  shows "apply_prf_counter \<lparr>pp_prf = \<lparr>pf_alg = P, pf_key = k, pf_pending = rfc_block (prf_fun P) k s n\<rparr>, pp_seed = s,
      pp_counter = word_of_nat (Suc n), pp_used = u, pp_buffer = b, pp_apply = Apply_Prf_Counter\<rparr>
    = (True, pp_state P k s n u)"
proof -
  have e: "word_of_nat (Suc n) + 1 = (word_of_nat (n + 2) :: byte)" by simp
  show ?thesis
    using counter_zero [OF assms(3)]
    by (simp add: apply_prf_counter_def pp_state_def prf_append_def prf_get_bytes_def Let_def prf_laws_output [OF assms(1,2)] e del: of_nat_Suc of_nat_add)
qed

lemma prf_plus_create_at:
  assumes "prf_laws P" "prf_accepts P k"
  shows "prf_plus_create \<lparr>pf_alg = P, pf_key = k, pf_pending = []\<rparr> True s = (Some (pp_state P k s 0 0), \<lparr>pf_alg = P, pf_key = k, pf_pending = []\<rparr>)"
    "pp_at P k s 0 (pp_state P k s 0 0)"
  using apply_prf_counter_block [OF assms, of 0 s 0 "replicate (prf_block_size P) 0"] pp_atI [of 0 0 P k s]
  by (simp_all add: prf_plus_create_def Let_def) (simp add: pp_state_def)

lemma next_round_at:
  assumes "prf_laws P" "prf_accepts P k" "n < 255" "u \<le> prf_block_size P" "n * prf_block_size P + u < 255 * prf_block_size P"
  shows "next_round (pp_state P k s n u) =
    (True, if u = prf_block_size P then pp_state P k s (Suc n) 0 else pp_state P k s n u)"
proof (cases "u = prf_block_size P")
  case True
  then have n1: "Suc n < 255" using assms(3,5) by (cases "n = 254") simp_all
  have 1: "pp_state P k s (Suc n) u\<lparr>pp_used := 0\<rparr> = pp_state P k s (Suc n) 0" by (simp add: pp_state_def)
  have 2: "pp_state P k s n u\<lparr>pp_prf := \<lparr>pf_alg = P, pf_key = k, pf_pending = rfc_block (prf_fun P) k s (Suc n)\<rparr>\<rparr>
     = \<lparr>pp_prf = \<lparr>pf_alg = P, pf_key = k, pf_pending = rfc_block (prf_fun P) k s (Suc n)\<rparr>, pp_seed = s,
      pp_counter = word_of_nat (Suc (Suc n)), pp_used = u, pp_buffer = rfc_block (prf_fun P) k s (Suc n), pp_apply = Apply_Prf_Counter\<rparr>"
    using n1 by (simp add: pp_state_def)
  have 3: "prf_append (pp_buffer (pp_state P k s n u)) (pp_prf (pp_state P k s n u))
      = (True, \<lparr>pf_alg = P, pf_key = k, pf_pending = rfc_block (prf_fun P) k s (Suc n)\<rparr>)"
    by (simp add: pp_state_def prf_append_def prf_laws_output [OF assms(1,2)])
  have 4: "length (pp_buffer (pp_state P k s n u)) = pp_used (pp_state P k s n u)" "pp_apply (pp_state P k s n u) = Apply_Prf_Counter"
    using True n1 by (simp_all add: pp_state_def prf_laws_output [OF assms(1,2)])
  show ?thesis
    unfolding next_round_def if_P [OF True]
    by (simp only: 4 3 2 prod.case run_apply.simps apply_prf_counter_block [OF assms(1,2) n1] bool.case refl if_True 1)
next
  case False
  then show ?thesis by (simp add: next_round_def pp_state_def prf_laws_output [OF assms(1,2)])
qed

lemma next_round_end:
  assumes "prf_laws P" "prf_accepts P k"
  shows "fst (next_round (pp_state P k s 254 (prf_block_size P))) = False"
  using length_rfc_block [OF assms, of s 254] by (simp add: pp_state_def next_round_def prf_append_def prf_laws_output [OF assms])

text \<open>A request that can be served is served with the next octets; one that cannot is refused.\<close>

lemma plus_loop_at:
  assumes "prf_laws P" "prf_accepts P k"
  defines "B \<equiv> prf_block_size P"
  assumes "pp_at P k s m pp"
  shows "\<exists>pp'. plus_loop len w pp = Some (if m + len \<le> 255 * B then Some (w @ slice m len (rfc_prf_plus (prf_fun P) k s)) else None, pp')
    \<and> (m + len \<le> 255 * B \<longrightarrow> pp_at P k s (m + len) pp')"
  using assms(4)
proof (induction len arbitrary: m pp w rule: less_induct)
  case (less len)
  obtain n u where n: "n < 255" "u \<le> B" "m = n * B + u" "pp = pp_state P k s n u"
    using less.prems unfolding pp_at_def B_def by blast
  have "n * B \<le> 254 * B" using n(1) by (intro mult_le_mono1) simp
  then have m: "m \<le> 255 * B" using n(2,3) by linarith
  have B: "0 < B" using assms(1) by (simp add: prf_laws_def B_def)
  consider "len = 0" | "len > 0" "m = 255 * B" | "len > 0" "m < 255 * B" using m by linarith
  then show ?case
  proof cases
    case 1
    then show ?thesis using m less.prems by (simp add: plus_loop.simps slice_def)
  next
    case 2
    then have "(254 - n) * B + (B - u) = 0" using n by (simp add: diff_mult_distrib)
    then have "(254 - n) * B = 0" "B - u = 0" by simp_all
    then have "n = 254" "u = B" using n(1,2) B by simp_all
    then have "fst (next_round pp) = False" using next_round_end [OF assms(1,2), of s] n(4) by (simp add: B_def)
    then show ?thesis using 2 by (cases "next_round pp") (simp add: plus_loop.simps)
  next
    case 3
    define n1 u1 where "n1 = (if u = B then Suc n else n)" and "u1 = (if u = B then 0 else u)"
    have r: "next_round pp = (True, pp_state P k s n1 u1)"
      using next_round_at [OF assms(1,2) n(1)] n 3 by (simp add: n1_def u1_def B_def)
    have n1: "n1 < 255" "u1 < B" "m = n1 * B + u1" using n 3 B by (auto simp: n1_def u1_def)
    define r where "r = min len (B - u1)"
    have r: "0 < r" "r \<le> len" "u1 + r \<le> B" using n1 3 by (auto simp: r_def)
    have b: "pp_buffer (pp_state P k s n1 u1) = rfc_block (prf_fun P) k s (Suc n1)" "pp_used (pp_state P k s n1 u1) = u1"
        "(pp_state P k s n1 u1)\<lparr>pp_used := x\<rparr> = pp_state P k s n1 x" for x
      by (simp_all add: pp_state_def)
    have "pp_at P k s (m + r) (pp_state P k s n1 (u1 + r))"
      using pp_atI [of n1 "u1 + r" P k s] n1 r(3) by (simp add: B_def add.assoc)
    from less.IH [OF _ this, of "len - r" "w @ slice m r (rfc_prf_plus (prf_fun P) k s)"] r
    obtain pp' where pp': "plus_loop (len - r) (w @ slice m r (rfc_prf_plus (prf_fun P) k s)) (pp_state P k s n1 (u1 + r))
        = Some (if m + len \<le> 255 * B then Some (w @ slice m len (rfc_prf_plus (prf_fun P) k s)) else None, pp')"
      "m + len \<le> 255 * B \<longrightarrow> pp_at P k s (m + len) pp'"
      by (auto simp: slice_append)
    have "slice m r (rfc_prf_plus (prf_fun P) k s) = take r (drop u1 (rfc_block (prf_fun P) k s (Suc n1)))"
      using slice_rfc_prf_plus [OF assms(1,2) n1(1), of u1 r s] r(3) n1(3) by (simp add: B_def slice_def)
    moreover have "plus_loop len w pp = plus_loop (len - r) (w @ take r (drop u1 (rfc_block (prf_fun P) k s (Suc n1)))) (pp_state P k s n1 (u1 + r))"
      using \<open>next_round pp = _\<close> 3 
      by (subst plus_loop.simps) (simp add: b length_rfc_block [OF assms(1,2)] r_def [unfolded B_def] B_def Let_def del: rfc_block.simps)
    ultimately show ?thesis using pp' by simp
  qed
qed

lemma allocate_bytes_at:
  assumes "prf_laws P" "prf_accepts P k" "pp_at P k s m pp" "m + len \<le> 255 * prf_block_size P"
  obtains pp' where "allocate_bytes len pp = Inr (Some (slice m len (rfc_prf_plus (prf_fun P) k s)), pp')" "pp_at P k s (m + len) pp'"
  using plus_loop_at [OF assms(1-3), of len "[]"] assms(4) that by (auto simp: allocate_bytes_def)

lemma allocate_bytes_end:
  assumes "prf_laws P" "prf_accepts P k" "pp_at P k s m pp" "m + len > 255 * prf_block_size P"
  obtains pp' where "allocate_bytes len pp = Inr (None, pp')"
  using plus_loop_at [OF assms(1-3), of len "[]"] assms(4) that by (auto simp: allocate_bytes_def)

section \<open>The expansion as a whole\<close>

text \<open>A sequence of requests: what they give, \<open>None\<close> if one of them is refused.\<close>

fun plus_run :: "nat list \<Rightarrow> prf_plus \<Rightarrow> chunk list option res" where
  "plus_run [] pp = Inr (Some [])"
| "plus_run (n # ns) pp =
     andThen (allocate_bytes n pp) (\<lambda>(r, pp1). case r of
         None \<Rightarrow> Inr None
       | Some c \<Rightarrow> andThen (plus_run ns pp1) (\<lambda>cs. Inr (map_option ((#) c) cs)))"

fun pieces :: "nat \<Rightarrow> nat list \<Rightarrow> chunk \<Rightarrow> chunk list" where
  "pieces m [] c = []"
| "pieces m (n # ns) c = slice m n c # pieces (m + n) ns c"

lemma plus_run_at:
  assumes "prf_laws P" "prf_accepts P k" "pp_at P k s m pp"
  shows "m \<le> 255 * prf_block_size P \<Longrightarrow> plus_run ns pp =
    Inr (if m + sum_list ns \<le> 255 * prf_block_size P then Some (pieces m ns (rfc_prf_plus (prf_fun P) k s)) else None)"
  using assms(3)
proof (induction ns arbitrary: m pp)
  case (Cons n ns)
  show ?case
  proof (cases "m + n \<le> 255 * prf_block_size P")
    case True
    obtain pp' where "allocate_bytes n pp = Inr (Some (slice m n (rfc_prf_plus (prf_fun P) k s)), pp')" "pp_at P k s (m + n) pp'"
      using allocate_bytes_at [OF assms(1,2) Cons.prems(2) True] .
    then show ?thesis using Cons.IH [OF True] by (simp add: add.assoc)
  next
    case False
    then have "m + n > 255 * prf_block_size P" by simp
    then obtain pp' where "allocate_bytes n pp = Inr (None, pp')" using allocate_bytes_end [OF assms(1,2) Cons.prems(2)] by blast
    then show ?thesis using False by simp
  qed
qed simp

text \<open>
  C15. The expansion hands out the octets of prf+ in order: however they are divided into requests,
  the answers are the consecutive parts of T1 | T2 | ... | T255, and as soon as more octets were
  asked for than those 255 blocks have, the request is refused; no request runs for ever.
\<close>

theorem prf_plus_expansion:
  assumes "prf_laws P" "prf_accepts P k"
  shows "\<exists>pp p. prf_plus_create \<lparr>pf_alg = P, pf_key = k, pf_pending = []\<rparr> True s = (Some pp, p)
    \<and> plus_run ns pp = Inr (if sum_list ns \<le> 255 * prf_block_size P then Some (pieces 0 ns (rfc_prf_plus (prf_fun P) k s)) else None)"
  using prf_plus_create_at [OF assms, of s] plus_run_at [OF assms, of s 0] by auto

definition sample_prf :: prf_alg where
  "sample_prf = \<lparr>prf_accepts = (\<lambda>k. True), prf_appends = (\<lambda>k d. True),
     prf_output = (\<lambda>k d. Some (take 4 (rev d @ k @ [1, 2, 3, 4]))), prf_block_size = 4, prf_key_size = 4\<rparr>"

lemma sample_prf_laws: "prf_laws sample_prf" "prf_accepts sample_prf k"
  by (auto simp: prf_laws_def sample_prf_def)

theorem prf_plus_expansion_witness:
  "\<exists>pp p. prf_plus_create \<lparr>pf_alg = sample_prf, pf_key = [7], pf_pending = []\<rparr> True [9] = (Some pp, p)
    \<and> plus_run [3, 0, 6] pp = Inr (Some (pieces 0 [3, 0, 6] (rfc_prf_plus (prf_fun sample_prf) [7] [9]))) \<and> plus_run [1000, 21] pp = Inr None"
  using prf_plus_expansion [OF sample_prf_laws, of "[7]" "[9]" "[3, 0, 6]"] prf_plus_expansion [OF sample_prf_laws, of "[7]" "[9]" "[1000, 21]"]
  by (auto simp: sample_prf_def)

end
