(* ===== verification/Iv_Gen.thy ===== *)
theory Iv_Gen
  imports Prelude
begin

text \<open>
  Generators of initialisation vectors, \<open>libstrongswan/crypto/iv\<close>: random, sequential and empty
  vectors.  Random numbers are a parameter, a function from the number of the call and the
  requested size to the octets; a call that fails gives \<open>None\<close>.
\<close>

type_synonym rng = "nat \<Rightarrow> nat \<Rightarrow> chunk option"

definition rng_get_bytes :: "nat \<Rightarrow> rng \<Rightarrow> chunk option \<times> rng" where
  "rng_get_bytes n this = (this 0 n, \<lambda>k. this (Suc k))"

section \<open>Sequential vectors\<close>

definition SEQ_IV_INIT_STATE :: "64 word" where "SEQ_IV_INIT_STATE = NOT 0"
definition SEQ_IV_HIGH_MASK :: "64 word" where "SEQ_IV_HIGH_MASK = push_bit 63 1"

record iv_gen_seq =
  prevl :: "64 word"
  prevh :: "64 word"
  iv_salt :: "chunk option"

definition iv_gen_seq_create :: "rng option \<Rightarrow> iv_gen_seq" where
  "iv_gen_seq_create rng =
     \<lparr>prevl = SEQ_IV_INIT_STATE, prevh = SEQ_IV_INIT_STATE,
      iv_salt = (case rng of None \<Rightarrow> None | Some r \<Rightarrow> fst (rng_get_bytes 8 r))\<rparr>"

definition seq_get_iv :: "64 word \<Rightarrow> nat \<Rightarrow> iv_gen_seq \<Rightarrow> chunk option \<times> iv_gen_seq" where
  "seq_get_iv seq0 sz this =
     (case iv_salt this of
        None \<Rightarrow> (None, this)
      | Some salt \<Rightarrow>
          if sz < 8 then (None, this)
          else
            let low = prevl this \<noteq> SEQ_IV_INIT_STATE \<and> seq0 \<le> prevl this;
                seq = (if low then seq0 OR SEQ_IV_HIGH_MASK else seq0) in
            if low \<and> prevh this \<noteq> SEQ_IV_INIT_STATE \<and> seq \<le> prevh this then (None, this)
            else if seq OR SEQ_IV_HIGH_MASK = SEQ_IV_INIT_STATE then (None, this)
            else
              let t = (if seq AND SEQ_IV_HIGH_MASK \<noteq> 0 then this\<lparr>prevh := seq\<rparr> else this\<lparr>prevl := seq\<rparr>);
                  iv = map2 (XOR) (be_bytes 8 seq) salt;
                  len = min sz 8 in
              (Some (replicate (sz - len) 0 @ drop (8 - len) iv), t))"

section \<open>The choice of the generator\<close>

abbreviation ENCR_DES_IV64 :: "16 word" where "ENCR_DES_IV64 \<equiv> 1"
abbreviation ENCR_DES :: "16 word" where "ENCR_DES \<equiv> 2"
abbreviation ENCR_3DES :: "16 word" where "ENCR_3DES \<equiv> 3"
abbreviation ENCR_RC5 :: "16 word" where "ENCR_RC5 \<equiv> 4"
abbreviation ENCR_IDEA :: "16 word" where "ENCR_IDEA \<equiv> 5"
abbreviation ENCR_CAST :: "16 word" where "ENCR_CAST \<equiv> 6"
abbreviation ENCR_BLOWFISH :: "16 word" where "ENCR_BLOWFISH \<equiv> 7"
abbreviation ENCR_3IDEA :: "16 word" where "ENCR_3IDEA \<equiv> 8"
abbreviation ENCR_DES_IV32 :: "16 word" where "ENCR_DES_IV32 \<equiv> 9"
abbreviation ENCR_NULL :: "16 word" where "ENCR_NULL \<equiv> 11"
abbreviation ENCR_AES_CBC :: "16 word" where "ENCR_AES_CBC \<equiv> 12"
abbreviation ENCR_AES_CTR :: "16 word" where "ENCR_AES_CTR \<equiv> 13"
abbreviation ENCR_AES_CCM_ICV8 :: "16 word" where "ENCR_AES_CCM_ICV8 \<equiv> 14"
abbreviation ENCR_AES_CCM_ICV12 :: "16 word" where "ENCR_AES_CCM_ICV12 \<equiv> 15"
abbreviation ENCR_AES_CCM_ICV16 :: "16 word" where "ENCR_AES_CCM_ICV16 \<equiv> 16"
abbreviation ENCR_AES_GCM_ICV8 :: "16 word" where "ENCR_AES_GCM_ICV8 \<equiv> 18"
abbreviation ENCR_AES_GCM_ICV12 :: "16 word" where "ENCR_AES_GCM_ICV12 \<equiv> 19"
abbreviation ENCR_AES_GCM_ICV16 :: "16 word" where "ENCR_AES_GCM_ICV16 \<equiv> 20"
abbreviation ENCR_NULL_AUTH_AES_GMAC :: "16 word" where "ENCR_NULL_AUTH_AES_GMAC \<equiv> 21"
abbreviation ENCR_CAMELLIA_CBC :: "16 word" where "ENCR_CAMELLIA_CBC \<equiv> 23"
abbreviation ENCR_CAMELLIA_CTR :: "16 word" where "ENCR_CAMELLIA_CTR \<equiv> 24"
abbreviation ENCR_CAMELLIA_CCM_ICV8 :: "16 word" where "ENCR_CAMELLIA_CCM_ICV8 \<equiv> 25"
abbreviation ENCR_CAMELLIA_CCM_ICV12 :: "16 word" where "ENCR_CAMELLIA_CCM_ICV12 \<equiv> 26"
abbreviation ENCR_CAMELLIA_CCM_ICV16 :: "16 word" where "ENCR_CAMELLIA_CCM_ICV16 \<equiv> 27"
abbreviation ENCR_CHACHA20_POLY1305 :: "16 word" where "ENCR_CHACHA20_POLY1305 \<equiv> 28"
abbreviation ENCR_SERPENT_CBC :: "16 word" where "ENCR_SERPENT_CBC \<equiv> 1026"
abbreviation ENCR_TWOFISH_CBC :: "16 word" where "ENCR_TWOFISH_CBC \<equiv> 1027"
abbreviation ENCR_RC2_CBC :: "16 word" where "ENCR_RC2_CBC \<equiv> 1028"

definition encryption_algorithm_is_aead :: "16 word \<Rightarrow> bool" where
  "encryption_algorithm_is_aead alg \<longleftrightarrow> alg \<in>
     {ENCR_AES_CCM_ICV8, ENCR_AES_CCM_ICV12, ENCR_AES_CCM_ICV16, ENCR_AES_GCM_ICV8, ENCR_AES_GCM_ICV12,
      ENCR_AES_GCM_ICV16, ENCR_NULL_AUTH_AES_GMAC, ENCR_CAMELLIA_CCM_ICV8, ENCR_CAMELLIA_CCM_ICV12,
      ENCR_CAMELLIA_CCM_ICV16, ENCR_CHACHA20_POLY1305}"

text \<open>A generator of random vectors may lack its source (\<open>None\<close>).\<close>

datatype iv_gen = Iv_Rand "rng option" | Iv_Seq iv_gen_seq | Iv_Null

definition iv_gen_create_for_alg :: "rng option \<Rightarrow> 16 word \<Rightarrow> iv_gen option" where
  "iv_gen_create_for_alg rng alg =
     (if alg \<in> {ENCR_DES, ENCR_3DES, ENCR_RC5, ENCR_IDEA, ENCR_CAST, ENCR_BLOWFISH, ENCR_3IDEA, ENCR_AES_CBC,
                ENCR_CAMELLIA_CBC, ENCR_SERPENT_CBC, ENCR_TWOFISH_CBC, ENCR_RC2_CBC} then Some (Iv_Rand rng)
      else if alg \<in> {ENCR_AES_CTR, ENCR_AES_CCM_ICV8, ENCR_AES_CCM_ICV12, ENCR_AES_CCM_ICV16, ENCR_AES_GCM_ICV8,
                     ENCR_AES_GCM_ICV12, ENCR_AES_GCM_ICV16, ENCR_CAMELLIA_CTR, ENCR_CAMELLIA_CCM_ICV8,
                     ENCR_CAMELLIA_CCM_ICV12, ENCR_CAMELLIA_CCM_ICV16, ENCR_CHACHA20_POLY1305,
                     ENCR_NULL_AUTH_AES_GMAC} then Some (Iv_Seq (iv_gen_seq_create rng))
      else if alg = ENCR_NULL then Some Iv_Null
      else None)"

fun get_iv :: "64 word \<Rightarrow> nat \<Rightarrow> iv_gen \<Rightarrow> chunk option \<times> iv_gen" where
  "get_iv seq sz (Iv_Rand None) = (None, Iv_Rand None)"
| "get_iv seq sz (Iv_Rand (Some r)) = (let (b, r1) = rng_get_bytes sz r in (b, Iv_Rand (Some r1)))"
| "get_iv seq sz (Iv_Seq g) = (let (b, g1) = seq_get_iv seq sz g in (b, Iv_Seq g1))"
| "get_iv seq sz Iv_Null = (if sz = 0 then Some [] else None, Iv_Null)"

section \<open>Uniqueness\<close>

text \<open>The vectors a sequence of calls gives, and the numbers they were made from.\<close>

fun iv_run :: "(64 word \<times> nat) list \<Rightarrow> iv_gen_seq \<Rightarrow> chunk list" where
  "iv_run [] g = []"
| "iv_run ((seq, sz) # cs) g =
     (case seq_get_iv seq sz g of (None, g1) \<Rightarrow> iv_run cs g1 | (Some iv, g1) \<Rightarrow> iv # iv_run cs g1)"

definition iv_of :: "chunk \<Rightarrow> nat \<Rightarrow> 64 word \<Rightarrow> chunk" where
  "iv_of salt sz seq = replicate (sz - 8) 0 @ map2 (XOR) (be_bytes 8 seq) salt"

lemma high_bit: "s AND SEQ_IV_HIGH_MASK \<noteq> 0 \<longleftrightarrow> bit s 63" "bit (s OR SEQ_IV_HIGH_MASK) 63"
proof -
  show "s AND SEQ_IV_HIGH_MASK \<noteq> 0 \<longleftrightarrow> bit s 63"
    unfolding SEQ_IV_HIGH_MASK_def push_bit_of_1 and_exp_eq_0_iff_not_bit by blast
  show "bit (s OR SEQ_IV_HIGH_MASK) 63" by (simp add: SEQ_IV_HIGH_MASK_def bit_simps)
qed

text \<open>
  The numbers used so far: none in a half whose last number is still the initial one, otherwise
  none above it.
\<close>

definition seq_inv :: "64 word set \<Rightarrow> iv_gen_seq \<Rightarrow> bool" where
  "seq_inv used g \<longleftrightarrow>
     (\<forall>s\<in>used. if bit s 63 then prevh g \<noteq> SEQ_IV_INIT_STATE \<and> s \<le> prevh g else prevl g \<noteq> SEQ_IV_INIT_STATE \<and> s \<le> prevl g)"

lemma seq_get_iv_eq:
  assumes "iv_salt g = Some salt"
  shows "seq_get_iv seq sz g =
    (let low = prevl g \<noteq> SEQ_IV_INIT_STATE \<and> seq \<le> prevl g; s = (if low then seq OR SEQ_IV_HIGH_MASK else seq) in
     if sz < 8 \<or> low \<and> prevh g \<noteq> SEQ_IV_INIT_STATE \<and> s \<le> prevh g \<or> s OR SEQ_IV_HIGH_MASK = SEQ_IV_INIT_STATE then (None, g)
     else (Some (iv_of salt sz s), if bit s 63 then g\<lparr>prevh := s\<rparr> else g\<lparr>prevl := s\<rparr>))"
proof -
  define low where "low \<longleftrightarrow> prevl g \<noteq> SEQ_IV_INIT_STATE \<and> seq \<le> prevl g"
  define s where "s = (if low then seq OR SEQ_IV_HIGH_MASK else seq)"
  have "sz < 8 \<or> min sz 8 = 8" by auto
  then show ?thesis
    unfolding seq_get_iv_def Let_def low_def [symmetric] s_def [symmetric] assms iv_of_def high_bit(1)
    by (elim disjE) (simp_all only: option.case if_True if_False simp_thms if_distrib [of "Pair _"] cong: if_cong, simp_all)
qed

lemma seq_get_iv_fresh:
  assumes "seq_inv used g" "iv_salt g = Some salt" "length salt = 8" "\<not> bit seq 63"
    and "seq_get_iv seq sz g = (r, g1)"
  shows "case r of None \<Rightarrow> g1 = g | Some iv \<Rightarrow> 8 \<le> sz \<and> iv_salt g1 = Some salt
    \<and> (\<exists>s. s \<notin> used \<and> iv = iv_of salt sz s \<and> seq_inv (insert s used) g1)"
proof -
  define low where "low \<longleftrightarrow> prevl g \<noteq> SEQ_IV_INIT_STATE \<and> seq \<le> prevl g"
  define s where "s = (if low then seq OR SEQ_IV_HIGH_MASK else seq)"
  have b: "bit s 63 \<longleftrightarrow> low" using assms(4) high_bit(2) by (simp add: s_def)
  have e: "seq_get_iv seq sz g =
    (if sz < 8 \<or> low \<and> prevh g \<noteq> SEQ_IV_INIT_STATE \<and> s \<le> prevh g \<or> s OR SEQ_IV_HIGH_MASK = SEQ_IV_INIT_STATE then (None, g)
     else (Some (iv_of salt sz s), if low then g\<lparr>prevh := s\<rparr> else g\<lparr>prevl := s\<rparr>))"
    unfolding seq_get_iv_eq [OF assms(2)] Let_def low_def [symmetric] s_def [symmetric] b ..
  have ne: "s = SEQ_IV_INIT_STATE \<Longrightarrow> s OR SEQ_IV_HIGH_MASK = SEQ_IV_INIT_STATE" by (simp add: SEQ_IV_INIT_STATE_def)
  have "s \<notin> used \<and> seq_inv (insert s used) (if low then g\<lparr>prevh := s\<rparr> else g\<lparr>prevl := s\<rparr>)"
    if "\<not> (low \<and> prevh g \<noteq> SEQ_IV_INIT_STATE \<and> s \<le> prevh g)" "s \<noteq> SEQ_IV_INIT_STATE"
  proof (cases low)
    case True
    with that have p: "prevh g = SEQ_IV_INIT_STATE \<or> prevh g < s" by auto
    then have "s \<notin> used" using assms(1) b True by (fastforce simp: seq_inv_def)
    moreover have "t \<le> s" if "t \<in> used" "bit t 63" for t
      using assms(1) that p unfolding seq_inv_def by fastforce
    ultimately show ?thesis using assms(1) b True that(2) by (simp add: seq_inv_def)
  next
    case False
    then have p: "prevl g = SEQ_IV_INIT_STATE \<or> prevl g < s" by (auto simp: low_def s_def)
    then have "s \<notin> used" using assms(1) b False by (fastforce simp: seq_inv_def)
    moreover have "t \<le> s" if "t \<in> used" "\<not> bit t 63" for t
      using assms(1) that p unfolding seq_inv_def by fastforce
    ultimately show ?thesis using assms(1) b False that(2) by (simp add: seq_inv_def)
  qed
  note fresh = this
  show ?thesis
  proof (cases "sz < 8 \<or> low \<and> prevh g \<noteq> SEQ_IV_INIT_STATE \<and> s \<le> prevh g \<or> s OR SEQ_IV_HIGH_MASK = SEQ_IV_INIT_STATE")
    case True
    then show ?thesis using assms(5) unfolding e by auto
  next
    case False
    then have r: "r = Some (iv_of salt sz s)" "g1 = (if low then g\<lparr>prevh := s\<rparr> else g\<lparr>prevl := s\<rparr>)"
      using assms(5) unfolding e by auto
    have "8 \<le> sz" "iv_salt g1 = Some salt" using False assms(2) by (auto simp: r(2))
    moreover have "\<not> (low \<and> prevh g \<noteq> SEQ_IV_INIT_STATE \<and> s \<le> prevh g)" "s \<noteq> SEQ_IV_INIT_STATE" using False ne by blast+
    note fresh [OF this, folded r(2)]
    ultimately show ?thesis unfolding r(1) option.case by (intro conjI exI [of _ s]) simp_all
  qed
qed

lemma be_bytes_inj:
  assumes "be_bytes 8 (a :: 64 word) = be_bytes 8 b"
  shows "a = b"
proof -
  have "be_word (be_bytes 8 w) = w" for w :: "64 word" by (rule be_word_be_bytes_full) simp
  then show ?thesis using assms by metis
qed

lemma map2_xor_inj:
  fixes xs :: chunk
  assumes "map2 (XOR) xs ss = map2 (XOR) ys ss" "length xs = length ss" "length ys = length ss"
  shows "xs = ys"
proof (rule nth_equalityI)
  fix i assume i: "i < length xs"
  have "map2 (XOR) xs ss ! i = map2 (XOR) ys ss ! i" using assms(1) by simp
  then have "(xs ! i XOR ss ! i) XOR ss ! i = (ys ! i XOR ss ! i) XOR ss ! i" using i assms(2,3) by simp
  then show "xs ! i = ys ! i" by (simp add: xor.assoc)
qed (use assms in simp)

lemma iv_of_inj:
  assumes "length salt = 8" "iv_of salt sz s = iv_of salt sz' s'" "8 \<le> sz" "8 \<le> sz'"
  shows "s = s'"
proof -
  have "sz - 8 = sz' - 8" using arg_cong [OF assms(2), of length] assms(1) by (simp add: iv_of_def)
  then have "map2 (XOR) (be_bytes 8 s) salt = map2 (XOR) (be_bytes 8 s') salt" using assms(2) by (simp add: iv_of_def)
  then show ?thesis using map2_xor_inj be_bytes_inj assms(1) by (metis length_be_bytes)
qed

lemma iv_run_distinct:
  assumes "iv_salt g = Some salt" "length salt = 8" "\<forall>(seq, sz) \<in> set calls. \<not> bit seq 63" "seq_inv used g"
  shows "distinct (iv_run calls g) \<and> (\<forall>s\<in>used. \<forall>sz\<ge>8. iv_of salt sz s \<notin> set (iv_run calls g))"
  using assms(1,3,4)
proof (induction calls arbitrary: g used)
  case (Cons c calls)
  obtain seq sz where c: "c = (seq, sz)" by force
  obtain r g1 where r: "seq_get_iv seq sz g = (r, g1)" by force
  have "\<not> bit seq 63" using Cons.prems(2) c by simp
  note f = seq_get_iv_fresh [OF Cons.prems(3,1) assms(2) this r]
  show ?case
  proof (cases r)
    case None
    then show ?thesis using Cons f r by (simp add: c)
  next
    case (Some iv)
    then obtain s where s: "8 \<le> sz" "iv_salt g1 = Some salt" "s \<notin> used" "iv = iv_of salt sz s" "seq_inv (insert s used) g1"
      using f by auto
    have IH: "distinct (iv_run calls g1)" "\<forall>s\<in>insert s used. \<forall>sz\<ge>8. iv_of salt sz s \<notin> set (iv_run calls g1)"
      using Cons.IH [OF s(2) _ s(5)] Cons.prems(2) by simp_all
    have "iv_of salt sz' s' \<noteq> iv" if "s' \<in> used" "8 \<le> sz'" for s' sz'
      using iv_of_inj [OF assms(2), of sz' s' sz s] that s by blast
    then show ?thesis using IH s(1,4) Some r by (auto simp: c)
  qed
qed simp

text \<open>
  C36. No initialisation vector is given out twice by a sequential generator, whatever the sequence
  numbers and sizes it is asked for are, repeated ones included, as long as the sequence numbers
  are below \<open>2^63\<close>; and with \<open>2^63\<close> allowed, three calls suffice for a repetition.
\<close>

theorem sequential_ivs_never_repeat:
  "(length salt = 8 \<and> rng 0 8 = Some salt \<and> (\<forall>(seq, sz) \<in> set calls. \<not> bit seq 63) \<longrightarrow>
      distinct (iv_run calls (iv_gen_seq_create (Some rng))))
   \<and> (rng 0 8 = Some salt \<longrightarrow> (\<exists>iv1 iv2. iv_run [(0, 8), (0, 8), (2 ^ 63, 8)] (iv_gen_seq_create (Some rng)) = [iv1, iv2, iv2]))"
proof (intro conjI impI)
  assume "length salt = 8 \<and> rng 0 8 = Some salt \<and> (\<forall>(seq, sz) \<in> set calls. \<not> bit seq 63)"
  then show "distinct (iv_run calls (iv_gen_seq_create (Some rng)))"
    using iv_run_distinct [of "iv_gen_seq_create (Some rng)" salt calls "{}"]
    by (simp add: iv_gen_seq_create_def rng_get_bytes_def seq_inv_def)
next
  assume "rng 0 8 = Some salt"
  then show "\<exists>iv1 iv2. iv_run [(0, 8), (0, 8), (2 ^ 63, 8)] (iv_gen_seq_create (Some rng)) = [iv1, iv2, iv2]"
    by (simp add: iv_gen_seq_create_def rng_get_bytes_def seq_get_iv_def SEQ_IV_INIT_STATE_def SEQ_IV_HIGH_MASK_def Let_def)
qed

theorem sequential_ivs_never_repeat_witness:
  "distinct (iv_run [(3, 8), (3, 12), (4, 8), (4, 8)] (iv_gen_seq_create (Some (\<lambda>k n. Some (replicate n 7)))))"
  using sequential_ivs_never_repeat [of "replicate 8 7" "\<lambda>k n. Some (replicate n 7)" "[(3, 8), (3, 12), (4, 8), (4, 8)]"]
  by simp

end
