(* ===== verification/Aead.thy ===== *)
theory Aead
  imports Iv_Gen
begin

text \<open>
  Authenticated encryption as IKE uses it: \<open>libstrongswan/crypto/aead.c\<close>, a crypter and a signer
  combined, and from \<open>libcharon/encoding/payloads/encrypted_payload.c\<close> the encryption of the
  content of an encrypted payload and the encrypted fragment payload.  Crypters, signers and
  combined algorithms are plugins and parameters; a call that fails gives \<open>None\<close>.
\<close>

section \<open>Crypters, signers and combined algorithms\<close>

record crypter_alg =
  ca_key_size :: nat
  ca_block_size :: nat
  ca_iv_size :: nat
  ca_set_key :: "chunk \<Rightarrow> bool"
  ca_encrypt :: "chunk \<Rightarrow> chunk \<Rightarrow> chunk \<Rightarrow> chunk option"
  ca_decrypt :: "chunk \<Rightarrow> chunk \<Rightarrow> chunk \<Rightarrow> chunk option"

record crypter_t =
  ct_alg :: crypter_alg
  ct_key :: chunk

record signer_alg =
  sa_key_size :: nat
  sa_block_size :: nat
  sa_set_key :: "chunk \<Rightarrow> bool"
  sa_appends :: "chunk \<Rightarrow> chunk \<Rightarrow> bool"
  sa_sign :: "chunk \<Rightarrow> chunk \<Rightarrow> chunk option"

record signer_t =
  st_alg :: signer_alg
  st_key :: chunk
  st_pending :: chunk

record aead_alg =
  aa_key_size :: nat
  aa_block_size :: nat
  aa_iv_size :: nat
  aa_icv_size :: nat
  aa_set_key :: "chunk \<Rightarrow> bool"
  aa_encrypt :: "chunk \<Rightarrow> chunk \<Rightarrow> chunk \<Rightarrow> chunk \<Rightarrow> chunk option"
  aa_decrypt :: "chunk \<Rightarrow> chunk \<Rightarrow> chunk \<Rightarrow> chunk \<Rightarrow> chunk option"

text \<open>
  Like a \<open>prf_t\<close>, a signer collects the data of calls without an output buffer until a signature
  is asked for or verified.
\<close>

definition sg_append :: "chunk \<Rightarrow> signer_t \<Rightarrow> bool \<times> signer_t" where
  "sg_append d this =
     (if sa_appends (st_alg this) (st_key this) (st_pending this @ d)
      then (True, this\<lparr>st_pending := st_pending this @ d\<rparr>) else (False, this))"

definition sg_signature :: "chunk \<Rightarrow> signer_t \<Rightarrow> chunk option \<times> signer_t" where
  "sg_signature d this =
     (case sa_sign (st_alg this) (st_key this) (st_pending this @ d) of
        None \<Rightarrow> (None, this)
      | Some sig \<Rightarrow> (Some sig, this\<lparr>st_pending := []\<rparr>))"

definition sg_verify :: "chunk \<Rightarrow> chunk \<Rightarrow> signer_t \<Rightarrow> bool \<times> signer_t" where
  "sg_verify d sig this = (case sg_signature d this of (r, t) \<Rightarrow> (r = Some sig, t))"

section \<open>The traditional combination\<close>

record private_aead =
  pa_crypter :: crypter_t
  pa_signer :: signer_t
  pa_iv_gen :: iv_gen

text \<open>The two calls that authenticate the associated data and the vector.\<close>

definition sign_prefix :: "chunk \<Rightarrow> chunk \<Rightarrow> private_aead \<Rightarrow> bool \<times> private_aead" where
  "sign_prefix assoc iv this =
     (case sg_append assoc (pa_signer this) of
        (False, g) \<Rightarrow> (False, this\<lparr>pa_signer := g\<rparr>)
      | (True, g) \<Rightarrow> (case sg_append iv g of (ok, g1) \<Rightarrow> (ok, this\<lparr>pa_signer := g1\<rparr>)))"

text \<open>
  Encryption in place: the result is what the buffer of the plain text and the room for the ICV
  behind it hold.  With an output argument the vector comes first.
\<close>

definition pa_encrypt :: "chunk \<Rightarrow> chunk \<Rightarrow> chunk \<Rightarrow> private_aead \<Rightarrow> chunk option \<times> private_aead" where
  "pa_encrypt plain assoc iv this =
     (case sign_prefix assoc iv this of
        (False, t) \<Rightarrow> (None, t)
      | (True, t) \<Rightarrow>
          (case ca_encrypt (ct_alg (pa_crypter t)) (ct_key (pa_crypter t)) plain iv of
             None \<Rightarrow> (None, t)
           | Some encr \<Rightarrow>
               (case sg_signature encr (pa_signer t) of
                  (r, g) \<Rightarrow> (map_option (\<lambda>sig. encr @ sig) r, t\<lparr>pa_signer := g\<rparr>))))"

definition pa_encrypt_alloc :: "chunk \<Rightarrow> chunk \<Rightarrow> chunk \<Rightarrow> private_aead \<Rightarrow> chunk option \<times> private_aead" where
  "pa_encrypt_alloc plain assoc iv this = (case pa_encrypt plain assoc iv this of (r, t) \<Rightarrow> (map_option (\<lambda>c. iv @ c) r, t))"

definition pa_decrypt :: "chunk \<Rightarrow> chunk \<Rightarrow> chunk \<Rightarrow> private_aead \<Rightarrow> chunk option \<times> private_aead" where
  "pa_decrypt encrypted assoc iv this =
     (let bs = ca_block_size (ct_alg (pa_crypter this)); n = sa_block_size (st_alg (pa_signer this)) in
      if n > length encrypted \<or> (length encrypted - n) mod bs \<noteq> 0 then (None, this)
      else
        let encr = take (length encrypted - n) encrypted; sig = drop (length encrypted - n) encrypted in
        (case sign_prefix assoc iv this of
           (False, t) \<Rightarrow> (None, t)
         | (True, t) \<Rightarrow>
             (case sg_verify encr sig (pa_signer t) of
                (False, g) \<Rightarrow> (None, t\<lparr>pa_signer := g\<rparr>)
              | (True, g) \<Rightarrow>
                  (ca_decrypt (ct_alg (pa_crypter t)) (ct_key (pa_crypter t)) encr iv, t\<lparr>pa_signer := g\<rparr>))))"

definition pa_key_size :: "private_aead \<Rightarrow> nat" where
  "pa_key_size this = ca_key_size (ct_alg (pa_crypter this)) + sa_key_size (st_alg (pa_signer this))"

definition pa_set_key :: "chunk \<Rightarrow> private_aead \<Rightarrow> bool \<times> private_aead" where
  "pa_set_key key this =
     (let n = sa_key_size (st_alg (pa_signer this));
          sig = take n key; enc = take (ca_key_size (ct_alg (pa_crypter this))) (drop n key) in
      if \<not> sa_set_key (st_alg (pa_signer this)) sig then (False, this)
      else
        let t = this\<lparr>pa_signer := (pa_signer this)\<lparr>st_key := sig, st_pending := []\<rparr>\<rparr> in
        if \<not> ca_set_key (ct_alg (pa_crypter t)) enc then (False, t)
        else (True, t\<lparr>pa_crypter := (pa_crypter t)\<lparr>ct_key := enc\<rparr>\<rparr>))"

section \<open>The interface\<close>

record combined_aead =
  co_alg :: aead_alg
  co_key :: chunk
  co_iv_gen :: iv_gen

datatype aead = Traditional private_aead | Combined combined_aead

definition aead_create :: "crypter_t \<Rightarrow> signer_t \<Rightarrow> iv_gen \<Rightarrow> aead" where
  "aead_create crypter signer ivg = Traditional \<lparr>pa_crypter = crypter, pa_signer = signer, pa_iv_gen = ivg\<rparr>"

fun aead_block_size :: "aead \<Rightarrow> nat" where
  "aead_block_size (Traditional a) = ca_block_size (ct_alg (pa_crypter a))"
| "aead_block_size (Combined a) = aa_block_size (co_alg a)"

fun aead_icv_size :: "aead \<Rightarrow> nat" where
  "aead_icv_size (Traditional a) = sa_block_size (st_alg (pa_signer a))"
| "aead_icv_size (Combined a) = aa_icv_size (co_alg a)"

fun aead_iv_size :: "aead \<Rightarrow> nat" where
  "aead_iv_size (Traditional a) = ca_iv_size (ct_alg (pa_crypter a))"
| "aead_iv_size (Combined a) = aa_iv_size (co_alg a)"

fun aead_encrypt :: "chunk \<Rightarrow> chunk \<Rightarrow> chunk \<Rightarrow> aead \<Rightarrow> chunk option \<times> aead" where
  "aead_encrypt plain assoc iv (Traditional a) = (case pa_encrypt plain assoc iv a of (r, t) \<Rightarrow> (r, Traditional t))"
| "aead_encrypt plain assoc iv (Combined a) = (aa_encrypt (co_alg a) (co_key a) plain assoc iv, Combined a)"

fun aead_decrypt :: "chunk \<Rightarrow> chunk \<Rightarrow> chunk \<Rightarrow> aead \<Rightarrow> chunk option \<times> aead" where
  "aead_decrypt encrypted assoc iv (Traditional a) = (case pa_decrypt encrypted assoc iv a of (r, t) \<Rightarrow> (r, Traditional t))"
| "aead_decrypt encrypted assoc iv (Combined a) = (aa_decrypt (co_alg a) (co_key a) encrypted assoc iv, Combined a)"

fun aead_next_iv :: "64 word \<Rightarrow> nat \<Rightarrow> aead \<Rightarrow> chunk option \<times> aead" where
  "aead_next_iv seq sz (Traditional a) = (case get_iv seq sz (pa_iv_gen a) of (r, g) \<Rightarrow> (r, Traditional (a\<lparr>pa_iv_gen := g\<rparr>)))"
| "aead_next_iv seq sz (Combined a) = (case get_iv seq sz (co_iv_gen a) of (r, g) \<Rightarrow> (r, Combined (a\<lparr>co_iv_gen := g\<rparr>)))"

section \<open>The content of an encrypted payload\<close>

datatype enc_status = Enc_Success | Enc_Failed | Enc_Not_Supported | Enc_Parse_Error | Enc_Invalid_State

definition compute_overhead :: "aead \<Rightarrow> nat \<Rightarrow> nat" where
  "compute_overhead a len = aead_block_size a - len mod aead_block_size a + aead_iv_size a + aead_icv_size a"

text \<open>\<open>rng\<close> is the source \<open>create_rng\<close> gives for the padding, if any.\<close>

definition encrypt_content :: "rng option \<Rightarrow> 64 word \<Rightarrow> chunk \<Rightarrow> chunk \<Rightarrow> aead \<Rightarrow> enc_status \<times> chunk \<times> aead" where
  "encrypt_content rng mid plain assoc a =
     (case rng of
        None \<Rightarrow> (Enc_Not_Supported, [], a)
      | Some r \<Rightarrow>
          let bs = aead_block_size a; pad = bs - length plain mod bs in
          (case aead_next_iv mid (aead_iv_size a) a of
             (None, a1) \<Rightarrow> (Enc_Failed, [], a1)
           | (Some iv, a1) \<Rightarrow>
               (case fst (rng_get_bytes (pad - 1) r) of
                  None \<Rightarrow> (Enc_Failed, [], a1)
                | Some padding \<Rightarrow>
                    (case aead_encrypt (plain @ padding @ [word_of_nat (pad - 1)]) assoc iv a1 of
                       (None, a2) \<Rightarrow> (Enc_Failed, [], a2)
                     | (Some crypt, a2) \<Rightarrow> (Enc_Success, iv @ crypt, a2)))))"

text \<open>
  Decryption is in place; the result has the status, the plain text if it was set, and what the
  buffer holds afterwards.  The length of the padding is read from the last octet of the
  decrypted text, or, when that is empty, from the octet before it, the last of the vector.
\<close>

definition decrypt_content :: "chunk \<Rightarrow> chunk \<Rightarrow> aead \<Rightarrow> (enc_status \<times> chunk option \<times> chunk \<times> aead) res" where
  "decrypt_content encrypted assoc a =
     (let bs = aead_block_size a; n = aead_iv_size a; icv = aead_icv_size a in
      if n + icv > length encrypted \<or> (length encrypted - n - icv) mod bs \<noteq> 0 then Inr (Enc_Failed, None, encrypted, a)
      else
        let iv = take n encrypted; crypt = drop n encrypted in
        (case aead_decrypt crypt assoc iv a of
           (None, a1) \<Rightarrow> Inr (Enc_Failed, None, encrypted, a1)
         | (Some plain, a1) \<Rightarrow>
             let buf = iv @ plain @ drop (length plain) crypt in
             if plain = [] \<and> iv = [] then Inl OutOfBounds
             else
               let padding = unat (if plain = [] then last iv else last plain) + 1 in
               if padding > length plain then Inr (Enc_Parse_Error, Some plain, buf, a1)
               else Inr (Enc_Success, Some (take (length plain - padding) plain), buf, a1)))"

section \<open>Encrypted fragments\<close>

record encrypted_fragment_payload =
  fg_next_payload :: byte
  fg_flags :: byte
  fg_payload_length :: "16 word"
  fg_encrypted :: chunk
  fg_number :: "16 word"
  fg_total :: "16 word"
  fg_aead :: "aead option"
  fg_plain :: chunk

definition encrypted_fragment_payload_create :: encrypted_fragment_payload where
  "encrypted_fragment_payload_create =
     \<lparr>fg_next_payload = 0, fg_flags = 0, fg_payload_length = 8, fg_encrypted = [], fg_number = 0, fg_total = 0,
      fg_aead = None, fg_plain = []\<rparr>"

definition encrypted_fragment_payload_create_from_data :: "16 word \<Rightarrow> 16 word \<Rightarrow> chunk \<Rightarrow> encrypted_fragment_payload" where
  "encrypted_fragment_payload_create_from_data num totl plain =
     encrypted_fragment_payload_create\<lparr>fg_number := num, fg_total := totl, fg_plain := plain\<rparr>"

definition frag_verify :: "encrypted_fragment_payload \<Rightarrow> enc_status \<times> encrypted_fragment_payload" where
  "frag_verify this =
     (if fg_number this = 0 \<or> fg_total this = 0 \<or> fg_number this > fg_total this then (Enc_Failed, this)
      else if fg_number this > 1 \<and> fg_next_payload this \<noteq> 0 then (Enc_Success, this\<lparr>fg_next_payload := 0\<rparr>)
      else (Enc_Success, this))"

definition frag_set_next_type :: "byte \<Rightarrow> encrypted_fragment_payload \<Rightarrow> encrypted_fragment_payload" where
  "frag_set_next_type ty this =
     (if fg_number this = 1 \<and> fg_next_payload this = 0 then this\<lparr>fg_next_payload := ty\<rparr> else this)"

text \<open>The length is computed in a member of 16 bits.\<close>

definition frag_get_length :: "encrypted_fragment_payload \<Rightarrow> 16 word \<times> encrypted_fragment_payload" where
  "frag_get_length this =
     (let len = (if fg_encrypted this \<noteq> [] then word_of_nat (length (fg_encrypted this))
                 else
                   let l = word_of_nat (length (fg_plain this)) in
                   (case fg_aead this of None \<Rightarrow> l | Some a \<Rightarrow> l + word_of_nat (compute_overhead a (unat l)))) + 8 in
      (len, this\<lparr>fg_payload_length := len\<rparr>))"

definition append_header_frag :: "chunk \<Rightarrow> encrypted_fragment_payload \<Rightarrow> chunk \<times> encrypted_fragment_payload" where
  "append_header_frag assoc this =
     (case frag_get_length this of (len, t) \<Rightarrow>
        (assoc @ [fg_next_payload t, fg_flags t] @ be_bytes 2 len @ be_bytes 2 (fg_number t) @ be_bytes 2 (fg_total t), t))"

text \<open>After a failure the buffer that was allocated has no defined content and is not represented.\<close>

definition frag_encrypt ::
  "rng option \<Rightarrow> 64 word \<Rightarrow> chunk \<Rightarrow> encrypted_fragment_payload \<Rightarrow> enc_status \<times> encrypted_fragment_payload" where
  "frag_encrypt rng mid assoc this =
     (case fg_aead this of
        None \<Rightarrow> (Enc_Invalid_State, this)
      | Some a \<Rightarrow>
          (case append_header_frag assoc this of (hdr, t) \<Rightarrow>
             (case encrypt_content rng (push_bit 32 mid OR ucast (fg_number t)) (fg_plain t) hdr a of
                (Enc_Success, enc, a1) \<Rightarrow> (Enc_Success, t\<lparr>fg_encrypted := enc, fg_aead := Some a1\<rparr>)
              | (st, _, a1) \<Rightarrow> (st, t\<lparr>fg_aead := Some a1\<rparr>))))"

text \<open>The plain text is freed first, and cloned even if the decryption did not set it.\<close>

definition frag_decrypt :: "chunk \<Rightarrow> encrypted_fragment_payload \<Rightarrow> (enc_status \<times> encrypted_fragment_payload) res" where
  "frag_decrypt assoc this =
     (case fg_aead this of
        None \<Rightarrow> Inr (Enc_Invalid_State, this)
      | Some a \<Rightarrow>
          (case append_header_frag assoc this of (hdr, t) \<Rightarrow>
             andThen (decrypt_content (fg_encrypted t) hdr a) (\<lambda>(st, plain, buf, a1).
               case plain of
                 Some p \<Rightarrow> Inr (st, t\<lparr>fg_plain := p, fg_encrypted := buf, fg_aead := Some a1\<rparr>)
               | None \<Rightarrow>
                   if fg_plain t \<noteq> [] then Inl UseAfterFree
                   else Inr (st, t\<lparr>fg_encrypted := buf, fg_aead := Some a1\<rparr>))))"

section \<open>What the plugins promise\<close>

definition crypter_good :: "crypter_alg \<Rightarrow> chunk \<Rightarrow> bool" where
  "crypter_good C k \<longleftrightarrow> 0 < ca_block_size C \<and> ca_block_size C \<le> 256 \<and>
     (\<forall>p iv. length p mod ca_block_size C = 0 \<and> length iv = ca_iv_size C \<longrightarrow>
        (\<exists>c. ca_encrypt C k p iv = Some c \<and> length c = length p \<and> ca_decrypt C k c iv = Some p))"

definition signer_good :: "signer_alg \<Rightarrow> chunk \<Rightarrow> bool" where
  "signer_good S k \<longleftrightarrow> (\<forall>d. sa_appends S k d \<and> (\<exists>sig. sa_sign S k d = Some sig \<and> length sig = sa_block_size S))"

definition combined_good :: "aead_alg \<Rightarrow> chunk \<Rightarrow> bool" where
  "combined_good X k \<longleftrightarrow> 0 < aa_block_size X \<and> aa_block_size X \<le> 256 \<and>
     (\<forall>p assoc iv. length p mod aa_block_size X = 0 \<and> length iv = aa_iv_size X \<longrightarrow>
        (\<exists>c. aa_encrypt X k p assoc iv = Some c \<and> length c = length p + aa_icv_size X \<and> aa_decrypt X k c assoc iv = Some p))"

text \<open>Two ends of a channel: the same algorithms and keys, and no data left over in a signer.\<close>

fun paired :: "aead \<Rightarrow> aead \<Rightarrow> bool" where
  "paired (Traditional a) (Traditional b) \<longleftrightarrow> pa_crypter b = pa_crypter a \<and> pa_signer b = pa_signer a \<and> st_pending (pa_signer a) = []
     \<and> crypter_good (ct_alg (pa_crypter a)) (ct_key (pa_crypter a)) \<and> signer_good (st_alg (pa_signer a)) (st_key (pa_signer a))"
| "paired (Combined a) (Combined b) \<longleftrightarrow> co_alg b = co_alg a \<and> co_key b = co_key a \<and> combined_good (co_alg a) (co_key a)"
| "paired _ _ \<longleftrightarrow> False"

section \<open>Lemmas\<close>

lemma crypter_goodD:
  "crypter_good C k \<Longrightarrow> length p mod ca_block_size C = 0 \<Longrightarrow> length iv = ca_iv_size C \<Longrightarrow>
     \<exists>c. ca_encrypt C k p iv = Some c \<and> length c = length p \<and> ca_decrypt C k c iv = Some p"
  by (simp add: crypter_good_def)

lemma combined_goodD:
  "combined_good X k \<Longrightarrow> length p mod aa_block_size X = 0 \<Longrightarrow> length iv = aa_iv_size X \<Longrightarrow>
     \<exists>c. aa_encrypt X k p assoc iv = Some c \<and> length c = length p + aa_icv_size X \<and> aa_decrypt X k c assoc iv = Some p"
  by (simp add: combined_good_def)

lemma pa_round_trip:
  fixes p iv assoc :: chunk
  assumes "paired (Traditional a) (Traditional b)" "length p mod ca_block_size (ct_alg (pa_crypter a)) = 0"
    and "length iv = ca_iv_size (ct_alg (pa_crypter a))"
  obtains c where "pa_encrypt p assoc iv a = (Some c, a)" "length c = length p + sa_block_size (st_alg (pa_signer a))"
    and "pa_decrypt c assoc iv b = (Some p, b)"
proof -
  let ?S = "st_alg (pa_signer a)" and ?k = "st_key (pa_signer a)"
  obtain c where c: "ca_encrypt (ct_alg (pa_crypter a)) (ct_key (pa_crypter a)) p iv = Some c" "length c = length p"
      "ca_decrypt (ct_alg (pa_crypter a)) (ct_key (pa_crypter a)) c iv = Some p"
  proof -
    have "crypter_good (ct_alg (pa_crypter a)) (ct_key (pa_crypter a))" using assms(1) by simp
    from crypter_goodD [OF this assms(2,3)] that show thesis by blast
  qed
  have S: "sa_appends ?S ?k d" for d using assms(1) by (simp add: signer_good_def)
  obtain sig where s: "sa_sign ?S ?k (assoc @ iv @ c) = Some sig" "length sig = sa_block_size ?S"
    using assms(1) unfolding paired.simps signer_good_def by blast
  have p: "sign_prefix assoc iv x = (True, x\<lparr>pa_signer := (pa_signer x)\<lparr>st_pending := assoc @ iv\<rparr>\<rparr>)" if "pa_signer x = pa_signer a" for x
    using S assms(1) that by (simp add: sign_prefix_def sg_append_def)
  have r: "x\<lparr>pa_signer := (pa_signer a)\<lparr>st_pending := []\<rparr>\<rparr> = x" if "pa_signer x = pa_signer a" for x :: private_aead
    using assms(1) that by (metis (no_types) paired.simps(1) private_aead.surjective private_aead.update_convs(2) signer_t.surjective signer_t.update_convs(3))
  have b: "pa_signer b = pa_signer a" "pa_crypter b = pa_crypter a" using assms(1) by simp_all
  have "pa_encrypt p assoc iv a = (Some (c @ sig), a)"
    using c s r [of a] by (simp add: pa_encrypt_def p sg_signature_def)
  moreover have "pa_decrypt (c @ sig) assoc iv b = (Some p, b)"
    using c s r [OF b(1)] assms(2) by (simp add: pa_decrypt_def p [OF b(1)] b sg_signature_def sg_verify_def Let_def)
  ultimately show thesis using that c(2) s(2) by simp
qed

lemma aead_round_trip:
  assumes "paired a b" "length p mod aead_block_size a = 0" "length iv = aead_iv_size a"
  obtains c where "aead_encrypt p assoc iv a = (Some c, a)" "length c = length p + aead_icv_size a"
    and "aead_decrypt c assoc iv b = (Some p, b)"
  using assms
proof (cases "(a, b)" rule: paired.cases)
  case (1 a1 b1)
  then have "paired (Traditional a1) (Traditional b1)" "length p mod ca_block_size (ct_alg (pa_crypter a1)) = 0"
    "length iv = ca_iv_size (ct_alg (pa_crypter a1))" using assms by simp_all
  from pa_round_trip [OF this, of assoc] obtain c where "pa_encrypt p assoc iv a1 = (Some c, a1)"
    "length c = length p + sa_block_size (st_alg (pa_signer a1))" "pa_decrypt c assoc iv b1 = (Some p, b1)" .
  then show thesis using 1 that by simp
next
  case (2 a1 b1)
  then have "combined_good (co_alg a1) (co_key a1)" "length p mod aa_block_size (co_alg a1) = 0" "length iv = aa_iv_size (co_alg a1)"
    using assms by simp_all
  from combined_goodD [OF this, of assoc] obtain c where "aa_encrypt (co_alg a1) (co_key a1) p assoc iv = Some c"
    "length c = length p + aa_icv_size (co_alg a1)" "aa_decrypt (co_alg a1) (co_key a1) c assoc iv = Some p" by blast
  then show thesis using 2 that assms(1) by simp
qed simp_all

lemma paired_sizes: "paired a b \<Longrightarrow> aead_block_size b = aead_block_size a \<and> aead_icv_size b = aead_icv_size a \<and> aead_iv_size b = aead_iv_size a"
  by (cases "(a, b)" rule: paired.cases) simp_all

lemma paired_block: "paired a b \<Longrightarrow> 0 < aead_block_size a \<and> aead_block_size a \<le> 256"
  by (cases "(a, b)" rule: paired.cases) (simp_all add: crypter_good_def combined_good_def)

lemma paired_next_iv: "paired a b \<Longrightarrow> aead_next_iv seq n a = (r, a1) \<Longrightarrow> paired a1 b \<and> aead_block_size a1 = aead_block_size a
    \<and> aead_icv_size a1 = aead_icv_size a \<and> aead_iv_size a1 = aead_iv_size a"
  by (cases "(a, b)" rule: paired.cases) (auto split: prod.splits)

text \<open>The padded text is a multiple of the block size, and its last octet tells the padding.\<close>

lemma padded:
  fixes bs len :: nat
  assumes "0 < bs"
  defines "pad \<equiv> bs - len mod bs"
  shows "0 < pad" "pad \<le> bs" "(len + pad) mod bs = 0"
proof -
  have "len mod bs < bs" using assms(1) by simp
  then show "0 < pad" "pad \<le> bs" by (simp_all add: pad_def)
  have "len = bs * (len div bs) + len mod bs" by simp
  then have "len + pad = bs * (len div bs + 1)" using \<open>len mod bs < bs\<close> unfolding pad_def distrib_left by linarith
  then show "(len + pad) mod bs = 0" by simp
qed

lemma unat_byte_of_nat: "n < 256 \<Longrightarrow> unat (word_of_nat n :: byte) = n"
  by (simp add: unat_of_nat)

definition rng_good :: "rng \<Rightarrow> bool" where
  "rng_good r \<longleftrightarrow> (\<forall>k n. \<exists>b. r k n = Some b \<and> length b = n)"

lemma content_round_trip:
  assumes "paired a b" "rng_good r" "aead_next_iv mid (aead_iv_size a) a = (Some iv, a1)" "length iv = aead_iv_size a"
  obtains enc buf where "encrypt_content (Some r) mid plain assoc a = (Enc_Success, enc, a1)" "paired a1 b"
    and "length enc = length plain + compute_overhead a (length plain)"
    and "decrypt_content enc assoc b = Inr (Enc_Success, Some plain, buf, b)"
proof -
  define pad where "pad = aead_block_size a - length plain mod aead_block_size a"
  note bs = paired_block [OF assms(1)]
  note pad = padded [of "aead_block_size a" "length plain", folded pad_def]
  obtain rnd where rnd: "r 0 (pad - 1) = Some rnd" "length rnd = pad - 1" using assms(2) unfolding rng_good_def by blast
  define p where "p = plain @ rnd @ [word_of_nat (pad - 1)]"
  have p: "length p = length plain + pad" "p \<noteq> []" "last p = word_of_nat (pad - 1)" "take (length plain) p = plain"
    using pad bs rnd by (simp_all add: p_def)
  have a1: "paired a1 b" "aead_block_size a1 = aead_block_size a" "aead_icv_size a1 = aead_icv_size a" "aead_iv_size a1 = aead_iv_size a"
    using paired_next_iv [OF assms(1,3)] by simp_all
  have m: "length p mod aead_block_size a1 = 0" using pad(3) bs p(1) a1(2) by simp
  obtain c where c: "aead_encrypt p assoc iv a1 = (Some c, a1)" "length c = length p + aead_icv_size a1" "aead_decrypt c assoc iv b = (Some p, b)"
    using aead_round_trip [OF a1(1) m] assms(4) a1(4) by metis
  note sz = paired_sizes [OF assms(1)]
  have "unat (word_of_nat (pad - 1) :: byte) = pad - 1" using pad bs by (intro unat_byte_of_nat) simp
  then have u: "Suc (unat (last p)) = pad" using pad bs unfolding p(3) by simp
  have "encrypt_content (Some r) mid plain assoc a = (Enc_Success, iv @ c, a1)"
    unfolding encrypt_content_def Let_def rng_get_bytes_def fst_conv option.case assms(3) prod.case pad_def [symmetric]
      rnd(1) p_def [symmetric] c(1) ..
  moreover have "decrypt_content (iv @ c) assoc b = Inr (Enc_Success, Some plain, iv @ p @ drop (length p) c, b)"
    using c(2,3) m sz a1 assms(4) p(1,2,4) by (simp add: decrypt_content_def Let_def u)
  moreover have "length (iv @ c) = length plain + compute_overhead a (length plain)"
    using c(2) p(1) a1 assms(4) by (simp add: compute_overhead_def pad_def)
  ultimately show thesis using that a1(1) by blast
qed

lemma pa_decrypt_authentic:
  assumes "pa_decrypt enc x iv s = (Some p, s')"
  shows "sa_sign (st_alg (pa_signer s)) (st_key (pa_signer s))
      (st_pending (pa_signer s) @ x @ iv @ take (length enc - sa_block_size (st_alg (pa_signer s))) enc)
    = Some (drop (length enc - sa_block_size (st_alg (pa_signer s))) enc)"
  using assms by (auto simp: pa_decrypt_def Let_def sign_prefix_def sg_append_def sg_verify_def sg_signature_def
      split: if_splits option.splits bool.splits prod.splits)

lemma frag_header_lengths:
  assumes "length (fg_plain f) < 2 ^ 16" "fg_encrypted f = []" "fg_aead f = Some a"
    and "length (fg_encrypted g) = length (fg_plain f) + compute_overhead a (length (fg_plain f))" "fg_encrypted g \<noteq> []"
  shows "fst (frag_get_length g) = fst (frag_get_length f)"
proof -
  have "unat (word_of_nat (length (fg_plain f)) :: 16 word) = length (fg_plain f)" using assms(1) by (simp add: unat_of_nat)
  then show ?thesis using assms(2-5) by (simp add: frag_get_length_def Let_def)
qed

text \<open>
  C14. A fragment of an IKE message that one side encrypts is decrypted to the same content by a
  side that holds the same algorithms and keys and has received the same header and encrypted
  data, whatever the content (up to the 64 KiB a length field can tell), the number of the
  fragment, the message identifier and the state of the vector generator are; the length in
  the header is the length of the encrypted data and eight; and no decrypted octet is handed
  out unless the signature over associated data, header, vector and cipher text was verified.
\<close>

theorem fragment_round_trip:
  assumes "paired a b" "rng_good r" "length plain < 2 ^ 16"
    and "f = (encrypted_fragment_payload_create_from_data num totl plain)\<lparr>fg_next_payload := nxt, fg_aead := Some a\<rparr>"
    and "aead_next_iv (push_bit 32 mid OR ucast num) (aead_iv_size a) a = (Some iv, a1)" "length iv = aead_iv_size a"
    and "g = encrypted_fragment_payload_create\<lparr>fg_next_payload := nxt, fg_number := num, fg_total := totl,
          fg_encrypted := fg_encrypted (snd (frag_encrypt (Some r) mid assoc f)), fg_aead := Some b\<rparr>"
  shows "\<exists>g'. fst (frag_encrypt (Some r) mid assoc f) = Enc_Success \<and> frag_decrypt assoc g = Inr (Enc_Success, g') \<and> fg_plain g' = plain
    \<and> fg_payload_length g' = word_of_nat (length (fg_encrypted g)) + 8
    \<and> (\<forall>s x enc p s'. pa_decrypt enc x iv s = (Some p, s') \<longrightarrow>
          sa_sign (st_alg (pa_signer s)) (st_key (pa_signer s))
            (st_pending (pa_signer s) @ x @ iv @ take (length enc - sa_block_size (st_alg (pa_signer s))) enc)
          = Some (drop (length enc - sa_block_size (st_alg (pa_signer s))) enc))"
proof -
  obtain hdr t where h: "append_header_frag assoc f = (hdr, t)" by force
  have t: "fg_plain t = plain" "fg_number t = num"
    using h by (auto simp: append_header_frag_def frag_get_length_def Let_def assms(4) encrypted_fragment_payload_create_from_data_def)
  show ?thesis
  proof (rule content_round_trip [OF assms(1,2,5,6), of plain hdr])
    fix enc buf
    assume e: "encrypt_content (Some r) (push_bit 32 mid OR ucast num) plain hdr a = (Enc_Success, enc, a1)"
        "length enc = length plain + compute_overhead a (length plain)" "decrypt_content enc hdr b = Inr (Enc_Success, Some plain, buf, b)"
    have f: "frag_encrypt (Some r) mid assoc f = (Enc_Success, t\<lparr>fg_encrypted := enc, fg_aead := Some a1\<rparr>)"
      using e(1) h t by (simp add: frag_encrypt_def assms(4))
    have "enc \<noteq> []" using e(2) padded(1) [of "aead_block_size a" "length plain"] paired_block [OF assms(1)] by (auto simp: compute_overhead_def)
    then have g: "fg_encrypted g = enc" "fst (frag_get_length g) = fst (frag_get_length f)"
      using frag_header_lengths [of f a g] assms(3) e(2)
      by (simp_all add: assms(7) f) (simp add: assms(4) encrypted_fragment_payload_create_from_data_def encrypted_fragment_payload_create_def)
    obtain t' where "append_header_frag assoc g = (hdr, t')" "fg_encrypted t' = enc"
        "fg_payload_length t' = word_of_nat (length enc) + 8"
      using h g \<open>enc \<noteq> []\<close>
      by (auto simp: append_header_frag_def frag_get_length_def Let_def assms(4,7) f
          encrypted_fragment_payload_create_from_data_def encrypted_fragment_payload_create_def)
    then have "frag_decrypt assoc g = Inr (Enc_Success, t'\<lparr>fg_plain := plain, fg_encrypted := buf, fg_aead := Some b\<rparr>)"
      using e(3) by (simp add: frag_decrypt_def assms(7))
    then show ?thesis using f g(1) pa_decrypt_authentic \<open>fg_payload_length t' = _\<close> by auto
  qed
qed

section \<open>Witness\<close>

definition sample_rng :: rng where
  "sample_rng k n = Some (replicate n 5)"

definition sample_crypter_alg :: crypter_alg where
  "sample_crypter_alg = \<lparr>ca_key_size = 16, ca_block_size = 4, ca_iv_size = 8, ca_set_key = (\<lambda>k. length k = 16),
     ca_encrypt = (\<lambda>k p iv. Some (map (\<lambda>b. b XOR 3) p)), ca_decrypt = (\<lambda>k c iv. Some (map (\<lambda>b. b XOR 3) c))\<rparr>"

definition sample_signer_alg :: signer_alg where
  "sample_signer_alg = \<lparr>sa_key_size = 20, sa_block_size = 2, sa_set_key = (\<lambda>k. length k = 20), sa_appends = (\<lambda>k d. True),
     sa_sign = (\<lambda>k d. Some [foldr (+) d 0, hd (k @ [0])])\<rparr>"

definition sample_aead :: aead where
  "sample_aead = aead_create \<lparr>ct_alg = sample_crypter_alg, ct_key = replicate 16 1\<rparr>
     \<lparr>st_alg = sample_signer_alg, st_key = replicate 20 2, st_pending = []\<rparr> (Iv_Rand (Some sample_rng))"

lemma sample_crypter_good: "crypter_good sample_crypter_alg k"
proof -
  have "map ((\<lambda>b. b XOR 3) \<circ> (\<lambda>b. b XOR 3)) p = p" for p :: chunk by (simp add: xor.assoc comp_def)
  then show ?thesis by (simp add: crypter_good_def sample_crypter_alg_def)
qed

lemma sample_signer_good: "signer_good sample_signer_alg k"
  by (simp add: signer_good_def sample_signer_alg_def)

lemma sample_paired: "paired sample_aead sample_aead"
  by (simp add: sample_aead_def aead_create_def sample_crypter_good sample_signer_good)

theorem fragment_round_trip_witness:
  "\<exists>g'. frag_decrypt [9] (encrypted_fragment_payload_create\<lparr>fg_next_payload := 33, fg_number := 1, fg_total := 2,
          fg_encrypted := fg_encrypted (snd (frag_encrypt (Some sample_rng) 7 [9]
            ((encrypted_fragment_payload_create_from_data 1 2 [1, 2, 3])\<lparr>fg_next_payload := 33, fg_aead := Some sample_aead\<rparr>))),
          fg_aead := Some sample_aead\<rparr>) = Inr (Enc_Success, g') \<and> fg_plain g' = [1, 2, 3]"
proof -
  have r: "rng_good sample_rng" by (simp add: rng_good_def sample_rng_def)
  have "\<exists>a1. aead_next_iv (push_bit 32 7 OR ucast (1 :: 16 word)) (aead_iv_size sample_aead) sample_aead = (Some (replicate 8 5), a1)"
    by (simp add: sample_aead_def aead_create_def rng_get_bytes_def sample_rng_def sample_crypter_alg_def)
  then obtain a1 where "aead_next_iv (push_bit 32 7 OR ucast (1 :: 16 word)) (aead_iv_size sample_aead) sample_aead = (Some (replicate 8 5), a1)" ..
  from fragment_round_trip [where plain = "[1, 2, 3]" and totl = 2 and nxt = 33 and assoc = "[9]", OF sample_paired r _ refl this _ refl] show ?thesis
    by (auto simp: sample_aead_def aead_create_def sample_crypter_alg_def)
qed

end
