(* ===== verification/Proposal.thy ===== *)
theory Proposal
  imports Iv_Gen
begin

text \<open>
  Proposals of algorithms for IKE and IPsec SAs and their negotiation,
  \<open>libstrongswan/crypto/proposal/proposal.c\<close>.  The names of algorithms in a configuration string
  (\<open>proposal_keywords\<close>) and the algorithms the plugins support are parameters.  The sorted array of
  transform types is a list that is kept sorted; a binary search in it is membership.
\<close>

section \<open>Data\<close>

datatype protocol_id = PROTO_NONE | PROTO_IKE | PROTO_AH | PROTO_ESP | PROTO_IPCOMP

abbreviation ENCRYPTION_ALGORITHM :: nat where "ENCRYPTION_ALGORITHM \<equiv> 1"
abbreviation PSEUDO_RANDOM_FUNCTION :: nat where "PSEUDO_RANDOM_FUNCTION \<equiv> 2"
abbreviation INTEGRITY_ALGORITHM :: nat where "INTEGRITY_ALGORITHM \<equiv> 3"
abbreviation DIFFIE_HELLMAN_GROUP :: nat where "DIFFIE_HELLMAN_GROUP \<equiv> 4"
abbreviation EXTENDED_SEQUENCE_NUMBERS :: nat where "EXTENDED_SEQUENCE_NUMBERS \<equiv> 5"

record entry =
  e_type :: nat
  e_alg :: "16 word"
  e_key_size :: "16 word"

record proposal =
  protocol :: protocol_id
  transforms :: "entry list"
  types :: "nat list"
  p_spi :: "64 word"
  p_number :: byte
  transform_number :: byte

record selection_flags =
  prefer_supplied :: bool
  skip_private :: bool
  skip_dh :: bool

definition proposal_create_v1 :: "protocol_id \<Rightarrow> byte \<Rightarrow> byte \<Rightarrow> proposal" where
  "proposal_create_v1 proto num transform =
     \<lparr>protocol = proto, transforms = [], types = [], p_spi = 0, p_number = num, transform_number = transform\<rparr>"

definition proposal_create :: "protocol_id \<Rightarrow> byte \<Rightarrow> proposal" where
  "proposal_create proto num = proposal_create_v1 proto num 0"

section \<open>Sets of transform types\<close>

definition type_for_sort :: "nat \<Rightarrow> nat" where
  "type_for_sort t =
     (if t = PSEUDO_RANDOM_FUNCTION then INTEGRITY_ALGORITHM
      else if t = INTEGRITY_ALGORITHM then PSEUDO_RANDOM_FUNCTION else t)"

definition add_type :: "nat \<Rightarrow> nat list \<Rightarrow> nat list" where
  "add_type t ts = (if t \<in> set ts then ts else insort_key type_for_sort t ts)"

definition merge_types :: "proposal \<Rightarrow> proposal \<Rightarrow> nat list" where
  "merge_types this other =
     foldl (\<lambda>ts i.
         let ts1 = (if i < length (types this) then add_type (types this ! i) ts else ts) in
         if i < length (types other) then add_type (types other ! i) ts1 else ts1)
       [] [0 ..< max (length (types this)) (length (types other))]"

definition remove_type :: "nat \<Rightarrow> proposal \<Rightarrow> proposal" where
  "remove_type t this = this\<lparr>types := remove1 t (types this)\<rparr>"

section \<open>Algorithms\<close>

definition add_algorithm :: "nat \<Rightarrow> 16 word \<Rightarrow> 16 word \<Rightarrow> proposal \<Rightarrow> proposal" where
  "add_algorithm t alg ks this =
     this\<lparr>transforms := transforms this @ [\<lparr>e_type = t, e_alg = alg, e_key_size = ks\<rparr>], types := add_type t (types this)\<rparr>"

text \<open>What \<open>create_enumerator\<close> enumerates.\<close>

definition algs :: "nat \<Rightarrow> proposal \<Rightarrow> (16 word \<times> 16 word) list" where
  "algs t this = map (\<lambda>e. (e_alg e, e_key_size e)) (filter (\<lambda>e. e_type e = t) (transforms this))"

definition get_algorithm :: "nat \<Rightarrow> proposal \<Rightarrow> (16 word \<times> 16 word) option" where
  "get_algorithm t this = (case algs t this of [] \<Rightarrow> None | x # _ \<Rightarrow> Some x)"

definition has_dh_group :: "16 word \<Rightarrow> proposal \<Rightarrow> bool" where
  "has_dh_group grp this \<longleftrightarrow>
     grp \<in> fst ` set (algs DIFFIE_HELLMAN_GROUP this) \<or> algs DIFFIE_HELLMAN_GROUP this = [] \<and> grp = 0"

definition promote_dh_group :: "16 word \<Rightarrow> proposal \<Rightarrow> bool \<times> proposal" where
  "promote_dh_group grp this =
     (let is_grp = (\<lambda>e. e_type e = DIFFIE_HELLMAN_GROUP \<and> e_alg e = grp);
          rest = filter (\<lambda>e. \<not> is_grp e) (transforms this) in
      if list_ex is_grp (transforms this)
      then (True, this\<lparr>transforms := \<lparr>e_type = DIFFIE_HELLMAN_GROUP, e_alg = grp, e_key_size = 0\<rparr> # rest\<rparr>)
      else (False, this\<lparr>transforms := rest\<rparr>))"

section \<open>Selection\<close>

text \<open>The algorithm found, (0, 0) if the output arguments were not written.\<close>

definition select_algo :: "proposal \<Rightarrow> proposal \<Rightarrow> nat \<Rightarrow> selection_flags \<Rightarrow> (16 word \<times> 16 word) option" where
  "select_algo this other t flags =
     (let optional = t = DIFFIE_HELLMAN_GROUP \<and> (protocol this = PROTO_ESP \<or> protocol this = PROTO_AH);
          l1 = algs t this; l2 = algs t other;
          found = (if l1 = [] then (if l2 = [] then True else optional \<and> list_ex (\<lambda>(a, k). a = 0) l2)
                   else l2 = [] \<and> optional \<and> list_ex (\<lambda>(a, k). a = 0) l1) in
      if found then Some (0, 0)
      else List.find (\<lambda>(a, k). (a, k) \<in> set l2 \<and> \<not> (skip_private flags \<and> a \<ge> 1024)) l1)"

text \<open>The loop over the types; \<open>selected\<close> collects the algorithms.\<close>

fun select_loop :: "proposal \<Rightarrow> proposal \<Rightarrow> selection_flags \<Rightarrow> nat list \<Rightarrow> bool \<Rightarrow> proposal \<Rightarrow> proposal option" where
  "select_loop this other flags [] skip_integrity selected = Some selected"
| "select_loop this other flags (t # ts) skip_integrity selected =
     (if t = INTEGRITY_ALGORITHM \<and> skip_integrity then select_loop this other flags ts skip_integrity selected
      else if t = DIFFIE_HELLMAN_GROUP \<and> skip_dh flags then select_loop this other flags ts skip_integrity selected
      else
        (case select_algo this other t flags of
           None \<Rightarrow> None
         | Some (alg, ks) \<Rightarrow>
             if alg = 0 \<and> t \<noteq> EXTENDED_SEQUENCE_NUMBERS then select_loop this other flags ts skip_integrity selected
             else
               select_loop this other flags ts
                 (skip_integrity \<or> t = ENCRYPTION_ALGORITHM \<and> encryption_algorithm_is_aead alg)
                 (add_algorithm t alg ks selected)))"

definition select_algos :: "proposal \<Rightarrow> proposal \<Rightarrow> proposal \<Rightarrow> selection_flags \<Rightarrow> proposal option" where
  "select_algos this other selected flags = select_loop this other flags (merge_types this other) False selected"

definition select_proposal :: "proposal \<Rightarrow> proposal \<Rightarrow> selection_flags \<Rightarrow> proposal option" where
  "select_proposal this other flags =
     (if protocol this \<noteq> protocol other then None
      else
        let source = (if prefer_supplied flags then this else other) in
        select_algos this other
          ((proposal_create_v1 (protocol this) (p_number source) (transform_number source))\<lparr>p_spi := p_spi source\<rparr>) flags)"

definition matches :: "proposal \<Rightarrow> proposal \<Rightarrow> selection_flags \<Rightarrow> bool" where
  "matches this other flags \<longleftrightarrow>
     protocol this = protocol other \<and> select_algos this other (proposal_create PROTO_NONE 0) flags \<noteq> None"

definition proposal_equals :: "proposal \<Rightarrow> proposal \<Rightarrow> bool" where
  "proposal_equals this other \<longleftrightarrow> list_all (\<lambda>t. algs t this = algs t other) (merge_types this other)"

definition clone :: "proposal \<Rightarrow> selection_flags \<Rightarrow> proposal" where
  "clone this flags =
     (let keep = filter (\<lambda>e. \<not> (e_alg e \<ge> 1024 \<and> skip_private flags) \<and> \<not> (e_type e = DIFFIE_HELLMAN_GROUP \<and> skip_dh flags))
            (transforms this) in
      foldl (\<lambda>c e. c\<lparr>transforms := transforms c @ [e], types := add_type (e_type e) (types c)\<rparr>)
        (proposal_create (protocol this) 0) keep
      \<lparr>p_spi := p_spi this, p_number := p_number this, transform_number := transform_number this\<rparr>)"

text \<open>The first pair that matches, in the order of the preferred list.\<close>

fun select_first :: "proposal \<Rightarrow> proposal list \<Rightarrow> selection_flags \<Rightarrow> proposal option" where
  "select_first p [] flags = None"
| "select_first p (m # ms) flags =
     (case select_proposal p m flags of Some s \<Rightarrow> Some s | None \<Rightarrow> select_first p ms flags)"

fun select_from :: "proposal list \<Rightarrow> proposal list \<Rightarrow> selection_flags \<Rightarrow> proposal option" where
  "select_from [] ms flags = None"
| "select_from (p # ps) ms flags =
     (case select_first p ms flags of Some s \<Rightarrow> Some s | None \<Rightarrow> select_from ps ms flags)"

definition proposal_select :: "proposal list \<Rightarrow> proposal list \<Rightarrow> selection_flags \<Rightarrow> proposal option" where
  "proposal_select configured supplied flags =
     (if prefer_supplied flags then select_from supplied configured flags else select_from configured supplied flags)"

section \<open>Proposals from the configuration\<close>

abbreviation AUTH_HMAC_MD5_96 :: "16 word" where "AUTH_HMAC_MD5_96 \<equiv> 1"
abbreviation AUTH_HMAC_SHA1_96 :: "16 word" where "AUTH_HMAC_SHA1_96 \<equiv> 2"
abbreviation AUTH_AES_XCBC_96 :: "16 word" where "AUTH_AES_XCBC_96 \<equiv> 5"
abbreviation AUTH_HMAC_MD5_128 :: "16 word" where "AUTH_HMAC_MD5_128 \<equiv> 6"
abbreviation AUTH_HMAC_SHA1_160 :: "16 word" where "AUTH_HMAC_SHA1_160 \<equiv> 7"
abbreviation AUTH_AES_CMAC_96 :: "16 word" where "AUTH_AES_CMAC_96 \<equiv> 8"
abbreviation AUTH_AES_128_GMAC :: "16 word" where "AUTH_AES_128_GMAC \<equiv> 9"
abbreviation AUTH_AES_192_GMAC :: "16 word" where "AUTH_AES_192_GMAC \<equiv> 10"
abbreviation AUTH_AES_256_GMAC :: "16 word" where "AUTH_AES_256_GMAC \<equiv> 11"
abbreviation AUTH_HMAC_SHA2_256_128 :: "16 word" where "AUTH_HMAC_SHA2_256_128 \<equiv> 12"
abbreviation AUTH_HMAC_SHA2_384_192 :: "16 word" where "AUTH_HMAC_SHA2_384_192 \<equiv> 13"
abbreviation AUTH_HMAC_SHA2_512_256 :: "16 word" where "AUTH_HMAC_SHA2_512_256 \<equiv> 14"
abbreviation AUTH_HMAC_SHA2_256_96 :: "16 word" where "AUTH_HMAC_SHA2_256_96 \<equiv> 1026"
abbreviation AUTH_HMAC_SHA2_256_256 :: "16 word" where "AUTH_HMAC_SHA2_256_256 \<equiv> 1027"
abbreviation AUTH_HMAC_SHA2_384_384 :: "16 word" where "AUTH_HMAC_SHA2_384_384 \<equiv> 1028"
abbreviation AUTH_HMAC_SHA2_512_512 :: "16 word" where "AUTH_HMAC_SHA2_512_512 \<equiv> 1029"
abbreviation AUTH_CAMELLIA_XCBC_96 :: "16 word" where "AUTH_CAMELLIA_XCBC_96 \<equiv> 1030"
abbreviation PRF_HMAC_MD5 :: "16 word" where "PRF_HMAC_MD5 \<equiv> 1"
abbreviation PRF_HMAC_SHA1 :: "16 word" where "PRF_HMAC_SHA1 \<equiv> 2"
abbreviation PRF_AES128_XCBC :: "16 word" where "PRF_AES128_XCBC \<equiv> 4"
abbreviation PRF_HMAC_SHA2_256 :: "16 word" where "PRF_HMAC_SHA2_256 \<equiv> 5"
abbreviation PRF_HMAC_SHA2_384 :: "16 word" where "PRF_HMAC_SHA2_384 \<equiv> 6"
abbreviation PRF_HMAC_SHA2_512 :: "16 word" where "PRF_HMAC_SHA2_512 \<equiv> 7"
abbreviation PRF_AES128_CMAC :: "16 word" where "PRF_AES128_CMAC \<equiv> 8"
abbreviation PRF_CAMELLIA128_XCBC :: "16 word" where "PRF_CAMELLIA128_XCBC \<equiv> 1028"
definition NO_EXT_SEQ_NUMBERS :: "16 word" where "NO_EXT_SEQ_NUMBERS = 0"

definition integ_prf_map :: "(16 word \<times> 16 word) list" where
  "integ_prf_map =
     [(AUTH_HMAC_SHA1_96, PRF_HMAC_SHA1), (AUTH_HMAC_SHA1_160, PRF_HMAC_SHA1), (AUTH_HMAC_SHA2_256_128, PRF_HMAC_SHA2_256),
      (AUTH_HMAC_SHA2_384_192, PRF_HMAC_SHA2_384), (AUTH_HMAC_SHA2_512_256, PRF_HMAC_SHA2_512), (AUTH_HMAC_MD5_96, PRF_HMAC_MD5),
      (AUTH_HMAC_MD5_128, PRF_HMAC_MD5), (AUTH_AES_XCBC_96, PRF_AES128_XCBC), (AUTH_CAMELLIA_XCBC_96, PRF_CAMELLIA128_XCBC),
      (AUTH_AES_CMAC_96, PRF_AES128_CMAC)]"

definition remove_transform :: "nat \<Rightarrow> proposal \<Rightarrow> proposal" where
  "remove_transform t this = remove_type t (this\<lparr>transforms := filter (\<lambda>e. e_type e \<noteq> t) (transforms this)\<rparr>)"

definition add_prf_for :: "proposal \<Rightarrow> 16 word \<times> 16 word \<Rightarrow> proposal" where
  "add_prf_for this x =
     (case map_of integ_prf_map (fst x) of None \<Rightarrow> this | Some a \<Rightarrow> add_algorithm PSEUDO_RANDOM_FUNCTION a 0 this)"

text \<open>The part of \<open>check_proposal\<close> on PRFs and groups: \<open>None\<close> if a mandatory transform is missing.\<close>

definition check_prf_dh :: "proposal \<Rightarrow> proposal option" where
  "check_prf_dh this =
     (if protocol this = PROTO_IKE then
        let t1 = (if get_algorithm PSEUDO_RANDOM_FUNCTION this = None then
                    foldl add_prf_for this (algs INTEGRITY_ALGORITHM this)
                  else this) in
        if get_algorithm PSEUDO_RANDOM_FUNCTION t1 = None then None
        else
          let t2 = t1\<lparr>transforms := filter (\<lambda>e. \<not> (e_type e = DIFFIE_HELLMAN_GROUP \<and> e_alg e = 0)) (transforms t1)\<rparr> in
          if get_algorithm DIFFIE_HELLMAN_GROUP t2 = None then None else Some t2
      else Some (remove_transform PSEUDO_RANDOM_FUNCTION this))"

text \<open>AES-GMAC in an AH proposal: an entry becomes an integrity algorithm or is removed.\<close>

definition map_gmac :: "entry \<Rightarrow> entry list" where
  "map_gmac e =
     (if e_type e \<noteq> ENCRYPTION_ALGORITHM then [e]
      else if e_alg e = ENCR_NULL_AUTH_AES_GMAC \<and> e_key_size e \<in> {128, 192, 256} then
        [\<lparr>e_type = INTEGRITY_ALGORITHM,
          e_alg = (if e_key_size e = 128 then AUTH_AES_128_GMAC else if e_key_size e = 192 then AUTH_AES_192_GMAC else AUTH_AES_256_GMAC),
          e_key_size = 0\<rparr>]
      else [])"

definition check_encr_integ :: "proposal \<Rightarrow> proposal option" where
  "check_encr_integ this =
     (if protocol this = PROTO_IKE \<or> protocol this = PROTO_ESP then
        let encs = algs ENCRYPTION_ALGORITHM this;
            any_aead = list_ex (\<lambda>(a, k). encryption_algorithm_is_aead a) encs;
            all_aead = list_all (\<lambda>(a, k). encryption_algorithm_is_aead a) encs in
        if encs = [] then None
        else if any_aead \<and> \<not> all_aead then None
        else if all_aead then Some (remove_transform INTEGRITY_ALGORITHM this)
        else if protocol this = PROTO_IKE \<and> get_algorithm INTEGRITY_ALGORITHM this = None then None
        else Some this
      else
        let t = remove_type ENCRYPTION_ALGORITHM (this\<lparr>transforms := concat (map map_gmac (transforms this))\<rparr>) in
        if get_algorithm INTEGRITY_ALGORITHM t = None then None else Some t)"

definition check_proposal :: "proposal \<Rightarrow> proposal option" where
  "check_proposal this =
     (case check_prf_dh this of
        None \<Rightarrow> None
      | Some t \<Rightarrow>
          (case check_encr_integ t of
             None \<Rightarrow> None
           | Some t1 \<Rightarrow>
               Some (if (protocol t1 = PROTO_AH \<or> protocol t1 = PROTO_ESP) \<and> get_algorithm EXTENDED_SEQUENCE_NUMBERS t1 = None
                     then add_algorithm EXTENDED_SEQUENCE_NUMBERS NO_EXT_SEQ_NUMBERS 0 t1 else t1)))"

text \<open>
  \<open>tokens\<close> are the parts of the string between the dashes, \<open>get_token\<close> looks up a keyword.
\<close>

fun add_tokens :: "(cstring \<Rightarrow> (nat \<times> 16 word \<times> 16 word) option) \<Rightarrow> cstring list \<Rightarrow> proposal \<Rightarrow> proposal option" where
  "add_tokens get_token [] this = Some this"
| "add_tokens get_token (tok # toks) this =
     (case get_token tok of
        None \<Rightarrow> None
      | Some (t, alg, ks) \<Rightarrow> add_tokens get_token toks (add_algorithm t alg ks this))"

definition proposal_create_from_string ::
  "(cstring \<Rightarrow> (nat \<times> 16 word \<times> 16 word) option) \<Rightarrow> protocol_id \<Rightarrow> cstring list \<Rightarrow> proposal option" where
  "proposal_create_from_string get_token proto tokens =
     (if tokens = [] then None
      else (case add_tokens get_token tokens (proposal_create proto 0) of None \<Rightarrow> None | Some this \<Rightarrow> check_proposal this))"

section \<open>Default proposals\<close>

text \<open>What the plugins support, in the order it is enumerated.\<close>

record supported =
  sup_aead :: "16 word list"
  sup_crypter :: "16 word list"
  sup_signer :: "16 word list"
  sup_prf :: "16 word list"
  sup_dh :: "16 word list"

definition add_round :: "nat \<Rightarrow> 16 word list \<Rightarrow> 16 word list \<Rightarrow> 16 word list \<Rightarrow> proposal \<Rightarrow> proposal" where
  "add_round t accept sizes enum this =
     foldl (\<lambda>p a. foldl (\<lambda>p ks. add_algorithm t a ks p) p sizes) this (filter (\<lambda>a. a \<in> set accept) enum)"

text \<open>The first round over the combined algorithms, with key sizes except for ChaCha20.\<close>

definition add_aead_strong :: "16 word list \<Rightarrow> proposal \<Rightarrow> proposal" where
  "add_aead_strong enum this =
     foldl (\<lambda>p a. if a \<in> {ENCR_AES_GCM_ICV16, ENCR_AES_CCM_ICV16, ENCR_CAMELLIA_CCM_ICV16}
                  then add_round ENCRYPTION_ALGORITHM [a] [128, 192, 256] [a] p
                  else if a = ENCR_CHACHA20_POLY1305 then add_algorithm ENCRYPTION_ALGORITHM a 0 p else p) this enum"

definition proposal_add_supported_ike :: "supported \<Rightarrow> bool \<Rightarrow> proposal \<Rightarrow> proposal option" where
  "proposal_add_supported_ike S aead this =
     (let t1 = (if aead then
                  add_round ENCRYPTION_ALGORITHM [ENCR_AES_GCM_ICV12, ENCR_AES_GCM_ICV8, ENCR_AES_CCM_ICV12, ENCR_AES_CCM_ICV8,
                      ENCR_CAMELLIA_CCM_ICV12, ENCR_CAMELLIA_CCM_ICV8] [128, 192, 256] (sup_aead S)
                    (add_aead_strong (sup_aead S) this)
                else
                  add_round ENCRYPTION_ALGORITHM [ENCR_3DES] [0] (sup_crypter S)
                    (add_round ENCRYPTION_ALGORITHM [ENCR_AES_CBC, ENCR_AES_CTR, ENCR_CAMELLIA_CBC, ENCR_CAMELLIA_CTR]
                      [128, 192, 256] (sup_crypter S) this)) in
      if transforms t1 = [] then None
      else
        let t2 = (if aead then t1
                  else
                    add_round INTEGRITY_ALGORITHM [AUTH_AES_XCBC_96, AUTH_AES_CMAC_96, AUTH_HMAC_SHA1_96] [0] (sup_signer S)
                      (add_round INTEGRITY_ALGORITHM [AUTH_HMAC_SHA2_256_128, AUTH_HMAC_SHA2_384_192, AUTH_HMAC_SHA2_512_256] [0]
                        (sup_signer S) t1));
            t3 = add_round PSEUDO_RANDOM_FUNCTION [PRF_HMAC_SHA1] [0] (sup_prf S)
                   (add_round PSEUDO_RANDOM_FUNCTION [PRF_HMAC_SHA2_256, PRF_HMAC_SHA2_384, PRF_HMAC_SHA2_512, PRF_AES128_XCBC,
                      PRF_AES128_CMAC] [0] (sup_prf S) t2) in
        Some (add_round DIFFIE_HELLMAN_GROUP [14] [0] (sup_dh S)
               (add_round DIFFIE_HELLMAN_GROUP [15, 16, 17, 18] [0] (sup_dh S)
                 (add_round DIFFIE_HELLMAN_GROUP [19, 20, 21, 28, 29, 30, 31, 32, 1031, 1032, 1033, 1040] [0] (sup_dh S) t3))))"

definition add_listed :: "(nat \<times> 16 word \<times> 16 word) list \<Rightarrow> proposal \<Rightarrow> proposal" where
  "add_listed xs this = foldl (\<lambda>p (t, alg, ks). add_algorithm t alg ks p) this xs"

definition default_integrity :: "(nat \<times> 16 word \<times> 16 word) list" where
  "default_integrity =
     [(INTEGRITY_ALGORITHM, AUTH_HMAC_SHA2_256_128, 0), (INTEGRITY_ALGORITHM, AUTH_HMAC_SHA2_384_192, 0),
      (INTEGRITY_ALGORITHM, AUTH_HMAC_SHA2_512_256, 0), (INTEGRITY_ALGORITHM, AUTH_HMAC_SHA1_96, 0),
      (INTEGRITY_ALGORITHM, AUTH_AES_XCBC_96, 0), (EXTENDED_SEQUENCE_NUMBERS, NO_EXT_SEQ_NUMBERS, 0)]"

definition proposal_create_default :: "supported \<Rightarrow> protocol_id \<Rightarrow> proposal option" where
  "proposal_create_default S proto =
     (let this = proposal_create proto 0 in
      case proto of
        PROTO_IKE \<Rightarrow> proposal_add_supported_ike S False this
      | PROTO_ESP \<Rightarrow>
          Some (add_listed ([(ENCRYPTION_ALGORITHM, ENCR_AES_CBC, 128), (ENCRYPTION_ALGORITHM, ENCR_AES_CBC, 192),
                             (ENCRYPTION_ALGORITHM, ENCR_AES_CBC, 256)] @ default_integrity) this)
      | PROTO_AH \<Rightarrow> Some (add_listed default_integrity this)
      | _ \<Rightarrow> Some this)"

definition proposal_create_default_aead :: "supported \<Rightarrow> protocol_id \<Rightarrow> proposal option" where
  "proposal_create_default_aead S proto =
     (case proto of
        PROTO_IKE \<Rightarrow> proposal_add_supported_ike S True (proposal_create proto 0)
      | PROTO_ESP \<Rightarrow>
          Some (add_listed [(ENCRYPTION_ALGORITHM, ENCR_AES_GCM_ICV16, 128), (ENCRYPTION_ALGORITHM, ENCR_AES_GCM_ICV16, 192),
                            (ENCRYPTION_ALGORITHM, ENCR_AES_GCM_ICV16, 256)] (proposal_create proto 0))
      | _ \<Rightarrow> None)"

section \<open>What a selection should be\<close>

text \<open>
  The types are those of the transforms, in the order of \<open>type_for_sort\<close>.
\<close>

definition proposal_wf :: "proposal \<Rightarrow> bool" where
  "proposal_wf p \<longleftrightarrow> set (types p) = e_type ` set (transforms p) \<and> distinct (types p)"

text \<open>The first algorithm of the one that the other has as well, private ones excepted on request.\<close>

definition best :: "proposal \<Rightarrow> proposal \<Rightarrow> selection_flags \<Rightarrow> nat \<Rightarrow> (16 word \<times> 16 word) option" where
  "best this other flags t = List.find (\<lambda>x. x \<in> set (algs t other) \<and> \<not> (skip_private flags \<and> fst x \<ge> 1024)) (algs t this)"

text \<open>Neither has the type; or one has no group and the other offers to have none.\<close>

definition none_ok :: "proposal \<Rightarrow> proposal \<Rightarrow> nat \<Rightarrow> bool" where
  "none_ok this other t \<longleftrightarrow> algs t this = [] \<and> algs t other = []
     \<or> t = DIFFIE_HELLMAN_GROUP \<and> protocol this \<in> {PROTO_ESP, PROTO_AH}
       \<and> (algs t this = [] \<and> 0 \<in> fst ` set (algs t other) \<or> algs t other = [] \<and> 0 \<in> fst ` set (algs t this))"

definition aead_chosen :: "proposal \<Rightarrow> proposal \<Rightarrow> selection_flags \<Rightarrow> bool" where
  "aead_chosen this other flags \<longleftrightarrow> (\<exists>a k. best this other flags ENCRYPTION_ALGORITHM = Some (a, k) \<and> encryption_algorithm_is_aead a)"

definition waived :: "proposal \<Rightarrow> proposal \<Rightarrow> selection_flags \<Rightarrow> nat \<Rightarrow> bool" where
  "waived this other flags t \<longleftrightarrow> t = INTEGRITY_ALGORITHM \<and> aead_chosen this other flags \<or> t = DIFFIE_HELLMAN_GROUP \<and> skip_dh flags"

definition acceptable :: "proposal \<Rightarrow> proposal \<Rightarrow> selection_flags \<Rightarrow> nat \<Rightarrow> bool" where
  "acceptable this other flags t \<longleftrightarrow> waived this other flags t \<or> none_ok this other t \<or> best this other flags t \<noteq> None"

definition negotiated :: "proposal \<Rightarrow> proposal \<Rightarrow> selection_flags \<Rightarrow> nat \<Rightarrow> (16 word \<times> 16 word) list" where
  "negotiated this other flags t =
     (if waived this other flags t then []
      else (case best this other flags t of
              None \<Rightarrow> []
            | Some (a, k) \<Rightarrow> if a = 0 \<and> t \<noteq> EXTENDED_SEQUENCE_NUMBERS then [] else [(a, k)]))"

section \<open>Lemmas\<close>

lemma algs_add_algorithm [simp]: "algs t (add_algorithm t' a k p) = algs t p @ (if t = t' then [(a, k)] else [])"
  by (simp add: algs_def add_algorithm_def)

lemma add_algorithm_fields [simp]:
  "protocol (add_algorithm t a k p) = protocol p" "p_spi (add_algorithm t a k p) = p_spi p"
  "p_number (add_algorithm t a k p) = p_number p" "types (add_algorithm t a k p) = add_type t (types p)"
  by (simp_all add: add_algorithm_def)

lemma add_type_props:
  "set (add_type t ts) = insert t (set ts)" "distinct ts \<Longrightarrow> distinct (add_type t ts)"
  "sorted (map type_for_sort ts) \<Longrightarrow> sorted (map type_for_sort (add_type t ts))"
  by (auto simp: add_type_def set_insort_key distinct_insort sorted_insort_key)

lemma merge_loop:
  fixes a b :: "nat list"
  assumes "distinct ts" "sorted (map type_for_sort ts)"
  defines "step \<equiv> \<lambda>ts i. let ts1 = (if i < length a then add_type (a ! i) ts else ts) in
         if i < length b then add_type (b ! i) ts1 else ts1"
  shows "set (foldl step ts is) = set ts \<union> {a ! i | i. i \<in> set is \<and> i < length a} \<union> {b ! i | i. i \<in> set is \<and> i < length b}
    \<and> distinct (foldl step ts is) \<and> sorted (map type_for_sort (foldl step ts is))"
  using assms(1,2)
proof (induction "is" arbitrary: ts)
  case (Cons i "is")
  have "distinct (step ts i)" "sorted (map type_for_sort (step ts i))"
    using Cons.prems by (simp_all add: step_def Let_def add_type_props)
  from Cons.IH [OF this] show ?case by (auto simp: step_def Let_def add_type_props)
qed simp

lemma merge_types_props:
  "set (merge_types this other) = set (types this) \<union> set (types other)"
  "distinct (merge_types this other)" "sorted (map type_for_sort (merge_types this other))"
proof -
  have n: "{xs ! i | i. i \<in> set [0 ..< max m n] \<and> i < length xs} = set xs" if "length xs \<le> max m n" for xs :: "nat list" and m n
    using that by (auto simp: in_set_conv_nth) (metis dual_order.strict_trans1)
  show "set (merge_types this other) = set (types this) \<union> set (types other)"
    "distinct (merge_types this other)" "sorted (map type_for_sort (merge_types this other))"
    using merge_loop [of "[]" "types this" "types other" "[0 ..< max (length (types this)) (length (types other))]"]
    unfolding merge_types_def by (simp_all add: n del: set_upt)
qed

lemma select_algo_best:
  "select_algo this other t flags = (if none_ok this other t then Some (0, 0) else best this other flags t)"
proof -
  have z: "list_ex (\<lambda>(a, k). a = 0) l \<longleftrightarrow> 0 \<in> fst ` set l" for l :: "(16 word \<times> 16 word) list"
    by (force simp: list_ex_iff)
  have f: "(\<lambda>(a, k). (a, k) \<in> set l2 \<and> \<not> (skip_private flags \<and> a \<ge> 1024))
      = (\<lambda>x. x \<in> set l2 \<and> \<not> (skip_private flags \<and> fst x \<ge> 1024))" for l2 :: "(16 word \<times> 16 word) list"
    by auto
  have "none_ok this other t \<longleftrightarrow>
      (if algs t this = [] then (if algs t other = [] then True
         else (t = DIFFIE_HELLMAN_GROUP \<and> (protocol this = PROTO_ESP \<or> protocol this = PROTO_AH)) \<and> list_ex (\<lambda>(a, k). a = 0) (algs t other))
       else algs t other = [] \<and> (t = DIFFIE_HELLMAN_GROUP \<and> (protocol this = PROTO_ESP \<or> protocol this = PROTO_AH))
         \<and> list_ex (\<lambda>(a, k). a = 0) (algs t this))"
    unfolding none_ok_def z by (cases "algs t this = []"; cases "algs t other = []") auto
  then show ?thesis unfolding select_algo_def best_def Let_def f by simp
qed

lemma none_ok_best: "none_ok this other t \<Longrightarrow> best this other flags t = None"
  by (auto simp: none_ok_def best_def find_None_iff)

lemma algs_empty: "proposal_wf p \<Longrightarrow> algs t p = [] \<longleftrightarrow> t \<notin> set (types p)"
  by (auto simp: proposal_wf_def algs_def filter_empty_conv)

lemma integrity_last:
  assumes "sorted (map type_for_sort (INTEGRITY_ALGORITHM # ts))"
  shows "ENCRYPTION_ALGORITHM \<notin> set ts"
proof
  assume "ENCRYPTION_ALGORITHM \<in> set ts"
  then have "type_for_sort INTEGRITY_ALGORITHM \<le> type_for_sort ENCRYPTION_ALGORITHM" using assms by simp
  then show False by (simp add: type_for_sort_def)
qed

text \<open>
  The loop over types that at least one side has: it fails if one of them is not acceptable,
  and adds what is negotiated for each of them otherwise.  That the encryption algorithm is
  decided before the integrity algorithm rests on the order of the types.
\<close>

lemma select_loop_spec:
  assumes "proposal_wf this" "proposal_wf other"
    and "sorted (map type_for_sort ts)" "distinct ts" "set ts \<subseteq> set (types this) \<union> set (types other)"
    and "\<forall>t\<in>set ts. algs t selected = []"
    and "skip = (aead_chosen this other flags \<and> ENCRYPTION_ALGORITHM \<notin> set ts)"
  shows "case select_loop this other flags ts skip selected of
      None \<Rightarrow> \<exists>t\<in>set ts. \<not> acceptable this other flags t
    | Some s \<Rightarrow> (\<forall>t\<in>set ts. acceptable this other flags t) \<and> protocol s = protocol selected \<and> p_spi s = p_spi selected \<and> p_number s = p_number selected
        \<and> (\<forall>t. algs t s = (if t \<in> set ts then negotiated this other flags t else algs t selected))"
  using assms(3-7)
proof (induction ts arbitrary: skip selected)
  case (Cons t ts)
  have srt: "sorted (map type_for_sort ts)" "distinct ts" "set ts \<subseteq> set (types this) \<union> set (types other)" "t \<notin> set ts"
    using Cons.prems(1-3) by simp_all
  have ne: "\<not> (algs t this = [] \<and> algs t other = [])" using Cons.prems(3) algs_empty assms(1,2) by auto
  show ?case
  proof (cases "waived this other flags t")
    case True
    have i: "t = INTEGRITY_ALGORITHM \<Longrightarrow> \<not> skip_dh flags \<or> True \<Longrightarrow> aead_chosen this other flags \<Longrightarrow> skip"
      using Cons.prems(1,5) integrity_last by auto
    have e: "select_loop this other flags (t # ts) skip selected = select_loop this other flags ts skip selected"
      using True i by (auto simp: waived_def)
    have "t \<noteq> ENCRYPTION_ALGORITHM" using True by (auto simp: waived_def)
    then have "skip = (aead_chosen this other flags \<and> ENCRYPTION_ALGORITHM \<notin> set ts)" using Cons.prems(5) by auto
    from Cons.IH [OF srt(1-3) _ this, of selected] Cons.prems(4) show ?thesis
      using True srt(4) unfolding e
      by (auto split: option.splits simp: acceptable_def negotiated_def [of _ _ _ t])
  next
    case False
    have skp: "\<not> (t = INTEGRITY_ALGORITHM \<and> skip)" "\<not> (t = DIFFIE_HELLMAN_GROUP \<and> skip_dh flags)"
      using False Cons.prems(5) by (auto simp: waived_def)
    show ?thesis
    proof (cases "select_algo this other t flags")
      case None
      then have "\<not> acceptable this other flags t" using False by (auto simp: acceptable_def select_algo_best split: if_splits)
      then show ?thesis using None skp by auto
    next
      case (Some x)
      obtain a k where x: "x = (a, k)" by force
      have acc: "acceptable this other flags t" using Some by (auto simp: acceptable_def select_algo_best split: if_splits)
      have n: "negotiated this other flags t = (if a = 0 \<and> t \<noteq> EXTENDED_SEQUENCE_NUMBERS then [] else [(a, k)])"
        using Some x False ne none_ok_best [of this other t flags] by (auto simp: negotiated_def select_algo_best none_ok_def split: if_splits)
      have aead: "t = ENCRYPTION_ALGORITHM \<Longrightarrow> aead_chosen this other flags \<longleftrightarrow> encryption_algorithm_is_aead a"
        using Some x ne by (auto simp: aead_chosen_def select_algo_best none_ok_def split: if_splits)
      have na: "\<not> encryption_algorithm_is_aead 0" by (simp add: encryption_algorithm_is_aead_def)
      define sel where "sel = (if a = 0 \<and> t \<noteq> EXTENDED_SEQUENCE_NUMBERS then selected else add_algorithm t a k selected)"
      define sk where "sk = (if a = 0 \<and> t \<noteq> EXTENDED_SEQUENCE_NUMBERS then skip else skip \<or> t = ENCRYPTION_ALGORITHM \<and> encryption_algorithm_is_aead a)"
      have e: "select_loop this other flags (t # ts) skip selected = select_loop this other flags ts sk sel"
        using skp Some x by (auto simp: sel_def sk_def)
      have "sk = (aead_chosen this other flags \<and> ENCRYPTION_ALGORITHM \<notin> set ts)"
        using Cons.prems(5) aead srt(4) na by (cases "t = ENCRYPTION_ALGORITHM") (auto simp: sk_def)
      moreover have "\<forall>t\<in>set ts. algs t sel = []" using Cons.prems(4) srt(4) by (auto simp: sel_def)
      ultimately have IH: "case select_loop this other flags ts sk sel of
            None \<Rightarrow> \<exists>t\<in>set ts. \<not> acceptable this other flags t
          | Some s \<Rightarrow> (\<forall>t\<in>set ts. acceptable this other flags t) \<and> protocol s = protocol sel \<and> p_spi s = p_spi sel \<and> p_number s = p_number sel
              \<and> (\<forall>t. algs t s = (if t \<in> set ts then negotiated this other flags t else algs t sel))"
        using Cons.IH srt by blast
      have "algs u sel = (if u = t then negotiated this other flags t else algs u selected)" for u
        using Cons.prems(4) by (simp add: sel_def n)
      moreover have "protocol sel = protocol selected" "p_spi sel = p_spi selected" "p_number sel = p_number selected" by (simp_all add: sel_def)
      ultimately show ?thesis using IH acc srt(4) unfolding e by (auto split: option.splits)
    qed
  qed
qed simp

lemma unacceptable_offered:
  assumes "proposal_wf this" "proposal_wf other" "\<not> acceptable this other flags t"
  shows "t \<in> set (types this) \<union> set (types other)"
  using assms algs_empty by (auto simp: acceptable_def none_ok_def)

lemma negotiated_not_offered:
  assumes "proposal_wf this" "t \<notin> set (types this) \<union> set (types other)"
  shows "negotiated this other flags t = []"
  using assms algs_empty [of this t] by (simp add: negotiated_def best_def)

lemma select_algos_spec:
  assumes "proposal_wf this" "proposal_wf other" "transforms selected = []"
  shows "case select_algos this other selected flags of
      None \<Rightarrow> \<not> (\<forall>t. acceptable this other flags t)
    | Some s \<Rightarrow> (\<forall>t. acceptable this other flags t) \<and> protocol s = protocol selected \<and> p_spi s = p_spi selected \<and> p_number s = p_number selected
        \<and> (\<forall>t. algs t s = negotiated this other flags t)"
proof -
  have n: "algs t selected = []" for t using assms(3) by (simp add: algs_def)
  have "False = (aead_chosen this other flags \<and> ENCRYPTION_ALGORITHM \<notin> set (merge_types this other))"
  proof -
    have "best this other flags ENCRYPTION_ALGORITHM = None" if "ENCRYPTION_ALGORITHM \<notin> set (types this)"
      using algs_empty [OF assms(1), of ENCRYPTION_ALGORITHM] that by (simp add: best_def)
    then show ?thesis by (auto simp: aead_chosen_def merge_types_props)
  qed
  note L = select_loop_spec [OF assms(1,2) merge_types_props(3,2) _ _ this, of selected]
  have L: "case select_algos this other selected flags of
      None \<Rightarrow> \<exists>t\<in>set (types this) \<union> set (types other). \<not> acceptable this other flags t
    | Some s \<Rightarrow> (\<forall>t\<in>set (types this) \<union> set (types other). acceptable this other flags t)
        \<and> protocol s = protocol selected \<and> p_spi s = p_spi selected \<and> p_number s = p_number selected
        \<and> (\<forall>t. algs t s = (if t \<in> set (types this) \<union> set (types other) then negotiated this other flags t else algs t selected))"
    using L n unfolding select_algos_def merge_types_props(1) by simp
  show ?thesis
  proof (cases "select_algos this other selected flags")
    case None
    with L show ?thesis by auto
  next
    case (Some s)
    with L have s: "\<forall>t\<in>set (types this) \<union> set (types other). acceptable this other flags t"
        "protocol s = protocol selected" "p_spi s = p_spi selected" "p_number s = p_number selected"
        "\<And>t. algs t s = (if t \<in> set (types this) \<union> set (types other) then negotiated this other flags t else algs t selected)"
      by auto
    have "acceptable this other flags t" for t using s(1) unacceptable_offered [OF assms(1,2)] by blast
    moreover have "algs t s = negotiated this other flags t" for t
      using s(5) [of t] n negotiated_not_offered [OF assms(1), of t other flags] by (cases "t \<in> set (types this) \<union> set (types other)") simp_all
    ultimately show ?thesis using Some s(2-4) by auto
  qed
qed

lemma select_proposal_spec:
  fixes flags :: selection_flags
  assumes "proposal_wf this" "proposal_wf other"
  defines "source \<equiv> if prefer_supplied flags then this else other"
  shows "case select_proposal this other flags of
      None \<Rightarrow> protocol this \<noteq> protocol other \<or> \<not> (\<forall>t. acceptable this other flags t)
    | Some s \<Rightarrow> protocol this = protocol other \<and> (\<forall>t. acceptable this other flags t) \<and> protocol s = protocol this
        \<and> p_spi s = p_spi source \<and> p_number s = p_number source \<and> (\<forall>t. algs t s = negotiated this other flags t)"
proof -
  define sel where "sel = (proposal_create_v1 (protocol this) (p_number source) (transform_number source))\<lparr>p_spi := p_spi source\<rparr>"
  have f: "transforms sel = []" "protocol sel = protocol this" "p_spi sel = p_spi source" "p_number sel = p_number source"
    by (simp_all add: sel_def proposal_create_v1_def)
  have "select_proposal this other flags = (if protocol this \<noteq> protocol other then None else select_algos this other sel flags)"
    by (simp add: select_proposal_def source_def sel_def Let_def)
  then show ?thesis using select_algos_spec [OF assms(1,2) f(1), of flags] f(2-4) by (auto split: option.splits)
qed

text \<open>
  C13. Negotiation meets its specification: for two well-formed proposals a proposal is selected
  exactly if the protocols agree and every type of transform is acceptable (some algorithm is
  common, or the type is not needed: integrity beside an AEAD, a group one side may leave out,
  a group when groups are skipped); and the selected proposal has for every type just the
  algorithm of the preferred side that comes first among the common ones, the SPI and the
  number being those of the supplied proposal.
\<close>

theorem select_proposal_correct:
  assumes "proposal_wf this" "proposal_wf other"
  shows "(select_proposal this other flags \<noteq> None \<longleftrightarrow> protocol this = protocol other \<and> (\<forall>t. acceptable this other flags t))
    \<and> (\<forall>s. select_proposal this other flags = Some s \<longrightarrow>
         protocol s = protocol this \<and> (\<forall>t. algs t s = negotiated this other flags t)
         \<and> (let supplied = if prefer_supplied flags then this else other in p_spi s = p_spi supplied \<and> p_number s = p_number supplied))"
  using select_proposal_spec [OF assms, of flags] unfolding Let_def by (auto split: option.splits)

text \<open>All or none of the encryption algorithms are AEADs, as \<open>check_proposal\<close> demands.\<close>

definition unmixed :: "proposal \<Rightarrow> bool" where
  "unmixed p \<longleftrightarrow> (\<forall>x\<in>set (algs ENCRYPTION_ALGORITHM p). encryption_algorithm_is_aead (fst x))
     \<or> (\<forall>x\<in>set (algs ENCRYPTION_ALGORITHM p). \<not> encryption_algorithm_is_aead (fst x))"

lemma best_exists: "best this other flags t \<noteq> None \<longleftrightarrow>
    (\<exists>x. x \<in> set (algs t this) \<and> x \<in> set (algs t other) \<and> \<not> (skip_private flags \<and> fst x \<ge> 1024))"
  unfolding best_def find_None_iff by blast

lemma best_member: "best this other flags t = Some x \<Longrightarrow> x \<in> set (algs t this) \<and> x \<in> set (algs t other)"
  unfolding best_def by (auto simp: find_Some_iff)

lemma aead_chosen_sym:
  assumes "unmixed this"
  shows "aead_chosen this other flags = aead_chosen other this flags"
proof -
  have e: "best this other flags ENCRYPTION_ALGORITHM \<noteq> None \<longleftrightarrow> best other this flags ENCRYPTION_ALGORITHM \<noteq> None"
    unfolding best_exists by blast
  have m: "encryption_algorithm_is_aead (fst x) = encryption_algorithm_is_aead (fst y)"
    if "best this other flags ENCRYPTION_ALGORITHM = Some x" "best other this flags ENCRYPTION_ALGORITHM = Some y" for x y
    using best_member that assms unfolding unmixed_def by metis
  show ?thesis unfolding aead_chosen_def using e m by (metis fst_conv not_None_eq surj_pair)
qed

lemma acceptable_sym:
  assumes "unmixed this" "protocol this = protocol other"
  shows "acceptable this other flags t = acceptable other this flags t"
proof -
  have "waived this other flags t = waived other this flags t" using aead_chosen_sym [OF assms(1)] by (simp add: waived_def)
  moreover have "none_ok this other t = none_ok other this t" using assms(2) by (auto simp: none_ok_def)
  moreover have "(best this other flags t \<noteq> None) = (best other this flags t \<noteq> None)" unfolding best_exists by blast
  ultimately show ?thesis by (simp add: acceptable_def)
qed

lemma matches_symmetric:
  assumes "proposal_wf this" "proposal_wf other" "unmixed this"
  shows "matches this other flags = matches other this flags"
  using select_algos_spec [OF assms(1,2), of "proposal_create PROTO_NONE 0" flags]
    select_algos_spec [OF assms(2,1), of "proposal_create PROTO_NONE 0" flags] acceptable_sym [OF assms(3), of other flags]
  unfolding matches_def by (auto simp: proposal_create_def proposal_create_v1_def split: option.splits)

section \<open>Configured proposals\<close>

lemma wf_create: "proposal_wf (proposal_create proto num)"
  by (simp add: proposal_wf_def proposal_create_def proposal_create_v1_def)

lemma wf_add_algorithm: "proposal_wf p \<Longrightarrow> proposal_wf (add_algorithm t a k p)"
  by (auto simp: proposal_wf_def add_algorithm_def add_type_props)

lemma remove_transform_props [simp]:
  "protocol (remove_transform t p) = protocol p" "algs t' (remove_transform t p) = (if t' = t then [] else algs t' p)"
  by (auto simp: remove_transform_def remove_type_def algs_def filter_empty_conv intro: filter_cong arg_cong [where f = "map _"])

lemma wf_remove_transform: "proposal_wf p \<Longrightarrow> proposal_wf (remove_transform t p)"
  by (auto simp: proposal_wf_def remove_transform_def remove_type_def)

lemma get_algorithm_None [simp]: "get_algorithm t p = None \<longleftrightarrow> algs t p = []"
  by (simp add: get_algorithm_def split: list.split)

lemma add_tokens_props:
  "add_tokens get_token toks p = Some q \<Longrightarrow> proposal_wf p \<Longrightarrow> proposal_wf q \<and> protocol q = protocol p"
  by (induction toks arbitrary: p) (auto split: option.splits simp: wf_add_algorithm)

text \<open>The loop that derives PRFs from integrity algorithms adds only PRFs.\<close>

lemma add_prf_for_props:
  "protocol (foldl add_prf_for p xs) = protocol p \<and> (proposal_wf p \<longrightarrow> proposal_wf (foldl add_prf_for p xs))"
proof (induction xs arbitrary: p)
  case (Cons x xs)
  then show ?case using Cons.IH [of "add_prf_for p x"] by (auto simp: add_prf_for_def wf_add_algorithm split: option.split)
qed simp

lemma check_prf_dh_props:
  assumes "check_prf_dh p = Some q" "proposal_wf p"
  shows "protocol q = protocol p" "proposal_wf q"
    and "protocol p = PROTO_IKE \<Longrightarrow> algs PSEUDO_RANDOM_FUNCTION q \<noteq> [] \<and> algs DIFFIE_HELLMAN_GROUP q \<noteq> [] \<and> 0 \<notin> fst ` set (algs DIFFIE_HELLMAN_GROUP q)"
    and "protocol p \<noteq> PROTO_IKE \<Longrightarrow> algs PSEUDO_RANDOM_FUNCTION q = []"
proof -
  define t1 where "t1 = (if get_algorithm PSEUDO_RANDOM_FUNCTION p = None then foldl add_prf_for p (algs INTEGRITY_ALGORITHM p) else p)"
  have t1: "protocol t1 = protocol p" "proposal_wf t1"
    using add_prf_for_props [of p "algs INTEGRITY_ALGORITHM p"] assms(2) by (simp_all add: t1_def)
  define keep where "keep = (\<lambda>e :: entry. \<not> (e_type e = DIFFIE_HELLMAN_GROUP \<and> e_alg e = 0))"
  define t2 where "t2 = t1\<lparr>transforms := filter keep (transforms t1)\<rparr>"
  have e: "check_prf_dh p = (if protocol p = PROTO_IKE then
      if algs PSEUDO_RANDOM_FUNCTION t1 = [] then None else if algs DIFFIE_HELLMAN_GROUP t2 = [] then None else Some t2
    else Some (remove_transform PSEUDO_RANDOM_FUNCTION p))"
    by (simp add: check_prf_dh_def t1_def t2_def keep_def Let_def)
  have a: "algs t t2 = algs t t1" if "t \<noteq> DIFFIE_HELLMAN_GROUP" for t
    using that by (auto simp: t2_def algs_def keep_def intro: filter_cong arg_cong [where f = "map _"])
  have z: "0 \<notin> fst ` set (algs DIFFIE_HELLMAN_GROUP t2)" by (auto simp: t2_def algs_def keep_def)
  have "proposal_wf t2" if "algs DIFFIE_HELLMAN_GROUP t2 \<noteq> []"
  proof -
    have "e_type ` set (filter keep (transforms t1)) = e_type ` set (transforms t1)"
    proof (intro equalityI subsetI)
      fix t assume "t \<in> e_type ` set (transforms t1)"
      then show "t \<in> e_type ` set (filter keep (transforms t1))"
        using that by (cases "t = DIFFIE_HELLMAN_GROUP") (auto simp: t2_def algs_def filter_empty_conv keep_def image_iff)
    qed auto
    then show ?thesis using t1 by (simp add: proposal_wf_def t2_def)
  qed
  then show "protocol q = protocol p" "proposal_wf q"
    "protocol p = PROTO_IKE \<Longrightarrow> algs PSEUDO_RANDOM_FUNCTION q \<noteq> [] \<and> algs DIFFIE_HELLMAN_GROUP q \<noteq> [] \<and> 0 \<notin> fst ` set (algs DIFFIE_HELLMAN_GROUP q)"
    "protocol p \<noteq> PROTO_IKE \<Longrightarrow> algs PSEUDO_RANDOM_FUNCTION q = []"
    using assms t1 a z wf_remove_transform unfolding e by (auto split: if_splits simp: t2_def)
qed

lemma gmac_algs:
  "algs ENCRYPTION_ALGORITHM (p\<lparr>transforms := concat (map map_gmac ts), types := x\<rparr>) = []"
  "t \<noteq> ENCRYPTION_ALGORITHM \<Longrightarrow> t \<noteq> INTEGRITY_ALGORITHM \<Longrightarrow> algs t (p\<lparr>transforms := concat (map map_gmac ts), types := x\<rparr>) = algs t (p\<lparr>transforms := ts\<rparr>)"
  by (induction ts) (auto simp: algs_def map_gmac_def)

definition all_aead :: "proposal \<Rightarrow> bool" where
  "all_aead p \<longleftrightarrow> (\<forall>x\<in>set (algs ENCRYPTION_ALGORITHM p). encryption_algorithm_is_aead (fst x))"

lemma list_ex_aead: "list_ex (\<lambda>(a, k). P a) xs \<longleftrightarrow> (\<exists>x\<in>set xs. P (fst x))" "list_all (\<lambda>(a, k). P a) xs \<longleftrightarrow> (\<forall>x\<in>set xs. P (fst x))"
  by (force simp: list_ex_iff list_all_iff)+

lemma check_encr_integ_props:
  assumes "check_encr_integ p = Some q"
  shows "protocol q = protocol p"
    and "\<And>t. t \<noteq> ENCRYPTION_ALGORITHM \<Longrightarrow> t \<noteq> INTEGRITY_ALGORITHM \<Longrightarrow> algs t q = algs t p"
    and "protocol p \<in> {PROTO_IKE, PROTO_ESP} \<Longrightarrow> algs ENCRYPTION_ALGORITHM q \<noteq> [] \<and> unmixed q
      \<and> (all_aead q \<longrightarrow> algs INTEGRITY_ALGORITHM q = []) \<and> (proposal_wf p \<longrightarrow> proposal_wf q)"
    and "protocol p = PROTO_IKE \<Longrightarrow> algs INTEGRITY_ALGORITHM q = [] \<Longrightarrow> all_aead q"
    and "protocol p = PROTO_AH \<Longrightarrow> algs ENCRYPTION_ALGORITHM q = [] \<and> algs INTEGRITY_ALGORITHM q \<noteq> []"
proof -
  define t where "t = remove_type ENCRYPTION_ALGORITHM (p\<lparr>transforms := concat (map map_gmac (transforms p))\<rparr>)"
  have e: "check_encr_integ p = (if protocol p = PROTO_IKE \<or> protocol p = PROTO_ESP then
      if algs ENCRYPTION_ALGORITHM p = [] then None else if \<not> unmixed p then None
      else if all_aead p then Some (remove_transform INTEGRITY_ALGORITHM p)
      else if protocol p = PROTO_IKE \<and> algs INTEGRITY_ALGORITHM p = [] then None else Some p
    else if algs INTEGRITY_ALGORITHM t = [] then None else Some t)"
    unfolding check_encr_integ_def Let_def t_def [symmetric] get_algorithm_None list_ex_aead unmixed_def all_aead_def
    by (intro if_cong refl) blast+
  have t: "protocol t = protocol p" "algs ENCRYPTION_ALGORITHM t = []"
      "u \<noteq> ENCRYPTION_ALGORITHM \<Longrightarrow> u \<noteq> INTEGRITY_ALGORITHM \<Longrightarrow> algs u t = algs u p" for u
    unfolding t_def remove_type_def using gmac_algs(1) [where p = p and ts = "transforms p"] gmac_algs(2) [where t = u and p = p and ts = "transforms p"] by simp_all
  have r: "unmixed (remove_transform INTEGRITY_ALGORITHM p) = unmixed p" "all_aead (remove_transform INTEGRITY_ALGORITHM p) = all_aead p"
    by (simp_all add: unmixed_def all_aead_def)
  note a = assms [unfolded e]
  show "protocol q = protocol p" using a t(1) by (auto split: if_splits)
  show "\<And>t. t \<noteq> ENCRYPTION_ALGORITHM \<Longrightarrow> t \<noteq> INTEGRITY_ALGORITHM \<Longrightarrow> algs t q = algs t p"
    using a t(3) by (auto split: if_splits)
  show "protocol p \<in> {PROTO_IKE, PROTO_ESP} \<Longrightarrow> algs ENCRYPTION_ALGORITHM q \<noteq> [] \<and> unmixed q
      \<and> (all_aead q \<longrightarrow> algs INTEGRITY_ALGORITHM q = []) \<and> (proposal_wf p \<longrightarrow> proposal_wf q)"
    using a r wf_remove_transform by (auto split: if_splits)
  show "protocol p = PROTO_IKE \<Longrightarrow> algs INTEGRITY_ALGORITHM q = [] \<Longrightarrow> all_aead q" using a r(2) by (auto split: if_splits)
  show "protocol p = PROTO_AH \<Longrightarrow> algs ENCRYPTION_ALGORITHM q = [] \<and> algs INTEGRITY_ALGORITHM q \<noteq> []"
    using a t(2) by (auto split: if_splits)
qed

text \<open>
  What a configuration string is accepted for: an IKE proposal has an encryption algorithm, a
  PRF, a group other than none, and an integrity algorithm just when its encryption algorithms
  are no AEADs; an ESP proposal has an encryption algorithm and a choice of sequence numbers,
  and no PRF; neither mixes AEADs with other ciphers, and both are well-formed, so that they can
  be negotiated; an AH proposal has an integrity algorithm and no encryption algorithm.
\<close>

theorem configured_proposal_complete:
  assumes "proposal_create_from_string get_token proto tokens = Some p"
  shows "protocol p = proto
    \<and> (proto = PROTO_IKE \<longrightarrow> algs PSEUDO_RANDOM_FUNCTION p \<noteq> [] \<and> algs DIFFIE_HELLMAN_GROUP p \<noteq> [] \<and> 0 \<notin> fst ` set (algs DIFFIE_HELLMAN_GROUP p)
        \<and> algs ENCRYPTION_ALGORITHM p \<noteq> [] \<and> unmixed p \<and> (algs INTEGRITY_ALGORITHM p = [] \<longleftrightarrow> all_aead p) \<and> proposal_wf p)
    \<and> (proto = PROTO_ESP \<longrightarrow> algs PSEUDO_RANDOM_FUNCTION p = [] \<and> algs EXTENDED_SEQUENCE_NUMBERS p \<noteq> []
        \<and> algs ENCRYPTION_ALGORITHM p \<noteq> [] \<and> unmixed p \<and> (all_aead p \<longrightarrow> algs INTEGRITY_ALGORITHM p = []) \<and> proposal_wf p)
    \<and> (proto = PROTO_AH \<longrightarrow> algs PSEUDO_RANDOM_FUNCTION p = [] \<and> algs ENCRYPTION_ALGORITHM p = []
        \<and> algs INTEGRITY_ALGORITHM p \<noteq> [] \<and> algs EXTENDED_SEQUENCE_NUMBERS p \<noteq> [])"
proof -
  obtain p0 where p0: "add_tokens get_token tokens (proposal_create proto 0) = Some p0" "check_proposal p0 = Some p"
    using assms by (auto simp: proposal_create_from_string_def split: if_splits option.splits)
  have w0: "proposal_wf p0" "protocol p0 = proto"
    using add_tokens_props [OF p0(1) wf_create] by (simp_all add: proposal_create_def proposal_create_v1_def)
  obtain p1 p2 where p: "check_prf_dh p0 = Some p1" "check_encr_integ p1 = Some p2"
      "p = (if (protocol p2 = PROTO_AH \<or> protocol p2 = PROTO_ESP) \<and> algs EXTENDED_SEQUENCE_NUMBERS p2 = []
            then add_algorithm EXTENDED_SEQUENCE_NUMBERS NO_EXT_SEQ_NUMBERS 0 p2 else p2)"
    using p0(2) by (auto simp: check_proposal_def split: option.splits)
  note c1 = check_prf_dh_props [OF p(1) w0(1)] and c2 = check_encr_integ_props [OF p(2)]
  have pr: "protocol p1 = proto" "protocol p2 = proto" "protocol p = proto" using c1(1) c2(1) w0(2) p(3) by simp_all
  have a: "algs ENCRYPTION_ALGORITHM p = algs ENCRYPTION_ALGORITHM p2" "algs INTEGRITY_ALGORITHM p = algs INTEGRITY_ALGORITHM p2"
      "algs PSEUDO_RANDOM_FUNCTION p = algs PSEUDO_RANDOM_FUNCTION p1" "algs DIFFIE_HELLMAN_GROUP p = algs DIFFIE_HELLMAN_GROUP p1"
    using p(3) c2(2) by simp_all
  have b: "unmixed p = unmixed p2" "all_aead p = all_aead p2" using a(1) by (simp_all add: unmixed_def all_aead_def)
  have w: "proposal_wf p2 \<Longrightarrow> proposal_wf p" using p(3) wf_add_algorithm by simp
  have esn: "algs EXTENDED_SEQUENCE_NUMBERS p \<noteq> []" if "proto = PROTO_AH \<or> proto = PROTO_ESP" using p(3) pr(2) that by auto
  have e: "algs ENCRYPTION_ALGORITHM p2 \<noteq> [] \<and> unmixed p2 \<and> (all_aead p2 \<longrightarrow> algs INTEGRITY_ALGORITHM p2 = []) \<and> proposal_wf p2"
    if "proto = PROTO_IKE \<or> proto = PROTO_ESP"
    using c2(3) c1(2) pr(1) that by blast
  have i: "algs INTEGRITY_ALGORITHM p2 = [] \<Longrightarrow> all_aead p2" if "proto = PROTO_IKE" using c2(4) pr(1) that by blast
  have ah: "algs ENCRYPTION_ALGORITHM p2 = [] \<and> algs INTEGRITY_ALGORITHM p2 \<noteq> []" if "proto = PROTO_AH" using c2(5) pr(1) that by blast
  have k: "algs PSEUDO_RANDOM_FUNCTION p1 \<noteq> [] \<and> algs DIFFIE_HELLMAN_GROUP p1 \<noteq> [] \<and> 0 \<notin> fst ` set (algs DIFFIE_HELLMAN_GROUP p1)"
    if "proto = PROTO_IKE" using c1(3) w0(2) that by blast
  have n: "algs PSEUDO_RANDOM_FUNCTION p1 = []" if "proto \<noteq> PROTO_IKE" using c1(4) w0(2) that by blast
  show ?thesis unfolding a b pr(3) by (cases proto) (use e i ah k n esn w in \<open>simp_all, blast+\<close>)
qed

text \<open>
  The default AEAD proposal for ESP has no transform for extended sequence numbers, which every
  ESP proposal on the wire has to have: it is never selected, whichever side it is on.
\<close>

theorem default_aead_never_selected:
  assumes "proposal_wf other" "algs EXTENDED_SEQUENCE_NUMBERS other \<noteq> []"
  shows "\<exists>p. proposal_create_default_aead S PROTO_ESP = Some p \<and> select_proposal p other flags = None \<and> select_proposal other p flags = None"
proof -
  define p where "p = add_listed [(ENCRYPTION_ALGORITHM, ENCR_AES_GCM_ICV16, 128), (ENCRYPTION_ALGORITHM, ENCR_AES_GCM_ICV16, 192),
      (ENCRYPTION_ALGORITHM, ENCR_AES_GCM_ICV16, 256)] (proposal_create PROTO_ESP 0)"
  have w: "proposal_wf p" by (simp add: p_def add_listed_def wf_add_algorithm wf_create)
  have "algs EXTENDED_SEQUENCE_NUMBERS p = []"
    by (simp add: p_def add_listed_def) (simp add: algs_def proposal_create_def proposal_create_v1_def)
  then have n: "\<not> acceptable p other flags EXTENDED_SEQUENCE_NUMBERS" "\<not> acceptable other p flags EXTENDED_SEQUENCE_NUMBERS"
    using assms(2) by (auto simp: acceptable_def waived_def none_ok_def best_def find_None_iff)
  have s: "select_proposal a b flags = None" if "proposal_wf a" "proposal_wf b" "\<not> acceptable a b flags EXTENDED_SEQUENCE_NUMBERS" for a b
    using select_proposal_spec [OF that(1,2), of flags] that(3) by (auto split: option.splits)
  show ?thesis using s [OF w assms(1) n(1)] s [OF assms(1) w n(2)]
    by (simp add: proposal_create_default_aead_def p_def)
qed

section \<open>Witnesses\<close>

definition sample_flags :: selection_flags where
  "sample_flags = \<lparr>prefer_supplied = False, skip_private = True, skip_dh = False\<rparr>"

definition sample_ike :: proposal where
  "sample_ike = add_listed [(ENCRYPTION_ALGORITHM, ENCR_AES_CBC, 256), (ENCRYPTION_ALGORITHM, ENCR_AES_CBC, 128),
     (INTEGRITY_ALGORITHM, AUTH_HMAC_SHA2_256_128, 0), (PSEUDO_RANDOM_FUNCTION, PRF_HMAC_SHA2_256, 0),
     (DIFFIE_HELLMAN_GROUP, 14, 0)] (proposal_create PROTO_IKE 1)"

definition sample_supplied :: proposal where
  "sample_supplied = add_listed [(ENCRYPTION_ALGORITHM, ENCR_AES_CBC, 128), (PSEUDO_RANDOM_FUNCTION, PRF_HMAC_SHA2_256, 0),
     (INTEGRITY_ALGORITHM, AUTH_HMAC_SHA2_256_128, 0), (DIFFIE_HELLMAN_GROUP, 31, 0), (DIFFIE_HELLMAN_GROUP, 14, 0)]
     (proposal_create PROTO_IKE 2)"

definition sample_esp :: proposal where
  "sample_esp = add_listed [(ENCRYPTION_ALGORITHM, ENCR_AES_GCM_ICV16, 128), (EXTENDED_SEQUENCE_NUMBERS, 0, 0)] (proposal_create PROTO_ESP 1)"

definition sample_token :: "cstring \<Rightarrow> (nat \<times> 16 word \<times> 16 word) option" where
  "sample_token tok =
     (if tok = [1] then Some (ENCRYPTION_ALGORITHM, ENCR_AES_CBC, 128)
      else if tok = [2] then Some (INTEGRITY_ALGORITHM, AUTH_HMAC_SHA2_256_128, 0)
      else if tok = [3] then Some (DIFFIE_HELLMAN_GROUP, 14, 0) else None)"

lemma sample_wf: "proposal_wf sample_ike" "proposal_wf sample_supplied" "proposal_wf sample_esp"
  by (simp_all add: sample_ike_def sample_supplied_def sample_esp_def add_listed_def wf_add_algorithm wf_create)

theorem select_proposal_correct_witness:
  "\<exists>s. select_proposal sample_ike sample_supplied sample_flags = Some s \<and> algs ENCRYPTION_ALGORITHM s = [(ENCR_AES_CBC, 128)]
     \<and> algs DIFFIE_HELLMAN_GROUP s = [(14, 0)] \<and> p_number s = 2"
proof -
  have "select_proposal sample_ike sample_supplied sample_flags \<noteq> None" by code_simp
  then obtain s where s: "select_proposal sample_ike sample_supplied sample_flags = Some s" by blast
  have n: "negotiated sample_ike sample_supplied sample_flags ENCRYPTION_ALGORITHM = [(ENCR_AES_CBC, 128)]"
    "negotiated sample_ike sample_supplied sample_flags DIFFIE_HELLMAN_GROUP = [(14, 0)]"
    by (simp_all add: negotiated_def waived_def best_def sample_flags_def sample_ike_def sample_supplied_def add_listed_def)
      (simp_all add: algs_def proposal_create_def proposal_create_v1_def)
  have "p_number sample_supplied = 2" "\<not> prefer_supplied sample_flags" by code_simp+
  then show ?thesis using select_proposal_correct [OF sample_wf(1,2), of sample_flags] s n by (simp add: Let_def)
qed

theorem configured_proposal_complete_witness:
  "\<exists>p. proposal_create_from_string sample_token PROTO_IKE [[1], [2], [3]] = Some p \<and> algs PSEUDO_RANDOM_FUNCTION p \<noteq> [] \<and> unmixed p"
proof -
  have "proposal_create_from_string sample_token PROTO_IKE [[1], [2], [3]] \<noteq> None" by code_simp
  then obtain p where p: "proposal_create_from_string sample_token PROTO_IKE [[1], [2], [3]] = Some p" by blast
  from configured_proposal_complete [OF p] p show ?thesis by blast
qed

theorem default_aead_never_selected_witness:
  "\<exists>p. proposal_create_default_aead \<lparr>sup_aead = [], sup_crypter = [], sup_signer = [], sup_prf = [], sup_dh = []\<rparr> PROTO_ESP = Some p
     \<and> select_proposal p sample_esp sample_flags = None"
proof -
  have "algs EXTENDED_SEQUENCE_NUMBERS sample_esp \<noteq> []" by (simp add: sample_esp_def add_listed_def)
  from default_aead_never_selected [OF sample_wf(3) this] show ?thesis by blast
qed

end
