(* ===== verification/Keymat_V2.thy ===== *)
theory Keymat_V2
  imports Prf_Plus Aead Proposal
begin

text \<open>
  Key material of an IKEv2 SA, \<open>libcharon/sa/ikev2/keymat_v2.c\<close>, with the key lengths of
  \<open>libcharon/sa/keymat.c\<close>: the keys of the SA and of its child SAs, and the octets and signatures of
  the AUTH payload.  The algorithms are what the factory \<open>lib->crypto\<close> creates, a parameter; the
  shared secret is the result of the key exchange; SPIs are given by their octets.
\<close>

section \<open>Data\<close>

record ike_crypto =
  cf_prf :: "16 word \<Rightarrow> prf_alg option"
  cf_signer :: "16 word \<Rightarrow> signer_alg option"
  cf_crypter :: "16 word \<Rightarrow> nat \<Rightarrow> crypter_alg option"
  cf_aead :: "16 word \<Rightarrow> nat \<Rightarrow> nat \<Rightarrow> (aead_alg \<times> iv_gen) option"
  cf_rng :: "rng option"

abbreviation PRF_UNDEFINED :: "16 word" where "PRF_UNDEFINED \<equiv> 1024"

record keymat_v2 =
  km_initiator :: bool
  km_aead_in :: "aead option"
  km_aead_out :: "aead option"
  km_prf :: "prf_t option"
  km_prf_alg :: "16 word"
  km_skd :: "chunk option"
  km_skp_build :: chunk
  km_skp_verify :: chunk
  km_hash_algorithms :: "16 word set option"

definition keymat_v2_create :: "bool \<Rightarrow> keymat_v2" where
  "keymat_v2_create initiator =
     \<lparr>km_initiator = initiator, km_aead_in = None, km_aead_out = None, km_prf = None, km_prf_alg = PRF_UNDEFINED, km_skd = None,
      km_skp_build = [], km_skp_verify = [], km_hash_algorithms = None\<rparr>"

text \<open>Values of type \<open>uint16_t\<close>.\<close>

definition u16 :: "nat \<Rightarrow> nat" where "u16 n = n mod 2 ^ 16"

definition has_aeads :: "keymat_v2 \<Rightarrow> bool" where
  "has_aeads this \<longleftrightarrow> km_aead_in this \<noteq> None \<and> km_aead_out this \<noteq> None"

text \<open>The two directions, by role.\<close>

definition set_aeads :: "aead \<Rightarrow> aead \<Rightarrow> keymat_v2 \<Rightarrow> keymat_v2" where
  "set_aeads i r this =
     (if km_initiator this then this\<lparr>km_aead_in := Some r, km_aead_out := Some i\<rparr>
      else this\<lparr>km_aead_in := Some i, km_aead_out := Some r\<rparr>)"

section \<open>Keys of the IKE SA\<close>

definition aead_salt_size :: "16 word \<Rightarrow> nat option" where
  "aead_salt_size alg =
     (if alg \<in> {ENCR_AES_GCM_ICV8, ENCR_AES_GCM_ICV12, ENCR_AES_GCM_ICV16, ENCR_CHACHA20_POLY1305} then Some 4
      else if alg \<in> {ENCR_AES_CCM_ICV8, ENCR_AES_CCM_ICV12, ENCR_AES_CCM_ICV16, ENCR_CAMELLIA_CCM_ICV8,
                     ENCR_CAMELLIA_CCM_ICV12, ENCR_CAMELLIA_CCM_ICV16} then Some 3
      else None)"

text \<open>
  The result: whether both directions have an algorithm at the end, the keys allocated so far, and
  the state of the expansion.  Keys come out of the expansion one after the other, and each is
  set before the next is allocated.
\<close>

definition derive_ike_aead ::
  "ike_crypto \<Rightarrow> 16 word \<Rightarrow> 16 word \<Rightarrow> prf_plus \<Rightarrow> keymat_v2 \<Rightarrow> (bool \<times> chunk \<times> chunk \<times> prf_plus \<times> keymat_v2) res" where
  "derive_ike_aead F alg key_size pp this =
     (case aead_salt_size alg of
        None \<Rightarrow> Inr (False, [], [], pp, this)
      | Some salt \<Rightarrow>
          (case cf_aead F alg (unat key_size div 8) salt of
             None \<Rightarrow> Inr (has_aeads this, [], [], pp, this)
           | Some (X, g) \<Rightarrow>
               let n = u16 (aa_key_size X) in
               if n \<noteq> aa_key_size X then Inr (has_aeads this, [], [], pp, this)
               else
                 andThen (allocate_bytes n pp) (\<lambda>(ei, pp1). case ei of
                     None \<Rightarrow> Inr (has_aeads this, [], [], pp1, this)
                   | Some sk_ei \<Rightarrow>
                       if \<not> aa_set_key X sk_ei then Inr (has_aeads this, sk_ei, [], pp1, this)
                       else
                         andThen (allocate_bytes n pp1) (\<lambda>(er, pp2). case er of
                             None \<Rightarrow> Inr (has_aeads this, sk_ei, [], pp2, this)
                           | Some sk_er \<Rightarrow>
                               if \<not> aa_set_key X sk_er then Inr (has_aeads this, sk_ei, sk_er, pp2, this)
                               else
                                 Inr (True, sk_ei, sk_er, pp2,
                                   set_aeads (Combined \<lparr>co_alg = X, co_key = sk_ei, co_iv_gen = g\<rparr>)
                                     (Combined \<lparr>co_alg = X, co_key = sk_er, co_iv_gen = g\<rparr>) this)))))"

definition derive_ike_traditional ::
  "ike_crypto \<Rightarrow> 16 word \<Rightarrow> 16 word \<Rightarrow> 16 word \<Rightarrow> prf_plus \<Rightarrow> keymat_v2
    \<Rightarrow> (bool \<times> (chunk \<times> chunk \<times> chunk \<times> chunk) \<times> prf_plus \<times> keymat_v2) res" where
  "derive_ike_traditional F enc_alg enc_size int_alg pp this =
     (case (cf_signer F int_alg, cf_crypter F enc_alg (unat enc_size div 8)) of
        (Some S, Some C) \<Rightarrow>
          andThen (allocate_bytes (sa_key_size S) pp) (\<lambda>(ai, pp1). case ai of
              None \<Rightarrow> Inr (has_aeads this, ([], [], [], []), pp1, this)
            | Some sk_ai \<Rightarrow>
          if \<not> sa_set_key S sk_ai then Inr (has_aeads this, (sk_ai, [], [], []), pp1, this) else
          andThen (allocate_bytes (sa_key_size S) pp1) (\<lambda>(ar, pp2). case ar of
              None \<Rightarrow> Inr (has_aeads this, (sk_ai, [], [], []), pp2, this)
            | Some sk_ar \<Rightarrow>
          if \<not> sa_set_key S sk_ar then Inr (has_aeads this, (sk_ai, sk_ar, [], []), pp2, this) else
          andThen (allocate_bytes (ca_key_size C) pp2) (\<lambda>(ei, pp3). case ei of
              None \<Rightarrow> Inr (has_aeads this, (sk_ai, sk_ar, [], []), pp3, this)
            | Some sk_ei \<Rightarrow>
          if \<not> ca_set_key C sk_ei then Inr (has_aeads this, (sk_ai, sk_ar, sk_ei, []), pp3, this) else
          andThen (allocate_bytes (ca_key_size C) pp3) (\<lambda>(er, pp4). case er of
              None \<Rightarrow> Inr (has_aeads this, (sk_ai, sk_ar, sk_ei, []), pp4, this)
            | Some sk_er \<Rightarrow>
          if \<not> ca_set_key C sk_er then Inr (has_aeads this, (sk_ai, sk_ar, sk_ei, sk_er), pp4, this) else
          (case iv_gen_create_for_alg (cf_rng F) enc_alg of
             None \<Rightarrow> Inr (has_aeads this, (sk_ai, sk_ar, sk_ei, sk_er), pp4, this)
           | Some ivg \<Rightarrow>
               let i = aead_create \<lparr>ct_alg = C, ct_key = sk_ei\<rparr> \<lparr>st_alg = S, st_key = sk_ai, st_pending = []\<rparr> ivg;
                   r = aead_create \<lparr>ct_alg = C, ct_key = sk_er\<rparr> \<lparr>st_alg = S, st_key = sk_ar, st_pending = []\<rparr> ivg in
               Inr (True, (sk_ai, sk_ar, sk_ei, sk_er), pp4, set_aeads i r this))))))
      | _ \<Rightarrow> Inr (has_aeads this, ([], [], [], []), pp, this))"

record ike_keys =
  sk_d :: chunk
  sk_ai :: chunk
  sk_ar :: chunk
  sk_ei :: chunk
  sk_er :: chunk
  sk_pi :: chunk
  sk_pr :: chunk

text \<open>SKEYSEED and the expansion from it; the second component is the PRF afterwards.\<close>

definition skeyseed_expand :: "prf_t \<Rightarrow> chunk \<Rightarrow> chunk \<Rightarrow> chunk \<Rightarrow> prf_plus option \<times> prf_t" where
  "skeyseed_expand p key data seed =
     (case prf_set_key key p of
        (False, p1) \<Rightarrow> (None, p1)
      | (True, p1) \<Rightarrow>
          (case prf_get_bytes data p1 of
             (None, p2) \<Rightarrow> (None, p2)
           | (Some skeyseed, p2) \<Rightarrow>
               (case prf_set_key skeyseed p2 of
                  (False, p3) \<Rightarrow> (None, p3)
                | (True, p3) \<Rightarrow> prf_plus_create p3 True seed)))"

text \<open>Encryption and integrity keys: the choice between the two functions above.\<close>

definition derive_ike_crypt ::
  "ike_crypto \<Rightarrow> proposal \<Rightarrow> prf_plus \<Rightarrow> keymat_v2 \<Rightarrow> (bool \<times> (chunk \<times> chunk \<times> chunk \<times> chunk) \<times> prf_plus \<times> keymat_v2) res" where
  "derive_ike_crypt F prop pp this =
     (case get_algorithm ENCRYPTION_ALGORITHM prop of
        None \<Rightarrow> Inr (False, ([], [], [], []), pp, this)
      | Some (alg, key_size) \<Rightarrow>
          if encryption_algorithm_is_aead alg then
            andThen (derive_ike_aead F alg key_size pp this) (\<lambda>(ok, ei, er, pp1, t). Inr (ok, ([], [], ei, er), pp1, t))
          else
            (case get_algorithm INTEGRITY_ALGORITHM prop of
               None \<Rightarrow> Inr (False, ([], [], [], []), pp, this)
             | Some (int_alg, _) \<Rightarrow> derive_ike_traditional F alg key_size int_alg pp this))"

text \<open>
  From SK_d to SK_pr.  The result: what is handed to the listeners when all keys were derived, the
  expansion and the key material.
\<close>

definition set_skd :: "chunk option \<Rightarrow> keymat_v2 \<Rightarrow> keymat_v2" where
  "set_skd x this = this\<lparr>km_skd := x\<rparr>"

definition set_skpi :: "chunk \<Rightarrow> keymat_v2 \<Rightarrow> keymat_v2" where
  "set_skpi x this = (if km_initiator this then this\<lparr>km_skp_build := x\<rparr> else this\<lparr>km_skp_verify := x\<rparr>)"

definition set_skpr :: "chunk \<Rightarrow> keymat_v2 \<Rightarrow> keymat_v2" where
  "set_skpr x this = (if km_initiator this then this\<lparr>km_skp_verify := x\<rparr> else this\<lparr>km_skp_build := x\<rparr>)"

definition derive_all ::
  "ike_crypto \<Rightarrow> proposal \<Rightarrow> nat \<Rightarrow> prf_plus \<Rightarrow> keymat_v2 \<Rightarrow> (ike_keys option \<times> prf_plus \<times> keymat_v2) res" where
  "derive_all F prop key_size pp this =
     andThen (allocate_bytes key_size pp) (\<lambda>(d, pp1). case d of
         None \<Rightarrow> Inr (None, pp1, set_skd None this)
       | Some skd \<Rightarrow>
     andThen (derive_ike_crypt F prop pp1 (set_skd (Some skd) this)) (\<lambda>(ok, (ai, ar, ei, er), pp2, t1).
       if \<not> ok then Inr (None, pp2, t1) else
     andThen (allocate_bytes key_size pp2) (\<lambda>(pi, pp3). case pi of
         None \<Rightarrow> Inr (None, pp3, t1)
       | Some skpi \<Rightarrow>
     andThen (allocate_bytes key_size pp3) (\<lambda>(pr, pp4). case pr of
         None \<Rightarrow> Inr (None, pp4, set_skpi skpi t1)
       | Some skpr \<Rightarrow>
           Inr (Some \<lparr>sk_d = skd, sk_ai = ai, sk_ar = ar, sk_ei = ei, sk_er = er, sk_pi = skpi, sk_pr = skpr\<rparr>, pp4,
             set_skpr skpr (set_skpi skpi t1))))))"

text \<open>The nonces a PRF with a fixed key length takes as its key.\<close>

definition fixed_nonce :: "16 word \<Rightarrow> prf_alg \<Rightarrow> chunk \<Rightarrow> chunk" where
  "fixed_nonce alg P nonce =
     (if alg \<in> {PRF_AES128_CMAC, PRF_AES128_XCBC, PRF_CAMELLIA128_XCBC} then take (u16 (prf_key_size P div 2)) nonce else nonce)"

definition derive_ike_keys ::
  "ike_crypto \<Rightarrow> proposal \<Rightarrow> chunk option \<Rightarrow> chunk \<Rightarrow> chunk \<Rightarrow> chunk \<Rightarrow> chunk \<Rightarrow> 16 word \<Rightarrow> chunk \<Rightarrow> keymat_v2
    \<Rightarrow> (bool \<times> ike_keys option \<times> keymat_v2) res" where
  "derive_ike_keys F prop dh nonce_i nonce_r spi_i spi_r rekey_function rekey_skd this =
     (let result = (\<lambda>t. km_skp_build t \<noteq> [] \<and> km_skp_verify t \<noteq> []) in
      case dh of
        None \<Rightarrow> Inr (False, None, this)
      | Some secret \<Rightarrow>
     (case get_algorithm PSEUDO_RANDOM_FUNCTION prop of
        None \<Rightarrow> Inr (False, None, this)
      | Some (alg, _) \<Rightarrow>
     (case cf_prf F alg of
        None \<Rightarrow> Inr (False, None, this\<lparr>km_prf_alg := alg, km_prf := None\<rparr>)
      | Some P \<Rightarrow>
          let t = this\<lparr>km_prf_alg := alg, km_prf := Some (new_prf P)\<rparr>;
              full_nonce = nonce_i @ nonce_r;
              seed = full_nonce @ spi_i @ spi_r;
              key_size = u16 (prf_key_size P) in
          if rekey_function = PRF_UNDEFINED then
            (case skeyseed_expand (new_prf P) (fixed_nonce alg P nonce_i @ fixed_nonce alg P nonce_r) secret seed of
               (None, p) \<Rightarrow> Inr (result t, None, t\<lparr>km_prf := Some p\<rparr>)
             | (Some pp, p) \<Rightarrow>
                 andThen (derive_all F prop key_size pp t) (\<lambda>(keys, pp1, t1).
                   Inr (result t1, keys, t1\<lparr>km_prf := Some (pp_prf pp1)\<rparr>)))
          else
            (case cf_prf F rekey_function of
               None \<Rightarrow> Inr (False, None, t)
             | Some R \<Rightarrow>
                 (case skeyseed_expand (new_prf R) rekey_skd (secret @ full_nonce) seed of
                    (None, p) \<Rightarrow> Inr (result t, None, t)
                  | (Some pp, p) \<Rightarrow>
                      andThen (derive_all F prop key_size pp t) (\<lambda>(keys, pp1, t1). Inr (result t1, keys, t1)))))))"

section \<open>Post-quantum preshared keys\<close>

definition derive_ppk_key :: "prf_t \<Rightarrow> chunk \<Rightarrow> (chunk option \<times> prf_t) res" where
  "derive_ppk_key p key =
     (case prf_plus_create p True key of
        (None, p1) \<Rightarrow> Inr (None, p1)
      | (Some pp, _) \<Rightarrow> andThen (allocate_bytes (length key) pp) (\<lambda>(k, pp1). Inr (k, pp_prf pp1)))"

definition derive_skp_ppk :: "chunk \<Rightarrow> chunk \<Rightarrow> prf_t \<Rightarrow> (chunk option \<times> prf_t) res" where
  "derive_skp_ppk ppk skp p =
     (case prf_set_key ppk p of
        (False, p1) \<Rightarrow> Inr (None, p1)
      | (True, p1) \<Rightarrow> derive_ppk_key p1 skp)"

definition derive_ike_keys_ppk :: "chunk \<Rightarrow> keymat_v2 \<Rightarrow> (bool \<times> keymat_v2) res" where
  "derive_ike_keys_ppk ppk this =
     (case (km_skd this, km_prf this) of
        (None, _) \<Rightarrow> Inr (False, this)
      | (Some skd, None) \<Rightarrow> Inl NullDeref
      | (Some skd, Some p) \<Rightarrow>
          let skpi = (if km_initiator this then km_skp_build this else km_skp_verify this);
              skpr = (if km_initiator this then km_skp_verify this else km_skp_build this) in
          (case prf_set_key ppk p of
             (False, p0) \<Rightarrow> Inr (False, this\<lparr>km_prf := Some p0\<rparr>)
           | (True, p0) \<Rightarrow>
               andThen (derive_ppk_key p0 skd) (\<lambda>(d, p1). case d of
                   None \<Rightarrow> Inr (False, this\<lparr>km_prf := Some p1\<rparr>)
                 | Some new_skd \<Rightarrow>
               andThen (derive_ppk_key p1 skpi) (\<lambda>(i, p2). case i of
                   None \<Rightarrow> Inr (False, this\<lparr>km_prf := Some p2\<rparr>)
                 | Some new_skpi \<Rightarrow>
               andThen (derive_ppk_key p2 skpr) (\<lambda>(r, p3). case r of
                   None \<Rightarrow> Inr (False, this\<lparr>km_prf := Some p3\<rparr>)
                 | Some new_skpr \<Rightarrow>
                     Inr (True, set_skpr new_skpr (set_skpi new_skpi (set_skd (Some new_skd) (this\<lparr>km_prf := Some p3\<rparr>)))))))))"

section \<open>Keys of child SAs\<close>

definition keymat_get_keylen_encr :: "16 word \<Rightarrow> nat" where
  "keymat_get_keylen_encr alg =
     (case map_of [(ENCR_DES, 64), (ENCR_3DES, 192), (ENCR_CHACHA20_POLY1305, 256)] alg of None \<Rightarrow> 0 | Some n \<Rightarrow> n)"

definition keymat_get_keylen_integ :: "16 word \<Rightarrow> nat" where
  "keymat_get_keylen_integ alg =
     (case map_of [(AUTH_HMAC_MD5_96, 128), (AUTH_HMAC_MD5_128, 128), (AUTH_HMAC_SHA1_96, 160), (AUTH_HMAC_SHA1_160, 160),
          (AUTH_HMAC_SHA2_256_96, 256), (AUTH_HMAC_SHA2_256_128, 256), (AUTH_HMAC_SHA2_256_256, 256), (AUTH_HMAC_SHA2_384_192, 384),
          (AUTH_HMAC_SHA2_384_384, 384), (AUTH_HMAC_SHA2_512_256, 512), (AUTH_HMAC_SHA2_512_512, 512), (AUTH_AES_XCBC_96, 128),
          (AUTH_AES_CMAC_96, 128)] alg of None \<Rightarrow> 0 | Some n \<Rightarrow> n)"

text \<open>Key sizes in octets, with the salt of counter modes; \<open>None\<close> if a length is not defined.\<close>

definition child_enc_size :: "proposal \<Rightarrow> nat option" where
  "child_enc_size prop =
     (case get_algorithm ENCRYPTION_ALGORITHM prop of
        None \<Rightarrow> Some 0
      | Some (alg, ks) \<Rightarrow>
          let bits = (if ks = 0 then keymat_get_keylen_encr alg else unat ks) in
          if alg \<noteq> ENCR_NULL \<and> bits = 0 then None
          else
            Some (bits div 8 +
              (if alg \<in> {ENCR_AES_CCM_ICV8, ENCR_AES_CCM_ICV12, ENCR_AES_CCM_ICV16, ENCR_CAMELLIA_CCM_ICV8,
                         ENCR_CAMELLIA_CCM_ICV12, ENCR_CAMELLIA_CCM_ICV16} then 3
               else if alg \<in> {ENCR_AES_GCM_ICV8, ENCR_AES_GCM_ICV12, ENCR_AES_GCM_ICV16, ENCR_AES_CTR, ENCR_CAMELLIA_CTR,
                              ENCR_NULL_AUTH_AES_GMAC, ENCR_CHACHA20_POLY1305} then 4
               else 0)))"

definition child_int_size :: "proposal \<Rightarrow> nat option" where
  "child_int_size prop =
     (case get_algorithm INTEGRITY_ALGORITHM prop of
        None \<Rightarrow> Some 0
      | Some (alg, ks) \<Rightarrow>
          let bits = (if ks = 0 then keymat_get_keylen_integ alg else unat ks) in
          if bits = 0 then None else Some (bits div 8))"

text \<open>
  \<open>dh\<close>: \<open>None\<close> without a key exchange, \<open>Some None\<close> if the shared secret could not be computed.  The
  keys are those of the initiator's and the responder's encryption and integrity, in the order
  of the output arguments.
\<close>

definition derive_child_keys ::
  "proposal \<Rightarrow> chunk option option \<Rightarrow> chunk \<Rightarrow> chunk \<Rightarrow> keymat_v2
    \<Rightarrow> ((chunk \<times> chunk \<times> chunk \<times> chunk) option \<times> keymat_v2) res" where
  "derive_child_keys prop dh nonce_i nonce_r this =
     (case (child_enc_size prop, child_int_size prop) of
        (Some enc_size, Some int_size) \<Rightarrow>
     (case km_prf this of
        None \<Rightarrow> Inl NullDeref
      | Some p \<Rightarrow>
     (case prf_set_key (case km_skd this of None \<Rightarrow> [] | Some k \<Rightarrow> k) p of
        (False, p1) \<Rightarrow> Inr (None, this\<lparr>km_prf := Some p1\<rparr>)
      | (True, p1) \<Rightarrow>
     (case (case dh of None \<Rightarrow> Some [] | Some x \<Rightarrow> x) of
        None \<Rightarrow> Inr (None, this\<lparr>km_prf := Some p1\<rparr>)
      | Some secret \<Rightarrow>
     (case prf_plus_create p1 True (secret @ nonce_i @ nonce_r) of
        (None, p2) \<Rightarrow> Inr (None, this\<lparr>km_prf := Some p2\<rparr>)
      | (Some pp, _) \<Rightarrow>
          andThen (allocate_bytes enc_size pp) (\<lambda>(ei, pp1). case ei of
              None \<Rightarrow> Inr (None, this\<lparr>km_prf := Some (pp_prf pp1)\<rparr>)
            | Some encr_i \<Rightarrow>
          andThen (allocate_bytes int_size pp1) (\<lambda>(ii, pp2). case ii of
              None \<Rightarrow> Inr (None, this\<lparr>km_prf := Some (pp_prf pp2)\<rparr>)
            | Some integ_i \<Rightarrow>
          andThen (allocate_bytes enc_size pp2) (\<lambda>(er, pp3). case er of
              None \<Rightarrow> Inr (None, this\<lparr>km_prf := Some (pp_prf pp3)\<rparr>)
            | Some encr_r \<Rightarrow>
          andThen (allocate_bytes int_size pp3) (\<lambda>(ir, pp4). case ir of
              None \<Rightarrow> Inr (None, this\<lparr>km_prf := Some (pp_prf pp4)\<rparr>)
            | Some integ_r \<Rightarrow> Inr (Some (encr_i, integ_i, encr_r, integ_r), this\<lparr>km_prf := Some (pp_prf pp4)\<rparr>)))))))))
      | _ \<Rightarrow> Inr (None, this))"

definition get_skd :: "keymat_v2 \<Rightarrow> 16 word \<times> chunk option" where
  "get_skd this = (km_prf_alg this, km_skd this)"

definition get_aead :: "bool \<Rightarrow> keymat_v2 \<Rightarrow> aead option" where
  "get_aead inbound this = (if inbound then km_aead_in this else km_aead_out this)"

section \<open>The AUTH payload\<close>

text \<open>An identity is its type and its encoding.\<close>

type_synonym ident = "byte \<times> chunk"

definition get_auth_octets ::
  "bool \<Rightarrow> chunk \<Rightarrow> chunk \<Rightarrow> chunk option \<Rightarrow> ident \<Rightarrow> chunk \<Rightarrow> keymat_v2 \<Rightarrow> (chunk option \<times> keymat_v2) res" where
  "get_auth_octets verify ike_sa_init nonce ppk i reserved this =
     (case km_prf this of
        None \<Rightarrow> Inl NullDeref
      | Some p \<Rightarrow>
          let skp = (if verify then km_skp_verify this else km_skp_build this) in
          andThen (case ppk of None \<Rightarrow> Inr (Some skp, p) | Some k \<Rightarrow> derive_skp_ppk k skp p) (\<lambda>(sk, p1).
            case sk of
              None \<Rightarrow> Inr (None, this\<lparr>km_prf := Some p1\<rparr>)
            | Some key \<Rightarrow>
                (case prf_set_key key p1 of
                   (False, p2) \<Rightarrow> Inr (None, this\<lparr>km_prf := Some p2\<rparr>)
                 | (True, p2) \<Rightarrow>
                     (case prf_get_bytes ([fst i] @ reserved @ snd i) p2 of
                        (None, p3) \<Rightarrow> Inr (None, this\<lparr>km_prf := Some p3\<rparr>)
                      | (Some c, p3) \<Rightarrow> Inr (Some (ike_sa_init @ nonce @ c), this\<lparr>km_prf := Some p3\<rparr>)))))"

text \<open>The octets of "Key Pad for IKEv2".\<close>

definition IKEV2_KEY_PAD :: chunk where
  "IKEV2_KEY_PAD = [75, 101, 121, 32, 80, 97, 100, 32, 102, 111, 114, 32, 73, 75, 69, 118, 50]"

definition get_psk_sig ::
  "bool \<Rightarrow> chunk \<Rightarrow> chunk \<Rightarrow> chunk \<Rightarrow> chunk option \<Rightarrow> ident \<Rightarrow> chunk \<Rightarrow> keymat_v2 \<Rightarrow> (chunk option \<times> keymat_v2) res" where
  "get_psk_sig verify ike_sa_init nonce secret ppk i reserved this =
     (case km_prf this of
        None \<Rightarrow> Inl NullDeref
      | Some p \<Rightarrow>
          let skp = (if verify then km_skp_verify this else km_skp_build this) in
          andThen (if secret \<noteq> [] then Inr (Some secret, p)
                   else (case ppk of None \<Rightarrow> Inr (Some skp, p) | Some k \<Rightarrow> derive_skp_ppk k skp p)) (\<lambda>(sk, p1).
            case sk of
              None \<Rightarrow> Inr (None, this\<lparr>km_prf := Some p1\<rparr>)
            | Some key \<Rightarrow>
                andThen (get_auth_octets verify ike_sa_init nonce ppk i reserved (this\<lparr>km_prf := Some p1\<rparr>)) (\<lambda>(o1, t).
                  case (o1, km_prf t) of
                    (Some octets, Some p2) \<Rightarrow>
                      (case prf_set_key key p2 of
                         (False, p3) \<Rightarrow> Inr (None, t\<lparr>km_prf := Some p3\<rparr>)
                       | (True, p3) \<Rightarrow>
                           (case prf_get_bytes IKEV2_KEY_PAD p3 of
                              (None, p4) \<Rightarrow> Inr (None, t\<lparr>km_prf := Some p4\<rparr>)
                            | (Some k, p4) \<Rightarrow>
                                (case prf_set_key k p4 of
                                   (False, p5) \<Rightarrow> Inr (None, t\<lparr>km_prf := Some p5\<rparr>)
                                 | (True, p5) \<Rightarrow>
                                     (case prf_get_bytes octets p5 of (sig, p6) \<Rightarrow> Inr (sig, t\<lparr>km_prf := Some p6\<rparr>)))))
                  | _ \<Rightarrow> Inr (None, t))))"

definition hash_algorithm_supported :: "16 word \<Rightarrow> keymat_v2 \<Rightarrow> bool" where
  "hash_algorithm_supported hash this = (case km_hash_algorithms this of None \<Rightarrow> False | Some s \<Rightarrow> hash \<in> s)"

definition add_hash_algorithm :: "16 word \<Rightarrow> keymat_v2 \<Rightarrow> keymat_v2" where
  "add_hash_algorithm hash this =
     this\<lparr>km_hash_algorithms := Some (insert hash (case km_hash_algorithms this of None \<Rightarrow> {} | Some s \<Rightarrow> s))\<rparr>"

section \<open>Lemmas\<close>

text \<open>A PRF that accepts every key, as HMAC does.\<close>

definition prf_total :: "prf_alg \<Rightarrow> bool" where
  "prf_total P \<longleftrightarrow> prf_laws P \<and> (\<forall>k. prf_accepts P k)"

lemma prf_total_steps [simp]:
  assumes "prf_total P"
  shows "pf_alg p = P \<Longrightarrow> prf_set_key k p = (True, \<lparr>pf_alg = P, pf_key = k, pf_pending = []\<rparr>)"
    and "prf_get_bytes d \<lparr>pf_alg = P, pf_key = k, pf_pending = []\<rparr> = (Some (prf_fun P k d), \<lparr>pf_alg = P, pf_key = k, pf_pending = []\<rparr>)"
    and "length (prf_fun P k d) = prf_block_size P"
  using assms prf_laws_output [of P k] by (simp_all add: prf_total_def prf_set_key_def prf_get_bytes_def)

lemma skeyseed_expand_at:
  assumes "prf_total P" "pf_alg p = P"
  obtains pp p' where "skeyseed_expand p key d seed = (Some pp, p')" "pp_at P (prf_fun P key d) seed 0 pp"
proof -
  have "prf_laws P" "prf_accepts P (prf_fun P key d)" using assms(1) by (simp_all add: prf_total_def)
  from prf_plus_create_at [OF this, of seed] show thesis using that assms by (simp add: skeyseed_expand_def)
qed

text \<open>What the expansion gives next, as a function of the octets taken so far.\<close>

lemma allocate_bytes_total:
  assumes "prf_total P" "pp_at P k s m pp" "m + len \<le> 255 * prf_block_size P"
  obtains pp' where "allocate_bytes len pp = Inr (Some (slice m len (rfc_prf_plus (prf_fun P) k s)), pp')" "pp_at P k s (m + len) pp'"
  by (rule allocate_bytes_at [of P k s m pp len]) (use assms in \<open>simp_all add: prf_total_def that\<close>)

lemma length_rfc_prf_plus: "prf_total P \<Longrightarrow> length (rfc_prf_plus (prf_fun P) k s) = 255 * prf_block_size P"
  by (simp add: rfc_prf_plus_def length_rfc_stream prf_total_def)

lemma length_slice: "m + n \<le> length c \<Longrightarrow> length (slice m n c) = n"
  by (simp add: slice_def)

lemma pp_at_prf: "pp_at P k s m pp \<Longrightarrow> pf_alg (pp_prf pp) = P"
  by (auto simp: pp_at_def pp_state_def)

text \<open>
  The algorithms of a proposal are available, accept the keys derived for them and keep their
  promises: \<open>na\<close> and \<open>ne\<close> are the lengths of integrity and encryption keys, \<open>mk\<close> makes the
  transform of one direction from its two keys.
\<close>

definition suite_aead :: "ike_crypto \<Rightarrow> proposal \<Rightarrow> nat \<Rightarrow> nat \<Rightarrow> (chunk \<Rightarrow> chunk \<Rightarrow> aead) \<Rightarrow> bool" where
  "suite_aead F prop na ne mk \<longleftrightarrow> (\<exists>alg ks salt X g. get_algorithm ENCRYPTION_ALGORITHM prop = Some (alg, ks)
     \<and> encryption_algorithm_is_aead alg \<and> aead_salt_size alg = Some salt \<and> cf_aead F alg (unat ks div 8) salt = Some (X, g)
     \<and> na = 0 \<and> ne = aa_key_size X \<and> aa_key_size X < 2 ^ 16 \<and> (\<forall>k. length k = ne \<longrightarrow> aa_set_key X k \<and> combined_good X k)
     \<and> mk = (\<lambda>a e. Combined \<lparr>co_alg = X, co_key = e, co_iv_gen = g\<rparr>))"

definition suite_traditional :: "ike_crypto \<Rightarrow> proposal \<Rightarrow> nat \<Rightarrow> nat \<Rightarrow> (chunk \<Rightarrow> chunk \<Rightarrow> aead) \<Rightarrow> bool" where
  "suite_traditional F prop na ne mk \<longleftrightarrow> (\<exists>alg ks ialg iks S C ivg. get_algorithm ENCRYPTION_ALGORITHM prop = Some (alg, ks)
     \<and> \<not> encryption_algorithm_is_aead alg \<and> get_algorithm INTEGRITY_ALGORITHM prop = Some (ialg, iks)
     \<and> cf_signer F ialg = Some S \<and> cf_crypter F alg (unat ks div 8) = Some C \<and> iv_gen_create_for_alg (cf_rng F) alg = Some ivg
     \<and> na = sa_key_size S \<and> ne = ca_key_size C
     \<and> (\<forall>k. length k = na \<longrightarrow> sa_set_key S k \<and> signer_good S k) \<and> (\<forall>k. length k = ne \<longrightarrow> ca_set_key C k \<and> crypter_good C k)
     \<and> mk = (\<lambda>a e. aead_create \<lparr>ct_alg = C, ct_key = e\<rparr> \<lparr>st_alg = S, st_key = a, st_pending = []\<rparr> ivg))"

definition suite :: "ike_crypto \<Rightarrow> proposal \<Rightarrow> nat \<Rightarrow> nat \<Rightarrow> (chunk \<Rightarrow> chunk \<Rightarrow> aead) \<Rightarrow> bool" where
  "suite F prop na ne mk \<longleftrightarrow> suite_aead F prop na ne mk \<or> suite_traditional F prop na ne mk"

lemma suite_paired: "suite F prop na ne mk \<Longrightarrow> length a = na \<Longrightarrow> length e = ne \<Longrightarrow> paired (mk a e) (mk a e)"
  by (auto simp: suite_def suite_aead_def suite_traditional_def aead_create_def)

lemma derive_ike_crypt_aead:
  assumes "suite_aead F prop na ne mk" "prf_total P" "pp_at P k s m pp" "m + 2 * ne \<le> 255 * prf_block_size P"
  defines "S \<equiv> rfc_prf_plus (prf_fun P) k s"
  obtains pp' where "derive_ike_crypt F prop pp this =
      Inr (True, ([], [], slice m ne S, slice (m + ne) ne S), pp', set_aeads (mk [] (slice m ne S)) (mk [] (slice (m + ne) ne S)) this)"
    "pp_at P k s (m + 2 * ne) pp'"
proof -
  obtain alg ks salt X g where F: "get_algorithm ENCRYPTION_ALGORITHM prop = Some (alg, ks)" "encryption_algorithm_is_aead alg"
      "aead_salt_size alg = Some salt" "cf_aead F alg (unat ks div 8) salt = Some (X, g)" "ne = aa_key_size X" "aa_key_size X < 2 ^ 16"
      "\<And>k. length k = ne \<Longrightarrow> aa_set_key X k" "mk = (\<lambda>a e. Combined \<lparr>co_alg = X, co_key = e, co_iv_gen = g\<rparr>)"
    using assms(1) unfolding suite_aead_def by blast
  have u: "u16 (aa_key_size X) = aa_key_size X" using F(6) by (simp add: u16_def)
  obtain pp1 where 1: "allocate_bytes ne pp = Inr (Some (slice m ne S), pp1)" "pp_at P k s (m + ne) pp1"
    using allocate_bytes_total [OF assms(2,3), of ne] assms(4) unfolding S_def by auto
  obtain pp2 where 2: "allocate_bytes ne pp1 = Inr (Some (slice (m + ne) ne S), pp2)" "pp_at P k s (m + ne + ne) pp2"
    using allocate_bytes_total [OF assms(2) 1(2), of ne] assms(4) unfolding S_def by auto
  have l: "length (slice m ne S) = ne" "length (slice (m + ne) ne S) = ne"
    using assms(4) by (simp_all add: S_def length_slice length_rfc_prf_plus [OF assms(2)])
  show thesis
    by (rule that [of pp2]) (use F 1 2 l u in \<open>simp_all add: derive_ike_crypt_def derive_ike_aead_def Let_def add.assoc mult_2\<close>)
qed

lemma derive_ike_crypt_traditional:
  assumes "suite_traditional F prop na ne mk" "prf_total P" "pp_at P k s m pp" "m + 2 * na + 2 * ne \<le> 255 * prf_block_size P"
  defines "S \<equiv> rfc_prf_plus (prf_fun P) k s"
  obtains pp' where "derive_ike_crypt F prop pp this =
      Inr (True, (slice m na S, slice (m + na) na S, slice (m + 2 * na) ne S, slice (m + 2 * na + ne) ne S), pp',
        set_aeads (mk (slice m na S) (slice (m + 2 * na) ne S)) (mk (slice (m + na) na S) (slice (m + 2 * na + ne) ne S)) this)"
    "pp_at P k s (m + 2 * na + 2 * ne) pp'"
proof -
  obtain alg ks ialg iks T C ivg where F: "get_algorithm ENCRYPTION_ALGORITHM prop = Some (alg, ks)" "\<not> encryption_algorithm_is_aead alg"
      "get_algorithm INTEGRITY_ALGORITHM prop = Some (ialg, iks)" "cf_signer F ialg = Some T" "cf_crypter F alg (unat ks div 8) = Some C"
      "iv_gen_create_for_alg (cf_rng F) alg = Some ivg" "na = sa_key_size T" "ne = ca_key_size C"
      "\<And>k. length k = na \<Longrightarrow> sa_set_key T k" "\<And>k. length k = ne \<Longrightarrow> ca_set_key C k"
      "mk = (\<lambda>a e. aead_create \<lparr>ct_alg = C, ct_key = e\<rparr> \<lparr>st_alg = T, st_key = a, st_pending = []\<rparr> ivg)"
    using assms(1) unfolding suite_traditional_def by blast
  obtain pp1 where 1: "allocate_bytes na pp = Inr (Some (slice m na S), pp1)" "pp_at P k s (m + na) pp1"
    using allocate_bytes_total [OF assms(2,3), of na] assms(4) unfolding S_def by auto
  obtain pp2 where 2: "allocate_bytes na pp1 = Inr (Some (slice (m + na) na S), pp2)" "pp_at P k s (m + 2 * na) pp2"
    using allocate_bytes_total [OF assms(2) 1(2), of na] assms(4) unfolding S_def by (auto simp: add.assoc mult_2)
  obtain pp3 where 3: "allocate_bytes ne pp2 = Inr (Some (slice (m + 2 * na) ne S), pp3)" "pp_at P k s (m + 2 * na + ne) pp3"
    using allocate_bytes_total [OF assms(2) 2(2), of ne] assms(4) unfolding S_def by auto
  obtain pp4 where 4: "allocate_bytes ne pp3 = Inr (Some (slice (m + 2 * na + ne) ne S), pp4)" "pp_at P k s (m + 2 * na + 2 * ne) pp4"
    using allocate_bytes_total [OF assms(2) 3(2), of ne] assms(4) unfolding S_def by (auto simp: add.assoc mult_2)
  have l: "length (slice m na S) = na" "length (slice (m + na) na S) = na" "length (slice (m + 2 * na) ne S) = ne"
      "length (slice (m + 2 * na + ne) ne S) = ne"
    using assms(4) by (simp_all add: S_def length_slice length_rfc_prf_plus [OF assms(2)])
  have k: "sa_set_key T (slice m na S)" "sa_set_key T (slice (m + na) na S)" "ca_set_key C (slice (m + 2 * na) ne S)" "ca_set_key C (slice (m + 2 * na + ne) ne S)"
    using F(9) [OF l(1)] F(9) [OF l(2)] F(10) [OF l(3)] F(10) [OF l(4)] by simp_all
  show thesis
    by (rule that [OF _ 4(2)])
      (use F(1-6,11) 1(1) 2(1) 3(1) 4(1) k in \<open>simp add: derive_ike_crypt_def derive_ike_traditional_def Let_def F(7,8) [symmetric]\<close>)
qed

lemma derive_ike_crypt_suite:
  assumes "suite F prop na ne mk" "prf_total P" "pp_at P k s m pp" "m + 2 * na + 2 * ne \<le> 255 * prf_block_size P"
  defines "S \<equiv> rfc_prf_plus (prf_fun P) k s"
  obtains pp' where "derive_ike_crypt F prop pp this =
      Inr (True, (slice m na S, slice (m + na) na S, slice (m + 2 * na) ne S, slice (m + 2 * na + ne) ne S), pp',
        set_aeads (mk (slice m na S) (slice (m + 2 * na) ne S)) (mk (slice (m + na) na S) (slice (m + 2 * na + ne) ne S)) this)"
    "pp_at P k s (m + 2 * na + 2 * ne) pp'"
proof (cases "suite_aead F prop na ne mk")
  case True
  then have "na = 0" by (auto simp: suite_aead_def)
  then have z: "slice x na c = []" for x c by (simp add: slice_def)
  have "m + 2 * ne \<le> 255 * prf_block_size P" using assms(4) \<open>na = 0\<close> by simp
  from derive_ike_crypt_aead [OF True assms(2,3) this, of this] show thesis
    using that \<open>na = 0\<close> unfolding S_def z by auto
next
  case False
  then have "suite_traditional F prop na ne mk" using assms(1) by (simp add: suite_def)
  from derive_ike_crypt_traditional [OF this assms(2-4), of this] show thesis using that unfolding S_def by blast
qed

text \<open>The seven keys, one after the other.\<close>

definition rfc_ike_keys :: "nat \<Rightarrow> nat \<Rightarrow> nat \<Rightarrow> chunk \<Rightarrow> ike_keys" where
  "rfc_ike_keys np na ne S =
     \<lparr>sk_d = slice 0 np S, sk_ai = slice np na S, sk_ar = slice (np + na) na S, sk_ei = slice (np + 2 * na) ne S,
      sk_er = slice (np + 2 * na + ne) ne S, sk_pi = slice (np + 2 * na + 2 * ne) np S, sk_pr = slice (2 * np + 2 * na + 2 * ne) np S\<rparr>"

lemma derive_all_suite:
  assumes "suite F prop na ne mk" "prf_total P" "pp_at P k s 0 pp" "3 * np + 2 * na + 2 * ne \<le> 255 * prf_block_size P"
  defines "K \<equiv> rfc_ike_keys np na ne (rfc_prf_plus (prf_fun P) k s)"
  obtains pp' where "derive_all F prop np pp this = Inr (Some K, pp',
      set_skpr (sk_pr K) (set_skpi (sk_pi K) (set_aeads (mk (sk_ai K) (sk_ei K)) (mk (sk_ar K) (sk_er K)) (set_skd (Some (sk_d K)) this))))"
    "pf_alg (pp_prf pp') = P"
proof -
  define S where "S = rfc_prf_plus (prf_fun P) k s"
  obtain pp1 where 1: "allocate_bytes np pp = Inr (Some (slice 0 np S), pp1)" "pp_at P k s np pp1"
    using allocate_bytes_total [OF assms(2,3), of np] assms(4) unfolding S_def by auto
  have b: "np + 2 * na + 2 * ne \<le> 255 * prf_block_size P" using assms(4) by simp
  obtain pp2 where 2: "derive_ike_crypt F prop pp1 (set_skd (Some (slice 0 np S)) this) =
      Inr (True, (slice np na S, slice (np + na) na S, slice (np + 2 * na) ne S, slice (np + 2 * na + ne) ne S), pp2,
        set_aeads (mk (slice np na S) (slice (np + 2 * na) ne S)) (mk (slice (np + na) na S) (slice (np + 2 * na + ne) ne S))
          (set_skd (Some (slice 0 np S)) this))"
      "pp_at P k s (np + 2 * na + 2 * ne) pp2"
    using derive_ike_crypt_suite [OF assms(1,2) 1(2) b, of "set_skd (Some (slice 0 np S)) this"] unfolding S_def by blast
  obtain pp3 where 3: "allocate_bytes np pp2 = Inr (Some (slice (np + 2 * na + 2 * ne) np S), pp3)" "pp_at P k s (2 * np + 2 * na + 2 * ne) pp3"
    using allocate_bytes_total [OF assms(2) 2(2), of np] assms(4) unfolding S_def by (auto simp: algebra_simps)
  obtain pp4 where 4: "allocate_bytes np pp3 = Inr (Some (slice (2 * np + 2 * na + 2 * ne) np S), pp4)" "pp_at P k s (2 * np + 2 * na + 2 * ne + np) pp4"
    using allocate_bytes_total [OF assms(2) 3(2), of np] assms(4) unfolding S_def by auto
  show thesis
    by (rule that [OF _ pp_at_prf [OF 4(2)]])
      (simp add: derive_all_def 1(1) 2(1) 3(1) 4(1) K_def rfc_ike_keys_def S_def [symmetric])
qed

text \<open>
  The key of the PRF for SKEYSEED, RFC 7296, section 2.14: the nonces, and for the PRFs that take a
  key of fixed length half of the key from the front of each.
\<close>

definition rfc_seed_key :: "16 word \<Rightarrow> nat \<Rightarrow> chunk \<Rightarrow> chunk \<Rightarrow> chunk" where
  "rfc_seed_key alg n ni nr =
     (if alg = PRF_AES128_XCBC \<or> alg = PRF_AES128_CMAC \<or> alg = PRF_CAMELLIA128_XCBC
      then take (n div 2) ni @ take (n div 2) nr else ni @ nr)"

lemma fixed_nonces:
  assumes "prf_key_size P < 2 ^ 16"
  shows "fixed_nonce alg P ni @ fixed_nonce alg P nr = rfc_seed_key alg (prf_key_size P) ni nr"
proof -
  have "u16 (prf_key_size P div 2) = prf_key_size P div 2" using assms by (simp add: u16_def)
  then show ?thesis by (simp add: fixed_nonce_def rfc_seed_key_def)
qed

text \<open>
  The PRF the keys are expanded with, and SKEYSEED: the one of the new SA, or, when an SA is
  rekeyed, the one of the old SA.
\<close>

definition seeded ::
  "ike_crypto \<Rightarrow> 16 word \<Rightarrow> prf_alg \<Rightarrow> chunk \<Rightarrow> chunk \<Rightarrow> chunk \<Rightarrow> 16 word \<Rightarrow> chunk \<Rightarrow> prf_alg \<Rightarrow> chunk \<Rightarrow> bool" where
  "seeded F alg P secret ni nr rekey_function rekey_skd Q skeyseed \<longleftrightarrow>
     (if rekey_function = PRF_UNDEFINED
      then Q = P \<and> skeyseed = prf_fun P (rfc_seed_key alg (prf_key_size P) ni nr) secret
      else cf_prf F rekey_function = Some Q \<and> skeyseed = prf_fun Q rekey_skd (secret @ ni @ nr))"

lemma derive_ike_keys_suite:
  fixes si sr :: chunk
  assumes "get_algorithm PSEUDO_RANDOM_FUNCTION prop = Some (alg, x)" "cf_prf F alg = Some P" "prf_total Q"
    and "suite F prop na ne mk" "seeded F alg P secret ni nr rekey_function rekey_skd Q skeyseed"
    and "0 < prf_key_size P" "prf_key_size P < 2 ^ 16" "3 * prf_key_size P + 2 * na + 2 * ne \<le> 255 * prf_block_size Q"
  defines "K \<equiv> rfc_ike_keys (prf_key_size P) na ne (rfc_prf_plus (prf_fun Q) skeyseed (ni @ nr @ si @ sr))"
  obtains t where "derive_ike_keys F prop (Some secret) ni nr si sr rekey_function rekey_skd (keymat_v2_create b) = Inr (True, Some K, t)"
    and "km_skd t = Some (sk_d K)" "\<exists>p. km_prf t = Some p \<and> pf_alg p = P" "km_prf_alg t = alg"
    and "km_skp_build t = (if b then sk_pi K else sk_pr K)" "km_skp_verify t = (if b then sk_pr K else sk_pi K)"
    and "km_aead_out t = Some (if b then mk (sk_ai K) (sk_ei K) else mk (sk_ar K) (sk_er K))"
    and "km_aead_in t = Some (if b then mk (sk_ar K) (sk_er K) else mk (sk_ai K) (sk_ei K))"
proof -
  have u: "u16 (prf_key_size P) = prf_key_size P" using assms(7) by (simp add: u16_def)
  define t0 where "t0 = (keymat_v2_create b)\<lparr>km_prf_alg := alg, km_prf := Some (new_prf P)\<rparr>"
  define t1 where "t1 = set_skpr (sk_pr K) (set_skpi (sk_pi K) (set_aeads (mk (sk_ai K) (sk_ei K)) (mk (sk_ar K) (sk_er K)) (set_skd (Some (sk_d K)) t0)))"
  have "length (rfc_prf_plus (prf_fun Q) skeyseed s) = 255 * prf_block_size Q" for s by (rule length_rfc_prf_plus [OF assms(3)])
  then have "length (sk_pi K) = prf_key_size P" "length (sk_pr K) = prf_key_size P"
    using assms(8) by (simp_all add: K_def rfc_ike_keys_def length_slice)
  then have ne: "sk_pi K \<noteq> []" "sk_pr K \<noteq> []" using assms(6) by auto
  have f: "km_skp_build t1 = (if b then sk_pi K else sk_pr K)" "km_skp_verify t1 = (if b then sk_pr K else sk_pi K)" "km_skd t1 = Some (sk_d K)"
      "km_aead_out t1 = Some (if b then mk (sk_ai K) (sk_ei K) else mk (sk_ar K) (sk_er K))" "km_prf_alg t1 = alg" "km_prf t1 = Some (new_prf P)"
      "km_aead_in t1 = Some (if b then mk (sk_ar K) (sk_er K) else mk (sk_ai K) (sk_ei K))"
    by (simp_all add: t1_def t0_def set_skpr_def set_skpi_def set_aeads_def set_skd_def keymat_v2_create_def)
  show thesis
  proof (cases "rekey_function = PRF_UNDEFINED")
    case True
    then have Q: "Q = P" "skeyseed = prf_fun P (fixed_nonce alg P ni @ fixed_nonce alg P nr) secret" using assms(5) by (simp_all add: seeded_def fixed_nonces [OF assms(7)])
    have a: "pf_alg (new_prf P) = Q" by (simp add: new_prf_def Q)
    obtain pp p where e: "skeyseed_expand (new_prf P) (fixed_nonce alg P ni @ fixed_nonce alg P nr) secret (ni @ nr @ si @ sr) = (Some pp, p)"
        "pp_at Q skeyseed (ni @ nr @ si @ sr) 0 pp"
      by (rule skeyseed_expand_at [OF assms(3) a, of "fixed_nonce alg P ni @ fixed_nonce alg P nr" secret "ni @ nr @ si @ sr"]) (simp add: Q)
    obtain pp' where d: "derive_all F prop (prf_key_size P) pp t0 = Inr (Some K, pp', t1)" "pf_alg (pp_prf pp') = P"
      using derive_all_suite [OF assms(4,3) e(2) assms(8), of t0] unfolding K_def t1_def Q(1) by blast
    show thesis
      by (rule that [of "t1\<lparr>km_prf := Some (pp_prf pp')\<rparr>"])
        (use True assms(1,2) e(1) d f ne u in \<open>auto simp: derive_ike_keys_def Let_def t0_def [symmetric]\<close>)
  next
    case False
    then have Q: "cf_prf F rekey_function = Some Q" "skeyseed = prf_fun Q rekey_skd (secret @ ni @ nr)" using assms(5) by (simp_all add: seeded_def)
    have a: "pf_alg (new_prf Q) = Q" by (simp add: new_prf_def)
    obtain pp p where e: "skeyseed_expand (new_prf Q) rekey_skd (secret @ ni @ nr) (ni @ nr @ si @ sr) = (Some pp, p)"
        "pp_at Q skeyseed (ni @ nr @ si @ sr) 0 pp"
      by (rule skeyseed_expand_at [OF assms(3) a, of rekey_skd "secret @ ni @ nr" "ni @ nr @ si @ sr"]) (simp add: Q)
    obtain pp' where d: "derive_all F prop (prf_key_size P) pp t0 = Inr (Some K, pp', t1)"
      using derive_all_suite [OF assms(4,3) e(2) assms(8), of t0] unfolding K_def t1_def by blast
    have "pf_alg (new_prf P) = P" by (simp add: new_prf_def)
    then show thesis
      by (intro that [of t1]) (use False assms(1,2) e(1) d f ne u Q(1) in \<open>auto simp: derive_ike_keys_def Let_def t0_def [symmetric]\<close>)
  qed
qed

text \<open>SK_p with a PPK mixed in, and the AUTH value of RFC 7296, section 2.15, and RFC 8784.\<close>

definition rfc_skp :: "prf_alg \<Rightarrow> chunk option \<Rightarrow> chunk \<Rightarrow> chunk" where
  "rfc_skp P ppk skp = (case ppk of None \<Rightarrow> skp | Some k \<Rightarrow> slice 0 (length skp) (rfc_prf_plus (prf_fun P) k skp))"

definition rfc_auth :: "prf_alg \<Rightarrow> chunk \<Rightarrow> chunk \<Rightarrow> chunk option \<Rightarrow> chunk \<Rightarrow> chunk \<Rightarrow> ident \<Rightarrow> chunk \<Rightarrow> chunk" where
  "rfc_auth P skp secret ppk init nonce i reserved =
     prf_fun P (prf_fun P (if secret = [] then rfc_skp P ppk skp else secret) IKEV2_KEY_PAD)
       (init @ nonce @ prf_fun P (rfc_skp P ppk skp) ([fst i] @ reserved @ snd i))"

lemma derive_skp_ppk_total:
  assumes "prf_total P" "pf_alg p = P" "length skp \<le> 255 * prf_block_size P"
  obtains p' where "derive_skp_ppk k skp p = Inr (Some (rfc_skp P (Some k) skp), p')" "pf_alg p' = P"
proof -
  have a: "prf_laws P" "prf_accepts P k" using assms(1) by (simp_all add: prf_total_def)
  note c = prf_plus_create_at [OF a, of skp]
  obtain pp' where "allocate_bytes (length skp) (pp_state P k skp 0 0) = Inr (Some (slice 0 (length skp) (rfc_prf_plus (prf_fun P) k skp)), pp')"
      "pp_at P k skp (length skp) pp'"
    using allocate_bytes_total [OF assms(1) c(2), of "length skp"] assms(3) by auto
  then show thesis using that [of "pp_prf pp'"] assms(1,2) c(1) pp_at_prf by (simp add: derive_skp_ppk_def derive_ppk_key_def rfc_skp_def)
qed

lemma skp_for_auth:
  assumes "prf_total P" "pf_alg p = P" "length skp \<le> 255 * prf_block_size P"
  obtains p' where "(case ppk of None \<Rightarrow> Inr (Some skp, p) | Some k \<Rightarrow> derive_skp_ppk k skp p) = Inr (Some (rfc_skp P ppk skp), p')" "pf_alg p' = P"
proof (cases ppk)
  case None
  then show thesis using that assms(2) by (simp add: rfc_skp_def)
next
  case (Some k)
  obtain p' where "derive_skp_ppk k skp p = Inr (Some (rfc_skp P (Some k) skp), p')" "pf_alg p' = P"
    using derive_skp_ppk_total [OF assms, of k] .
  then show thesis using that [of p'] Some by simp
qed

lemma get_auth_octets_total:
  fixes v :: bool
  assumes "prf_total P" "km_prf t = Some p" "pf_alg p = P"
  defines "skp \<equiv> if v then km_skp_verify t else km_skp_build t"
  assumes "length skp \<le> 255 * prf_block_size P"
  obtains p' where "get_auth_octets v init nonce ppk i reserved t =
      Inr (Some (init @ nonce @ prf_fun P (rfc_skp P ppk skp) ([fst i] @ reserved @ snd i)), t\<lparr>km_prf := Some p'\<rparr>)" "pf_alg p' = P"
proof -
  obtain p1 where "(case ppk of None \<Rightarrow> Inr (Some skp, p) | Some k \<Rightarrow> derive_skp_ppk k skp p) = Inr (Some (rfc_skp P ppk skp), p1)" "pf_alg p1 = P"
    using skp_for_auth [OF assms(1,3,5)] .
  then show thesis using that [of "\<lparr>pf_alg = P, pf_key = rfc_skp P ppk skp, pf_pending = []\<rparr>"] assms(1,2)
    by (simp add: get_auth_octets_def Let_def skp_def [symmetric])
qed

lemma update_twice: "t\<lparr>km_prf := x\<rparr>\<lparr>km_prf := y\<rparr> = t\<lparr>km_prf := y\<rparr>" for t :: keymat_v2
  by simp

lemma get_psk_sig_total:
  fixes v :: bool
  assumes "prf_total P" "km_prf t = Some p" "pf_alg p = P"
  defines "skp \<equiv> if v then km_skp_verify t else km_skp_build t"
  assumes "length skp \<le> 255 * prf_block_size P"
  obtains p' where "get_psk_sig v init nonce secret ppk i reserved t =
      Inr (Some (rfc_auth P skp secret ppk init nonce i reserved), t\<lparr>km_prf := Some p'\<rparr>)" "pf_alg p' = P"
proof -
  obtain p1 where 1: "(if secret \<noteq> [] then Inr (Some secret, p)
        else (case ppk of None \<Rightarrow> Inr (Some skp, p) | Some k \<Rightarrow> derive_skp_ppk k skp p))
      = Inr (Some (if secret = [] then rfc_skp P ppk skp else secret), p1)" "pf_alg p1 = P"
  proof (cases "secret = []")
    case True
    then show thesis using skp_for_auth [OF assms(1,3,5), of ppk] that by auto
  next
    case False
    then show thesis using that assms(3) by simp
  qed
  have t1: "km_prf (t\<lparr>km_prf := Some p1\<rparr>) = Some p1" "(if v then km_skp_verify (t\<lparr>km_prf := Some p1\<rparr>) else km_skp_build (t\<lparr>km_prf := Some p1\<rparr>)) = skp"
    by (simp_all add: skp_def)
  obtain p2 where 2: "get_auth_octets v init nonce ppk i reserved (t\<lparr>km_prf := Some p1\<rparr>) =
      Inr (Some (init @ nonce @ prf_fun P (rfc_skp P ppk skp) ([fst i] @ reserved @ snd i)), t\<lparr>km_prf := Some p2\<rparr>)" "pf_alg p2 = P"
    by (rule get_auth_octets_total [OF assms(1) t1(1) 1(2), of v init nonce ppk i reserved]) (use assms(5) in \<open>simp_all only: t1(2) update_twice\<close>)
  define key where "key = prf_fun P (if secret = [] then rfc_skp P ppk skp else secret) IKEV2_KEY_PAD"
  show thesis
    by (rule that [of "\<lparr>pf_alg = P, pf_key = key, pf_pending = []\<rparr>"])
      (use assms(1,2) 1 2 in \<open>simp_all add: get_psk_sig_def Let_def skp_def [symmetric] rfc_auth_def key_def\<close>)
qed


text \<open>
  C35. The keys of a child SA are consecutive parts of prf+ (SK_d, [g^ir |] Ni | Nr): encryption and
  integrity key of the initiator, then of the responder, each as long as the negotiated
  algorithm demands, so that two sides with the same SK_d derive the same keys.
\<close>

theorem child_keys_rfc7296:
  fixes ni nr :: chunk
  assumes "prf_total P" "km_prf t = Some p" "pf_alg p = P" "km_skd t = Some skd"
    and "child_enc_size prop = Some e" "child_int_size prop = Some n" "2 * e + 2 * n \<le> 255 * prf_block_size P"
    and "dh = None \<and> secret = [] \<or> dh = Some (Some secret)"
  defines "S \<equiv> rfc_prf_plus (prf_fun P) skd (secret @ ni @ nr)"
  shows "\<exists>t'. derive_child_keys prop dh ni nr t = Inr (Some (slice 0 e S, slice e n S, slice (e + n) e S, slice (2 * e + n) n S), t')"
proof -
  have a: "prf_laws P" "prf_accepts P skd" using assms(1) by (simp_all add: prf_total_def)
  note c = prf_plus_create_at [OF a, of "secret @ ni @ nr"]
  obtain pp1 where 1: "allocate_bytes e (pp_state P skd (secret @ ni @ nr) 0 0) = Inr (Some (slice 0 e S), pp1)" "pp_at P skd (secret @ ni @ nr) e pp1"
    using allocate_bytes_total [OF assms(1) c(2), of e] assms(7) unfolding S_def by auto
  obtain pp2 where 2: "allocate_bytes n pp1 = Inr (Some (slice e n S), pp2)" "pp_at P skd (secret @ ni @ nr) (e + n) pp2"
    using allocate_bytes_total [OF assms(1) 1(2), of n] assms(7) unfolding S_def by auto
  obtain pp3 where 3: "allocate_bytes e pp2 = Inr (Some (slice (e + n) e S), pp3)" "pp_at P skd (secret @ ni @ nr) (e + n + e) pp3"
    using allocate_bytes_total [OF assms(1) 2(2), of e] assms(7) unfolding S_def by auto
  have m: "e + n + e = 2 * e + n" by simp
  obtain pp4 where 4: "allocate_bytes n pp3 = Inr (Some (slice (2 * e + n) n S), pp4)"
    using allocate_bytes_total [OF assms(1) 3(2) [unfolded m], of n] assms(7) unfolding S_def by auto
  have s: "(case dh of None \<Rightarrow> Some [] | Some x \<Rightarrow> x) = Some secret" using assms(8) by auto
  show ?thesis using assms(1-6) c(1) 1(1) 2(1) 3(1) 4 s by (simp add: derive_child_keys_def)
qed

section \<open>Witnesses\<close>

definition sample_ike_crypto :: ike_crypto where
  "sample_ike_crypto = \<lparr>cf_prf = (\<lambda>a. Some sample_prf), cf_signer = (\<lambda>a. Some sample_signer_alg),
     cf_crypter = (\<lambda>a n. Some sample_crypter_alg), cf_aead = (\<lambda>a n s. None), cf_rng = Some sample_rng\<rparr>"

lemma sample_prf_total: "prf_total sample_prf"
  using sample_prf_laws by (simp add: prf_total_def)

lemma sample_algorithms:
  "get_algorithm PSEUDO_RANDOM_FUNCTION sample_ike = Some (PRF_HMAC_SHA2_256, 0)" "get_algorithm ENCRYPTION_ALGORITHM sample_ike = Some (ENCR_AES_CBC, 256)"
  "get_algorithm INTEGRITY_ALGORITHM sample_ike = Some (AUTH_HMAC_SHA2_256_128, 0)"
  by code_simp+

lemma sample_suite:
  "suite sample_ike_crypto sample_ike 20 16
     (\<lambda>a e. aead_create \<lparr>ct_alg = sample_crypter_alg, ct_key = e\<rparr> \<lparr>st_alg = sample_signer_alg, st_key = a, st_pending = []\<rparr> (Iv_Rand (Some sample_rng)))"
proof -
  have "\<not> encryption_algorithm_is_aead ENCR_AES_CBC" "iv_gen_create_for_alg (Some sample_rng) ENCR_AES_CBC = Some (Iv_Rand (Some sample_rng))"
    by (simp_all add: encryption_algorithm_is_aead_def iv_gen_create_for_alg_def)
  moreover have "20 = sa_key_size sample_signer_alg" "16 = ca_key_size sample_crypter_alg"
      "\<forall>k. length k = 20 \<longrightarrow> sa_set_key sample_signer_alg k \<and> signer_good sample_signer_alg k"
      "\<forall>k. length k = 16 \<longrightarrow> ca_set_key sample_crypter_alg k \<and> crypter_good sample_crypter_alg k"
    using sample_signer_good sample_crypter_good by (simp_all add: sample_signer_alg_def sample_crypter_alg_def)
  moreover have "cf_signer sample_ike_crypto AUTH_HMAC_SHA2_256_128 = Some sample_signer_alg"
      "cf_crypter sample_ike_crypto ENCR_AES_CBC (unat (256 :: 16 word) div 8) = Some sample_crypter_alg" "cf_rng sample_ike_crypto = Some sample_rng"
    by (simp_all add: sample_ike_crypto_def)
  ultimately show ?thesis unfolding suite_def suite_traditional_def
    by (intro disjI2 exI conjI) (assumption | rule sample_algorithms refl | simp only:)+
qed


theorem child_keys_rfc7296_witness:
  "\<exists>t'. derive_child_keys sample_esp None [3] [4] (keymat_v2_create True\<lparr>km_prf := Some (new_prf sample_prf), km_skd := Some [8]\<rparr>)
     = Inr (Some (slice 0 20 (rfc_prf_plus (prf_fun sample_prf) [8] ([] @ [3] @ [4])), [],
                  slice 20 20 (rfc_prf_plus (prf_fun sample_prf) [8] ([] @ [3] @ [4])), []), t')"
proof -
  have "child_enc_size sample_esp = Some 20" "child_int_size sample_esp = Some 0" by code_simp+
  from child_keys_rfc7296 [OF sample_prf_total _ _ _ this, of "keymat_v2_create True\<lparr>km_prf := Some (new_prf sample_prf), km_skd := Some [8]\<rparr>" "new_prf sample_prf" "[8]" None "[]" "[3]" "[4]"]
  show ?thesis by (simp add: new_prf_def sample_prf_def slice_def)
qed

end
