(* ===== verification/Eap_Authenticator.thy ===== *)
theory Eap_Authenticator
  imports Eap_Payload Keymat_V2 Transition
begin

text \<open>
  \<open>libcharon/sa/ikev2/authenticators/eap_authenticator.c\<close>, the two sides of an IKE_AUTH exchange
  with EAP: they pass EAP messages to a method, and when it has succeeded exchange AUTH payloads
  under its MSK.  EAP methods and the hook \<open>eap_authorize\<close> of the bus are parameters with a world
  \<open>'w\<close> they act on; of an IKE_SA and its messages there is what the authenticator uses.
\<close>

section \<open>Authentication configuration\<close>

text \<open>
  From \<open>libstrongswan/credentials/auth_cfg.c\<close>: rules that are expected once are added in front,
  and the first one counts; the rules not used here are not distinguished.
\<close>

datatype auth_entry =
    Rule_Auth_Class nat | Rule_Aaa_Identity ident | Rule_Eap_Identity ident
  | Rule_Eap_Type eap_type | Rule_Eap_Vendor "32 word" | Rule_Other nat

type_synonym auth_cfg = "auth_entry list"

abbreviation AUTH_CLASS_EAP :: nat where "AUTH_CLASS_EAP \<equiv> 3"

definition cfg_add :: "auth_entry \<Rightarrow> auth_cfg \<Rightarrow> auth_cfg" where
  "cfg_add e this = e # this"

fun cfg_first :: "(auth_entry \<Rightarrow> 'a option) \<Rightarrow> auth_cfg \<Rightarrow> 'a option" where
  "cfg_first f [] = None"
| "cfg_first f (e # es) = (case f e of None \<Rightarrow> cfg_first f es | Some x \<Rightarrow> Some x)"

definition cfg_eap_identity :: "auth_cfg \<Rightarrow> ident option" where
  "cfg_eap_identity = cfg_first (\<lambda>e. case e of Rule_Eap_Identity i \<Rightarrow> Some i | _ \<Rightarrow> None)"

definition cfg_aaa_identity :: "auth_cfg \<Rightarrow> ident option" where
  "cfg_aaa_identity = cfg_first (\<lambda>e. case e of Rule_Aaa_Identity i \<Rightarrow> Some i | _ \<Rightarrow> None)"

definition cfg_eap_type :: "auth_cfg \<Rightarrow> eap_type" where
  "cfg_eap_type this = (case cfg_first (\<lambda>e. case e of Rule_Eap_Type t \<Rightarrow> Some t | _ \<Rightarrow> None) this of None \<Rightarrow> EAP_NAK | Some t \<Rightarrow> t)"

definition cfg_eap_vendor :: "auth_cfg \<Rightarrow> 32 word" where
  "cfg_eap_vendor this = (case cfg_first (\<lambda>e. case e of Rule_Eap_Vendor v \<Rightarrow> Some v | _ \<Rightarrow> None) this of None \<Rightarrow> 0 | Some v \<Rightarrow> v)"

text \<open>\<open>merge\<close> without copying moves the entries of the other configuration to the front.\<close>

definition cfg_merge :: "auth_cfg \<Rightarrow> auth_cfg \<Rightarrow> auth_cfg" where
  "cfg_merge other this = other @ this"

section \<open>Data\<close>

text \<open>
  The operations of an EAP method; \<open>em_get_auth\<close> is \<open>None\<close> for a method without that operation, and
  \<open>em_taken\<close> is the method after the entries of its configuration were moved elsewhere.
\<close>

record ('c, 'm, 'w) eap_env =
  ev_manager :: "'c eap_manager"
  ev_construct :: "'c \<Rightarrow> ident \<Rightarrow> ident \<Rightarrow> 'm option"
  em_initiate :: "'m \<Rightarrow> 'w \<Rightarrow> (status \<times> eap_payload option \<times> 'm \<times> 'w) res"
  em_process :: "eap_payload \<Rightarrow> 'm \<Rightarrow> 'w \<Rightarrow> (status \<times> eap_payload option \<times> 'm \<times> 'w) res"
  em_get_type :: "'m \<Rightarrow> eap_type \<times> 32 word"
  em_get_msk :: "'m \<Rightarrow> chunk option"
  em_is_mutual :: "'m \<Rightarrow> bool"
  em_get_auth :: "'m \<Rightarrow> auth_cfg option option"
  em_taken :: "'m \<Rightarrow> 'm"
  ev_authorize :: "ident option \<Rightarrow> 'w \<Rightarrow> (bool \<times> 'w) res"
  ev_identity :: "chunk \<Rightarrow> ident"

record eap_sa =
  is_my_id :: ident
  is_other_id :: ident
  is_my_cfg :: auth_cfg
  is_other_cfg :: auth_cfg
  is_keymat :: keymat_v2
  is_ext_ppk :: bool
  is_eap_authenticated :: bool

record 'm eap_authenticator =
  ea_ike_sa :: eap_sa
  ea_received_nonce :: chunk
  ea_sent_nonce :: chunk
  ea_received_init :: chunk
  ea_sent_init :: chunk
  ea_reserved :: chunk
  ea_ppk :: "chunk option"
  ea_no_ppk_auth :: bool
  ea_method :: "'m option"
  ea_msk :: chunk
  ea_eap_complete :: bool
  ea_require_mutual :: bool
  ea_auth_complete :: bool
  ea_eap_payload :: "eap_payload option"
  ea_eap_identity :: "ident option"

text \<open>A received message, and the payloads that are added to one.\<close>

record auth_message =
  am_auth :: "chunk option"
  am_eap :: "eap_payload option"
  am_no_ppk_auth :: "chunk option"

datatype out_payload = Out_Auth byte chunk | Out_Eap eap_payload | Out_No_Ppk_Auth chunk

abbreviation AUTH_PSK :: byte where "AUTH_PSK \<equiv> 2"
abbreviation ID_ANY :: byte where "ID_ANY \<equiv> 0"

definition eap_authenticator_create ::
  "eap_sa \<Rightarrow> chunk \<Rightarrow> chunk \<Rightarrow> chunk \<Rightarrow> chunk \<Rightarrow> chunk \<Rightarrow> 'm eap_authenticator" where
  "eap_authenticator_create sa received_nonce sent_nonce received_init sent_init reserved =
     \<lparr>ea_ike_sa = sa, ea_received_nonce = received_nonce, ea_sent_nonce = sent_nonce, ea_received_init = received_init,
      ea_sent_init = sent_init, ea_reserved = reserved, ea_ppk = None, ea_no_ppk_auth = False, ea_method = None, ea_msk = [],
      ea_eap_complete = False, ea_require_mutual = False, ea_auth_complete = False, ea_eap_payload = None, ea_eap_identity = None\<rparr>"

section \<open>The server\<close>

definition load_method :: "('c, 'm, 'w) eap_env \<Rightarrow> eap_type \<Rightarrow> 32 word \<Rightarrow> eap_role \<Rightarrow> 'm eap_authenticator \<Rightarrow> 'm option" where
  "load_method V type vendor role this =
     (let sa = ea_ike_sa this;
          (server, peer, auth) = (case role of
             EAP_SERVER \<Rightarrow> (is_my_id sa, is_other_id sa, is_other_cfg sa)
           | EAP_PEER \<Rightarrow> (is_other_id sa, is_my_id sa, is_my_cfg sa));
          peer1 = (case ea_eap_identity this of None \<Rightarrow> peer | Some i \<Rightarrow> i);
          server1 = (case cfg_aaa_identity auth of None \<Rightarrow> server | Some i \<Rightarrow> i) in
      create_instance (ev_construct V) type vendor role server1 peer1 (ev_manager V))"

text \<open>The configured method, after the exchange of identities.\<close>

definition initiate_real ::
  "('c, 'm, 'w) eap_env \<Rightarrow> 'm eap_authenticator \<Rightarrow> 'w \<Rightarrow> (eap_payload option \<times> 'm eap_authenticator \<times> 'w) res" where
  "initiate_real V this w =
     (let auth = is_other_cfg (ea_ike_sa this) in
      case load_method V (cfg_eap_type auth) (cfg_eap_vendor auth) EAP_SERVER this of
        None \<Rightarrow> Inr (Some (eap_payload_create_code EAP_FAILURE 0), this\<lparr>ea_method := None\<rparr>, w)
      | Some m \<Rightarrow>
          andThen (em_initiate V m w) (\<lambda>(st, out, m1, w1).
            if st = NEED_MORE then
              (case out of None \<Rightarrow> Inl NullDeref | Some p \<Rightarrow> Inr (Some p, this\<lparr>ea_method := Some m1\<rparr>, w1))
            else Inr (Some (eap_payload_create_code EAP_FAILURE 0), this\<lparr>ea_method := Some m1\<rparr>, w1)))"

definition server_initiate_eap ::
  "('c, 'm, 'w) eap_env \<Rightarrow> bool \<Rightarrow> 'm eap_authenticator \<Rightarrow> 'w \<Rightarrow> (eap_payload option \<times> 'm eap_authenticator \<times> 'w) res" where
  "server_initiate_eap V do_identity this w =
     (case (if ea_eap_identity this = None \<and> do_identity then cfg_eap_identity (is_other_cfg (ea_ike_sa this)) else None) of
        None \<Rightarrow> initiate_real V this w
      | Some i \<Rightarrow>
          if fst i = ID_ANY then
            (case load_method V EAP_IDENTITY 0 EAP_SERVER this of
               None \<Rightarrow> initiate_real V this w
             | Some m \<Rightarrow>
                 andThen (em_initiate V m w) (\<lambda>(st, out, m1, w1).
                   if st = NEED_MORE then Inr (out, this\<lparr>ea_method := Some m1\<rparr>, w1)
                   else initiate_real V this w1))
          else initiate_real V (this\<lparr>ea_eap_identity := Some i\<rparr>) w)"

definition replace_eap_identity :: "ident \<Rightarrow> 'm eap_authenticator \<Rightarrow> 'm eap_authenticator" where
  "replace_eap_identity i this =
     this\<lparr>ea_ike_sa := (ea_ike_sa this)\<lparr>is_other_cfg := cfg_add (Rule_Eap_Identity i) (is_other_cfg (ea_ike_sa this))\<rparr>\<rparr>"

definition get_identification :: "('c, 'm, 'w) eap_env \<Rightarrow> 'm \<Rightarrow> 'm eap_authenticator \<Rightarrow> ident option" where
  "get_identification V m this =
     (case ea_eap_identity this of
        Some i \<Rightarrow> Some i
      | None \<Rightarrow> (case em_get_auth V m of Some (Some auth) \<Rightarrow> cfg_eap_identity auth | _ \<Rightarrow> None))"

text \<open>The branch of a method that reports success.\<close>

definition server_eap_success ::
  "('c, 'm, 'w) eap_env \<Rightarrow> byte \<Rightarrow> eap_type \<times> 32 word \<Rightarrow> 'm \<Rightarrow> 'm eap_authenticator \<Rightarrow> 'w
    \<Rightarrow> (eap_payload option \<times> 'm eap_authenticator \<times> 'w) res" where
  "server_eap_success V ident tv m this w =
     (if tv = (EAP_IDENTITY, 0) then
        server_initiate_eap V False
          (case em_get_msk V m of
             None \<Rightarrow> this
           | Some d \<Rightarrow> replace_eap_identity (ev_identity V d) (this\<lparr>ea_eap_identity := Some (ev_identity V d)\<rparr>)) w
      else
        let t = (case em_get_msk V m of None \<Rightarrow> this | Some k \<Rightarrow> this\<lparr>ea_msk := k\<rparr>) in
        andThen (ev_authorize V (get_identification V m t) w) (\<lambda>(ok, w1).
          if \<not> ok then Inr (Some (eap_payload_create_code EAP_FAILURE ident), t\<lparr>ea_eap_complete := False\<rparr>, w1)
          else Inr (Some (eap_payload_create_code EAP_SUCCESS ident),
                 t\<lparr>ea_ike_sa := (ea_ike_sa t)\<lparr>is_eap_authenticated := True\<rparr>, ea_eap_complete := True\<rparr>, w1)))"

definition server_process_eap ::
  "('c, 'm, 'w) eap_env \<Rightarrow> eap_payload \<Rightarrow> 'm eap_authenticator \<Rightarrow> 'w \<Rightarrow> (eap_payload option \<times> 'm eap_authenticator \<times> 'w) res" where
  "server_process_eap V inp this w =
     (let fail = Some (eap_payload_create_code EAP_FAILURE (eap_get_identifier inp)) in
      if eap_get_code inp \<noteq> EAP_RESPONSE then Inr (fail, this, w)
      else
        case ea_method this of
          None \<Rightarrow> Inl NullDeref
        | Some m \<Rightarrow>
            let tv = em_get_type V m; auth = is_other_cfg (ea_ike_sa this) in
            if tv \<noteq> eap_get_type inp
               \<and> (eap_get_type inp \<noteq> (EAP_NAK, 0) \<or> tv = (EAP_IDENTITY, 0) \<or> tv = (cfg_eap_type auth, cfg_eap_vendor auth))
            then Inr (fail, this, w)
            else
              andThen (em_process V inp m w) (\<lambda>(st, out, m1, w1).
                let t = this\<lparr>ea_method := Some m1\<rparr> in
                case st of
                  NEED_MORE \<Rightarrow> Inr (out, t, w1)
                | SUCCESS \<Rightarrow> server_eap_success V (eap_get_identifier inp) tv m1 t w1
                | FAILED \<Rightarrow> Inr (fail, t, w1)))"

section \<open>The client\<close>

definition client_process_eap ::
  "('c, 'm, 'w) eap_env \<Rightarrow> eap_payload \<Rightarrow> 'm eap_authenticator \<Rightarrow> 'w \<Rightarrow> (eap_payload option \<times> 'm eap_authenticator \<times> 'w) res" where
  "client_process_eap V inp this w =
     (let (type, vendor) = eap_get_type inp; auth = is_my_cfg (ea_ike_sa this); ident = eap_get_identifier inp;
          nak = (\<lambda>t v e this w. andThen (eap_payload_create_nak (ev_manager V) ident t v e) (\<lambda>p. Inr (Some p, this, w)));
          run = (\<lambda>m this w. andThen (em_process V inp m w) (\<lambda>(st, out, m1, w1).
                   Inr (if st = NEED_MORE then out else None, this\<lparr>ea_method := Some m1\<rparr>, w1))) in
      if vendor = 0 \<and> type = EAP_IDENTITY then
        let i = (case cfg_eap_identity auth of None \<Rightarrow> is_my_id (ea_ike_sa this)
                 | Some i \<Rightarrow> if fst i = ID_ANY then is_my_id (ea_ike_sa this) else i);
            t = this\<lparr>ea_eap_identity := Some i, ea_method := None\<rparr> in
        (case load_method V type vendor EAP_PEER t of
           None \<Rightarrow> nak 0 0 False t w
         | Some m \<Rightarrow>
             andThen (em_process V inp m w) (\<lambda>(st, out, m1, w1).
               if st = SUCCESS then Inr (out, t, w1) else nak 0 0 False t w1))
      else
        case ea_method this of
          Some m \<Rightarrow> run m this w
        | None \<Rightarrow>
            let conf_type = cfg_eap_type auth; conf_vendor = cfg_eap_vendor auth in
            if conf_type \<noteq> EAP_NAK \<and> (conf_type \<noteq> type \<or> conf_vendor \<noteq> vendor)
            then nak conf_type conf_vendor (is_expanded inp) this w
            else
              (case load_method V type vendor EAP_PEER this of
                 None \<Rightarrow> nak 0 0 (is_expanded inp) this w
               | Some m \<Rightarrow> run m this w))"

section \<open>AUTH payloads\<close>

definition received_auth :: "auth_message \<Rightarrow> 'm eap_authenticator \<Rightarrow> chunk option" where
  "received_auth msg this =
     (case am_auth msg of
        None \<Rightarrow> None
      | Some d \<Rightarrow>
          if is_ext_ppk (ea_ike_sa this) \<and> ea_ppk this = None
          then (case am_no_ppk_auth msg of None \<Rightarrow> Some d | Some n \<Rightarrow> Some n) else Some d)"

definition set_keymat :: "keymat_v2 \<Rightarrow> 'm eap_authenticator \<Rightarrow> 'm eap_authenticator" where
  "set_keymat k this = this\<lparr>ea_ike_sa := (ea_ike_sa this)\<lparr>is_keymat := k\<rparr>\<rparr>"

definition verify_auth ::
  "('c, 'm, 'w) eap_env \<Rightarrow> auth_message \<Rightarrow> chunk \<Rightarrow> chunk \<Rightarrow> 'm eap_authenticator \<Rightarrow> (bool \<times> 'm eap_authenticator) res" where
  "verify_auth V msg nonce init this =
     (case received_auth msg this of
        None \<Rightarrow> Inr (False, this)
      | Some recv \<Rightarrow>
          let sa = ea_ike_sa this in
          andThen (get_psk_sig True init nonce (ea_msk this) (ea_ppk this) (is_other_id sa) (ea_reserved this) (is_keymat sa)) (\<lambda>(sig, k).
            let t = set_keymat k this in
            case sig of
              None \<Rightarrow> Inr (False, t)
            | Some auth_data \<Rightarrow>
                if auth_data = [] \<or> auth_data \<noteq> recv then Inr (False, t)
                else
                  (case ea_method t of
                     None \<Rightarrow> Inl NullDeref
                   | Some m \<Rightarrow>
                       let (type, vendor) = em_get_type V m;
                           cfg = cfg_add (Rule_Eap_Type type) (cfg_add (Rule_Auth_Class AUTH_CLASS_EAP) (is_other_cfg (ea_ike_sa t)));
                           cfg1 = (if vendor \<noteq> 0 then cfg_add (Rule_Eap_Vendor vendor) cfg else cfg) in
                       Inr (True, t\<lparr>ea_auth_complete := True, ea_ike_sa := (ea_ike_sa t)\<lparr>is_other_cfg := cfg1\<rparr>\<rparr>))))"

definition build_auth :: "chunk \<Rightarrow> chunk \<Rightarrow> 'm eap_authenticator \<Rightarrow> (bool \<times> out_payload list \<times> 'm eap_authenticator) res" where
  "build_auth nonce init this =
     (let sa = ea_ike_sa this in
      andThen (get_psk_sig False init nonce (ea_msk this) (ea_ppk this) (is_my_id sa) (ea_reserved this) (is_keymat sa)) (\<lambda>(sig, k).
        let t = set_keymat k this in
        case sig of
          None \<Rightarrow> Inr (False, [], t)
        | Some auth_data \<Rightarrow>
            if ea_no_ppk_auth this then
              andThen (get_psk_sig False init nonce (ea_msk this) None (is_my_id sa) (ea_reserved this) k) (\<lambda>(sig1, k1).
                let t1 = set_keymat k1 this in
                case sig1 of
                  None \<Rightarrow> Inr (False, [Out_Auth AUTH_PSK auth_data], t1)
                | Some d \<Rightarrow> Inr (True, [Out_Auth AUTH_PSK auth_data, Out_No_Ppk_Auth d], t1))
            else Inr (True, [Out_Auth AUTH_PSK auth_data], t)))"

section \<open>The interface of an authenticator\<close>

definition process_server ::
  "('c, 'm, 'w) eap_env \<Rightarrow> auth_message \<Rightarrow> 'm eap_authenticator \<Rightarrow> 'w \<Rightarrow> (status \<times> 'm eap_authenticator \<times> 'w) res" where
  "process_server V msg this w =
     (if ea_eap_complete this then
        andThen (verify_auth V msg (ea_sent_nonce this) (ea_received_init this) this) (\<lambda>(ok, t).
          if \<not> ok then Inr (FAILED, t, w)
          else
            (case ea_method t of
               None \<Rightarrow> Inl NullDeref
             | Some m \<Rightarrow>
                 (case em_get_auth V m of
                    Some (Some auth) \<Rightarrow>
                      Inr (NEED_MORE, t\<lparr>ea_ike_sa := (ea_ike_sa t)\<lparr>is_other_cfg := cfg_merge auth (is_other_cfg (ea_ike_sa t))\<rparr>,
                             ea_method := Some (em_taken V m)\<rparr>, w)
                  | _ \<Rightarrow> Inr (NEED_MORE, t, w))))
      else if ea_method this = None then
        andThen (server_initiate_eap V True this w) (\<lambda>(p, t, w1). Inr (NEED_MORE, t\<lparr>ea_eap_payload := p\<rparr>, w1))
      else
        (case am_eap msg of
           None \<Rightarrow> Inr (FAILED, this, w)
         | Some inp \<Rightarrow> andThen (server_process_eap V inp this w) (\<lambda>(p, t, w1). Inr (NEED_MORE, t\<lparr>ea_eap_payload := p\<rparr>, w1))))"

definition build_server :: "'m eap_authenticator \<Rightarrow> (status \<times> out_payload list \<times> 'm eap_authenticator) res" where
  "build_server this =
     (case ea_eap_payload this of
        Some p \<Rightarrow> Inr (if eap_get_code p = EAP_FAILURE then FAILED else NEED_MORE, [Out_Eap p], this\<lparr>ea_eap_payload := None\<rparr>)
      | None \<Rightarrow>
          if ea_eap_complete this \<and> ea_auth_complete this then
            andThen (build_auth (ea_received_nonce this) (ea_sent_init this) this) (\<lambda>(ok, out, t). Inr (if ok then SUCCESS else FAILED, out, t))
          else Inr (FAILED, [], this))"

definition process_client ::
  "('c, 'm, 'w) eap_env \<Rightarrow> auth_message \<Rightarrow> 'm eap_authenticator \<Rightarrow> 'w \<Rightarrow> (status \<times> 'm eap_authenticator \<times> 'w) res" where
  "process_client V msg this w =
     (if ea_eap_complete this then
        andThen (verify_auth V msg (ea_sent_nonce this) (ea_received_init this) this) (\<lambda>(ok, t).
          if \<not> ok then Inr (FAILED, t, w)
          else if ea_require_mutual t then
            (case ea_method t of None \<Rightarrow> Inl NullDeref | Some m \<Rightarrow> Inr (if em_is_mutual V m then SUCCESS else FAILED, t, w))
          else Inr (SUCCESS, t, w))
      else
        case am_eap msg of
          None \<Rightarrow> Inr (FAILED, this, w)
        | Some inp \<Rightarrow>
            if eap_get_code inp = EAP_REQUEST then
              andThen (client_process_eap V inp this w) (\<lambda>(p, t, w1).
                Inr (if p = None then FAILED else NEED_MORE, t\<lparr>ea_eap_payload := p\<rparr>, w1))
            else if eap_get_code inp = EAP_SUCCESS then
              (case ea_method this of
                 None \<Rightarrow> Inl NullDeref
               | Some m \<Rightarrow>
                   let (type, vendor) = em_get_type V m;
                       cfg = cfg_add (Rule_Eap_Type type) (is_my_cfg (ea_ike_sa this));
                       cfg1 = (if vendor \<noteq> 0 then cfg_add (Rule_Eap_Vendor vendor) cfg else cfg);
                       t = (case em_get_msk V m of None \<Rightarrow> this | Some k \<Rightarrow> this\<lparr>ea_msk := k\<rparr>) in
                   Inr (NEED_MORE, t\<lparr>ea_ike_sa := (ea_ike_sa t)\<lparr>is_my_cfg := cfg1\<rparr>, ea_eap_complete := True\<rparr>, w))
            else Inr (FAILED, this, w))"

definition build_client :: "'m eap_authenticator \<Rightarrow> (status \<times> out_payload list \<times> 'm eap_authenticator) res" where
  "build_client this =
     (case ea_eap_payload this of
        Some p \<Rightarrow> Inr (NEED_MORE, [Out_Eap p], this\<lparr>ea_eap_payload := None\<rparr>)
      | None \<Rightarrow>
          if ea_eap_complete this then
            andThen (build_auth (ea_received_nonce this) (ea_sent_init this) this) (\<lambda>(ok, out, t). Inr (NEED_MORE, out, t))
          else Inr (NEED_MORE, [], this))"

definition is_mutual :: "('c, 'm, 'w) eap_env \<Rightarrow> 'm eap_authenticator \<Rightarrow> bool \<times> 'm eap_authenticator" where
  "is_mutual V this =
     (case ea_method this of
        Some m \<Rightarrow> if em_get_type V m \<noteq> (EAP_IDENTITY, 0) then (em_is_mutual V m, this) else (True, this\<lparr>ea_require_mutual := True\<rparr>)
      | None \<Rightarrow> (True, this\<lparr>ea_require_mutual := True\<rparr>))"

definition use_ppk :: "chunk option \<Rightarrow> bool \<Rightarrow> 'm eap_authenticator \<Rightarrow> 'm eap_authenticator" where
  "use_ppk ppk no_ppk_auth this = this\<lparr>ea_ppk := ppk, ea_no_ppk_auth := no_ppk_auth\<rparr>"

section \<open>Both sides together\<close>

text \<open>A message with the given payloads; \<open>get_payload\<close> and \<open>get_notify\<close> return the first of a type.\<close>

fun to_message :: "out_payload list \<Rightarrow> auth_message" where
  "to_message [] = \<lparr>am_auth = None, am_eap = None, am_no_ppk_auth = None\<rparr>"
| "to_message (Out_Auth m d # ps) = (to_message ps)\<lparr>am_auth := Some d\<rparr>"
| "to_message (Out_Eap p # ps) = (to_message ps)\<lparr>am_eap := Some p\<rparr>"
| "to_message (Out_No_Ppk_Auth d # ps) = (to_message ps)\<lparr>am_no_ppk_auth := Some d\<rparr>"

text \<open>
  The exchange of IKE_AUTH messages, driven by a request of the client: what the server and the
  client report last.  The run stops when a side fails, when both are done, or after \<open>n\<close> requests.
\<close>

fun auth_run ::
  "nat \<Rightarrow> ('c, 'm, 'w) eap_env \<Rightarrow> ('d, 'n, 'v) eap_env \<Rightarrow> auth_message \<Rightarrow> 'm eap_authenticator \<Rightarrow> 'w \<Rightarrow> 'n eap_authenticator \<Rightarrow> 'v
    \<Rightarrow> (status \<times> status \<times> 'm eap_authenticator \<times> 'w \<times> 'n eap_authenticator \<times> 'v) res" where
  "auth_run 0 V U msg s w c v = Inr (NEED_MORE, NEED_MORE, s, w, c, v)"
| "auth_run (Suc n) V U msg s w c v =
     andThen (process_server V msg s w) (\<lambda>(st, s1, w1).
       if st = FAILED then Inr (FAILED, NEED_MORE, s1, w1, c, v)
       else
         andThen (build_server s1) (\<lambda>(st1, out, s2).
           andThen (process_client U (to_message out) c v) (\<lambda>(st2, c1, v1).
             if st1 = NEED_MORE \<and> st2 = NEED_MORE then
               andThen (build_client c1) (\<lambda>(_, rsp, c2). auth_run n V U (to_message rsp) s2 w1 c2 v1)
             else Inr (st1, st2, s2, w1, c1, v1))))"

text \<open>
  Two methods talk: the client answers a request, the server takes the answer and either sends
  another request or succeeds.
\<close>

inductive eap_talk ::
  "('c, 'm, 'w) eap_env \<Rightarrow> ('d, 'n, 'v) eap_env \<Rightarrow> eap_payload \<Rightarrow> 'm \<Rightarrow> 'w \<Rightarrow> 'n \<Rightarrow> 'v \<Rightarrow> 'm \<Rightarrow> 'w \<Rightarrow> 'n \<Rightarrow> 'v \<Rightarrow> bool"
  for V :: "('c, 'm, 'w) eap_env" and U :: "('d, 'n, 'v) eap_env" where
  talk_last: "\<lbrakk>eap_get_code req = EAP_REQUEST; eap_get_type req \<noteq> (EAP_IDENTITY, 0);
     em_process U req mc v = Inr (NEED_MORE, Some rsp, mc1, v1); eap_get_code rsp = EAP_RESPONSE;
     eap_get_type rsp = em_get_type V ms; em_get_type V ms \<noteq> (EAP_IDENTITY, 0);
     em_process V rsp ms w = Inr (SUCCESS, out, ms1, w1)\<rbrakk>
     \<Longrightarrow> eap_talk V U req ms w mc v ms1 w1 mc1 v1"
| talk_more: "\<lbrakk>eap_get_code req = EAP_REQUEST; eap_get_type req \<noteq> (EAP_IDENTITY, 0);
     em_process U req mc v = Inr (NEED_MORE, Some rsp, mc1, v1); eap_get_code rsp = EAP_RESPONSE;
     eap_get_type rsp = em_get_type V ms;
     em_process V rsp ms w = Inr (NEED_MORE, Some req1, ms1, w1);
     eap_talk V U req1 ms1 w1 mc1 v1 ms2 w2 mc2 v2\<rbrakk>
     \<Longrightarrow> eap_talk V U req ms w mc v ms2 w2 mc2 v2"

text \<open>The two ends of an IKE SA: what one sent the other received, and they hold the same keys.\<close>

definition auth_keys :: "prf_alg \<Rightarrow> chunk \<Rightarrow> chunk \<Rightarrow> keymat_v2 \<Rightarrow> bool" where
  "auth_keys P skb skv k \<longleftrightarrow> prf_total P \<and> (\<exists>p. km_prf k = Some p \<and> pf_alg p = P)
     \<and> km_skp_build k = skb \<and> km_skp_verify k = skv
     \<and> length skb \<le> 255 * prf_block_size P \<and> length skv \<le> 255 * prf_block_size P"

definition ends :: "prf_alg \<Rightarrow> chunk \<Rightarrow> chunk \<Rightarrow> 'm eap_authenticator \<Rightarrow> 'n eap_authenticator \<Rightarrow> bool" where
  "ends P skpi skpr s c \<longleftrightarrow> ea_received_nonce s = ea_sent_nonce c \<and> ea_sent_nonce s = ea_received_nonce c
     \<and> ea_received_init s = ea_sent_init c \<and> ea_sent_init s = ea_received_init c \<and> ea_reserved s = ea_reserved c
     \<and> ea_ppk s = ea_ppk c \<and> \<not> ea_no_ppk_auth s \<and> \<not> ea_no_ppk_auth c
     \<and> is_my_id (ea_ike_sa s) = is_other_id (ea_ike_sa c) \<and> is_other_id (ea_ike_sa s) = is_my_id (ea_ike_sa c)
     \<and> auth_keys P skpr skpi (is_keymat (ea_ike_sa s)) \<and> auth_keys P skpi skpr (is_keymat (ea_ike_sa c))"

lemma sign_and_verify:
  assumes "auth_keys P x y k" "v \<longrightarrow> z = y" "\<not> v \<longrightarrow> z = x"
  obtains k' where "get_psk_sig v init nonce secret ppk i reserved k = Inr (Some (rfc_auth P z secret ppk init nonce i reserved), k')"
    "auth_keys P x y k'"
proof -
  obtain p where p: "km_prf k = Some p" "pf_alg p = P" and t: "prf_total P" using assms(1) by (auto simp: auth_keys_def)
  have z: "(if v then km_skp_verify k else km_skp_build k) = z" "length z \<le> 255 * prf_block_size P"
    using assms by (auto simp: auth_keys_def)
  obtain p' where "get_psk_sig v init nonce secret ppk i reserved k = Inr (Some (rfc_auth P z secret ppk init nonce i reserved), k\<lparr>km_prf := Some p'\<rparr>)"
      "pf_alg p' = P"
    using get_psk_sig_total [OF t p, of v init nonce secret ppk i reserved] z by auto
  then show thesis using assms(1) by (intro that [of "k\<lparr>km_prf := Some p'\<rparr>"]) (simp_all add: auth_keys_def)
qed

lemma rfc_auth_nonempty: "prf_total P \<Longrightarrow> rfc_auth P z secret ppk init nonce i reserved \<noteq> []"
proof -
  assume "prf_total P"
  then have "length (prf_fun P k d) = prf_block_size P" "0 < prf_block_size P" for k d
    using prf_total_steps(3) by (auto simp: prf_total_def prf_laws_def)
  then show ?thesis by (metis length_0_conv less_numeral_extra(3) rfc_auth_def)
qed

lemma code_of_create [simp]: "eap_get_code (eap_payload_create_code c i) = c"
  by (simp add: eap_get_code_def eap_payload_create_code_def eap_payload_create_data_def eap_set_data_def)

lemma keymat_of_set [simp]: "is_keymat (ea_ike_sa (set_keymat k s)) = k"
  by (simp add: set_keymat_def)

text \<open>AUTH payloads: what one end builds the other accepts.\<close>

lemma build_auth_total:
  assumes "auth_keys P x y (is_keymat (ea_ike_sa s))" "\<not> ea_no_ppk_auth s"
  obtains k where "build_auth nonce init s =
      Inr (True, [Out_Auth AUTH_PSK (rfc_auth P x (ea_msk s) (ea_ppk s) init nonce (is_my_id (ea_ike_sa s)) (ea_reserved s))], set_keymat k s)"
    "auth_keys P x y k"
proof (rule sign_and_verify [OF assms(1), of False x])
  fix k
  assume "get_psk_sig False init nonce (ea_msk s) (ea_ppk s) (is_my_id (ea_ike_sa s)) (ea_reserved s) (is_keymat (ea_ike_sa s))
      = Inr (Some (rfc_auth P x (ea_msk s) (ea_ppk s) init nonce (is_my_id (ea_ike_sa s)) (ea_reserved s)), k)" "auth_keys P x y k"
  then show thesis using assms(2) by (intro that [of k]) (simp_all add: build_auth_def Let_def)
qed simp_all

lemma verify_auth_accepts:
  assumes "auth_keys P x y (is_keymat (ea_ike_sa s))" "ea_method s = Some m"
    and "msg = to_message [Out_Auth a (rfc_auth P y (ea_msk s) (ea_ppk s) init nonce (is_other_id (ea_ike_sa s)) (ea_reserved s))]"
  obtains k cfg where "verify_auth V msg nonce init s = Inr (True, s\<lparr>ea_ike_sa := (ea_ike_sa s)\<lparr>is_keymat := k, is_other_cfg := cfg\<rparr>, ea_auth_complete := True\<rparr>)"
    "auth_keys P x y k"
proof (rule sign_and_verify [OF assms(1), of True y])
  fix k
  assume k: "get_psk_sig True init nonce (ea_msk s) (ea_ppk s) (is_other_id (ea_ike_sa s)) (ea_reserved s) (is_keymat (ea_ike_sa s))
      = Inr (Some (rfc_auth P y (ea_msk s) (ea_ppk s) init nonce (is_other_id (ea_ike_sa s)) (ea_reserved s)), k)" "auth_keys P x y k"
  have "prf_total P" using assms(1) by (simp add: auth_keys_def)
  then have n: "rfc_auth P y (ea_msk s) (ea_ppk s) init nonce (is_other_id (ea_ike_sa s)) (ea_reserved s) \<noteq> []" by (rule rfc_auth_nonempty)
  have r: "received_auth msg s = Some (rfc_auth P y (ea_msk s) (ea_ppk s) init nonce (is_other_id (ea_ike_sa s)) (ea_reserved s))"
    by (simp add: received_auth_def assms(3))
  obtain t v where "em_get_type V m = (t, v)" by force
  then show thesis using k n r assms(2)
    by (intro that [of "if v \<noteq> 0 then cfg_add (Rule_Eap_Vendor v) (cfg_add (Rule_Eap_Type t) (cfg_add (Rule_Auth_Class AUTH_CLASS_EAP) (is_other_cfg (ea_ike_sa s))))
        else cfg_add (Rule_Eap_Type t) (cfg_add (Rule_Auth_Class AUTH_CLASS_EAP) (is_other_cfg (ea_ike_sa s)))" k])
      (simp_all add: verify_auth_def set_keymat_def Let_def)
qed simp_all

text \<open>The state of a side that runs a method, and of one whose method has completed.\<close>

definition runs :: "'m \<Rightarrow> 'm eap_authenticator \<Rightarrow> bool" where
  "runs m s \<longleftrightarrow> ea_method s = Some m \<and> \<not> ea_eap_complete s \<and> ea_eap_payload s = None"

definition completed :: "'m \<Rightarrow> chunk \<Rightarrow> 'm eap_authenticator \<Rightarrow> bool" where
  "completed m k s \<longleftrightarrow> ea_method s = Some m \<and> ea_eap_complete s \<and> ea_eap_payload s = None \<and> ea_msk s = k"

text \<open>The last two messages: the client sends its AUTH payload, the server accepts it and answers with its own.\<close>

lemma server_accepts_auth:
  assumes "ends P i r s c" "completed m k s" "ea_msk c = k"
  obtains s1 s2 where "process_server V (to_message [Out_Auth AUTH_PSK
        (rfc_auth P i k (ea_ppk c) (ea_sent_init c) (ea_received_nonce c) (is_my_id (ea_ike_sa c)) (ea_reserved c))]) s w = Inr (NEED_MORE, s1, w)"
    "build_server s1 = Inr (SUCCESS, [Out_Auth AUTH_PSK
        (rfc_auth P r k (ea_ppk c) (ea_received_init c) (ea_sent_nonce c) (is_other_id (ea_ike_sa c)) (ea_reserved c))], s2)"
    "is_eap_authenticated (ea_ike_sa s2) = is_eap_authenticated (ea_ike_sa s)"
proof (rule verify_auth_accepts [where s = s and m = m and P = P and x = r and y = i and V = V
      and nonce = "ea_sent_nonce s" and init = "ea_received_init s" and a = AUTH_PSK])
  show "auth_keys P r i (is_keymat (ea_ike_sa s))" "ea_method s = Some m" using assms(1,2) by (simp_all add: ends_def completed_def)
  show "to_message [Out_Auth AUTH_PSK (rfc_auth P i k (ea_ppk c) (ea_sent_init c) (ea_received_nonce c) (is_my_id (ea_ike_sa c)) (ea_reserved c))]
      = to_message [Out_Auth AUTH_PSK (rfc_auth P i (ea_msk s) (ea_ppk s) (ea_received_init s) (ea_sent_nonce s) (is_other_id (ea_ike_sa s)) (ea_reserved s))]"
    using assms by (simp add: ends_def completed_def)
  fix km cfg
  let ?t = "s\<lparr>ea_ike_sa := (ea_ike_sa s)\<lparr>is_keymat := km, is_other_cfg := cfg\<rparr>, ea_auth_complete := True\<rparr>"
  assume v: "verify_auth V (to_message [Out_Auth AUTH_PSK
        (rfc_auth P i k (ea_ppk c) (ea_sent_init c) (ea_received_nonce c) (is_my_id (ea_ike_sa c)) (ea_reserved c))])
        (ea_sent_nonce s) (ea_received_init s) s = Inr (True, ?t)" and km: "auth_keys P r i km"
  define cfg1 m1 where "cfg1 = (case em_get_auth V m of Some (Some auth) \<Rightarrow> cfg_merge auth cfg | _ \<Rightarrow> cfg)"
    and "m1 = (case em_get_auth V m of Some (Some auth) \<Rightarrow> em_taken V m | _ \<Rightarrow> m)"
  let ?u = "?t\<lparr>ea_ike_sa := (ea_ike_sa ?t)\<lparr>is_other_cfg := cfg1\<rparr>, ea_method := Some m1\<rparr>"
  have p: "process_server V (to_message [Out_Auth AUTH_PSK
        (rfc_auth P i k (ea_ppk c) (ea_sent_init c) (ea_received_nonce c) (is_my_id (ea_ike_sa c)) (ea_reserved c))]) s w = Inr (NEED_MORE, ?u, w)"
    using assms(2) v unfolding cfg1_def m1_def by (simp add: process_server_def completed_def split: option.split)
  have "auth_keys P r i (is_keymat (ea_ike_sa ?u))" "\<not> ea_no_ppk_auth ?u" using km assms(1) by (simp_all add: ends_def)
  from build_auth_total [OF this, of "ea_received_nonce ?u" "ea_sent_init ?u"] obtain km1 where
    b: "build_auth (ea_received_nonce ?u) (ea_sent_init ?u) ?u = Inr (True, [Out_Auth AUTH_PSK
        (rfc_auth P r (ea_msk ?u) (ea_ppk ?u) (ea_sent_init ?u) (ea_received_nonce ?u) (is_my_id (ea_ike_sa ?u)) (ea_reserved ?u))], set_keymat km1 ?u)" .
  then have "build_server ?u = Inr (SUCCESS, [Out_Auth AUTH_PSK
        (rfc_auth P r k (ea_ppk c) (ea_received_init c) (ea_sent_nonce c) (is_other_id (ea_ike_sa c)) (ea_reserved c))], set_keymat km1 ?u)"
    using assms(1,2) by (simp add: build_server_def completed_def ends_def)
  then show thesis by (rule that [OF p]) (simp add: set_keymat_def)
qed

lemma finish_run:
  assumes "ends P i r s c" "completed m k s" "completed mc k c" "ea_require_mutual c \<longrightarrow> em_is_mutual U mc"
  shows "\<exists>out c1 s' c'. build_client c = Inr (NEED_MORE, out, c1) \<and> auth_run 1 V U (to_message out) s w c1 v = Inr (SUCCESS, SUCCESS, s', w, c', v)
    \<and> is_eap_authenticated (ea_ike_sa s') = is_eap_authenticated (ea_ike_sa s)"
proof -
  have mc: "ea_msk c = k" using assms(3) by (simp add: completed_def)
  have kc: "auth_keys P i r (is_keymat (ea_ike_sa c))" "\<not> ea_no_ppk_auth c" using assms(1) by (simp_all add: ends_def)
  obtain km where b: "build_auth (ea_received_nonce c) (ea_sent_init c) c = Inr (True, [Out_Auth AUTH_PSK
        (rfc_auth P i (ea_msk c) (ea_ppk c) (ea_sent_init c) (ea_received_nonce c) (is_my_id (ea_ike_sa c)) (ea_reserved c))], set_keymat km c)"
      and km: "auth_keys P i r km"
    by (rule build_auth_total [OF kc, of "ea_received_nonce c" "ea_sent_init c"])
  let ?c = "set_keymat km c"
  have bc: "build_client c = Inr (NEED_MORE, [Out_Auth AUTH_PSK
        (rfc_auth P i k (ea_ppk c) (ea_sent_init c) (ea_received_nonce c) (is_my_id (ea_ike_sa c)) (ea_reserved c))], ?c)"
    using b assms(3) by (simp add: build_client_def completed_def)
  obtain s1 s2 where sv: "process_server V (to_message [Out_Auth AUTH_PSK
        (rfc_auth P i k (ea_ppk c) (ea_sent_init c) (ea_received_nonce c) (is_my_id (ea_ike_sa c)) (ea_reserved c))]) s w = Inr (NEED_MORE, s1, w)"
    "build_server s1 = Inr (SUCCESS, [Out_Auth AUTH_PSK
        (rfc_auth P r k (ea_ppk c) (ea_received_init c) (ea_sent_nonce c) (is_other_id (ea_ike_sa c)) (ea_reserved c))], s2)"
    "is_eap_authenticated (ea_ike_sa s2) = is_eap_authenticated (ea_ike_sa s)"
    by (rule server_accepts_auth [OF assms(1,2) mc, of V w])
  have c: "auth_keys P i r (is_keymat (ea_ike_sa ?c))" "ea_method ?c = Some mc"
      "to_message [Out_Auth AUTH_PSK (rfc_auth P r k (ea_ppk c) (ea_received_init c) (ea_sent_nonce c) (is_other_id (ea_ike_sa c)) (ea_reserved c))]
      = to_message [Out_Auth AUTH_PSK (rfc_auth P r (ea_msk ?c) (ea_ppk ?c) (ea_received_init ?c) (ea_sent_nonce ?c) (is_other_id (ea_ike_sa ?c)) (ea_reserved ?c))]"
    using km assms(3) by (simp_all add: set_keymat_def completed_def)
  obtain km2 cfg where vc: "verify_auth U (to_message [Out_Auth AUTH_PSK
        (rfc_auth P r k (ea_ppk c) (ea_received_init c) (ea_sent_nonce c) (is_other_id (ea_ike_sa c)) (ea_reserved c))]) (ea_sent_nonce ?c) (ea_received_init ?c) ?c
      = Inr (True, ?c\<lparr>ea_ike_sa := (ea_ike_sa ?c)\<lparr>is_keymat := km2, is_other_cfg := cfg\<rparr>, ea_auth_complete := True\<rparr>)"
    by (rule verify_auth_accepts [OF c, of U]) (rule that)
  have "\<exists>c'. process_client U (to_message [Out_Auth AUTH_PSK
        (rfc_auth P r k (ea_ppk c) (ea_received_init c) (ea_sent_nonce c) (is_other_id (ea_ike_sa c)) (ea_reserved c))]) ?c v = Inr (SUCCESS, c', v)"
    using vc assms(3,4) by (auto simp: process_client_def completed_def set_keymat_def)
  then show ?thesis using bc sv by (auto simp: andThen_Inr_iff)
qed

text \<open>The client has a method for a request, or will load it.\<close>

definition serves :: "('d, 'n, 'v) eap_env \<Rightarrow> eap_payload \<Rightarrow> 'n eap_authenticator \<Rightarrow> 'n \<Rightarrow> bool" where
  "serves U req c m \<longleftrightarrow> ea_method c = Some m
     \<or> ea_method c = None \<and> load_method U (fst (eap_get_type req)) (snd (eap_get_type req)) EAP_PEER c = Some m
       \<and> (let auth = is_my_cfg (ea_ike_sa c) in cfg_eap_type auth = EAP_NAK \<or> (cfg_eap_type auth, cfg_eap_vendor auth) = eap_get_type req)"

lemma client_answers:
  assumes "serves U req c mc" "\<not> ea_eap_complete c" "eap_get_code req = EAP_REQUEST" "eap_get_type req \<noteq> (EAP_IDENTITY, 0)"
    and "em_process U req mc v = Inr (NEED_MORE, Some rsp, mc1, v1)"
  shows "process_client U (to_message [Out_Eap req]) c v = Inr (NEED_MORE, c\<lparr>ea_method := Some mc1, ea_eap_payload := Some rsp\<rparr>, v1)"
    and "build_client (c\<lparr>ea_method := Some mc1, ea_eap_payload := Some rsp\<rparr>) = Inr (NEED_MORE, [Out_Eap rsp], c\<lparr>ea_method := Some mc1, ea_eap_payload := None\<rparr>)"
proof -
  obtain t vd where tv: "eap_get_type req = (t, vd)" by force
  have "client_process_eap U req c v = Inr (Some rsp, c\<lparr>ea_method := Some mc1\<rparr>, v1)"
    using assms(1,4,5) tv by (auto simp: serves_def client_process_eap_def Let_def)
  then show "process_client U (to_message [Out_Eap req]) c v = Inr (NEED_MORE, c\<lparr>ea_method := Some mc1, ea_eap_payload := Some rsp\<rparr>, v1)"
    using assms(2,3) by (simp add: process_client_def)
  show "build_client (c\<lparr>ea_method := Some mc1, ea_eap_payload := Some rsp\<rparr>) = Inr (NEED_MORE, [Out_Eap rsp], c\<lparr>ea_method := Some mc1, ea_eap_payload := None\<rparr>)"
    by (simp add: build_client_def)
qed

lemma server_more:
  assumes "runs ms s" "eap_get_code rsp = EAP_RESPONSE" "eap_get_type rsp = em_get_type V ms"
    and "em_process V rsp ms w = Inr (NEED_MORE, Some req, ms1, w1)" "eap_get_code req = EAP_REQUEST"
  shows "process_server V (to_message [Out_Eap rsp]) s w = Inr (NEED_MORE, s\<lparr>ea_method := Some ms1, ea_eap_payload := Some req\<rparr>, w1)"
    and "build_server (s\<lparr>ea_method := Some ms1, ea_eap_payload := Some req\<rparr>) = Inr (NEED_MORE, [Out_Eap req], s\<lparr>ea_method := Some ms1, ea_eap_payload := None\<rparr>)"
    and "runs ms1 (s\<lparr>ea_method := Some ms1, ea_eap_payload := None\<rparr>)"
  using assms by (simp_all add: runs_def process_server_def server_process_eap_def build_server_def Let_def EAP_REQUEST_def)

lemma server_done:
  assumes "runs ms s" "eap_get_code rsp = EAP_RESPONSE" "eap_get_type rsp = em_get_type V ms" "em_get_type V ms \<noteq> (EAP_IDENTITY, 0)"
    and "em_process V rsp ms w = Inr (SUCCESS, out, ms1, w1)" "em_get_msk V ms1 = Some k"
    and "ev_authorize V (get_identification V ms1 s) w1 = Inr (True, w2)" "ends P i r s c"
  obtains s1 s2 where "process_server V (to_message [Out_Eap rsp]) s w = Inr (NEED_MORE, s1, w2)"
    "build_server s1 = Inr (NEED_MORE, [Out_Eap (eap_payload_create_code EAP_SUCCESS (eap_get_identifier rsp))], s2)"
    "completed ms1 k s2" "is_eap_authenticated (ea_ike_sa s2)" "ends P i r s2 c"
proof -
  let ?t = "s\<lparr>ea_method := Some ms1, ea_msk := k\<rparr>"
  have g: "get_identification V ms1 ?t = get_identification V ms1 s" by (simp add: get_identification_def)
  let ?u = "?t\<lparr>ea_ike_sa := (ea_ike_sa s)\<lparr>is_eap_authenticated := True\<rparr>, ea_eap_complete := True,
      ea_eap_payload := Some (eap_payload_create_code EAP_SUCCESS (eap_get_identifier rsp))\<rparr>"
  have "server_eap_success V (eap_get_identifier rsp) (em_get_type V ms) ms1 (s\<lparr>ea_method := Some ms1\<rparr>) w1
      = Inr (Some (eap_payload_create_code EAP_SUCCESS (eap_get_identifier rsp)), ?u\<lparr>ea_eap_payload := ea_eap_payload s\<rparr>, w2)"
    using assms(4,6,7) g by (simp add: server_eap_success_def Let_def)
  then have "process_server V (to_message [Out_Eap rsp]) s w = Inr (NEED_MORE, ?u, w2)"
    using assms(1-3,5) by (simp add: runs_def process_server_def server_process_eap_def Let_def)
  then show thesis
    by (rule that [of _ "?u\<lparr>ea_eap_payload := None\<rparr>"]) (use assms(8) in \<open>simp_all add: build_server_def completed_def ends_def\<close>)
qed

lemma client_succeeds:
  assumes "runs mc c" "em_get_msk U mc = Some k" "ends P i r s c"
  obtains c1 where "process_client U (to_message [Out_Eap (eap_payload_create_code EAP_SUCCESS x)]) c v = Inr (NEED_MORE, c1, v)"
    "completed mc k c1" "ends P i r s c1" "ea_require_mutual c1 = ea_require_mutual c"
proof -
  obtain t vd where "em_get_type U mc = (t, vd)" by force
  then show thesis using assms
    by (intro that [of "c\<lparr>ea_msk := k, ea_ike_sa := (ea_ike_sa c)\<lparr>is_my_cfg :=
          if vd \<noteq> 0 then cfg_add (Rule_Eap_Vendor vd) (cfg_add (Rule_Eap_Type t) (is_my_cfg (ea_ike_sa c)))
          else cfg_add (Rule_Eap_Type t) (is_my_cfg (ea_ike_sa c))\<rparr>, ea_eap_complete := True\<rparr>"])
      (simp_all add: process_client_def runs_def completed_def ends_def EAP_REQUEST_def Let_def)
qed

lemma talk_request: "eap_talk V U req ms w mc v ms1 w1 mc1 v1 \<Longrightarrow> eap_get_code req = EAP_REQUEST"
  by (erule eap_talk.cases) simp_all

text \<open>From a request on, the exchange completes.\<close>

lemma talk_run:
  assumes "eap_talk V U req ms w mc v msE wE mcE vE"
    and "runs ms s" "serves U req c mc" "\<not> ea_eap_complete c" "ends P i r s c"
    and "em_get_msk V msE = Some k" "em_get_msk U mcE = Some k"
    and "ev_authorize V (get_identification V msE s) wE = Inr (True, wF)" "ea_require_mutual c \<longrightarrow> em_is_mutual U mcE"
  shows "\<exists>n c1 v1 rsp c2 s' c'. process_client U (to_message [Out_Eap req]) c v = Inr (NEED_MORE, c1, v1)
    \<and> build_client c1 = Inr (NEED_MORE, rsp, c2) \<and> auth_run n V U (to_message rsp) s w c2 v1 = Inr (SUCCESS, SUCCESS, s', wF, c', vE)
    \<and> is_eap_authenticated (ea_ike_sa s')"
  using assms
proof (induction arbitrary: s c rule: eap_talk.induct)
  case (talk_last req mc v rsp mc1 v1 ms w out ms1 w1)
  note ca = client_answers [OF talk_last.prems(2,3) talk_last.hyps(1-3)]
  let ?c = "c\<lparr>ea_method := Some mc1, ea_eap_payload := None\<rparr>"
  have e: "ends P i r s ?c" "runs mc1 ?c" using talk_last.prems(3,4) by (simp_all add: ends_def runs_def)
  obtain s1 s2 where s: "process_server V (to_message [Out_Eap rsp]) s w = Inr (NEED_MORE, s1, wF)"
      "build_server s1 = Inr (NEED_MORE, [Out_Eap (eap_payload_create_code EAP_SUCCESS (eap_get_identifier rsp))], s2)"
      "completed ms1 k s2" "is_eap_authenticated (ea_ike_sa s2)" "ends P i r s2 ?c"
    by (rule server_done [OF talk_last.prems(1) talk_last.hyps(4-7) talk_last.prems(5,7) e(1)])
  obtain c1 where c: "process_client U (to_message [Out_Eap (eap_payload_create_code EAP_SUCCESS (eap_get_identifier rsp))]) ?c v1 = Inr (NEED_MORE, c1, v1)"
      "completed mc1 k c1" "ends P i r s2 c1" "ea_require_mutual c1 = ea_require_mutual ?c"
    by (rule client_succeeds [OF e(2) talk_last.prems(6) s(5)])
  have m: "ea_require_mutual c1 \<longrightarrow> em_is_mutual U mc1" using c(4) talk_last.prems(8) by simp
  obtain o1 c2 s' c' where f: "build_client c1 = Inr (NEED_MORE, o1, c2)" "auth_run 1 V U (to_message o1) s2 wF c2 v1 = Inr (SUCCESS, SUCCESS, s', wF, c', v1)"
      "is_eap_authenticated (ea_ike_sa s') = is_eap_authenticated (ea_ike_sa s2)"
    using finish_run [OF c(3) s(3) c(2) m, of V wF v1] by blast
  have "auth_run (Suc 1) V U (to_message [Out_Eap rsp]) s w ?c v1 = Inr (SUCCESS, SUCCESS, s', wF, c', v1)"
    using s(1,2) c(1) f(1,2) by (simp only: auth_run.simps andThen.simps prod.case status.distinct if_False if_True simp_thms)
  then show ?case using ca f(3) s(4) by blast
next
  case (talk_more req mc v rsp mc1 v1 ms w req1 ms1 w1 ms2 w2 mc2 v2)
  note ca = client_answers [OF talk_more.prems(2,3) talk_more.hyps(1-3)]
  let ?c = "c\<lparr>ea_method := Some mc1, ea_eap_payload := None\<rparr>" and ?s = "s\<lparr>ea_method := Some ms1, ea_eap_payload := None\<rparr>"
  note sm = server_more [OF talk_more.prems(1) talk_more.hyps(4-6) talk_request [OF talk_more.hyps(7)]]
  have e: "ends P i r ?s ?c" "serves U req1 ?c mc1" "\<not> ea_eap_complete ?c" "get_identification V ms2 ?s = get_identification V ms2 s"
    using talk_more.prems(3,4) by (simp_all add: ends_def serves_def get_identification_def)
  obtain n c1 v' rsp' c2 s' c' where r: "process_client U (to_message [Out_Eap req1]) ?c v1 = Inr (NEED_MORE, c1, v')"
      "build_client c1 = Inr (NEED_MORE, rsp', c2)" "auth_run n V U (to_message rsp') ?s w1 c2 v' = Inr (SUCCESS, SUCCESS, s', wF, c', v2)"
      "is_eap_authenticated (ea_ike_sa s')"
    using talk_more.IH [OF sm(3) e(2,3,1) talk_more.prems(5,6)] talk_more.prems(7,8) e(4) by auto
  have "auth_run (Suc n) V U (to_message [Out_Eap rsp]) s w ?c v1 = Inr (SUCCESS, SUCCESS, s', wF, c', v2)"
    using sm(1,2) r(1-3) by (simp only: auth_run.simps andThen.simps prod.case status.distinct if_False if_True simp_thms)
  then show ?case using ca r(4) by blast
qed

lemma auth_run_completes:
  assumes "ea_method s = None" "\<not> ea_eap_complete s" "ea_eap_payload s = None" "cfg_eap_identity (is_other_cfg (ea_ike_sa s)) = None"
    and "load_method V (cfg_eap_type (is_other_cfg (ea_ike_sa s))) (cfg_eap_vendor (is_other_cfg (ea_ike_sa s))) EAP_SERVER s = Some m0"
    and "em_initiate V m0 w = Inr (NEED_MORE, Some req, ms, w1)" "eap_talk V U req ms w1 mc v msE wE mcE vE"
    and "serves U req c mc" "\<not> ea_eap_complete c" "ends P i r s c" "em_get_msk V msE = Some k" "em_get_msk U mcE = Some k"
    and "ev_authorize V (get_identification V msE s) wE = Inr (True, wF)" "ea_require_mutual c \<longrightarrow> em_is_mutual U mcE"
  shows "\<exists>n s' c'. auth_run n V U msg s w c v = Inr (SUCCESS, SUCCESS, s', wF, c', vE) \<and> is_eap_authenticated (ea_ike_sa s')"
proof -
  let ?s = "s\<lparr>ea_method := Some ms, ea_eap_payload := None\<rparr>"
  have p: "process_server V msg s w = Inr (NEED_MORE, s\<lparr>ea_method := Some ms, ea_eap_payload := Some req\<rparr>, w1)"
    using assms(1,2,4,5,6) by (simp add: process_server_def server_initiate_eap_def initiate_real_def Let_def)
  have b: "build_server (s\<lparr>ea_method := Some ms, ea_eap_payload := Some req\<rparr>) = Inr (NEED_MORE, [Out_Eap req], ?s)"
    using talk_request [OF assms(7)] by (simp add: build_server_def EAP_REQUEST_def)
  have e: "runs ms ?s" "ends P i r ?s c" "ev_authorize V (get_identification V msE ?s) wE = Inr (True, wF)"
    using assms(2,10,13) by (simp_all add: runs_def ends_def get_identification_def)
  obtain n c1 v1 rsp c2 s' c' where r: "process_client U (to_message [Out_Eap req]) c v = Inr (NEED_MORE, c1, v1)"
      "build_client c1 = Inr (NEED_MORE, rsp, c2)" "auth_run n V U (to_message rsp) ?s w1 c2 v1 = Inr (SUCCESS, SUCCESS, s', wF, c', vE)"
      "is_eap_authenticated (ea_ike_sa s')"
    using talk_run [OF assms(7) e(1) assms(8,9) e(2) assms(11,12) e(3) assms(14)] by blast
  have "auth_run (Suc n) V U msg s w c v = Inr (SUCCESS, SUCCESS, s', wF, c', vE)"
    using p b r(1-3) by (simp only: auth_run.simps andThen.simps prod.case status.distinct if_False if_True simp_thms)
  then show ?thesis using r(4) by blast
qed

section \<open>What success of the server rests on\<close>

text \<open>A method object as the server drives it: constructed, initiated, and fed with responses.\<close>

inductive em_live :: "('c, 'm, 'w) eap_env \<Rightarrow> 'm \<times> 'w \<Rightarrow> bool" for V :: "('c, 'm, 'w) eap_env" where
  live_init: "\<lbrakk>create_instance (ev_construct V) t v EAP_SERVER server peer (ev_manager V) = Some m; em_initiate V m w = Inr (NEED_MORE, Some p, m1, w1)\<rbrakk>
    \<Longrightarrow> em_live V (m1, w1)"
| live_process: "\<lbrakk>em_live V (m, w); em_process V inp m w = Inr (NEED_MORE, Some p, m1, w1)\<rbrakk> \<Longrightarrow> em_live V (m1, w1)"

text \<open>One round of the server; the task may pass a preshared key of quantum resistance before it.\<close>

inductive eap_server_step :: "('c, 'm, 'w) eap_env \<Rightarrow> 'm eap_authenticator \<times> 'w \<Rightarrow> 'm eap_authenticator \<times> 'w \<Rightarrow> bool"
  for V :: "('c, 'm, 'w) eap_env" where
  server_round: "\<lbrakk>process_server V msg s w = Inr (NEED_MORE, s1, w1); build_server s1 = Inr (NEED_MORE, out, s2)\<rbrakk>
    \<Longrightarrow> eap_server_step V (s, w) (s2, w1)"
| server_ppk: "eap_server_step V (s, w) (use_ppk ppk no_ppk_auth s, w)"

inductive_cases eap_server_stepE: "eap_server_step V x y"

definition eap_server_started :: "'m eap_authenticator \<times> 'w \<Rightarrow> bool" where
  "eap_server_started x \<longleftrightarrow> (\<exists>sa a b c d e. fst x = eap_authenticator_create sa a b c d e)"

text \<open>
  The method reached success with a response, the hook was asked for the identity the method
  authenticated and agreed, and the MSK is that of the method.
\<close>

definition granted :: "('c, 'm, 'w) eap_env \<Rightarrow> 'm eap_authenticator \<Rightarrow> bool" where
  "granted V s \<longleftrightarrow> (\<exists>m0 w0 inp out m1 w1 w2. em_live V (m0, w0) \<and> em_get_type V m0 \<noteq> (EAP_IDENTITY, 0)
     \<and> eap_get_code inp = EAP_RESPONSE \<and> em_process V inp m0 w0 = Inr (SUCCESS, out, m1, w1)
     \<and> ev_authorize V (get_identification V m1 s) w1 = Inr (True, w2)
     \<and> ea_method s = Some m1 \<and> ea_msk s = (case em_get_msk V m1 of None \<Rightarrow> [] | Some k \<Rightarrow> k))"

definition eap_inv :: "('c, 'm, 'w) eap_env \<Rightarrow> 'm eap_authenticator \<times> 'w \<Rightarrow> bool" where
  "eap_inv V = (\<lambda>(s, w). ea_eap_payload s = None
     \<and> (if ea_eap_complete s then granted V s \<and> is_eap_authenticated (ea_ike_sa s)
        else ea_msk s = [] \<and> \<not> ea_auth_complete s \<and> (\<forall>m. ea_method s = Some m \<longrightarrow> em_live V (m, w))))"

text \<open>A request that is sent comes from a live method, or the method has just been granted.\<close>

lemma load_live:
  "\<lbrakk>load_method V t v EAP_SERVER s = Some m; em_initiate V m w = Inr (NEED_MORE, Some p, m1, w1)\<rbrakk> \<Longrightarrow> em_live V (m1, w1)"
  by (auto simp: load_method_def Let_def intro: live_init)

lemma initiate_real_result:
  assumes "initiate_real V s w = Inr (Some q, s1, w1)" "eap_get_code q \<noteq> EAP_FAILURE"
  shows "\<exists>m. s1 = s\<lparr>ea_method := Some m\<rparr> \<and> em_live V (m, w1)"
  using assms by (auto simp: initiate_real_def Let_def andThen_Inr_iff split: option.splits if_splits intro: load_live)

lemma server_initiate_result:
  assumes "server_initiate_eap V d s w = Inr (Some q, s1, w1)" "eap_get_code q \<noteq> EAP_FAILURE"
  shows "\<exists>m i. s1 = s\<lparr>ea_method := Some m, ea_eap_identity := i\<rparr> \<and> em_live V (m, w1)"
proof -
  define j where "j = (if ea_eap_identity s = None \<and> d then cfg_eap_identity (is_other_cfg (ea_ike_sa s)) else None)"
  have r: "\<exists>m i. s1 = s\<lparr>ea_method := Some m, ea_eap_identity := i\<rparr> \<and> em_live V (m, w1)"
    if x: "initiate_real V (s\<lparr>ea_eap_identity := i\<rparr>) w' = Inr (Some q, s1, w1)" for w' i
  proof -
    obtain m where "s1 = s\<lparr>ea_eap_identity := i\<rparr>\<lparr>ea_method := Some m\<rparr>" "em_live V (m, w1)"
      using initiate_real_result [OF x assms(2)] by blast
    then show ?thesis by (intro exI [of _ m] exI [of _ i]) simp
  qed
  have r0: "\<exists>m i. s1 = s\<lparr>ea_method := Some m, ea_eap_identity := i\<rparr> \<and> em_live V (m, w1)"
    if "initiate_real V s w' = Inr (Some q, s1, w1)" for w'
    using r [of "ea_eap_identity s" w'] that by simp
  show ?thesis
  proof (cases j)
    case None
    then show ?thesis using assms(1) r0 by (simp add: server_initiate_eap_def j_def)
  next
    case (Some i)
    show ?thesis
    proof (cases "fst i = ID_ANY")
      case False
      then show ?thesis using assms(1) Some r [of "Some i" w] by (simp add: server_initiate_eap_def flip: j_def)
    next
      case True
      show ?thesis
      proof (cases "load_method V EAP_IDENTITY 0 EAP_SERVER s")
        case None
        then show ?thesis using assms(1) Some True r0 by (simp add: server_initiate_eap_def flip: j_def)
      next
        case m: (Some m)
        then obtain st out m1 w2 where i: "em_initiate V m w = Inr (st, out, m1, w2)"
          using assms(1) Some True by (auto simp: server_initiate_eap_def andThen_Inr_iff simp flip: j_def)
        show ?thesis
        proof (cases "st = NEED_MORE")
          case False
          then show ?thesis using assms(1) Some True m i r0 by (simp add: server_initiate_eap_def flip: j_def)
        next
          case n: True
          then have "s1 = s\<lparr>ea_method := Some m1\<rparr>" "out = Some q" "w2 = w1"
            using assms(1) Some True m i by (auto simp: server_initiate_eap_def simp flip: j_def)
          moreover from this have "em_live V (m1, w1)" using load_live [OF m] i n by simp
          ultimately show ?thesis by (intro exI [of _ m1] exI [of _ "ea_eap_identity s"]) simp
        qed
      qed
    qed
  qed
qed

definition waiting :: "'m eap_authenticator \<Rightarrow> bool" where
  "waiting s \<longleftrightarrow> \<not> ea_eap_complete s \<and> ea_msk s = [] \<and> \<not> ea_auth_complete s"

lemma eap_inv_waiting: "waiting s \<Longrightarrow> em_live V (m, w) \<Longrightarrow> eap_inv V (s\<lparr>ea_method := Some m, ea_eap_payload := None\<rparr>, w)"
  by (simp add: waiting_def eap_inv_def)

lemma granted_payload [simp]: "granted V (s\<lparr>ea_eap_payload := p\<rparr>) = granted V s"
  by (simp add: granted_def get_identification_def)

lemma success_inv:
  assumes "server_eap_success V x tv m1 (s\<lparr>ea_method := Some m1\<rparr>) w = Inr (Some q, s1, w1)" "eap_get_code q \<noteq> EAP_FAILURE" "waiting s"
    and "em_live V (m0, w0)" "em_get_type V m0 = tv" "eap_get_code inp = EAP_RESPONSE" "em_process V inp m0 w0 = Inr (SUCCESS, out, m1, w)"
  shows "eap_inv V (s1\<lparr>ea_eap_payload := None\<rparr>, w1)"
proof (cases "tv = (EAP_IDENTITY, 0)")
  case True
  let ?t = "case em_get_msk V m1 of None \<Rightarrow> s\<lparr>ea_method := Some m1\<rparr>
      | Some d \<Rightarrow> replace_eap_identity (ev_identity V d) (s\<lparr>ea_method := Some m1, ea_eap_identity := Some (ev_identity V d)\<rparr>)"
  have "server_initiate_eap V False ?t w = Inr (Some q, s1, w1)" using assms(1) True by (simp add: server_eap_success_def)
  from server_initiate_result [OF this assms(2)] obtain m i where "s1 = ?t\<lparr>ea_method := Some m, ea_eap_identity := i\<rparr>" "em_live V (m, w1)" by blast
  moreover have "waiting ?t" using assms(3) by (simp add: waiting_def replace_eap_identity_def split: option.split)
  ultimately show ?thesis by (simp add: waiting_def eap_inv_def)
next
  case False
  define t where "t = (case em_get_msk V m1 of None \<Rightarrow> s\<lparr>ea_method := Some m1\<rparr> | Some k \<Rightarrow> s\<lparr>ea_method := Some m1, ea_msk := k\<rparr>)"
  have t: "ea_method t = Some m1" "ea_msk t = (case em_get_msk V m1 of None \<Rightarrow> [] | Some k \<Rightarrow> k)"
    using assms(3) by (simp_all add: t_def waiting_def split: option.split)
  have "andThen (ev_authorize V (get_identification V m1 t) w) (\<lambda>(ok, w1).
          if \<not> ok then Inr (Some (eap_payload_create_code EAP_FAILURE x), t\<lparr>ea_eap_complete := False\<rparr>, w1)
          else Inr (Some (eap_payload_create_code EAP_SUCCESS x),
                 t\<lparr>ea_ike_sa := (ea_ike_sa t)\<lparr>is_eap_authenticated := True\<rparr>, ea_eap_complete := True\<rparr>, w1)) = Inr (Some q, s1, w1)"
    using assms(1) unfolding t_def by (simp only: server_eap_success_def Let_def False if_False)
  then have a: "ev_authorize V (get_identification V m1 t) w = Inr (True, w1)"
      and s1: "s1 = t\<lparr>ea_ike_sa := (ea_ike_sa t)\<lparr>is_eap_authenticated := True\<rparr>, ea_eap_complete := True\<rparr>"
    using assms(2) by (auto simp: andThen_Inr_iff split: if_splits)
  have "get_identification V m1 s1 = get_identification V m1 t" by (simp add: s1 get_identification_def)
  then have "granted V s1" unfolding granted_def
    by (intro exI [of _ m0] exI [of _ w0] exI [of _ inp] exI [of _ out] exI [of _ m1] exI [of _ w] exI [of _ w1] conjI)
      (use assms(4-7) False a t in \<open>simp_all add: s1\<close>)
  then show ?thesis by (simp add: eap_inv_def s1)
qed

lemma server_process_inv:
  assumes "server_process_eap V inp s w = Inr (Some q, s1, w1)" "eap_get_code q \<noteq> EAP_FAILURE" "waiting s" "ea_method s = Some m" "em_live V (m, w)"
  shows "eap_inv V (s1\<lparr>ea_eap_payload := None\<rparr>, w1)"
proof -
  have c: "eap_get_code inp = EAP_RESPONSE" using assms(1,2) by (auto simp: server_process_eap_def Let_def split: if_splits)
  obtain st out m1 w2 where p: "em_process V inp m w = Inr (st, out, m1, w2)"
    using assms(1,2,4) c by (auto simp: server_process_eap_def Let_def andThen_Inr_iff split: if_splits)
  show ?thesis
  proof (cases st)
    case NEED_MORE
    then have "s1 = s\<lparr>ea_method := Some m1\<rparr>" "out = Some q" "w2 = w1"
      using assms(1,2,4) c p by (auto simp: server_process_eap_def Let_def split: if_splits)
    moreover from this have "em_live V (m1, w1)" using live_process [OF assms(5)] p NEED_MORE by simp
    ultimately show ?thesis using eap_inv_waiting [OF assms(3)] by simp
  next
    case SUCCESS
    then have "server_eap_success V (eap_get_identifier inp) (em_get_type V m) m1 (s\<lparr>ea_method := Some m1\<rparr>) w2 = Inr (Some q, s1, w1)"
      using assms(1,2,4) c p by (auto simp: server_process_eap_def Let_def split: if_splits)
    from success_inv [OF this assms(2,3,5) refl c] p SUCCESS show ?thesis by simp
  next
    case FAILED
    then show ?thesis using assms(1,2,4) c p by (auto simp: server_process_eap_def Let_def split: if_splits)
  qed
qed

lemma build_more: "build_server s = Inr (NEED_MORE, out, s2) \<Longrightarrow> \<exists>q. ea_eap_payload s = Some q \<and> eap_get_code q \<noteq> EAP_FAILURE \<and> s2 = s\<lparr>ea_eap_payload := None\<rparr>"
  by (auto simp: build_server_def andThen_Inr_iff split: option.splits if_splits)

lemma verify_auth_keeps: "verify_auth V msg nonce init s = Inr (ok, t) \<Longrightarrow> ea_eap_payload t = ea_eap_payload s"
  by (auto simp: verify_auth_def andThen_Inr_iff set_keymat_def Let_def split: option.splits if_splits prod.splits)

lemma server_step_inv:
  assumes "eap_inv V (s, w)" "process_server V msg s w = Inr (NEED_MORE, s1, w1)" "build_server s1 = Inr (NEED_MORE, out, s2)"
  shows "eap_inv V (s2, w1)"
proof -
  obtain q where q: "ea_eap_payload s1 = Some q" "eap_get_code q \<noteq> EAP_FAILURE" "s2 = s1\<lparr>ea_eap_payload := None\<rparr>" using build_more [OF assms(3)] by blast
  show ?thesis
  proof (cases "ea_eap_complete s")
    case True
    then have "ea_eap_payload s1 = ea_eap_payload s"
      using assms(2) by (auto simp: process_server_def andThen_Inr_iff dest: verify_auth_keeps split: if_splits option.splits)
    moreover have "ea_eap_payload s = None" using assms(1) by (simp add: eap_inv_def)
    ultimately show ?thesis using q(1) by simp
  next
    case False
    then have wt: "waiting s" using assms(1) by (simp add: eap_inv_def waiting_def)
    show ?thesis
    proof (cases "ea_method s")
      case None
      then obtain t where t: "server_initiate_eap V True s w = Inr (Some q, t, w1)" "s1 = t\<lparr>ea_eap_payload := Some q\<rparr>"
        using assms(2) False q(1) by (auto simp: process_server_def andThen_Inr_iff)
      from server_initiate_result [OF t(1) q(2)] wt show ?thesis by (auto simp: q(3) t(2) eap_inv_def waiting_def)
    next
      case (Some m)
      then have l: "em_live V (m, w)" using assms(1) False by (simp add: eap_inv_def)
      obtain inp t where t: "server_process_eap V inp s w = Inr (Some q, t, w1)" "s1 = t\<lparr>ea_eap_payload := Some q\<rparr>"
        using assms(2) False q(1) Some by (auto simp: process_server_def andThen_Inr_iff split: option.splits)
      from server_process_inv [OF t(1) q(2) wt Some l] show ?thesis by (simp add: q(3) t(2))
    qed
  qed
qed

lemma started_inv: "eap_server_started x \<Longrightarrow> eap_inv V x"
  by (cases x) (auto simp: eap_server_started_def eap_inv_def eap_authenticator_create_def)

lemma step_inv: "eap_inv V x \<Longrightarrow> eap_server_step V x y \<Longrightarrow> eap_inv V y"
proof (erule eap_server_step.cases)
  fix s w ppk b
  assume "eap_inv V x" "x = (s, w)" "y = (use_ppk ppk b s, w)"
  then show ?thesis by (simp add: eap_inv_def use_ppk_def granted_def get_identification_def split: if_splits)
qed (auto intro: server_step_inv)

interpretation eap_sys: inv_system eap_server_started "eap_server_step V" "eap_inv V" for V
  by unfold_locales (fact started_inv step_inv)+

text \<open>Without an EAP message to send nothing is completed.\<close>

lemma initiate_real_sends: "initiate_real V s w \<noteq> Inr (None, s1, w1)"
  by (auto simp: initiate_real_def Let_def andThen_Inr_iff split: option.splits if_splits)

lemma initiate_silent: "server_initiate_eap V d s w = Inr (None, s1, w1) \<Longrightarrow> ea_eap_complete s1 = ea_eap_complete s"
  by (auto simp: server_initiate_eap_def andThen_Inr_iff initiate_real_sends split: option.splits if_splits)

lemma success_silent: "server_eap_success V x tv m s w = Inr (None, s1, w1) \<Longrightarrow> ea_eap_complete s1 = ea_eap_complete s"
  by (auto simp: server_eap_success_def andThen_Inr_iff replace_eap_identity_def Let_def dest!: initiate_silent split: option.splits if_splits)

lemma process_silent: "server_process_eap V inp s w = Inr (None, s1, w1) \<Longrightarrow> ea_eap_complete s1 = ea_eap_complete s"
  by (auto simp: server_process_eap_def andThen_Inr_iff Let_def dest!: success_silent split: option.splits if_splits status.splits)
    (metis status.exhaust)+

lemma verify_auth_True:
  assumes "verify_auth V msg nonce init s = Inr (True, t)"
  shows "\<exists>auth k. received_auth msg s = Some auth \<and> auth \<noteq> []
    \<and> get_psk_sig True init nonce (ea_msk s) (ea_ppk s) (is_other_id (ea_ike_sa s)) (ea_reserved s) (is_keymat (ea_ike_sa s)) = Inr (Some auth, k)"
  using assms by (auto simp: verify_auth_def andThen_Inr_iff Let_def split: option.splits if_splits prod.splits)

text \<open>
  The server authenticates a peer only on these grounds: the configured method (not the exchange
  of identities) was driven from its construction on, succeeded with a response of the peer, and
  the hook \<open>eap_authorize\<close> of the plugin allowed the identity the method reports; and the peer
  has proved with its AUTH payload that it knows the MSK of the method (or, if the method has
  none, the key SK_p of the IKE SA), over the first message and the nonce of this SA.
\<close>

lemma server_grounds:
  assumes "reachable eap_server_started (eap_server_step V) (s, w)"
    and "process_server V msg s w = Inr (NEED_MORE, s1, w1)" "build_server s1 = Inr (SUCCESS, out, s2)"
  shows "granted V s \<and> is_eap_authenticated (ea_ike_sa s)
    \<and> (\<exists>auth k. received_auth msg s = Some auth \<and> auth \<noteq> []
        \<and> get_psk_sig True (ea_received_init s) (ea_sent_nonce s) (ea_msk s) (ea_ppk s) (is_other_id (ea_ike_sa s)) (ea_reserved s)
            (is_keymat (ea_ike_sa s)) = Inr (Some auth, k))"
proof -
  have inv: "eap_inv V (s, w)" using assms(1) by (rule eap_sys.reachable_invar)
  have b: "ea_eap_payload s1 = None" "ea_eap_complete s1" "ea_auth_complete s1"
    using assms(3) by (auto simp: build_server_def andThen_Inr_iff split: option.splits if_splits)
  have c: "ea_eap_complete s"
  proof (rule ccontr)
    assume n: "\<not> ea_eap_complete s"
    show False
    proof (cases "ea_method s")
      case None
      then obtain t where "server_initiate_eap V True s w = Inr (None, t, w1)" "s1 = t\<lparr>ea_eap_payload := None\<rparr>"
        using assms(2) b(1) n by (auto simp: process_server_def andThen_Inr_iff)
      then show False using b(2) n by (auto dest: initiate_silent)
    next
      case (Some m)
      then obtain inp t where "server_process_eap V inp s w = Inr (None, t, w1)" "s1 = t\<lparr>ea_eap_payload := None\<rparr>"
        using assms(2) b(1) n by (auto simp: process_server_def andThen_Inr_iff split: option.splits)
      then show False using b(2) n by (auto dest: process_silent)
    qed
  qed
  then obtain t where "verify_auth V msg (ea_sent_nonce s) (ea_received_init s) s = Inr (True, t)"
    using assms(2) by (auto simp: process_server_def andThen_Inr_iff split: if_splits)
  from verify_auth_True [OF this] show ?thesis using inv c by (simp add: eap_inv_def)
qed

end
