(* ===== verification/Bus.thy ===== *)
theory Bus
  imports Epdg_Listener
begin

text \<open>
  \<open>libcharon/bus/bus.c\<close>, the bus that passes events to registered listeners, for the hooks the
  plugin registers and those raised with them.  A listener acts on a world \<open>'w\<close> and answers
  whether it stays registered; a hook it leaves out is \<open>None\<close>.  Listeners do not call back into the
  bus, so that \<open>calling\<close> has its old value after a call.
\<close>

section \<open>Listeners\<close>

record 'w listener =
  ls_object :: nat
  ls_alert :: "(ike_sa option \<Rightarrow> nat \<Rightarrow> 'w \<Rightarrow> (bool \<times> 'w) res) option"
  ls_child_updown :: "(ike_sa option \<Rightarrow> nat \<Rightarrow> bool \<Rightarrow> 'w \<Rightarrow> (bool \<times> 'w) res) option"
  ls_ike_updown :: "(ike_sa \<Rightarrow> bool \<Rightarrow> 'w \<Rightarrow> (bool \<times> 'w) res) option"
  ls_assign_vips :: "(ike_sa \<Rightarrow> bool \<Rightarrow> 'w \<Rightarrow> (bool \<times> 'w) res) option"
  ls_handle_vips :: "(ike_sa \<Rightarrow> bool \<Rightarrow> 'w \<Rightarrow> (bool \<times> 'w) res) option"
  ls_eap_authorize :: "(ike_sa option \<Rightarrow> chunk option \<Rightarrow> bool \<Rightarrow> bool \<Rightarrow> 'w \<Rightarrow> (bool \<times> bool \<times> 'w) res) option"
  ls_authorize :: "(ike_sa option \<Rightarrow> bool \<Rightarrow> bool \<Rightarrow> 'w \<Rightarrow> (bool \<times> bool \<times> 'w) res) option"

record 'w bus_entry =
  be_listener :: "'w listener"
  be_calling :: nat

type_synonym 'w listeners = "'w bus_entry list"

abbreviation ALERT_AUTHORIZATION_FAILED :: nat where "ALERT_AUTHORIZATION_FAILED \<equiv> 24"
abbreviation ALERT_EAP_AUTHORIZATION_FAILED :: nat where "ALERT_EAP_AUTHORIZATION_FAILED \<equiv> 33"

definition add_listener :: "'w listener \<Rightarrow> 'w listeners \<Rightarrow> 'w listeners" where
  "add_listener l this = this @ [\<lparr>be_listener = l, be_calling = 0\<rparr>]"

fun remove_listener :: "nat \<Rightarrow> 'w listeners \<Rightarrow> 'w listeners" where
  "remove_listener l [] = []"
| "remove_listener l (e # es) = (if ls_object (be_listener e) = l then es else e # remove_listener l es)"

text \<open>The hook of an entry that is called: there is one, and it is not being called already.\<close>

definition callable :: "('w listener \<Rightarrow> 'h option) \<Rightarrow> 'w bus_entry \<Rightarrow> 'h option" where
  "callable sel e = (if be_calling e > 0 then None else sel (be_listener e))"

section \<open>Events\<close>

text \<open>The loop of an event that is only announced; an entry that does not stay is unregistered.\<close>

fun announce :: "('w listener \<Rightarrow> ('w \<Rightarrow> (bool \<times> 'w) res) option) \<Rightarrow> 'w listeners \<Rightarrow> 'w \<Rightarrow> ('w listeners \<times> 'w) res" where
  "announce sel [] w = Inr ([], w)"
| "announce sel (e # es) w =
     (case callable sel e of
        None \<Rightarrow> andThen (announce sel es w) (\<lambda>(es1, w1). Inr (e # es1, w1))
      | Some h \<Rightarrow>
          andThen (h w) (\<lambda>(keep, w1).
            andThen (announce sel es w1) (\<lambda>(es1, w2). Inr (if keep then e # es1 else es1, w2))))"

text \<open>The loop of an event that asks: it ends with the first listener that refuses.\<close>

fun ask :: "('w listener \<Rightarrow> (bool \<Rightarrow> 'w \<Rightarrow> (bool \<times> bool \<times> 'w) res) option) \<Rightarrow> 'w listeners \<Rightarrow> bool \<Rightarrow> 'w
    \<Rightarrow> (bool \<times> 'w listeners \<times> 'w) res" where
  "ask sel [] success w = Inr (success, [], w)"
| "ask sel (e # es) success w =
     (case callable sel e of
        None \<Rightarrow> andThen (ask sel es success w) (\<lambda>(ok, es1, w1). Inr (ok, e # es1, w1))
      | Some h \<Rightarrow>
          andThen (h success w) (\<lambda>(keep, success1, w1).
            let stay = (\<lambda>es1. if keep then e # es1 else es1) in
            if \<not> success1 then Inr (False, stay es, w1)
            else andThen (ask sel es success1 w1) (\<lambda>(ok, es1, w2). Inr (ok, stay es1, w2))))"

definition bus_alert :: "ike_sa option \<Rightarrow> nat \<Rightarrow> 'w listeners \<Rightarrow> 'w \<Rightarrow> ('w listeners \<times> 'w) res" where
  "bus_alert thread_sa a = announce (\<lambda>l. map_option (\<lambda>h. h thread_sa a) (ls_alert l))"

definition bus_child_updown :: "ike_sa option \<Rightarrow> nat \<Rightarrow> bool \<Rightarrow> 'w listeners \<Rightarrow> 'w \<Rightarrow> ('w listeners \<times> 'w) res" where
  "bus_child_updown thread_sa child up = announce (\<lambda>l. map_option (\<lambda>h. h thread_sa child up) (ls_child_updown l))"

datatype child_sa_state = CHILD_REKEYED | CHILD_DELETED | CHILD_OTHER

text \<open>An IKE_SA that goes down takes down the CHILD_SAs (with their states) that are in use.\<close>

fun child_downs :: "ike_sa option \<Rightarrow> (nat \<times> child_sa_state) list \<Rightarrow> 'w listeners \<Rightarrow> 'w \<Rightarrow> ('w listeners \<times> 'w) res" where
  "child_downs thread_sa [] es w = Inr (es, w)"
| "child_downs thread_sa ((c, st) # cs) es w =
     (if st \<noteq> CHILD_REKEYED \<and> st \<noteq> CHILD_DELETED
      then andThen (bus_child_updown thread_sa c False es w) (\<lambda>(es1, w1). child_downs thread_sa cs es1 w1)
      else child_downs thread_sa cs es w)"

definition bus_ike_updown ::
  "ike_sa option \<Rightarrow> (nat \<times> child_sa_state) list \<Rightarrow> ike_sa \<Rightarrow> bool \<Rightarrow> 'w listeners \<Rightarrow> 'w \<Rightarrow> ('w listeners \<times> 'w) res" where
  "bus_ike_updown thread_sa children sa up es w =
     andThen (announce (\<lambda>l. map_option (\<lambda>h. h sa up) (ls_ike_updown l)) es w) (\<lambda>(es1, w1).
       if up then Inr (es1, w1) else child_downs thread_sa children es1 w1)"

definition bus_assign_vips :: "ike_sa \<Rightarrow> bool \<Rightarrow> 'w listeners \<Rightarrow> 'w \<Rightarrow> ('w listeners \<times> 'w) res" where
  "bus_assign_vips sa give = announce (\<lambda>l. map_option (\<lambda>h. h sa give) (ls_assign_vips l))"

definition bus_handle_vips :: "ike_sa \<Rightarrow> bool \<Rightarrow> 'w listeners \<Rightarrow> 'w \<Rightarrow> ('w listeners \<times> 'w) res" where
  "bus_handle_vips sa handle = announce (\<lambda>l. map_option (\<lambda>h. h sa handle) (ls_handle_vips l))"

definition bus_eap_authorize ::
  "ike_sa option \<Rightarrow> chunk option \<Rightarrow> bool \<Rightarrow> 'w listeners \<Rightarrow> 'w \<Rightarrow> (bool \<times> 'w listeners \<times> 'w) res" where
  "bus_eap_authorize thread_sa i final es w =
     andThen (ask (\<lambda>l. map_option (\<lambda>h. h thread_sa i final) (ls_eap_authorize l)) es True w) (\<lambda>(success, es1, w1).
       if \<not> success then andThen (bus_alert thread_sa ALERT_EAP_AUTHORIZATION_FAILED es1 w1) (\<lambda>(es2, w2). Inr (False, es2, w2))
       else Inr (True, es1, w1))"

definition bus_authorize :: "ike_sa option \<Rightarrow> bool \<Rightarrow> 'w listeners \<Rightarrow> 'w \<Rightarrow> (bool \<times> 'w listeners \<times> 'w) res" where
  "bus_authorize thread_sa final es w =
     andThen (ask (\<lambda>l. map_option (\<lambda>h. h thread_sa final) (ls_authorize l)) es True w) (\<lambda>(success, es1, w1).
       if \<not> success then andThen (bus_alert thread_sa ALERT_AUTHORIZATION_FAILED es1 w1) (\<lambda>(es2, w2). Inr (False, es2, w2))
       else Inr (True, es1, w1))"

section \<open>The listener of the plugin\<close>

text \<open>Its hooks always stay registered; without an IKE_SA of the thread they dereference NULL.\<close>

definition osmo_epdg_listener_create ::
  "gsup_consts \<Rightarrow> (cstring \<Rightarrow> chunk option) \<Rightarrow> gsup_client \<Rightarrow> nat \<Rightarrow> epdg listener" where
  "osmo_epdg_listener_create K pton6 gsup this =
     \<lparr>ls_object = this, ls_alert = None, ls_child_updown = None,
      ls_ike_updown = Some (\<lambda>sa up s. Inr (ike_updown sa up s)), ls_assign_vips = None, ls_handle_vips = None,
      ls_eap_authorize = Some (\<lambda>sa i final success s. case sa of
          None \<Rightarrow> Inl NullDeref | Some a \<Rightarrow> andThen (eap_authorize K gsup a i success s) (\<lambda>(ok, s1). Inr (True, ok, s1))),
      ls_authorize = Some (\<lambda>sa final success s. case sa of
          None \<Rightarrow> Inl NullDeref | Some a \<Rightarrow> andThen (authorize K pton6 gsup a final success s) (\<lambda>(ok, s1). Inr (True, ok, s1)))\<rparr>"

section \<open>Agreement\<close>

text \<open>A registered listener that can be called.\<close>

definition registered :: "'w listener \<Rightarrow> 'w listeners \<Rightarrow> bool" where
  "registered l es \<longleftrightarrow> (\<exists>e \<in> set es. be_listener e = l \<and> be_calling e = 0)"

lemma registered_add: "registered l (add_listener l es)"
  by (simp add: registered_def add_listener_def)

text \<open>Consent is unanimous: every registered listener was asked and agreed.\<close>

lemma ask_unanimous:
  assumes "ask sel es True w = Inr (True, es', w')" "registered l es" "sel l = Some h"
  shows "\<exists>w1 keep w2. h True w1 = Inr (keep, True, w2)"
  using assms
proof (induction es arbitrary: w es')
  case (Cons e es)
  show ?case
  proof (cases "callable sel e")
    case None
    then have r: "registered l es" using Cons.prems(2,3) by (auto simp: registered_def callable_def)
    obtain es1 where "ask sel es True w = Inr (True, es1, w')" using Cons.prems(1) None by (auto simp: andThen_Inr_iff)
    from Cons.IH [OF this r Cons.prems(3)] show ?thesis .
  next
    case (Some g)
    then obtain keep w1 es1 where g: "g True w = Inr (keep, True, w1)" "ask sel es True w1 = Inr (True, es1, w')"
      using Cons.prems(1) by (auto simp: andThen_Inr_iff Let_def split: if_splits)
    show ?thesis
    proof (cases "be_listener e = l")
      case True
      then have "g = h" using Some Cons.prems(3) by (simp add: callable_def split: if_splits)
      then show ?thesis using g(1) by blast
    next
      case False
      then have "registered l es" using Cons.prems(2) by (simp add: registered_def)
      from Cons.IH [OF g(2) this Cons.prems(3)] show ?thesis .
    qed
  qed
qed (simp add: registered_def)

lemma bus_eap_authorize_unanimous:
  assumes "bus_eap_authorize sa i final es w = Inr (True, es', w')" "registered l es" "ls_eap_authorize l = Some h"
  shows "\<exists>w1 keep w2. h sa i final True w1 = Inr (keep, True, w2)"
proof -
  obtain es1 w1 where "ask (\<lambda>l. map_option (\<lambda>h. h sa i final) (ls_eap_authorize l)) es True w = Inr (True, es1, w1)"
    using assms(1) by (auto simp: bus_eap_authorize_def andThen_Inr_iff split: if_splits)
  from ask_unanimous [OF this assms(2)] assms(3) show ?thesis by simp
qed

text \<open>What the plugin asks of a peer before it agrees.\<close>

lemma eap_authorize_True:
  assumes "eap_authorize K gsup sa i success s = Inr (True, s')"
  shows "\<exists>imsi. eap_imsi i = Some imsi \<and> location_updated K gsup imsi"
proof -
  obtain nai imsi where i: "i = Some nai" "epdg_get_imsi nai 15 = Inr imsi"
    using assms by (auto simp: eap_authorize_def fail_ue_def split: option.splits sum.splits)
  obtain p s1 where c: "create_subscriber (APN_MAXLEN K) sa s = Inr (Some p, s1)"
    using assms i by (auto simp: eap_authorize_def fail_ue_def andThen_Inr_iff split: option.splits)
  obtain resp where "gc_update_location gsup imsi (CN_DOMAIN_PS K) = Some resp" "message_type resp = UPDATE_LOCATION_RESULT K"
    using assms i c by (auto simp: eap_authorize_def fail_ue_def andThen_Inr_iff split: option.splits if_splits)
  then show ?thesis using i by (simp add: eap_imsi_def location_updated_def)
qed

lemma listener_agrees:
  assumes "bus_eap_authorize sa i final es w = Inr (True, es', w')" "registered (osmo_epdg_listener_create K pton6 gsup x) es"
  shows "\<exists>imsi. eap_imsi i = Some imsi \<and> location_updated K gsup imsi"
proof -
  obtain a s s' where "eap_authorize K gsup a i True s = Inr (True, s')"
    using bus_eap_authorize_unanimous [OF assms] by (auto simp: osmo_epdg_listener_create_def andThen_Inr_iff split: option.splits)
  then show ?thesis by (rule eap_authorize_True)
qed

text \<open>When only the plugin listens, the bus answers what it answers.\<close>

lemma bus_eap_authorize_single:
  assumes "eap_authorize K gsup sa i True s = Inr (ok, s')" "es = add_listener (osmo_epdg_listener_create K pton6 gsup x) []"
  shows "bus_eap_authorize (Some sa) i final es s = Inr (ok, es, s')"
  using assms by (simp add: bus_eap_authorize_def bus_alert_def add_listener_def osmo_epdg_listener_create_def callable_def)

lemma bus_authorize_single:
  assumes "authorize K pton6 gsup sa final True s = Inr (ok, s')" "es = add_listener (osmo_epdg_listener_create K pton6 gsup x) []"
  shows "bus_authorize (Some sa) final es s = Inr (ok, es, s')"
  using assms by (simp add: bus_authorize_def bus_alert_def add_listener_def osmo_epdg_listener_create_def callable_def)

text \<open>
  The two hooks of the plugin in a row: the location of the subscriber of the EAP identity is
  updated, the tunnel is that of the subscriber of the IKE identity.
\<close>

lemma attach_by_ike_identity:
  assumes "ref_inv s held" "ht_count (subscribers s) \<le> ht_limit" "valid_subscriber (APN_MAXLEN K) sa"
    and "eap_imsi (Some nai) = Some a" "location_updated K gsup a"
    and "eap_imsi (other_id sa) = Some b" "granted K gsup b = Some (addr, xs)"
  shows "\<exists>s1 s2 p u. eap_authorize K gsup sa (Some nai) True s = Inr (True, s1) \<and> authorize K pton6 gsup sa True True s1 = Inr (True, s2)
    \<and> db_map s2 b = Some p \<and> ues s2 p = Some u \<and> ue_imsi u = b \<and> ue_state u = UE_TUNNEL_READY \<and> ue_address u = Some addr"
proof -
  obtain p k s1 u where e: "eap_authorize K gsup sa (Some nai) True s = Inr (True, s1)" "ref_inv s1 held" "epdg_get_imsi_ike sa 15 = Inr k"
      "db_map s1 = (db_map s)(k \<mapsto> p)" "ues s1 p = Some u" "ue_imsi u = k" "ue_readers u = 0"
    using eap_authorize_created [OF assms(1,2,4,3), of gsup True] assms(5) by (auto simp: location_updated_def split: option.splits)
  have k: "k = b" using e(3) assms(6) by (auto simp: epdg_get_imsi_ike_def eap_imsi_def split: option.splits sum.splits)
  have "db_map s1 b = Some p" using e(4) k by simp
  from authorize_filed [OF e(2) assms(6) this e(5,7), of K pton6 gsup True] obtain s2 where
    "authorize K pton6 gsup sa True True s1 = Inr (True, s2)" "subscribers s2 = subscribers s1" "ues s2 p = Some (authorized_ue (Some (addr, xs)) u)"
    using assms(7) by auto
  then show ?thesis using e(1,4,6) k by (auto simp: authorized_ue_def)
qed

lemma remove_add_listener:
  "\<forall>e \<in> set es. ls_object (be_listener e) \<noteq> ls_object l \<Longrightarrow> remove_listener (ls_object l) (add_listener l es) = es"
  by (induction es) (simp_all add: add_listener_def)

end
