(* ===== verification/Eap_Ike.thy ===== *)
theory Eap_Ike
  imports Eap_Authenticator Aka_Exchange Bus
begin

text \<open>
  EAP-AKA inside IKEv2: the two sides of \<open>libcharon/plugins/eap_aka\<close> as methods of the two
  authenticators of \<open>Eap_Authenticator\<close>, with keys derived by \<open>Keymat_V2\<close>.  The world of a side
  is that of its backends and a supply of environments, one per call of the method.
\<close>

section \<open>The header of a generated message\<close>

definition headed :: "chunk \<Rightarrow> wbuf \<Rightarrow> bool" where
  "headed h b \<longleftrightarrow> take 8 (mem b) = h \<and> 8 \<le> pos b \<and> pos b \<le> length (mem b)"

lemma take_put_at: "n \<le> p \<Longrightarrow> p \<le> length m \<Longrightarrow> take n (put_at p bs m) = take n m"
  by (simp add: put_at_def min_absorb1)

lemma emit_headed: "emit bs skp b = Inr b' \<Longrightarrow> headed h b \<Longrightarrow> headed h b' \<and> pos b \<le> pos b'"
  by (auto simp: emit_def headed_def take_put_at put_at_def split: if_splits)

lemma encode_attrs_headed: "encode_attrs as out enc = Inr (out', enc') \<Longrightarrow> headed h out \<Longrightarrow> headed h out'"
proof (induction as out enc rule: encode_attrs.induct)
  case (2 ty d as out enc)
  obtain e bs skp where e: "to_encr ty d = Inr e" "encode_attr ty d = Inr (bs, skp)"
    using 2(3) by (auto simp: andThen_Inr_iff)
  show ?case
  proof (cases e)
    case True
    then obtain enc1 where "emit bs skp enc = Inr enc1" "encode_attrs as out enc1 = Inr (out', enc')"
      using 2(3) e by (auto simp: andThen_Inr_iff)
    then show ?thesis using 2(1) [OF True _ 2(4)] by blast
  next
    case False
    then obtain out1 where o: "emit bs skp out = Inr out1" "encode_attrs as out1 enc = Inr (out', enc')"
      using 2(3) e by (auto simp: andThen_Inr_iff)
    then show ?thesis using 2(2) [OF False o(2)] emit_headed [OF o(1) 2(4)] by blast
  qed
qed simp

lemma encrypt_attrs_headed:
  assumes "encrypt_attrs C out enc = Inr (Some out')" "headed h out"
  shows "headed h out'"
proof -
  obtain b1 b2 o1 o2 o3 n1 n2 n3 where "emit b1 n1 out = Inr o1" "emit b2 n2 o1 = Inr o2" "emit o3 n3 o2 = Inr out'"
    using assms(1) by (auto simp: encrypt_attrs_def Let_def andThen_Inr_iff split: option.splits)
  then show ?thesis using emit_headed assms(2) by blast
qed

lemma reserve_mac_headed:
  assumes "reserve_mac C st out = Inr (out1, mp)" "headed h out"
  shows "headed h out1" "mp = Some p \<Longrightarrow> 8 \<le> p \<and> p \<le> pos out1"
proof -
  show "headed h out1"
    using assms by (auto simp: reserve_mac_def Let_def andThen_Inr_iff dest: emit_headed split: if_splits option.splits)
  show "8 \<le> p \<and> p \<le> pos out1" if "mp = Some p"
    using assms that by (auto simp: reserve_mac_def headed_def andThen_Inr_iff Let_def emit_def split: if_splits option.splits)
qed

definition same_start :: "chunk \<Rightarrow> chunk \<Rightarrow> bool" where
  "same_start h bs \<longleftrightarrow> 8 \<le> length bs \<and> bs ! 0 = h ! 0 \<and> bs ! 1 = h ! 1 \<and> bs ! 4 = h ! 4"

lemma finish_head:
  assumes "finish C sigdata st out = Inr (Some bs)" "headed h out"
  shows "same_start h bs"
proof -
  obtain out1 mp where r: "reserve_mac C st out = Inr (out1, mp)" using assms(1) by (auto simp: finish_def andThen_Inr_iff)
  note o = reserve_mac_headed [OF r assms(2)]
  define gen where "gen = put_at 2 (be_bytes 2 (of_nat (pos out1) :: 16 word)) (take (pos out1) (mem out1))"
  have m: "mem out1 ! i = h ! i" if "i < 8" for i using o(1) that by (metis headed_def nth_take)
  have l: "length gen = pos out1" "8 \<le> pos out1" using o(1) by (auto simp: gen_def put_at_def headed_def)
  have g: "same_start h gen"
    using l m [of 0] m [of 1] m [of 4] o(1) by (simp add: same_start_def gen_def put_at_def headed_def nth_append)
  have "same_start h (put_at p sig gen)" if "mp = Some p" for p sig
  proof -
    have p: "8 \<le> p" "p \<le> length gen" using o(2) [OF that] l by auto
    then have "put_at p sig gen ! i = gen ! i" if "i < 8" for i using that by (simp add: put_at_def nth_append)
    moreover have "8 \<le> length (put_at p sig gen)" using p by (simp add: put_at_def)
    ultimately show ?thesis using g by (simp add: same_start_def)
  qed
  then show ?thesis using assms(1) g r by (auto simp: finish_def Let_def simp flip: gen_def split: option.splits if_splits)
qed

lemma generate_head:
  assumes "generate C ob eb sigdata m = Inr (Some bs)" "length (hdr m) \<ge> 8"
  shows "same_start (hdr m) bs"
proof -
  obtain o0 o1 en r where o: "emit (take 8 (hdr m)) 8 \<lparr>mem = ob, pos = 0\<rparr> = Inr o0" "encode_attrs (attributes m) o0 \<lparr>mem = eb, pos = 0\<rparr> = Inr (o1, en)"
      "(if pos en > 0 then encrypt_attrs C o1 en else Inr (Some o1)) = Inr (Some r)" "finish C sigdata (get_subtype m) r = Inr (Some bs)"
    using assms(1) by (auto simp: generate_def andThen_Inr_iff split: option.splits)
  have "headed (take 8 (hdr m)) o0" using o(1) assms(2) by (auto simp: emit_def headed_def put_at_def min_def split: if_splits)
  then have "headed (take 8 (hdr m)) o1" using encode_attrs_headed [OF o(2)] by blast
  then have "headed (take 8 (hdr m)) r" using o(3) encrypt_attrs_headed by (auto split: if_splits)
  from finish_head [OF o(4) this] show ?thesis using assms(2) by (simp add: same_start_def)
qed

text \<open>As the EAP payload of IKE shows it.\<close>

definition aka_payload :: "bool \<Rightarrow> byte \<Rightarrow> eap_payload \<Rightarrow> bool" where
  "aka_payload req ident p \<longleftrightarrow> eap_get_code p = (if req then EAP_REQUEST else EAP_RESPONSE) \<and> eap_get_identifier p = ident \<and> eap_get_type p = (23, 0)"

lemma generate_payload_head:
  assumes "generate_payload A E cr req ident st as sigdata = Inr (Some bs)"
  shows "aka_payload req ident (eap_payload_create_data bs)"
proof -
  obtain m where m: "simaka_message_create req ident EAP_AKA st = Some m"
    using assms by (auto simp: generate_payload_def split: option.splits)
  then have h: "hdr m = [if req then EAP_REQUEST else EAP_RESPONSE, ident] @ be_bytes 2 (8 :: 16 word) @ [EAP_AKA, st, 0, 0]"
    by (auto simp: simaka_message_create_def simaka_message_create_from_payload_def split: if_splits)
  have "hdr (foldl (\<lambda>m (t, d). add_attribute t d m) m as) = hdr m" by (simp add: foldl_add_attribute)
  with assms m have "same_start (hdr m) bs"
    using generate_head [of "as_crypto A (rnd E) cr" "out_stack E" "encr_stack E" sigdata "foldl (\<lambda>m (t, d). add_attribute t d m) m as" bs] h
    by (simp add: generate_payload_def)
  then show ?thesis using h
    by (auto simp: same_start_def aka_payload_def eap_payload_create_data_def eap_set_data_def eap_get_code_def eap_get_identifier_def
        eap_get_type_def eap_extract_type_def EAP_AKA_def nth_append)
qed

section \<open>Messages of the two sides\<close>

definition aka_message :: "bool \<Rightarrow> chunk \<Rightarrow> bool" where
  "aka_message req bs \<longleftrightarrow> (\<exists>ident. aka_payload req ident (eap_payload_create_data bs))"

lemma send_request_message: "send_request A E st as s = Inr (NEED_MORE, Some p, t) \<Longrightarrow> aka_message True p"
  by (auto simp: send_request_def aka_message_def andThen_Inr_iff Let_def dest!: generate_payload_head split: option.splits)

lemma identity_message: "identity A E s = Inr (NEED_MORE, Some p, t) \<Longrightarrow> aka_message True p"
  unfolding identity_def by (rule send_request_message)

lemma challenge_message: "challenge A E mgr s w = Inr ((NEED_MORE, Some p, t), w1) \<Longrightarrow> aka_message True p"
  by (auto simp: challenge_def andThen_Inr_iff Let_def dest: send_request_message identity_message split: option.splits if_splits)

lemma reauthenticate_message: "reauthenticate A E mgr mk cnt s w = Inr ((NEED_MORE, Some p, t), w1) \<Longrightarrow> aka_message True p"
  by (auto simp: reauthenticate_def andThen_Inr_iff Let_def dest: send_request_message split: option.splits if_splits)

lemma initiate_message: "initiate A E mgr s w = Inr ((NEED_MORE, Some p, t), w1) \<Longrightarrow> aka_message True p"
  by (auto simp: initiate_def andThen_Inr_iff dest: identity_message challenge_message split: if_splits)

lemma server_message:
  assumes "Eap_Aka_Server.process A E mgr data s w = Inr ((NEED_MORE, Some p, t), w1)"
  shows "aka_message True p"
  using assms
proof (cases rule: process_cases)
  case (identity m)
  then show ?thesis
    by (auto simp: Eap_Aka_Server.process_identity_def failed_def andThen_Inr_iff Let_def dest: challenge_message reauthenticate_message
        split: option.splits if_splits list.splits)
qed (auto dest: challenge_message)

lemma respond_message: "respond A E i st as sd s w = Inr ((NEED_MORE, Some p, t), w1) \<Longrightarrow> aka_message False p"
  by (auto simp: respond_def aka_message_def andThen_Inr_iff dest!: generate_payload_head split: if_splits)

lemma client_error_message: "create_client_error A E s w = Inr ((NEED_MORE, Some p, t), w1) \<Longrightarrow> aka_message False p"
  unfolding create_client_error_def by (rule respond_message)

lemma accept_challenge_message: "accept_challenge A E cards m res ck ik s w = Inr ((NEED_MORE, Some p, t), w1) \<Longrightarrow> aka_message False p"
  by (auto simp: accept_challenge_def andThen_Inr_iff Let_def dest: respond_message client_error_message split: option.splits if_splits)

lemma peer_challenge_message: "Eap_Aka_Peer.process_challenge A E cards m s w = Inr ((NEED_MORE, Some p, t), w1) \<Longrightarrow> aka_message False p"
  by (auto simp: Eap_Aka_Peer.process_challenge_def andThen_Inr_iff dest: respond_message client_error_message accept_challenge_message
      split: option.splits if_splits card_answer.splits)

lemma accept_reauthentication_message:
  "accept_reauthentication A E cards m cnt n nx re s w = Inr ((NEED_MORE, Some p, t), w1) \<Longrightarrow> aka_message False p"
  by (auto simp: accept_reauthentication_def andThen_Inr_iff Let_def dest: respond_message split: if_splits)

lemma peer_reauthentication_message:
  "Eap_Aka_Peer.process_reauthentication A E cards m s w = Inr ((NEED_MORE, Some p, t), w1) \<Longrightarrow> aka_message False p"
  by (auto simp: Eap_Aka_Peer.process_reauthentication_def andThen_Inr_iff Let_def dest: client_error_message accept_reauthentication_message
      split: option.splits if_splits)

lemma peer_identity_message: "Eap_Aka_Peer.process_identity A E cards m s w = Inr ((NEED_MORE, Some p, t), w1) \<Longrightarrow> aka_message False p"
  by (auto simp: Eap_Aka_Peer.process_identity_def andThen_Inr_iff Let_def dest: respond_message client_error_message split: option.splits)

lemma peer_message: "peer_process A E cards data s w = Inr ((NEED_MORE, Some p, t), w1) \<Longrightarrow> aka_message False p"
  by (auto simp: peer_process_def process_notification_def andThen_Inr_iff Let_def
      dest: client_error_message respond_message peer_identity_message peer_challenge_message peer_reauthentication_message split: option.splits if_splits)

section \<open>EAP-AKA as a method\<close>

text \<open>A call in the next environment of the supply.\<close>

definition next_call ::
  "(env \<Rightarrow> 'm \<Rightarrow> 'w \<Rightarrow> ((status \<times> chunk option \<times> 'm) \<times> 'w) res) \<Rightarrow> 'm \<Rightarrow> 'w \<times> (nat \<Rightarrow> env)
     \<Rightarrow> (status \<times> eap_payload option \<times> 'm \<times> 'w \<times> (nat \<Rightarrow> env)) res" where
  "next_call f m = (\<lambda>(w, E). andThen (f (E 0) m w) (\<lambda>((st, out, m1), w1).
     Inr (st, map_option eap_payload_create_data out, m1, w1, \<lambda>n. E (Suc n))))"

text \<open>
  The methods of the two sides as they are registered; the server is configured to request
  identities, \<open>ident\<close> is its random first identifier, \<open>idf\<close> turns an encoding into an identity, and
  \<open>hook\<close> is \<open>eap_authorize\<close> of the bus.
\<close>

definition aka_server_methods ::
  "aka_algs \<Rightarrow> 'w simaka_manager \<Rightarrow> byte \<Rightarrow> (chunk \<Rightarrow> ident) \<Rightarrow> (ident option \<Rightarrow> 'w \<Rightarrow> (bool \<times> 'w) res)
     \<Rightarrow> (unit, eap_aka_server, 'w \<times> (nat \<Rightarrow> env)) eap_env" where
  "aka_server_methods A mgr ident idf hook =
     \<lparr>ev_manager = add_method 23 0 EAP_SERVER () [], ev_construct = (\<lambda>_ server peer. Some (eap_aka_server_create (snd peer) True ident)),
      em_initiate = next_call (\<lambda>E. initiate A E mgr), em_process = (\<lambda>inp. next_call (\<lambda>E. Eap_Aka_Server.process A E mgr (ep_data inp))),
      em_get_type = (\<lambda>m. (23, 0)), em_get_msk = get_msk, em_is_mutual = (\<lambda>m. True),
      em_get_auth = (\<lambda>m. Some (Some (rev (map (\<lambda>i. Rule_Eap_Identity (idf i)) (get_auth m))))), em_taken = (\<lambda>m. m\<lparr>auth := []\<rparr>),
      ev_authorize = (\<lambda>i (w, E). andThen (hook i w) (\<lambda>(ok, w1). Inr (ok, w1, E))), ev_identity = idf\<rparr>"

definition aka_peer_methods ::
  "aka_algs \<Rightarrow> 'w cards \<Rightarrow> (chunk \<Rightarrow> ident) \<Rightarrow> (unit, eap_aka_peer, 'w \<times> (nat \<Rightarrow> env)) eap_env" where
  "aka_peer_methods A cards idf =
     \<lparr>ev_manager = add_method 23 0 EAP_PEER () [], ev_construct = (\<lambda>_ server peer. Some (eap_aka_peer_create (snd peer))),
      em_initiate = (\<lambda>m w. Inr (FAILED, None, m, w)), em_process = (\<lambda>inp. next_call (\<lambda>E. peer_process A E cards (ep_data inp))),
      em_get_type = (\<lambda>m. (23, 0)), em_get_msk = peer_get_msk, em_is_mutual = (\<lambda>m. True),
      em_get_auth = (\<lambda>m. None), em_taken = id, ev_authorize = (\<lambda>i w. Inr (True, w)), ev_identity = idf\<rparr>"

text \<open>
  A client that answers with an identity of its choice: \<open>nm\<close> picks it from the IKE identity; the
  code takes the IKE identity itself.
\<close>

definition aka_client_methods ::
  "aka_algs \<Rightarrow> 'w cards \<Rightarrow> (chunk \<Rightarrow> ident) \<Rightarrow> (ident \<Rightarrow> chunk) \<Rightarrow> (unit, eap_aka_peer, 'w \<times> (nat \<Rightarrow> env)) eap_env" where
  "aka_client_methods A cards idf nm = (aka_peer_methods A cards idf)\<lparr>ev_construct := \<lambda>_ server peer. Some (eap_aka_peer_create (nm peer))\<rparr>"

lemma aka_client_snd: "aka_client_methods A cards idf snd = aka_peer_methods A cards idf"
  by (simp add: aka_client_methods_def aka_peer_methods_def)

lemma payload_data [simp]: "ep_data (eap_payload_create_data bs) = bs"
  by (simp add: eap_payload_create_data_def eap_set_data_def)

lemma aka_message_fields:
  assumes "aka_message req bs"
  shows "eap_get_code (eap_payload_create_data bs) = (if req then EAP_REQUEST else EAP_RESPONSE)" "eap_get_type (eap_payload_create_data bs) = (23, 0)"
  using assms by (auto simp: aka_message_def aka_payload_def)

text \<open>The exchange of \<open>Aka_Exchange\<close> is a talk of these methods.\<close>

lemma aka_talk:
  assumes A: "aka_laws A" and E: "\<And>n. env_laws (E n)" "\<And>n. env_laws (G n)"
    and nai: "0 < length nai" "length nai \<le> 200" "\<And>n. id_from_data (E n) nai = nai"
    and mgr: "provider_is_reauth mgr nai w = Inr (None, w0)" "provider_is_pseudonym mgr nai w0 = Inr (None, w1)" "issues A mgr nai w1 q w3"
    and cards: "card_get_reauth cards nai c = Inr (None, c0)" "card_get_pseudonym cards nai c0 = Inr (None, c1)" "usim_has cards nai q c1"
    and V_def: "V = aka_server_methods A mgr ident idf hook" and U_def: "U = aka_client_methods A cards idf1 nm"
  obtains req ms w2 sE mE v k where "em_initiate V (eap_aka_server_create peer True ident) (w, E) = Inr (NEED_MORE, Some req, ms, w2)"
    "eap_get_type req = (23, 0)" "eap_talk V U req ms w2 (eap_aka_peer_create nai) (c, G) sE (w3, \<lambda>n. E (3 + n)) mE v"
    "em_get_msk V sE = Some k" "em_get_msk U mE = Some k" "get_auth sE = [nai]"
proof (rule full_exchange [where peer = peer and ident = ident, OF A E(1) [of 0] E(2) [of 0] E(1) [of 1] E(2) [of 1] nai(1,2) nai(3) [of 1] mgr cards], goal_cases)
  case (1 req1 rsp1 req2 rsp2 s1 s2 s3 p1 p2 c2)
  have E5: "Eap_Aka_Server.process A (E 2) mgr rsp2 s2 w3 = Inr ((SUCCESS, None, s3), w3)" by (rule 1(6))
  note m = aka_message_fields [OF initiate_message [OF 1(2)]] aka_message_fields [OF server_message [OF 1(4)]]
    aka_message_fields [OF peer_message [OF 1(3)]] aka_message_fields [OF peer_message [OF 1(5)]]
  let ?P = eap_payload_create_data
  have i: "em_initiate V (eap_aka_server_create peer True ident) (w, E) = Inr (NEED_MORE, Some (?P req1), s1, w, \<lambda>n. E (1 + n))"
    using 1(2) by (simp add: V_def aka_server_methods_def next_call_def)
  have c1: "em_process U (?P req1) (eap_aka_peer_create nai) (c, G) = Inr (NEED_MORE, Some (?P rsp1), p1, c1, \<lambda>n. G (1 + n))"
    using 1(3) by (simp add: U_def aka_client_methods_def aka_peer_methods_def next_call_def)
  have v1: "em_process V (?P rsp1) s1 (w, \<lambda>n. E (1 + n)) = Inr (NEED_MORE, Some (?P req2), s2, w3, \<lambda>n. E (2 + n))"
    using 1(4) by (simp add: V_def aka_server_methods_def next_call_def numeral_2_eq_2)
  have c2: "em_process U (?P req2) p1 (c1, \<lambda>n. G (1 + n)) = Inr (NEED_MORE, Some (?P rsp2), p2, c2, \<lambda>n. G (2 + n))"
    using 1(5) by (simp add: U_def aka_client_methods_def aka_peer_methods_def next_call_def numeral_2_eq_2)
  have v2: "em_process V (?P rsp2) s2 (w3, \<lambda>n. E (2 + n)) = Inr (SUCCESS, None, s3, w3, \<lambda>n. E (3 + n))"
    using E5 by (simp add: V_def aka_server_methods_def next_call_def numeral_2_eq_2 numeral_3_eq_3)
  have t: "em_get_type V x = (23, 0)" for x by (simp add: V_def aka_server_methods_def)
  have "eap_talk V U (?P req2) s2 (w3, \<lambda>n. E (2 + n)) p1 (c1, \<lambda>n. G (1 + n)) s3 (w3, \<lambda>n. E (3 + n)) p2 (c2, \<lambda>n. G (2 + n))"
    by (rule talk_last [OF _ _ c2 _ _ _ v2]) (simp_all add: m t)
  then have "eap_talk V U (?P req1) s1 (w, \<lambda>n. E (1 + n)) (eap_aka_peer_create nai) (c, G) s3 (w3, \<lambda>n. E (3 + n)) p2 (c2, \<lambda>n. G (2 + n))"
    by (intro talk_more [OF _ _ c1 _ _ v1]) (simp_all add: m t)
  moreover obtain k where "peer_get_msk p2 = Some k" using 1(9) by blast
  ultimately show thesis using i m(2) 1(7,8)
    by (intro that [of "?P req1" s1 "(w, \<lambda>n. E (1 + n))" s3 p2 "(c2, \<lambda>n. G (2 + n))" k])
      (simp_all add: V_def U_def aka_server_methods_def aka_client_methods_def aka_peer_methods_def)
qed

section \<open>The exchange completes\<close>

lemma derived_auth_keys:
  assumes "get_algorithm PSEUDO_RANDOM_FUNCTION prop = Some (alg, x)" "cf_prf F alg = Some P" "prf_total P" "suite F prop na ne mk"
    and "0 < prf_key_size P" "prf_key_size P < 2 ^ 16" "3 * prf_key_size P + 2 * na + 2 * ne \<le> 255 * prf_block_size P"
    and "derive_ike_keys F prop (Some secret) ni nr si sr PRF_UNDEFINED [] (keymat_v2_create b) = Inr (True, K1, t)"
  defines "K \<equiv> rfc_ike_keys (prf_key_size P) na ne
      (rfc_prf_plus (prf_fun P) (prf_fun P (rfc_seed_key alg (prf_key_size P) ni nr) secret) (ni @ nr @ si @ sr))"
  shows "auth_keys P (if b then sk_pi K else sk_pr K) (if b then sk_pr K else sk_pi K) t"
proof -
  have sd: "seeded F alg P secret ni nr PRF_UNDEFINED [] P (prf_fun P (rfc_seed_key alg (prf_key_size P) ni nr) secret)"
    by (simp add: seeded_def)
  have "length (rfc_prf_plus (prf_fun P) k d) = 255 * prf_block_size P" for k d by (rule length_rfc_prf_plus [OF assms(3)])
  then have "length (sk_pi K) \<le> 255 * prf_block_size P" "length (sk_pr K) \<le> 255 * prf_block_size P"
    using assms(7) by (simp_all add: K_def rfc_ike_keys_def length_slice)
  then show ?thesis
    using assms(8) by (rule_tac derive_ike_keys_suite [OF assms(1,2,3,4) sd assms(5,6,7), of si sr b]) (simp_all add: auth_keys_def assms(3) flip: K_def)
qed

text \<open>The state of the IKE SA at the two ends before the first IKE_AUTH message is processed.\<close>

definition matching_sas :: "eap_sa \<Rightarrow> eap_sa \<Rightarrow> bool" where
  "matching_sas sa_s sa_c \<longleftrightarrow> is_my_id sa_s = is_other_id sa_c \<and> is_other_id sa_s = is_my_id sa_c
     \<and> cfg_eap_identity (is_other_cfg sa_s) = None \<and> (cfg_eap_type (is_other_cfg sa_s), cfg_eap_vendor (is_other_cfg sa_s)) = (23, 0)
     \<and> (cfg_eap_type (is_my_cfg sa_c) = EAP_NAK \<or> (cfg_eap_type (is_my_cfg sa_c), cfg_eap_vendor (is_my_cfg sa_c)) = (23, 0))"

lemma load_aka_server:
  "ea_eap_identity s = None \<Longrightarrow> load_method (aka_server_methods A mgr ident idf hook) 23 0 EAP_SERVER s
     = Some (eap_aka_server_create (snd (is_other_id (ea_ike_sa s))) True ident)"
  by (simp add: load_method_def aka_server_methods_def add_method_def Let_def)

lemma load_aka_peer:
  "ea_eap_identity s = None \<Longrightarrow> load_method (aka_client_methods A cards idf nm) 23 0 EAP_PEER s
     = Some (eap_aka_peer_create (nm (is_my_id (ea_ike_sa s))))"
  by (simp add: load_method_def aka_client_methods_def aka_peer_methods_def add_method_def Let_def)

lemma session_completes:
  assumes F: "get_algorithm PSEUDO_RANDOM_FUNCTION prop = Some (alg, x)" "cf_prf F alg = Some P" "prf_total P" "suite F prop na ne mk"
      "0 < prf_key_size P" "prf_key_size P < 2 ^ 16" "3 * prf_key_size P + 2 * na + 2 * ne \<le> 255 * prf_block_size P"
    and kc: "derive_ike_keys F prop (Some secret) ni nr si sr PRF_UNDEFINED [] (keymat_v2_create True) = Inr (True, K1, is_keymat sa_c)"
    and ks: "derive_ike_keys F prop (Some secret) ni nr si sr PRF_UNDEFINED [] (keymat_v2_create False) = Inr (True, K2, is_keymat sa_s)"
    and sas: "matching_sas sa_s sa_c" "nm (is_my_id sa_c) = nai"
    and A: "aka_laws A" and E: "\<And>n. env_laws (E n)" "\<And>n. env_laws (G n)"
    and nai: "0 < length nai" "length nai \<le> 200" "\<And>n. id_from_data (E n) nai = nai"
    and mgr: "provider_is_reauth mgr nai w = Inr (None, w0)" "provider_is_pseudonym mgr nai w0 = Inr (None, w1)" "issues A mgr nai w1 q w3"
    and cards: "card_get_reauth cards nai c = Inr (None, c0)" "card_get_pseudonym cards nai c0 = Inr (None, c1)" "usim_has cards nai q c1"
    and hook: "hook (Some (idf nai)) w3 = Inr (True, w4)"
  shows "\<exists>n s' c' v'. auth_run n (aka_server_methods A mgr ident idf hook) (aka_client_methods A cards idf1 nm) msg
      (eap_authenticator_create sa_s ni nr init_i init_r reserved) (w, E)
      (eap_authenticator_create sa_c nr ni init_r init_i reserved) (c, G) = Inr (SUCCESS, SUCCESS, s', (w4, \<lambda>n. E (3 + n)), c', v')
    \<and> is_eap_authenticated (ea_ike_sa s')"
proof -
  define V U where "V = aka_server_methods A mgr ident idf hook" and "U = aka_client_methods A cards idf1 nm"
  let ?s = "eap_authenticator_create sa_s ni nr init_i init_r reserved :: eap_aka_server eap_authenticator"
    and ?c = "eap_authenticator_create sa_c nr ni init_r init_i reserved :: eap_aka_peer eap_authenticator"
  have fresh: "ea_method ?s = None" "\<not> ea_eap_complete ?s" "ea_eap_payload ?s = None" "ea_eap_identity ?s = None" "ea_ike_sa ?s = sa_s"
      "ea_method ?c = None" "\<not> ea_eap_complete ?c" "\<not> ea_require_mutual ?c" "ea_eap_identity ?c = None" "ea_ike_sa ?c = sa_c"
    by (simp_all add: eap_authenticator_create_def)
  obtain req ms w2 sE mE v k where t: "em_initiate V (eap_aka_server_create (snd (is_other_id sa_s)) True ident) (w, E) = Inr (NEED_MORE, Some req, ms, w2)"
      "eap_get_type req = (23, 0)" "eap_talk V U req ms w2 (eap_aka_peer_create nai) (c, G) sE (w3, \<lambda>n. E (3 + n)) mE v"
      "em_get_msk V sE = Some k" "em_get_msk U mE = Some k" "get_auth sE = [nai]"
    by (rule aka_talk [OF A E nai mgr cards V_def U_def])
  obtain skpi skpr where en: "ends P skpi skpr ?s ?c"
    using derived_auth_keys [OF F kc] derived_auth_keys [OF F ks] sas(1) by (auto simp: ends_def matching_sas_def eap_authenticator_create_def)
  have l: "load_method V (cfg_eap_type (is_other_cfg (ea_ike_sa ?s))) (cfg_eap_vendor (is_other_cfg (ea_ike_sa ?s))) EAP_SERVER ?s
      = Some (eap_aka_server_create (snd (is_other_id sa_s)) True ident)"
    using load_aka_server [OF fresh(4)] sas(1) by (simp add: V_def fresh(5) matching_sas_def)
  have sv: "serves U req ?c (eap_aka_peer_create nai)"
    using load_aka_peer [OF fresh(9), of A cards idf1 nm] sas t(2) by (simp add: serves_def fresh(6,10) U_def matching_sas_def Let_def)
  have h: "ev_authorize V (get_identification V sE ?s) (w3, \<lambda>n. E (3 + n)) = Inr (True, w4, \<lambda>n. E (3 + n))"
    using hook t(6) by (simp add: V_def aka_server_methods_def get_identification_def fresh(4) cfg_eap_identity_def)
  have i: "cfg_eap_identity (is_other_cfg (ea_ike_sa ?s)) = None" using sas(1) by (simp add: fresh(5) matching_sas_def)
  have m: "ea_require_mutual ?c \<longrightarrow> em_is_mutual U mE" using fresh(8) by simp
  obtain n s' c' where "auth_run n V U msg ?s (w, E) ?c (c, G) = Inr (SUCCESS, SUCCESS, s', (w4, \<lambda>n. E (3 + n)), c', v)" "is_eap_authenticated (ea_ike_sa s')"
    using auth_run_completes [OF fresh(1-3) i l t(1) t(3) sv fresh(7) en t(4,5) h m] by blast
  then show ?thesis unfolding V_def U_def by blast
qed

text \<open>
  C2. Authentication completes: two ends that derived the keys of an IKE SA from the same
  Diffie-Hellman secret and nonces, where the client has the USIM of the subscriber named by its
  IKE identity and a provider of the server issues a vector of that USIM, exchange IKE_AUTH
  messages until both report success, with the server having authenticated the peer, if the hook
  allows the subscriber. The identity asked for is the one of the subscriber.
\<close>

theorem ike_eap_aka_completes:
  assumes F: "get_algorithm PSEUDO_RANDOM_FUNCTION prop = Some (alg, x)" "cf_prf F alg = Some P" "prf_total P" "suite F prop na ne mk"
      "0 < prf_key_size P" "prf_key_size P < 2 ^ 16" "3 * prf_key_size P + 2 * na + 2 * ne \<le> 255 * prf_block_size P"
    and kc: "derive_ike_keys F prop (Some secret) ni nr si sr PRF_UNDEFINED [] (keymat_v2_create True) = Inr (True, K1, is_keymat sa_c)"
    and ks: "derive_ike_keys F prop (Some secret) ni nr si sr PRF_UNDEFINED [] (keymat_v2_create False) = Inr (True, K2, is_keymat sa_s)"
    and sas: "matching_sas sa_s sa_c" "snd (is_my_id sa_c) = nai"
    and A: "aka_laws A" and E: "\<And>n. env_laws (E n)" "\<And>n. env_laws (G n)"
    and nai: "0 < length nai" "length nai \<le> 200" "\<And>n. id_from_data (E n) nai = nai"
    and mgr: "provider_is_reauth mgr nai w = Inr (None, w0)" "provider_is_pseudonym mgr nai w0 = Inr (None, w1)" "issues A mgr nai w1 q w3"
    and cards: "card_get_reauth cards nai c = Inr (None, c0)" "card_get_pseudonym cards nai c0 = Inr (None, c1)" "usim_has cards nai q c1"
    and hook: "hook (Some (idf nai)) w3 = Inr (True, w4)"
  shows "\<exists>n s' c' v'. auth_run n (aka_server_methods A mgr ident idf hook) (aka_peer_methods A cards idf1) msg
      (eap_authenticator_create sa_s ni nr init_i init_r reserved) (w, E)
      (eap_authenticator_create sa_c nr ni init_r init_i reserved) (c, G) = Inr (SUCCESS, SUCCESS, s', (w4, \<lambda>n. E (3 + n)), c', v')
    \<and> is_eap_authenticated (ea_ike_sa s')"
  using assms by (rule session_completes [where nm = snd, unfolded aka_client_snd])

section \<open>What success rests on\<close>

lemma next_call_Inr:
  "next_call f m (w, E) = Inr (st, out, m1, w1, E1) \<longleftrightarrow>
     (\<exists>d. f (E 0) m w = Inr ((st, d, m1), w1) \<and> out = map_option eap_payload_create_data d) \<and> E1 = (\<lambda>n. E (Suc n))"
  by (auto simp: next_call_def andThen_Inr_iff)

lemma Some_eq_map_option: "Some y = map_option f d \<longleftrightarrow> (\<exists>x. d = Some x \<and> y = f x)"
  by (cases d) auto

lemma live_aka:
  assumes "em_live (aka_server_methods A mgr ident idf hook) x"
  shows "reachable (aka_started A mgr) (aka_round A mgr) (fst x, fst (snd x))"
  using assms
proof (induction rule: em_live.induct)
  case (live_init t v server peer m w p m1 w1)
  obtain u E u1 E1 where w: "w = (u, E)" "w1 = (u1, E1)" by (cases w; cases w1)
  have m: "m = eap_aka_server_create (snd peer) True ident"
    using live_init(1) by (auto simp: aka_server_methods_def add_method_def split: if_splits)
  obtain d where "initiate A (E 0) mgr m u = Inr ((NEED_MORE, Some d, m1), u1)"
    using live_init(2) by (auto simp: aka_server_methods_def w next_call_Inr Some_eq_map_option)
  then show ?case unfolding m w by (auto intro: reach_init aka_started.intros)
next
  case (live_process m w inp p m1 w1)
  obtain u E u1 E1 where w: "w = (u, E)" "w1 = (u1, E1)" by (cases w; cases w1)
  obtain d where "Eap_Aka_Server.process A (E 0) mgr (ep_data inp) m u = Inr ((NEED_MORE, Some d, m1), u1)"
    using live_process(2) by (auto simp: aka_server_methods_def w next_call_Inr Some_eq_map_option)
  then have "aka_round A mgr (m, u) (m1, u1)" by (rule aka_round.intros)
  then show ?case using live_process(3) by (simp add: w reach_step)
qed

text \<open>The hook of the authenticator is the bus, with the listeners that are registered.\<close>

definition bus_hook :: "ike_sa option \<Rightarrow> 'w listeners \<Rightarrow> ident option \<Rightarrow> 'w \<Rightarrow> (bool \<times> 'w) res" where
  "bus_hook thread_sa es i w = andThen (bus_eap_authorize thread_sa (map_option snd i) True es w) (\<lambda>(ok, es1, w1). Inr (ok, w1))"

lemma granted_aka:
  assumes "Eap_Authenticator.granted (aka_server_methods A mgr ident idf (bus_hook sa es)) s"
    and "registered (osmo_epdg_listener_create K pton6 gsup x) es" "ea_eap_identity s = None" "\<And>d. snd (idf d) = d"
  shows "\<exists>t E data m q imsi. received A E t data m \<and> vector_for A mgr t q \<and> signed_by A (crypto t) [] m
    \<and> q_xres q \<noteq> [] \<and> (AT_RES, q_xres q) \<in> set (Simaka_Message.attributes m) \<and> msk t = Some (ea_msk s)
    \<and> eap_imsi (Some (permanent t)) = Some imsi \<and> location_updated K gsup imsi"
proof -
  let ?V = "aka_server_methods A mgr ident idf (bus_hook sa es)"
  obtain m0 w0 inp out m1 w1 w2 where g: "em_live ?V (m0, w0)" "em_process ?V inp m0 w0 = Inr (SUCCESS, out, m1, w1)"
      "ev_authorize ?V (get_identification ?V m1 s) w1 = Inr (True, w2)" "ea_msk s = (case em_get_msk ?V m1 of None \<Rightarrow> [] | Some k \<Rightarrow> k)"
    using assms(1) by (auto simp: Eap_Authenticator.granted_def)
  obtain u E u1 E1 where w: "w0 = (u, E)" "w1 = (u1, E1)" by (cases w0; cases w1)
  have r: "reachable (aka_started A mgr) (aka_round A mgr) (m0, u)" using live_aka [OF g(1)] by (simp add: w)
  obtain d where p: "Eap_Aka_Server.process A (E 0) mgr (ep_data inp) m0 u = Inr ((SUCCESS, d, m1), u1)"
    using g(2) by (auto simp: aka_server_methods_def w next_call_Inr)
  have i: "get_identification ?V m1 s = cfg_eap_identity (rev (map (\<lambda>i. Rule_Eap_Identity (idf i)) (get_auth m1)))"
    using assms(3) by (simp add: get_identification_def aka_server_methods_def)
  obtain es1 u2 where b: "bus_eap_authorize sa (map_option snd (get_identification ?V m1 s)) True es u1 = Inr (True, es1, u2)"
    using g(3) by (auto simp: aka_server_methods_def w bus_hook_def andThen_Inr_iff)
  obtain imsi where l: "eap_imsi (map_option snd (get_identification ?V m1 s)) = Some imsi" "location_updated K gsup imsi"
    using listener_agrees [OF b assms(2)] by blast
  have na: "get_auth m1 \<noteq> []" using l(1) i by (auto simp: cfg_eap_identity_def eap_imsi_def)
  have k: "ea_msk s = (case get_msk m1 of None \<Rightarrow> [] | Some k \<Rightarrow> k)" using g(4) by (simp add: aka_server_methods_def)
  obtain m q where m: "received A (E 0) m0 (ep_data inp) m" "get_msk m1 = msk m0" "vector_for A mgr m0 q" "signed_by A (crypto m0) [] m" "q_xres q \<noteq> []"
      "(AT_RES, q_xres q) \<in> set (Simaka_Message.attributes m)" "get_auth m1 = [permanent m0]"
    using success_grounds [OF r p] na by blast
  have "map_option snd (get_identification ?V m1 s) = Some (permanent m0)"
    using i m(7) assms(4) by (simp add: cfg_eap_identity_def)
  then have "eap_imsi (Some (permanent m0)) = Some imsi" using l(1) by (simp only:)
  moreover have "msk m0 = Some (ea_msk s)" using k m(2,3) by (auto simp: vector_for_def)
  ultimately show ?thesis using m(1,3-6) l(2) by blast
qed

text \<open>
  As the ePDG is configured, the server asks for no EAP identity, and EAP-AKA is never the
  exchange of identities: the authenticator keeps none.
\<close>

definition no_eap_id :: "'m eap_authenticator \<Rightarrow> bool" where
  "no_eap_id s \<longleftrightarrow> ea_eap_identity s = None \<and> cfg_eap_identity (is_other_cfg (ea_ike_sa s)) = None"

definition epdg_started :: "'m eap_authenticator \<times> 'w \<Rightarrow> bool" where
  "epdg_started x \<longleftrightarrow> eap_server_started x \<and> no_eap_id (fst x)"

lemma success_no_eap_id:
  assumes "server_eap_success V x (23, 0) m s w = Inr (r, s1, w1)" "no_eap_id s"
  shows "no_eap_id s1"
  using assms by (auto simp: server_eap_success_def no_eap_id_def Let_def andThen_Inr_iff split: if_splits option.splits)

lemma process_no_eap_id:
  assumes "server_process_eap V inp s w = Inr (r, s1, w1)" "no_eap_id s" and t: "\<And>m. em_get_type V m = (23, 0)"
  shows "no_eap_id s1"
proof (cases "ea_method s")
  case None
  then show ?thesis using assms(1,2) by (auto simp: server_process_eap_def Let_def split: if_splits)
next
  case (Some m)
  show ?thesis
  proof (cases "s1 = s")
    case False
    then obtain st out m1 w2 where p: "em_process V inp m w = Inr (st, out, m1, w2)"
        "(case st of NEED_MORE \<Rightarrow> Inr (out, s\<lparr>ea_method := Some m1\<rparr>, w2)
          | SUCCESS \<Rightarrow> server_eap_success V (eap_get_identifier inp) (23, 0) m1 (s\<lparr>ea_method := Some m1\<rparr>) w2
          | FAILED \<Rightarrow> Inr (Some (eap_payload_create_code EAP_FAILURE (eap_get_identifier inp)), s\<lparr>ea_method := Some m1\<rparr>, w2)) = Inr (r, s1, w1)"
      using assms(1) Some by (auto simp: server_process_eap_def Let_def t andThen_Inr_iff split: if_splits)
    have n: "no_eap_id (s\<lparr>ea_method := Some m1\<rparr>)" using assms(2) by (simp add: no_eap_id_def)
    show ?thesis using p(2) n by (cases st) (auto intro: success_no_eap_id)
  qed (use assms(2) in simp)
qed

lemma server_step_no_eap_id:
  assumes V_def: "V = aka_server_methods A mgr ident idf hook" and "eap_inv V (s, w)" "no_eap_id s"
    and "process_server V msg s w = Inr (NEED_MORE, s1, w1)" "build_server s1 = Inr (NEED_MORE, out, s2)"
  shows "no_eap_id s2"
proof -
  obtain q where q: "ea_eap_payload s1 = Some q" "eap_get_code q \<noteq> EAP_FAILURE" "s2 = s1\<lparr>ea_eap_payload := None\<rparr>" using build_more [OF assms(5)] by blast
  show ?thesis
  proof (cases "ea_eap_complete s")
    case True
    then have "ea_eap_payload s1 = ea_eap_payload s"
      using assms(4) by (auto simp: process_server_def andThen_Inr_iff dest: verify_auth_keeps split: if_splits option.splits)
    then show ?thesis using q(1) assms(2) by (simp add: eap_inv_def)
  next
    case False
    show ?thesis
    proof (cases "ea_method s")
      case None
      then obtain t where t: "initiate_real V s w = Inr (Some q, t, w1)" "s1 = t\<lparr>ea_eap_payload := Some q\<rparr>"
        using assms(3,4) False q(1) by (auto simp: process_server_def server_initiate_eap_def no_eap_id_def andThen_Inr_iff)
      from initiate_real_result [OF t(1) q(2)] assms(3) show ?thesis by (auto simp: q(3) t(2) no_eap_id_def)
    next
      case (Some m)
      then obtain inp t where t: "server_process_eap V inp s w = Inr (Some q, t, w1)" "s1 = t\<lparr>ea_eap_payload := Some q\<rparr>"
        using assms(4) False q(1) by (auto simp: process_server_def andThen_Inr_iff split: option.splits)
      have "no_eap_id t" by (rule process_no_eap_id [OF t(1) assms(3)]) (simp add: V_def aka_server_methods_def)
      then show ?thesis by (simp add: q(3) t(2) no_eap_id_def)
    qed
  qed
qed

lemma ppk_no_eap_id: "no_eap_id (use_ppk ppk b s) = no_eap_id s"
  by (simp add: no_eap_id_def use_ppk_def)

lemma epdg_step_inv:
  assumes "eap_inv (aka_server_methods A mgr ident idf hook) x \<and> no_eap_id (fst x)" "eap_server_step (aka_server_methods A mgr ident idf hook) x y"
  shows "eap_inv (aka_server_methods A mgr ident idf hook) y \<and> no_eap_id (fst y)"
proof (rule conjI)
  show "eap_inv (aka_server_methods A mgr ident idf hook) y" using assms step_inv by blast
  show "no_eap_id (fst y)" using assms(2)
  proof cases
    case (server_round msg s w s1 w1 out s2)
    then show ?thesis using server_step_no_eap_id [OF refl _ _ server_round(3,4)] assms(1) by simp
  next
    case (server_ppk s w ppk b)
    then show ?thesis using assms(1) by (simp add: ppk_no_eap_id)
  qed
qed

interpretation epdg_sys: inv_system epdg_started "eap_server_step (aka_server_methods A mgr ident idf hook)"
  "\<lambda>x. eap_inv (aka_server_methods A mgr ident idf hook) x \<and> no_eap_id (fst x)" for A mgr ident idf hook
  by unfold_locales (auto simp: epdg_started_def started_inv intro: epdg_step_inv [THEN conjunct1] epdg_step_inv [THEN conjunct2])

lemma epdg_reachable: "reachable epdg_started step x \<Longrightarrow> reachable eap_server_started step x"
  by (induction rule: reachable.induct) (auto simp: epdg_started_def intro: reachable.intros)

text \<open>
  C1. Only a subscriber is authenticated: when the ePDG completes IKE_AUTH with success, no
  EAP identity being configured, then a vector that a provider issued for an identity was answered
  with the response RES of its USIM, in a message signed with a key derived from the vector; this
  identity holds an IMSI for which the core network has accepted the location update; and the peer
  has sent an AUTH payload that is computed from the MSK of that vector, over the first message
  and the nonce of this IKE SA. A fast re-authentication is never enough.
\<close>

theorem epdg_authenticates_subscribers:
  assumes V_def: "V = aka_server_methods A mgr ident idf (bus_hook sa es)"
    and "reachable epdg_started (eap_server_step V) (s, w)"
    and "process_server V msg s w = Inr (NEED_MORE, s1, w1)" "build_server s1 = Inr (SUCCESS, out, s2)"
    and "registered (osmo_epdg_listener_create K pton6 gsup x) es" "\<And>d. snd (idf d) = d"
  shows "\<exists>t E data m q imsi auth k. received A E t data m \<and> vector_for A mgr t q \<and> signed_by A (crypto t) [] m
    \<and> q_xres q \<noteq> [] \<and> (AT_RES, q_xres q) \<in> set (Simaka_Message.attributes m) \<and> msk t = Some (ea_msk s)
    \<and> eap_imsi (Some (permanent t)) = Some imsi \<and> location_updated K gsup imsi
    \<and> received_auth msg s = Some auth \<and> auth \<noteq> []
    \<and> get_psk_sig True (ea_received_init s) (ea_sent_nonce s) (ea_msk s) (ea_ppk s) (is_other_id (ea_ike_sa s)) (ea_reserved s)
        (is_keymat (ea_ike_sa s)) = Inr (Some auth, k)"
proof -
  have g: "Eap_Authenticator.granted V s" and a: "\<exists>auth k. received_auth msg s = Some auth \<and> auth \<noteq> []
      \<and> get_psk_sig True (ea_received_init s) (ea_sent_nonce s) (ea_msk s) (ea_ppk s) (is_other_id (ea_ike_sa s)) (ea_reserved s)
          (is_keymat (ea_ike_sa s)) = Inr (Some auth, k)"
    using server_grounds [OF epdg_reachable [OF assms(2)] assms(3,4)] by blast+
  have i: "ea_eap_identity s = None" using epdg_sys.reachable_invar [OF assms(2) [unfolded V_def]] by (simp add: no_eap_id_def)
  from granted_aka [OF g [unfolded V_def] assms(5) i assms(6)] a show ?thesis by blast
qed

section \<open>Whose tunnel it is\<close>


section \<open>A session with the ePDG\<close>

text \<open>
  The server has the provider and the listener of the plugin, an empty database, and a core network
  that answers every request; the client has a card that knows the vector.
\<close>

definition sample_idf :: "chunk \<Rightarrow> ident" where "sample_idf d = (11, d)"

definition sample_core :: gsup_client where
  "sample_core = sample_gsup\<lparr>gc_send_auth_request := \<lambda>_ _ _ _ _ _. Some sample_auth_resp\<rparr>"

definition sample_bus :: "epdg listeners" where
  "sample_bus = add_listener (osmo_epdg_listener_create sample_consts (\<lambda>_. None) sample_core 1) []"

definition sample_ue_id :: ident where "sample_ue_id = sample_idf (permanent_nai sample_imsi [])"

definition sample_eap_sa :: "bool \<Rightarrow> keymat_v2 \<Rightarrow> eap_sa" where
  "sample_eap_sa initiator k = \<lparr>is_my_id = (if initiator then sample_ue_id else sample_idf [1]), is_other_id = (if initiator then sample_idf [1] else sample_ue_id),
     is_my_cfg = [], is_other_cfg = [Rule_Eap_Type 23], is_keymat = k, is_ext_ppk = False, is_eap_authenticated = False\<rparr>"

lemma sample_keys:
  obtains K k where "derive_ike_keys sample_ike_crypto sample_ike (Some [1, 2]) [3] [4] [5] [6] PRF_UNDEFINED [] (keymat_v2_create b) = Inr (True, Some K, k)"
proof -
  have "cf_prf sample_ike_crypto PRF_HMAC_SHA2_256 = Some sample_prf" by (simp add: sample_ike_crypto_def)
  moreover have "seeded sample_ike_crypto PRF_HMAC_SHA2_256 sample_prf [1, 2] [3] [4] PRF_UNDEFINED [] sample_prf
      (prf_fun sample_prf (rfc_seed_key PRF_HMAC_SHA2_256 (prf_key_size sample_prf) [3] [4]) [1, 2])"
    by (simp add: seeded_def)
  moreover have "0 < prf_key_size sample_prf" "prf_key_size sample_prf < 2 ^ 16" "3 * prf_key_size sample_prf + 2 * 20 + 2 * 16 \<le> 255 * prf_block_size sample_prf"
    by (simp_all add: sample_prf_def)
  ultimately show thesis
    by (rule_tac derive_ike_keys_suite [OF sample_algorithms(1) _ sample_prf_total sample_suite, of sample_prf "[1, 2]" "[3]" "[4]" PRF_UNDEFINED "[]" _ "[5]" "[6]" b])
      (assumption | rule that)+
qed

lemma sample_hook:
  obtains s' where "bus_hook (Some sample_sa) sample_bus (Some (sample_idf (permanent_nai sample_imsi []))) (osmo_epdg_db_create (\<lambda>_. 0)) = Inr (True, s')"
proof -
  let ?s = "osmo_epdg_db_create (\<lambda>_. 0)"
  have "ref_inv ?s (\<lambda>_. 0)" using db_init_inv [of "\<lambda>_. 0"] by (simp add: db_init_def)
  moreover have "ht_count (subscribers ?s) \<le> ht_limit" by (simp add: osmo_epdg_db_create_def hashtable_create_inv)
  moreover have "eap_imsi (Some (permanent_nai sample_imsi [])) = Some sample_imsi"
    using epdg_get_imsi_permanent [OF sample_imsi_valid, of 15 "[]"] by (simp add: eap_imsi_def)
  moreover have "valid_subscriber (APN_MAXLEN sample_consts) sample_sa" using sample_sa_valid by (simp add: sample_consts_def)
  moreover have l: "location_updated sample_consts sample_core sample_imsi" using sample_location by (simp add: location_updated_def sample_core_def)
  ultimately obtain s' where "eap_authorize sample_consts sample_core sample_sa (Some (permanent_nai sample_imsi [])) True ?s = Inr (True, s')"
    using eap_authorize_created [of ?s "\<lambda>_. 0" "Some (permanent_nai sample_imsi [])" sample_imsi sample_consts sample_sa sample_core True] by auto
  from bus_eap_authorize_single [OF this sample_bus_def] show thesis by (intro that [of s']) (simp add: bus_hook_def sample_idf_def)
qed

text \<open>A run in which the server succeeds ends in a state that its rounds reach.\<close>

lemma auth_run_reaches:
  assumes "auth_run n V U msg s w c v = Inr (SUCCESS, st, s', w', c', v')" "reachable init (eap_server_step V) (s, w)"
  shows "\<exists>t y msg s1 out. reachable init (eap_server_step V) (t, y) \<and> process_server V msg t y = Inr (NEED_MORE, s1, w') \<and> build_server s1 = Inr (SUCCESS, out, s')"
  using assms
proof (induction n arbitrary: msg s w c v)
  case (Suc n)
  obtain st0 s1 w1 where p: "process_server V msg s w = Inr (st0, s1, w1)" "st0 \<noteq> FAILED"
    using Suc.prems(1) by (auto simp: andThen_Inr_iff split: if_splits)
  then have n: "st0 = NEED_MORE" by (auto simp: process_server_def andThen_Inr_iff split: if_splits option.splits)
  obtain st1 out s2 where b: "build_server s1 = Inr (st1, out, s2)" using Suc.prems(1) p by (auto simp: andThen_Inr_iff)
  obtain st2 c1 v1 where c: "process_client U (to_message out) c v = Inr (st2, c1, v1)" using Suc.prems(1) p b by (auto simp: andThen_Inr_iff)
  show ?case
  proof (cases "st1 = NEED_MORE \<and> st2 = NEED_MORE")
    case True
    then obtain x rsp c2 where r: "build_client c1 = Inr (x, rsp, c2)" "auth_run n V U (to_message rsp) s2 w1 c2 v1 = Inr (SUCCESS, st, s', w', c', v')"
      using Suc.prems(1) p b c by (auto simp: andThen_Inr_iff)
    have "eap_server_step V (s, w) (s2, w1)" using p(1) b True n by (auto intro: server_round)
    then have "reachable init (eap_server_step V) (s2, w1)" by (rule reach_step [OF Suc.prems(2)])
    from Suc.IH [OF r(2) this] show ?thesis .
  next
    case False
    then have "st1 = SUCCESS" "s2 = s'" "w1 = w'" using Suc.prems(1) p b c by auto
    then show ?thesis using Suc.prems(2) p(1) b n by blast
  qed
qed simp

lemma sample_session:
  obtains K K' k k' s' where "derive_ike_keys sample_ike_crypto sample_ike (Some [1, 2]) [3] [4] [5] [6] PRF_UNDEFINED [] (keymat_v2_create True)
      = Inr (True, Some K', is_keymat (sample_eap_sa True k'))"
    "derive_ike_keys sample_ike_crypto sample_ike (Some [1, 2]) [3] [4] [5] [6] PRF_UNDEFINED [] (keymat_v2_create False)
      = Inr (True, Some K, is_keymat (sample_eap_sa False k))"
    "matching_sas (sample_eap_sa False k) (sample_eap_sa True k')" "snd (is_my_id (sample_eap_sa True k')) = permanent_nai sample_imsi []"
    "bus_hook (Some sample_sa) sample_bus (Some (sample_idf (permanent_nai sample_imsi []))) (osmo_epdg_db_create (\<lambda>_. 0)) = Inr (True, s')"
proof -
  obtain K k where k: "derive_ike_keys sample_ike_crypto sample_ike (Some [1, 2]) [3] [4] [5] [6] PRF_UNDEFINED [] (keymat_v2_create False) = Inr (True, Some K, k)"
    by (rule sample_keys)
  obtain K' k' where k': "derive_ike_keys sample_ike_crypto sample_ike (Some [1, 2]) [3] [4] [5] [6] PRF_UNDEFINED [] (keymat_v2_create True) = Inr (True, Some K', k')"
    by (rule sample_keys)
  obtain s' where h: "bus_hook (Some sample_sa) sample_bus (Some (sample_idf (permanent_nai sample_imsi []))) (osmo_epdg_db_create (\<lambda>_. 0)) = Inr (True, s')"
    by (rule sample_hook)
  show thesis
    by (rule that [of K' k' K k, OF _ _ _ _ h]) (use k k' in \<open>simp_all add: matching_sas_def sample_eap_sa_def sample_ue_id_def sample_idf_def
        cfg_eap_identity_def cfg_eap_type_def cfg_eap_vendor_def\<close>)
qed

lemma sample_sizes:
  "cf_prf sample_ike_crypto PRF_HMAC_SHA2_256 = Some sample_prf" "0 < prf_key_size sample_prf" "prf_key_size sample_prf < 2 ^ 16"
  "3 * prf_key_size sample_prf + 2 * 20 + 2 * 16 \<le> 255 * prf_block_size sample_prf"
  by (simp_all add: sample_ike_crypto_def sample_prf_def)

lemmas sample_usage = sample_laws(2) sample_nai sample_maps sample_issues sample_usim

definition sample_exchange ::
  "nat \<Rightarrow> keymat_v2 \<Rightarrow> keymat_v2 \<Rightarrow> (status \<times> status \<times> eap_aka_server eap_authenticator \<times> (epdg \<times> (nat \<Rightarrow> env)) \<times> eap_aka_peer eap_authenticator \<times> unit \<times> (nat \<Rightarrow> env)) res" where
  "sample_exchange n k k' = auth_run n (aka_server_methods sample_algs sample_manager 7 sample_idf (bus_hook (Some sample_sa) sample_bus))
      (aka_peer_methods sample_algs sample_cards sample_idf) (to_message [])
      (eap_authenticator_create (sample_eap_sa False k) [3] [4] [1] [2] []) (osmo_epdg_db_create (\<lambda>_. 0), \<lambda>_. sample_env)
      (eap_authenticator_create (sample_eap_sa True k') [4] [3] [2] [1] []) ((), \<lambda>_. sample_env)"

lemma sample_run:
  "\<exists>n k k' s' w' c' v'. sample_exchange n k k' = Inr (SUCCESS, SUCCESS, s', w', c', v') \<and> is_eap_authenticated (ea_ike_sa s')"
proof (rule sample_session, goal_cases)
  case (1 K K' k k' s')
  have "\<exists>n s'' c' v'. sample_exchange n k k' = Inr (SUCCESS, SUCCESS, s'', (s', \<lambda>n. sample_env), c', v') \<and> is_eap_authenticated (ea_ike_sa s'')"
    unfolding sample_exchange_def
    by (rule session_completes [where nm = snd, unfolded aka_client_snd, where E = "\<lambda>_. sample_env" and G = "\<lambda>_. sample_env" and nai = "permanent_nai sample_imsi []",
        OF sample_algorithms(1) sample_sizes(1) sample_prf_total sample_suite sample_sizes(2-4) 1(1-4) sample_laws(1)])
      (rule sample_usage 1(5))+
  then show ?case by blast
qed

theorem ike_eap_aka_completes_witness:
  "\<exists>n k k' s' w' c' v'. sample_exchange n k k' = Inr (SUCCESS, SUCCESS, s', w', c', v') \<and> is_eap_authenticated (ea_ike_sa s')"
proof (rule sample_session, goal_cases)
  case (1 K K' k k' s')
  have "\<exists>n s'' c' v'. sample_exchange n k k' = Inr (SUCCESS, SUCCESS, s'', (s', \<lambda>n. sample_env), c', v') \<and> is_eap_authenticated (ea_ike_sa s'')"
    unfolding sample_exchange_def
    by (rule ike_eap_aka_completes [where E = "\<lambda>_. sample_env" and G = "\<lambda>_. sample_env" and nai = "permanent_nai sample_imsi []",
        OF sample_algorithms(1) sample_sizes(1) sample_prf_total sample_suite sample_sizes(2-4) 1(1-4) sample_laws(1)])
      (rule sample_usage 1(5))+
  then show ?case by blast
qed

theorem epdg_authenticates_subscribers_witness:
  "\<exists>s w msg s1 w1 out s2 (m :: simaka_message) q auth (t :: eap_aka_server).
    reachable epdg_started (eap_server_step (aka_server_methods sample_algs sample_manager 7 sample_idf (bus_hook (Some sample_sa) sample_bus))) (s, w)
    \<and> process_server (aka_server_methods sample_algs sample_manager 7 sample_idf (bus_hook (Some sample_sa) sample_bus)) msg s w = Inr (NEED_MORE, s1, w1)
    \<and> build_server s1 = Inr (SUCCESS, out, s2) \<and> received_auth msg s = Some auth
    \<and> vector_for sample_algs (sample_manager :: epdg simaka_manager) t q \<and> (AT_RES, q_xres q) \<in> set (Simaka_Message.attributes m)
    \<and> msk t = Some (ea_msk s)"
proof -
  let ?V = "aka_server_methods sample_algs sample_manager 7 sample_idf (bus_hook (Some sample_sa) sample_bus)"
  have r: "reachable epdg_started (eap_server_step ?V) (eap_authenticator_create (sample_eap_sa False k) [3] [4] [1] [2] [], osmo_epdg_db_create (\<lambda>_. 0), \<lambda>_. sample_env)" for k
  proof (rule reach_init)
    let ?s = "eap_authenticator_create (sample_eap_sa False k) [3] [4] [1] [2] [] :: eap_aka_server eap_authenticator"
    have "no_eap_id ?s" by (simp add: no_eap_id_def eap_authenticator_create_def sample_eap_sa_def cfg_eap_identity_def)
    then show "epdg_started (?s, osmo_epdg_db_create (\<lambda>_. 0), \<lambda>_. sample_env)" unfolding epdg_started_def eap_server_started_def fst_conv by blast
  qed
  obtain n k k' s' w' c' v' where x: "sample_exchange n k k' = Inr (SUCCESS, SUCCESS, s', w', c', v')" using sample_run by blast
  obtain s w msg s1 out where e: "reachable epdg_started (eap_server_step ?V) (s, w)" "process_server ?V msg s w = Inr (NEED_MORE, s1, w')"
      "build_server s1 = Inr (SUCCESS, out, s')"
    using auth_run_reaches [OF x [unfolded sample_exchange_def] r] by blast
  have l: "registered (osmo_epdg_listener_create sample_consts (\<lambda>_. None) sample_core 1) sample_bus"
    unfolding sample_bus_def by (rule registered_add)
  have i: "snd (sample_idf d) = d" for d by (simp add: sample_idf_def)
  obtain t q auth and m :: simaka_message where "vector_for sample_algs (sample_manager :: epdg simaka_manager) t q" "(AT_RES, q_xres q) \<in> set (Simaka_Message.attributes m)"
      "msk t = Some (ea_msk s)" "received_auth msg s = Some auth"
    using epdg_authenticates_subscribers [OF refl e l i] by blast
  then show ?thesis using e by (intro exI conjI)
qed

text \<open>A client with the card of the sample subscriber that names another one.\<close>

definition sample_victim :: cstring where "sample_victim = [50,48,49,48,49,48,49,50,51,52,53,54,55,56,57]"

definition victim_id :: ident where "victim_id = sample_idf (permanent_nai sample_victim [])"

definition victim_sa :: ike_sa where "victim_sa = sample_sa\<lparr>other_id := Some (permanent_nai sample_victim [])\<rparr>"

lemma sample_victim_valid: "\<not> epdg_validate_imsi (Some sample_victim)"
  by (simp add: epdg_validate_imsi_def sample_victim_def isdigit_def)

lemma victim_facts:
  "valid_subscriber (APN_MAXLEN sample_consts) victim_sa" "eap_imsi (other_id victim_sa) = Some sample_victim"
  "eap_imsi (Some (permanent_nai sample_imsi [])) = Some sample_imsi" "location_updated sample_consts sample_core sample_imsi"
  "Epdg_Listener.granted sample_consts sample_core sample_victim
     = Some (Host4 [10,45,0,2] 0, [\<lparr>attr_type = INTERNAL_IP4_DNS, attr_value = [8,8,8,8], attr_valid = True\<rparr>])"
proof -
  note i = epdg_get_imsi_permanent [OF sample_victim_valid, of 15 "[]"]
  then show "eap_imsi (other_id victim_sa) = Some sample_victim" by (simp add: eap_imsi_def victim_sa_def)
  show "valid_subscriber (APN_MAXLEN sample_consts) victim_sa"
    using i sample_victim_valid by (auto simp: valid_subscriber_def epdg_get_imsi_ike_def epdg_get_apn_def victim_sa_def sample_sa_def sample_consts_def
        epdg_validate_apn_def cstr_def)
  show "eap_imsi (Some (permanent_nai sample_imsi [])) = Some sample_imsi"
    using epdg_get_imsi_permanent [OF sample_imsi_valid, of 15 "[]"] by (simp add: eap_imsi_def)
  show "location_updated sample_consts sample_core sample_imsi" using sample_location by (simp add: location_updated_def sample_core_def)
  show "Epdg_Listener.granted sample_consts sample_core sample_victim
     = Some (Host4 [10,45,0,2] 0, [\<lparr>attr_type = INTERNAL_IP4_DNS, attr_value = [8,8,8,8], attr_valid = True\<rparr>])"
    using sample_granted by (simp add: Epdg_Listener.granted_def sample_core_def sample_gsup_def)
qed

lemma sample_db: "ref_inv (osmo_epdg_db_create (\<lambda>_. 0)) (\<lambda>_. 0)" "ht_count (subscribers (osmo_epdg_db_create (\<lambda>_. 0))) \<le> ht_limit"
  using db_init_inv [of "\<lambda>_. 0"] by (simp_all add: db_init_def osmo_epdg_db_create_def hashtable_create_inv)


end
