(* ===== verification/Spec2Isabelle.thy ===== *)
theory Spec2Isabelle
  imports Hashtable Epdg_Utils Epdg_Provider Gsup_Client Ipa_Client Esp_Context Bio Mem_Pool Aka_Reauth Traffic_Selector Eap_Ike
begin

text \<open>
  \<^bold>\<open>Verification of the ePDG of docker_open5gs.\<close>

  The C code of the repository is the ePDG, a strongSwan with the plugin \<open>osmo_epdg\<close>, under
  \<open>src/osmoepdg/strongswan-epdg-src/src\<close>; all paths below are relative to it.  The plugin
  authenticates a phone (UE) that sets up an IPsec tunnel: charon asks it for AKA vectors
  (provider), tells it about a successful authentication (listener, \<open>eap_authorize\<close>) and about
  the tunnel to be set up (listener, \<open>authorize\<close>), and asks it for the inner address and the
  configuration attributes (provider).  What the plugin knows of a UE it keeps in a database of
  reference-counted objects; what it does not know it asks from the core network through the
  GSUP client, whose requests travel over the IPA client's stream.

  \<^bold>\<open>Theories and sources.\<close>

  \<^item> \<open>Prelude\<close>: bytes, C strings, network byte order, the faults of a run (type \<open>fault\<close>) and
    the sequencing \<open>andThen\<close> of operations that may fault.  \<open>Transition\<close>: reachable states and
    the locale \<open>inv_system\<close> of an inductive invariant, interpreted in \<open>Epdg_Db\<close>, \<open>Gsup_Client\<close>,
    \<open>Ipa_Client\<close>, \<open>Mem_Pool\<close>, \<open>Eap_Aka_Server\<close>, \<open>Eap_Authenticator\<close> and \<open>Eap_Ike\<close>, and \<open>ranked_system\<close> of a rank that every step lowers.
  \<^item> \<open>Probing\<close>, \<open>Dict\<close>, \<open>Hashtable\<close>: \<open>libstrongswan/collections/hashtable.c\<close>, the open hash
    table behind the database.  Rows hold indices into the array of pairs, as in the code.
    \<open>Dict\<close> is the contract of a dictionary as a locale; the table is an interpretation of it,
    and the database rests on the contract only.  The hash function is a parameter.
  \<^item> \<open>Epdg_Utils\<close>: \<open>osmo_epdg_utils.c\<close>, extraction and validation of the IMSI and the APN.
  \<^item> \<open>Host\<close>: \<open>libstrongswan/networking/host.c\<close>, addresses as the plugin and the pool use them.
  \<^item> \<open>Epdg_Ue\<close>: \<open>osmo_epdg_ue.c\<close>, the UE object, on a heap: an address whose object was freed
    faults with \<open>UseAfterFree\<close>; the read lock is a counter, and a writer that finds it held
    faults with \<open>Blocked\<close>.
  \<^item> \<open>Epdg_Db\<close>: \<open>osmo_epdg_db.c\<close>, the subscriber database; its operations, atomic under the
    database lock, are the steps of \<open>db_step\<close>, with the references each thread holds.
  \<^item> \<open>Epdg_Listener\<close> and \<open>Epdg_Provider\<close>: \<open>osmo_epdg_listener.c\<close> and \<open>osmo_epdg_provider.c\<close>,
    every hook with every error exit.  What the GSUP client answers is an argument.
  \<^item> \<open>Osmo_Gsup\<close>: the GSUP message as the plugin reads and writes it.  \<open>Gsup_Messages\<close>: the
    requests \<open>gsup_client.c\<close> builds.  \<open>Blocking_Queue\<close>:
    \<open>libstrongswan/collections/blocking_queue.c\<close>, a first-in first-out queue (locale \<open>fifo\<close>).
    \<open>Gsup_Client\<close>: the request machinery of \<open>gsup_client.c\<close>.  Requesting threads, the sender
    job and the receiver are program counters over shared request objects with reference
    count, mutex, lock and condition; every lock, queue or wait operation is one step of the
    relation, so that all interleavings are covered.
  \<^item> \<open>Ipa_Client\<close>: \<open>ipa_client.c\<close>, framing, base protocol and reconnection, with \<open>read_all\<close> of
    \<open>libstrongswan/networking/streams/stream.c\<close>.
  \<^item> \<open>Esp_Context\<close>: \<open>libipsec/esp_context.c\<close>, sequence numbers and anti-replay window of the
    tunnel, on 32-bit words.
  \<^item> \<open>Bio\<close>: \<open>libstrongswan/bio/bio_writer.c\<close> and \<open>bio_reader.c\<close>.  A byte of the writer's buffer
    that was allocated and not yet written is \<open>None\<close>; a store beyond the buffer faults.
  \<^item> \<open>Mem_Pool\<close>: \<open>libcharon/attributes/mem_pool.c\<close>, the pool of virtual addresses.
  \<^item> \<open>Chunk\<close>: \<open>libstrongswan/utils/chunk.c\<close>, comparison, search and increment of octet strings, their
    hexadecimal and base 64 notations, and SipHash.
  \<^item> \<open>Simaka_Message\<close>, \<open>Simaka_Crypto\<close>, \<open>Simaka_Manager\<close>: \<open>libsimaka\<close>, the messages of EAP-AKA as
    the code parses and generates them in place (buffers of 1024 and 512 octets on the stack,
    pointers into the message or into decrypted data), the derivation of keys, and the manager
    that asks providers and cards in turn.
  \<^item> \<open>Eap_Aka\<close>, \<open>Eap_Aka_Server\<close>, \<open>Eap_Aka_Peer\<close>: \<open>libcharon/plugins/eap_aka\<close>, the two sides of the
    method.  A round of the server, a response answered by a request, is a step of \<open>aka_round\<close>;
    the server interprets \<open>inv_system\<close> and \<open>ranked_system\<close>.
  \<^item> \<open>Milenage\<close> and \<open>Aka_3gpp\<close>: \<open>libcharon/plugins/eap_aka_3gpp\<close>, the functions f1 to f5* byte by byte
    beside the formulas of TS 35.206 on 128-bit words, and the software USIM and the provider
    built on them, with their sequence numbers.
  \<^item> \<open>Simaka_Reauth\<close>: \<open>libcharon/plugins/eap_simaka_reauth\<close>, where server and peer keep identities,
    counters and keys for a fast re-authentication.
  \<^item> \<open>Aka_Exchange\<close>, \<open>Aka_Resync\<close>, \<open>Aka_Reauth\<close>: the two sides of the method together.  \<open>Aka_Exchange\<close>
    has one round after the other, with any backends and with the provider of the plugin;
    \<open>Aka_Resync\<close> has the driver \<open>conversation\<close>, which alternates peer and server, and runs it with
    the 3GPP backends; \<open>Aka_Reauth\<close> runs it with those and the re-authentication backends, as the
    managers ask them in turn.
  \<^item> \<open>Traffic_Selector\<close>: \<open>libstrongswan/selectors/traffic_selector.c\<close>, the ranges of addresses and
    ports a tunnel carries, on octet arrays and 16-bit ports.
  \<^item> \<open>Prf_Plus\<close>, \<open>Iv_Gen\<close>, \<open>Aead\<close>, \<open>Proposal\<close>: from \<open>libstrongswan/crypto\<close> the key expansion
    (\<open>prf_plus.c\<close>, with its 8-bit counter), the generators of initialisation vectors (\<open>iv\<close>), the
    combination of cipher and signature (\<open>aead.c\<close>) and the negotiation of algorithms
    (\<open>proposal/proposal.c\<close>); \<open>Aead\<close> also has the encrypted fragments of
    \<open>libcharon/encoding/payloads/encrypted_payload.c\<close>.
  \<^item> \<open>Keymat_V2\<close>: \<open>libcharon/sa/ikev2/keymat_v2.c\<close>, the keys of an IKE SA and of its child SAs, and
    the octets and signatures of the AUTH payloads, on the four theories before.
  \<^item> \<open>Eap_Manager\<close>, \<open>Eap_Payload\<close>, \<open>Eap_Authenticator\<close>: \<open>libcharon/sa/eap/eap_manager.c\<close>,
    \<open>libcharon/encoding/payloads/eap_payload.c\<close> and
    \<open>libcharon/sa/ikev2/authenticators/eap_authenticator.c\<close>, how IKE_AUTH carries an EAP method: the
    methods there are, the messages, and the two sides, which exchange AUTH payloads under the MSK
    of the method (with what they use of \<open>auth_cfg.c\<close>).  \<open>auth_run\<close> drives both sides; a round of
    the server is a step of \<open>eap_server_step\<close>.
  \<^item> \<open>Bus\<close>: \<open>libcharon/bus/bus.c\<close>, the listeners and the loops that announce an event to them or ask
    for their consent, with the listener of the plugin.
  \<^item> \<open>Eap_Ike\<close>: the whole session.  EAP-AKA as a method of the authenticator, the bus with the
    listener of the plugin as its hook, and keys from \<open>Keymat_V2\<close>.

  \<^bold>\<open>What is shown.\<close>

  \<^item> \<^emph>\<open>Memory and locks.\<close>  Reference counts of UEs and of requests are exact in every reachable
    state, so nothing is used after it was freed.  Two defects are theorems: a UE whose
    attributes were enumerated once blocks its next writer, and a response that races with a
    timeout leaves requester and receiver waiting for each other for ever.
  \<^item> \<^emph>\<open>Handlers.\<close>  The result, the state of the UE, its address and attributes and the table of
    the database after \<open>eap_authorize\<close> and \<open>authorize\<close> on every path, a blocked lock and a
    failed creation included; the database acts as a map from IMSI to UE; \<open>acquire_address\<close> hands out the address
    \<open>authorize\<close> stored; the decoder of the protocol configuration options inverts an encoder.
  \<^item> \<^emph>\<open>Exchange.\<close>  A call returns only a response that carries its IMSI and belongs to its message
    type; an undisturbed exchange completes; once the sender job has ended, which it does when
    it loses a race, no later request is answered.  A frame is delivered unchanged however the
    stream splits its header; at most one reconnection is pending, and one is whenever there
    is no stream; the back-off doubles up to its bound.
  \<^item> \<^emph>\<open>Containers.\<close>  The hash table refines a finite map, and its probing stops; the queue is
    first-in first-out; the reader reads back what the writer wrote.
  \<^item> \<^emph>\<open>Tunnel.\<close>  The anti-replay window answers as a receiver that remembers all numbers; outbound
    numbers never cycle; leases of the pool are exclusive and none is lost; narrowing of
    traffic selectors is intersection, with no subset just when no packet is common (except for
    ICMP, where it is not, and for selectors without an address yet), and the selector of a
    subnet covers the hosts with its prefix.
  \<^item> \<^emph>\<open>Authentication.\<close>  A generated message is read back by a receiver with the same keys; the
    parser is safe on well-framed attributes, and twelve octets suffice to break it on others.
    The server succeeds only for a peer that proves knowledge of what a provider issued for the
    reported identity; a conversation has at most four rounds, whatever the peer sends; with an
    honest peer it completes, and both sides hold the same MSK.
  \<^item> \<^emph>\<open>USIM and provider.\<close>  The functions are those of TS 35.206.  A card that checks sequence
    numbers accepts a vector just when its number is newer, and no vector twice; without the check,
    which is how the build configures it by default, the card accepts any.  When it rejects one,
    resynchronisation heals, and the whole conversation completes whatever the two sequence numbers are.  The
    time that should start them is lost in a conversion, and a synchronization failure before
    any challenge stops the process: both are theorems.
  \<^item> \<^emph>\<open>Re-authentication.\<close>  A full authentication leaves both sides ready for a fast one; a fast one
    completes in two rounds with a fresh MSK on both sides and leaves them ready again.
  \<^item> \<^emph>\<open>Keys of the tunnel.\<close>  The expansion is prf+ of RFC 7296; initiator and responder derive the
    same keys, from the SKEYSEED of that RFC, with directions exchanged, and expect each other's AUTH values; a proposal is
    selected exactly if every transform type is acceptable, with the first common algorithm of
    the preferred side; an encrypted fragment is decrypted to what was encrypted, and never
    without a valid signature; sequential initialisation vectors do not repeat below \<open>2^63\<close>.  The
    default AEAD proposal for ESP lacks a transform and is never selected.
  \<^item> \<^emph>\<open>Session.\<close>  The server completes IKE_AUTH only for a peer that answered a vector of a provider
    with its RES, whose IMSI the core network accepted, and that proved knowledge of the MSK in its
    AUTH payload; with an honest client the session completes on both sides.  The tunnel that
    follows is that of the IKE identity, which the code never compares with the authenticated
    one: a theorem has a subscriber that is given the tunnel of another.  A Nak lists the methods
    of the peer.

  \<^bold>\<open>Bounds and fuel.\<close>  Loops are structural or come with a measure.  The probing loops of the
  hash table carry fuel, the number of rows, which is shown to be enough since the probing
  sequence visits every row.  The growth of the writer's buffer and the loop over an identity
  request are partial functions with option result, and each is proved to return (\<open>Bio\<close>,
  \<open>id_tag_loop_stops\<close>).  So is the loop of the key expansion, which returns for every PRF with a
  block of at least one octet (\<open>prf_plus_expansion\<close>).  The loop over the attributes of an EAP message is one as well; it does
  not always return, and both cases are theorems (\<open>simaka_parse_safe\<close>, \<open>simaka_malformed_attributes\<close>).
  The exchange of IKE_AUTH messages (\<open>auth_run\<close>) takes a bound on the requests, and the theorems give one
  that is enough.  Reference counts are unbounded naturals (the code counts in 32 bits).  Memory allocation
  succeeds.

  \<^bold>\<open>Parameters.\<close>  libosmocore (message buffers, GSUP encoder and decoder, protocol constants) is not
  in the repository: its functions are arguments, with their documented behaviour as the
  hypotheses \<open>msgb_laws\<close> and the like, and every property that has such a hypothesis is applied
  to a concrete instance by its witness.  The same holds of sockets, of the credential manager,
  of hash functions, of the cryptographic algorithms (\<open>aka_laws\<close>, AES in \<open>aes_laws\<close>, PRFs in
  \<open>prf_laws\<close>, ciphers and signatures in \<open>crypter_good\<close>, \<open>signer_good\<close> and \<open>combined_good\<close>), of random
  numbers, and, outside \<open>Aka_3gpp\<close>, of the USIM.  The EAP method and the hook of
  \<open>Eap_Authenticator\<close> are parameters of that theory, and given in \<open>Eap_Ike\<close>; what turns octets into
  an identity is one in both.  Integers in memory are those of a 64-bit
  little-endian machine.

  \<^bold>\<open>Not modelled.\<close>  The IKE core of charon beyond key material, proposals, encrypted
  fragments, EAP authentication and the bus: IKE messages, tasks and the state machine of an IKE
  SA, which call the modelled parts; authentication by certificates; loggers; IKEv1; EAP-SIM; cryptographic
  plugins; kernel interfaces; the registration in \<open>osmo_epdg_plugin.c\<close>; debug output and the
  freeing of memory other than UEs and requests; container files and scripts.
\<close>

end
